(* ===== verification/Ulpf_Prelude.thy ===== *)
theory Ulpf_Prelude
  imports Main "HOL-Library.Word"
begin

text \<open>
  Shared vocabulary of the development: the Python values the program passes around
  (\<open>pyval\<close>), the exceptions it raises (\<open>exn\<close>, carried as \<open>Inl\<close> of a result), insertion-ordered
  dictionaries, the fragment of \<^verbatim>\<open>str\<close> / \<^verbatim>\<open>bytes\<close> the sources call, and the generic lemmas on
  them that the component theories use.

  Text is a \<open>string\<close>: one \<open>char\<close> per code point; code points beyond Latin-1 are all represented by SUB. Raw events and digests are
  byte lists (\<open>8 word list\<close>).
\<close>

named_theorems dict_simps \<open>lookup and update equations of insertion-ordered dictionaries\<close>
named_theorems text_simps \<open>equations of the Python string operations\<close>
named_theorems exn_simps \<open>equations of results that may be an exception\<close>

section \<open>Values, exceptions, results\<close>

type_synonym byte = "8 word"
type_synonym bytes = "byte list"

datatype pyval =
    PNone
  | PBool bool
  | PInt int
  | PFloat string
  | PStr string
  | PList "pyval list"
  | PDict "(string \<times> pyval) list"

type_synonym pydict = "(string \<times> pyval) list"

datatype exn =
    ValueError string
  | IndexError string
  | KeyError string
  | TypeError string
  | OverflowError string
  | OSError string
  | RuntimeError string
  | AttributeError string
  | InvalidOperation string
  | AssertionError string
  | IngestError string
  | PipelineStoppedError string
  | ParseError string pydict
  | MappingError string pydict

text \<open>Which \<^verbatim>\<open>except\<close> clause an exception reaches.\<close>

definition is_value_error :: "exn \<Rightarrow> bool" where
  "is_value_error x = (case x of ValueError _ \<Rightarrow> True | _ \<Rightarrow> False)"

definition is_lookup_or_value_error :: "exn \<Rightarrow> bool" where
  "is_lookup_or_value_error x =
     (case x of ValueError _ \<Rightarrow> True | KeyError _ \<Rightarrow> True | TypeError _ \<Rightarrow> True | _ \<Rightarrow> False)"

lemma is_value_error_simps [simp]:
  "is_value_error (ValueError m)" "\<not> is_value_error (OverflowError m)"
  by (simp_all add: is_value_error_def)

lemma is_lookup_or_value_error_simps [simp]:
  "is_lookup_or_value_error (ValueError m)" "is_lookup_or_value_error (KeyError m)"
  "is_lookup_or_value_error (TypeError m)" "\<not> is_lookup_or_value_error (OverflowError m)"
  by (simp_all add: is_lookup_or_value_error_def)

type_synonym 'a res = "exn + 'a"

definition bind_res :: "'a res \<Rightarrow> ('a \<Rightarrow> 'b res) \<Rightarrow> 'b res" where
  "bind_res r f = (case r of Inl e \<Rightarrow> Inl e | Inr x \<Rightarrow> f x)"

fun map_res :: "('a \<Rightarrow> 'b res) \<Rightarrow> 'a list \<Rightarrow> 'b list res" where
  "map_res f [] = Inr []"
| "map_res f (x # xs) = bind_res (f x) (\<lambda>y. bind_res (map_res f xs) (\<lambda>ys. Inr (y # ys)))"

section \<open>Insertion-ordered dictionaries\<close>

text \<open>
  A Python \<^verbatim>\<open>dict\<close> keeps first-insertion order and one entry per key: assigning to a key that is
  present replaces its value in place, assigning to a new key appends.
\<close>

fun dict_set :: "'k \<Rightarrow> 'v \<Rightarrow> ('k \<times> 'v) list \<Rightarrow> ('k \<times> 'v) list" where
  "dict_set k v [] = [(k, v)]"
| "dict_set k v ((k', v') # d) = (if k' = k then (k, v) # d else (k', v') # dict_set k v d)"

fun dict_pop :: "'k \<Rightarrow> ('k \<times> 'v) list \<Rightarrow> ('k \<times> 'v) list" where
  "dict_pop k [] = []"
| "dict_pop k ((k', v') # d) = (if k' = k then d else (k', v') # dict_pop k d)"

definition dict_update :: "('k \<times> 'v) list \<Rightarrow> ('k \<times> 'v) list \<Rightarrow> ('k \<times> 'v) list" where
  "dict_update d e = fold (\<lambda>(k, v) a. dict_set k v a) e d"

definition dict_ok :: "('k \<times> 'v) list \<Rightarrow> bool" where
  "dict_ok d \<longleftrightarrow> distinct (map fst d)"

lemma bind_res_simps [simp, exn_simps]:
  "bind_res (Inl e) f = Inl e"
  "bind_res (Inr x) f = f x"
  by (simp_all add: bind_res_def)

lemma bind_res_Inr_iff [exn_simps]: "bind_res r f = Inr y \<longleftrightarrow> (\<exists>x. r = Inr x \<and> f x = Inr y)"
  by (cases r) auto

lemma map_res_Inr_iff: "map_res f xs = Inr ys \<longleftrightarrow> list_all2 (\<lambda>x y. f x = Inr y) xs ys"
  by (induction xs arbitrary: ys) (auto simp: bind_res_Inr_iff list_all2_Cons1)

lemma map_of_dict_set [simp, dict_simps]:
  "map_of (dict_set k v d) = (map_of d)(k \<mapsto> v)"
  by (induction d) auto

lemma keys_dict_set [dict_simps]: "fst ` set (dict_set k v d) = insert k (fst ` set d)"
proof (induction d)
  case (Cons p d)
  then show ?case
    by (cases p) (simp add: insert_commute)
qed simp

lemma dict_ok_set [simp]: "dict_ok d \<Longrightarrow> dict_ok (dict_set k v d)"
proof (induction d)
  case (Cons p d)
  then show ?case
    by (cases p) (auto simp add: dict_ok_def keys_dict_set)
qed (simp add: dict_ok_def)

lemma dict_ok_Nil [simp]: "dict_ok []"
  by (simp add: dict_ok_def)

lemma map_of_dict_pop [dict_simps]:
  "dict_ok d \<Longrightarrow> map_of (dict_pop k d) = (map_of d)(k := None)"
proof (induction d)
  case (Cons p d)
  then show ?case
    by (cases p) (auto simp: dict_ok_def fun_eq_iff map_of_eq_None_iff)
qed simp

lemma keys_dict_pop_subset: "set (dict_pop k d) \<subseteq> set d"
  by (induction d) (auto split: if_splits)

lemma dict_ok_pop [simp]: "dict_ok d \<Longrightarrow> dict_ok (dict_pop k d)"
proof (induction d)
  case (Cons p d)
  then show ?case
    using keys_dict_pop_subset[of k d] by (cases p) (simp add: dict_ok_def, blast)
qed simp

lemma dict_update_Nil [simp]: "dict_update d [] = d"
  by (simp add: dict_update_def)

lemma dict_update_Cons [simp]: "dict_update d ((k, v) # e) = dict_update (dict_set k v d) e"
  by (simp add: dict_update_def)

lemma dict_ok_update [simp]: "dict_ok d \<Longrightarrow> dict_ok (dict_update d e)"
proof (induction e arbitrary: d)
  case (Cons p e)
  then show ?case
    by (cases p) simp
qed simp

lemma map_of_dict_update [dict_simps]:
  "map_of (dict_update d e) = map_of d ++ map_of (rev e)"
proof (induction e arbitrary: d)
  case (Cons p e)
  then show ?case
    by (cases p) (simp add: map_add_def fun_eq_iff split: option.splits)
qed simp

lemma keys_dict_update: "fst ` set (dict_update d e) = fst ` set d \<union> fst ` set e"
proof (induction e arbitrary: d)
  case (Cons p e)
  then show ?case
    by (cases p) (simp add: keys_dict_set)
qed simp

end
