(* ===== verification/Merkle.thy ===== *)
theory Merkle
  imports Sha256
begin

text \<open>
  The Merkle tree of \<^verbatim>\<open>ulpf/integrity/merkle.py\<close>: the root of a batch of leaf hashes, the
  authentication path of one leaf and its verification, over any digest. The lemmas give the tree
  the code builds level by level as a perfect binary tree over the padded leaf list, completeness
  and soundness of proofs, their length, and how far the root binds the batch.
\<close>

section \<open>Definitions\<close>

type_synonym digest_fn = "bytes \<Rightarrow> bytes"

datatype side = SLeft | SRight | SOther string

type_synonym proof_step = "bytes \<times> side"
type_synonym merkle_path = "proof_step list"

definition leaf_hash :: "digest_fn \<Rightarrow> bytes \<Rightarrow> bytes" where
  "leaf_hash H data = H data"

definition hash_pair :: "digest_fn \<Rightarrow> bytes \<Rightarrow> bytes \<Rightarrow> bytes" where
  "hash_pair H l r = H (l @ r)"

text \<open>\<^verbatim>\<open>[_hash_pair(level[i], level[i + 1]) for i in range(0, len(level), 2)]\<close>, on a level of even length.\<close>

fun pair_up :: "digest_fn \<Rightarrow> bytes list \<Rightarrow> bytes list" where
  "pair_up H (a # b # r) = hash_pair H a b # pair_up H r"
| "pair_up H _ = []"

text \<open>\<^verbatim>\<open>[*level, level[-1]]\<close> when the level has an odd number of nodes.\<close>

definition even_out :: "'a list \<Rightarrow> 'a list" where
  "even_out level = (if odd (length level) then level @ [last level] else level)"

definition hash_level :: "digest_fn \<Rightarrow> bytes list \<Rightarrow> bytes list" where
  "hash_level H level = pair_up H (even_out level)"

lemma length_pair_up [simp]: "length (pair_up H xs) = length xs div 2"
  by (induction H xs rule: pair_up.induct) auto

lemma length_even_out: "length (even_out xs) = 2 * ((length xs + 1) div 2)"
  by (simp add: even_out_def)

lemma length_hash_level [simp]: "length (hash_level H xs) = (length xs + 1) div 2"
  by (simp add: hash_level_def length_even_out)

function collapse :: "digest_fn \<Rightarrow> bytes list \<Rightarrow> bytes list" where
  "collapse H level = (if 1 < length level then collapse H (hash_level H level) else level)"
  by pat_completeness auto
termination
  by (relation "measure (\<lambda>(H, level). length level)") auto

declare collapse.simps [simp del]

definition merkle_root :: "digest_fn \<Rightarrow> bytes list \<Rightarrow> bytes" where
  "merkle_root H leaf_hashes =
     (if leaf_hashes = [] then H [] else collapse H leaf_hashes ! 0)"

function proof_loop :: "digest_fn \<Rightarrow> bytes list \<Rightarrow> nat \<Rightarrow> merkle_path" where
  "proof_loop H level idx =
     (if 1 < length level then
        (let level' = even_out level;
             sibling = level' ! (if even idx then idx + 1 else idx - 1)
         in (sibling, if even idx then SRight else SLeft) # proof_loop H (pair_up H level') (idx div 2))
      else [])"
  by pat_completeness auto
termination
  by (relation "measure (\<lambda>(H, level, idx). length level)") (auto simp: length_even_out)

declare proof_loop.simps [simp del]

definition merkle_proof :: "digest_fn \<Rightarrow> bytes list \<Rightarrow> int \<Rightarrow> merkle_path res" where
  "merkle_proof H leaf_hashes index =
     (if leaf_hashes = [] then Inl (ValueError ''cannot build a Merkle proof for an empty tree'')
      else if \<not> (0 \<le> index \<and> index < int (length leaf_hashes)) then Inl (IndexError ''out of range'')
      else Inr (proof_loop H leaf_hashes (nat index)))"

fun fold_path :: "digest_fn \<Rightarrow> bytes \<Rightarrow> merkle_path \<Rightarrow> bytes res" where
  "fold_path H computed [] = Inr computed"
| "fold_path H computed ((sibling, SLeft) # p) = fold_path H (hash_pair H sibling computed) p"
| "fold_path H computed ((sibling, SRight) # p) = fold_path H (hash_pair H computed sibling) p"
| "fold_path H computed ((sibling, SOther s) # p) = Inl (ValueError ''invalid proof side'')"

definition verify_proof :: "digest_fn \<Rightarrow> bytes \<Rightarrow> merkle_path \<Rightarrow> bytes \<Rightarrow> bool res" where
  "verify_proof H leaf p root = bind_res (fold_path H leaf p) (\<lambda>computed. Inr (computed = root))"

text \<open>
  Specification level: the tree read from the root down. A level that is too short for its height
  has its missing right subtree replaced by a copy of the left one.
\<close>

fun tree_root :: "digest_fn \<Rightarrow> nat \<Rightarrow> bytes list \<Rightarrow> bytes" where
  "tree_root H 0 xs = hd xs"
| "tree_root H (Suc k) xs =
     (if length xs \<le> 2 ^ k then hash_pair H (tree_root H k xs) (tree_root H k xs)
      else hash_pair H (tree_root H k (take (2 ^ k) xs)) (tree_root H k (drop (2 ^ k) xs)))"

fun tree_height :: "nat \<Rightarrow> nat" where
  "tree_height n = (if n \<le> 1 then 0 else Suc (tree_height ((n + 1) div 2)))"

declare tree_height.simps [simp del]

text \<open>The messages the digest is applied to while a root, or the end of a path, is computed.\<close>

fun pair_msgs :: "bytes list \<Rightarrow> bytes list" where
  "pair_msgs (a # b # r) = (a @ b) # pair_msgs r"
| "pair_msgs _ = []"

function merkle_msgs :: "digest_fn \<Rightarrow> bytes list \<Rightarrow> bytes list" where
  "merkle_msgs H level =
     (if 1 < length level then pair_msgs (even_out level) @ merkle_msgs H (hash_level H level) else [])"
  by pat_completeness auto
termination
  by (relation "measure (\<lambda>(H, level). length level)") auto

declare merkle_msgs.simps [simp del]

fun path_msgs :: "digest_fn \<Rightarrow> bytes \<Rightarrow> merkle_path \<Rightarrow> bytes list" where
  "path_msgs H computed [] = []"
| "path_msgs H computed ((sibling, SLeft) # p) =
     (sibling @ computed) # path_msgs H (hash_pair H sibling computed) p"
| "path_msgs H computed ((sibling, SRight) # p) =
     (computed @ sibling) # path_msgs H (hash_pair H computed sibling) p"
| "path_msgs H computed ((sibling, SOther s) # p) = []"

section \<open>The level loop\<close>

lemma collapse_single [simp]: "length xs \<le> 1 \<Longrightarrow> collapse H xs = xs"
  by (subst collapse.simps) simp

lemma collapse_step: "1 < length xs \<Longrightarrow> collapse H xs = collapse H (hash_level H xs)"
  by (subst collapse.simps) simp

lemma proof_loop_single [simp]: "length xs \<le> 1 \<Longrightarrow> proof_loop H xs i = []"
  by (subst proof_loop.simps) simp

lemma proof_loop_step:
  "1 < length xs \<Longrightarrow> proof_loop H xs i =
     (even_out xs ! (if even i then i + 1 else i - 1), if even i then SRight else SLeft)
       # proof_loop H (hash_level H xs) (i div 2)"
  by (subst proof_loop.simps) (simp add: Let_def hash_level_def)

lemma length_collapse: "xs \<noteq> [] \<Longrightarrow> length (collapse H xs) = 1"
proof (induction H xs rule: collapse.induct)
  case (1 H xs)
  show ?case
  proof (cases "1 < length xs")
    case True
    then have "hash_level H xs \<noteq> []"
      by (simp flip: length_greater_0_conv)
    with 1 True show ?thesis by (simp add: collapse_step)
  next
    case False
    with 1 show ?thesis by (cases xs) auto
  qed
qed

lemma nth_pair_up:
  "i < length xs div 2 \<Longrightarrow> pair_up H xs ! i = hash_pair H (xs ! (2 * i)) (xs ! (2 * i + 1))"
proof (induction H xs arbitrary: i rule: pair_up.induct)
  case (1 H a b r)
  then show ?case by (cases i) auto
qed auto

lemma nth_even_out: "i < length xs \<Longrightarrow> even_out xs ! i = xs ! i"
  by (simp add: even_out_def nth_append)

lemma nth_hash_level:
  "i < (length xs + 1) div 2 \<Longrightarrow>
     hash_level H xs ! i = hash_pair H (even_out xs ! (2 * i)) (even_out xs ! (2 * i + 1))"
  by (simp add: hash_level_def nth_pair_up length_even_out)

section \<open>Completeness of proofs\<close>

lemma fold_path_proof_loop:
  "i < length xs \<Longrightarrow> fold_path H (xs ! i) (proof_loop H xs i) = Inr (collapse H xs ! 0)"
proof (induction H xs i rule: proof_loop.induct)
  case (1 H xs i)
  show ?case
  proof (cases "1 < length xs")
    case False
    with "1.prems" have "length xs \<le> 1" "i = 0" by auto
    then show ?thesis by simp
  next
    case True
    let ?ys = "hash_level H xs"
    have half: "i div 2 < length ?ys"
      using "1.prems" by simp
    have IH: "fold_path H (?ys ! (i div 2)) (proof_loop H ?ys (i div 2)) = Inr (collapse H ?ys ! 0)"
      using "1.IH" [OF True refl refl] half by (simp add: hash_level_def)
    have node: "?ys ! (i div 2) = hash_pair H (even_out xs ! (2 * (i div 2))) (even_out xs ! (2 * (i div 2) + 1))"
      using half by (simp add: nth_hash_level)
    show ?thesis
    proof (cases "even i")
      case True
      then show ?thesis
        using IH node \<open>1 < length xs\<close> "1.prems"
        by (simp add: proof_loop_step collapse_step nth_even_out)
    next
      case False
      then have "2 * (i div 2) = i - 1" "2 * (i div 2) + 1 = i" by presburger+
      then show ?thesis
        using IH node False \<open>1 < length xs\<close> "1.prems"
        by (simp add: proof_loop_step collapse_step nth_even_out)
    qed
  qed
qed

text \<open>
  C39. Every leaf of a non-empty batch has an authentication path, and that path verifies against the
  batch root: for an in-range index \<^verbatim>\<open>merkle_proof\<close> returns a path, and \<^verbatim>\<open>verify_proof\<close> of the leaf
  at that index with this path against \<^verbatim>\<open>merkle_root\<close> returns True.
\<close>

theorem merkle_proof_complete:
  assumes "0 \<le> index" and "index < int (length leaves)"
  shows "\<exists>p. merkle_proof H leaves index = Inr p
             \<and> verify_proof H (leaves ! nat index) p (merkle_root H leaves) = Inr True"
proof -
  from assms have "leaves \<noteq> []" and i: "nat index < length leaves" by auto
  with assms show ?thesis
    by (simp add: merkle_proof_def verify_proof_def merkle_root_def fold_path_proof_loop)
qed

theorem merkle_proof_complete_witness:
  "\<exists>p. merkle_proof sha256 [[1], [2], [3]] 2 = Inr p
       \<and> verify_proof sha256 [3] p (merkle_root sha256 [[1], [2], [3]]) = Inr True"
  using merkle_proof_complete [of 2 "[[1], [2], [3]]" sha256] by simp

section \<open>The tree the levels compute\<close>

lemma pair_up_append: "even (length xs) \<Longrightarrow> pair_up H (xs @ ys) = pair_up H xs @ pair_up H ys"
  by (induction H xs rule: pair_up.induct) auto

lemma hash_level_append:
  "even (length xs) \<Longrightarrow> ys \<noteq> [] \<Longrightarrow> hash_level H (xs @ ys) = hash_level H xs @ hash_level H ys"
  by (simp add: hash_level_def even_out_def pair_up_append)

lemma hash_level_split:
  assumes "2 * j < length xs"
  shows "hash_level H (take (2 * j) xs) = take j (hash_level H xs)"
    and "hash_level H (drop (2 * j) xs) = drop j (hash_level H xs)"
proof -
  have "hash_level H xs = hash_level H (take (2 * j) xs) @ hash_level H (drop (2 * j) xs)"
    using assms hash_level_append [of "take (2 * j) xs" "drop (2 * j) xs" H] by simp
  moreover have "length (hash_level H (take (2 * j) xs)) = j"
    using assms by simp
  ultimately show "hash_level H (take (2 * j) xs) = take j (hash_level H xs)"
    and "hash_level H (drop (2 * j) xs) = drop j (hash_level H xs)"
    by simp_all
qed

lemma tree_root_level:
  "xs \<noteq> [] \<Longrightarrow> length xs \<le> 2 ^ Suc k \<Longrightarrow> tree_root H (Suc k) xs = tree_root H k (hash_level H xs)"
proof (induction k arbitrary: xs)
  case 0
  then consider a where "xs = [a]" | a b where "xs = [a, b]"
    by (cases xs rule: pair_msgs.cases) auto
  then show ?case
    by cases (simp_all add: hash_level_def even_out_def)
next
  case (Suc k)
  let ?m = "2 ^ Suc k :: nat"
  show ?case
  proof (cases "length xs \<le> ?m")
    case True
    then have "(length xs + 1) div 2 \<le> 2 ^ k" by simp
    with True Suc.IH [OF Suc.prems(1) True] show ?thesis by simp
  next
    case False
    then have big: "2 * 2 ^ k < length xs" and "\<not> length (hash_level H xs) \<le> 2 ^ k" by simp_all
    have left: "tree_root H (Suc k) (take ?m xs) = tree_root H k (take (2 ^ k) (hash_level H xs))"
      using Suc.IH [of "take ?m xs"] hash_level_split(1) [OF big, of H] Suc.prems by simp
    have right: "tree_root H (Suc k) (drop ?m xs) = tree_root H k (drop (2 ^ k) (hash_level H xs))"
      using Suc.IH [of "drop ?m xs"] hash_level_split(2) [OF big, of H] Suc.prems False by simp
    show ?thesis
      unfolding tree_root.simps(2) [of H "Suc k" xs] tree_root.simps(2) [of H k "hash_level H xs"]
      using False \<open>\<not> length (hash_level H xs) \<le> 2 ^ k\<close> left right by simp
  qed
qed

lemma tree_height_le_1: "n \<le> 1 \<Longrightarrow> tree_height n = 0"
  by (subst tree_height.simps) simp

lemma tree_height_step: "1 < n \<Longrightarrow> tree_height n = Suc (tree_height ((n + 1) div 2))"
  by (subst tree_height.simps) simp

lemmas tree_height_eval = tree_height_le_1 tree_height_step

lemma le_two_power_height: "n \<le> 2 ^ tree_height n"
proof (induction n rule: tree_height.induct)
  case (1 n)
  then show ?case
    by (cases "n \<le> 1") (simp_all add: tree_height_le_1 tree_height_step [of n])
qed

lemma less_div_imp_double: "a < (n + 1) div 2 \<Longrightarrow> 2 * a < (n::nat)"
  by linarith

lemma two_power_height_less: "1 < n \<Longrightarrow> 2 ^ (tree_height n - 1) < n"
proof (induction n rule: tree_height.induct)
  case (1 n)
  let ?m = "(n + 1) div 2"
  have h: "tree_height n = Suc (tree_height ?m)"
    using "1.prems" by (simp add: tree_height_step [of n])
  show ?case
  proof (cases "1 < ?m")
    case False
    then have "tree_height ?m = 0" by (simp add: tree_height_le_1)
    with h "1.prems" show ?thesis by simp
  next
    case True
    then have "2 ^ (tree_height ?m - 1) < ?m" using "1" by simp
    moreover have "tree_height ?m = Suc (tree_height ?m - 1)"
      using tree_height_step [OF True] by simp
    ultimately have "2 ^ tree_height ?m < n"
      by (metis less_div_imp_double power_Suc)
    with h show ?thesis by simp
  qed
qed

lemma collapse_tree_root: "xs \<noteq> [] \<Longrightarrow> collapse H xs ! 0 = tree_root H (tree_height (length xs)) xs"
proof (induction H xs rule: collapse.induct)
  case (1 H xs)
  show ?case
  proof (cases "1 < length xs")
    case False
    with "1.prems" show ?thesis
      by (cases xs) (simp_all add: tree_height_le_1)
  next
    case True
    let ?ys = "hash_level H xs"
    have ne: "?ys \<noteq> []" using True by (simp flip: length_greater_0_conv)
    have h: "tree_height (length xs) = Suc (tree_height (length ?ys))"
      using True by (simp add: tree_height_step [of "length xs"])
    have "length xs \<le> 2 ^ Suc (tree_height (length ?ys))"
      using le_two_power_height [of "length xs"] h by simp
    then have "tree_root H (tree_height (length xs)) xs = tree_root H (tree_height (length ?ys)) ?ys"
      unfolding h using tree_root_level "1.prems" by blast
    with "1.IH" [OF True ne] True show ?thesis by (simp add: collapse_step)
  qed
qed

text \<open>
  The level-by-level loop computes the recursive Merkle tree: the root of a non-empty batch of
  \<open>n\<close> leaves is the root of the binary tree of height \<open>\<lceil>log\<^sub>2 n\<rceil>\<close> whose missing right subtrees are
  copies of their left siblings.
\<close>

theorem merkle_root_is_tree_root:
  assumes "leaves \<noteq> []"
  shows "merkle_root H leaves = tree_root H (tree_height (length leaves)) leaves"
  using assms by (simp add: merkle_root_def collapse_tree_root)

theorem merkle_root_is_tree_root_witness:
  "merkle_root sha256 [[1], [2], [3]]
     = hash_pair sha256 (hash_pair sha256 [1] [2]) (hash_pair sha256 [3] [3])"
proof -
  have "tree_height (Suc (Suc (Suc 0))) = Suc (Suc 0)" by (simp add: tree_height_eval)
  then show ?thesis
    using merkle_root_is_tree_root [of "[[1], [2], [3]]" sha256] by simp
qed

lemma length_proof_loop: "length (proof_loop H xs i) = tree_height (length xs)"
proof (induction H xs i rule: proof_loop.induct)
  case (1 H xs i)
  then show ?case
    by (cases "1 < length xs")
      (simp_all add: proof_loop_step hash_level_def length_even_out tree_height_le_1
         tree_height_step [of "length xs"])
qed

text \<open>
  Proofs are logarithmic: the path for a batch of \<open>n > 1\<close> leaves has exactly \<open>\<lceil>log\<^sub>2 n\<rceil>\<close> steps,
  \<open>2 ^ (steps - 1) < n \<le> 2 ^ steps\<close>, and the single leaf's path is empty.
\<close>

theorem merkle_proof_length:
  assumes "merkle_proof H leaves index = Inr p"
  shows "length leaves \<le> 2 ^ length p \<and> (if 1 < length leaves then 2 ^ (length p - 1) < length leaves else p = [])"
proof -
  from assms have "p = proof_loop H leaves (nat index)" "leaves \<noteq> []"
    by (auto simp: merkle_proof_def split: if_splits)
  then show ?thesis
    using le_two_power_height two_power_height_less by (auto simp: length_proof_loop)
qed

theorem merkle_proof_length_witness:
  "length (proof_loop sha256 [[1], [2], [3], [4], [5]] 3) - 1 = 2
   \<and> (2::nat) ^ (length (proof_loop sha256 [[1], [2], [3], [4], [5]] 3) - 1) < 5"
  using merkle_proof_length [of sha256 "[[1], [2], [3], [4], [5]]" 3]
  by (simp add: merkle_proof_def length_proof_loop tree_height_eval)

section \<open>What a root binds\<close>

lemma pair_msgs_inj:
  assumes "map H (pair_msgs xs) = map H (pair_msgs ys)"
    and "inj_on H (set (pair_msgs xs) \<union> set (pair_msgs ys))"
    and "length xs = length ys" and "even (length xs)"
    and "\<forall>x \<in> set xs \<union> set ys. length x = n"
  shows "xs = ys"
  using assms
proof (induction xs arbitrary: ys rule: pair_msgs.induct)
  case (1 a b r)
  then obtain c d s where ys: "ys = c # d # s"
    by (cases ys rule: pair_msgs.cases) auto
  have "a @ b = c @ d"
    using "1.prems"(2) by (rule inj_onD) (use "1.prems"(1) ys in auto)
  then have "a = c \<and> b = d" using "1.prems"(5) by (simp add: ys)
  moreover have "r = s"
  proof (rule "1.IH")
    show "inj_on H (set (pair_msgs r) \<union> set (pair_msgs s))"
      using "1.prems"(2) by (rule inj_on_subset) (auto simp: ys)
  qed (use "1.prems" ys in auto)
  ultimately show ?case by (simp add: ys)
qed auto

lemma pair_up_msgs: "pair_up H xs = map H (pair_msgs xs)"
  by (induction H xs rule: pair_up.induct) (simp_all add: hash_pair_def)

lemma even_out_inj: "length xs = length ys \<Longrightarrow> even_out xs = even_out ys \<Longrightarrow> xs = ys"
  by (auto simp: even_out_def split: if_splits)

lemma set_even_out: "set (even_out xs) = set xs"
  by (cases "xs = []") (auto simp: even_out_def)

lemma even_length_even_out [simp]: "even (length (even_out xs))"
  by (simp add: length_even_out)

lemma merkle_msgs_step:
  "1 < length xs \<Longrightarrow> set (merkle_msgs H xs) =
     set (pair_msgs (even_out xs)) \<union> set (merkle_msgs H (hash_level H xs))"
  by (subst merkle_msgs.simps) simp

lemma length_hash_level_nodes: "digest32 H \<Longrightarrow> \<forall>x \<in> set (hash_level H xs). length x = 32"
  by (simp add: hash_level_def pair_up_msgs digest32.digest_length)

lemma collapse_inj:
  "length xs = length ys \<Longrightarrow> xs \<noteq> [] \<Longrightarrow> collapse H xs ! 0 = collapse H ys ! 0 \<Longrightarrow>
     \<forall>x \<in> set xs \<union> set ys. length x = 32 \<Longrightarrow>
     inj_on H (set (merkle_msgs H xs) \<union> set (merkle_msgs H ys)) \<Longrightarrow> digest32 H \<Longrightarrow> xs = ys"
proof (induction H xs arbitrary: ys rule: collapse.induct)
  case (1 H xs)
  show ?case
  proof (cases "1 < length xs")
    case False
    with "1.prems"(1,2) obtain a b where "xs = [a]" "ys = [b]"
      by (cases xs; cases ys) auto
    with "1.prems"(3) show ?thesis by simp
  next
    case True
    let ?hx = "hash_level H xs" and ?hy = "hash_level H ys"
    from True "1.prems"(1) have True': "1 < length ys" by simp
    note msgs = merkle_msgs_step [OF True, of H] merkle_msgs_step [OF True', of H]
    note steps = collapse_step [OF True, of H] collapse_step [OF True', of H]
    have "?hx = ?hy"
    proof (rule "1.IH" [OF True])
      show "length ?hx = length ?hy" using "1.prems"(1) by simp
      show "?hx \<noteq> []" using True by (simp flip: length_greater_0_conv)
      show "collapse H ?hx ! 0 = collapse H ?hy ! 0"
        using "1.prems"(3) by (simp only: steps)
      show "\<forall>x \<in> set ?hx \<union> set ?hy. length x = 32"
        using "1.prems"(6) by (simp add: ball_Un length_hash_level_nodes)
      show "inj_on H (set (merkle_msgs H ?hx) \<union> set (merkle_msgs H ?hy))"
        using "1.prems"(5) by (rule inj_on_subset) (simp only: msgs, blast)
    qed (rule "1.prems"(6))
    then have imgs: "map H (pair_msgs (even_out xs)) = map H (pair_msgs (even_out ys))"
      by (simp add: hash_level_def pair_up_msgs)
    have lens: "length (even_out xs) = length (even_out ys)"
      using "1.prems"(1) by (simp add: length_even_out)
    have inj: "inj_on H (set (pair_msgs (even_out xs)) \<union> set (pair_msgs (even_out ys)))"
      using "1.prems"(5) by (rule inj_on_subset) (simp only: msgs, blast)
    have "even_out xs = even_out ys"
      using imgs inj lens even_length_even_out
      by (rule pair_msgs_inj) (use "1.prems"(4) in \<open>simp only: set_even_out\<close>)
    with "1.prems"(1) show ?thesis by (rule even_out_inj)
  qed
qed

text \<open>
  Tamper evidence of the batch root: two batches with the same number of 32-byte leaves that
  differ anywhere have different roots, unless the digest collides on two of the messages hashed
  while computing the two roots.
\<close>

theorem merkle_root_binding:
  assumes "digest32 H" and "length xs = length ys" and "xs \<noteq> ys"
    and "\<forall>x \<in> set xs \<union> set ys. length x = 32"
    and "inj_on H (set (merkle_msgs H xs) \<union> set (merkle_msgs H ys))"
  shows "merkle_root H xs \<noteq> merkle_root H ys"
proof
  assume eq: "merkle_root H xs = merkle_root H ys"
  from assms(2,3) have "xs \<noteq> []" "ys \<noteq> []" by auto
  with eq have "collapse H xs ! 0 = collapse H ys ! 0" by (simp add: merkle_root_def)
  with assms \<open>xs \<noteq> []\<close> have "xs = ys" by (intro collapse_inj)
  with assms(3) show False ..
qed

definition demo_leaf :: "byte \<Rightarrow> bytes" where
  "demo_leaf b = replicate 32 b"

definition demo_digest :: digest_fn where
  "demo_digest m = replicate 32 (m ! 0 + 3 * m ! 32)"

theorem merkle_root_binding_witness:
  "merkle_root demo_digest [demo_leaf 1, demo_leaf 2] \<noteq> merkle_root demo_digest [demo_leaf 1, demo_leaf 5]"
proof (rule merkle_root_binding)
  show "digest32 demo_digest" by unfold_locales (simp add: demo_digest_def)
qed (simp_all add: demo_leaf_def merkle_msgs.simps [of demo_digest "[_, _]"] merkle_msgs.simps [of demo_digest "[_]"]
  hash_level_def even_out_def demo_digest_def nth_append)

section \<open>Soundness of proofs\<close>

lemma fold_path_inj:
  "fold_path H x p = Inr r \<Longrightarrow> fold_path H y q = Inr r \<Longrightarrow> map snd p = map snd q \<Longrightarrow>
    length x = 32 \<Longrightarrow> length y = 32 \<Longrightarrow> \<forall>s \<in> fst ` (set p \<union> set q). length s = 32 \<Longrightarrow>
    inj_on H (set (path_msgs H x p) \<union> set (path_msgs H y q)) \<Longrightarrow> digest32 H \<Longrightarrow> x = y \<and> p = q"
proof (induction H x p arbitrary: y q rule: fold_path.induct)
  case (2 H x s p)
  then obtain t q' where q: "q = (t, SLeft) # q'" by (cases q) auto
  note len = digest32.digest_length [OF "2.prems"(8)]
  have IH: "hash_pair H s x = hash_pair H t y \<and> p = q'"
  proof (rule "2.IH")
    show "inj_on H (set (path_msgs H (hash_pair H s x) p) \<union> set (path_msgs H (hash_pair H t y) q'))"
      using "2.prems"(7) by (rule inj_on_subset) (auto simp: q)
  qed (use "2.prems" q len in \<open>auto simp: hash_pair_def\<close>)
  have "s = t \<and> x = y"
  proof (rule digest32.pair_injective [OF "2.prems"(8)])
    show "inj_on H {s @ x, t @ y}"
      using "2.prems"(7) by (rule inj_on_subset) (auto simp: q)
  qed (use IH "2.prems"(6) q in \<open>auto simp: hash_pair_def\<close>)
  with IH q show ?case by simp
next
  case (3 H x s p)
  then obtain t q' where q: "q = (t, SRight) # q'" by (cases q) auto
  note len = digest32.digest_length [OF "3.prems"(8)]
  have IH: "hash_pair H x s = hash_pair H y t \<and> p = q'"
  proof (rule "3.IH")
    show "inj_on H (set (path_msgs H (hash_pair H x s) p) \<union> set (path_msgs H (hash_pair H y t) q'))"
      using "3.prems"(7) by (rule inj_on_subset) (auto simp: q)
  qed (use "3.prems" q len in \<open>auto simp: hash_pair_def\<close>)
  have "x = y \<and> s = t"
  proof (rule digest32.pair_injective [OF "3.prems"(8)])
    show "inj_on H {x @ s, y @ t}"
      using "3.prems"(7) by (rule inj_on_subset) (auto simp: q)
  qed (use IH "3.prems"(4,5) in \<open>auto simp: hash_pair_def\<close>)
  with IH q show ?case by simp
qed auto

lemma proof_loop_siblings:
  "i < length xs \<Longrightarrow> \<forall>x \<in> set xs. length x = 32 \<Longrightarrow> digest32 H \<Longrightarrow>
     \<forall>s \<in> fst ` set (proof_loop H xs i). length s = 32"
proof (induction H xs i rule: proof_loop.induct)
  case (1 H xs i)
  show ?case
  proof (cases "1 < length xs")
    case True
    let ?j = "if even i then i + 1 else i - 1"
    have "?j < length (even_out xs)"
      using "1.prems"(1) unfolding length_even_out by (simp; presburger)
    then have "even_out xs ! ?j \<in> set xs"
      using nth_mem set_even_out by metis
    moreover have "\<forall>s \<in> fst ` set (proof_loop H (hash_level H xs) (i div 2)). length s = 32"
      using "1.IH" [OF True refl refl] "1.prems" length_hash_level_nodes [of H xs]
      by (simp add: hash_level_def length_even_out)
    ultimately show ?thesis
      using True "1.prems"(2) by (simp add: proof_loop_step)
  qed simp
qed

text \<open>
  C28. A proof that verifies proves membership: if \<^verbatim>\<open>verify_proof\<close> accepts a 32-byte hash with a path of
  the same left/right shape as the authentication path of position \<open>index\<close>, then the hash is the leaf
  at that position and the path is the one \<^verbatim>\<open>merkle_proof\<close> builds, unless the digest collides on two of
  the messages hashed along the two paths.
\<close>

theorem verify_proof_sound:
  assumes "digest32 H" and "\<forall>x \<in> set leaves. length x = 32"
    and path: "merkle_proof H leaves index = Inr q"
    and accept: "verify_proof H x p (merkle_root H leaves) = Inr True"
    and shape: "map snd p = map snd q" and "length x = 32" and "\<forall>s \<in> fst ` set p. length s = 32"
    and "inj_on H (set (path_msgs H x p) \<union> set (path_msgs H (leaves ! nat index) q))"
  shows "x = leaves ! nat index \<and> p = q"
proof -
  from path have q: "q = proof_loop H leaves (nat index)" and i: "nat index < length leaves"
    and "leaves \<noteq> []"
    by (auto simp: merkle_proof_def split: if_splits)
  have "fold_path H (leaves ! nat index) q = Inr (merkle_root H leaves)"
    using i \<open>leaves \<noteq> []\<close> by (simp add: q fold_path_proof_loop merkle_root_def)
  moreover have "fold_path H x p = Inr (merkle_root H leaves)"
    using accept by (auto simp: verify_proof_def bind_res_Inr_iff)
  moreover have "\<forall>s \<in> fst ` (set p \<union> set q). length s = 32"
    using assms(7) proof_loop_siblings [OF i assms(2,1)] by (auto simp: q)
  ultimately show ?thesis
    using assms i by (intro fold_path_inj) auto
qed

theorem verify_proof_sound_witness:
  "demo_leaf 7 = [demo_leaf 7, demo_leaf 9] ! nat 0
   \<and> [(demo_leaf 9, SRight)] = proof_loop demo_digest [demo_leaf 7, demo_leaf 9] 0"
proof (rule verify_proof_sound)
  show "digest32 demo_digest" by unfold_locales (simp add: demo_digest_def)
qed (simp_all add: demo_leaf_def merkle_proof_def verify_proof_def merkle_root_def proof_loop_step
  collapse_step hash_level_def even_out_def hash_pair_def)

section \<open>What a root does not bind\<close>

lemma hash_level_dup_last:
  "odd (length xs) \<Longrightarrow> hash_level H (xs @ [last xs]) = hash_level H xs"
  by (simp add: hash_level_def even_out_def)

text \<open>
  Appending a copy of the last leaf to a batch of odd size greater than one does not change the
  root, whatever the digest: the root of \<open>n\<close> leaves does not determine \<open>n\<close>.
\<close>

theorem merkle_root_duplicate_last:
  assumes "odd (length leaves)" and "1 < length leaves"
  shows "merkle_root H (leaves @ [last leaves]) = merkle_root H leaves"
proof -
  have ne: "leaves \<noteq> []" using assms(2) by auto
  then have "collapse H (leaves @ [last leaves]) = collapse H leaves"
    using collapse_step [of leaves H] collapse_step [of "leaves @ [last leaves]" H]
      hash_level_dup_last [OF assms(1), of H] assms(2) by simp
  with ne show ?thesis by (simp add: merkle_root_def)
qed

theorem merkle_root_duplicate_last_witness:
  "merkle_root sha256 [[1], [2], [3], [3]] = merkle_root sha256 [[1], [2], [3]]"
  using merkle_root_duplicate_last [of "[[1], [2], [3]]" sha256] by simp

text \<open>
  The error branches of the Merkle functions: no proof for an empty batch, none for an index
  outside it, and a path step whose side is neither left nor right is refused when it is reached.
\<close>

theorem merkle_errors:
  "merkle_proof H [] index = Inl (ValueError ''cannot build a Merkle proof for an empty tree'')
   \<and> (\<exists>m. merkle_proof H (l # ls) (- 1) = Inl (IndexError m))
   \<and> (\<exists>m. merkle_proof H (l # ls) (int (length (l # ls)) + int k) = Inl (IndexError m))
   \<and> (\<exists>m. verify_proof H x ((s, SOther w) # p) root = Inl (ValueError m))
   \<and> merkle_root H [] = H [] \<and> merkle_root H [l] = l"
  by (simp add: merkle_proof_def verify_proof_def merkle_root_def)

end
