(* ===== verification/Py_Text.thy ===== *)
theory Py_Text
  imports Ulpf_Prelude
begin

text \<open>
  The operations of Python's \<^verbatim>\<open>str\<close> and \<^verbatim>\<open>bytes\<close> that the sources use: prefix tests, searching,
  splitting and joining, stripping, line splitting, decimal and hexadecimal conversion. A position
  in a string is modelled by the suffix that starts there.
\<close>

section \<open>Characters\<close>

definition ch :: "nat \<Rightarrow> char" where
  "ch n = char_of n"

definition code :: "char \<Rightarrow> nat" where
  "code c = of_char c"

text \<open>
  A code point as a character of the model: one above U+00FF is represented by the control character
  SUB, which stands for every character outside the Latin-1 range.
\<close>

definition text_char :: "nat \<Rightarrow> char" where
  "text_char n = (if n < 256 then ch n else CHR 0x1A)"

lemma text_char_simps [simp]: "n < 256 \<Longrightarrow> text_char n = ch n"
  by (simp add: text_char_def)

text \<open>\<^verbatim>\<open>str.isspace\<close> on the Latin-1 range.\<close>

definition is_space :: "char \<Rightarrow> bool" where
  "is_space c \<longleftrightarrow> code c \<in> {9, 10, 11, 12, 13, 28, 29, 30, 31, 32, 133, 160}"

text \<open>The line boundaries of \<^verbatim>\<open>str.splitlines\<close> on the Latin-1 range.\<close>

definition is_line_end :: "char \<Rightarrow> bool" where
  "is_line_end c \<longleftrightarrow> code c \<in> {10, 11, 12, 13, 28, 29, 30, 133}"

definition is_dec :: "char \<Rightarrow> bool" where
  "is_dec c \<longleftrightarrow> 48 \<le> code c \<and> code c \<le> 57"

definition is_alpha :: "char \<Rightarrow> bool" where
  "is_alpha c \<longleftrightarrow> (65 \<le> code c \<and> code c \<le> 90) \<or> (97 \<le> code c \<and> code c \<le> 122)"

definition lower_char :: "char \<Rightarrow> char" where
  "lower_char c =
     (if (65 \<le> code c \<and> code c \<le> 90) \<or> (192 \<le> code c \<and> code c \<le> 222 \<and> code c \<noteq> 215)
      then ch (code c + 32) else c)"

definition py_lower :: "string \<Rightarrow> string" where
  "py_lower s = map lower_char s"

lemma code_ch [simp]: "n < 256 \<Longrightarrow> code (ch n) = n"
  by (simp add: code_def ch_def)

lemma ch_code [simp]: "ch (code c) = c"
  by (simp add: code_def ch_def)

lemma code_less [simp]: "code c < 256"
  by (cases c) (simp add: code_def)

lemma code_Char [simp]:
  "code (Char b0 b1 b2 b3 b4 b5 b6 b7) = horner_sum of_bool 2 [b0, b1, b2, b3, b4, b5, b6, b7]"
  by (simp add: code_def)

lemma code_eq_iff [simp]: "code c = code d \<longleftrightarrow> c = d"
  using ch_code by metis

section \<open>Prefixes, search, split, join\<close>

fun starts_with :: "'a list \<Rightarrow> 'a list \<Rightarrow> bool" where
  "starts_with [] s = True"
| "starts_with (p # ps) [] = False"
| "starts_with (p # ps) (c # cs) = (p = c \<and> starts_with ps cs)"

definition ends_with :: "'a list \<Rightarrow> 'a list \<Rightarrow> bool" where
  "ends_with p s = starts_with (rev p) (rev s)"

text \<open>\<^verbatim>\<open>s.find(p)\<close>: the text before the first occurrence of \<open>p\<close> and the text after it.\<close>

fun find_sub :: "'a list \<Rightarrow> 'a list \<Rightarrow> ('a list \<times> 'a list) option" where
  "find_sub p s =
     (if starts_with p s then Some ([], drop (length p) s)
      else case s of [] \<Rightarrow> None
           | c # cs \<Rightarrow> map_option (\<lambda>(a, b). (c # a, b)) (find_sub p cs))"

declare find_sub.simps [simp del]

definition contains_sub :: "'a list \<Rightarrow> 'a list \<Rightarrow> bool" where
  "contains_sub p s = (find_sub p s \<noteq> None)"

text \<open>\<^verbatim>\<open>s.partition(p)\<close>: head, whether the separator was found, tail.\<close>

definition py_partition :: "'a list \<Rightarrow> 'a list \<Rightarrow> 'a list \<times> bool \<times> 'a list" where
  "py_partition p s = (case find_sub p s of None \<Rightarrow> (s, False, []) | Some (a, b) \<Rightarrow> (a, True, b))"

lemma starts_with_iff: "starts_with p s \<longleftrightarrow> (\<exists>r. s = p @ r)"
  by (induction p s rule: starts_with.induct) auto

lemma starts_with_append [simp]: "starts_with p (p @ s)"
  by (simp add: starts_with_iff)

lemma ends_with_iff: "ends_with p s \<longleftrightarrow> (\<exists>r. s = r @ p)"
proof -
  have "ends_with p s \<longleftrightarrow> (\<exists>r. rev s = rev p @ r)"
    by (simp add: ends_with_def starts_with_iff)
  also have "\<dots> \<longleftrightarrow> (\<exists>r. s = r @ p)"
    by (metis rev_append rev_rev_ident)
  finally show ?thesis .
qed

lemma find_sub_Some: "find_sub p s = Some (a, b) \<Longrightarrow> s = a @ p @ b"
proof (induction p s arbitrary: a rule: find_sub.induct)
  case (1 p s)
  show ?case
  proof (cases "starts_with p s")
    case True
    then show ?thesis
      using "1.prems" by (auto simp: find_sub.simps [of p s] starts_with_iff)
  next
    case False
    then show ?thesis
      using "1.prems" "1.IH" [OF False]
      by (auto simp: find_sub.simps [of p s] split: list.splits)
  qed
qed

lemma find_sub_shorter: "find_sub p s = Some (a, b) \<Longrightarrow> p \<noteq> [] \<Longrightarrow> length b < length s"
  by (auto dest: find_sub_Some)

function split_on :: "'a list \<Rightarrow> 'a list \<Rightarrow> 'a list list" where
  "split_on p s =
     (if p = [] then [s]
      else case find_sub p s of None \<Rightarrow> [s] | Some (a, b) \<Rightarrow> a # split_on p b)"
  by pat_completeness auto
termination
  by (relation "measure (\<lambda>(p, s). length s)") (auto dest: find_sub_shorter)

declare split_on.simps [simp del]

text \<open>\<^verbatim>\<open>s.split(p, n)\<close>: at most \<open>n\<close> splits.\<close>

fun split_max :: "nat \<Rightarrow> 'a list \<Rightarrow> 'a list \<Rightarrow> 'a list list" where
  "split_max 0 p s = [s]"
| "split_max (Suc n) p s =
     (case find_sub p s of None \<Rightarrow> [s] | Some (a, b) \<Rightarrow> a # split_max n p b)"

fun join_with :: "'a list \<Rightarrow> 'a list list \<Rightarrow> 'a list" where
  "join_with p [] = []"
| "join_with p [x] = x"
| "join_with p (x # y # ys) = x @ p @ join_with p (y # ys)"

text \<open>\<^verbatim>\<open>s.count(p)\<close>: non-overlapping occurrences.\<close>

definition count_sub :: "'a list \<Rightarrow> 'a list \<Rightarrow> nat" where
  "count_sub p s = (if p = [] then length s + 1 else length (split_on p s) - 1)"

lemma join_with_Cons: "xs \<noteq> [] \<Longrightarrow> join_with p (x # xs) = x @ p @ join_with p xs"
  by (cases xs) auto

lemma split_on_not_Nil [simp]: "split_on p s \<noteq> []"
  by (subst split_on.simps) (auto split: option.splits)

lemma join_split [text_simps]: "join_with p (split_on p s) = s"
proof (induction p s rule: split_on.induct)
  case (1 p s)
  then show ?case
    by (subst split_on.simps) (auto split: option.splits simp: join_with_Cons dest: find_sub_Some)
qed

lemma split_max_not_Nil [simp]: "split_max n p s \<noteq> []"
  by (cases n) (auto split: option.splits)

lemma join_split_max [text_simps]: "join_with p (split_max n p s) = s"
  by (induction n arbitrary: s) (auto split: option.splits simp: join_with_Cons dest: find_sub_Some)

lemma length_split_max: "length (split_max n p s) \<le> Suc n"
  by (induction n arbitrary: s) (auto split: option.splits)

lemma find_sub_single_None: "find_sub [c] s = None \<longleftrightarrow> c \<notin> set s"
proof (induction s)
  case (Cons d s)
  then show ?case by (subst find_sub.simps) auto
qed (simp add: find_sub.simps)

lemma find_sub_single: "c \<notin> set a \<Longrightarrow> find_sub [c] (a @ c # b) = Some (a, b)"
  by (induction a) (auto simp: find_sub.simps [of "[c]" "_ # _"])

lemma split_on_single_none: "c \<notin> set s \<Longrightarrow> split_on [c] s = [s]"
  by (subst split_on.simps) (simp add: find_sub_single_None [THEN iffD2])

lemma split_on_single_step: "c \<notin> set a \<Longrightarrow> split_on [c] (a @ c # b) = a # split_on [c] b"
  by (subst split_on.simps) (simp add: find_sub_single)

lemma split_join_single:
  "xs \<noteq> [] \<Longrightarrow> \<forall>x \<in> set xs. c \<notin> set x \<Longrightarrow> split_on [c] (join_with [c] xs) = xs"
proof (induction "[c]" xs rule: join_with.induct)
  case (2 x)
  then show ?case by (simp add: split_on_single_none)
next
  case (3 x y ys)
  then show ?case by (simp add: split_on_single_step)
qed simp

section \<open>Stripping and line splitting\<close>

definition lstrip_by :: "(char \<Rightarrow> bool) \<Rightarrow> string \<Rightarrow> string" where
  "lstrip_by P s = dropWhile P s"

definition rstrip_by :: "(char \<Rightarrow> bool) \<Rightarrow> string \<Rightarrow> string" where
  "rstrip_by P s = rev (dropWhile P (rev s))"

definition py_strip :: "string \<Rightarrow> string" where
  "py_strip s = rstrip_by is_space (lstrip_by is_space s)"

text \<open>\<^verbatim>\<open>str.splitlines\<close>: a carriage return followed by a line feed is one boundary, a final boundary opens no line.\<close>

definition skip_lf :: "char \<Rightarrow> string \<Rightarrow> string" where
  "skip_lf c cs = (if code c = 13 \<and> cs \<noteq> [] \<and> code (hd cs) = 10 then tl cs else cs)"

lemma length_skip_lf [termination_simp]: "length (skip_lf c cs) < Suc (length cs)"
  by (simp add: skip_lf_def less_Suc_eq_le)

fun splitlines_by :: "(char \<Rightarrow> bool) \<Rightarrow> string \<Rightarrow> string \<Rightarrow> string list" where
  "splitlines_by E acc [] = (if acc = [] then [] else [rev acc])"
| "splitlines_by E acc (c # cs) =
     (if \<not> E c then splitlines_by E (c # acc) cs
      else rev acc # splitlines_by E [] (skip_lf c cs))"

definition py_splitlines :: "string \<Rightarrow> string list" where
  "py_splitlines s = splitlines_by is_line_end [] s"

lemma splitlines_plain:
  "\<forall>c \<in> set s. \<not> E c \<Longrightarrow> E nl \<Longrightarrow> code nl \<noteq> 13 \<Longrightarrow>
     splitlines_by E acc (s @ nl # r) = (rev acc @ s) # splitlines_by E [] r"
  by (induction s arbitrary: acc) (auto simp: skip_lf_def)

lemma splitlines_terminated:
  "\<forall>x \<in> set xs. \<forall>c \<in> set (f x). \<not> is_line_end c \<Longrightarrow>
     py_splitlines (concat (map (\<lambda>x. f x @ [CHR 0x0A]) xs)) = map f xs"
  by (induction xs) (simp_all add: py_splitlines_def splitlines_plain is_line_end_def)

lemma py_strip_Nil_iff: "py_strip s = [] \<longleftrightarrow> (\<forall>c \<in> set s. is_space c)"
proof -
  have "py_strip s = [] \<longleftrightarrow> (\<forall>c \<in> set (dropWhile is_space s). is_space c)"
    by (simp add: py_strip_def rstrip_by_def lstrip_by_def)
  also have "\<dots> \<longleftrightarrow> dropWhile is_space s = []"
    by (metis hd_dropWhile list.set_sel(1) empty_iff empty_set)
  finally show ?thesis by simp
qed

section \<open>Decimal numerals\<close>

definition digit_char :: "nat \<Rightarrow> char" where
  "digit_char d = ch (48 + d)"

fun dec_digits :: "nat \<Rightarrow> string" where
  "dec_digits n = (if n < 10 then [digit_char n] else dec_digits (n div 10) @ [digit_char (n mod 10)])"

declare dec_digits.simps [simp del]

definition str_of_int :: "int \<Rightarrow> string" where
  "str_of_int i = (if i < 0 then CHR ''-'' # dec_digits (nat (- i)) else dec_digits (nat i))"

definition nat_of_dec :: "string \<Rightarrow> nat" where
  "nat_of_dec s = foldl (\<lambda>a c. 10 * a + (code c - 48)) 0 s"

lemma digit_char_dec [simp]: "d < 10 \<Longrightarrow> is_dec (digit_char d)" "d < 10 \<Longrightarrow> code (digit_char d) = 48 + d"
  by (simp_all add: is_dec_def digit_char_def)

lemma dec_digits_props: "dec_digits n \<noteq> [] \<and> (\<forall>c \<in> set (dec_digits n). is_dec c) \<and> nat_of_dec (dec_digits n) = n"
proof (induction n rule: dec_digits.induct)
  case (1 n)
  then show ?case
    by (cases "n < 10") (auto simp: dec_digits.simps [of n] nat_of_dec_def)
qed

lemmas dec_digits_not_Nil [simp] = dec_digits_props [THEN conjunct1]
lemmas dec_digits_is_dec = dec_digits_props [THEN conjunct2, THEN conjunct1]
lemmas nat_of_dec_digits [simp] = dec_digits_props [THEN conjunct2, THEN conjunct2]

lemma dec_digits_lead: "0 < n \<Longrightarrow> code (hd (dec_digits n)) \<noteq> 48"
proof (induction n rule: dec_digits.induct)
  case (1 n)
  then show ?case
    by (cases "n < 10") (auto simp: dec_digits.simps [of n])
qed

lemma dec_digits_bound: "0 < k \<Longrightarrow> n < 10 ^ k \<Longrightarrow> length (dec_digits n) \<le> k"
proof (induction k arbitrary: n)
  case (Suc k)
  show ?case
  proof (cases "n < 10")
    case False
    then have "0 < k" "n div 10 < 10 ^ k" using Suc.prems(2) by (cases k; simp add: less_mult_imp_div_less mult.commute)+
    from Suc.IH [OF this] show ?thesis using False by (subst dec_digits.simps) simp
  qed (subst dec_digits.simps, simp)
qed simp

section \<open>Hexadecimal\<close>

definition hex_digit :: "nat \<Rightarrow> char" where
  "hex_digit d = (if d < 10 then ch (48 + d) else ch (87 + d))"

definition hex_val :: "char \<Rightarrow> nat option" where
  "hex_val c =
     (if 48 \<le> code c \<and> code c \<le> 57 then Some (code c - 48)
      else if 97 \<le> code c \<and> code c \<le> 102 then Some (code c - 87)
      else if 65 \<le> code c \<and> code c \<le> 70 then Some (code c - 55)
      else None)"

text \<open>\<^verbatim>\<open>bytes.hex\<close>, and \<^verbatim>\<open>bytes.fromhex\<close>, which skips ASCII whitespace between byte pairs.\<close>

fun bytes_hex :: "bytes \<Rightarrow> string" where
  "bytes_hex [] = []"
| "bytes_hex (b # bs) = hex_digit (unat b div 16) # hex_digit (unat b mod 16) # bytes_hex bs"

fun bytes_fromhex :: "string \<Rightarrow> bytes option" where
  "bytes_fromhex [] = Some []"
| "bytes_fromhex [c] = (if code c \<in> {9, 10, 11, 12, 13, 32} then Some [] else None)"
| "bytes_fromhex (c # d # cs) =
     (if code c \<in> {9, 10, 11, 12, 13, 32} then bytes_fromhex (d # cs)
      else case (hex_val c, hex_val d) of
             (Some x, Some y) \<Rightarrow> map_option (\<lambda>bs. of_nat (16 * x + y) # bs) (bytes_fromhex cs)
           | _ \<Rightarrow> None)"

lemma hex_val_digit [simp]: "d < 16 \<Longrightarrow> hex_val (hex_digit d) = Some d"
  by (simp add: hex_val_def hex_digit_def)

lemma hex_digit_code: "d < 16 \<Longrightarrow> code (hex_digit d) \<notin> {9, 10, 11, 12, 13, 32}"
  by (auto simp: hex_digit_def)

lemma unat_byte_less: "unat (b :: byte) < 256"
  using unsigned_less [of b, where 'a = nat] by simp

lemma fromhex_hex [simp, text_simps]: "bytes_fromhex (bytes_hex bs) = Some bs"
proof (induction bs)
  case (Cons b bs)
  have b: "unat b < 256" by (rule unat_byte_less)
  then have "unat b div 16 < 16" "unat b mod 16 < 16" by auto
  moreover have "word_of_nat (unat b) = b" by simp
  ultimately show ?case
    using Cons hex_digit_code [of "unat b div 16"] by simp
qed simp

lemma length_bytes_hex [simp]: "length (bytes_hex bs) = 2 * length bs"
  by (induction bs) auto

end
