(* ===== verification/Json_Text.thy ===== *)
theory Json_Text
  imports Py_Text
begin

text \<open>
  Python's \<^verbatim>\<open>json.dumps(..., separators=(",", ":"))\<close> with its default ASCII escaping, and
  \<^verbatim>\<open>json.loads\<close>, on the value type \<open>pyval\<close>. The round trip \<open>loads (dumps v) = v\<close> for values without
  floats is what the ledger and the bronze store rest on. An escape of a code unit above U+00FF is
  read as the character that stands for text outside the model.
\<close>

section \<open>Printing\<close>

definition hex4 :: "nat \<Rightarrow> string" where
  "hex4 n = [hex_digit (n div 4096 mod 16), hex_digit (n div 256 mod 16),
             hex_digit (n div 16 mod 16), hex_digit (n mod 16)]"

definition json_escape :: "char \<Rightarrow> string" where
  "json_escape c =
     (if code c = 34 then [CHR 0x5C, CHR 0x22]
      else if code c = 92 then [CHR 0x5C, CHR 0x5C]
      else if code c = 10 then [CHR 0x5C, CHR ''n'']
      else if code c = 13 then [CHR 0x5C, CHR ''r'']
      else if code c = 9 then [CHR 0x5C, CHR ''t'']
      else if code c = 12 then [CHR 0x5C, CHR ''f'']
      else if code c = 8 then [CHR 0x5C, CHR ''b'']
      else if code c < 32 \<or> 126 < code c then CHR 0x5C # CHR ''u'' # hex4 (code c)
      else [c])"

definition json_string :: "string \<Rightarrow> string" where
  "json_string s = CHR 0x22 # concat (map json_escape s) @ [CHR 0x22]"

text \<open>The floats that are not numbers have words of their own.\<close>

definition json_float :: "string \<Rightarrow> string" where
  "json_float t = (if t = ''inf'' then ''Infinity'' else if t = ''-inf'' then ''-Infinity'' else if t = ''nan'' then ''NaN'' else t)"

fun json_dumps :: "pyval \<Rightarrow> string"
  and json_items :: "pyval list \<Rightarrow> string"
  and json_members :: "(string \<times> pyval) list \<Rightarrow> string" where
  "json_dumps PNone = ''null''"
| "json_dumps (PBool b) = (if b then ''true'' else ''false'')"
| "json_dumps (PInt i) = str_of_int i"
| "json_dumps (PFloat t) = json_float t"
| "json_dumps (PStr s) = json_string s"
| "json_dumps (PList xs) = CHR ''['' # json_items xs @ '']''"
| "json_dumps (PDict d) = CHR ''{'' # json_members d @ ''}''"
| "json_items [] = []"
| "json_items [x] = json_dumps x"
| "json_items (x # y # ys) = json_dumps x @ '','' @ json_items (y # ys)"
| "json_members [] = []"
| "json_members [(k, v)] = json_string k @ '':'' @ json_dumps v"
| "json_members ((k, v) # m # ms) = json_string k @ '':'' @ json_dumps v @ '','' @ json_members (m # ms)"

text \<open>The same with the default separators, a blank after each comma and colon.\<close>

fun json_spaced :: "pyval \<Rightarrow> string"
  and spaced_items :: "pyval list \<Rightarrow> string"
  and spaced_members :: "(string \<times> pyval) list \<Rightarrow> string" where
  "json_spaced (PList xs) = CHR ''['' # spaced_items xs @ '']''"
| "json_spaced (PDict d) = CHR ''{'' # spaced_members d @ ''}''"
| "json_spaced v = json_dumps v"
| "spaced_items [] = []"
| "spaced_items [x] = json_spaced x"
| "spaced_items (x # y # ys) = json_spaced x @ '', '' @ spaced_items (y # ys)"
| "spaced_members [] = []"
| "spaced_members [(k, v)] = json_string k @ '': '' @ json_spaced v"
| "spaced_members ((k, v) # m # ms) = json_string k @ '': '' @ json_spaced v @ '', '' @ spaced_members (m # ms)"

section \<open>Parsing\<close>

definition json_ws :: "char \<Rightarrow> bool" where
  "json_ws c \<longleftrightarrow> code c \<in> {9, 10, 13, 32}"

definition skip_ws :: "string \<Rightarrow> string" where
  "skip_ws s = dropWhile json_ws s"

definition unescape_char :: "char \<Rightarrow> char option" where
  "unescape_char e =
     (if code e = 34 \<or> code e = 92 \<or> code e = 47 then Some e
      else if e = CHR ''n'' then Some (ch 10)
      else if e = CHR ''r'' then Some (ch 13)
      else if e = CHR ''t'' then Some (ch 9)
      else if e = CHR ''f'' then Some (ch 12)
      else if e = CHR ''b'' then Some (ch 8)
      else None)"

definition hex4_val :: "char \<Rightarrow> char \<Rightarrow> char \<Rightarrow> char \<Rightarrow> nat option" where
  "hex4_val a b c d =
     (case (hex_val a, hex_val b, hex_val c, hex_val d) of
        (Some w, Some x, Some y, Some z) \<Rightarrow> Some (((w * 16 + x) * 16 + y) * 16 + z)
      | _ \<Rightarrow> None)"

fun scan_string :: "string \<Rightarrow> string \<Rightarrow> (string \<times> string) option" where
  "scan_string acc [] = None"
| "scan_string acc (c # cs) =
     (if code c = 34 then Some (rev acc, cs)
      else if code c = 92 then
        (case cs of
           e # a # b # x # y # r \<Rightarrow>
             (if e = CHR ''u'' then
                (case hex4_val a b x y of
                   Some n \<Rightarrow> scan_string (text_char n # acc) r
                 | None \<Rightarrow> None)
              else (case unescape_char e of
                      Some u \<Rightarrow> scan_string (u # acc) (a # b # x # y # r)
                    | None \<Rightarrow> None))
         | e # r \<Rightarrow>
             (case unescape_char e of Some u \<Rightarrow> scan_string (u # acc) r | None \<Rightarrow> None)
         | [] \<Rightarrow> None)
      else if code c < 32 then None
      else scan_string (c # acc) cs)"

text \<open>A number token: sign, integer part without leading zero, optional fraction and exponent.\<close>

definition scan_int_part :: "string \<Rightarrow> (string \<times> string) option" where
  "scan_int_part s =
     (case s of
        [] \<Rightarrow> None
      | c # cs \<Rightarrow>
          if code c = 48 then Some ([c], cs)
          else if is_dec c then Some (c # takeWhile is_dec cs, dropWhile is_dec cs)
          else None)"

definition scan_frac :: "string \<Rightarrow> string \<times> string" where
  "scan_frac s =
     (case s of
        c # d # r \<Rightarrow>
          if c = CHR ''.'' \<and> is_dec d then (c # takeWhile is_dec (d # r), dropWhile is_dec r) else ([], s)
      | _ \<Rightarrow> ([], s))"

definition scan_exp :: "string \<Rightarrow> string \<times> string" where
  "scan_exp s =
     (case s of
        c # r \<Rightarrow>
          (if c \<in> {CHR ''e'', CHR ''E''} then
             (let sgn = (case r of d # _ \<Rightarrow> if d \<in> {CHR ''+'', CHR ''-''} then [d] else [] | [] \<Rightarrow> []);
                  ds = takeWhile is_dec (drop (length sgn) r)
              in if ds = [] then ([], s) else (c # sgn @ ds, drop (length sgn + length ds) r))
           else ([], s))
      | [] \<Rightarrow> ([], s))"

definition scan_number :: "string \<Rightarrow> (pyval \<times> string) option" where
  "scan_number s =
     (let neg = starts_with ''-'' s; body = (if neg then tl s else s)
      in case scan_int_part body of
           None \<Rightarrow> None
         | Some (ip, r) \<Rightarrow>
             (let (fp, r') = scan_frac r; (ep, r'') = scan_exp r'
              in if fp = [] \<and> ep = []
                 then Some (PInt (if neg then - int (nat_of_dec ip) else int (nat_of_dec ip)), r'')
                 else Some (PFloat ((if neg then ''-'' else []) @ ip @ fp @ ep), r'')))"

definition scan_atom :: "string \<Rightarrow> (pyval \<times> string) option" where
  "scan_atom s =
     (if starts_with ''null'' s then Some (PNone, drop 4 s)
      else if starts_with ''true'' s then Some (PBool True, drop 4 s)
      else if starts_with ''false'' s then Some (PBool False, drop 5 s)
      else if starts_with ''NaN'' s then Some (PFloat ''nan'', drop 3 s)
      else if starts_with ''Infinity'' s then Some (PFloat ''inf'', drop 8 s)
      else if starts_with ''-Infinity'' s then Some (PFloat ''-inf'', drop 9 s)
      else scan_number s)"

text \<open>The recursion is bounded by the text still to be read, which every call shortens.\<close>

fun parse_value :: "nat \<Rightarrow> string \<Rightarrow> (pyval \<times> string) option"
  and parse_items :: "nat \<Rightarrow> string \<Rightarrow> (pyval list \<times> string) option"
  and parse_members :: "nat \<Rightarrow> string \<Rightarrow> (pydict \<times> string) option" where
  "parse_value 0 s = None"
| "parse_value (Suc f) s =
     (case s of
        [] \<Rightarrow> None
      | c # cs \<Rightarrow>
          if code c = 34 then map_option (\<lambda>(t, r). (PStr t, r)) (scan_string [] cs)
          else if c = CHR ''['' then
            (let t = skip_ws cs
             in if starts_with '']'' t then Some (PList [], tl t)
                else map_option (\<lambda>(xs, r). (PList xs, r)) (parse_items f t))
          else if c = CHR ''{'' then
            (let t = skip_ws cs
             in if starts_with ''}'' t then Some (PDict [], tl t)
                else map_option (\<lambda>(d, r). (PDict (dict_update [] d), r)) (parse_members f t))
          else scan_atom s)"
| "parse_items 0 s = None"
| "parse_items (Suc f) s =
     (case parse_value f s of
        None \<Rightarrow> None
      | Some (v, r) \<Rightarrow>
          (case skip_ws r of
             c # cs \<Rightarrow>
               if c = CHR '']'' then Some ([v], cs)
               else if c = CHR '','' then map_option (\<lambda>(vs, r). (v # vs, r)) (parse_items f (skip_ws cs))
               else None
           | [] \<Rightarrow> None))"
| "parse_members 0 s = None"
| "parse_members (Suc f) s =
     (if \<not> starts_with [CHR 0x22] s then None
      else case scan_string [] (tl s) of
        None \<Rightarrow> None
      | Some (k, r) \<Rightarrow>
          (case skip_ws r of
             c # cs \<Rightarrow>
               (if c \<noteq> CHR '':'' then None
                else case parse_value f (skip_ws cs) of
                  None \<Rightarrow> None
                | Some (v, r') \<Rightarrow>
                    (case skip_ws r' of
                       e # es \<Rightarrow>
                         if e = CHR ''}'' then Some ([(k, v)], es)
                         else if e = CHR '','' then
                           map_option (\<lambda>(d, r). ((k, v) # d, r)) (parse_members f (skip_ws es))
                         else None
                     | [] \<Rightarrow> None))
           | [] \<Rightarrow> None))"

definition json_loads :: "string \<Rightarrow> pyval option" where
  "json_loads s =
     (case parse_value (Suc (length s)) (skip_ws s) of
        Some (v, r) \<Rightarrow> if skip_ws r = [] then Some v else None
      | None \<Rightarrow> None)"

section \<open>Round trip\<close>

fun json_ok :: "pyval \<Rightarrow> bool" where
  "json_ok (PFloat t) = False"
| "json_ok (PList xs) = list_all json_ok xs"
| "json_ok (PDict d) = (dict_ok d \<and> list_all (\<lambda>p. json_ok (snd p)) d)"
| "json_ok _ = True"

definition num_end :: "string \<Rightarrow> bool" where
  "num_end r \<longleftrightarrow> (case r of [] \<Rightarrow> True | c # _ \<Rightarrow> \<not> is_dec c \<and> c \<notin> {CHR ''.'', CHR ''e'', CHR ''E''})"

lemma scan_string_plain:
  "code c \<noteq> 34 \<Longrightarrow> code c \<noteq> 92 \<Longrightarrow> \<not> code c < 32 \<Longrightarrow> scan_string acc (c # r) = scan_string (c # acc) r"
  by simp

lemma scan_string_escape:
  "code c = 92 \<Longrightarrow> unescape_char e = Some u \<Longrightarrow> e \<noteq> CHR ''u'' \<Longrightarrow>
     scan_string acc (c # e # r) = scan_string (u # acc) r"
  by (auto split: list.split)

lemma scan_string_unicode:
  assumes "n < 256"
  shows "scan_string acc (CHR 0x5C # CHR ''u'' # hex4 n @ r) = scan_string (ch n # acc) r"
proof -
  from assms have "n div 4096 = 0" "n div 256 = 0" "n div 16 < 16" by simp_all
  then have h: "hex4 n = [hex_digit 0, hex_digit 0, hex_digit (n div 16), hex_digit (n mod 16)]"
    by (simp add: hex4_def)
  have "hex4_val (hex_digit 0) (hex_digit 0) (hex_digit (n div 16)) (hex_digit (n mod 16)) = Some n"
    using assms \<open>n div 16 < 16\<close> by (simp add: hex4_val_def mult.commute)
  with assms show ?thesis by (simp add: h)
qed

lemma unescape_letters [simp]:
  "unescape_char CHR ''n'' = Some (ch 10)" "unescape_char CHR ''r'' = Some (ch 13)"
  "unescape_char CHR ''t'' = Some (ch 9)" "unescape_char CHR ''f'' = Some (ch 12)"
  "unescape_char CHR ''b'' = Some (ch 8)" "unescape_char CHR 0x22 = Some CHR 0x22"
  "unescape_char CHR 0x5C = Some CHR 0x5C"
  by (simp_all add: unescape_char_def)

lemma scan_json_escape: "scan_string acc (json_escape c @ r) = scan_string (c # acc) r"
proof -
  have c: "ch n = c" if "code c = n" for n using that by auto
  consider "code c = 34" | "code c = 92" | "code c = 10" | "code c = 13" | "code c = 9" | "code c = 12"
    | "code c = 8"
    | "code c \<notin> {34, 92, 10, 13, 9, 12, 8}" "code c < 32 \<or> 126 < code c"
    | "code c \<notin> {34, 92, 10, 13, 9, 12, 8}" "32 \<le> code c" "code c \<le> 126"
    by fastforce
  then show ?thesis
  proof cases
    case 1
    then show ?thesis
      using code_eq_iff [of c "CHR 0x22"] by (simp add: json_escape_def scan_string_escape del: scan_string.simps)
  next
    case 2
    then show ?thesis
      using code_eq_iff [of c "CHR 0x5C"] by (simp add: json_escape_def scan_string_escape del: scan_string.simps)
  next
    case 8
    then show ?thesis
      using scan_string_unicode [of "code c" acc r] by (auto simp: json_escape_def)
  next
    case 9
    then show ?thesis by (simp add: json_escape_def)
  qed (simp_all add: json_escape_def scan_string_escape c del: scan_string.simps)
qed

lemma scan_json_string:
  "scan_string acc (concat (map json_escape s) @ CHR 0x22 # r) = Some (rev acc @ s, r)"
  by (induction s arbitrary: acc) (simp_all add: scan_json_escape)

lemma takeWhile_dec: "num_end r \<Longrightarrow> \<forall>c \<in> set ds. is_dec c \<Longrightarrow>
   takeWhile is_dec (ds @ r) = ds \<and> dropWhile is_dec (ds @ r) = r"
  by (induction ds) (auto simp: num_end_def split: list.splits)

lemma scan_frac_end [simp]: "num_end r \<Longrightarrow> scan_frac r = ([], r)"
  by (auto simp: scan_frac_def num_end_def split: list.splits)

lemma scan_exp_end [simp]: "num_end r \<Longrightarrow> scan_exp r = ([], r)"
  by (auto simp: scan_exp_def num_end_def split: list.splits)

lemma scan_int_part_digits:
  assumes "num_end r"
  shows "scan_int_part (dec_digits n @ r) = Some (dec_digits n, r)"
proof (cases "n = 0")
  case True
  then show ?thesis
    by (simp add: scan_int_part_def dec_digits.simps [of 0] digit_char_def)
next
  case False
  obtain c cs where ds: "dec_digits n = c # cs" by (cases "dec_digits n") auto
  have "is_dec c" "\<forall>d \<in> set cs. is_dec d" using dec_digits_is_dec [of n] ds by auto
  moreover have "code c \<noteq> 48" using dec_digits_lead [of n] False ds by simp
  ultimately show ?thesis
    using takeWhile_dec [OF assms, of cs] by (simp add: scan_int_part_def ds)
qed

lemma first_dec_digit: "\<exists>c cs. dec_digits n = c # cs \<and> is_dec c"
  using dec_digits_is_dec [of n] by (cases "dec_digits n") auto

lemma scan_number_int: "num_end r \<Longrightarrow> scan_number (str_of_int i @ r) = Some (PInt i, r)"
proof -
  assume r: "num_end r"
  obtain c cs where ds: "dec_digits (nat i) = c # cs" "is_dec c" using first_dec_digit by blast
  then have "c \<noteq> CHR ''-''" by (auto simp: is_dec_def)
  with r ds show ?thesis
    using scan_int_part_digits [OF r, of "nat i"] scan_int_part_digits [OF r, of "nat (- i)"]
      nat_of_dec_digits [of "nat i"]
    by (auto simp: scan_number_def str_of_int_def Let_def)
qed

lemma num_end_simps [simp]: "num_end []" "num_end (CHR '','' # r)" "num_end (CHR '']'' # r)" "num_end (CHR ''}'' # r)"
  by (simp_all add: num_end_def is_dec_def)

lemma str_of_int_Cons: "\<exists>c cs. str_of_int i = c # cs \<and> (c = CHR ''-'' \<and> (\<exists>d ds. cs = d # ds \<and> is_dec d) \<or> is_dec c)"
  using first_dec_digit [of "nat i"] first_dec_digit [of "nat (- i)"] by (auto simp: str_of_int_def)

lemma scan_atom_int:
  assumes "num_end r"
  shows "scan_atom (str_of_int i @ r) = Some (PInt i, r)"
proof -
  have "scan_atom (str_of_int i @ r) = scan_number (str_of_int i @ r)"
    using str_of_int_Cons [of i] by (auto simp: scan_atom_def is_dec_def)
  with assms show ?thesis by (simp add: scan_number_int)
qed

text \<open>The first character of a printed value decides how it is read and is never white space.\<close>

lemma json_dumps_Cons:
  "json_ok v \<Longrightarrow> \<exists>c cs. json_dumps v = c # cs \<and> \<not> json_ws c \<and> c \<noteq> CHR '']'' \<and> c \<noteq> CHR ''}''"
proof (cases v)
  case (PInt i)
  then show ?thesis
    using str_of_int_Cons [of i] by (auto simp: json_ws_def is_dec_def)
qed (auto simp: json_ws_def json_string_def)

lemma skip_ws_dumps: "json_ok v \<Longrightarrow> skip_ws (json_dumps v @ r) = json_dumps v @ r"
  using json_dumps_Cons [of v] by (auto simp: skip_ws_def)

lemma skip_ws_punct [simp]:
  "skip_ws (CHR '','' # r) = CHR '','' # r" "skip_ws (CHR '']'' # r) = CHR '']'' # r"
  "skip_ws (CHR ''}'' # r) = CHR ''}'' # r" "skip_ws (CHR '':'' # r) = CHR '':'' # r"
  "skip_ws (CHR 0x22 # r) = CHR 0x22 # r" "skip_ws [] = []"
  by (simp_all add: skip_ws_def json_ws_def)

lemma parse_atom:
  "scan_atom (c # cs) = x \<Longrightarrow> code c \<noteq> 34 \<Longrightarrow> c \<noteq> CHR ''['' \<Longrightarrow> c \<noteq> CHR ''{'' \<Longrightarrow> parse_value (Suc f) (c # cs) = x"
  by simp

lemma json_items_Cons: "xs \<noteq> [] \<Longrightarrow> json_items (x # xs) = json_dumps x @ '','' @ json_items xs"
  by (cases xs) auto

lemma json_members_Cons:
  "d \<noteq> [] \<Longrightarrow> json_members ((k, v) # d) = json_string k @ '':'' @ json_dumps v @ '','' @ json_members d"
  by (cases d) auto

lemma json_items_first: "xs \<noteq> [] \<Longrightarrow> \<exists>r. json_items xs = json_dumps (hd xs) @ r"
  by (cases xs rule: json_items.cases) auto

lemma json_members_first: "d \<noteq> [] \<Longrightarrow> \<exists>r. json_members d = CHR 0x22 # r"
  by (cases d rule: json_members.cases) (auto simp: json_string_def)

lemma dict_update_distinct: "distinct (map fst (d @ e)) \<Longrightarrow> dict_update d e = d @ e"
proof (induction e arbitrary: d)
  case (Cons p e)
  have "dict_set k v d = d @ [(k, v)]" if "k \<notin> fst ` set d" for k v
    using that by (induction d) auto
  with Cons show ?case by (cases p) simp
qed simp

lemma dict_update_self: "dict_ok d \<Longrightarrow> dict_update [] d = d"
  by (simp add: dict_update_distinct dict_ok_def)

definition reads_back :: "pyval \<Rightarrow> bool" where
  "reads_back v \<longleftrightarrow> (\<forall>f r. length (json_dumps v) \<le> f \<longrightarrow> num_end r \<longrightarrow>
     parse_value f (json_dumps v @ r) = Some (v, r))"

lemma reads_backD:
  "reads_back v \<Longrightarrow> length (json_dumps v) \<le> f \<Longrightarrow> num_end r \<Longrightarrow> parse_value f (json_dumps v @ r) = Some (v, r)"
  by (simp add: reads_back_def)

lemma parse_items_dumps:
  "xs \<noteq> [] \<Longrightarrow> \<forall>x \<in> set xs. json_ok x \<and> reads_back x \<Longrightarrow> length (json_items xs) < f \<Longrightarrow>
     parse_items f (json_items xs @ CHR '']'' # r) = Some (xs, r)"
proof (induction xs arbitrary: f)
  case (Cons x xs)
  then obtain g where f: "f = Suc g" by (cases f) auto
  have x: "json_ok x" "reads_back x" using Cons.prems by auto
  show ?case
  proof (cases "xs = []")
    case True
    then show ?thesis
      using reads_backD [OF x(2), of g] Cons.prems(3) by (simp add: f)
  next
    case False
    have "skip_ws (json_items xs @ CHR '']'' # r) = json_items xs @ CHR '']'' # r"
      using json_items_first [OF False] skip_ws_dumps [of "hd xs"] Cons.prems(2) False by fastforce
    moreover have "length (json_items xs) < g"
      using Cons.prems(3) False by (simp add: f json_items_Cons)
    moreover have "parse_value g (json_dumps x @ CHR '','' # json_items xs @ CHR '']'' # r)
        = Some (x, CHR '','' # json_items xs @ CHR '']'' # r)"
      using reads_backD [OF x(2), of g] Cons.prems(3) False by (simp add: f json_items_Cons)
    ultimately show ?thesis
      using Cons.IH [OF False, of g] Cons.prems(2) False by (simp add: f json_items_Cons)
  qed
qed simp

lemma parse_members_dumps:
  "d \<noteq> [] \<Longrightarrow> \<forall>p \<in> set d. json_ok (snd p) \<and> reads_back (snd p) \<Longrightarrow> length (json_members d) < f \<Longrightarrow>
     parse_members f (json_members d @ CHR ''}'' # r) = Some (d, r)"
proof (induction d arbitrary: f)
  case (Cons p d)
  obtain k v where p: "p = (k, v)" by (cases p)
  from Cons obtain g where f: "f = Suc g" by (cases f) auto
  have v: "json_ok v" "reads_back v" using Cons.prems p by auto
  show ?case
  proof (cases "d = []")
    case True
    then show ?thesis
      using reads_backD [OF v(2), of g "CHR ''}'' # r"] Cons.prems(3)
      by (simp add: f p json_string_def scan_json_string skip_ws_dumps [OF v(1)])
  next
    case False
    have "skip_ws (json_members d @ CHR ''}'' # r) = json_members d @ CHR ''}'' # r"
      using json_members_first [OF False] by fastforce
    moreover have "length (json_members d) < g"
      using Cons.prems(3) False by (simp add: f p json_members_Cons)
    moreover have "parse_value g (json_dumps v @ CHR '','' # json_members d @ CHR ''}'' # r)
        = Some (v, CHR '','' # json_members d @ CHR ''}'' # r)"
      using reads_backD [OF v(2), of g] Cons.prems(3) False by (simp add: f p json_members_Cons)
    ultimately show ?thesis
      using Cons.IH [OF False, of g] Cons.prems(2) False
      by (simp add: f p json_members_Cons json_string_def scan_json_string skip_ws_dumps [OF v(1)])
  qed
qed simp

lemma reads_backI:
  assumes "json_ok v"
    and "\<And>g r. num_end r \<Longrightarrow> length (json_dumps v) \<le> Suc g \<Longrightarrow> parse_value (Suc g) (json_dumps v @ r) = Some (v, r)"
  shows "reads_back v"
  unfolding reads_back_def
proof (intro allI impI)
  fix f r assume "length (json_dumps v) \<le> f" "num_end r"
  with json_dumps_Cons [OF assms(1)] assms(2) [of r "f - 1"]
  show "parse_value f (json_dumps v @ r) = Some (v, r)"
    by (cases f) auto
qed

lemma json_reads_back: "json_ok v \<Longrightarrow> reads_back v"
proof (induction v)
  case (PInt i)
  show ?case
  proof (rule reads_backI [OF PInt])
    fix g r assume r: "num_end r"
    obtain c cs where c: "str_of_int i = c # cs" "c = CHR ''-'' \<or> is_dec c"
      using str_of_int_Cons [of i] by blast
    then have "code c \<noteq> 34" "c \<noteq> CHR ''[''" "c \<noteq> CHR ''{''" by (auto simp: is_dec_def)
    then show "parse_value (Suc g) (json_dumps (PInt i) @ r) = Some (PInt i, r)"
      using scan_atom_int [OF r, of i] by (simp add: c parse_atom del: parse_value.simps)
  qed
next
  case (PStr s)
  then show ?case
    by (rule reads_backI) (simp add: json_string_def scan_json_string)
next
  case (PList xs)
  then have elems: "\<forall>x \<in> set xs. json_ok x \<and> reads_back x" by (auto simp: list_all_iff)
  show ?case
  proof (rule reads_backI [OF PList.prems])
    fix g r assume len: "length (json_dumps (PList xs)) \<le> Suc g"
    show "parse_value (Suc g) (json_dumps (PList xs) @ r) = Some (PList xs, r)"
    proof (cases "xs = []")
      case False
      then obtain u c cs where "json_items xs = json_dumps (hd xs) @ u"
        "json_dumps (hd xs) = c # cs" "\<not> json_ws c" "c \<noteq> CHR '']''"
        using json_items_first json_dumps_Cons [of "hd xs"] elems by (metis hd_in_set)
      with False show ?thesis
        using parse_items_dumps [OF False elems, of g r] len by (simp add: Let_def skip_ws_def)
    qed simp
  qed
next
  case (PDict d)
  then have elems: "\<forall>p \<in> set d. json_ok (snd p) \<and> reads_back (snd p)" and "dict_ok d"
    by (auto simp: list_all_iff)
  show ?case
  proof (rule reads_backI [OF PDict.prems])
    fix g r assume len: "length (json_dumps (PDict d)) \<le> Suc g"
    show "parse_value (Suc g) (json_dumps (PDict d) @ r) = Some (PDict d, r)"
    proof (cases "d = []")
      case False
      then obtain u where "json_members d = CHR 0x22 # u" using json_members_first by blast
      with False show ?thesis
        using parse_members_dumps [OF False elems, of g r] len dict_update_self [OF \<open>dict_ok d\<close>]
        by (simp add: Let_def)
    qed simp
  qed
qed (auto intro!: reads_backI simp: scan_atom_def)

theorem json_loads_dumps [text_simps]:
  assumes "json_ok v"
  shows "json_loads (json_dumps v) = Some v"
proof -
  have "parse_value (Suc (length (json_dumps v))) (json_dumps v @ []) = Some (v, [])"
    by (rule reads_backD [OF json_reads_back [OF assms]]) simp_all
  moreover have "skip_ws (json_dumps v) = json_dumps v"
    using skip_ws_dumps [OF assms, of "[]"] by simp
  ultimately show ?thesis by (simp add: json_loads_def del: parse_value.simps)
qed

text \<open>The printed text is printable ASCII: it never holds a line boundary of any kind.\<close>

definition printable :: "char \<Rightarrow> bool" where
  "printable c \<longleftrightarrow> 32 \<le> code c \<and> code c \<le> 126"

lemma printable_not_line_end: "printable c \<Longrightarrow> \<not> is_line_end c"
  by (auto simp: printable_def is_line_end_def)

lemma hex_digit_printable: "d < 16 \<Longrightarrow> printable (hex_digit d)"
  by (simp add: hex_digit_def printable_def)

lemma json_escape_printable: "\<forall>c' \<in> set (json_escape c). printable c'"
  by (simp add: json_escape_def hex4_def hex_digit_printable) (simp add: printable_def)

lemma json_string_printable: "c \<in> set (json_string s) \<Longrightarrow> printable c"
  using json_escape_printable by (auto simp: json_string_def printable_def)

lemma json_dumps_printable:
  "json_ok v \<Longrightarrow> c \<in> set (json_dumps v) \<Longrightarrow> printable c"
  "list_all json_ok xs \<Longrightarrow> c \<in> set (json_items xs) \<Longrightarrow> printable c"
  "list_all (\<lambda>p. json_ok (snd p)) d \<Longrightarrow> c \<in> set (json_members d) \<Longrightarrow> printable c"
proof (induction v and xs and d rule: json_dumps_json_items_json_members.induct)
  case (3 i)
  then show ?case
    using dec_digits_is_dec [of "nat i"] dec_digits_is_dec [of "nat (- i)"]
    by (auto simp: str_of_int_def is_dec_def printable_def split: if_splits)
qed (auto dest: json_string_printable simp: printable_def split: if_splits)

end
