(* ===== verification/Events.thy ===== *)
theory Events
  imports Json_Text Sha256
begin

text \<open>
  The data contracts of \<^verbatim>\<open>ulpf/core/models.py\<close> and the admission of raw bytes
  (\<^verbatim>\<open>ulpf/integrity/hashing.py\<close>): raw, parsed and normalized events, dead letters, and how an event
  gets its hash. Event identifiers and clock readings are arguments of the operations that draw them.
\<close>

section \<open>Records\<close>

datatype transport = Udp | Tcp | Tls | Http | File

datatype log_format = FSyslog | FCef | FLeef | FJson | FKv | FCsv | FTsv | FUnknown

record raw_event =
  event_uid :: string
  raw :: bytes
  raw_hash :: string
  raw_len :: int
  ingest_time_ns :: int
  source_id :: string
  transport :: transport
  peer :: "string option"

record parsed_event = raw_event +
  format :: log_format
  source_type :: "string option"
  p_fields :: pydict
  envelope :: pydict
  template_id :: "string option"
  needs_template_mining :: bool
  bom_stripped :: bool

record normalized_event =
  n_event_uid :: string
  n_raw_hash :: string
  n_ingest_time_ns :: int
  ocsf :: pydict
  n_source_type :: string
  mapping_version :: string
  enrichment :: pydict

record dead_letter =
  dl_event_uid :: string
  dl_raw :: bytes
  dl_raw_hash :: string
  dl_reason :: string
  dl_stage :: string
  dl_detail :: pydict
  dl_ts_ns :: int

section \<open>Admission\<close>

definition sha256_hex :: "(bytes \<Rightarrow> bytes) \<Rightarrow> bytes \<Rightarrow> string" where
  "sha256_hex H data = bytes_hex (H data)"

definition make_raw_event ::
  "(bytes \<Rightarrow> bytes) \<Rightarrow> string \<Rightarrow> int \<Rightarrow> bytes \<Rightarrow> string \<Rightarrow> transport \<Rightarrow> string option \<Rightarrow> raw_event" where
  "make_raw_event H uid now b src tr pr =
     \<lparr>event_uid = uid, raw = b, raw_hash = sha256_hex H b, raw_len = int (length b),
      ingest_time_ns = now, source_id = src, transport = tr, peer = pr\<rparr>"

definition raw_event_from_raw ::
  "(bytes \<Rightarrow> bytes) \<Rightarrow> string \<Rightarrow> bytes \<Rightarrow> string \<Rightarrow> transport \<Rightarrow> int \<Rightarrow> string option \<Rightarrow> string option \<Rightarrow> raw_event" where
  "raw_event_from_raw H fresh b src tr now pr uid =
     \<lparr>event_uid = (case uid of Some u \<Rightarrow> if u = [] then fresh else u | None \<Rightarrow> fresh),
      raw = b, raw_hash = sha256_hex H b, raw_len = int (length b),
      ingest_time_ns = now, source_id = src, transport = tr, peer = pr\<rparr>"

definition traceability :: "normalized_event \<Rightarrow> (string \<times> string) list" where
  "traceability e = [(''event_uid'', n_event_uid e), (''raw_hash'', n_raw_hash e)]"

section \<open>The evidence invariant\<close>

text \<open>What \<^verbatim>\<open>raw_hash\<close> and \<^verbatim>\<open>raw_len\<close> promise about \<^verbatim>\<open>raw\<close>.\<close>

definition evidence_ok :: "(bytes \<Rightarrow> bytes) \<Rightarrow> 'a raw_event_scheme \<Rightarrow> bool" where
  "evidence_ok H e \<longleftrightarrow> raw_hash e = sha256_hex H (raw e) \<and> raw_len e = int (length (raw e))"

lemma evidence_ok_make [simp, intro]: "evidence_ok H (make_raw_event H uid now b src tr pr)"
  by (simp add: evidence_ok_def make_raw_event_def)

lemma evidence_ok_from_raw [simp, intro]: "evidence_ok H (raw_event_from_raw H fresh b src tr now pr uid)"
  by (simp add: evidence_ok_def raw_event_from_raw_def)

lemma evidence_fromhex: "evidence_ok H e \<Longrightarrow> bytes_fromhex (raw_hash e) = Some (H (raw e))"
  by (simp add: evidence_ok_def sha256_hex_def)

end
