(* ===== verification/Append_Log.thy ===== *)
theory Append_Log
  imports Ulpf_Prelude "HOL-Library.Sublist"
begin

text \<open>
  The contract of the append-only stores (ledger, dead-letter queue, bronze store): an append either
  cannot fail on an acceptable item or leaves the store unchanged, and what was read before stays a
  prefix of what is read after.
\<close>

locale append_log =
  fixes inv :: "'s \<Rightarrow> bool"
    and acceptable :: "'x \<Rightarrow> bool"
    and contents :: "'s \<Rightarrow> 'e list"
    and append :: "'x \<Rightarrow> 's \<Rightarrow> 's"
    and item :: "'x \<Rightarrow> 's \<Rightarrow> 'e"
  assumes inv_append: "inv s \<Longrightarrow> acceptable x \<Longrightarrow> inv (append x s)"
    and contents_append: "inv s \<Longrightarrow> acceptable x \<Longrightarrow> contents (append x s) = contents s @ [item x s]"
begin

lemma inv_fold: "inv s \<Longrightarrow> \<forall>x \<in> set xs. acceptable x \<Longrightarrow> inv (fold append xs s)"
  by (induction xs arbitrary: s) (auto simp: inv_append)

lemma contents_prefix:
  "inv s \<Longrightarrow> \<forall>x \<in> set xs. acceptable x \<Longrightarrow> prefix (contents s) (contents (fold append xs s))"
proof (induction xs arbitrary: s)
  case (Cons x xs)
  then have "prefix (contents (append x s)) (contents (fold append xs (append x s)))"
    using inv_append by auto
  then show ?case
    using Cons.prems contents_append [of s x] by (auto simp: prefix_def)
qed simp

lemma contents_length:
  "inv s \<Longrightarrow> \<forall>x \<in> set xs. acceptable x \<Longrightarrow>
     length (contents (fold append xs s)) = length (contents s) + length xs"
  by (induction xs arbitrary: s) (auto simp: contents_append inv_append)

lemma item_stays:
  assumes "inv s" and "acceptable x" and "\<forall>y \<in> set ys. acceptable y"
  shows "contents (fold append ys (append x s)) ! length (contents s) = item x s"
proof -
  obtain zs where "contents (fold append ys (append x s)) = (contents s @ [item x s]) @ zs"
    using contents_prefix [OF inv_append [OF assms(1,2)] assms(3)] contents_append [OF assms(1,2)]
    by (auto simp: prefix_def)
  then show ?thesis by (simp add: nth_append)
qed

end

end
