(* ===== verification/Py_Value.thy ===== *)
theory Py_Value
  imports Py_Text
begin

text \<open>
  Built-in operations on Python values that several components use: \<^verbatim>\<open>int()\<close>, \<^verbatim>\<open>str()\<close> and \<^verbatim>\<open>repr()\<close>,
  truth, subscription and \<^verbatim>\<open>dict.get\<close>, \<^verbatim>\<open>bytes.fromhex\<close>.
\<close>

section \<open>Conversions and lookups\<close>

text \<open>
  \<^verbatim>\<open>int(x)\<close> of a JSON value. A float is truncated; an infinite one raises \<^verbatim>\<open>OverflowError\<close>, a NaN
  \<^verbatim>\<open>ValueError\<close>. The token of a finite float is read exactly.
\<close>

definition signed_digits :: "string \<Rightarrow> int option" where
  "signed_digits s =
     (let neg = starts_with ''-'' s; body = (if neg \<or> starts_with ''+'' s then tl s else s);
          groups = split_on ''_'' body
      in if list_all (\<lambda>g. g \<noteq> [] \<and> list_all is_dec g) groups
         then Some ((if neg then - 1 else 1) * int (nat_of_dec (concat groups))) else None)"

definition float_trunc :: "string \<Rightarrow> int" where
  "float_trunc t =
     (let neg = starts_with ''-'' t; body = (if neg then tl t else t);
          (mant, _, ex) = py_partition ''e'' (py_lower body);
          (ip, _, fp) = py_partition ''.'' mant;
          k = (case signed_digits ex of Some e \<Rightarrow> e | None \<Rightarrow> 0) - int (length fp);
          m = int (nat_of_dec (ip @ fp));
          v = (if 0 \<le> k then m * 10 ^ nat k else m div 10 ^ nat (- k))
      in if neg then - v else v)"

definition py_int :: "pyval \<Rightarrow> int res" where
  "py_int v =
     (case v of
        PInt i \<Rightarrow> Inr i
      | PBool b \<Rightarrow> Inr (if b then 1 else 0)
      | PStr s \<Rightarrow> (case signed_digits (py_strip s) of
                    Some i \<Rightarrow> Inr i | None \<Rightarrow> Inl (ValueError ''invalid literal for int()''))
      | PFloat t \<Rightarrow>
          if t \<in> {''inf'', ''-inf''} \<or> 2 ^ 1024 - 2 ^ 970 \<le> \<bar>float_trunc t\<bar>
          then Inl (OverflowError ''cannot convert float infinity to integer'')
          else if t = ''nan'' then Inl (ValueError ''cannot convert float NaN to integer'')
          else Inr (float_trunc t)
      | _ \<Rightarrow> Inl (TypeError ''int() argument must be a string or a number''))"

definition py_fromhex :: "pyval \<Rightarrow> bytes res" where
  "py_fromhex v =
     (case v of
        PStr s \<Rightarrow> (case bytes_fromhex s of
                    Some b \<Rightarrow> Inr b | None \<Rightarrow> Inl (ValueError ''non-hexadecimal number found''))
      | _ \<Rightarrow> Inl (TypeError ''fromhex() argument must be str''))"

definition py_item :: "pyval \<Rightarrow> string \<Rightarrow> pyval res" where
  "py_item data k =
     (case data of
        PDict d \<Rightarrow> (case map_of d k of Some v \<Rightarrow> Inr v | None \<Rightarrow> Inl (KeyError k))
      | _ \<Rightarrow> Inl (TypeError ''not subscriptable by str''))"

definition py_get :: "pydict \<Rightarrow> string \<Rightarrow> pyval" where
  "py_get d k = (case map_of d k of Some v \<Rightarrow> v | None \<Rightarrow> PNone)"

definition dict_of :: "pyval \<Rightarrow> pydict" where
  "dict_of v = (case v of PDict d \<Rightarrow> d | _ \<Rightarrow> [])"

text \<open>\<^verbatim>\<open>bool(x)\<close>; the zeros among float literals are those whose digits are all zero.\<close>

definition float_zero :: "string \<Rightarrow> bool" where
  "float_zero t \<longleftrightarrow> list_all (\<lambda>c. \<not> is_dec c \<or> c = CHR ''0'') (fst (py_partition ''e'' (py_lower t)))
     \<and> t \<notin> {''inf'', ''-inf'', ''nan''}"

definition py_truth :: "pyval \<Rightarrow> bool" where
  "py_truth v = (case v of PNone \<Rightarrow> False | PBool b \<Rightarrow> b | PInt i \<Rightarrow> i \<noteq> 0 | PFloat t \<Rightarrow> \<not> float_zero t
     | PStr s \<Rightarrow> s \<noteq> [] | PList xs \<Rightarrow> xs \<noteq> [] | PDict d \<Rightarrow> d \<noteq> [])"

text \<open>
  \<^verbatim>\<open>str(x)\<close> and \<^verbatim>\<open>repr(x)\<close>. A float is carried as a literal, which is taken to be its shortest form.
\<close>

definition repr_char :: "char \<Rightarrow> char \<Rightarrow> string" where
  "repr_char q c =
     (if c = q \<or> c = CHR 0x5C then [CHR 0x5C, c]
      else if code c = 10 then [CHR 0x5C, CHR ''n''] else if code c = 13 then [CHR 0x5C, CHR ''r'']
      else if code c = 9 then [CHR 0x5C, CHR ''t'']
      else if code c < 32 \<or> 127 \<le> code c \<and> code c \<le> 160 \<or> code c = 173
      then [CHR 0x5C, CHR ''x'', hex_digit (code c div 16), hex_digit (code c mod 16)]
      else [c])"

definition repr_str :: "string \<Rightarrow> string" where
  "repr_str s = (let q = (if CHR 0x27 \<in> set s \<and> CHR 0x22 \<notin> set s then CHR 0x22 else CHR 0x27)
                 in q # concat (map (repr_char q) s) @ [q])"

fun py_repr :: "pyval \<Rightarrow> string"
  and repr_items :: "pyval list \<Rightarrow> string"
  and repr_members :: "pydict \<Rightarrow> string" where
  "py_repr PNone = ''None''"
| "py_repr (PBool b) = (if b then ''True'' else ''False'')"
| "py_repr (PInt i) = str_of_int i"
| "py_repr (PFloat t) = t"
| "py_repr (PStr s) = repr_str s"
| "py_repr (PList xs) = ''['' @ repr_items xs @ '']''"
| "py_repr (PDict d) = ''{'' @ repr_members d @ ''}''"
| "repr_items [] = []"
| "repr_items [x] = py_repr x"
| "repr_items (x # y # r) = py_repr x @ '', '' @ repr_items (y # r)"
| "repr_members [] = []"
| "repr_members [(k, v)] = repr_str k @ '': '' @ py_repr v"
| "repr_members ((k, v) # p # r) = repr_str k @ '': '' @ py_repr v @ '', '' @ repr_members (p # r)"

definition py_str :: "pyval \<Rightarrow> string" where
  "py_str v = (case v of PStr s \<Rightarrow> s | _ \<Rightarrow> py_repr v)"

lemma py_str_simps [simp]:
  "py_str (PStr s) = s" "py_str (PInt i) = str_of_int i" "py_str PNone = ''None''"
  by (simp_all add: py_str_def)

lemma py_truth_simps [simp]:
  "\<not> py_truth PNone" "py_truth (PStr s) \<longleftrightarrow> s \<noteq> []" "py_truth (PBool b) = b"
  "py_truth (PDict d) \<longleftrightarrow> d \<noteq> []" "py_truth (PList xs) \<longleftrightarrow> xs \<noteq> []" "py_truth (PInt i) \<longleftrightarrow> i \<noteq> 0"
  by (simp_all add: py_truth_def)

end
