(* ===== verification/Ledger.thy ===== *)
theory Ledger
  imports Merkle Events Append_Log Py_Value
begin

text \<open>
  The chained, signed ledger of batch roots (\<^verbatim>\<open>ulpf/integrity/ledger.py\<close>): its NDJSON entries, opening,
  appending and verification. The ledger file is its text (\<open>None\<close> when it does not exist). The Ed25519
  key pair of the \<^verbatim>\<open>cryptography\<close> package is a pair of functions, the digest is an argument, a clock
  reading is an argument of the append.
\<close>

section \<open>Entries and their NDJSON lines\<close>

type_synonym signer = "(bytes \<Rightarrow> bytes) \<times> (bytes \<Rightarrow> bytes \<Rightarrow> bool)"
type_synonym verifier = "bytes \<Rightarrow> bytes \<Rightarrow> bool"

definition genesis_root :: bytes where
  "genesis_root = replicate 32 0"

record ledger_entry =
  seq :: int
  batch_root :: bytes
  prev_chained_root :: bytes
  chained_root :: bytes
  leaf_count :: int
  first_event_uid :: pyval
  last_event_uid :: pyval
  sealed_at_ns :: int
  signature :: bytes

definition entry_dict :: "ledger_entry \<Rightarrow> pydict" where
  "entry_dict e =
     [(''seq'', PInt (seq e)),
      (''batch_root'', PStr (bytes_hex (batch_root e))),
      (''prev_chained_root'', PStr (bytes_hex (prev_chained_root e))),
      (''chained_root'', PStr (bytes_hex (chained_root e))),
      (''leaf_count'', PInt (leaf_count e)),
      (''first_event_uid'', first_event_uid e),
      (''last_event_uid'', last_event_uid e),
      (''sealed_at_ns'', PInt (sealed_at_ns e)),
      (''signature'', PStr (bytes_hex (signature e)))]"

definition to_json :: "ledger_entry \<Rightarrow> string" where
  "to_json e = json_dumps (PDict (entry_dict e))"

definition read_entry :: "pyval \<Rightarrow> ledger_entry res" where
  "read_entry data =
     bind_res (bind_res (py_item data ''seq'') py_int) (\<lambda>sq.
     bind_res (bind_res (py_item data ''batch_root'') py_fromhex) (\<lambda>br.
     bind_res (bind_res (py_item data ''prev_chained_root'') py_fromhex) (\<lambda>pr.
     bind_res (bind_res (py_item data ''chained_root'') py_fromhex) (\<lambda>cr.
     bind_res (bind_res (py_item data ''leaf_count'') py_int) (\<lambda>lc.
     bind_res (bind_res (py_item data ''sealed_at_ns'') py_int) (\<lambda>ts.
     bind_res (bind_res (py_item data ''signature'') py_fromhex) (\<lambda>sg.
     Inr \<lparr>seq = sq, batch_root = br, prev_chained_root = pr, chained_root = cr, leaf_count = lc,
          first_event_uid = py_get (dict_of data) ''first_event_uid'',
          last_event_uid = py_get (dict_of data) ''last_event_uid'',
          sealed_at_ns = ts, signature = sg\<rparr>)))))))"

text \<open>The \<^verbatim>\<open>except\<close> clause catches decode, key, type and value errors, and nothing else.\<close>

definition from_json :: "string \<Rightarrow> ledger_entry res" where
  "from_json line =
     (case (case json_loads line of
              None \<Rightarrow> Inl (ValueError ''JSONDecodeError'') | Some data \<Rightarrow> read_entry data) of
        Inl x \<Rightarrow> if is_lookup_or_value_error x then Inl (ValueError ''malformed ledger line'') else Inl x
      | Inr e \<Rightarrow>
          if length (batch_root e) \<noteq> 32 \<or> length (prev_chained_root e) \<noteq> 32
             \<or> length (chained_root e) \<noteq> 32 \<or> length (signature e) \<noteq> 64
          then Inl (ValueError ''ledger line has a wrong-length hash or signature'')
          else Inr e)"

section \<open>The ledger\<close>

definition chain_roots :: "digest_fn \<Rightarrow> bytes \<Rightarrow> bytes \<Rightarrow> bytes" where
  "chain_roots H prev root = H (prev @ root)"

record ledger =
  lg_file :: "string option"
  lg_signer :: "signer option"
  lg_verifier :: "verifier option"
  lg_next_seq :: int
  lg_prev :: bytes

definition file_lines :: "string option \<Rightarrow> string list" where
  "file_lines f = (case f of None \<Rightarrow> [] | Some text \<Rightarrow> filter (\<lambda>l. py_strip l \<noteq> []) (py_splitlines text))"

fun scan_tail :: "string list \<Rightarrow> int \<Rightarrow> bytes \<Rightarrow> (int \<times> bytes) res" where
  "scan_tail [] n prev = Inr (n, prev)"
| "scan_tail (l # ls) n prev =
     (case from_json l of
        Inl x \<Rightarrow> if is_value_error x then Inr (n, prev) else Inl x
      | Inr e \<Rightarrow> scan_tail ls (seq e + 1) (chained_root e))"

definition open_ledger :: "string option \<Rightarrow> signer option \<Rightarrow> verifier option \<Rightarrow> ledger res" where
  "open_ledger f sg ver =
     bind_res (scan_tail (file_lines f) 0 genesis_root) (\<lambda>(n, prev).
       Inr \<lparr>lg_file = f, lg_signer = sg,
            lg_verifier = (case ver of Some v \<Rightarrow> Some v | None \<Rightarrow> map_option snd sg),
            lg_next_seq = n, lg_prev = prev\<rparr>)"

definition ledger_head :: "ledger \<Rightarrow> bytes" where
  "ledger_head lg = lg_prev lg"

definition ledger_len :: "ledger \<Rightarrow> int" where
  "ledger_len lg = lg_next_seq lg"

definition uid_end :: "(string list \<Rightarrow> string) \<Rightarrow> string list option \<Rightarrow> pyval" where
  "uid_end pick uids = (case uids of Some (u # us) \<Rightarrow> PStr (pick (u # us)) | _ \<Rightarrow> PNone)"

definition append_batch ::
  "digest_fn \<Rightarrow> int \<Rightarrow> bytes list \<Rightarrow> string list option \<Rightarrow> ledger \<Rightarrow> (ledger_entry \<times> ledger) res" where
  "append_batch H now leaf_hashes event_uids lg =
     (case lg_signer lg of
        None \<Rightarrow> Inl (RuntimeError ''ledger opened read-only; no signer to append with'')
      | Some (sign, _) \<Rightarrow>
          (let root = merkle_root H leaf_hashes;
               prev = lg_prev lg;
               chained = chain_roots H prev root;
               e = \<lparr>seq = lg_next_seq lg, batch_root = root, prev_chained_root = prev,
                    chained_root = chained, leaf_count = int (length leaf_hashes),
                    first_event_uid = uid_end hd event_uids,
                    last_event_uid = uid_end last event_uids,
                    sealed_at_ns = now, signature = sign chained\<rparr>
           in Inr (e, lg\<lparr>lg_file := Some ((case lg_file lg of None \<Rightarrow> [] | Some t \<Rightarrow> t) @ to_json e @ [CHR 0x0A]),
                         lg_prev := chained, lg_next_seq := lg_next_seq lg + 1\<rparr>)))"

definition ledger_entries :: "ledger \<Rightarrow> ledger_entry list res" where
  "ledger_entries lg = map_res from_json (file_lines (lg_file lg))"

definition entry_count_on_disk :: "ledger \<Rightarrow> int" where
  "entry_count_on_disk lg = int (length (file_lines (lg_file lg)))"

section \<open>Verification\<close>

definition check_line ::
  "digest_fn \<Rightarrow> verifier option \<Rightarrow> int \<Rightarrow> string \<Rightarrow> bytes \<Rightarrow> (ledger_entry option \<times> string option) res" where
  "check_line H ver index line prev =
     (case from_json line of
        Inl x \<Rightarrow> if is_value_error x then Inr (None, Some ''unparseable line'') else Inl x
      | Inr e \<Rightarrow>
          if seq e \<noteq> index then Inr (Some e, Some ''seq does not match position'')
          else if prev_chained_root e \<noteq> prev
          then Inr (Some e, Some ''prev_chained_root does not link to the previous entry'')
          else if chain_roots H (prev_chained_root e) (batch_root e) \<noteq> chained_root e
          then Inr (Some e, Some ''chained_root does not recompute from prev_chained_root + batch_root'')
          else case ver of
            None \<Rightarrow> Inr (Some e, Some ''no public key configured; cannot verify the signature'')
          | Some v \<Rightarrow>
              if \<not> v (chained_root e) (signature e) then Inr (Some e, Some ''Ed25519 signature is invalid'')
              else Inr (Some e, None))"

fun iter_checked ::
  "digest_fn \<Rightarrow> verifier option \<Rightarrow> int \<Rightarrow> bytes \<Rightarrow> string list
     \<Rightarrow> (int \<times> ledger_entry option \<times> string option) list res" where
  "iter_checked H ver index prev [] = Inr []"
| "iter_checked H ver index prev (l # ls) =
     bind_res (check_line H ver index l prev) (\<lambda>(e, reason).
       case (reason, e) of
         (None, Some e') \<Rightarrow>
           bind_res (iter_checked H ver (index + 1) (chained_root e') ls) (\<lambda>r. Inr ((index, e, None) # r))
       | _ \<Rightarrow> Inr [(index, e, reason)])"

definition faulty :: "int \<times> ledger_entry option \<times> string option \<Rightarrow> bool" where
  "faulty r \<longleftrightarrow> snd (snd r) \<noteq> None"

lemma faulty_simps [simp]: "\<not> faulty (i, d, None)" "faulty (i, d, Some r)"
  by (simp_all add: faulty_def)

definition verify_chain :: "digest_fn \<Rightarrow> ledger \<Rightarrow> (bool \<times> int option) res" where
  "verify_chain H lg =
     bind_res (iter_checked H (lg_verifier lg) 0 genesis_root (file_lines (lg_file lg))) (\<lambda>rs.
       case filter faulty rs of
         [] \<Rightarrow> Inr (True, None)
       | (index, _, _) # _ \<Rightarrow> Inr (False, Some index))"

section \<open>Lines and entries\<close>

definition entry_wf :: "ledger_entry \<Rightarrow> bool" where
  "entry_wf e \<longleftrightarrow> length (batch_root e) = 32 \<and> length (prev_chained_root e) = 32
     \<and> length (chained_root e) = 32 \<and> length (signature e) = 64
     \<and> json_ok (first_event_uid e) \<and> json_ok (last_event_uid e)"

definition ledger_text :: "ledger_entry list \<Rightarrow> string" where
  "ledger_text es = concat (map (\<lambda>e. to_json e @ [CHR 0x0A]) es)"

fun chain_ok :: "digest_fn \<Rightarrow> verifier \<Rightarrow> int \<Rightarrow> bytes \<Rightarrow> ledger_entry list \<Rightarrow> bool" where
  "chain_ok H v i prev [] = True"
| "chain_ok H v i prev (e # es) =
     (entry_wf e \<and> seq e = i \<and> prev_chained_root e = prev
      \<and> chain_roots H prev (batch_root e) = chained_root e \<and> v (chained_root e) (signature e)
      \<and> chain_ok H v (i + 1) (chained_root e) es)"

fun last_root :: "bytes \<Rightarrow> ledger_entry list \<Rightarrow> bytes" where
  "last_root prev [] = prev"
| "last_root prev (e # es) = last_root (chained_root e) es"

lemma json_ok_entry: "entry_wf e \<Longrightarrow> json_ok (PDict (entry_dict e))"
  by (simp add: entry_dict_def dict_ok_def entry_wf_def)

lemma from_json_to_json:
  assumes "entry_wf e"
  shows "from_json (to_json e) = Inr e"
proof -
  have "json_loads (to_json e) = Some (PDict (entry_dict e))"
    unfolding to_json_def by (rule json_loads_dumps [OF json_ok_entry [OF assms]])
  moreover have "read_entry (PDict (entry_dict e)) = Inr e"
    by (cases e) (simp add: read_entry_def entry_dict_def py_item_def py_int_def py_fromhex_def py_get_def dict_of_def)
  ultimately show ?thesis
    using assms by (simp add: from_json_def entry_wf_def)
qed

lemma to_json_printable: "entry_wf e \<Longrightarrow> c \<in> set (to_json e) \<Longrightarrow> printable c"
  unfolding to_json_def using json_dumps_printable(1) json_ok_entry by blast

lemma to_json_not_blank: "py_strip (to_json e) \<noteq> []"
  by (simp add: py_strip_Nil_iff to_json_def is_space_def)

lemma file_lines_ledger_text:
  assumes "\<forall>e \<in> set es. entry_wf e"
  shows "file_lines (Some (ledger_text es)) = map to_json es"
proof -
  have "\<forall>e \<in> set es. \<forall>c \<in> set (to_json e). \<not> is_line_end c"
    using to_json_printable printable_not_line_end assms by blast
  then show ?thesis
    by (simp add: file_lines_def ledger_text_def splitlines_terminated filter_map o_def to_json_not_blank)
qed

lemma chain_ok_wf: "chain_ok H v i prev es \<Longrightarrow> \<forall>e \<in> set es. entry_wf e"
  by (induction es arbitrary: i prev) auto

lemma chain_ok_append:
  "chain_ok H v i prev (es @ fs) \<longleftrightarrow>
     chain_ok H v i prev es \<and> chain_ok H v (i + int (length es)) (last_root prev es) fs"
  by (induction es arbitrary: i prev) (auto simp: add.assoc)

lemma last_root_append [simp]: "last_root prev (es @ fs) = last_root (last_root prev es) fs"
  by (induction es arbitrary: prev) auto

section \<open>Verification accepts exactly sound chains\<close>

lemma check_line_sound:
  "check_line H (Some v) i l prev = Inr (Some e, None) \<longleftrightarrow>
     from_json l = Inr e \<and> seq e = i \<and> prev_chained_root e = prev
     \<and> chain_roots H prev (batch_root e) = chained_root e \<and> v (chained_root e) (signature e)"
proof (cases "from_json l")
  case (Inl x)
  then show ?thesis by (simp add: check_line_def)
next
  case (Inr d)
  then show ?thesis
    by (cases "chain_roots H (prev_chained_root d) (batch_root d) = chained_root d")
      (auto simp add: check_line_def)
qed

lemma check_line_to_json:
  "entry_wf e \<Longrightarrow> seq e = i \<Longrightarrow> prev_chained_root e = prev \<Longrightarrow>
   chain_roots H prev (batch_root e) = chained_root e \<Longrightarrow> v (chained_root e) (signature e) \<Longrightarrow>
   check_line H (Some v) i (to_json e) prev = Inr (Some e, None)"
  by (simp add: check_line_sound from_json_to_json)

definition sound_report :: "int \<Rightarrow> ledger_entry list \<Rightarrow> (int \<times> ledger_entry option \<times> string option) list" where
  "sound_report i es = map (\<lambda>(k, e). (i + int k, Some e, None)) (enumerate 0 es)"

lemma sound_report_simps [simp]:
  "sound_report i [] = []"
  "sound_report i (e # es) = (i, Some e, None) # sound_report (i + 1) es"
  by (simp_all add: sound_report_def enumerate_eq_zip upt_conv_Cons zip_map1 o_def case_prod_beta
      map_Suc_upt [symmetric] del: upt_Suc)

lemma sound_report_no_fault [simp]: "filter faulty (sound_report i es) = []"
  by (induction es arbitrary: i) (auto simp: faulty_def)

lemma iter_checked_chain_ok:
  "chain_ok H v i prev es \<Longrightarrow> iter_checked H (Some v) i prev (map to_json es @ ls) =
     bind_res (iter_checked H (Some v) (i + int (length es)) (last_root prev es) ls)
       (\<lambda>r. Inr (sound_report i es @ r))"
proof (induction es arbitrary: i prev)
  case Nil
  then show ?case
    by (cases "iter_checked H (Some v) i prev ls") simp_all
next
  case (Cons e es)
  then have c: "check_line H (Some v) i (to_json e) prev = Inr (Some e, None)"
    by (intro check_line_to_json) auto
  have "chain_ok H v (i + 1) (chained_root e) es"
    using Cons.prems by simp
  note ih = Cons.IH [OF this]
  have i: "i + 1 + int (length es) = i + int (length (e # es))" by simp
  show ?case
    by (cases "iter_checked H (Some v) (i + int (length (e # es))) (last_root (chained_root e) es) ls")
      (simp_all add: c ih i del: of_nat_Suc)
qed

lemma verify_chain_ok:
  assumes "chain_ok H v 0 genesis_root es" and "file_lines (lg_file lg) = map to_json es"
    and "lg_verifier lg = Some v"
  shows "verify_chain H lg = Inr (True, None)"
  using assms iter_checked_chain_ok [OF assms(1), of "[]"] by (simp add: verify_chain_def)

text \<open>Conversely, acceptance means that every line reads as an entry that links, recomputes and is signed.\<close>

fun lines_ok :: "digest_fn \<Rightarrow> verifier \<Rightarrow> int \<Rightarrow> bytes \<Rightarrow> string list \<Rightarrow> ledger_entry list \<Rightarrow> bool" where
  "lines_ok H v i prev [] es = (es = [])"
| "lines_ok H v i prev (l # ls) es =
     (case es of [] \<Rightarrow> False
      | e # es' \<Rightarrow> from_json l = Inr e \<and> seq e = i \<and> prev_chained_root e = prev
          \<and> chain_roots H prev (batch_root e) = chained_root e \<and> v (chained_root e) (signature e)
          \<and> lines_ok H v (i + 1) (chained_root e) ls es')"

lemma check_line_no_key: "check_line H None i l prev \<noteq> Inr (e, None)"
  by (auto simp: check_line_def split: sum.splits)

lemma check_line_some: "check_line H ver i l prev = Inr (e, reason) \<Longrightarrow> e \<noteq> None \<or> reason \<noteq> None"
  by (auto simp: check_line_def split: sum.splits if_splits option.splits)

lemma iter_checked_sound:
  "iter_checked H ver i prev ls = Inr rs \<Longrightarrow> filter faulty rs = [] \<Longrightarrow>
     ls = [] \<or> (\<exists>v es. ver = Some v \<and> lines_ok H v i prev ls es)"
proof (induction ls arbitrary: i prev rs)
  case (Cons l ls)
  then obtain e reason where c: "check_line H ver i l prev = Inr (e, reason)"
    by (auto simp: bind_res_Inr_iff)
  show ?case
  proof (cases "reason = None \<and> e \<noteq> None")
    case True
    then obtain e' where e': "e = Some e'" and "reason = None" by auto
    then have "\<exists>v. ver = Some v" using c check_line_no_key by (cases ver) auto
    then obtain v where v: "ver = Some v" ..
    have l: "lines_ok H v i prev [l] [e']"
      using c check_line_sound [of H v i l prev e'] unfolding e' v \<open>reason = None\<close> by auto
    obtain rs' where rs': "iter_checked H ver (i + 1) (chained_root e') ls = Inr rs'" "rs = (i, e, None) # rs'"
      using Cons.prems(1) c by (auto simp: e' \<open>reason = None\<close> bind_res_Inr_iff)
    then have "ls = [] \<or> (\<exists>v es. ver = Some v \<and> lines_ok H v (i + 1) (chained_root e') ls es)"
      using Cons.IH [OF rs'(1)] Cons.prems(2) by simp
    then obtain es where "lines_ok H v (i + 1) (chained_root e') ls es"
      using v by fastforce
    then have "lines_ok H v i prev (l # ls) (e' # es)" using l by simp
    with v show ?thesis by blast
  next
    case False
    then show ?thesis
      using Cons.prems c check_line_some [OF c] by (auto simp: faulty_def split: option.splits)
  qed
qed simp

lemma lines_ok_entries: "lines_ok H v i prev ls es \<Longrightarrow> map_res from_json ls = Inr es"
  by (induction H v i prev ls es rule: lines_ok.induct) (auto split: list.splits)

lemma lines_ok_length: "lines_ok H v i prev ls es \<Longrightarrow> length es = length ls"
  by (induction H v i prev ls es rule: lines_ok.induct) (auto split: list.splits)

lemma iter_checked_complete:
  "lines_ok H v i prev ls es \<Longrightarrow> iter_checked H (Some v) i prev ls = Inr (sound_report i es)"
proof (induction ls arbitrary: i prev es)
  case (Cons l ls)
  then obtain e es' where es: "es = e # es'" by (auto split: list.splits)
  have c: "check_line H (Some v) i l prev = Inr (Some e, None)"
    using Cons.prems by (simp add: es check_line_sound)
  have "lines_ok H v (i + 1) (chained_root e) ls es'"
    using Cons.prems by (simp add: es)
  note ih = Cons.IH [OF this]
  show ?case by (simp add: c ih es)
qed simp

lemma verdict_False:
  assumes "(case filter faulty rs of [] \<Rightarrow> Inr (True, None) | (k, _, _) # _ \<Rightarrow> Inr (False, Some k)) = (Inr (False, Some j) :: _ res)"
  shows "\<exists>e r fs. filter faulty rs = (j, e, r) # fs"
  using assms by (cases "filter faulty rs") (auto split: prod.splits)

definition accepted :: "digest_fn \<Rightarrow> verifier option \<Rightarrow> string list \<Rightarrow> bool" where
  "accepted H ver ls \<longleftrightarrow> ls = [] \<or> (\<exists>v es. ver = Some v \<and> lines_ok H v 0 genesis_root ls es)"

lemma verify_chain_accepted:
  "verify_chain H lg = Inr (True, None) \<longleftrightarrow> accepted H (lg_verifier lg) (file_lines (lg_file lg))"
proof
  assume "verify_chain H lg = Inr (True, None)"
  then obtain rs where "iter_checked H (lg_verifier lg) 0 genesis_root (file_lines (lg_file lg)) = Inr rs"
    "(case filter faulty rs of [] \<Rightarrow> Inr (True, None) | (k, _, _) # _ \<Rightarrow> Inr (False, Some k)) = (Inr (True, None) :: _ res)"
    by (auto simp: verify_chain_def bind_res_Inr_iff)
  moreover from this(2) have "filter faulty rs = []"
    by (cases "filter faulty rs") (auto split: prod.splits)
  ultimately show "accepted H (lg_verifier lg) (file_lines (lg_file lg))"
    using iter_checked_sound unfolding accepted_def by blast
next
  assume "accepted H (lg_verifier lg) (file_lines (lg_file lg))"
  then show "verify_chain H lg = Inr (True, None)"
    by (auto simp: accepted_def verify_chain_def iter_checked_complete)
qed

lemma iter_checked_first_fault:
  "iter_checked H ver i prev ls = Inr rs \<Longrightarrow> filter faulty rs = (k, e, r) # fs \<Longrightarrow>
     i \<le> k \<and> k < i + int (length ls)
     \<and> iter_checked H ver i prev (take (nat (k - i)) ls) = Inr (take (nat (k - i)) rs)
     \<and> filter faulty (take (nat (k - i)) rs) = []
     \<and> iter_checked H ver i prev (take (nat (k - i) + 1) ls) = Inr rs"
proof (induction ls arbitrary: i prev rs)
  case (Cons l ls)
  then obtain d reason where c: "check_line H ver i l prev = Inr (d, reason)"
    by (auto simp: bind_res_Inr_iff)
  show ?case
  proof (cases "reason = None \<and> d \<noteq> None")
    case True
    then obtain d' where d': "d = Some d'" "reason = None" by auto
    obtain rs' where rs': "iter_checked H ver (i + 1) (chained_root d') ls = Inr rs'" "rs = (i, d, None) # rs'"
      using Cons.prems(1) c by (auto simp: d' bind_res_Inr_iff)
    have "filter faulty rs' = (k, e, r) # fs"
      using Cons.prems(2) rs'(2) by simp
    note ih = Cons.IH [OF rs'(1) this]
    then have "nat (k - i) = Suc (nat (k - (i + 1)))" by linarith
    then show ?thesis using ih c d' rs' by simp
  next
    case False
    then have "rs = [(i, d, reason)]"
      using Cons.prems(1) c check_line_some [OF c] by (auto split: option.splits)
    then show ?thesis
      using False Cons.prems c by (auto simp: faulty_def split: if_splits option.splits)
  qed
qed simp

section \<open>Reachable ledgers\<close>

text \<open>
  What the code relies on of Ed25519: signatures of the key verify under its public half, and are 64
  bytes long.
\<close>

definition signer_ok :: "signer \<Rightarrow> bool" where
  "signer_ok sg \<longleftrightarrow> (\<forall>m. snd sg m (fst sg m)) \<and> (\<forall>m. length (fst sg m) = 64)"

definition leaves_ok :: "bytes list \<Rightarrow> bool" where
  "leaves_ok ls \<longleftrightarrow> (\<forall>x \<in> set ls. length x = 32)"

text \<open>
  A ledger directory over time: opened when no file exists, appended to, and closed and opened again
  (a restart) on the file it wrote.
\<close>

inductive reachable :: "digest_fn \<Rightarrow> signer \<Rightarrow> ledger \<Rightarrow> bool" for H sg where
  fresh: "open_ledger None (Some sg) None = Inr lg \<Longrightarrow> reachable H sg lg"
| appended: "reachable H sg lg \<Longrightarrow> leaves_ok leaves \<Longrightarrow> append_batch H now leaves uids lg = Inr (e, lg')
    \<Longrightarrow> reachable H sg lg'"
| restarted: "reachable H sg lg \<Longrightarrow> open_ledger (lg_file lg) (Some sg) None = Inr lg' \<Longrightarrow> reachable H sg lg'"

definition ledger_inv :: "digest_fn \<Rightarrow> signer \<Rightarrow> ledger_entry list \<Rightarrow> ledger \<Rightarrow> bool" where
  "ledger_inv H sg es lg \<longleftrightarrow>
     (lg_file lg = Some (ledger_text es) \<or> lg_file lg = None \<and> es = [])
     \<and> chain_ok H (snd sg) 0 genesis_root es \<and> lg_prev lg = last_root genesis_root es
     \<and> lg_next_seq lg = int (length es) \<and> lg_signer lg = Some sg \<and> lg_verifier lg = Some (snd sg)"

lemma ledger_inv_lines: "ledger_inv H sg es lg \<Longrightarrow> file_lines (lg_file lg) = map to_json es"
  using file_lines_ledger_text chain_ok_wf
  unfolding ledger_inv_def by (auto simp: file_lines_def [of None])

lemma scan_tail_chain_ok:
  "chain_ok H v i prev es \<Longrightarrow> scan_tail (map to_json es) i prev = Inr (i + int (length es), last_root prev es)"
proof (induction es arbitrary: i prev)
  case (Cons e es)
  have e: "from_json (to_json e) = Inr e" "seq e = i"
    using Cons.prems by (simp_all add: from_json_to_json)
  have "chain_ok H v (i + 1) (chained_root e) es" using Cons.prems by simp
  note ih = Cons.IH [OF this]
  show ?case by (simp add: e ih)
qed simp

lemma ledger_inv_reopen:
  assumes "ledger_inv H sg es lg"
  shows "open_ledger (lg_file lg) (Some sg) None = Inr lg"
proof -
  have "scan_tail (file_lines (lg_file lg)) 0 genesis_root = Inr (lg_next_seq lg, lg_prev lg)"
    using assms scan_tail_chain_ok [of H "snd sg" 0 genesis_root es]
    by (simp add: ledger_inv_lines [OF assms] ledger_inv_def)
  then show ?thesis
    using assms by (simp add: open_ledger_def ledger_inv_def)
qed

lemma ledger_inv_fresh: "open_ledger None (Some sg) None = Inr lg \<Longrightarrow> ledger_inv H sg [] lg"
  by (auto simp: open_ledger_def file_lines_def ledger_inv_def)

lemma length_last_root: "chain_ok H v i prev es \<Longrightarrow> length prev = 32 \<Longrightarrow> length (last_root prev es) = 32"
proof (induction es arbitrary: i prev)
  case (Cons e es)
  then show ?case by (simp add: entry_wf_def) blast
qed simp

lemma length_merkle_root:
  assumes "digest32 H" and "leaves_ok leaves"
  shows "length (merkle_root H leaves) = 32"
proof -
  have "length (collapse H xs ! 0) = 32" if "xs \<noteq> []" "\<forall>x \<in> set xs. length x = 32" for xs
    using that
  proof (induction xs rule: length_induct)
    case (1 xs)
    show ?case
    proof (cases "1 < length xs")
      case True
      moreover have "hash_level H xs \<noteq> []" "length (hash_level H xs) < length xs"
        using True length_hash_level [of H xs] by (auto simp del: length_hash_level)
      ultimately show ?thesis
        using 1 length_hash_level_nodes [OF assms(1)] by (simp add: collapse_step)
    next
      case False
      then show ?thesis using 1 by (cases xs) auto
    qed
  qed
  then show ?thesis
    using assms by (auto simp: merkle_root_def leaves_ok_def digest32_def)
qed

lemma append_batch_state:
  assumes "append_batch H now leaves uids lg = Inr (e, lg')" and "lg_signer lg = Some sg"
  shows "lg' = lg\<lparr>lg_file := Some ((case lg_file lg of None \<Rightarrow> [] | Some t \<Rightarrow> t) @ to_json e @ [CHR 0x0A]),
                 lg_prev := chained_root e, lg_next_seq := lg_next_seq lg + 1\<rparr>"
    and "seq e = lg_next_seq lg" and "batch_root e = merkle_root H leaves"
    and "prev_chained_root e = lg_prev lg" and "chained_root e = chain_roots H (lg_prev lg) (merkle_root H leaves)"
    and "signature e = fst sg (chained_root e)" and "leaf_count e = int (length leaves)"
    and "first_event_uid e = uid_end hd uids" and "last_event_uid e = uid_end last uids"
  using assms by (cases sg; auto simp: append_batch_def Let_def)+

lemma append_batch_entry_wf:
  assumes "digest32 H" "signer_ok sg" "leaves_ok leaves" "ledger_inv H sg es lg"
    and "append_batch H now leaves uids lg = Inr (e, lg')"
  shows "chain_ok H (snd sg) (int (length es)) (last_root genesis_root es) [e]"
proof -
  have "length (last_root genesis_root es) = 32"
    using assms(4) length_last_root by (auto simp: ledger_inv_def genesis_root_def)
  moreover have "json_ok (uid_end f uids)" for f
    by (simp add: uid_end_def split: option.splits list.splits)
  moreover have "lg_signer lg = Some sg" using assms(4) by (simp add: ledger_inv_def)
  note st = append_batch_state [OF assms(5) this]
  ultimately show ?thesis
    using assms length_merkle_root [OF assms(1,3)]
    by (simp add: st ledger_inv_def entry_wf_def signer_ok_def chain_roots_def digest32_def)
qed

lemma ledger_inv_append:
  assumes "digest32 H" "signer_ok sg" "leaves_ok leaves" "ledger_inv H sg es lg"
    and "append_batch H now leaves uids lg = Inr (e, lg')"
  shows "ledger_inv H sg (es @ [e]) lg'"
proof -
  have "lg_signer lg = Some sg" using assms(4) by (simp add: ledger_inv_def)
  note st = append_batch_state(1) [OF assms(5) this]
  show ?thesis
    using append_batch_entry_wf [OF assms] assms(4)
    by (auto simp: st ledger_inv_def chain_ok_append ledger_text_def)
qed

lemma reachable_inv:
  assumes "digest32 H" "signer_ok sg" "reachable H sg lg"
  shows "\<exists>es. ledger_inv H sg es lg"
  using assms(3)
proof (induction rule: reachable.induct)
  case (fresh lg)
  then show ?case using ledger_inv_fresh by blast
next
  case (appended lg leaves now uids e lg')
  then show ?case using ledger_inv_append [OF assms(1,2)] by blast
next
  case (restarted lg lg')
  then show ?case using ledger_inv_reopen by fastforce
qed

section \<open>The ledger as an append-only store\<close>

definition ledger_sound :: "ledger \<Rightarrow> bool" where
  "ledger_sound lg \<longleftrightarrow> (\<exists>sg es. signer_ok sg \<and> ledger_inv sha256 sg es lg)"

definition read_entries :: "ledger \<Rightarrow> ledger_entry list" where
  "read_entries lg = (case ledger_entries lg of Inl _ \<Rightarrow> [] | Inr es \<Rightarrow> es)"

type_synonym seal_request = "int \<times> bytes list \<times> string list option"

definition seal_ok :: "seal_request \<Rightarrow> bool" where
  "seal_ok q = leaves_ok (fst (snd q))"

definition seal_result :: "seal_request \<Rightarrow> ledger \<Rightarrow> ledger_entry \<times> ledger" where
  "seal_result q lg = projr (append_batch sha256 (fst q) (fst (snd q)) (snd (snd q)) lg)"

lemma append_batch_total: "lg_signer lg = Some sg \<Longrightarrow> \<exists>e lg'. append_batch H now leaves uids lg = Inr (e, lg')"
  by (cases sg) (simp add: append_batch_def Let_def)

lemma map_res_from_json: "\<forall>e \<in> set es. entry_wf e \<Longrightarrow> map_res from_json (map to_json es) = Inr es"
  by (induction es) (auto simp: from_json_to_json)

lemma read_entries_inv: "ledger_inv H sg es lg \<Longrightarrow> read_entries lg = es"
  using map_res_from_json chain_ok_wf
  by (auto simp: read_entries_def ledger_entries_def ledger_inv_lines) (auto simp: ledger_inv_def)

interpretation lglog: append_log ledger_sound seal_ok read_entries
  "\<lambda>q lg. snd (seal_result q lg)" "\<lambda>q lg. fst (seal_result q lg)"
proof (unfold_locales, goal_cases)
  case (1 lg q)
  then obtain sg es where l: "signer_ok sg" "ledger_inv sha256 sg es lg" by (auto simp: ledger_sound_def)
  then obtain e lg' where a: "append_batch sha256 (fst q) (fst (snd q)) (snd (snd q)) lg = Inr (e, lg')"
    using append_batch_total by (fastforce simp: ledger_inv_def)
  show ?case
    using ledger_inv_append [OF sha.digest32_axioms l(1) _ l(2) a] 1(2) l(1)
    unfolding seal_result_def a seal_ok_def ledger_sound_def sum.sel snd_conv by blast
next
  case (2 lg q)
  then obtain sg es where l: "signer_ok sg" "ledger_inv sha256 sg es lg" by (auto simp: ledger_sound_def)
  then obtain e lg' where a: "append_batch sha256 (fst q) (fst (snd q)) (snd (snd q)) lg = Inr (e, lg')"
    using append_batch_total by (fastforce simp: ledger_inv_def)
  have "ledger_inv sha256 sg (es @ [e]) lg'"
    using ledger_inv_append [OF sha.digest32_axioms l(1) _ l(2) a] 2 by (simp add: seal_ok_def)
  then show ?case
    using read_entries_inv l(2) by (simp add: seal_result_def a)
qed

section \<open>Properties\<close>

definition null_signer :: signer where
  "null_signer = (\<lambda>m. replicate 64 0, \<lambda>m s. s = replicate 64 0)"

lemma null_signer_ok: "signer_ok null_signer"
  by (simp add: signer_ok_def null_signer_def)

definition fresh_ledger :: "signer \<Rightarrow> ledger" where
  "fresh_ledger sg = \<lparr>lg_file = None, lg_signer = Some sg, lg_verifier = Some (snd sg),
                      lg_next_seq = 0, lg_prev = genesis_root\<rparr>"

lemma open_fresh: "open_ledger None (Some sg) None = Inr (fresh_ledger sg)"
  by (simp add: open_ledger_def file_lines_def fresh_ledger_def)

definition demo_seal :: seal_request where
  "demo_seal = (17, [demo_leaf 1, demo_leaf 2, demo_leaf 3], Some [''a'', ''b'', ''c''])"

definition one_batch :: "seal_request \<Rightarrow> ledger" where
  "one_batch q = snd (seal_result q (fresh_ledger null_signer))"

definition demo_ledger :: ledger where
  "demo_ledger = one_batch demo_seal"

lemma demo_seal_ok: "seal_ok demo_seal"
  by (simp add: seal_ok_def demo_seal_def leaves_ok_def demo_leaf_def)

lemma fresh_ledger_inv: "ledger_inv H sg [] (fresh_ledger sg)"
  by (rule ledger_inv_fresh [OF open_fresh])

lemma one_batch_sealed:
  "append_batch sha256 (fst q) (fst (snd q)) (snd (snd q)) (fresh_ledger null_signer)
     = Inr (fst (seal_result q (fresh_ledger null_signer)), one_batch q)"
  by (simp add: append_batch_def one_batch_def seal_result_def fresh_ledger_def null_signer_def Let_def)

lemma one_batch_reachable: "seal_ok q \<Longrightarrow> reachable sha256 null_signer (one_batch q)"
  using one_batch_sealed reachable.appended [OF reachable.fresh [OF open_fresh]] unfolding seal_ok_def by blast

lemma demo_ledger_reachable: "reachable sha256 null_signer demo_ledger"
  unfolding demo_ledger_def by (rule one_batch_reachable [OF demo_seal_ok])

text \<open>
  C9. Whatever sequence of openings, batch appends and restarts produced a ledger, the file verifies, the
  in-memory length is the number of entries on disk, and opening the file again gives exactly the
  in-memory state (position and head). Batches are of 32-byte leaf hashes; the digest is any 32-byte
  one and the key pair is one whose signatures verify.
\<close>

theorem ledger_reachable_verifies:
  assumes "digest32 H" and "signer_ok sg" and "reachable H sg lg"
  shows "verify_chain H lg = Inr (True, None)
    \<and> ledger_len lg = entry_count_on_disk lg
    \<and> open_ledger (lg_file lg) (Some sg) None = Inr lg"
proof -
  obtain es where inv: "ledger_inv H sg es lg" using reachable_inv [OF assms] ..
  then have "verify_chain H lg = Inr (True, None)"
    by (intro verify_chain_ok [OF _ ledger_inv_lines [OF inv]]) (auto simp: ledger_inv_def)
  then show ?thesis
    using inv ledger_inv_reopen [OF inv]
    by (simp add: ledger_len_def entry_count_on_disk_def ledger_inv_lines [OF inv]) (simp add: ledger_inv_def)
qed

theorem ledger_reachable_verifies_witness:
  "verify_chain sha256 demo_ledger = Inr (True, None) \<and> ledger_len demo_ledger = entry_count_on_disk demo_ledger
   \<and> open_ledger (lg_file demo_ledger) (Some null_signer) None = Inr demo_ledger"
  by (rule ledger_reachable_verifies [OF sha.digest32_axioms null_signer_ok demo_ledger_reachable])

text \<open>
  The NDJSON line of a well-formed ledger entry (32-byte roots, a 64-byte signature, JSON-representable
  event ids) reads back as that entry.
\<close>

theorem ledger_line_roundtrip:
  assumes "entry_wf e"
  shows "from_json (to_json e) = Inr e"
  by (rule from_json_to_json [OF assms])

definition demo_entry :: ledger_entry where
  "demo_entry = \<lparr>seq = 4, batch_root = demo_leaf 1, prev_chained_root = demo_leaf 200, chained_root = demo_leaf 255,
     leaf_count = 3, first_event_uid = PStr ''a'', last_event_uid = PNone, sealed_at_ns = - 7,
     signature = demo_leaf 1 @ demo_leaf 2\<rparr>"

theorem ledger_line_roundtrip_witness: "from_json (to_json demo_entry) = Inr demo_entry"
  by (rule ledger_line_roundtrip) (simp add: entry_wf_def demo_entry_def demo_leaf_def)

text \<open>
  C29. Verification is exact: \<^verbatim>\<open>verify_chain\<close> answers \<^verbatim>\<open>(True, None)\<close> if and only if the file has no entries, or a
  public key is configured and line by line there is an entry whose sequence number is its position,
  whose previous root is the root of the line before, whose root recomputes and whose signature is valid.
\<close>

theorem verify_chain_exact:
  "verify_chain H lg = Inr (True, None) \<longleftrightarrow>
     file_lines (lg_file lg) = []
     \<or> (\<exists>v es. lg_verifier lg = Some v \<and> lines_ok H v 0 genesis_root (file_lines (lg_file lg)) es)"
  by (simp add: verify_chain_accepted accepted_def)

text \<open>
  The position \<^verbatim>\<open>verify_chain\<close> reports is the first bad one: it is a line of the file, the lines before
  it verify on their own, and the lines up to and including it do not.
\<close>

theorem verify_chain_first_bad:
  assumes "verify_chain H lg = Inr (False, Some k)"
  shows "0 \<le> k \<and> k < entry_count_on_disk lg
    \<and> accepted H (lg_verifier lg) (take (nat k) (file_lines (lg_file lg)))
    \<and> \<not> accepted H (lg_verifier lg) (take (nat k + 1) (file_lines (lg_file lg)))"
proof -
  let ?ls = "file_lines (lg_file lg)"
  obtain rs e r fs where rs: "iter_checked H (lg_verifier lg) 0 genesis_root ?ls = Inr rs"
    and f: "filter faulty rs = (k, e, r) # fs"
    using assms verdict_False unfolding verify_chain_def bind_res_Inr_iff by metis
  note fst_fault = iter_checked_first_fault [OF rs f]
  have "accepted H (lg_verifier lg) (take (nat k) ?ls)"
    using fst_fault iter_checked_sound [of H "lg_verifier lg" 0 genesis_root "take (nat k) ?ls"]
    by (auto simp: accepted_def)
  moreover have "\<not> accepted H (lg_verifier lg) (take (nat k + 1) ?ls)"
  proof
    assume "accepted H (lg_verifier lg) (take (nat k + 1) ?ls)"
    then obtain v es where "lg_verifier lg = Some v" "lines_ok H v 0 genesis_root (take (nat k + 1) ?ls) es"
      using fst_fault by (auto simp: accepted_def)
    then show False using iter_checked_complete [of H v 0 genesis_root _ es] fst_fault f by auto
  qed
  ultimately show ?thesis using fst_fault by (simp add: entry_count_on_disk_def)
qed

definition garbage_ledger :: ledger where
  "garbage_ledger = demo_ledger\<lparr>lg_file := Some (''nonsense'' @ [CHR 0x0A] @ ''{}'')\<rparr>"

lemma garbage_ledger_lines: "file_lines (lg_file garbage_ledger) = [''nonsense'', ''{}'']"
  by (simp add: garbage_ledger_def file_lines_def py_splitlines_def is_line_end_def py_strip_Nil_iff is_space_def skip_lf_def)

lemma garbage_line: "from_json ''nonsense'' = Inl (ValueError ''malformed ledger line'')"
  by code_simp

lemma garbage_ledger_verdict: "verify_chain sha256 garbage_ledger = Inr (False, Some 0)"
  by (simp add: verify_chain_def garbage_ledger_lines check_line_def garbage_line)

theorem verify_chain_first_bad_witness:
  "(0::int) \<le> 0 \<and> 0 < entry_count_on_disk garbage_ledger
    \<and> accepted sha256 (lg_verifier garbage_ledger) (take (nat 0) (file_lines (lg_file garbage_ledger)))
    \<and> \<not> accepted sha256 (lg_verifier garbage_ledger) (take (nat 0 + 1) (file_lines (lg_file garbage_ledger)))"
  by (rule verify_chain_first_bad [OF garbage_ledger_verdict])

text \<open>
  The ledger only grows: sealing any further sequence of batches into a sound ledger keeps every entry
  read before as a prefix of the entries read after, one entry per batch, and an entry, once sealed,
  stays at its position.
\<close>

theorem ledger_append_only:
  assumes "ledger_sound lg" and "seal_ok q" and "\<forall>p \<in> set ps. seal_ok p"
  shows "prefix (read_entries lg) (read_entries (fold (\<lambda>q lg. snd (seal_result q lg)) ps lg))
    \<and> length (read_entries (fold (\<lambda>q lg. snd (seal_result q lg)) ps lg)) = length (read_entries lg) + length ps
    \<and> read_entries (fold (\<lambda>q lg. snd (seal_result q lg)) ps (snd (seal_result q lg))) ! length (read_entries lg)
        = fst (seal_result q lg)"
  using lglog.contents_prefix [OF assms(1,3)] lglog.contents_length [OF assms(1,3)] lglog.item_stays [OF assms]
  by blast

lemma fresh_ledger_sound: "ledger_sound (fresh_ledger null_signer)"
  using fresh_ledger_inv null_signer_ok unfolding ledger_sound_def by blast

theorem ledger_append_only_witness:
  "prefix (read_entries (fresh_ledger null_signer))
      (read_entries (fold (\<lambda>q lg. snd (seal_result q lg)) [demo_seal] (fresh_ledger null_signer)))
    \<and> length (read_entries (fold (\<lambda>q lg. snd (seal_result q lg)) [demo_seal] (fresh_ledger null_signer)))
        = length (read_entries (fresh_ledger null_signer)) + length [demo_seal]
    \<and> read_entries (fold (\<lambda>q lg. snd (seal_result q lg)) [demo_seal]
        (snd (seal_result demo_seal (fresh_ledger null_signer)))) ! length (read_entries (fresh_ledger null_signer))
        = fst (seal_result demo_seal (fresh_ledger null_signer))"
  by (rule ledger_append_only [OF fresh_ledger_sound demo_seal_ok]) (simp add: demo_seal_ok)

section \<open>What the head commits to\<close>

lemma from_json_lengths:
  "from_json l = Inr e \<Longrightarrow> length (batch_root e) = 32 \<and> length (prev_chained_root e) = 32 \<and> length (chained_root e) = 32"
  by (auto simp: from_json_def split: sum.splits if_splits)

definition chain_msgs :: "ledger_entry list \<Rightarrow> bytes set" where
  "chain_msgs es = (\<lambda>e. prev_chained_root e @ batch_root e) ` set es"

lemma lines_ok_binding:
  assumes "lines_ok H v i prev ls es" "lines_ok H v' i prev' ls' es'" "length es = length es'"
    and "last_root prev es = last_root prev' es'" and "inj_on H (chain_msgs es \<union> chain_msgs es')"
  shows "prev = prev' \<and> map batch_root es = map batch_root es'"
  using assms
proof (induction ls arbitrary: i prev prev' ls' es es')
  case Nil
  then show ?case by simp
next
  case (Cons l ls)
  obtain e fs e' fs' where es: "es = e # fs" "es' = e' # fs'"
    using Cons.prems(1,3) by (cases es; cases es'; simp)
  obtain l' ks' where ls': "ls' = l' # ks'"
    using Cons.prems(2) es by (cases ls') auto
  have inj: "inj_on H (chain_msgs fs \<union> chain_msgs fs')"
    by (rule inj_on_subset [OF Cons.prems(5)]) (simp add: es chain_msgs_def, blast)
  have e: "from_json l = Inr e" "prev_chained_root e = prev" "chain_roots H prev (batch_root e) = chained_root e"
    "lines_ok H v (i + 1) (chained_root e) ls fs"
    using Cons.prems(1) unfolding es by simp_all
  have e': "from_json l' = Inr e'" "prev_chained_root e' = prev'"
    "chain_roots H prev' (batch_root e') = chained_root e'" "lines_ok H v' (i + 1) (chained_root e') ks' fs'"
    using Cons.prems(2) unfolding es ls' by simp_all
  have ln: "length fs = length fs'" "last_root (chained_root e) fs = last_root (chained_root e') fs'"
    using Cons.prems(3,4) unfolding es by simp_all
  have ih: "chained_root e = chained_root e'" "map batch_root fs = map batch_root fs'"
    using Cons.IH [OF e(4) e'(4) ln inj] by simp_all
  have "H (prev @ batch_root e) = H (prev' @ batch_root e')"
    using e(3) e'(3) ih(1) unfolding chain_roots_def by simp
  then have "prev @ batch_root e = prev' @ batch_root e'"
    by (rule inj_onD [OF Cons.prems(5)]) (auto simp: es chain_msgs_def e(2) e'(2))
  moreover have "length prev = length prev'"
    using from_json_lengths [OF e(1)] from_json_lengths [OF e'(1)] unfolding e(2) e'(2) by simp
  ultimately show ?case
    using ih(2) by (simp add: es)
qed

lemma verified_lines:
  assumes "verify_chain H lg = Inr (True, None)" and "ledger_entries lg = Inr es" and "es \<noteq> []"
  shows "\<exists>v. lines_ok H v 0 genesis_root (file_lines (lg_file lg)) es"
  using assms lines_ok_entries
  by (fastforce simp: verify_chain_accepted accepted_def ledger_entries_def)

text \<open>
  C30. The head of a verified ledger commits to its whole history: two ledgers that both verify, with the
  same number of entries and the same last chained root, have the same batch root at every position,
  unless the digest collides on two of the messages that were chained.
\<close>

theorem ledger_head_binds_history:
  assumes "verify_chain H lg = Inr (True, None)" and "verify_chain H lg' = Inr (True, None)"
    and "ledger_entries lg = Inr es" and "ledger_entries lg' = Inr es'" and "length es = length es'"
    and "last_root genesis_root es = last_root genesis_root es'"
    and "inj_on H (chain_msgs es \<union> chain_msgs es')"
  shows "map batch_root es = map batch_root es'"
proof (cases "es = []")
  case True
  then show ?thesis using assms(5) by simp
next
  case False
  then show ?thesis
    using verified_lines [OF assms(1,3)] verified_lines [OF assms(2,4)] lines_ok_binding assms(5-7) by fastforce
qed

lemma one_batch_inv:
  assumes "seal_ok q"
  shows "ledger_inv sha256 null_signer [fst (seal_result q (fresh_ledger null_signer))] (one_batch q)"
  using ledger_inv_append [OF sha.digest32_axioms null_signer_ok _ fresh_ledger_inv one_batch_sealed] assms
  by (simp add: seal_ok_def)

lemma one_batch_verdict: "seal_ok q \<Longrightarrow> verify_chain sha256 (one_batch q) = Inr (True, None)"
  using one_batch_inv [of q] verify_chain_ok [OF _ ledger_inv_lines [OF one_batch_inv]]
  by (auto simp: ledger_inv_def)

lemma one_batch_entries:
  assumes "seal_ok q"
  shows "ledger_entries (one_batch q) = Inr [fst (seal_result q (fresh_ledger null_signer))]"
proof -
  have "\<forall>e \<in> set [fst (seal_result q (fresh_ledger null_signer))]. entry_wf e"
    using one_batch_inv [OF assms] chain_ok_wf by (auto simp: ledger_inv_def)
  then show ?thesis
    unfolding ledger_entries_def ledger_inv_lines [OF one_batch_inv [OF assms]] by (rule map_res_from_json)
qed

definition later_seal :: seal_request where
  "later_seal = (99, [demo_leaf 1, demo_leaf 2, demo_leaf 3], None)"

lemma later_seal_ok: "seal_ok later_seal"
  by (simp add: seal_ok_def later_seal_def leaves_ok_def demo_leaf_def)

lemma later_seal_roots:
  "chained_root (fst (seal_result later_seal (fresh_ledger null_signer)))
     = chained_root (fst (seal_result demo_seal (fresh_ledger null_signer)))"
  "chain_msgs [fst (seal_result later_seal (fresh_ledger null_signer))]
     = chain_msgs [fst (seal_result demo_seal (fresh_ledger null_signer))]"
  by (simp_all add: seal_result_def append_batch_def fresh_ledger_def null_signer_def Let_def
      later_seal_def demo_seal_def chain_msgs_def)

theorem ledger_head_binds_history_witness:
  "map batch_root [fst (seal_result demo_seal (fresh_ledger null_signer))]
     = map batch_root [fst (seal_result later_seal (fresh_ledger null_signer))]"
  by (rule ledger_head_binds_history [OF one_batch_verdict [OF demo_seal_ok] one_batch_verdict [OF later_seal_ok]
        one_batch_entries [OF demo_seal_ok] one_batch_entries [OF later_seal_ok]])
    (simp_all add: later_seal_roots, simp add: chain_msgs_def)

section \<open>What verification does not see\<close>

lemma lines_ok_take: "lines_ok H v i prev ls es \<Longrightarrow> lines_ok H v i prev (take n ls) (take n es)"
proof (induction ls arbitrary: i prev es n)
  case (Cons l ls)
  then show ?case by (cases es; cases n) auto
qed simp

text \<open>
  Cutting lines off the end is not detected: if a ledger verifies, so does every file that holds just
  the first lines of it. (The number of entries has to be compared with another record of it.)
\<close>

theorem verify_chain_truncated:
  assumes "verify_chain H lg = Inr (True, None)" and "file_lines f = take n (file_lines (lg_file lg))"
  shows "verify_chain H (lg\<lparr>lg_file := f\<rparr>) = Inr (True, None)"
  using assms lines_ok_take unfolding verify_chain_accepted accepted_def by fastforce

theorem verify_chain_truncated_witness:
  "verify_chain sha256 (demo_ledger\<lparr>lg_file := None\<rparr>) = Inr (True, None)"
  unfolding demo_ledger_def
  by (rule verify_chain_truncated [OF one_batch_verdict [OF demo_seal_ok], of _ 0]) (simp add: file_lines_def)

definition infinity_line :: string where
  "infinity_line = [CHR 0x7B, CHR 0x22] @ ''seq'' @ [CHR 0x22] @ '':Infinity}''"

lemma from_json_infinity: "from_json infinity_line = Inl (OverflowError ''cannot convert float infinity to integer'')"
  by code_simp

text \<open>
  A ledger line whose sequence number is the JSON constant \<^verbatim>\<open>Infinity\<close> is not reported as a malformed
  line: \<^verbatim>\<open>int()\<close> raises \<^verbatim>\<open>OverflowError\<close>, which neither \<^verbatim>\<open>from_json\<close> nor its callers catch, so reading that
  line fails with it wherever it is the first line, in opening the ledger and in verifying it.
\<close>

theorem ledger_infinite_seq_raises:
  assumes "file_lines f = infinity_line # ls"
  shows "open_ledger f sg ver = Inl (OverflowError ''cannot convert float infinity to integer'')
    \<and> verify_chain H (lg\<lparr>lg_file := f\<rparr>) = Inl (OverflowError ''cannot convert float infinity to integer'')"
  using assms by (simp add: open_ledger_def verify_chain_def check_line_def from_json_infinity is_value_error_def)

theorem ledger_infinite_seq_raises_witness:
  "open_ledger (Some infinity_line) (Some null_signer) None = Inl (OverflowError ''cannot convert float infinity to integer'')
    \<and> verify_chain sha256 (demo_ledger\<lparr>lg_file := Some infinity_line\<rparr>)
        = Inl (OverflowError ''cannot convert float infinity to integer'')"
  by (rule ledger_infinite_seq_raises [of _ "[]"])
    (simp add: infinity_line_def file_lines_def py_splitlines_def is_line_end_def py_strip_Nil_iff is_space_def)

end
