(* ===== verification/Base64.thy ===== *)
theory Base64
  imports Py_Text
begin

text \<open>
  \<^verbatim>\<open>base64.b64encode\<close> and the lenient \<^verbatim>\<open>base64.b64decode\<close> (characters outside the alphabet are
  skipped, a completed padding ends the input), as the bronze store and the event wire format use them.
\<close>

section \<open>Definitions\<close>

definition b64_char :: "nat \<Rightarrow> char" where
  "b64_char n =
     (if n < 26 then ch (65 + n) else if n < 52 then ch (71 + n) else if n < 62 then ch (n - 4)
      else if n = 62 then CHR ''+'' else CHR ''/'')"

definition b64_val :: "char \<Rightarrow> nat option" where
  "b64_val c =
     (let k = code c in
      if 65 \<le> k \<and> k \<le> 90 then Some (k - 65)
      else if 97 \<le> k \<and> k \<le> 122 then Some (k - 71)
      else if 48 \<le> k \<and> k \<le> 57 then Some (k + 4)
      else if k = 43 then Some 62 else if k = 47 then Some 63 else None)"

fun b64encode :: "bytes \<Rightarrow> string" where
  "b64encode [] = []"
| "b64encode [a] =
     [b64_char (unat a div 4), b64_char (unat a mod 4 * 16), CHR ''='', CHR ''='']"
| "b64encode [a, b] =
     [b64_char (unat a div 4), b64_char (unat a mod 4 * 16 + unat b div 16),
      b64_char (unat b mod 16 * 4), CHR ''='']"
| "b64encode (a # b # c # r) =
     b64_char (unat a div 4) # b64_char (unat a mod 4 * 16 + unat b div 16)
       # b64_char (unat b mod 16 * 4 + unat c div 64) # b64_char (unat c mod 64) # b64encode r"

text \<open>The decoder's state: position in the quad, bits left over, padding characters seen.\<close>

fun a2b_base64 :: "nat \<Rightarrow> nat \<Rightarrow> nat \<Rightarrow> string \<Rightarrow> bytes option" where
  "a2b_base64 q left pads [] = (if q = 0 then Some [] else None)"
| "a2b_base64 q left pads (c # s) =
     (if c = CHR ''='' then
        (if 2 \<le> q then (if 4 \<le> q + (pads + 1) then Some [] else a2b_base64 q left (pads + 1) s)
         else a2b_base64 q left pads s)
      else case b64_val c of
        None \<Rightarrow> a2b_base64 q left pads s
      | Some v \<Rightarrow>
          if q = 0 then a2b_base64 1 v 0 s
          else if q = 1 then map_option ((#) (of_nat (left * 4 + v div 16))) (a2b_base64 2 (v mod 16) 0 s)
          else if q = 2 then map_option ((#) (of_nat (left * 16 + v div 4))) (a2b_base64 3 (v mod 4) 0 s)
          else map_option ((#) (of_nat (left * 64 + v))) (a2b_base64 0 0 0 s))"

definition b64decode :: "string \<Rightarrow> bytes option" where
  "b64decode s = (if \<exists>c \<in> set s. 128 \<le> code c then None else a2b_base64 0 0 0 s)"

section \<open>Round trip\<close>

lemma b64_val_char: "n < 64 \<Longrightarrow> b64_val (b64_char n) = Some n"
  by (auto simp: b64_val_def b64_char_def Let_def)

lemma b64_char_not_pad: "n < 64 \<Longrightarrow> b64_char n \<noteq> CHR ''=''"
  using b64_val_char by (fastforce simp: b64_val_def)

lemma code_b64_char: "code (b64_char n) < 128"
  by (auto simp: b64_char_def)

declare unat_byte_less [simp]

lemma byte_div_bounds:
  fixes b :: byte
  shows "unat b div 4 < 64" "unat b div 16 < 16" "unat b div 64 < 4"
  using unat_byte_less [of b] by linarith+

lemma sextet_bounds:
  fixes a b :: byte
  shows "unat a mod 4 * 16 < 64" "unat a mod 4 * 16 + unat b div 16 < 64" "unat a mod 16 * 4 < 64"
    "unat a mod 16 * 4 + unat b div 64 < 64" "unat a mod 64 < 64"
  using byte_div_bounds [of b] by (auto intro: mod_less_divisor)

lemma byte_join:
  fixes b :: byte
  shows "of_nat (unat b div 4 * 4 + unat b mod 4) = b"
    "of_nat (unat b div 16 * 16 + unat b mod 16) = b"
    "of_nat (unat b div 64 * 64 + unat b mod 64) = b"
  by simp_all

lemma a2b_char:
  assumes "n < 64"
  shows "a2b_base64 0 left pads (b64_char n # s) = a2b_base64 1 n 0 s"
    "a2b_base64 1 left pads (b64_char n # s) = map_option ((#) (of_nat (left * 4 + n div 16))) (a2b_base64 2 (n mod 16) 0 s)"
    "a2b_base64 2 left pads (b64_char n # s) = map_option ((#) (of_nat (left * 16 + n div 4))) (a2b_base64 3 (n mod 4) 0 s)"
    "a2b_base64 3 left pads (b64_char n # s) = map_option ((#) (of_nat (left * 64 + n))) (a2b_base64 0 0 0 s)"
  using b64_val_char [OF assms] b64_char_not_pad [OF assms] by simp_all

lemma sextet_split:
  fixes a b :: byte
  shows "(unat a mod 4 * 16 + unat b div 16) div 16 = unat a mod 4"
    "(unat a mod 4 * 16 + unat b div 16) mod 16 = unat b div 16"
    "(unat a mod 16 * 4 + unat b div 64) div 4 = unat a mod 16"
    "(unat a mod 16 * 4 + unat b div 64) mod 4 = unat b div 64"
  using byte_div_bounds [of b] by simp_all

lemma a2b_encode: "a2b_base64 0 0 0 (b64encode b) = Some b"
proof (induction b rule: b64encode.induct)
  case (4 a b c r)
  then show ?case
    using sextet_bounds byte_div_bounds
    by (simp add: a2b_char sextet_split byte_join del: a2b_base64.simps One_nat_def)
next
  case (3 a b)
  then show ?case
    using sextet_bounds byte_div_bounds
    by (simp add: a2b_char sextet_split byte_join del: a2b_base64.simps One_nat_def) simp
next
  case (2 a)
  then show ?case
    using sextet_bounds byte_div_bounds
    by (simp add: a2b_char byte_join del: a2b_base64.simps One_nat_def) simp
qed simp

lemma b64encode_ascii: "c \<in> set (b64encode b) \<Longrightarrow> code c < 128"
  by (induction b rule: b64encode.induct) (auto simp: code_b64_char)

lemma b64decode_encode [simp]: "b64decode (b64encode b) = Some b"
  using b64encode_ascii by (fastforce simp: b64decode_def a2b_encode)

end
