(* ===== verification/Py_Time.thy ===== *)
theory Py_Time
  imports Py_Text
begin

text \<open>
  Timestamps: the proleptic Gregorian calendar of Python's \<^verbatim>\<open>datetime\<close>, the UTC date a partition is
  named after (\<^verbatim>\<open>_date_of\<close> of the bronze store and of the dead-letter queue), and the conversions of
  \<^verbatim>\<open>ulpf/core/timeutil.py\<close>. The ISO and free-form parsers and the time zone database of \<^verbatim>\<open>dateutil\<close>
  are arguments.
\<close>

section \<open>Calendar\<close>

definition is_leap :: "int \<Rightarrow> bool" where
  "is_leap y \<longleftrightarrow> y mod 4 = 0 \<and> (y mod 100 \<noteq> 0 \<or> y mod 400 = 0)"

definition days_before_year :: "int \<Rightarrow> int" where
  "days_before_year y = (let k = y - 1 in k * 365 + k div 4 - k div 100 + k div 400)"

definition days_in_month :: "int \<Rightarrow> int \<Rightarrow> int" where
  "days_in_month y m =
     (if m = 2 then (if is_leap y then 29 else 28) else if m \<in> {4, 6, 9, 11} then 30 else 31)"

definition days_before_month :: "int \<Rightarrow> int \<Rightarrow> int" where
  "days_before_month y m =
     [0, 31, 59, 90, 120, 151, 181, 212, 243, 273, 304, 334] ! nat (m - 1) + (if 2 < m \<and> is_leap y then 1 else 0)"

definition ymd2ord :: "int \<Rightarrow> int \<Rightarrow> int \<Rightarrow> int" where
  "ymd2ord y m d = days_before_year y + days_before_month y m + d"

fun find_month :: "int \<Rightarrow> int \<Rightarrow> int list \<Rightarrow> int \<times> int" where
  "find_month y n [] = (12, n + 1)"
| "find_month y n (m # ms) =
     (if n < days_in_month y m then (m, n + 1) else find_month y (n - days_in_month y m) ms)"

text \<open>The date of a proleptic ordinal (1 is 1 January of year 1).\<close>

definition ord2ymd :: "int \<Rightarrow> int \<times> int \<times> int" where
  "ord2ymd ordinal =
     (let n = ordinal - 1; n400 = n div 146097; n = n mod 146097;
          n100 = n div 36524; n = n mod 36524;
          n4 = n div 1461; n = n mod 1461;
          n1 = n div 365; n = n mod 365;
          year = n400 * 400 + 1 + n100 * 100 + n4 * 4 + n1
      in if n1 = 4 \<or> n100 = 4 then (year - 1, 12, 31)
         else (let (m, d) = find_month year n [1, 2, 3, 4, 5, 6, 7, 8, 9, 10, 11, 12] in (year, m, d)))"

abbreviation epoch_ordinal :: int where
  "epoch_ordinal \<equiv> 719163"

abbreviation max_ordinal :: int where
  "max_ordinal \<equiv> 3652059"

definition pad_left :: "nat \<Rightarrow> string \<Rightarrow> string" where
  "pad_left n s = replicate (n - length s) (CHR ''0'') @ s"

definition iso_date :: "int \<times> int \<times> int \<Rightarrow> string" where
  "iso_date = (\<lambda>(y, m, d). pad_left 4 (str_of_int y) @ ''-'' @ pad_left 2 (str_of_int m) @ ''-'' @ pad_left 2 (str_of_int d))"

text \<open>
  \<^verbatim>\<open>datetime.fromtimestamp(seconds, UTC).strftime("%Y-%m-%d")\<close>. Seconds that do not fit the C clock
  type overflow, a year beyond the C calendar is an operating system error, a year outside 1..9999 is a
  value error. The year is taken to be written with four digits (a platform may leave out leading zeros).
\<close>

definition date_of :: "int \<Rightarrow> string res" where
  "date_of ts_ns =
     (let seconds = ts_ns div 1000000000; ordinal = seconds div 86400 + epoch_ordinal;
          year = fst (ord2ymd ordinal)
      in if \<not> (- (2 ^ 63) \<le> seconds \<and> seconds < 2 ^ 63)
         then Inl (OverflowError ''timestamp out of range for platform time_t'')
         else if \<not> (- (2 ^ 31) \<le> year - 1900 \<and> year - 1900 < 2 ^ 31)
         then Inl (OSError ''Value too large for defined data type'')
         else if \<not> (1 \<le> year \<and> year \<le> 9999) then Inl (ValueError ''year is out of range'')
         else Inr (iso_date (ord2ymd ordinal)))"

section \<open>Calendar lemmas\<close>

lemma find_month_range:
  "0 \<le> n \<Longrightarrow> n < (if is_leap y then 366 else 365) \<Longrightarrow>
   find_month y n [1, 2, 3, 4, 5, 6, 7, 8, 9, 10, 11, 12] = (m, d) \<Longrightarrow>
   1 \<le> m \<and> m \<le> 12 \<and> 1 \<le> d \<and> d \<le> days_in_month y m \<and> days_before_month y m + d = n + 1"
  by (auto simp: days_in_month_def days_before_month_def split: if_splits)

lemma days_before_year_cycle:
  fixes a b c e :: int
  assumes "0 \<le> b" "b \<le> 3" "0 \<le> c" "c \<le> 24" "0 \<le> e" "e \<le> 3"
  shows "days_before_year (a * 400 + 1 + b * 100 + c * 4 + e) = a * 146097 + b * 36524 + c * 1461 + e * 365"
proof -
  let ?k = "a * 400 + b * 100 + c * 4 + e"
  have "?k div 4 = a * 100 + b * 25 + c" "?k div 100 = a * 4 + b" "?k div 400 = a"
    using assms by linarith+
  then show ?thesis
    by (simp add: days_before_year_def Let_def add.commute add.left_commute)
qed

lemma mod_by_parts: "x = r + k * m \<Longrightarrow> 0 \<le> r \<Longrightarrow> r < m \<Longrightarrow> x mod m = (r :: int)"
  by simp

lemma is_leap_cycle:
  fixes a b c e :: int
  assumes "0 \<le> b" "b \<le> 3" "0 \<le> c" "c \<le> 24" "0 \<le> e" "e \<le> 3"
  shows "is_leap (a * 400 + 1 + b * 100 + c * 4 + e) \<longleftrightarrow> e = 3 \<and> (c \<noteq> 24 \<or> b = 3)"
proof (cases "e = 3")
  case False
  then have "(a * 400 + 1 + b * 100 + c * 4 + e) mod 4 = 1 + e"
    using assms by (intro mod_by_parts [where k = "a * 100 + b * 25 + c"]) auto
  then show ?thesis using assms False by (simp add: is_leap_def)
next
  case True
  let ?y = "a * 400 + b * 100 + c * 4 + 4"
  have 4: "?y mod 4 = 0" by (rule mod_by_parts [where k = "a * 100 + b * 25 + c + 1"]) auto
  have y: "a * 400 + 1 + b * 100 + c * 4 + e = ?y" using True by simp
  show ?thesis
  proof (cases "c = 24")
    case False
    then have "?y mod 100 = c * 4 + 4"
      using assms by (intro mod_by_parts [where k = "a * 4 + b"]) auto
    then show ?thesis unfolding y using assms True False 4 by (simp add: is_leap_def)
  next
    case c: True
    have 100: "?y mod 100 = 0" by (rule mod_by_parts [where k = "a * 4 + b + 1"]) (auto simp: c)
    show ?thesis
    proof (cases "b = 3")
      case b: True
      have "?y mod 400 = 0" by (rule mod_by_parts [where k = "a + 1"]) (auto simp: c b)
      then show ?thesis unfolding y using assms True c b 4 100 by (simp add: is_leap_def)
    next
      case False
      then have "?y mod 400 = (b + 1) * 100"
        using assms by (intro mod_by_parts [where k = a]) (auto simp: c)
      then show ?thesis unfolding y using assms True c False 4 100 by (simp add: is_leap_def)
    qed
  qed
qed

lemma ord_parts:
  fixes n :: int
  obtains a b c e r where "a = (n - 1) div 146097" "b = (n - 1) mod 146097 div 36524"
    "c = (n - 1) mod 146097 mod 36524 div 1461" "e = (n - 1) mod 146097 mod 36524 mod 1461 div 365"
    "r = (n - 1) mod 146097 mod 36524 mod 1461 mod 365"
    "n = a * 146097 + b * 36524 + c * 1461 + e * 365 + r + 1"
    "0 \<le> b" "b \<le> 4" "0 \<le> c" "c \<le> 24" "0 \<le> e" "e \<le> 4" "0 \<le> r" "r < 365"
    "c * 1461 + e * 365 + r < 36524" "b * 36524 + c * 1461 + e * 365 + r < 146097" "e * 365 + r < 1461"
proof -
  define a where a: "a = (n - 1) div 146097"
  define r1 where r1: "r1 = (n - 1) mod 146097"
  define b where b: "b = r1 div 36524"
  define r2 where r2: "r2 = r1 mod 36524"
  define c where c: "c = r2 div 1461"
  define r3 where r3: "r3 = r2 mod 1461"
  define e where e: "e = r3 div 365"
  define r where r: "r = r3 mod 365"
  have 1: "n - 1 = a * 146097 + r1" unfolding a r1 by simp
  have 2: "r1 = b * 36524 + r2" unfolding b r2 by simp
  have 3: "r2 = c * 1461 + r3" unfolding c r3 by simp
  have 4: "r3 = e * 365 + r" unfolding e r by simp
  have b4: "0 \<le> r" "r < 365" unfolding r by simp_all
  have b3: "0 \<le> r3" "r3 < 1461" unfolding r3 by simp_all
  have b2: "0 \<le> r2" "r2 < 36524" unfolding r2 by simp_all
  have b1: "0 \<le> r1" "r1 < 146097" unfolding r1 by simp_all
  have be: "0 \<le> e" "e \<le> 4" using b3 unfolding e by linarith+
  have bc: "0 \<le> c" "c \<le> 24" using b2 unfolding c by linarith+
  have bb: "0 \<le> b" "b \<le> 4" using b1 unfolding b by linarith+
  have n: "n = a * 146097 + b * 36524 + c * 1461 + e * 365 + r + 1"
    and l: "c * 1461 + e * 365 + r < 36524" "b * 36524 + c * 1461 + e * 365 + r < 146097" "e * 365 + r < 1461"
    using 1 2 3 4 b1(2) b2(2) b3(2) by simp_all
  show thesis
    by (rule that [OF a b [unfolded r1] c [unfolded r2 r1] e [unfolded r3 r2 r1] r [unfolded r3 r2 r1]
          n bb bc be b4 l])
qed

lemma ord2ymd_inverse:
  assumes "ord2ymd n = (y, m, d)"
  shows "1 \<le> m \<and> m \<le> 12 \<and> 1 \<le> d \<and> d \<le> days_in_month y m \<and> ymd2ord y m d = n"
proof -
  obtain a b c e r where parts: "a = (n - 1) div 146097" "b = (n - 1) mod 146097 div 36524"
    "c = (n - 1) mod 146097 mod 36524 div 1461" "e = (n - 1) mod 146097 mod 36524 mod 1461 div 365"
    "r = (n - 1) mod 146097 mod 36524 mod 1461 mod 365"
    and n: "n = a * 146097 + b * 36524 + c * 1461 + e * 365 + r + 1"
    and bnd: "0 \<le> b" "b \<le> 4" "0 \<le> c" "c \<le> 24" "0 \<le> e" "e \<le> 4" "0 \<le> r" "r < 365"
    "c * 1461 + e * 365 + r < 36524" "b * 36524 + c * 1461 + e * 365 + r < 146097" "e * 365 + r < 1461"
    by (rule ord_parts)
  let ?y = "a * 400 + 1 + b * 100 + c * 4 + e"
  have o: "ord2ymd n = (if e = 4 \<or> b = 4 then (?y - 1, 12, 31)
     else (let (m, d) = find_month ?y r [1, 2, 3, 4, 5, 6, 7, 8, 9, 10, 11, 12] in (?y, m, d)))"
    unfolding ord2ymd_def Let_def parts ..
  have last_day: ?thesis
    if "?y - 1 = a * 400 + 1 + b' * 100 + c' * 4 + 3" "e = 4 \<or> b = 4"
      "a * 146097 + b' * 36524 + c' * 1461 + 3 * 365 + 366 = n"
      "0 \<le> b'" "b' \<le> 3" "0 \<le> c'" "c' \<le> 24" "c' \<noteq> 24 \<or> b' = 3" for b' c'
  proof -
    have y: "y = a * 400 + 1 + b' * 100 + c' * 4 + 3" "m = 12" "d = 31"
      using assms that(1,2) by (auto simp: o)
    have "days_before_year y = a * 146097 + b' * 36524 + c' * 1461 + 3 * 365" "is_leap y"
      unfolding y using days_before_year_cycle [of b' c' 3 a] is_leap_cycle [of b' c' 3 a] that by simp_all
    then show ?thesis
      using y(2,3) that(3) by (simp add: ymd2ord_def days_before_month_def days_in_month_def)
  qed
  consider "b = 4" | "b \<noteq> 4" "e = 4" | "b \<noteq> 4" "e \<noteq> 4" by blast
  then show ?thesis
  proof cases
    case 1
    then have "c = 0" "e = 0" "r = 0" using bnd by linarith+
    then show ?thesis using 1 n by (intro last_day [of 3 24]) simp_all
  next
    case 2
    then have "r = 0" "c \<noteq> 24" using bnd by linarith+
    then show ?thesis using 2 n bnd by (intro last_day [of b c]) simp_all
  next
    case 3
    then have l: "0 \<le> b" "b \<le> 3" "0 \<le> c" "c \<le> 24" "0 \<le> e" "e \<le> 3" using bnd by auto
    have "find_month ?y r [1, 2, 3, 4, 5, 6, 7, 8, 9, 10, 11, 12] = (m, d)" "y = ?y"
      using assms 3 unfolding o by (auto simp del: find_month.simps split: prod.splits)
    moreover have "r < (if is_leap ?y then 366 else 365)" using bnd by simp
    ultimately show ?thesis
      using find_month_range [OF bnd(7), of ?y m d] days_before_year_cycle [OF l, of a] n
      by (simp add: ymd2ord_def)
  qed
qed

section \<open>Timestamps to epoch nanoseconds\<close>

text \<open>A \<^verbatim>\<open>datetime\<close>; \<open>dt_offset\<close> is its UTC offset in seconds, \<open>None\<close> when it is naive.\<close>

record datetime =
  dt_year :: int
  dt_month :: int
  dt_day :: int
  dt_hour :: int
  dt_minute :: int
  dt_second :: int
  dt_micros :: int
  dt_offset :: "int option"

text \<open>A \<^verbatim>\<open>tzinfo\<close>: the UTC offset of a wall-clock time.\<close>

type_synonym zone = "datetime \<Rightarrow> int"

definition utc :: zone where
  "utc d = 0"

definition valid_datetime :: "datetime \<Rightarrow> bool" where
  "valid_datetime d \<longleftrightarrow> 1 \<le> dt_year d \<and> dt_year d \<le> 9999 \<and> 1 \<le> dt_month d \<and> dt_month d \<le> 12
     \<and> 1 \<le> dt_day d \<and> dt_day d \<le> days_in_month (dt_year d) (dt_month d)
     \<and> 0 \<le> dt_hour d \<and> dt_hour d \<le> 23 \<and> 0 \<le> dt_minute d \<and> dt_minute d \<le> 59
     \<and> 0 \<le> dt_second d \<and> dt_second d \<le> 59 \<and> 0 \<le> dt_micros d \<and> dt_micros d < 1000000"

text \<open>Seconds since the epoch of the wall clock, and in UTC once an offset is attached.\<close>

definition wall_seconds :: "datetime \<Rightarrow> int" where
  "wall_seconds d = (ymd2ord (dt_year d) (dt_month d) (dt_day d) - epoch_ordinal) * 86400
     + dt_hour d * 3600 + dt_minute d * 60 + dt_second d"

definition utc_seconds :: "datetime \<Rightarrow> int" where
  "utc_seconds d = wall_seconds d - (case dt_offset d of None \<Rightarrow> 0 | Some off \<Rightarrow> off)"

definition replace_tz :: "zone \<Rightarrow> datetime \<Rightarrow> datetime" where
  "replace_tz z d = d\<lparr>dt_offset := Some (z d)\<rparr>"

definition min_seconds :: int where "min_seconds = (1 - epoch_ordinal) * 86400"
definition max_seconds :: int where "max_seconds = (max_ordinal + 1 - epoch_ordinal) * 86400"

definition to_utc_ns :: "datetime \<Rightarrow> int res" where
  "to_utc_ns d =
     (let d' = (if dt_offset d = None then replace_tz utc d else d); secs = utc_seconds d'
      in if \<not> (min_seconds \<le> secs \<and> secs < max_seconds) then Inl (OverflowError ''date value out of range'')
         else Inr (secs * 1000000000 + dt_micros d' * 1000))"

definition finalize :: "zone \<Rightarrow> datetime \<Rightarrow> int res" where
  "finalize z d = to_utc_ns (if dt_offset d = None then replace_tz z d else d)"

subsection \<open>Epoch numbers\<close>

text \<open>Division rounded to nearest, ties to even, as \<^verbatim>\<open>ROUND_HALF_EVEN\<close> does (the divisor is positive).\<close>

definition round_half_even :: "int \<Rightarrow> int \<Rightarrow> int" where
  "round_half_even n d =
     (let q = n div d; r = n mod d
      in if 2 * r < d \<or> 2 * r = d \<and> even q then q else q + 1)"

text \<open>
  A decimal number: coefficient and number of fraction digits. A product keeps at most 28 significant
  digits, the default precision of the decimal context.
\<close>

type_synonym decimal = "int \<times> int"

definition dec_digits_count :: "int \<Rightarrow> nat" where
  "dec_digits_count n = length (str_of_int \<bar>n\<bar>)"

definition dec_round :: "decimal \<Rightarrow> decimal" where
  "dec_round = (\<lambda>(c, k). let l = dec_digits_count c in
     if l \<le> 28 then (c, k) else (round_half_even c (10 ^ (l - 28)), k - int (l - 28)))"

definition to_integral :: "decimal \<Rightarrow> int" where
  "to_integral = (\<lambda>(c, k). if k \<le> 0 then c * 10 ^ nat (- k) else round_half_even c (10 ^ nat k))"

definition exponent_of :: "string \<Rightarrow> int" where
  "exponent_of s = (if starts_with ''-'' s then - int (nat_of_dec (tl s))
                    else int (nat_of_dec (if starts_with ''+'' s then tl s else s)))"

definition decimal_of :: "string \<Rightarrow> decimal" where
  "decimal_of text =
     (let neg = starts_with ''-'' text; (mant, _, ex) = py_partition ''e'' (if neg then tl text else text);
          (ip, _, fp) = py_partition ''.'' mant; c = int (nat_of_dec (ip @ fp))
      in (if neg then - c else c, int (length fp) - exponent_of ex))"

definition is_numeric :: "string \<Rightarrow> bool" where
  "is_numeric text =
     (let (ip, sep, fp) = py_partition ''.'' (if starts_with ''-'' text then tl text else text)
      in ip \<noteq> [] \<and> list_all is_dec ip \<and> (\<not> sep \<or> fp \<noteq> [] \<and> list_all is_dec fp))"

definition epoch_to_ns :: "string \<Rightarrow> int" where
  "epoch_to_ns text =
     (let (c, k) = decimal_of text;
          scale = (if 100000000000 * 10 ^ nat k \<le> \<bar>c\<bar> * 10 ^ nat (- k) then 1000000 else 1000000000)
      in to_integral (dec_round (c * scale, k)))"

subsection \<open>Yearless syslog times\<close>

definition month_names :: "string list" where
  "month_names = [''jan'', ''feb'', ''mar'', ''apr'', ''may'', ''jun'', ''jul'', ''aug'', ''sep'', ''oct'', ''nov'', ''dec'']"

fun index_of :: "'a \<Rightarrow> 'a list \<Rightarrow> nat option" where
  "index_of x [] = None"
| "index_of x (y # ys) = (if x = y then Some 0 else map_option Suc (index_of x ys))"

text \<open>The groups of \<^verbatim>\<open>^[A-Za-z]{3} \d{1,2} \d{2}:\d{2}:\d{2}$\<close>.\<close>

definition two_digits :: "string \<Rightarrow> bool" where
  "two_digits s \<longleftrightarrow> length s = 2 \<and> list_all is_dec s"

definition rfc3164_groups :: "string \<Rightarrow> (string \<times> string \<times> string \<times> string \<times> string) option" where
  "rfc3164_groups text =
     (case split_on '' '' text of
        [mon, day, hms] \<Rightarrow>
          (case split_on '':'' hms of
             [h, mi, se] \<Rightarrow>
               if length mon = 3 \<and> list_all is_alpha mon \<and> (two_digits day \<or> length day = 1 \<and> list_all is_dec day)
                  \<and> two_digits h \<and> two_digits mi \<and> two_digits se
               then Some (mon, day, h, mi, se) else None
           | _ \<Rightarrow> None)
      | _ \<Rightarrow> None)"

definition rfc3164_with_year :: "string \<Rightarrow> int \<Rightarrow> zone \<Rightarrow> datetime option" where
  "rfc3164_with_year text year z =
     (case rfc3164_groups text of
        None \<Rightarrow> None
      | Some (mon, day, h, mi, se) \<Rightarrow>
          (case index_of (py_lower mon) month_names of
             None \<Rightarrow> None
           | Some i \<Rightarrow>
               (let d = \<lparr>dt_year = year, dt_month = int i + 1, dt_day = int (nat_of_dec day), dt_hour = int (nat_of_dec h),
                         dt_minute = int (nat_of_dec mi), dt_second = int (nat_of_dec se), dt_micros = 0, dt_offset = None\<rparr>
                in if 1000 \<le> year \<and> valid_datetime d then Some (replace_tz z d) else None)))"

text \<open>\<open>now\<close> is the UTC time in seconds and \<open>now_year\<close> its year.\<close>

definition try_rfc3164 :: "int \<Rightarrow> int \<Rightarrow> string \<Rightarrow> int option \<Rightarrow> zone \<Rightarrow> datetime option" where
  "try_rfc3164 now now_year text reference_year z =
     (if rfc3164_groups text = None then None
      else let year = (case reference_year of Some y \<Rightarrow> y | None \<Rightarrow> now_year)
           in case rfc3164_with_year text year z of
                None \<Rightarrow> rfc3164_with_year text (year - 1) z
              | Some candidate \<Rightarrow>
                  if now < utc_seconds candidate then
                    (case rfc3164_with_year text (year - 1) z of Some prior \<Rightarrow> Some prior | None \<Rightarrow> Some candidate)
                  else Some candidate)"

subsection \<open>The entry point\<close>

fun collapse_spaces :: "bool \<Rightarrow> string \<Rightarrow> string" where
  "collapse_spaces inside [] = []"
| "collapse_spaces inside (c # s) =
     (if is_space c then (if inside then collapse_spaces True s else CHR '' '' # collapse_spaces True s)
      else c # collapse_spaces False s)"

text \<open>
  The parts of \<^verbatim>\<open>parse_timestamp\<close> outside the sources: \<^verbatim>\<open>strptime\<close> with a configured pattern, the zone
  database and the two \<^verbatim>\<open>dateutil\<close> parsers.
\<close>

record time_env =
  te_strptime :: "string \<Rightarrow> string \<Rightarrow> datetime res"
  te_gettz :: "string \<Rightarrow> zone option"
  te_isoparse :: "string \<Rightarrow> datetime res"
  te_dateutil :: "string \<Rightarrow> datetime res"
  te_now :: int
  te_now_year :: int

definition resolve_tz :: "time_env \<Rightarrow> string option \<Rightarrow> zone res" where
  "resolve_tz env tz =
     (case tz of None \<Rightarrow> Inr utc
      | Some name \<Rightarrow> (case te_gettz env name of
                        Some z \<Rightarrow> Inr z | None \<Rightarrow> Inl (ParseError ''unknown timezone'' [(''tz'', PStr name)])))"

definition is_value_or_overflow :: "exn \<Rightarrow> bool" where
  "is_value_or_overflow x = (case x of ValueError _ \<Rightarrow> True | OverflowError _ \<Rightarrow> True | _ \<Rightarrow> False)"

definition parse_datetime_string :: "time_env \<Rightarrow> string \<Rightarrow> datetime res" where
  "parse_datetime_string env text =
     (case te_isoparse env text of
        Inr d \<Rightarrow> Inr d
      | Inl x \<Rightarrow>
          if \<not> is_value_error x then Inl x
          else case te_dateutil env text of
            Inr d \<Rightarrow> Inr d
          | Inl y \<Rightarrow> if is_value_or_overflow y then Inl (ParseError ''unrecognized timestamp'' [(''value'', PStr text)])
                     else Inl y)"

text \<open>\<open>numeric\<close> says that the value was passed as an \<^verbatim>\<open>int\<close> or a finite \<^verbatim>\<open>float\<close>; \<open>value\<close> is its \<^verbatim>\<open>str()\<close>.\<close>

definition parse_timestamp ::
  "time_env \<Rightarrow> bool \<Rightarrow> string \<Rightarrow> string option \<Rightarrow> string option \<Rightarrow> int option \<Rightarrow> int res" where
  "parse_timestamp env numeric value fmt tz reference_year =
     bind_res (resolve_tz env tz) (\<lambda>z.
       case fmt of
         Some f \<Rightarrow> bind_res (te_strptime env value f) (finalize z)
       | None \<Rightarrow>
           (let text = py_strip value in
            if numeric \<or> is_numeric text then Inr (epoch_to_ns text)
            else let normalized = collapse_spaces False text in
              case try_rfc3164 (te_now env) (te_now_year env) normalized reference_year z of
                Some d \<Rightarrow> to_utc_ns d
              | None \<Rightarrow> bind_res (parse_datetime_string env normalized) (finalize z)))"

section \<open>Properties\<close>

lemma div_step:
  fixes y n :: int
  assumes "0 < n"
  shows "y div n = (y - 1) div n + (if y mod n = 0 then 1 else 0)"
proof -
  define q r where "q = (y - 1) div n" and "r = (y - 1) mod n"
  have y: "y = (r + 1) + q * n" and r: "0 \<le> r" "r < n"
    using assms by (simp_all add: q_def r_def)
  show ?thesis
  proof (cases "r + 1 = n")
    case True
    then have "y = (q + 1) * n" using y by (simp add: algebra_simps)
    then have "y div n = q + 1" "y mod n = 0" using assms by simp_all
    then show ?thesis unfolding q_def by simp
  next
    case False
    then have "y mod n = r + 1" using r y by (intro mod_by_parts [where k = q]) auto
    moreover have "y div n = q" using r False assms unfolding y by simp
    ultimately show ?thesis using r unfolding q_def by simp
  qed
qed

lemma leap_day_count:
  fixes y a b c :: int
  assumes "q \<Longrightarrow> p" "r \<Longrightarrow> q"
  shows "y * 365 + (a + (if p then 1 else 0)) - (b + (if q then 1 else 0)) + (c + (if r then 1 else 0))
       = (y - 1) * 365 + a - b + c + (if p \<and> (\<not> q \<or> r) then 366 else 365)"
  using assms by auto

lemma days_before_year_Suc: "days_before_year (y + 1) = days_before_year y + (if is_leap y then 366 else 365)"
proof -
  have d4: "y mod 4 = 0" if "y mod 100 = 0"
    using that unfolding mod_eq_0_iff_dvd by (rule dvd_trans [rotated]) simp
  have d100: "y mod 100 = 0" if "y mod 400 = 0"
    using that unfolding mod_eq_0_iff_dvd by (rule dvd_trans [rotated]) simp
  have "days_before_year (y + 1) = y * 365 + y div 4 - y div 100 + y div 400"
    unfolding days_before_year_def Let_def by (simp only: add_diff_cancel)
  also have "\<dots> = (y - 1) * 365 + (y - 1) div 4 - (y - 1) div 100 + (y - 1) div 400
      + (if y mod 4 = 0 \<and> (\<not> y mod 100 = 0 \<or> y mod 400 = 0) then 366 else 365)"
    unfolding div_step [of 4 y, simplified] div_step [of 100 y, simplified] div_step [of 400 y, simplified]
    by (rule leap_day_count [OF d4 d100])
  finally show ?thesis
    unfolding days_before_year_def Let_def is_leap_def .
qed

lemma days_before_year_mono: "y < z \<Longrightarrow> days_before_year y + (if is_leap y then 366 else 365) \<le> days_before_year z"
proof -
  assume "y < z"
  have "days_before_year (y + 1) \<le> days_before_year (y + 1 + int k)" for k
  proof (induction k)
    case (Suc k)
    then show ?case
      using days_before_year_Suc [of "y + 1 + int k"] by (simp add: algebra_simps split: if_splits)
  qed simp
  from this [of "nat (z - y - 1)"] \<open>y < z\<close> show ?thesis
    using days_before_year_Suc [of y] by simp
qed

lemma month_cases: "1 \<le> m \<Longrightarrow> m \<le> 12 \<Longrightarrow> m \<in> {1, 2, 3, 4, 5, 6, 7, 8, 9, 10, 11, 12 :: int}"
  by (simp only: insert_iff empty_iff) presburger

lemma day_of_year_bounds:
  assumes "1 \<le> m" "m \<le> 12" "1 \<le> d" "d \<le> days_in_month y m"
  shows "1 \<le> days_before_month y m + d" "days_before_month y m + d \<le> (if is_leap y then 366 else 365)"
  using month_cases [OF assms(1,2)] assms(3,4)
  by (auto simp: days_before_month_def days_in_month_def split: if_splits)

lemma days_before_month_Suc:
  "1 \<le> m \<Longrightarrow> m < 12 \<Longrightarrow> days_before_month y (m + 1) = days_before_month y m + days_in_month y m"
  using month_cases [of m] by (auto simp: days_before_month_def days_in_month_def)

lemma days_in_month_pos: "0 < days_in_month y m"
  by (simp add: days_in_month_def)

lemma days_before_month_mono:
  assumes "1 \<le> a" "a < b" "b \<le> 12"
  shows "days_before_month y a + days_in_month y a \<le> days_before_month y b"
proof -
  have "a + 1 + int k \<le> 12 \<Longrightarrow> days_before_month y (a + 1) \<le> days_before_month y (a + 1 + int k)" for k
  proof (induction k)
    case (Suc k)
    then show ?case
      using days_before_month_Suc [of "a + 1 + int k" y] days_in_month_pos [of y "a + 1 + int k"] assms(1)
      by (simp add: algebra_simps)
  qed simp
  from this [of "nat (b - a - 1)"] show ?thesis
    using assms days_before_month_Suc [of a y] by simp
qed

lemma day_of_year_inj:
  assumes "1 \<le> m" "m \<le> 12" "1 \<le> d" "d \<le> days_in_month y m"
    and "1 \<le> m'" "m' \<le> 12" "1 \<le> d'" "d' \<le> days_in_month y m'"
    and "days_before_month y m + d = days_before_month y m' + d'"
  shows "m = m' \<and> d = d'"
  using days_before_month_mono [of m m' y] days_before_month_mono [of m' m y] assms
  by (cases m m' rule: linorder_cases) auto

lemma ymd2ord_inj:
  assumes "1 \<le> m" "m \<le> 12" "1 \<le> d" "d \<le> days_in_month y m"
    and "1 \<le> m'" "m' \<le> 12" "1 \<le> d'" "d' \<le> days_in_month y' m'"
    and "ymd2ord y m d = ymd2ord y' m' d'"
  shows "y = y' \<and> m = m' \<and> d = d'"
proof -
  note b = day_of_year_bounds [OF assms(1-4)] day_of_year_bounds [OF assms(5-8)]
  have "y = y'"
    using days_before_year_mono [of y y'] days_before_year_mono [of y' y] b assms(9)
    unfolding ymd2ord_def by (cases y y' rule: linorder_cases) auto
  then show ?thesis
    using day_of_year_inj [of m d y m' d'] assms by (simp add: ymd2ord_def)
qed

lemma ord2ymd_ymd2ord:
  assumes "1 \<le> m" "m \<le> 12" "1 \<le> d" "d \<le> days_in_month y m"
  shows "ord2ymd (ymd2ord y m d) = (y, m, d)"
proof -
  obtain y' m' d' where o: "ord2ymd (ymd2ord y m d) = (y', m', d')" by (cases "ord2ymd (ymd2ord y m d)")
  then show ?thesis
    using ord2ymd_inverse [OF o] ymd2ord_inj [of m' d' y' m d y] assms by simp
qed

lemma year_range_ordinal:
  assumes "1 \<le> y" "y \<le> 9999" "1 \<le> m" "m \<le> 12" "1 \<le> d" "d \<le> days_in_month y m"
  shows "1 \<le> ymd2ord y m d" "ymd2ord y m d \<le> max_ordinal"
proof -
  have "days_before_year y + (if is_leap y then 366 else 365) \<le> days_before_year 10000"
    using days_before_year_mono [of y 10000] assms(2) by simp
  moreover have "days_before_year 1 \<le> days_before_year y"
    using days_before_year_mono [of 1 y] assms(1) by (cases "y = 1") (auto split: if_splits)
  moreover have "days_before_year 1 = 0" "days_before_year 10000 = max_ordinal"
    by (simp_all add: days_before_year_def)
  ultimately show "1 \<le> ymd2ord y m d" "ymd2ord y m d \<le> max_ordinal"
    using day_of_year_bounds [OF assms(3-6)] unfolding ymd2ord_def by linarith+
qed

lemma date_of_day:
  assumes "1 \<le> y" "y \<le> 9999" "1 \<le> m" "m \<le> 12" "1 \<le> d" "d \<le> days_in_month y m"
    and "ns div 1000000000 div 86400 + epoch_ordinal = ymd2ord y m d"
  shows "date_of ns = Inr (iso_date (y, m, d))"
proof -
  have o: "ord2ymd (ns div 1000000000 div 86400 + epoch_ordinal) = (y, m, d)"
    unfolding assms(7) by (rule ord2ymd_ymd2ord [OF assms(3-6)])
  have "0 < ns div 1000000000 div 86400 + epoch_ordinal" "ns div 1000000000 div 86400 + epoch_ordinal \<le> max_ordinal"
    using year_range_ordinal [OF assms(1-6)] assms(7) by simp_all
  then have "- (2 ^ 63) \<le> ns div 1000000000" "ns div 1000000000 < 2 ^ 63"
    by simp_all
  then show ?thesis
    using assms(1,2) by (simp add: date_of_def Let_def o)
qed

text \<open>
  A partition name is the UTC calendar date of the timestamp: whenever \<^verbatim>\<open>_date_of\<close> returns, the name is
  the ISO form of a valid date of the Gregorian calendar whose day number is the number of whole days in
  the timestamp.
\<close>

theorem date_of_is_calendar_date:
  assumes "date_of ns = Inr name"
  shows "\<exists>y m d. name = iso_date (y, m, d) \<and> 1 \<le> y \<and> y \<le> 9999 \<and> 1 \<le> m \<and> m \<le> 12
    \<and> 1 \<le> d \<and> d \<le> days_in_month y m \<and> ymd2ord y m d = ns div 86400000000000 + epoch_ordinal"
proof -
  obtain y m d where o: "ord2ymd (ns div 1000000000 div 86400 + epoch_ordinal) = (y, m, d)"
    by (cases "ord2ymd (ns div 1000000000 div 86400 + epoch_ordinal)")
  have "ns div 1000000000 div 86400 = ns div 86400000000000"
    by (simp add: zdiv_zmult2_eq [symmetric])
  note o' = o [unfolded this]
  show ?thesis
    using assms ord2ymd_inverse [OF o'] by (auto simp: date_of_def Let_def o split: if_splits)
qed

theorem date_of_is_calendar_date_witness:
  "\<exists>y m d. ''2024-02-29'' = iso_date (y, m, d) \<and> 1 \<le> y \<and> y \<le> 9999 \<and> 1 \<le> m \<and> m \<le> 12
    \<and> 1 \<le> d \<and> d \<le> days_in_month y m \<and> ymd2ord y m d = 1709251199999999999 div 86400000000000 + epoch_ordinal"
  by (rule date_of_is_calendar_date) code_simp

text \<open>
  Converting a valid UTC time to nanoseconds never fails, and the partition of the result is the
  calendar date it was made from.
\<close>

theorem to_utc_ns_date_roundtrip:
  assumes "valid_datetime d" and "dt_offset d = None \<or> dt_offset d = Some 0"
  shows "\<exists>ns. to_utc_ns d = Inr ns \<and> date_of ns = Inr (iso_date (dt_year d, dt_month d, dt_day d))"
proof -
  let ?o = "ymd2ord (dt_year d) (dt_month d) (dt_day d)"
  have o: "1 \<le> ?o" "?o \<le> max_ordinal"
    using assms(1) by (auto intro!: year_range_ordinal simp: valid_datetime_def)
  define s where "s = dt_hour d * 3600 + dt_minute d * 60 + dt_second d"
  have s: "0 \<le> s" "s < 86400" using assms(1) by (auto simp: valid_datetime_def s_def)
  have w: "wall_seconds d = s + (?o - epoch_ordinal) * 86400"
    by (simp add: wall_seconds_def s_def)
  have us: "utc_seconds (if dt_offset d = None then replace_tz utc d else d) = wall_seconds d"
    using assms(2) by (auto simp: utc_seconds_def replace_tz_def utc_def wall_seconds_def)
  have r: "min_seconds \<le> wall_seconds d" "wall_seconds d < max_seconds"
    using o s unfolding w min_seconds_def max_seconds_def by (simp_all add: algebra_simps)
  let ?ns = "wall_seconds d * 1000000000 + dt_micros d * 1000"
  have ns: "to_utc_ns d = Inr ?ns"
    using r us by (simp add: to_utc_ns_def Let_def replace_tz_def)
  have mu: "0 \<le> dt_micros d" "dt_micros d < 1000000" using assms(1) by (simp_all add: valid_datetime_def)
  then have "?ns div 1000000000 = wall_seconds d" by simp
  moreover have "wall_seconds d div 86400 = ?o - epoch_ordinal"
    using s unfolding w by simp
  ultimately have "date_of ?ns = Inr (iso_date (dt_year d, dt_month d, dt_day d))"
    using assms(1) by (intro date_of_day) (simp_all add: valid_datetime_def)
  with ns show ?thesis by blast
qed

definition leap_second_eve :: datetime where
  "leap_second_eve = \<lparr>dt_year = 2016, dt_month = 12, dt_day = 31, dt_hour = 23, dt_minute = 59, dt_second = 59,
     dt_micros = 999999, dt_offset = None\<rparr>"

theorem to_utc_ns_date_roundtrip_witness:
  "\<exists>ns. to_utc_ns leap_second_eve = Inr ns
     \<and> date_of ns = Inr (iso_date (dt_year leap_second_eve, dt_month leap_second_eve, dt_day leap_second_eve))"
  by (rule to_utc_ns_date_roundtrip) (simp_all add: leap_second_eve_def valid_datetime_def days_in_month_def)

text \<open>
  The year-boundary rule for syslog times without a year: a resolved time lies after \<^verbatim>\<open>now\<close> only when the
  year before has no such day (29 February), and the year is the assumed one or the one before.
\<close>

theorem rfc3164_not_in_future:
  assumes "try_rfc3164 now now_year text reference_year z = Some d"
  shows "(let year = (case reference_year of Some y \<Rightarrow> y | None \<Rightarrow> now_year) in
      dt_year d \<in> {year, year - 1} \<and> valid_datetime d
      \<and> (utc_seconds d \<le> now \<or> dt_year d = year - 1 \<or> rfc3164_with_year text (year - 1) z = None))"
proof -
  have y: "dt_year e = k" "valid_datetime e" if "rfc3164_with_year text k z = Some e" for k e
    using that by (auto simp: rfc3164_with_year_def Let_def replace_tz_def valid_datetime_def
        split: option.splits if_splits)
  show ?thesis
    using assms y by (auto simp: try_rfc3164_def Let_def split: option.splits if_splits)
qed

theorem rfc3164_not_in_future_witness:
  "let d = the (try_rfc3164 1767225600 2026 ''Dec 31 23:59:59'' None utc);
       year = (case (None :: int option) of Some y \<Rightarrow> y | None \<Rightarrow> 2026) in
      dt_year d \<in> {year, year - 1} \<and> valid_datetime d
      \<and> (utc_seconds d \<le> 1767225600 \<or> dt_year d = year - 1 \<or> rfc3164_with_year ''Dec 31 23:59:59'' (year - 1) utc = None)"
proof -
  have "try_rfc3164 1767225600 2026 ''Dec 31 23:59:59'' None utc
      = Some (the (try_rfc3164 1767225600 2026 ''Dec 31 23:59:59'' None utc))" by code_simp
  from rfc3164_not_in_future [OF this] show ?thesis by (simp add: Let_def)
qed

end
