(* ===== verification/Raw_Store.thy ===== *)
theory Raw_Store
  imports Events Base64 Py_Time Py_Value Append_Log "HOL-Library.Multiset" "HOL-Library.List_Lexorder" "HOL-Library.Char_ord"
begin

text \<open>
  The bronze evidence store (\<^verbatim>\<open>ulpf/sinks/raw_store.py\<close>): an append-only NDJSON file per UTC date behind a
  write buffer. A partition file is the text its gzip members decompress to, one character per byte;
  opening a missing file for appending creates it. Monotonic clock readings are arguments, in nanoseconds.
\<close>

section \<open>Definitions\<close>

type_synonym instant = int

record raw_store =
  rs_files :: "(string \<times> string) list"
  rs_buffer :: "(string \<times> string list) list"
  rs_buffered_count :: int
  rs_last_flush :: instant
  rs_max_records :: int
  rs_max_wait :: instant

definition new_raw_store :: "int \<Rightarrow> instant \<Rightarrow> instant \<Rightarrow> (string \<times> string) list \<Rightarrow> raw_store" where
  "new_raw_store max_records max_wait now files =
     \<lparr>rs_files = files, rs_buffer = [], rs_buffered_count = 0, rs_last_flush = now,
      rs_max_records = max_records, rs_max_wait = max_wait\<rparr>"

definition transport_name :: "transport \<Rightarrow> string" where
  "transport_name t = (case t of Udp \<Rightarrow> ''udp'' | Tcp \<Rightarrow> ''tcp'' | Tls \<Rightarrow> ''tls'' | Http \<Rightarrow> ''http'' | File \<Rightarrow> ''file'')"

definition transport_of :: "pyval \<Rightarrow> transport res" where
  "transport_of v =
     (if v = PStr ''udp'' then Inr Udp else if v = PStr ''tcp'' then Inr Tcp else if v = PStr ''tls'' then Inr Tls
      else if v = PStr ''http'' then Inr Http else if v = PStr ''file'' then Inr File
      else Inl (ValueError ''ValidationError''))"

definition peer_value :: "string option \<Rightarrow> pyval" where
  "peer_value p = (case p of None \<Rightarrow> PNone | Some s \<Rightarrow> PStr s)"

definition peer_of :: "pyval \<Rightarrow> string option res" where
  "peer_of v = (case v of PNone \<Rightarrow> Inr None | PStr s \<Rightarrow> Inr (Some s) | _ \<Rightarrow> Inl (ValueError ''ValidationError''))"

text \<open>\<^verbatim>\<open>sort_keys=True\<close>: the members in the order of their names.\<close>

definition event_record :: "raw_event \<Rightarrow> pydict" where
  "event_record e =
     [(''event_uid'', PStr (event_uid e)), (''ingest_time_ns'', PInt (ingest_time_ns e)),
      (''peer'', peer_value (peer e)), (''raw_b64'', PStr (b64encode (raw e))),
      (''raw_hash'', PStr (raw_hash e)), (''raw_len'', PInt (raw_len e)),
      (''source_id'', PStr (source_id e)), (''transport'', PStr (transport_name (transport e)))]"

definition rs_encode :: "raw_event \<Rightarrow> string" where
  "rs_encode e = json_dumps (PDict (event_record e)) @ [CHR 0x0A]"

definition b64_bytes :: "string \<Rightarrow> bytes res" where
  "b64_bytes s = (case b64decode s of Some b \<Rightarrow> Inr b | None \<Rightarrow> Inl (ValueError ''binascii.Error''))"

definition record_to_event :: "pyval \<Rightarrow> raw_event res" where
  "record_to_event r =
     bind_res (py_item r ''event_uid'') (\<lambda>uid.
     bind_res (bind_res (py_item r ''raw_b64'') (\<lambda>v. b64_bytes (py_str v))) (\<lambda>b.
     bind_res (py_item r ''raw_hash'') (\<lambda>h.
     bind_res (bind_res (py_item r ''raw_len'') py_int) (\<lambda>n.
     bind_res (bind_res (py_item r ''ingest_time_ns'') py_int) (\<lambda>t.
     bind_res (py_item r ''source_id'') (\<lambda>src.
     bind_res (py_item r ''transport'') (\<lambda>tr.
     bind_res (py_item r ''peer'') (\<lambda>p.
     bind_res (transport_of tr) (\<lambda>tr'.
     bind_res (peer_of p) (\<lambda>p'.
       Inr \<lparr>event_uid = py_str uid, raw = b, raw_hash = py_str h, raw_len = n, ingest_time_ns = t,
            source_id = py_str src, transport = tr', peer = p'\<rparr>))))))))))"

subsection \<open>Writing\<close>

definition append_lines :: "string \<times> string list \<Rightarrow> (string \<times> string) list \<Rightarrow> (string \<times> string) list" where
  "append_lines p files =
     (if snd p = [] then files
      else dict_set (fst p) ((case map_of files (fst p) of None \<Rightarrow> [] | Some t \<Rightarrow> t) @ concat (snd p)) files)"

definition rs_flush :: "instant \<Rightarrow> raw_store \<Rightarrow> raw_store" where
  "rs_flush now s =
     s\<lparr>rs_files := fold append_lines (rs_buffer s) (rs_files s), rs_buffer := [], rs_buffered_count := 0,
       rs_last_flush := now\<rparr>"

definition should_autoflush :: "instant \<Rightarrow> raw_store \<Rightarrow> bool" where
  "should_autoflush now s \<longleftrightarrow> rs_max_records s \<le> rs_buffered_count s \<or> rs_max_wait s \<le> now - rs_last_flush s"

definition rs_write :: "instant \<Rightarrow> instant \<Rightarrow> raw_event \<Rightarrow> raw_store \<Rightarrow> raw_store res" where
  "rs_write now now' e s =
     bind_res (date_of (ingest_time_ns e)) (\<lambda>d.
       let lines = (case map_of (rs_buffer s) d of None \<Rightarrow> [] | Some ls \<Rightarrow> ls) @ [rs_encode e];
           s' = s\<lparr>rs_buffer := dict_set d lines (rs_buffer s), rs_buffered_count := rs_buffered_count s + 1\<rparr>
       in Inr (if should_autoflush now s' then rs_flush now' s' else s'))"

subsection \<open>Reading\<close>

definition is_ascii_space :: "char \<Rightarrow> bool" where
  "is_ascii_space c \<longleftrightarrow> code c \<in> {9, 10, 11, 12, 13, 32}"

definition rs_file_lines :: "string \<Rightarrow> string list" where
  "rs_file_lines text = filter (\<lambda>l. l \<noteq> []) (map (\<lambda>l. rstrip_by is_ascii_space (lstrip_by is_ascii_space l)) (split_on [CHR 0x0A] text))"

definition rs_partitions :: "string option \<Rightarrow> raw_store \<Rightarrow> string list" where
  "rs_partitions date s = filter (\<lambda>d. case date of None \<Rightarrow> True | Some d' \<Rightarrow> d = d') (sort (map fst (rs_files s)))"

definition rs_text :: "raw_store \<Rightarrow> string \<Rightarrow> string" where
  "rs_text s d = (case map_of (rs_files s) d of None \<Rightarrow> [] | Some t \<Rightarrow> t)"

definition scan_records :: "string option \<Rightarrow> raw_store \<Rightarrow> string list" where
  "scan_records date s = concat (map (\<lambda>d. rs_file_lines (rs_text s d)) (rs_partitions date s))"

definition load_record :: "string \<Rightarrow> pyval res" where
  "load_record l = (case json_loads l of Some v \<Rightarrow> Inr v | None \<Rightarrow> Inl (ValueError ''JSONDecodeError''))"

fun find_record :: "string \<Rightarrow> string list \<Rightarrow> pyval option res" where
  "find_record uid [] = Inr None"
| "find_record uid (l # ls) =
     bind_res (load_record l) (\<lambda>r. bind_res (py_item r ''event_uid'') (\<lambda>u.
       if u = PStr uid then Inr (Some r) else find_record uid ls))"

definition rs_read_by_uid :: "instant \<Rightarrow> string \<Rightarrow> raw_store \<Rightarrow> raw_event option res \<times> raw_store" where
  "rs_read_by_uid now uid s =
     (let s' = rs_flush now s
      in (bind_res (find_record uid (scan_records None s')) (\<lambda>r.
            case r of None \<Rightarrow> Inr None | Some r' \<Rightarrow> bind_res (record_to_event r') (\<lambda>e. Inr (Some e))), s'))"

definition rs_iter_all :: "instant \<Rightarrow> string option \<Rightarrow> raw_store \<Rightarrow> raw_event list res \<times> raw_store" where
  "rs_iter_all now date s =
     (let s' = rs_flush now s
      in (map_res (\<lambda>l. bind_res (load_record l) record_to_event) (scan_records date s'), s'))"

definition locator :: "string \<Rightarrow> nat \<Rightarrow> string" where
  "locator d n = ''date='' @ d @ ''/events.ndjson.gz#L'' @ str_of_int (int n)"

definition rs_iter_located :: "instant \<Rightarrow> string option \<Rightarrow> raw_store \<Rightarrow> (raw_event \<times> string) list res \<times> raw_store" where
  "rs_iter_located now date s =
     (let s' = rs_flush now s
      in (map_res (\<lambda>(d, n, l). bind_res (bind_res (load_record l) record_to_event) (\<lambda>e. Inr (e, locator d n)))
            (concat (map (\<lambda>d. map (\<lambda>(n, l). (d, n, l)) (enumerate 0 (rs_file_lines (rs_text s' d)))) (rs_partitions date s'))), s'))"

definition rs_verify :: "(bytes \<Rightarrow> bytes) \<Rightarrow> instant \<Rightarrow> string \<Rightarrow> raw_store \<Rightarrow> bool res \<times> raw_store" where
  "rs_verify H now uid s =
     (let s' = rs_flush now s
      in (bind_res (find_record uid (scan_records None s')) (\<lambda>r.
            case r of None \<Rightarrow> Inr False
            | Some r' \<Rightarrow>
                bind_res (py_item r' ''raw_b64'') (\<lambda>v.
                bind_res (case v of PStr b \<Rightarrow> b64_bytes b | _ \<Rightarrow> Inl (TypeError ''argument should be a bytes-like object or ASCII string''))
                  (\<lambda>b. bind_res (py_item r' ''raw_hash'') (\<lambda>h. Inr (PStr (sha256_hex H b) = h))))), s'))"

section \<open>One record\<close>

lemma json_ok_record: "json_ok (PDict (event_record e))"
  by (simp add: event_record_def dict_ok_def peer_value_def split: option.split)

lemma transport_roundtrip [simp]: "transport_of (PStr (transport_name t)) = Inr t"
  by (cases t) (simp_all add: transport_of_def transport_name_def)

lemma peer_roundtrip [simp]: "peer_of (peer_value p) = Inr p"
  by (simp add: peer_of_def peer_value_def split: option.split)

lemma b64_bytes_encode [simp]: "b64_bytes (b64encode b) = Inr b"
  by (simp add: b64_bytes_def)

lemma event_record_lookup:
  "py_item (PDict (event_record e)) ''event_uid'' = Inr (PStr (event_uid e))"
  "py_item (PDict (event_record e)) ''raw_b64'' = Inr (PStr (b64encode (raw e)))"
  "py_item (PDict (event_record e)) ''raw_hash'' = Inr (PStr (raw_hash e))"
  "py_item (PDict (event_record e)) ''raw_len'' = Inr (PInt (raw_len e))"
  "py_item (PDict (event_record e)) ''ingest_time_ns'' = Inr (PInt (ingest_time_ns e))"
  "py_item (PDict (event_record e)) ''source_id'' = Inr (PStr (source_id e))"
  "py_item (PDict (event_record e)) ''transport'' = Inr (PStr (transport_name (transport e)))"
  "py_item (PDict (event_record e)) ''peer'' = Inr (peer_value (peer e))"
  by (simp_all add: py_item_def event_record_def)

lemma record_to_event_record: "record_to_event (PDict (event_record e)) = Inr e"
  by (simp add: record_to_event_def event_record_lookup py_int_def)

definition record_line :: "raw_event \<Rightarrow> string" where
  "record_line e = json_dumps (PDict (event_record e))"

lemma load_record_line: "load_record (record_line e) = Inr (PDict (event_record e))"
  unfolding load_record_def record_line_def json_loads_dumps [OF json_ok_record] by simp

lemma record_line_printable: "c \<in> set (record_line e) \<Longrightarrow> printable c"
  unfolding record_line_def using json_dumps_printable(1) [OF json_ok_record] by blast

lemma record_line_braces: "\<exists>m. record_line e = CHR ''{'' # m @ [CHR ''}'']"
  by (simp add: record_line_def)

lemma strip_record_line: "rstrip_by is_ascii_space (lstrip_by is_ascii_space (record_line e)) = record_line e"
  using record_line_braces [of e] by (auto simp: rstrip_by_def lstrip_by_def is_ascii_space_def)

lemma record_line_no_newline: "CHR 0x0A \<notin> set (record_line e)"
  using record_line_printable by (fastforce simp: printable_def)

lemma rs_encode_line: "rs_encode e = record_line e @ [CHR 0x0A]"
  by (simp add: rs_encode_def record_line_def)

lemma rs_file_lines_encoded: "rs_file_lines (concat (map rs_encode es)) = map record_line es"
proof (induction es)
  case Nil
  show ?case
    by (simp add: rs_file_lines_def split_on_single_none [of _ "[]", simplified] rstrip_by_def lstrip_by_def)
next
  case (Cons e es)
  have "split_on [CHR 0x0A] (concat (map rs_encode (e # es))) = record_line e # split_on [CHR 0x0A] (concat (map rs_encode es))"
    using split_on_single_step [OF record_line_no_newline [of e]] by (simp add: rs_encode_line)
  moreover have "record_line e \<noteq> []" using record_line_braces [of e] by auto
  ultimately show ?case
    using Cons by (simp add: rs_file_lines_def strip_record_line)
qed

section \<open>The store as a list of events per date\<close>

definition buffered :: "raw_store \<Rightarrow> string \<Rightarrow> string list" where
  "buffered s d = (case map_of (rs_buffer s) d of None \<Rightarrow> [] | Some ls \<Rightarrow> ls)"

definition rs_ok :: "raw_store \<Rightarrow> (string \<Rightarrow> raw_event list) \<Rightarrow> (string \<Rightarrow> raw_event list) \<Rightarrow> bool" where
  "rs_ok s F B \<longleftrightarrow> dict_ok (rs_files s) \<and> dict_ok (rs_buffer s)
     \<and> (\<forall>d. rs_text s d = concat (map rs_encode (F d))) \<and> (\<forall>d. buffered s d = map rs_encode (B d))
     \<and> (\<forall>d. d \<in> fst ` set (rs_files s) \<longleftrightarrow> F d \<noteq> [])"

definition rs_view :: "raw_store \<Rightarrow> (string \<Rightarrow> raw_event list) \<Rightarrow> bool" where
  "rs_view s V \<longleftrightarrow> (\<exists>F B. rs_ok s F B \<and> V = (\<lambda>d. F d @ B d))"

lemma dict_ok_append_lines [simp]: "dict_ok files \<Longrightarrow> dict_ok (append_lines p files)"
  by (simp add: append_lines_def)

lemma dict_ok_fold_append [simp]: "dict_ok files \<Longrightarrow> dict_ok (fold append_lines ps files)"
  by (induction ps arbitrary: files) auto

lemma fold_append_text:
  "distinct (map fst ps) \<Longrightarrow>
   (case map_of (fold append_lines ps files) d of None \<Rightarrow> [] | Some t \<Rightarrow> t)
     = (case map_of files d of None \<Rightarrow> [] | Some t \<Rightarrow> t) @ concat (case map_of ps d of None \<Rightarrow> [] | Some ls \<Rightarrow> ls)"
proof (induction ps arbitrary: files)
  case (Cons p ps)
  have "map_of ps (fst p) = None" using Cons.prems by (simp add: map_of_eq_None_iff)
  then show ?case
    using Cons by (cases p) (auto simp: append_lines_def)
qed simp

lemma fold_append_keys:
  "fst ` set (fold append_lines ps files) = fst ` set files \<union> {d. \<exists>ls. (d, ls) \<in> set ps \<and> ls \<noteq> []}"
proof (induction ps arbitrary: files)
  case (Cons p ps)
  then show ?case
    by (cases p) (auto simp: append_lines_def keys_dict_set)
qed simp

lemma buffered_mem:
  assumes "dict_ok (rs_buffer s)"
  shows "(\<exists>ls. (d, ls) \<in> set (rs_buffer s) \<and> ls \<noteq> []) \<longleftrightarrow> buffered s d \<noteq> []"
  using assms map_of_eq_Some_iff [of "rs_buffer s" d] weak_map_of_SomeI [of d _ "rs_buffer s"]
  by (fastforce simp: buffered_def dict_ok_def split: option.splits)

lemma rs_ok_flush:
  assumes "rs_ok s F B"
  shows "rs_ok (rs_flush now s) (\<lambda>d. F d @ B d) (\<lambda>d. [])"
proof -
  have t: "rs_text (rs_flush now s) d = concat (map rs_encode (F d @ B d))" for d
    using fold_append_text [of "rs_buffer s" "rs_files s" d] assms
    unfolding rs_ok_def rs_flush_def rs_text_def buffered_def dict_ok_def by simp
  have k: "d \<in> fst ` set (rs_files (rs_flush now s)) \<longleftrightarrow> F d @ B d \<noteq> []" for d
    using fold_append_keys [of "rs_buffer s" "rs_files s"] buffered_mem [of s d] assms
    by (auto simp: rs_ok_def rs_flush_def)
  show ?thesis
    using assms t k by (simp add: rs_ok_def) (simp add: rs_flush_def buffered_def)
qed

lemma rs_ok_buffer:
  assumes "rs_ok s F B"
  shows "rs_ok (s\<lparr>rs_buffer := dict_set d ((case map_of (rs_buffer s) d of None \<Rightarrow> [] | Some ls \<Rightarrow> ls) @ [rs_encode e]) (rs_buffer s),
                  rs_buffered_count := n\<rparr>) F (B(d := B d @ [e]))"
  using assms by (simp add: rs_ok_def rs_text_def buffered_def)

lemma rs_view_flush: "rs_view s V \<Longrightarrow> rs_view (rs_flush now s) V"
  unfolding rs_view_def using rs_ok_flush by fastforce

lemma rs_view_write:
  assumes "rs_view s V" and "rs_write now now' e s = Inr s'" and "date_of (ingest_time_ns e) = Inr d"
  shows "rs_view s' (V(d := V d @ [e]))"
proof -
  obtain F B where ok: "rs_ok s F B" and V: "V = (\<lambda>d. F d @ B d)" using assms(1) by (auto simp: rs_view_def)
  let ?s = "s\<lparr>rs_buffer := dict_set d ((case map_of (rs_buffer s) d of None \<Rightarrow> [] | Some ls \<Rightarrow> ls) @ [rs_encode e]) (rs_buffer s),
              rs_buffered_count := rs_buffered_count s + 1\<rparr>"
  have e: "V(d := V d @ [e]) = (\<lambda>x. F x @ (B(d := B d @ [e])) x)" by (auto simp: V)
  have v: "rs_view ?s (V(d := V d @ [e]))"
    unfolding rs_view_def e by (intro exI conjI) (rule rs_ok_buffer [OF ok], rule refl)
  have "s' = ?s \<or> s' = rs_flush now' ?s"
    using assms(2,3) by (auto simp: rs_write_def Let_def)
  then show ?thesis using v rs_view_flush [OF v] by (elim disjE) (simp_all only:)
qed

lemma rs_write_date: "rs_write now now' e s = Inr s' \<Longrightarrow> \<exists>d. date_of (ingest_time_ns e) = Inr d"
  by (auto simp: rs_write_def bind_res_Inr_iff)

lemma rs_view_new: "rs_view (new_raw_store k w now []) (\<lambda>d. [])"
  unfolding rs_view_def rs_ok_def new_raw_store_def
  by (intro exI [of _ "\<lambda>d. []"]) (simp add: rs_text_def buffered_def)

section \<open>Reads\<close>

lemma scan_records_flush:
  assumes "rs_view s V"
  shows "scan_records date (rs_flush now s) = map record_line (concat (map V (rs_partitions date (rs_flush now s))))"
proof -
  obtain F B where ok: "rs_ok s F B" and V: "V = (\<lambda>d. F d @ B d)" using assms by (auto simp: rs_view_def)
  have "rs_text (rs_flush now s) d = concat (map rs_encode (V d))" for d
    using rs_ok_flush [OF ok] unfolding V rs_ok_def by blast
  then show ?thesis
    unfolding scan_records_def by (simp only: rs_file_lines_encoded map_concat map_map o_def)
qed

lemma map_res_records: "map_res (\<lambda>l. bind_res (load_record l) record_to_event) (map record_line es) = Inr es"
  by (induction es) (simp_all add: load_record_line record_to_event_record)

lemma find_record_lines:
  "find_record uid (map record_line es) = Inr (map_option (\<lambda>e. PDict (event_record e)) (find (\<lambda>e. event_uid e = uid) es))"
  by (induction es) (simp_all add: load_record_line event_record_lookup)

lemma rs_iter_all_view:
  "rs_view s V \<Longrightarrow> fst (rs_iter_all now date s) = Inr (concat (map V (rs_partitions date (rs_flush now s))))"
  by (simp add: rs_iter_all_def Let_def scan_records_flush map_res_records del: map_concat)

lemma rs_read_view:
  "rs_view s V \<Longrightarrow> fst (rs_read_by_uid now uid s)
     = Inr (find (\<lambda>e. event_uid e = uid) (concat (map V (rs_partitions None (rs_flush now s)))))"
  by (simp add: rs_read_by_uid_def Let_def scan_records_flush find_record_lines record_to_event_record split: option.split)

lemma rs_verify_view:
  "rs_view s V \<Longrightarrow> fst (rs_verify H now uid s)
     = Inr (case find (\<lambda>e. event_uid e = uid) (concat (map V (rs_partitions None (rs_flush now s)))) of
              None \<Rightarrow> False | Some e \<Rightarrow> sha256_hex H (raw e) = raw_hash e)"
  by (simp add: rs_verify_def Let_def scan_records_flush find_record_lines event_record_lookup split: option.split)

lemma partitions_complete:
  assumes "rs_view s V"
  shows "set (rs_partitions None (rs_flush now s)) = {d. V d \<noteq> []} \<and> distinct (rs_partitions None (rs_flush now s))
    \<and> sorted (rs_partitions None (rs_flush now s))"
proof -
  obtain F B where ok: "rs_ok s F B" and V: "V = (\<lambda>d. F d @ B d)" using assms by (auto simp: rs_view_def)
  note f = rs_ok_flush [OF ok, of now]
  have "set (map fst (rs_files (rs_flush now s))) = {d. V d \<noteq> []}" "distinct (map fst (rs_files (rs_flush now s)))"
    using f unfolding rs_ok_def V dict_ok_def by auto
  then show ?thesis by (simp add: rs_partitions_def)
qed

lemma iter_partition_view: "rs_view s V \<Longrightarrow> fst (rs_iter_all now (Some d) s) = Inr (V d)"
proof -
  assume v: "rs_view s V"
  let ?ds = "sort (map fst (rs_files (rs_flush now s)))"
  have ds: "set ?ds = {d. V d \<noteq> []}" "distinct ?ds"
    using partitions_complete [OF v, of now] by (simp_all add: rs_partitions_def)
  have "filter (\<lambda>x. x = d) xs = (if d \<in> set xs then [d] else [])" if "distinct xs" for xs
    using that by (induction xs) auto
  then have "rs_partitions (Some d) (rs_flush now s) = (if V d \<noteq> [] then [d] else [])"
    using ds by (simp add: rs_partitions_def)
  then show ?thesis using rs_iter_all_view [OF v, of now "Some d"] by simp
qed

section \<open>The store as an append-only log\<close>

type_synonym timed_event = "instant \<times> instant \<times> raw_event"

definition rs_sound :: "raw_store \<Rightarrow> bool" where
  "rs_sound s \<longleftrightarrow> (\<exists>V. rs_view s V)"

definition rs_add :: "timed_event \<Rightarrow> raw_store \<Rightarrow> raw_store" where
  "rs_add w s = (case rs_write (fst w) (fst (snd w)) (snd (snd w)) s of Inl _ \<Rightarrow> s | Inr s' \<Rightarrow> s')"

definition rs_contents :: "string \<Rightarrow> raw_store \<Rightarrow> raw_event list" where
  "rs_contents d s = (case fst (rs_iter_all 0 (Some d) s) of Inl _ \<Rightarrow> [] | Inr es \<Rightarrow> es)"

definition dated :: "string \<Rightarrow> timed_event \<Rightarrow> bool" where
  "dated d w \<longleftrightarrow> date_of (ingest_time_ns (snd (snd w))) = Inr d"

lemma rs_contents_view: "rs_view s V \<Longrightarrow> rs_contents d s = V d"
  by (simp add: rs_contents_def iter_partition_view)

lemma rs_add_view:
  assumes "rs_view s V"
  shows "rs_view (rs_add w s) (case date_of (ingest_time_ns (snd (snd w))) of
           Inl _ \<Rightarrow> V | Inr d \<Rightarrow> V(d := V d @ [snd (snd w)]))"
proof (cases "date_of (ingest_time_ns (snd (snd w)))")
  case (Inl x)
  then show ?thesis using assms by (simp add: rs_add_def rs_write_def)
next
  case (Inr d)
  then obtain s' where "rs_write (fst w) (fst (snd w)) (snd (snd w)) s = Inr s'"
    by (auto simp: rs_write_def Let_def)
  then show ?thesis using rs_view_write [OF assms _ Inr] Inr by (simp add: rs_add_def)
qed

interpretation rslog: append_log rs_sound "dated d" "rs_contents d" rs_add "\<lambda>w s. snd (snd w)" for d
proof (unfold_locales, goal_cases)
  case (1 s w)
  then obtain V where "rs_view s V" by (auto simp: rs_sound_def)
  from rs_add_view [OF this, of w] show ?case unfolding rs_sound_def by blast
next
  case (2 s w)
  then obtain V where v: "rs_view s V" by (auto simp: rs_sound_def)
  show ?case
    using 2(2) rs_contents_view [OF v] rs_contents_view [OF rs_add_view [OF v, of w]] by (simp add: dated_def)
qed

section \<open>Properties\<close>

fun rs_write_all :: "timed_event list \<Rightarrow> raw_store \<Rightarrow> raw_store res" where
  "rs_write_all [] s = Inr s"
| "rs_write_all ((n, n', e) # ws) s = bind_res (rs_write n n' e s) (rs_write_all ws)"

abbreviation written :: "timed_event list \<Rightarrow> raw_event list" where
  "written ws \<equiv> map (\<lambda>w. snd (snd w)) ws"

definition on_date :: "string \<Rightarrow> raw_event list \<Rightarrow> raw_event list" where
  "on_date d es = filter (\<lambda>e. date_of (ingest_time_ns e) = Inr d) es"

lemma rs_write_all_view:
  "rs_write_all ws s = Inr s' \<Longrightarrow> rs_view s V \<Longrightarrow>
     rs_view s' (\<lambda>d. V d @ on_date d (written ws)) \<and> (\<forall>e \<in> set (written ws). \<exists>d. date_of (ingest_time_ns e) = Inr d)"
proof (induction ws arbitrary: s V)
  case Nil
  then show ?case by (simp add: on_date_def)
next
  case (Cons w ws)
  obtain n n' e where w: "w = (n, n', e)" by (cases w)
  obtain s1 where s1: "rs_write n n' e s = Inr s1" "rs_write_all ws s1 = Inr s'"
    using Cons.prems(1) by (auto simp: w bind_res_Inr_iff)
  obtain d where d: "date_of (ingest_time_ns e) = Inr d" using rs_write_date [OF s1(1)] ..
  have "(\<lambda>x. (V(d := V d @ [e])) x @ on_date x (written ws)) = (\<lambda>x. V x @ on_date x (written (w # ws)))"
    using d by (auto simp: w on_date_def)
  then show ?case
    using Cons.IH [OF s1(2) rs_view_write [OF Cons.prems(2) s1(1) d]] d by (simp add: w)
qed

lemma mset_by_date:
  "distinct ds \<Longrightarrow> \<forall>e \<in> set es. \<exists>d \<in> set ds. date_of (ingest_time_ns e) = Inr d \<Longrightarrow>
     mset (concat (map (\<lambda>d. on_date d es) ds)) = mset es"
proof (induction ds arbitrary: es)
  case Nil
  then show ?case by (cases es) auto
next
  case (Cons d ds)
  let ?es = "filter (\<lambda>e. date_of (ingest_time_ns e) \<noteq> Inr d) es"
  have "on_date d' ?es = on_date d' es" if "d' \<in> set ds" for d'
    unfolding on_date_def filter_filter using that Cons.prems(1) by (intro filter_cong) auto
  then have m: "map (\<lambda>d. on_date d ?es) ds = map (\<lambda>d. on_date d es) ds" by simp
  have "mset (concat (map (\<lambda>d. on_date d ?es) ds)) = mset ?es"
    using Cons.prems by (intro Cons.IH) auto
  then have "mset (concat (map (\<lambda>d. on_date d es) ds)) = mset ?es" unfolding m .
  then show ?case
    using multiset_partition [of "mset es" "\<lambda>e. date_of (ingest_time_ns e) = Inr d"]
    by (simp add: on_date_def [of d])
qed

lemma written_all:
  assumes "rs_write_all ws (new_raw_store k w t0 []) = Inr s"
  shows "rs_view s (\<lambda>d. on_date d (written ws))"
    and "\<forall>e \<in> set (written ws). \<exists>d. date_of (ingest_time_ns e) = Inr d"
  using rs_write_all_view [OF assms rs_view_new] by simp_all

lemma written_scan:
  assumes "rs_write_all ws (new_raw_store k w t0 []) = Inr s"
  shows "mset (concat (map (\<lambda>d. on_date d (written ws)) (rs_partitions None (rs_flush now s)))) = mset (written ws)"
proof (rule mset_by_date)
  let ?ds = "rs_partitions None (rs_flush now s)"
  have ds: "set ?ds = {d. on_date d (written ws) \<noteq> []}" "distinct ?ds"
    using partitions_complete [OF written_all(1) [OF assms], of now] by simp_all
  then show "distinct ?ds" by simp
  show "\<forall>e \<in> set (written ws). \<exists>d \<in> set ?ds. date_of (ingest_time_ns e) = Inr d"
  proof
    fix e assume e: "e \<in> set (written ws)"
    obtain d where d: "date_of (ingest_time_ns e) = Inr d" using written_all(2) [OF assms] e by blast
    have "e \<in> set (on_date d (written ws))" using e d by (simp add: on_date_def)
    then have "d \<in> set ?ds" unfolding ds(1) by (cases "on_date d (written ws)") simp_all
    then show "\<exists>d \<in> set ?ds. date_of (ingest_time_ns e) = Inr d" using d by (rule bexI [rotated])
  qed
qed

text \<open>
  C12. Nothing written to the bronze store is lost, altered or reordered within its date, whatever the buffer
  thresholds and clock readings were: after any sequence of successful writes into an empty store, the
  full scan returns exactly the written events (as a multiset), and the scan of one date returns that
  date's events in the order they were written.
\<close>

theorem raw_store_lossless:
  assumes "rs_write_all ws (new_raw_store k w t0 []) = Inr s"
  shows "(\<exists>es. fst (rs_iter_all now None s) = Inr es \<and> mset es = mset (written ws))
    \<and> fst (rs_iter_all now (Some d) s) = Inr (on_date d (written ws))"
  using rs_iter_all_view [OF written_all(1) [OF assms], of now None] written_scan [OF assms, of now]
    iter_partition_view [OF written_all(1) [OF assms], of now d]
  by blast

definition demo_event :: "string \<Rightarrow> int \<Rightarrow> raw_event" where
  "demo_event uid t = make_raw_event sha256 uid t [0, 255, 10, 34] ''fw-1'' Udp (Some ''192.0.2.1'')"

definition demo_writes :: "timed_event list" where
  "demo_writes = [(0, 0, demo_event ''u1'' 1709251199999999999), (1, 1, demo_event ''u2'' 1709251200000000000),
     (2, 2, demo_event ''u3'' 0)]"

lemma demo_dates:
  "date_of 1709251199999999999 = Inr ''2024-02-29''" "date_of 1709251200000000000 = Inr ''2024-03-01''"
  "date_of 0 = Inr ''1970-01-01''"
  by code_simp+

lemma demo_writes_ok: "\<exists>s. rs_write_all demo_writes (new_raw_store 2 1000 0 []) = Inr s"
  by (simp add: demo_writes_def rs_write_def demo_event_def make_raw_event_def demo_dates Let_def)

definition demo_store :: raw_store where
  "demo_store = projr (rs_write_all demo_writes (new_raw_store 2 1000 0 []))"

lemma demo_store_written: "rs_write_all demo_writes (new_raw_store 2 1000 0 []) = Inr demo_store"
  using demo_writes_ok by (auto simp: demo_store_def)

theorem raw_store_lossless_witness:
  "(\<exists>es. fst (rs_iter_all 9 None demo_store) = Inr es \<and> mset es = mset (written demo_writes))
    \<and> fst (rs_iter_all 9 (Some ''2024-03-01'') demo_store) = Inr (on_date ''2024-03-01'' (written demo_writes))"
  by (rule raw_store_lossless [OF demo_store_written])

lemma find_unique:
  assumes "distinct (map event_uid es)" and "e \<in> set es"
  shows "find (\<lambda>x. event_uid x = event_uid e) es = Some e"
  using assms by (induction es) auto

lemma distinct_uids_mset: "mset xs = mset ys \<Longrightarrow> distinct (map event_uid xs) = distinct (map event_uid ys)"
  by (metis mset_eq_imp_distinct_iff mset_map)

lemma written_find:
  assumes "rs_write_all ws (new_raw_store k w t0 []) = Inr s" and "distinct (map event_uid (written ws))"
  shows "e \<in> set (written ws) \<Longrightarrow>
      find (\<lambda>x. event_uid x = event_uid e) (concat (map (\<lambda>d. on_date d (written ws)) (rs_partitions None (rs_flush now s)))) = Some e"
    and "uid \<notin> event_uid ` set (written ws) \<Longrightarrow>
      find (\<lambda>x. event_uid x = uid) (concat (map (\<lambda>d. on_date d (written ws)) (rs_partitions None (rs_flush now s)))) = None"
proof -
  let ?all = "concat (map (\<lambda>d. on_date d (written ws)) (rs_partitions None (rs_flush now s)))"
  note m = written_scan [OF assms(1), of now]
  have "set ?all = set (written ws)" "distinct (map event_uid ?all)"
    using mset_eq_setD [OF m] distinct_uids_mset [OF m] assms(2) by simp_all
  then show "e \<in> set (written ws) \<Longrightarrow> find (\<lambda>x. event_uid x = event_uid e) ?all = Some e"
    and "uid \<notin> event_uid ` set (written ws) \<Longrightarrow> find (\<lambda>x. event_uid x = uid) ?all = None"
    using find_unique [of ?all e] by (auto simp: find_None_iff simp del: set_concat)
qed

text \<open>
  Reading an event back by its id gives exactly the event that was written (when ids are not repeated),
  and \<^verbatim>\<open>verify\<close> answers whether its recorded hash is the digest of its bytes; for an id that was never
  written, the answers are none and false.
\<close>

theorem raw_store_read_back:
  assumes "rs_write_all ws (new_raw_store k w t0 []) = Inr s" and "distinct (map event_uid (written ws))"
  shows "(\<forall>e \<in> set (written ws). fst (rs_read_by_uid now (event_uid e) s) = Inr (Some e)
            \<and> fst (rs_verify H now (event_uid e) s) = Inr (sha256_hex H (raw e) = raw_hash e))
    \<and> (\<forall>uid. uid \<notin> event_uid ` set (written ws) \<longrightarrow>
            fst (rs_read_by_uid now uid s) = Inr None \<and> fst (rs_verify H now uid s) = Inr False)"
  unfolding rs_read_view [OF written_all(1) [OF assms(1)]] rs_verify_view [OF written_all(1) [OF assms(1)]]
  using written_find [OF assms] by simp

theorem raw_store_read_back_witness:
  "fst (rs_read_by_uid 9 ''u2'' demo_store) = Inr (Some (demo_event ''u2'' 1709251200000000000))
    \<and> fst (rs_verify sha256 9 ''u2'' demo_store) = Inr True
    \<and> fst (rs_read_by_uid 9 ''u9'' demo_store) = Inr None \<and> fst (rs_verify sha256 9 ''u9'' demo_store) = Inr False"
proof -
  have d: "distinct (map event_uid (written demo_writes))"
    by (simp add: demo_writes_def demo_event_def make_raw_event_def)
  have e: "demo_event ''u2'' 1709251200000000000 \<in> set (written demo_writes)"
    "event_uid (demo_event ''u2'' 1709251200000000000) = ''u2''" "''u9'' \<notin> event_uid ` set (written demo_writes)"
    "raw_hash (demo_event ''u2'' t) = sha256_hex sha256 (raw (demo_event ''u2'' t))" for t
    by (simp_all add: demo_writes_def demo_event_def make_raw_event_def)
  show ?thesis
    using bspec [OF conjunct1 [OF raw_store_read_back [OF demo_store_written d, of 9 sha256]] e(1)]
      spec [OF conjunct2 [OF raw_store_read_back [OF demo_store_written d, of 9 sha256]], of "''u9''"] e(3)
    by (simp add: e(2,4))
qed

text \<open>
  The store is append-only: whatever is written later, the events of a date read before are a prefix of
  those read after, and flushing only ever appends to the bytes of a partition file.
\<close>

theorem raw_store_append_only:
  assumes "rs_sound s" and "\<forall>w \<in> set ws. dated d w"
  shows "prefix (rs_contents d s) (rs_contents d (fold rs_add ws s))
    \<and> length (rs_contents d (fold rs_add ws s)) = length (rs_contents d s) + length ws
    \<and> prefix (rs_text s x) (rs_text (rs_flush now s) x)"
proof -
  obtain F B where ok: "rs_ok s F B" using assms(1) by (auto simp: rs_sound_def rs_view_def)
  have "prefix (rs_text s x) (rs_text (rs_flush now s) x)"
    using ok rs_ok_flush [OF ok, of now] by (simp add: rs_ok_def)
  then show ?thesis
    using rslog.contents_prefix [OF assms] rslog.contents_length [OF assms] by blast
qed

theorem raw_store_append_only_witness:
  "prefix (rs_contents ''1970-01-01'' (new_raw_store 1 0 0 []))
      (rs_contents ''1970-01-01'' (fold rs_add [(2, 2, demo_event ''u3'' 0)] (new_raw_store 1 0 0 [])))
    \<and> length (rs_contents ''1970-01-01'' (fold rs_add [(2, 2, demo_event ''u3'' 0)] (new_raw_store 1 0 0 [])))
        = length (rs_contents ''1970-01-01'' (new_raw_store 1 0 0 [])) + length [(2 :: int, 2 :: int, demo_event ''u3'' 0)]
    \<and> prefix (rs_text (new_raw_store 1 0 0 []) ''x'') (rs_text (rs_flush 5 (new_raw_store 1 0 0 [])) ''x'')"
proof (rule raw_store_append_only)
  show "rs_sound (new_raw_store 1 0 0 [])" using rs_view_new unfolding rs_sound_def by blast
qed (simp add: dated_def demo_event_def make_raw_event_def demo_dates)

end
