(* ===== verification/Dlq.thy ===== *)
theory Dlq
  imports Raw_Store
begin

text \<open>
  The dead-letter queue (\<^verbatim>\<open>ulpf/sinks/dlq.py\<close>): append-only NDJSON partitions by write date, a second
  append-only file of resolutions, statistics and filtered iteration. The JSON form of a dead letter is
  produced and read by pydantic, so its two directions \<open>enc\<close> and \<open>dec\<close> are arguments. \<open>dq_metric\<close> is the
  counter \<^verbatim>\<open>ulpf_dead_letter_total{stage,reason}\<close>.
\<close>

section \<open>Definitions\<close>

record dlq =
  dq_files :: "(string \<times> string) list"
  dq_resolved :: "string option"
  dq_metric :: "((string \<times> string) \<times> nat) list"

definition empty_dlq :: dlq where
  "empty_dlq = \<lparr>dq_files = [], dq_resolved = None, dq_metric = []\<rparr>"

type_synonym dl_enc = "dead_letter \<Rightarrow> string"
type_synonym dl_dec = "string \<Rightarrow> dead_letter option"

definition dq_text :: "dlq \<Rightarrow> string \<Rightarrow> string" where
  "dq_text q d = (case map_of (dq_files q) d of None \<Rightarrow> [] | Some t \<Rightarrow> t)"

definition counter_get :: "('k \<times> nat) list \<Rightarrow> 'k \<Rightarrow> nat" where
  "counter_get c k = (case map_of c k of None \<Rightarrow> 0 | Some n \<Rightarrow> n)"

definition counter_inc :: "'k \<Rightarrow> ('k \<times> nat) list \<Rightarrow> ('k \<times> nat) list" where
  "counter_inc k c = dict_set k (counter_get c k + 1) c"

definition dlq_record :: "int \<Rightarrow> raw_event \<Rightarrow> string \<Rightarrow> string \<Rightarrow> pydict option \<Rightarrow> dead_letter" where
  "dlq_record now e reason stage detail =
     \<lparr>dl_event_uid = event_uid e, dl_raw = raw e, dl_raw_hash = raw_hash e, dl_reason = reason, dl_stage = stage,
      dl_detail = (case detail of None \<Rightarrow> [] | Some d \<Rightarrow> d), dl_ts_ns = now\<rparr>"

definition dlq_write ::
  "dl_enc \<Rightarrow> int \<Rightarrow> raw_event \<Rightarrow> string \<Rightarrow> string \<Rightarrow> pydict option \<Rightarrow> dlq \<Rightarrow> (dead_letter \<times> dlq) res" where
  "dlq_write enc now e reason stage detail q =
     (let r = dlq_record now e reason stage detail
      in bind_res (date_of (dl_ts_ns r)) (\<lambda>d.
           Inr (r, q\<lparr>dq_files := dict_set d (dq_text q d @ enc r @ [CHR 0x0A]) (dq_files q),
                     dq_metric := counter_inc (stage, reason) (dq_metric q)\<rparr>)))"

definition nonblank_lines :: "string \<Rightarrow> string list" where
  "nonblank_lines text = filter (\<lambda>l. py_strip l \<noteq> []) (py_splitlines text)"

definition decode_letter :: "dl_dec \<Rightarrow> string \<Rightarrow> dead_letter res" where
  "decode_letter dec l = (case dec l of Some r \<Rightarrow> Inr r | None \<Rightarrow> Inl (ValueError ''ValidationError''))"

definition dlq_all_records :: "dl_dec \<Rightarrow> dlq \<Rightarrow> dead_letter list res" where
  "dlq_all_records dec q =
     map_res (decode_letter dec) (concat (map (\<lambda>d. nonblank_lines (dq_text q d)) (sort (map fst (dq_files q)))))"

text \<open>Newest partition first, last line first, decoding no more lines than the limit asks for.\<close>

definition dlq_iter_recent :: "dl_dec \<Rightarrow> int \<Rightarrow> dlq \<Rightarrow> dead_letter list res" where
  "dlq_iter_recent dec limit q =
     (if limit \<le> 0 then Inr []
      else map_res (decode_letter dec)
        (take (nat limit) (concat (map (\<lambda>d. rev (nonblank_lines (dq_text q d))) (rev (sort (map fst (dq_files q))))))))"

definition hashable :: "pyval \<Rightarrow> bool" where
  "hashable v = (case v of PList _ \<Rightarrow> False | PDict _ \<Rightarrow> False | _ \<Rightarrow> True)"

definition resolved_uid :: "string \<Rightarrow> pyval res" where
  "resolved_uid l =
     bind_res (load_record l) (\<lambda>r. bind_res (py_item r ''event_uid'') (\<lambda>u.
       if hashable u then Inr u else Inl (TypeError ''unhashable type'')))"

definition resolved_event_uids :: "dlq \<Rightarrow> pyval list res" where
  "resolved_event_uids q =
     (case dq_resolved q of None \<Rightarrow> Inr [] | Some text \<Rightarrow> map_res resolved_uid (nonblank_lines text))"

definition resolution_line :: "int \<Rightarrow> string \<Rightarrow> pydict option \<Rightarrow> string" where
  "resolution_line now uid detail =
     json_dumps (PDict [(''event_uid'', PStr uid), (''resolved_ts_ns'', PInt now),
                        (''detail'', PDict (case detail of None \<Rightarrow> [] | Some d \<Rightarrow> d))])"

definition mark_resolved :: "int \<Rightarrow> string \<Rightarrow> pydict option \<Rightarrow> dlq \<Rightarrow> dlq" where
  "mark_resolved now uid detail q =
     q\<lparr>dq_resolved := Some ((case dq_resolved q of None \<Rightarrow> [] | Some t \<Rightarrow> t) @ resolution_line now uid detail @ [CHR 0x0A])\<rparr>"

definition is_resolved :: "pyval list \<Rightarrow> dead_letter \<Rightarrow> bool" where
  "is_resolved uids r \<longleftrightarrow> PStr (dl_event_uid r) \<in> set uids"

record dlq_stats =
  st_total :: nat
  st_resolved :: nat
  st_unresolved :: int
  st_by_reason :: "(string \<times> nat) list"
  st_by_stage :: "(string \<times> nat) list"

definition count_by :: "('a \<Rightarrow> string) \<Rightarrow> 'a list \<Rightarrow> (string \<times> nat) list" where
  "count_by f rs = fold (\<lambda>r c. counter_inc (f r) c) rs []"

definition dlq_stats_of :: "dl_dec \<Rightarrow> dlq \<Rightarrow> dlq_stats res" where
  "dlq_stats_of dec q =
     bind_res (resolved_event_uids q) (\<lambda>uids. bind_res (dlq_all_records dec q) (\<lambda>rs.
       Inr \<lparr>st_total = length rs, st_resolved = length (filter (is_resolved uids) rs),
            st_unresolved = int (length rs) - int (length (filter (is_resolved uids) rs)),
            st_by_reason = count_by dl_reason rs, st_by_stage = count_by dl_stage rs\<rparr>))"

definition entry_selected :: "string option \<Rightarrow> int option \<Rightarrow> bool \<Rightarrow> pyval list \<Rightarrow> dead_letter \<Rightarrow> bool" where
  "entry_selected reason since_ns unresolved_only uids r \<longleftrightarrow>
     (case reason of None \<Rightarrow> True | Some x \<Rightarrow> dl_reason r = x)
     \<and> (case since_ns of None \<Rightarrow> True | Some t \<Rightarrow> t \<le> dl_ts_ns r)
     \<and> \<not> (unresolved_only \<and> is_resolved uids r)"

definition dlq_iter_entries :: "dl_dec \<Rightarrow> string option \<Rightarrow> int option \<Rightarrow> bool \<Rightarrow> dlq \<Rightarrow> dead_letter list res" where
  "dlq_iter_entries dec reason since_ns unresolved_only q =
     bind_res (if unresolved_only then resolved_event_uids q else Inr []) (\<lambda>uids.
     bind_res (dlq_all_records dec q) (\<lambda>rs. Inr (filter (entry_selected reason since_ns unresolved_only uids) rs)))"

section \<open>The queue as a list of records per date\<close>

text \<open>
  What is needed of the JSON codec for one record: it is read back, and its line holds no character at
  which \<^verbatim>\<open>str.splitlines\<close> would break it.
\<close>

definition clean :: "dl_enc \<Rightarrow> dl_dec \<Rightarrow> dead_letter \<Rightarrow> bool" where
  "clean enc dec r \<longleftrightarrow> dec (enc r) = Some r \<and> (\<forall>c \<in> set (enc r). \<not> is_line_end c) \<and> py_strip (enc r) \<noteq> []"

definition dq_view :: "dl_enc \<Rightarrow> dl_dec \<Rightarrow> dlq \<Rightarrow> (string \<Rightarrow> dead_letter list) \<Rightarrow> bool" where
  "dq_view enc dec q V \<longleftrightarrow> dict_ok (dq_files q)
     \<and> (\<forall>d. dq_text q d = concat (map (\<lambda>r. enc r @ [CHR 0x0A]) (V d)))
     \<and> (\<forall>d. d \<in> fst ` set (dq_files q) \<longleftrightarrow> V d \<noteq> []) \<and> (\<forall>d. \<forall>r \<in> set (V d). clean enc dec r)"

lemma nonblank_lines_view:
  assumes "dq_view enc dec q V"
  shows "nonblank_lines (dq_text q d) = map enc (V d)"
proof -
  have "\<forall>r \<in> set (V d). clean enc dec r" using assms by (auto simp: dq_view_def)
  moreover from this have "py_splitlines (dq_text q d) = map enc (V d)"
    using assms by (simp add: dq_view_def clean_def splitlines_terminated)
  ultimately show ?thesis
    by (auto simp: nonblank_lines_def clean_def filter_map o_def intro!: filter_True)
qed

lemma decode_clean: "\<forall>r \<in> set rs. clean enc dec r \<Longrightarrow> map_res (decode_letter dec) (map enc rs) = Inr rs"
  by (induction rs) (auto simp: clean_def decode_letter_def)

definition dq_dates :: "dlq \<Rightarrow> string list" where
  "dq_dates q = sort (map fst (dq_files q))"

lemma dlq_all_view:
  assumes "dq_view enc dec q V"
  shows "dlq_all_records dec q = Inr (concat (map V (dq_dates q)))"
proof -
  have "concat (map (\<lambda>d. nonblank_lines (dq_text q d)) (dq_dates q)) = map enc (concat (map V (dq_dates q)))"
    by (simp add: nonblank_lines_view [OF assms] map_concat o_def)
  moreover have "\<forall>r \<in> set (concat (map V (dq_dates q))). clean enc dec r"
    using assms by (auto simp: dq_view_def)
  ultimately show ?thesis
    unfolding dlq_all_records_def dq_dates_def [symmetric] by (simp only: decode_clean)
qed

lemma dq_view_empty: "dq_view enc dec empty_dlq (\<lambda>d. [])"
  by (simp add: dq_view_def empty_dlq_def dq_text_def)

lemma dq_view_write:
  assumes "dq_view enc dec q V" and "dlq_write enc now e reason stage detail q = Inr (r, q')" and "clean enc dec r"
  shows "\<exists>d. date_of now = Inr d \<and> dq_view enc dec q' (V(d := V d @ [r])) \<and> r = dlq_record now e reason stage detail"
proof -
  obtain d where d: "date_of now = Inr d" and r: "r = dlq_record now e reason stage detail"
    and q': "q' = q\<lparr>dq_files := dict_set d (dq_text q d @ enc r @ [CHR 0x0A]) (dq_files q),
                     dq_metric := counter_inc (stage, reason) (dq_metric q)\<rparr>"
    using assms(2) by (auto simp: dlq_write_def Let_def bind_res_Inr_iff dlq_record_def)
  have "dq_text q' x = (if x = d then dq_text q d @ enc r @ [CHR 0x0A] else dq_text q x)" for x
    by (simp add: q' dq_text_def)
  then have "dq_view enc dec q' (V(d := V d @ [r]))"
    using assms(1,3) unfolding dq_view_def by (auto simp: q' keys_dict_set)
  then show ?thesis using d r by blast
qed

lemma dq_view_mark: "dq_view enc dec q V \<Longrightarrow> dq_view enc dec (mark_resolved now uid detail q) V"
  by (simp add: dq_view_def mark_resolved_def dq_text_def)

lemma splitlines_append:
  "splitlines_by is_line_end acc (s @ CHR 0x0A # u) = splitlines_by is_line_end acc (s @ [CHR 0x0A]) @ splitlines_by is_line_end [] u"
proof (induction "length s" arbitrary: s acc rule: less_induct)
  case less
  show ?case
  proof (cases s)
    case Nil
    then show ?thesis by (simp add: is_line_end_def skip_lf_def)
  next
    case (Cons c cs)
    show ?thesis
    proof (cases "is_line_end c")
      case False
      then show ?thesis using less [of cs] Cons by simp
    next
      case True
      show ?thesis
      proof (cases "code c = 13 \<and> cs \<noteq> [] \<and> code (hd cs) = 10")
        case crlf: True
        then show ?thesis using less [of "tl cs" "[]"] Cons True by (cases cs) (auto simp: skip_lf_def)
      next
        case no: False
        then show ?thesis
          using less [of cs "[]"] Cons True
          by (cases "code c = 13"; cases cs) (auto simp: skip_lf_def)
      qed
    qed
  qed
qed

section \<open>The queue as an append-only log\<close>

type_synonym dlq_request = "int \<times> raw_event \<times> string \<times> string \<times> pydict option"

fun request_record :: "dlq_request \<Rightarrow> dead_letter" where
  "request_record (now, e, reason, stage, detail) = dlq_record now e reason stage detail"

fun dlq_add :: "dl_enc \<Rightarrow> dlq_request \<Rightarrow> dlq \<Rightarrow> dlq" where
  "dlq_add enc (now, e, reason, stage, detail) q =
     (case dlq_write enc now e reason stage detail q of Inl _ \<Rightarrow> q | Inr (_, q') \<Rightarrow> q')"

definition request_ok :: "dl_enc \<Rightarrow> dl_dec \<Rightarrow> string \<Rightarrow> dlq_request \<Rightarrow> bool" where
  "request_ok enc dec d w \<longleftrightarrow> date_of (fst w) = Inr d \<and> clean enc dec (request_record w)"

definition dq_sound :: "dl_enc \<Rightarrow> dl_dec \<Rightarrow> dlq \<Rightarrow> bool" where
  "dq_sound enc dec q \<longleftrightarrow> (\<exists>V. dq_view enc dec q V)"

definition dq_contents :: "dl_dec \<Rightarrow> string \<Rightarrow> dlq \<Rightarrow> dead_letter list" where
  "dq_contents dec d q = (case map_res (decode_letter dec) (nonblank_lines (dq_text q d)) of Inl _ \<Rightarrow> [] | Inr rs \<Rightarrow> rs)"

lemma dq_contents_view: "dq_view enc dec q V \<Longrightarrow> dq_contents dec d q = V d"
  using decode_clean [of "V d" enc dec] by (simp add: dq_contents_def nonblank_lines_view) (simp add: dq_view_def)

lemma dlq_add_view:
  assumes "dq_view enc dec q V" and "request_ok enc dec d w"
  shows "dq_view enc dec (dlq_add enc w q) (V(d := V d @ [request_record w]))"
proof -
  obtain now e reason stage detail where w: "w = (now, e, reason, stage, detail)" by (cases w)
  have d: "date_of now = Inr d" using assms(2) by (simp add: request_ok_def w)
  then obtain q' where wr: "dlq_write enc now e reason stage detail q = Inr (request_record w, q')"
    by (simp add: dlq_write_def Let_def w dlq_record_def)
  show ?thesis
    using dq_view_write [OF assms(1) wr] assms(2) d by (auto simp: request_ok_def w wr [unfolded w])
qed

interpretation dqlog: append_log "dq_sound enc dec" "request_ok enc dec d" "dq_contents dec d" "dlq_add enc"
  "\<lambda>w q. request_record w" for enc dec d
proof (unfold_locales, goal_cases)
  case (1 q w)
  then show ?case using dlq_add_view unfolding dq_sound_def by blast
next
  case (2 q w)
  then obtain V where v: "dq_view enc dec q V" by (auto simp: dq_sound_def)
  show ?case
    using dq_contents_view [OF v] dq_contents_view [OF dlq_add_view [OF v 2(2)]] by simp
qed

section \<open>Properties\<close>

lemma dq_dates_view:
  assumes "dq_view enc dec q V"
  shows "set (dq_dates q) = {d. V d \<noteq> []}" "distinct (dq_dates q)" "sorted (dq_dates q)"
  using assms by (auto simp: dq_view_def dq_dates_def dict_ok_def)

fun dlq_write_all :: "dl_enc \<Rightarrow> dlq_request list \<Rightarrow> dlq \<Rightarrow> dlq" where
  "dlq_write_all enc [] q = q"
| "dlq_write_all enc (w # ws) q = dlq_write_all enc ws (dlq_add enc w q)"

definition letters_on :: "string \<Rightarrow> dead_letter list \<Rightarrow> dead_letter list" where
  "letters_on d rs = filter (\<lambda>r. date_of (dl_ts_ns r) = Inr d) rs"

lemma request_record_ts: "dl_ts_ns (request_record w) = fst w"
  by (cases w) (simp add: dlq_record_def)

lemma dlq_write_all_view:
  "\<forall>w \<in> set ws. \<exists>d. request_ok enc dec d w \<Longrightarrow> dq_view enc dec q V \<Longrightarrow>
     dq_view enc dec (dlq_write_all enc ws q) (\<lambda>d. V d @ letters_on d (map request_record ws))"
proof (induction ws arbitrary: q V)
  case Nil
  then show ?case by (simp add: letters_on_def)
next
  case (Cons w ws)
  then obtain d where d: "request_ok enc dec d w" by auto
  have "(\<lambda>x. (V(d := V d @ [request_record w])) x @ letters_on x (map request_record ws))
      = (\<lambda>x. V x @ letters_on x (map request_record (w # ws)))"
    using d by (auto simp: letters_on_def request_ok_def request_record_ts)
  then show ?case
    using Cons.IH [OF _ dlq_add_view [OF Cons.prems(2) d]] Cons.prems(1) by simp
qed

text \<open>
  Every dead letter written is there afterwards, unchanged: for writes whose clock gives a date and whose
  JSON line the codec reads back, each date's partition reads as the records of that date in write order,
  and the chronological scan of the whole queue is those partitions in date order.
\<close>

theorem dlq_lossless:
  assumes "\<forall>w \<in> set ws. \<exists>d. request_ok enc dec d w"
  shows "(\<forall>d. dq_contents dec d (dlq_write_all enc ws empty_dlq) = letters_on d (map request_record ws))
    \<and> dlq_all_records dec (dlq_write_all enc ws empty_dlq)
        = Inr (concat (map (\<lambda>d. letters_on d (map request_record ws)) (dq_dates (dlq_write_all enc ws empty_dlq))))
    \<and> set (dq_dates (dlq_write_all enc ws empty_dlq)) = {d. \<exists>w \<in> set ws. date_of (fst w) = Inr d}
    \<and> sorted (dq_dates (dlq_write_all enc ws empty_dlq))"
proof -
  have v: "dq_view enc dec (dlq_write_all enc ws empty_dlq) (\<lambda>d. letters_on d (map request_record ws))"
    using dlq_write_all_view [OF assms dq_view_empty] by simp
  have "{d. letters_on d (map request_record ws) \<noteq> []} = {d. \<exists>w \<in> set ws. date_of (fst w) = Inr d}"
    by (auto simp: letters_on_def filter_empty_conv request_record_ts)
  then show ?thesis
    using dq_contents_view [OF v] dlq_all_view [OF v] dq_dates_view [OF v] by simp
qed

definition demo_letter :: dlq_request where
  "demo_letter = (0, demo_event ''u1'' 0, ''grok_timeout'', ''parse'', None)"

definition demo_enc :: dl_enc where
  "demo_enc r = ''letter'' @ dl_event_uid r"

definition demo_dec :: dl_dec where
  "demo_dec l = (if l = ''letteru1'' then Some (request_record demo_letter) else None)"

lemma demo_letter_ok: "request_ok demo_enc demo_dec ''1970-01-01'' demo_letter"
  by (simp add: request_ok_def clean_def demo_letter_def demo_enc_def demo_dec_def demo_dates dlq_record_def demo_event_def
      make_raw_event_def is_line_end_def py_strip_Nil_iff is_space_def)

theorem dlq_lossless_witness:
  "(\<forall>d. dq_contents demo_dec d (dlq_write_all demo_enc [demo_letter] empty_dlq) = letters_on d (map request_record [demo_letter]))
    \<and> dlq_all_records demo_dec (dlq_write_all demo_enc [demo_letter] empty_dlq)
        = Inr (concat (map (\<lambda>d. letters_on d (map request_record [demo_letter])) (dq_dates (dlq_write_all demo_enc [demo_letter] empty_dlq))))
    \<and> set (dq_dates (dlq_write_all demo_enc [demo_letter] empty_dlq)) = {d. \<exists>w \<in> set [demo_letter]. date_of (fst w) = Inr d}
    \<and> sorted (dq_dates (dlq_write_all demo_enc [demo_letter] empty_dlq))"
  by (rule dlq_lossless) (use demo_letter_ok in \<open>simp, blast\<close>)

lemma counter_get_inc [simp]: "counter_get (counter_inc k c) x = counter_get c x + (if x = k then 1 else 0)"
  by (simp add: counter_get_def counter_inc_def)

lemma sum_counter_inc: "sum_list (map snd (counter_inc k c)) = sum_list (map snd c) + 1"
proof -
  have "sum_list (map snd (dict_set k (case map_of c k of None \<Rightarrow> v | Some n \<Rightarrow> n + v) c)) = sum_list (map snd c) + v" for v :: nat
    by (induction c) auto
  from this [of 1] show ?thesis
    by (simp add: counter_inc_def counter_get_def split: option.splits)
qed

lemma count_by_get: "counter_get (count_by f rs) x = length (filter (\<lambda>r. f r = x) rs)"
proof -
  have "counter_get (fold (\<lambda>r. counter_inc (f r)) rs c) x = counter_get c x + length (filter (\<lambda>r. f r = x) rs)" for c
    by (induction rs arbitrary: c) auto
  from this [of "[]"] show ?thesis by (simp add: count_by_def) (simp add: counter_get_def)
qed

lemma count_by_sum: "sum_list (map snd (count_by f rs)) = length rs"
proof -
  have "sum_list (map snd (fold (\<lambda>r. counter_inc (f r)) rs c)) = sum_list (map snd c) + length rs" for c
    by (induction rs arbitrary: c) (auto simp: sum_counter_inc)
  from this [of "[]"] show ?thesis by (simp add: count_by_def)
qed

lemma map_res_rev: "map_res f xs = Inr ys \<Longrightarrow> map_res f (rev xs) = Inr (rev ys)"
  by (simp add: map_res_Inr_iff list_all2_rev)

lemma map_res_take: "map_res f xs = Inr ys \<Longrightarrow> map_res f (take n xs) = Inr (take n ys)"
  by (simp add: map_res_Inr_iff)

text \<open>
  \<^verbatim>\<open>iter_recent\<close> is the reverse of the chronological scan cut to the limit: whenever the whole queue can be
  read, it yields the newest records, newest first, at most \<open>limit\<close> of them and none for a limit that is
  not positive.
\<close>

theorem dlq_recent_newest_first:
  assumes "dlq_all_records dec q = Inr rs"
  shows "dlq_iter_recent dec limit q = Inr (take (nat limit) (rev rs))"
proof -
  have "concat (map (\<lambda>d. rev (nonblank_lines (dq_text q d))) (rev (dq_dates q)))
      = rev (concat (map (\<lambda>d. nonblank_lines (dq_text q d)) (dq_dates q)))"
    by (simp add: rev_concat rev_map o_def)
  then show ?thesis
    using map_res_take [OF map_res_rev [OF assms [unfolded dlq_all_records_def dq_dates_def [symmetric]]], of "nat limit"]
    by (simp add: dlq_iter_recent_def dq_dates_def [symmetric])
qed

theorem dlq_recent_newest_first_witness:
  "dlq_iter_recent demo_dec 5 (dlq_write_all demo_enc [demo_letter] empty_dlq)
     = Inr (take (nat 5) (rev (concat (map (\<lambda>d. letters_on d (map request_record [demo_letter]))
         (dq_dates (dlq_write_all demo_enc [demo_letter] empty_dlq))))))"
proof (rule dlq_recent_newest_first)
  have "\<forall>w \<in> set [demo_letter]. \<exists>d. request_ok demo_enc demo_dec d w" using demo_letter_ok by auto
  from dlq_all_view [OF dlq_write_all_view [OF this dq_view_empty]]
  show "dlq_all_records demo_dec (dlq_write_all demo_enc [demo_letter] empty_dlq)
     = Inr (concat (map (\<lambda>d. letters_on d (map request_record [demo_letter])) (dq_dates (dlq_write_all demo_enc [demo_letter] empty_dlq))))"
    by simp
qed

text \<open>
  The statistics add up: the resolved and unresolved counts sum to the total, so do the counts per reason
  and the counts per stage, and each group's count is the number of records in it.
\<close>

theorem dlq_stats_consistent:
  assumes "dlq_stats_of dec q = Inr st"
  shows "\<exists>rs uids. dlq_all_records dec q = Inr rs \<and> resolved_event_uids q = Inr uids
    \<and> st_total st = length rs
    \<and> st_unresolved st = int (length (filter (\<lambda>r. PStr (dl_event_uid r) \<notin> set uids) rs))
    \<and> int (st_resolved st) + st_unresolved st = int (st_total st)
    \<and> sum_list (map snd (st_by_reason st)) = st_total st \<and> sum_list (map snd (st_by_stage st)) = st_total st
    \<and> (\<forall>x. counter_get (st_by_reason st) x = length (filter (\<lambda>r. dl_reason r = x) rs))
    \<and> (\<forall>x. counter_get (st_by_stage st) x = length (filter (\<lambda>r. dl_stage r = x) rs))"
proof -
  obtain uids rs where u: "resolved_event_uids q = Inr uids" and r: "dlq_all_records dec q = Inr rs"
    and st: "st = \<lparr>st_total = length rs, st_resolved = length (filter (is_resolved uids) rs),
            st_unresolved = int (length rs) - int (length (filter (is_resolved uids) rs)),
            st_by_reason = count_by dl_reason rs, st_by_stage = count_by dl_stage rs\<rparr>"
    using assms by (auto simp: dlq_stats_of_def bind_res_Inr_iff)
  have "length rs = length (filter (is_resolved uids) rs) + length (filter (\<lambda>r. PStr (dl_event_uid r) \<notin> set uids) rs)"
    using sum_length_filter_compl [of "is_resolved uids" rs] by (simp add: is_resolved_def)
  then show ?thesis
    using u r by (simp add: st count_by_get count_by_sum)
qed

lemma demo_letter_dates: "dq_dates (dlq_write_all demo_enc [demo_letter] empty_dlq) = [''1970-01-01'']"
  by (simp add: dq_dates_def demo_letter_def dlq_write_def empty_dlq_def demo_dates dlq_record_def Let_def)

lemma demo_letter_records:
  "dlq_all_records demo_dec (dlq_write_all demo_enc [demo_letter] empty_dlq) = Inr [request_record demo_letter]"
proof -
  have "\<forall>w \<in> set [demo_letter]. \<exists>d. request_ok demo_enc demo_dec d w" using demo_letter_ok by auto
  from dlq_all_view [OF dlq_write_all_view [OF this dq_view_empty], unfolded demo_letter_dates]
  show ?thesis by (simp add: letters_on_def request_record_ts) (simp add: demo_letter_def demo_dates)
qed

definition demo_stats :: dlq_stats where
  "demo_stats = \<lparr>st_total = 1, st_resolved = 0, st_unresolved = 1, st_by_reason = [(''grok_timeout'', 1)],
     st_by_stage = [(''parse'', 1)]\<rparr>"

lemma demo_stats_of: "dlq_stats_of demo_dec (dlq_write_all demo_enc [demo_letter] empty_dlq) = Inr demo_stats"
  by (simp only: dlq_stats_of_def demo_letter_records)
    (simp add: resolved_event_uids_def demo_letter_def dlq_write_def empty_dlq_def demo_dates dlq_record_def Let_def
      is_resolved_def count_by_def counter_inc_def counter_get_def demo_stats_def)

theorem dlq_stats_consistent_witness:
  "\<exists>rs uids. dlq_all_records demo_dec (dlq_write_all demo_enc [demo_letter] empty_dlq) = Inr rs
    \<and> resolved_event_uids (dlq_write_all demo_enc [demo_letter] empty_dlq) = Inr uids
    \<and> st_total demo_stats = length rs
    \<and> st_unresolved demo_stats = int (length (filter (\<lambda>r. PStr (dl_event_uid r) \<notin> set uids) rs))
    \<and> int (st_resolved demo_stats) + st_unresolved demo_stats = int (st_total demo_stats)
    \<and> sum_list (map snd (st_by_reason demo_stats)) = st_total demo_stats
    \<and> sum_list (map snd (st_by_stage demo_stats)) = st_total demo_stats
    \<and> (\<forall>x. counter_get (st_by_reason demo_stats) x = length (filter (\<lambda>r. dl_reason r = x) rs))
    \<and> (\<forall>x. counter_get (st_by_stage demo_stats) x = length (filter (\<lambda>r. dl_stage r = x) rs))"
  by (rule dlq_stats_consistent [OF demo_stats_of])

text \<open>The resolution file ends in a newline as long as only \<^verbatim>\<open>mark_resolved\<close> writes it.\<close>

definition resolved_terminated :: "dlq \<Rightarrow> bool" where
  "resolved_terminated q \<longleftrightarrow> (case dq_resolved q of None \<Rightarrow> True | Some t \<Rightarrow> (\<exists>s. t = s @ [CHR 0x0A]))"

lemma resolution_line_ok:
  assumes "json_ok (PDict (case detail of None \<Rightarrow> [] | Some d \<Rightarrow> d))"
  shows "resolved_uid (resolution_line now uid detail) = Inr (PStr uid)"
    and "\<forall>c \<in> set (resolution_line now uid detail). \<not> is_line_end c"
    and "py_strip (resolution_line now uid detail) \<noteq> []"
proof -
  let ?d = "PDict [(''event_uid'', PStr uid), (''resolved_ts_ns'', PInt now), (''detail'', PDict (case detail of None \<Rightarrow> [] | Some d \<Rightarrow> d))]"
  have ok: "json_ok ?d" using assms by (simp add: dict_ok_def)
  have "load_record (resolution_line now uid detail) = Inr ?d"
    unfolding load_record_def resolution_line_def json_loads_dumps [OF ok] by simp
  then show "resolved_uid (resolution_line now uid detail) = Inr (PStr uid)"
    by (simp add: resolved_uid_def py_item_def hashable_def)
  show "\<forall>c \<in> set (resolution_line now uid detail). \<not> is_line_end c"
    unfolding resolution_line_def using json_dumps_printable(1) [OF ok] printable_not_line_end by blast
  show "py_strip (resolution_line now uid detail) \<noteq> []"
    by (simp add: py_strip_Nil_iff resolution_line_def is_space_def)
qed

lemma nonblank_lines_append:
  assumes "\<forall>c \<in> set l. \<not> is_line_end c" "py_strip l \<noteq> []" "t = [] \<or> (\<exists>s. t = s @ [CHR 0x0A])"
  shows "nonblank_lines (t @ l @ [CHR 0x0A]) = nonblank_lines t @ [l]"
proof -
  have l: "splitlines_by is_line_end [] (l @ [CHR 0x0A]) = [l]"
    using assms(1) by (simp add: splitlines_plain is_line_end_def)
  from assms(3) show ?thesis
  proof
    assume "\<exists>s. t = s @ [CHR 0x0A]"
    then obtain s where "t = s @ [CHR 0x0A]" ..
    then show ?thesis
      using splitlines_append [of "[]" s "l @ [CHR 0x0A]"] l assms(2) by (simp add: nonblank_lines_def py_splitlines_def)
  qed (use l assms(2) in \<open>simp add: nonblank_lines_def py_splitlines_def\<close>)
qed

lemma marked_uids:
  assumes "resolved_terminated q" "resolved_event_uids q = Inr uids" "json_ok (PDict (case detail of None \<Rightarrow> [] | Some d \<Rightarrow> d))"
  shows "resolved_event_uids (mark_resolved now uid detail q) = Inr (uids @ [PStr uid]) \<and> resolved_terminated (mark_resolved now uid detail q)"
proof -
  let ?l = "resolution_line now uid detail"
  note l = resolution_line_ok [OF assms(3), of now uid]
  define t where "t = (case dq_resolved q of None \<Rightarrow> [] | Some t \<Rightarrow> t)"
  have t: "t = [] \<or> (\<exists>s. t = s @ [CHR 0x0A])" "map_res resolved_uid (nonblank_lines t) = Inr uids"
    using assms(1,2) by (auto simp: t_def resolved_terminated_def resolved_event_uids_def nonblank_lines_def
        py_splitlines_def split: option.splits)
  have "map_res resolved_uid (nonblank_lines t @ [?l]) = Inr (uids @ [PStr uid])"
    using t(2) l(1) by (simp add: map_res_Inr_iff list_all2_appendI)
  then show ?thesis
    using nonblank_lines_append [OF l(2,3) t(1)]
    by (simp add: resolved_event_uids_def mark_resolved_def resolved_terminated_def t_def [symmetric])
qed

text \<open>
  Resolving keeps the audit trail: \<^verbatim>\<open>mark_resolved\<close> changes no dead letter, adds exactly that event id to the
  resolved set, and from then on the entries of that event, and only those, are skipped by an iteration
  over the unresolved ones.
\<close>

theorem mark_resolved_keeps_trail:
  assumes "resolved_terminated q" and "resolved_event_uids q = Inr uids"
    and "json_ok (PDict (case detail of None \<Rightarrow> [] | Some d \<Rightarrow> d))"
    and "dlq_iter_entries dec reason since True q = Inr rs"
  shows "dlq_all_records dec (mark_resolved now uid detail q) = dlq_all_records dec q
    \<and> resolved_event_uids (mark_resolved now uid detail q) = Inr (uids @ [PStr uid])
    \<and> resolved_terminated (mark_resolved now uid detail q)
    \<and> dlq_iter_entries dec reason since True (mark_resolved now uid detail q)
        = Inr (filter (\<lambda>r. dl_event_uid r \<noteq> uid) rs)"
proof -
  let ?q = "mark_resolved now uid detail q"
  note m = marked_uids [OF assms(1-3), of now uid]
  have a: "dlq_all_records dec ?q = dlq_all_records dec q"
    by (simp add: dlq_all_records_def mark_resolved_def dq_text_def)
  obtain all where all: "dlq_all_records dec q = Inr all"
    and rs: "rs = filter (entry_selected reason since True uids) all"
    using assms(2,4) by (auto simp: dlq_iter_entries_def bind_res_Inr_iff)
  have "dlq_iter_entries dec reason since True ?q = Inr (filter (\<lambda>r. dl_event_uid r \<noteq> uid) rs)"
    by (auto simp: dlq_iter_entries_def m a all rs entry_selected_def is_resolved_def intro!: filter_cong)
  then show ?thesis using a m by blast
qed

theorem mark_resolved_keeps_trail_witness:
  "dlq_all_records demo_dec (mark_resolved 7 ''u1'' None (dlq_write_all demo_enc [demo_letter] empty_dlq))
     = dlq_all_records demo_dec (dlq_write_all demo_enc [demo_letter] empty_dlq)
    \<and> resolved_event_uids (mark_resolved 7 ''u1'' None (dlq_write_all demo_enc [demo_letter] empty_dlq)) = Inr ([] @ [PStr ''u1''])
    \<and> resolved_terminated (mark_resolved 7 ''u1'' None (dlq_write_all demo_enc [demo_letter] empty_dlq))
    \<and> dlq_iter_entries demo_dec None None True (mark_resolved 7 ''u1'' None (dlq_write_all demo_enc [demo_letter] empty_dlq))
        = Inr (filter (\<lambda>r. dl_event_uid r \<noteq> ''u1'') [request_record demo_letter])"
proof (rule mark_resolved_keeps_trail)
  have q: "dq_resolved (dlq_write_all demo_enc [demo_letter] empty_dlq) = None"
    by (simp add: demo_letter_def dlq_write_def empty_dlq_def demo_dates dlq_record_def Let_def)
  then show "resolved_terminated (dlq_write_all demo_enc [demo_letter] empty_dlq)"
    "resolved_event_uids (dlq_write_all demo_enc [demo_letter] empty_dlq) = Inr []"
    by (simp_all add: resolved_terminated_def resolved_event_uids_def)
  show "dlq_iter_entries demo_dec None None True (dlq_write_all demo_enc [demo_letter] empty_dlq) = Inr [request_record demo_letter]"
    unfolding dlq_iter_entries_def demo_letter_records using q
    by (simp add: resolved_event_uids_def entry_selected_def is_resolved_def)
qed (simp add: dict_ok_def)

end
