(* ===== verification/Integrity_Stage.thy ===== *)
theory Integrity_Stage
  imports Ledger Dlq
begin

text \<open>
  Sealing and proving: the per-event index (\<^verbatim>\<open>ulpf/integrity/index.py\<close>, one table of an SQLite file), the
  stage that batches raw-event hashes into the ledger (\<^verbatim>\<open>ulpf/integrity/stage.py\<close>) and the reconstruction
  of an event's inclusion proof from the stored artefacts (\<^verbatim>\<open>ulpf/integrity/proofs.py\<close>). The stage's timer
  task is the operation \<open>istage_tick\<close>, one poll of its loop; clock readings are arguments.
\<close>

section \<open>The index\<close>

text \<open>Rows in insertion order: event id, ledger sequence number, leaf index.\<close>

type_synonym event_index = "(string \<times> int \<times> int) list"

definition insert_or_replace :: "string \<Rightarrow> int \<times> int \<Rightarrow> event_index \<Rightarrow> event_index" where
  "insert_or_replace uid v ix = filter (\<lambda>r. fst r \<noteq> uid) ix @ [(uid, v)]"

definition index_add_batch :: "int \<Rightarrow> string list \<Rightarrow> event_index \<Rightarrow> event_index" where
  "index_add_batch ledger_seq event_uids ix =
     fold (\<lambda>(i, uid). insert_or_replace uid (ledger_seq, int i)) (enumerate 0 event_uids) ix"

definition index_lookup :: "event_index \<Rightarrow> string \<Rightarrow> (int \<times> int) option" where
  "index_lookup ix uid = map_of ix uid"

definition event_uids_for_batch :: "event_index \<Rightarrow> int \<Rightarrow> string list" where
  "event_uids_for_batch ix ledger_seq =
     map fst (sort_key (\<lambda>r. snd (snd r)) (filter (\<lambda>r. fst (snd r) = ledger_seq) ix))"

definition index_len :: "event_index \<Rightarrow> nat" where
  "index_len ix = length ix"

section \<open>The stage\<close>

record istage =
  is_enabled :: bool
  is_batch_size :: int
  is_timeout :: instant
  is_pending :: "(string \<times> bytes) list"
  is_started_at :: "instant option"
  is_watching :: bool
  is_closed :: bool
  is_ledger :: "ledger option"
  is_index :: "event_index option"
  is_index_open :: bool
  is_sealed :: "(string \<times> nat) list"

text \<open>The ledger and the index are the ones passed in, or opened on the ledger directory.\<close>

definition new_istage :: "bool \<Rightarrow> bool \<Rightarrow> int \<Rightarrow> instant \<Rightarrow> ledger \<Rightarrow> event_index \<Rightarrow> istage" where
  "new_istage cfg_enabled has_signer batch_size timeout lg ix =
     (let enabled = (cfg_enabled \<and> has_signer)
      in \<lparr>is_enabled = enabled, is_batch_size = max batch_size 1, is_timeout = max timeout 0, is_pending = [],
          is_started_at = None, is_watching = False, is_closed = False,
          is_ledger = (if enabled then Some lg else None), is_index = (if enabled then Some ix else None),
          is_index_open = enabled, is_sealed = []\<rparr>)"

definition istage_seal :: "digest_fn \<Rightarrow> int \<Rightarrow> string \<Rightarrow> istage \<Rightarrow> ledger_entry option res \<times> istage" where
  "istage_seal H clock trigger st =
     (if is_pending st = [] \<or> \<not> is_enabled st then (Inr None, st)
      else case (is_ledger st, is_index st) of
        (Some lg, Some ix) \<Rightarrow>
          (let pending = is_pending st; st1 = st\<lparr>is_pending := [], is_started_at := None\<rparr>;
               event_uids = map fst pending; leaves = map snd pending
           in case append_batch H clock leaves (Some event_uids) lg of
                Inl x \<Rightarrow> (Inl x, st1)
              | Inr (entry, lg') \<Rightarrow>
                  (Inr (Some entry), st1\<lparr>is_ledger := Some lg', is_index := Some (index_add_batch (seq entry) event_uids ix),
                     is_sealed := counter_inc trigger (is_sealed st1)\<rparr>))
      | _ \<Rightarrow> (Inl (AssertionError ''ledger and index''), st))"

definition ensure_watcher :: "istage \<Rightarrow> istage" where
  "ensure_watcher st = (if \<not> is_watching st \<and> 0 < is_timeout st \<and> \<not> is_closed st then st\<lparr>is_watching := True\<rparr> else st)"

definition istage_process :: "digest_fn \<Rightarrow> instant \<Rightarrow> int \<Rightarrow> raw_event \<Rightarrow> istage \<Rightarrow> raw_event res \<times> istage" where
  "istage_process H tick clock e st =
     (if \<not> is_enabled st \<or> is_closed st then (Inr e, st)
      else let st1 = ensure_watcher st;
               st2 = (if is_pending st1 = [] then st1\<lparr>is_started_at := Some tick\<rparr> else st1)
           in case bytes_fromhex (raw_hash e) of
                None \<Rightarrow> (Inl (ValueError ''non-hexadecimal number found''), st2)
              | Some leaf \<Rightarrow>
                  (let st3 = st2\<lparr>is_pending := is_pending st2 @ [(event_uid e, leaf)]\<rparr>
                   in if is_batch_size st3 \<le> int (length (is_pending st3))
                      then (let (r, st4) = istage_seal H clock ''size'' st3
                            in (case r of Inl x \<Rightarrow> Inl x | Inr _ \<Rightarrow> Inr e, st4))
                      else (Inr e, st3)))"

definition timed_out :: "instant \<Rightarrow> istage \<Rightarrow> bool" where
  "timed_out tick st \<longleftrightarrow> is_pending st \<noteq> []
     \<and> (case is_started_at st of None \<Rightarrow> False | Some t \<Rightarrow> is_timeout st \<le> tick - t)"

definition istage_tick :: "digest_fn \<Rightarrow> instant \<Rightarrow> int \<Rightarrow> istage \<Rightarrow> ledger_entry option res \<times> istage" where
  "istage_tick H tick clock st =
     (if is_watching st \<and> \<not> is_closed st \<and> timed_out tick st then istage_seal H clock ''timeout'' st else (Inr None, st))"

definition istage_flush :: "digest_fn \<Rightarrow> int \<Rightarrow> istage \<Rightarrow> ledger_entry option res \<times> istage" where
  "istage_flush H clock st =
     (let st1 = st\<lparr>is_closed := True, is_watching := False\<rparr>
      in if is_enabled st1
         then (let (r, st2) = istage_seal H clock ''shutdown'' st1
               in case r of Inl x \<Rightarrow> (Inl x, st2) | Inr en \<Rightarrow> (Inr en, st2\<lparr>is_index_open := False\<rparr>))
         else (Inr None, st1))"

definition pending_count :: "istage \<Rightarrow> nat" where
  "pending_count st = length (is_pending st)"

section \<open>Proof reconstruction\<close>

record event_proof =
  ep_event_uid :: string
  ep_found :: bool
  ep_hash_ok :: bool
  ep_proof_ok :: bool
  ep_signature_ok :: bool
  ep_ledger_seq :: "int option"
  ep_leaf_index :: "int option"
  ep_batch_root :: "bytes option"
  ep_chained_root :: "bytes option"
  ep_recorded_hash :: "bytes option"
  ep_recomputed_hash :: "bytes option"
  ep_path :: merkle_path
  ep_reason :: "string option"

definition event_proof_ok :: "event_proof \<Rightarrow> bool" where
  "event_proof_ok p \<longleftrightarrow> ep_found p \<and> ep_hash_ok p \<and> ep_proof_ok p \<and> ep_signature_ok p"

record proof_builder =
  pb_store :: raw_store
  pb_index :: "event_index option"
  pb_ledger :: "ledger option"
  pb_event_cache :: "(string \<times> raw_event) list option"
  pb_entries :: "(int \<times> ledger_entry) list"
  pb_leaf_cache :: "(int \<times> bytes list) list"

definition new_proof_builder ::
  "raw_store \<Rightarrow> event_index option \<Rightarrow> ledger option \<Rightarrow> (string \<times> raw_event) list option \<Rightarrow> proof_builder res" where
  "new_proof_builder store ix lg cache =
     bind_res (case lg of None \<Rightarrow> Inr [] | Some l \<Rightarrow> ledger_entries l) (\<lambda>es.
       Inr \<lparr>pb_store = store, pb_index = ix, pb_ledger = lg, pb_event_cache = cache,
            pb_entries = dict_update [] (map (\<lambda>e. (seq e, e)) es), pb_leaf_cache = []\<rparr>)"

definition zero_leaf :: bytes where
  "zero_leaf = replicate 32 0"

definition hex_bytes :: "string \<Rightarrow> bytes res" where
  "hex_bytes s = (case bytes_fromhex s of Some b \<Rightarrow> Inr b | None \<Rightarrow> Inl (ValueError ''non-hexadecimal number found''))"

fun read_leaves ::
  "instant \<Rightarrow> (string \<times> raw_event) list option \<Rightarrow> string list \<Rightarrow> raw_store \<Rightarrow> bytes list res \<times> raw_store" where
  "read_leaves now cache [] store = (Inr [], store)"
| "read_leaves now cache (uid # uids) store =
     (let (sibling, store1) = (case cache of Some c \<Rightarrow> (Inr (map_of c uid), store) | None \<Rightarrow> rs_read_by_uid now uid store)
      in case bind_res sibling (\<lambda>s. case s of None \<Rightarrow> Inr zero_leaf | Some e \<Rightarrow> hex_bytes (raw_hash e)) of
           Inl x \<Rightarrow> (Inl x, store1)
         | Inr leaf \<Rightarrow> (let (r, store2) = read_leaves now cache uids store1
                        in (bind_res r (\<lambda>ls. Inr (leaf # ls)), store2)))"

definition batch_leaves :: "instant \<Rightarrow> int \<Rightarrow> proof_builder \<Rightarrow> bytes list res \<times> proof_builder" where
  "batch_leaves now sq pb =
     (case map_of (pb_leaf_cache pb) sq of
        Some ls \<Rightarrow> (Inr ls, pb)
      | None \<Rightarrow>
          (case pb_index pb of
             None \<Rightarrow> (Inl (AssertionError ''index''), pb)
           | Some ix \<Rightarrow>
               (let (r, store') = read_leaves now (pb_event_cache pb) (event_uids_for_batch ix sq) (pb_store pb);
                    pb1 = pb\<lparr>pb_store := store'\<rparr>
                in case r of Inl x \<Rightarrow> (Inl x, pb1)
                   | Inr ls \<Rightarrow> (Inr ls, pb1\<lparr>pb_leaf_cache := dict_set sq ls (pb_leaf_cache pb)\<rparr>))))"

definition missing_proof :: "string \<Rightarrow> bool \<Rightarrow> bytes option \<Rightarrow> bytes option \<Rightarrow> string \<Rightarrow> event_proof" where
  "missing_proof uid hash_ok recorded recomputed reason =
     \<lparr>ep_event_uid = uid, ep_found = False, ep_hash_ok = hash_ok, ep_proof_ok = False, ep_signature_ok = False,
      ep_ledger_seq = None, ep_leaf_index = None, ep_batch_root = None, ep_chained_root = None,
      ep_recorded_hash = recorded, ep_recomputed_hash = recomputed, ep_path = [], ep_reason = Some reason\<rparr>"

definition locate :: "proof_builder \<Rightarrow> string \<Rightarrow> (int \<times> int \<times> ledger_entry) option" where
  "locate pb uid =
     (case pb_index pb of None \<Rightarrow> None
      | Some ix \<Rightarrow> (case index_lookup ix uid of None \<Rightarrow> None
          | Some (sq, i) \<Rightarrow> map_option (\<lambda>en. (sq, i, en)) (map_of (pb_entries pb) sq)))"

definition entry_signature_ok :: "proof_builder \<Rightarrow> ledger_entry \<Rightarrow> bool" where
  "entry_signature_ok pb en =
     (case pb_ledger pb of None \<Rightarrow> False
      | Some lg \<Rightarrow> (case lg_verifier lg of None \<Rightarrow> False | Some v \<Rightarrow> v (chained_root en) (signature en)))"

definition for_event :: "digest_fn \<Rightarrow> instant \<Rightarrow> string \<Rightarrow> proof_builder \<Rightarrow> event_proof res \<times> proof_builder" where
  "for_event H now uid pb =
     (let (found, store1) = rs_read_by_uid now uid (pb_store pb); pb1 = pb\<lparr>pb_store := store1\<rparr>
      in case found of
           Inl x \<Rightarrow> (Inl x, pb1)
         | Inr None \<Rightarrow> (Inr (missing_proof uid False None None ''event not found in the bronze store''), pb1)
         | Inr (Some e) \<Rightarrow>
             (case bind_res (hex_bytes (raw_hash e)) (\<lambda>rec. bind_res (hex_bytes (sha256_hex H (raw e))) (\<lambda>re. Inr (rec, re))) of
                Inl x \<Rightarrow> (Inl x, pb1)
              | Inr (recorded, recomputed) \<Rightarrow>
                  (case locate pb1 uid of
                     None \<Rightarrow> (Inr (missing_proof uid (recomputed = recorded) (Some recorded) (Some recomputed)
                                    ''no sealed ledger batch indexes this event''), pb1)
                   | Some (sq, leaf_index, entry) \<Rightarrow>
                       (let (leaves, pb2) = batch_leaves now sq pb1
                        in (bind_res leaves (\<lambda>ls. bind_res (merkle_proof H ls leaf_index) (\<lambda>path.
                              bind_res (verify_proof H recomputed path (batch_root entry)) (\<lambda>proof_ok.
                              Inr \<lparr>ep_event_uid = uid, ep_found = True, ep_hash_ok = (recomputed = recorded),
                                   ep_proof_ok = proof_ok, ep_signature_ok = entry_signature_ok pb2 entry,
                                   ep_ledger_seq = Some sq, ep_leaf_index = Some leaf_index,
                                   ep_batch_root = Some (batch_root entry), ep_chained_root = Some (chained_root entry),
                                   ep_recorded_hash = Some recorded, ep_recomputed_hash = Some recomputed,
                                   ep_path = path, ep_reason = None\<rparr>))), pb2)))))"

section \<open>Index lemmas\<close>

definition batch_rows :: "int \<Rightarrow> string list \<Rightarrow> event_index" where
  "batch_rows k uids = map (\<lambda>(i, u). (u, k, int i)) (enumerate 0 uids)"

lemma fst_batch_rows [simp]: "map fst (batch_rows k uids) = uids"
  by (simp add: batch_rows_def enumerate_eq_zip o_def case_prod_beta)

lemma set_fst_batch_rows [simp]: "fst ` set (batch_rows k uids) = set uids"
  by (metis fst_batch_rows list.set_map)

lemma fold_insert_or_replace:
  "distinct (map fst rows) \<Longrightarrow>
   fold (\<lambda>(u, v). insert_or_replace u v) rows ix = filter (\<lambda>r. fst r \<notin> fst ` set rows) ix @ rows"
proof (induction rows arbitrary: ix)
  case (Cons p rows)
  obtain u v where p: "p = (u, v)" by (cases p)
  have "u \<notin> fst ` set rows" using Cons.prems by (simp add: p)
  moreover have "filter (\<lambda>r. fst r \<noteq> u \<and> fst r \<notin> fst ` set rows) ix = filter (\<lambda>r. fst r \<notin> fst ` set (p # rows)) ix"
    by (intro filter_cong) (auto simp: p)
  ultimately show ?case
    using Cons by (simp add: p insert_or_replace_def)
qed simp

lemma index_add_batch_rows:
  assumes "distinct uids"
  shows "index_add_batch k uids ix = filter (\<lambda>r. fst r \<notin> set uids) ix @ batch_rows k uids"
proof -
  have "index_add_batch k uids ix = fold (\<lambda>(u, v). insert_or_replace u v) (batch_rows k uids) ix"
    by (simp add: index_add_batch_def batch_rows_def fold_map o_def case_prod_unfold)
  then show ?thesis using fold_insert_or_replace [of "batch_rows k uids" ix] assms by simp
qed

fun index_after :: "event_index \<Rightarrow> int \<Rightarrow> string list list \<Rightarrow> event_index" where
  "index_after ix k [] = ix"
| "index_after ix k (b # bs) = index_after (index_add_batch k b ix) (k + 1) bs"

lemma index_after_snoc: "index_after ix k (bs @ [b]) = index_add_batch (k + int (length bs)) b (index_after ix k bs)"
  by (induction bs arbitrary: ix k) (auto simp: add.assoc)

fun rows_after :: "int \<Rightarrow> string list list \<Rightarrow> event_index" where
  "rows_after k [] = []"
| "rows_after k (b # bs) = batch_rows k b @ rows_after (k + 1) bs"

lemma fst_rows_after [simp]: "map fst (rows_after k bs) = concat bs"
  by (induction bs arbitrary: k) auto

lemma index_after_rows:
  "distinct (concat bs) \<Longrightarrow> index_after ix k bs = filter (\<lambda>r. fst r \<notin> set (concat bs)) ix @ rows_after k bs"
proof (induction bs arbitrary: ix k)
  case (Cons b bs)
  have "filter (\<lambda>r. fst r \<notin> set (concat bs)) (batch_rows k b) = batch_rows k b"
  proof (rule filter_True, rule ballI)
    fix r assume "r \<in> set (batch_rows k b)"
    then have "fst r \<in> set b" by (metis image_eqI set_fst_batch_rows)
    then show "fst r \<notin> set (concat bs)" using Cons.prems by auto
  qed
  moreover have "filter (\<lambda>r. fst r \<notin> set (concat bs) \<and> fst r \<notin> set b) ix = filter (\<lambda>r. fst r \<notin> set (concat (b # bs))) ix"
    by (intro filter_cong) auto
  ultimately show ?case
    using Cons by (simp add: index_add_batch_rows conj_commute)
qed simp

lemma rows_after_seqs: "r \<in> set (rows_after k bs) \<Longrightarrow> k \<le> fst (snd r) \<and> fst (snd r) < k + int (length bs)"
  by (induction bs arbitrary: k) (fastforce simp: batch_rows_def)+

lemma filter_rows_after:
  "j < length bs \<Longrightarrow> filter (\<lambda>r. fst (snd r) = k + int j) (rows_after k bs) = batch_rows (k + int j) (bs ! j)"
proof (induction bs arbitrary: k j)
  case (Cons b bs)
  have own: "filter (\<lambda>r. fst (snd r) = k) (batch_rows k b) = batch_rows k b"
    by (rule filter_True) (auto simp: batch_rows_def)
  show ?case
  proof (cases j)
    case 0
    have "filter (\<lambda>r. fst (snd r) = k) (rows_after (k + 1) bs) = []"
      using rows_after_seqs [of _ "k + 1" bs] by (fastforce simp: filter_empty_conv)
    then show ?thesis using 0 own by simp
  next
    case (Suc i)
    have e: "k + int j = k + 1 + int i" using Suc by simp
    have "filter (\<lambda>r. fst (snd r) = k + 1 + int i) (batch_rows k b) = []"
      by (auto simp: filter_empty_conv batch_rows_def)
    then show ?thesis unfolding e using Cons.IH [of i "k + 1"] Cons.prems Suc by simp
  qed
qed simp

lemma sorted_batch_rows: "sorted (map (\<lambda>r. snd (snd r)) (batch_rows k uids))"
proof -
  have "map (\<lambda>r. snd (snd r)) (batch_rows k uids) = map int [0..<length uids]"
    by (rule nth_equalityI) (simp_all add: batch_rows_def nth_enumerate_eq)
  then show ?thesis by (simp add: sorted_iff_nth_mono)
qed

lemma uids_for_batch_after:
  assumes "distinct (concat bs)" and "\<forall>r \<in> set ix. fst (snd r) < k" and "j < length bs"
  shows "event_uids_for_batch (index_after ix k bs) (k + int j) = bs ! j"
proof -
  have "filter (\<lambda>r. fst (snd r) = k + int j) (filter (\<lambda>r. fst r \<notin> set (concat bs)) ix) = []"
    using assms(2) by (fastforce simp: filter_empty_conv)
  then show ?thesis
    using filter_rows_after [OF assms(3), of k]
    by (simp add: event_uids_for_batch_def index_after_rows [OF assms(1)] sort_key_id_if_sorted sorted_batch_rows)
qed

lemma mem_rows_after:
  "j < length bs \<Longrightarrow> i < length (bs ! j) \<Longrightarrow> (bs ! j ! i, k + int j, int i) \<in> set (rows_after k bs)"
proof (induction bs arbitrary: k j)
  case (Cons b bs)
  show ?case
  proof (cases j)
    case 0
    then show ?thesis
      using Cons.prems by (auto simp: batch_rows_def in_set_enumerate_eq image_iff intro!: bexI [of _ "(i, b ! i)"])
  next
    case (Suc m)
    then show ?thesis using Cons.IH [of m "k + 1"] Cons.prems by (simp add: algebra_simps)
  qed
qed simp

lemma index_lookup_after:
  assumes "distinct (concat bs)" and "j < length bs" and "i < length (bs ! j)"
  shows "index_lookup (index_after ix k bs) (bs ! j ! i) = Some (k + int j, int i)"
proof -
  let ?old = "filter (\<lambda>r. fst r \<notin> set (concat bs)) ix"
  have "map_of (rows_after k bs) (bs ! j ! i) = Some (k + int j, int i)"
    using mem_rows_after [OF assms(2,3)] assms(1) by (simp add: map_of_eq_Some_iff)
  moreover have "bs ! j ! i \<in> set (concat bs)" using assms(2,3) by (auto intro!: bexI [of _ "bs ! j"])
  then have "map_of ?old (bs ! j ! i) = None" by (auto simp: map_of_eq_None_iff)
  ultimately show ?thesis
    unfolding index_lookup_def index_after_rows [OF assms(1)] map_of_append map_add_def by simp
qed

section \<open>The stage's invariant\<close>

definition leaf_of :: "digest_fn \<Rightarrow> raw_event \<Rightarrow> string \<times> bytes" where
  "leaf_of H e = (event_uid e, H (raw e))"

text \<open>
  \<open>bs\<close> are the batches sealed so far, \<open>es\<close> the ledger entries they were sealed into (after the \<open>es0\<close> that
  were there before), \<open>evs\<close> the events taken in.
\<close>

definition stage_core ::
  "digest_fn \<Rightarrow> signer \<Rightarrow> ledger_entry list \<Rightarrow> event_index \<Rightarrow> raw_event list \<Rightarrow> (string \<times> bytes) list list
     \<Rightarrow> ledger_entry list \<Rightarrow> ledger \<Rightarrow> istage \<Rightarrow> bool" where
  "stage_core H sg es0 ix0 evs bs es lg st \<longleftrightarrow>
     is_enabled st \<and> is_ledger st = Some lg \<and> ledger_inv H sg (es0 @ es) lg
     \<and> is_index st = Some (index_after ix0 (int (length es0)) (map (map fst) bs))
     \<and> map batch_root es = map (\<lambda>b. merkle_root H (map snd b)) bs
     \<and> concat bs @ is_pending st = map (leaf_of H) evs \<and> [] \<notin> set bs"

lemma pending_leaves_ok:
  assumes "digest32 H" and "stage_core H sg es0 ix0 evs bs es lg st"
  shows "leaves_ok (map snd (is_pending st))"
proof -
  have "set (is_pending st) \<subseteq> set (map (leaf_of H) evs)"
    using assms(2) unfolding stage_core_def by (metis set_append sup_ge2)
  then show ?thesis
    using assms(1) by (fastforce simp: leaves_ok_def leaf_of_def digest32_def)
qed

lemma seal_core:
  assumes H: "digest32 H" and sg: "signer_ok sg" and core: "stage_core H sg es0 ix0 evs bs es lg st"
  shows "\<exists>r bs' es' lg' st'. istage_seal H clock trigger st = (Inr r, st') \<and> stage_core H sg es0 ix0 evs bs' es' lg' st'
     \<and> is_pending st' = [] \<and> is_batch_size st' = is_batch_size st \<and> is_closed st' = is_closed st
     \<and> bs' = (if is_pending st = [] then bs else bs @ [is_pending st])"
proof (cases "is_pending st = []")
  case True
  then show ?thesis using core by (auto simp: istage_seal_def)
next
  case False
  let ?p = "is_pending st"
  have inv: "ledger_inv H sg (es0 @ es) lg" and l: "is_ledger st = Some lg" and en: "is_enabled st"
    and ix: "is_index st = Some (index_after ix0 (int (length es0)) (map (map fst) bs))"
    using core by (simp_all add: stage_core_def)
  then obtain e lg' where a: "append_batch H clock (map snd ?p) (Some (map fst ?p)) lg = Inr (e, lg')"
    using append_batch_total by (fastforce simp: ledger_inv_def)
  have inv': "ledger_inv H sg (es0 @ (es @ [e])) lg'"
    using ledger_inv_append [OF H sg pending_leaves_ok [OF H core] inv a] by simp
  have "lg_signer lg = Some sg" using inv by (simp add: ledger_inv_def)
  note ap = append_batch_state [OF a this]
  have len: "length es = length bs" using core unfolding stage_core_def by (metis length_map)
  have e: "seq e = int (length es0) + int (length bs)"
    using inv len by (simp add: ap(2) ledger_inv_def)
  let ?st' = "st\<lparr>is_pending := [], is_started_at := None, is_ledger := Some lg',
     is_index := Some (index_add_batch (seq e) (map fst ?p) (index_after ix0 (int (length es0)) (map (map fst) bs))),
     is_sealed := counter_inc trigger (is_sealed st)\<rparr>"
  have s: "istage_seal H clock trigger st = (Inr (Some e), ?st')"
    using False en by (simp add: istage_seal_def l ix a Let_def)
  have "stage_core H sg es0 ix0 evs (bs @ [?p]) (es @ [e]) lg' ?st'"
    using core inv' False ap(3) by (simp add: stage_core_def e index_after_snoc)
  then show ?thesis using s False by fastforce
qed

text \<open>
  The stage over its life: it takes in events (whose hash is the digest of their bytes), polls its timer
  and is flushed at shutdown.
\<close>

inductive istage_run :: "digest_fn \<Rightarrow> istage \<Rightarrow> raw_event list \<Rightarrow> istage \<Rightarrow> bool" for H st0 where
  start: "istage_run H st0 [] st0"
| process: "istage_run H st0 evs st \<Longrightarrow> \<not> is_closed st \<Longrightarrow> evidence_ok H e \<Longrightarrow>
    istage_process H tick clock e st = (r, st') \<Longrightarrow> istage_run H st0 (evs @ [e]) st'"
| ticked: "istage_run H st0 evs st \<Longrightarrow> istage_tick H tick clock st = (r, st') \<Longrightarrow> istage_run H st0 evs st'"
| flushed: "istage_run H st0 evs st \<Longrightarrow> istage_flush H clock st = (r, st') \<Longrightarrow> istage_run H st0 evs st'"

definition stage_inv ::
  "digest_fn \<Rightarrow> signer \<Rightarrow> ledger_entry list \<Rightarrow> event_index \<Rightarrow> raw_event list \<Rightarrow> (string \<times> bytes) list list
     \<Rightarrow> ledger_entry list \<Rightarrow> ledger \<Rightarrow> istage \<Rightarrow> bool" where
  "stage_inv H sg es0 ix0 evs bs es lg st \<longleftrightarrow> stage_core H sg es0 ix0 evs bs es lg st
     \<and> int (length (is_pending st)) < is_batch_size st
     \<and> (\<forall>b \<in> set bs. int (length b) \<le> is_batch_size st) \<and> (is_closed st \<longrightarrow> is_pending st = [])"

lemma stage_core_cong:
  "stage_core H sg es0 ix0 evs bs es lg (st\<lparr>is_started_at := t\<rparr>) = stage_core H sg es0 ix0 evs bs es lg st"
  "stage_core H sg es0 ix0 evs bs es lg (st\<lparr>is_watching := w\<rparr>) = stage_core H sg es0 ix0 evs bs es lg st"
  "stage_core H sg es0 ix0 evs bs es lg (st\<lparr>is_closed := c\<rparr>) = stage_core H sg es0 ix0 evs bs es lg st"
  "stage_core H sg es0 ix0 evs bs es lg (st\<lparr>is_index_open := b\<rparr>) = stage_core H sg es0 ix0 evs bs es lg st"
  by (simp_all add: stage_core_def)

lemma stage_inv_seal:
  assumes "digest32 H" "signer_ok sg" "stage_core H sg es0 ix0 evs bs es lg st"
    and "int (length (is_pending st)) \<le> is_batch_size st" "1 \<le> is_batch_size st"
    and "\<forall>b \<in> set bs. int (length b) \<le> is_batch_size st"
  shows "\<exists>r bs' es' lg' st'. istage_seal H clock trigger st = (Inr r, st') \<and> stage_inv H sg es0 ix0 evs bs' es' lg' st'
     \<and> is_pending st' = [] \<and> is_closed st' = is_closed st"
proof -
  obtain r bs' es' lg' st' where s: "istage_seal H clock trigger st = (Inr r, st')"
    "stage_core H sg es0 ix0 evs bs' es' lg' st'" "is_pending st' = []" "is_batch_size st' = is_batch_size st"
    "is_closed st' = is_closed st" "bs' = (if is_pending st = [] then bs else bs @ [is_pending st])"
    using seal_core [OF assms(1-3)] by blast
  then have "stage_inv H sg es0 ix0 evs bs' es' lg' st'"
    using assms(4-6) by (auto simp: stage_inv_def)
  then show ?thesis using s by blast
qed

lemma stage_inv_process:
  assumes H: "digest32 H" and sg: "signer_ok sg" and inv: "stage_inv H sg es0 ix0 evs bs es lg st"
    and e: "evidence_ok H e" and o: "\<not> is_closed st" and p: "istage_process H tick clock e st = (r, st')"
  shows "r = Inr e \<and> (\<exists>bs' es' lg'. stage_inv H sg es0 ix0 (evs @ [e]) bs' es' lg' st')"
proof -
  have core: "stage_core H sg es0 ix0 evs bs es lg st" and size: "int (length (is_pending st)) < is_batch_size st"
    and bsz: "\<forall>b \<in> set bs. int (length b) \<le> is_batch_size st" and en: "is_enabled st"
    using inv by (auto simp: stage_inv_def stage_core_def)
  define st2 where "st2 = (if is_pending (ensure_watcher st) = [] then (ensure_watcher st)\<lparr>is_started_at := Some tick\<rparr> else ensure_watcher st)"
  have st2: "is_pending st2 = is_pending st" "is_batch_size st2 = is_batch_size st" "is_closed st2 = is_closed st"
    "stage_core H sg es0 ix0 evs bs es lg st2"
    using core by (simp_all add: st2_def ensure_watcher_def stage_core_cong)
  define st3 where "st3 = st2\<lparr>is_pending := is_pending st2 @ [leaf_of H e]\<rparr>"
  have core3: "stage_core H sg es0 ix0 (evs @ [e]) bs es lg st3"
    using st2(4) by (simp add: st3_def stage_core_def)
  have st3: "is_pending st3 = is_pending st @ [leaf_of H e]" "is_batch_size st3 = is_batch_size st" "\<not> is_closed st3"
    using st2 o by (simp_all add: st3_def)
  have p3: "istage_process H tick clock e st
      = (if is_batch_size st3 \<le> int (length (is_pending st3))
         then (let (r, st4) = istage_seal H clock ''size'' st3 in (case r of Inl x \<Rightarrow> Inl x | Inr _ \<Rightarrow> Inr e, st4))
         else (Inr e, st3))"
    unfolding istage_process_def Let_def st2_def [symmetric]
    using en o evidence_fromhex [OF e] by (simp add: st3_def leaf_of_def)
  show ?thesis
  proof (cases "is_batch_size st3 \<le> int (length (is_pending st3))")
    case True
    obtain r' bs' es' lg' st4 where "istage_seal H clock ''size'' st3 = (Inr r', st4)"
      "stage_inv H sg es0 ix0 (evs @ [e]) bs' es' lg' st4"
      using stage_inv_seal [OF H sg core3, of clock "''size''"] size bsz st3 by auto
    then show ?thesis using p p3 True by auto
  next
    case False
    then have "stage_inv H sg es0 ix0 (evs @ [e]) bs es lg st3"
      using core3 bsz st3 by (simp add: stage_inv_def)
    then show ?thesis using p p3 False by auto
  qed
qed

lemma stage_inv_tick:
  assumes "digest32 H" "signer_ok sg" "stage_inv H sg es0 ix0 evs bs es lg st" "istage_tick H tick clock st = (r, st')"
  shows "\<exists>bs' es' lg'. stage_inv H sg es0 ix0 evs bs' es' lg' st'"
proof (cases "is_watching st \<and> \<not> is_closed st \<and> timed_out tick st")
  case True
  then show ?thesis
    using assms stage_inv_seal [OF assms(1,2), of es0 ix0 evs bs es lg st clock "''timeout''"]
    by (fastforce simp: istage_tick_def stage_inv_def)
next
  case False
  then have "st' = st" using assms(4) unfolding istage_tick_def by (simp only: if_False prod.inject)
  then show ?thesis using assms(3) by blast
qed

lemma stage_inv_flush:
  assumes H: "digest32 H" and sg: "signer_ok sg" and inv: "stage_inv H sg es0 ix0 evs bs es lg st"
    and f: "istage_flush H clock st = (r, st')"
  shows "(\<exists>bs' es' lg'. stage_inv H sg es0 ix0 evs bs' es' lg' st') \<and> is_pending st' = [] \<and> is_closed st' \<and> (\<exists>en. r = Inr en)"
proof -
  let ?st = "st\<lparr>is_closed := True, is_watching := False\<rparr>"
  have core: "stage_core H sg es0 ix0 evs bs es lg ?st"
    using inv by (simp add: stage_inv_def stage_core_def)
  have en: "is_enabled st" using inv by (simp add: stage_inv_def stage_core_def)
  obtain r' bs' es' lg' st2 where s: "istage_seal H clock ''shutdown'' ?st = (Inr r', st2)"
    "stage_inv H sg es0 ix0 evs bs' es' lg' st2" "is_pending st2 = []" "is_closed st2 = is_closed ?st"
    using stage_inv_seal [OF H sg core, of clock "''shutdown''"] inv by (auto simp: stage_inv_def)
  have "st' = st2\<lparr>is_index_open := False\<rparr>" "r = Inr r'" using f s(1) en by (simp_all add: istage_flush_def)
  moreover from this have "stage_inv H sg es0 ix0 evs bs' es' lg' st'"
    using s(2) by (simp add: stage_inv_def stage_core_cong)
  ultimately show ?thesis using s(3,4) by auto
qed

lemma stage_run_inv:
  assumes "digest32 H" "signer_ok sg" "istage_run H st0 evs st" "stage_inv H sg es0 ix0 [] [] [] lg0 st0"
  shows "\<exists>bs es lg. stage_inv H sg es0 ix0 evs bs es lg st"
  using assms(3,4)
proof (induction rule: istage_run.induct)
  case start
  then show ?case by blast
next
  case (process evs st e tick clock r st')
  then show ?case using stage_inv_process [OF assms(1,2)] by blast
next
  case (ticked evs st tick clock r st')
  then show ?case using stage_inv_tick [OF assms(1,2)] by blast
next
  case (flushed evs st clock r st')
  then show ?case using stage_inv_flush [OF assms(1,2)] by blast
qed

lemma new_istage_inv:
  assumes "ledger_inv H sg es0 lg"
  shows "stage_inv H sg es0 ix0 [] [] [] lg (new_istage True True n t lg ix0)"
  using assms by (simp add: stage_inv_def stage_core_def new_istage_def Let_def)

section \<open>Properties of sealing\<close>

text \<open>
  C10. No raw hash is lost or sealed twice: whatever the interleaving of events, timer polls and the shutdown
  flush, the sealed batches followed by the pending ones are exactly the events taken in, in order; the
  batches are nonempty and no larger than the batch size, fewer than that are pending, none after a flush;
  each batch's Merkle root is the root in its ledger entry, in order; and the ledger verifies.
\<close>

theorem sealing_partitions_events:
  assumes "digest32 H" and "signer_ok sg" and "ledger_inv H sg es0 lg0"
    and "istage_run H (new_istage True True n t lg0 ix0) evs st"
  shows "\<exists>bs es lg. concat bs @ is_pending st = map (leaf_of H) evs
    \<and> (\<forall>b \<in> set bs. b \<noteq> [] \<and> int (length b) \<le> is_batch_size st)
    \<and> int (length (is_pending st)) < is_batch_size st \<and> (is_closed st \<longrightarrow> is_pending st = [])
    \<and> is_ledger st = Some lg \<and> ledger_entries lg = Inr (es0 @ es)
    \<and> map batch_root es = map (\<lambda>b. merkle_root H (map snd b)) bs
    \<and> verify_chain H lg = Inr (True, None)"
proof -
  obtain bs es lg where inv: "stage_inv H sg es0 ix0 evs bs es lg st"
    using stage_run_inv [OF assms(1,2,4) new_istage_inv [OF assms(3)]] by blast
  then have core: "stage_core H sg es0 ix0 evs bs es lg st" by (simp add: stage_inv_def)
  have l: "ledger_inv H sg (es0 @ es) lg" using core by (simp add: stage_core_def)
  have "\<forall>e \<in> set (es0 @ es). entry_wf e" using l chain_ok_wf unfolding ledger_inv_def by blast
  then have "ledger_entries lg = Inr (es0 @ es)"
    unfolding ledger_entries_def ledger_inv_lines [OF l] by (rule map_res_from_json)
  moreover have "verify_chain H lg = Inr (True, None)"
    using l by (intro verify_chain_ok [OF _ ledger_inv_lines [OF l]]) (auto simp: ledger_inv_def)
  ultimately show ?thesis
    using inv core unfolding stage_inv_def stage_core_def by blast
qed

definition sealed_event :: raw_event where
  "sealed_event = demo_event ''u1'' 1709251199999999999"

definition seal_demo_stage :: istage where
  "seal_demo_stage = new_istage True True 1 0 (fresh_ledger null_signer) []"

lemma seal_demo_run:
  "istage_run sha256 seal_demo_stage ([] @ [sealed_event]) (snd (istage_process sha256 0 0 sealed_event seal_demo_stage))"
  by (rule istage_run.process [OF istage_run.start, where r = "fst (istage_process sha256 0 0 sealed_event seal_demo_stage)"])
    (simp_all add: seal_demo_stage_def new_istage_def Let_def demo_event_def sealed_event_def)

theorem sealing_partitions_events_witness:
  "\<exists>bs es lg. concat bs @ is_pending (snd (istage_process sha256 0 0 sealed_event seal_demo_stage))
        = map (leaf_of sha256) ([] @ [sealed_event])
    \<and> is_ledger (snd (istage_process sha256 0 0 sealed_event seal_demo_stage)) = Some lg
    \<and> ledger_entries lg = Inr ([] @ es)
    \<and> map batch_root es = map (\<lambda>b. merkle_root sha256 (map snd b)) bs
    \<and> verify_chain sha256 lg = Inr (True, None)"
  using sealing_partitions_events [OF sha.digest32_axioms null_signer_ok fresh_ledger_inv seal_demo_run [unfolded seal_demo_stage_def],
        folded seal_demo_stage_def] by blast

section \<open>Proof reconstruction is complete\<close>

lemma rs_read_flush: "rs_read_by_uid now uid s = (r, s') \<Longrightarrow> s' = rs_flush now s"
  by (simp add: rs_read_by_uid_def Let_def)

text \<open>A store in which reading an id gives the event of the list that has it.\<close>

definition store_has :: "raw_event list \<Rightarrow> raw_store \<Rightarrow> bool" where
  "store_has evs s \<longleftrightarrow> rs_sound s \<and> (\<forall>now. \<forall>e \<in> set evs. fst (rs_read_by_uid now (event_uid e) s) = Inr (Some e))"

lemma rs_flush_idem: "rs_partitions d (rs_flush now (rs_flush now' s)) = rs_partitions d (rs_flush now s)"
  by (simp add: rs_partitions_def rs_flush_def)

lemma store_has_flush:
  assumes "store_has evs s"
  shows "store_has evs (rs_flush now s)"
proof -
  obtain V where v: "rs_view s V" using assms by (auto simp: store_has_def rs_sound_def)
  note v' = rs_view_flush [OF v, of now]
  have "fst (rs_read_by_uid n uid (rs_flush now s)) = fst (rs_read_by_uid n uid s)" for n uid
    unfolding rs_read_view [OF v] rs_read_view [OF v'] rs_flush_idem ..
  then show ?thesis
    using assms v' unfolding store_has_def rs_sound_def by auto
qed

lemma read_leaves_stored:
  assumes "store_has evs s" and "\<forall>e \<in> set bevs. e \<in> set evs \<and> evidence_ok H e"
  shows "\<exists>s'. read_leaves now None (map event_uid bevs) s = (Inr (map (\<lambda>e. H (raw e)) bevs), s') \<and> store_has evs s'"
  using assms
proof (induction bevs arbitrary: s)
  case (Cons e bevs)
  have r: "rs_read_by_uid now (event_uid e) s = (Inr (Some e), rs_flush now s)"
    using Cons.prems by (simp add: store_has_def prod_eq_iff) (simp add: rs_read_by_uid_def Let_def)
  have h: "hex_bytes (raw_hash e) = Inr (H (raw e))"
    using evidence_fromhex [of H e] Cons.prems(2) by (simp add: hex_bytes_def)
  show ?case
    using Cons.IH [OF store_has_flush [OF Cons.prems(1), of now]] Cons.prems(2) by (auto simp: r h)
qed simp

lemma chain_ok_nth:
  "chain_ok H v i prev es \<Longrightarrow> j < length es \<Longrightarrow> seq (es ! j) = i + int j \<and> v (chained_root (es ! j)) (signature (es ! j))"
proof (induction es arbitrary: i prev j)
  case (Cons e es)
  then show ?case by (cases j) fastforce+
qed simp

lemma entries_by_seq:
  assumes "chain_ok H v 0 prev es" and "j < length es"
  shows "map_of (dict_update [] (map (\<lambda>e. (seq e, e)) es)) (int j) = Some (es ! j)"
proof -
  have "map seq es = map int [0..<length es]"
    using chain_ok_nth [OF assms(1)] by (intro nth_equalityI) auto
  then have d: "distinct (map fst (rev (map (\<lambda>e. (seq e, e)) es)))"
    by (simp add: rev_map [symmetric] o_def distinct_map)
  have "(int j, es ! j) \<in> set (rev (map (\<lambda>e. (seq e, e)) es))"
    using chain_ok_nth [OF assms] assms(2) by force
  then show ?thesis
    using map_of_eq_Some_iff [OF d] by (simp add: map_of_dict_update)
qed

lemma verify_proof_loop:
  assumes "i < length ls" and "ls ! i = leaf"
  shows "\<exists>path. merkle_proof H ls (int i) = Inr path \<and> verify_proof H leaf path (merkle_root H ls) = Inr True"
proof -
  have "ls \<noteq> []" using assms(1) by auto
  then show ?thesis
    using assms fold_path_proof_loop [of i ls H]
    by (simp add: merkle_proof_def verify_proof_def merkle_root_def)
qed

lemma run_evidence: "istage_run H st0 evs st \<Longrightarrow> e \<in> set evs \<Longrightarrow> evidence_ok H e"
  by (induction rule: istage_run.induct) auto

lemma events_of_leaves:
  assumes "set xs \<subseteq> leaf_of H ` set evs"
  shows "\<exists>bevs. map (leaf_of H) bevs = xs \<and> set bevs \<subseteq> set evs"
proof -
  have "xs \<in> map (leaf_of H) ` lists (set evs)"
    using assms lists_image [of "leaf_of H" "set evs"] by (auto simp: lists_eq_set)
  then show ?thesis by (auto simp: lists_eq_set)
qed

lemma store_has_inj:
  assumes "store_has evs s" and "x \<in> set evs" and "y \<in> set evs" and "event_uid x = event_uid y"
  shows "x = y"
  using assms unfolding store_has_def by (metis option.inject sum.inject(2))

lemma store_has_same:
  assumes "store_has evs s" and "map event_uid xs = map event_uid ys" and "set xs \<subseteq> set evs" and "set ys \<subseteq> set evs"
  shows "xs = ys"
proof (rule nth_equalityI)
  show len: "length xs = length ys" using assms(2) by (metis length_map)
  fix i assume "i < length xs"
  then show "xs ! i = ys ! i" using store_has_inj [OF assms(1)] assms(2-4) len by (metis nth_map nth_mem subsetD)
qed

lemma read_leaves_cached:
  assumes "\<forall>e \<in> set evs. map_of c (event_uid e) = Some e" and "\<forall>e \<in> set bevs. e \<in> set evs \<and> evidence_ok H e"
  shows "read_leaves now (Some c) (map event_uid bevs) s = (Inr (map (\<lambda>e. H (raw e)) bevs), s)"
  using assms(2)
proof (induction bevs)
  case (Cons e bevs)
  have h: "hex_bytes (raw_hash e) = Inr (H (raw e))" using evidence_fromhex [of H e] Cons.prems by (simp add: hex_bytes_def)
  show ?case using Cons assms(1) h by simp
qed simp

text \<open>
  What a run of the stage, sealed to its end, has put on disk for an event: where the index and the ledger have it,
  and which events make up its batch. A proof builder is sound for such a run when it was built on these artefacts and
  what it has cached is theirs.
\<close>

definition batch_of :: "digest_fn \<Rightarrow> raw_event list \<Rightarrow> event_index \<Rightarrow> int \<Rightarrow> raw_event list \<Rightarrow> bool" where
  "batch_of H evs ix k bevs \<longleftrightarrow> event_uids_for_batch ix k = map event_uid bevs \<and> (\<forall>x \<in> set bevs. x \<in> set evs \<and> evidence_ok H x)"

definition sealed_at ::
  "digest_fn \<Rightarrow> verifier \<Rightarrow> raw_event list \<Rightarrow> event_index \<Rightarrow> (int \<times> ledger_entry) list \<Rightarrow> raw_event \<Rightarrow> int \<Rightarrow> nat \<Rightarrow> ledger_entry
     \<Rightarrow> raw_event list \<Rightarrow> bool" where
  "sealed_at H v evs ix entries e k i en bevs \<longleftrightarrow>
     index_lookup ix (event_uid e) = Some (k, int i) \<and> map_of entries k = Some en
     \<and> batch_root en = merkle_root H (map (\<lambda>e. H (raw e)) bevs) \<and> batch_of H evs ix k bevs
     \<and> i < length bevs \<and> bevs ! i = e \<and> v (chained_root en) (signature en)"

definition builder_ok ::
  "digest_fn \<Rightarrow> raw_event list \<Rightarrow> event_index \<Rightarrow> ledger \<Rightarrow> (int \<times> ledger_entry) list \<Rightarrow> proof_builder \<Rightarrow> bool" where
  "builder_ok H evs ix lg entries pb \<longleftrightarrow>
     pb_index pb = Some ix \<and> pb_ledger pb = Some lg \<and> pb_entries pb = entries \<and> store_has evs (pb_store pb)
     \<and> (case pb_event_cache pb of None \<Rightarrow> True | Some c \<Rightarrow> \<forall>e \<in> set evs. map_of c (event_uid e) = Some e)
     \<and> (\<forall>k ls bevs. map_of (pb_leaf_cache pb) k = Some ls \<and> batch_of H evs ix k bevs \<longrightarrow> ls = map (\<lambda>e. H (raw e)) bevs)"

lemma batch_leaves_ok:
  assumes ok: "builder_ok H evs ix lg entries pb" and b: "batch_of H evs ix k bevs"
  shows "\<exists>pb'. batch_leaves now k pb = (Inr (map (\<lambda>e. H (raw e)) bevs), pb') \<and> builder_ok H evs ix lg entries pb'"
proof (cases "map_of (pb_leaf_cache pb) k")
  case (Some ls)
  then show ?thesis using assms by (auto simp: batch_leaves_def builder_ok_def)
next
  case None
  have bevs: "event_uids_for_batch ix k = map event_uid bevs" "\<forall>x \<in> set bevs. x \<in> set evs \<and> evidence_ok H x"
    using b by (auto simp: batch_of_def)
  have st: "store_has evs (pb_store pb)" using ok by (simp add: builder_ok_def)
  have "\<exists>s'. read_leaves now (pb_event_cache pb) (map event_uid bevs) (pb_store pb) = (Inr (map (\<lambda>e. H (raw e)) bevs), s') \<and> store_has evs s'"
  proof (cases "pb_event_cache pb")
    case None
    then show ?thesis using read_leaves_stored [OF st bevs(2), of now] by simp
  next
    case (Some c)
    then show ?thesis using ok read_leaves_cached [of evs c bevs H now "pb_store pb"] bevs(2) st by (simp add: builder_ok_def)
  qed
  then obtain s' where s': "read_leaves now (pb_event_cache pb) (map event_uid bevs) (pb_store pb) = (Inr (map (\<lambda>e. H (raw e)) bevs), s')"
    "store_has evs s'" by blast
  let ?pb' = "pb\<lparr>pb_store := s', pb_leaf_cache := dict_set k (map (\<lambda>e. H (raw e)) bevs) (pb_leaf_cache pb)\<rparr>"
  have cache: "ls = map (\<lambda>e. H (raw e)) cevs" if c: "map_of (pb_leaf_cache ?pb') j = Some ls" "batch_of H evs ix j cevs" for j ls cevs
  proof (cases "j = k")
    case True
    then have "cevs = bevs" using store_has_same [OF st, of cevs bevs] c(2) bevs by (auto simp: batch_of_def)
    then show ?thesis using c(1) True by simp
  next
    case False
    then show ?thesis using c ok by (simp add: builder_ok_def)
  qed
  have "builder_ok H evs ix lg entries ?pb'"
    unfolding builder_ok_def
  proof (intro conjI allI impI)
    fix j ls cevs assume "map_of (pb_leaf_cache ?pb') j = Some ls \<and> batch_of H evs ix j cevs"
    then show "ls = map (\<lambda>e. H (raw e)) cevs" using cache by blast
  qed (use ok s'(2) in \<open>simp_all add: builder_ok_def\<close>)
  moreover have "batch_leaves now k pb = (Inr (map (\<lambda>e. H (raw e)) bevs), ?pb')"
    using None ok s'(1) bevs(1) by (simp add: batch_leaves_def builder_ok_def)
  ultimately show ?thesis by blast
qed

lemma for_event_sealed:
  assumes ok: "builder_ok H evs ix lg entries pb" and ver: "lg_verifier lg = Some v"
    and e: "e \<in> set evs" and at: "sealed_at H v evs ix entries e k i en bevs"
  shows "\<exists>p pb'. for_event H now (event_uid e) pb = (Inr p, pb') \<and> event_proof_ok p \<and> builder_ok H evs ix lg entries pb'"
proof -
  have st: "store_has evs (pb_store pb)" using ok by (simp add: builder_ok_def)
  have r: "rs_read_by_uid now (event_uid e) (pb_store pb) = (Inr (Some e), rs_flush now (pb_store pb))"
    using st e by (simp add: store_has_def prod_eq_iff) (simp add: rs_read_by_uid_def Let_def)
  let ?pb1 = "pb\<lparr>pb_store := rs_flush now (pb_store pb)\<rparr>"
  have ok1: "builder_ok H evs ix lg entries ?pb1"
    using ok store_has_flush [OF st] unfolding builder_ok_def by simp
  have b: "batch_of H evs ix k bevs" and i: "i < length bevs" "bevs ! i = e" using at by (auto simp: sealed_at_def)
  then have ev: "evidence_ok H e" by (auto simp: batch_of_def dest: nth_mem)
  have h: "hex_bytes (raw_hash e) = Inr (H (raw e))" "hex_bytes (sha256_hex H (raw e)) = Inr (H (raw e))"
    using evidence_fromhex [OF ev] ev by (simp_all add: hex_bytes_def evidence_ok_def)
  have l: "locate ?pb1 (event_uid e) = Some (k, int i, en)"
    using ok at by (simp add: locate_def builder_ok_def sealed_at_def)
  obtain pb2 where bl: "batch_leaves now k ?pb1 = (Inr (map (\<lambda>e. H (raw e)) bevs), pb2)" and ok2: "builder_ok H evs ix lg entries pb2"
    using batch_leaves_ok [OF ok1 b] by blast
  obtain path where path: "merkle_proof H (map (\<lambda>e. H (raw e)) bevs) (int i) = Inr path"
    "verify_proof H (H (raw e)) path (batch_root en) = Inr True"
    using verify_proof_loop [of i "map (\<lambda>e. H (raw e)) bevs" "H (raw e)" H] i at by (auto simp: sealed_at_def)
  have sig: "entry_signature_ok pb2 en" using ok2 ver at by (simp add: entry_signature_ok_def builder_ok_def sealed_at_def)
  show ?thesis
    unfolding for_event_def Let_def r by (simp add: h l bl path event_proof_ok_def sig ok2)
qed

lemma sealed_run:
  assumes "digest32 H" and "signer_ok sg" and "ledger_inv H sg es0 lg0"
    and "\<forall>r \<in> set ix0. fst (snd r) < int (length es0)"
    and "istage_run H (new_istage True True n t lg0 ix0) evs st" and "is_pending st = []"
    and "distinct (map event_uid evs)"
  obtains lg ix es where "is_ledger st = Some lg" and "is_index st = Some ix" and "ledger_inv H sg es lg"
    and "ledger_entries lg = Inr es"
    and "\<And>e. e \<in> set evs \<Longrightarrow> \<exists>k i en bevs. sealed_at H (snd sg) evs ix (dict_update [] (map (\<lambda>e. (seq e, e)) es)) e k i en bevs"
proof -
  obtain bs es lg where inv: "stage_inv H sg es0 ix0 evs bs es lg st"
    using stage_run_inv [OF assms(1,2,5) new_istage_inv [OF assms(3)]] by blast
  then have l: "ledger_inv H sg (es0 @ es) lg" "is_ledger st = Some lg"
    and roots: "map batch_root es = map (\<lambda>b. merkle_root H (map snd b)) bs"
    and c: "concat bs = map (leaf_of H) evs"
    and ix: "is_index st = Some (index_after ix0 (int (length es0)) (map (map fst) bs))"
    using assms(6) by (auto simp: stage_inv_def stage_core_def)
  have chain: "chain_ok H (snd sg) 0 genesis_root (es0 @ es)" and ver: "lg_verifier lg = Some (snd sg)"
    using l(1) by (simp_all add: ledger_inv_def)
  have len: "length es = length bs" using roots by (metis length_map)
  have "concat (map (map fst) bs) = map event_uid evs"
    using c by (simp add: map_concat [symmetric] leaf_of_def)
  then have dist: "distinct (concat (map (map fst) bs))" using assms(7) by simp
  let ?ix = "index_after ix0 (int (length es0)) (map (map fst) bs)"
  have wf: "\<forall>x \<in> set (es0 @ es). entry_wf x" using chain chain_ok_wf by blast
  have entries: "ledger_entries lg = Inr (es0 @ es)"
    unfolding ledger_entries_def ledger_inv_lines [OF l(1)] by (rule map_res_from_json [OF wf])
  have "\<exists>k i en bevs. sealed_at H (snd sg) evs ?ix (dict_update [] (map (\<lambda>e. (seq e, e)) (es0 @ es))) e k i en bevs"
    if e: "e \<in> set evs" for e
  proof -
    have "leaf_of H e \<in> set (concat bs)" using e unfolding c by simp
    then obtain j i where ji: "j < length bs" "i < length (bs ! j)" "bs ! j ! i = leaf_of H e"
      by (auto simp: in_set_conv_nth)
    have "set (bs ! j) \<subseteq> leaf_of H ` set evs"
      using c ji(1) by (metis UN_upper list.set_map nth_mem set_concat)
    then obtain bevs where bevs: "map (leaf_of H) bevs = bs ! j" "set bevs \<subseteq> set evs"
      using events_of_leaves by blast
    have leaves: "map snd (bs ! j) = map (\<lambda>e. H (raw e)) bevs" "map fst (bs ! j) = map event_uid bevs"
      by (simp_all add: bevs(1) [symmetric] leaf_of_def o_def)
    let ?k = "int (length es0) + int j"
    have lk: "index_lookup (index_after ix0 (int (length es0)) (map (map fst) bs)) (event_uid e) = Some (?k, int i)"
      using index_lookup_after [OF dist, of j i ix0 "int (length es0)"] ji by (simp add: leaf_of_def)
    have uids: "event_uids_for_batch (index_after ix0 (int (length es0)) (map (map fst) bs)) ?k = map event_uid bevs"
      using uids_for_batch_after [OF dist assms(4), of j] ji(1) leaves(2) by simp
    let ?en = "(es0 @ es) ! (length es0 + j)"
    have en: "map_of (dict_update [] (map (\<lambda>e. (seq e, e)) (es0 @ es))) ?k = Some ?en"
      using entries_by_seq [OF chain, of "length es0 + j"] ji(1) len by simp
    have "batch_root ?en = (map batch_root es) ! j" using ji(1) len by simp
    then have root: "batch_root ?en = merkle_root H (map (\<lambda>e. H (raw e)) bevs)"
      unfolding roots using ji(1) leaves(1) by simp
    have i: "i < length bevs" using ji(2) bevs(1) [symmetric] by simp
    then have "leaf_of H (bevs ! i) = leaf_of H e" using ji(3) unfolding bevs(1) [symmetric] by simp
    then have "event_uid (bevs ! i) = event_uid e" by (simp add: leaf_of_def)
    then have "bevs ! i = e" using bevs(2) i assms(7) e by (metis distinct_map inj_onD nth_mem subsetD)
    moreover have "\<forall>x \<in> set bevs. x \<in> set evs \<and> evidence_ok H x" using bevs(2) run_evidence [OF assms(5)] by blast
    moreover have "snd sg (chained_root ?en) (signature ?en)"
      using chain_ok_nth [OF chain, of "length es0 + j"] ji(1) len by simp
    ultimately show ?thesis using lk en root uids i unfolding sealed_at_def batch_of_def by blast
  qed
  then show thesis using that [OF l(2) ix l(1) entries] by blast
qed

lemma new_builder_ok:
  assumes "idx = Some ix" and "ledger_entries lg = Inr es" and "store_has evs store"
    and "case cache of None \<Rightarrow> True | Some c \<Rightarrow> \<forall>e \<in> set evs. map_of c (event_uid e) = Some e"
    and "new_proof_builder store idx (Some lg) cache = Inr pb"
  shows "builder_ok H evs ix lg (dict_update [] (map (\<lambda>e. (seq e, e)) es)) pb"
  using assms by (auto simp: new_proof_builder_def builder_ok_def)

text \<open>
  C1. The whole evidence chain, end to end: take any run of the integrity stage from an opened ledger (any
  batch size, timer polls anywhere), with distinct event ids, until nothing is pending (as after the shutdown
  flush); then for every event taken in that the bronze store still returns, the proof builder finds it,
  its bytes re-hash to the recorded hash, its Merkle path verifies against the batch root in the ledger,
  and that entry's signature is valid.
\<close>

theorem event_proof_end_to_end:
  assumes "digest32 H" and "signer_ok sg" and "ledger_inv H sg es0 lg0"
    and "\<forall>r \<in> set ix0. fst (snd r) < int (length es0)"
    and "istage_run H (new_istage True True n t lg0 ix0) evs st" and "is_pending st = []"
    and "distinct (map event_uid evs)" and "store_has evs store"
    and "new_proof_builder store (is_index st) (is_ledger st) None = Inr pb" and "e \<in> set evs"
  shows "\<exists>p. fst (for_event H now (event_uid e) pb) = Inr p \<and> event_proof_ok p"
proof -
  obtain lg ix es where run: "is_ledger st = Some lg" "is_index st = Some ix" "ledger_inv H sg es lg" "ledger_entries lg = Inr es"
    and at: "\<And>e. e \<in> set evs \<Longrightarrow> \<exists>k i en bevs. sealed_at H (snd sg) evs ix (dict_update [] (map (\<lambda>e. (seq e, e)) es)) e k i en bevs"
    using sealed_run [OF assms(1-7)] by blast
  have "builder_ok H evs ix lg (dict_update [] (map (\<lambda>e. (seq e, e)) es)) pb"
    using new_builder_ok [OF refl run(4) assms(8), of None ix pb] assms(9) run by simp
  moreover have "lg_verifier lg = Some (snd sg)" using run(3) by (simp add: ledger_inv_def)
  moreover obtain k i en bevs where "sealed_at H (snd sg) evs ix (dict_update [] (map (\<lambda>e. (seq e, e)) es)) e k i en bevs"
    using at [OF assms(10)] by blast
  ultimately obtain p pb' where "for_event H now (event_uid e) pb = (Inr p, pb')" "event_proof_ok p"
    using for_event_sealed assms(10) by blast
  then show ?thesis by simp
qed

lemma demo_store_has: "store_has [sealed_event] demo_store"
proof -
  have d: "distinct (map event_uid (written demo_writes))"
    by (simp add: demo_writes_def demo_event_def make_raw_event_def)
  have "sealed_event \<in> set (written demo_writes)" by (simp add: demo_writes_def sealed_event_def)
  then show ?thesis
    using written_find(1) [OF demo_store_written d] written_all(1) [OF demo_store_written]
    by (auto simp: store_has_def rs_sound_def rs_read_view [OF written_all(1) [OF demo_store_written]])
qed

definition sealed_stage :: istage where
  "sealed_stage = snd (istage_process sha256 0 0 sealed_event seal_demo_stage)"

lemma evidence_sealed: "evidence_ok sha256 sealed_event"
  by (simp add: sealed_event_def demo_event_def)

lemma sealed_stage_state: "is_pending sealed_stage = [] \<and> (\<exists>lg. is_ledger sealed_stage = Some lg \<and> (\<exists>es. ledger_entries lg = Inr es))"
proof -
  have i: "stage_inv sha256 null_signer [] [] [] [] [] (fresh_ledger null_signer) seal_demo_stage"
    unfolding seal_demo_stage_def by (rule new_istage_inv [OF fresh_ledger_inv])
  have p: "istage_process sha256 0 0 sealed_event seal_demo_stage
      = (fst (istage_process sha256 0 0 sealed_event seal_demo_stage), sealed_stage)"
    by (simp add: sealed_stage_def)
  have "\<not> is_closed seal_demo_stage" by (simp add: seal_demo_stage_def new_istage_def Let_def)
  then obtain bs es lg where inv: "stage_inv sha256 null_signer [] [] ([] @ [sealed_event]) bs es lg sealed_stage"
    using stage_inv_process [OF sha.digest32_axioms null_signer_ok i evidence_sealed _ p] by blast
  have "is_batch_size sealed_stage = 1"
    using evidence_fromhex [OF evidence_sealed]
    by (simp add: sealed_stage_def istage_process_def seal_demo_stage_def new_istage_def Let_def ensure_watcher_def
        istage_seal_def append_batch_def fresh_ledger_def null_signer_def)
  then have "is_pending sealed_stage = []" using inv by (simp add: stage_inv_def)
  moreover have l: "ledger_inv sha256 null_signer es lg" "is_ledger sealed_stage = Some lg"
    using inv by (simp_all add: stage_inv_def stage_core_def)
  moreover have "ledger_entries lg = Inr es"
    unfolding ledger_entries_def ledger_inv_lines [OF l(1)]
    using l(1) chain_ok_wf unfolding ledger_inv_def by (intro map_res_from_json) blast
  ultimately show ?thesis by blast
qed

definition sealed_builder :: proof_builder where
  "sealed_builder = projr (new_proof_builder demo_store (is_index sealed_stage) (is_ledger sealed_stage) None)"

lemma sealed_builder_new:
  "new_proof_builder demo_store (is_index sealed_stage) (is_ledger sealed_stage) None = Inr sealed_builder"
  using sealed_stage_state by (auto simp: sealed_builder_def new_proof_builder_def)

theorem event_proof_end_to_end_witness:
  "\<exists>p. fst (for_event sha256 5 (event_uid sealed_event) sealed_builder) = Inr p \<and> event_proof_ok p"
proof (rule event_proof_end_to_end [OF sha.digest32_axioms null_signer_ok fresh_ledger_inv _
      seal_demo_run [unfolded seal_demo_stage_def]])
  show "new_proof_builder demo_store (is_index (snd (istage_process sha256 0 0 sealed_event (new_istage True True 1 0 (fresh_ledger null_signer) []))))
      (is_ledger (snd (istage_process sha256 0 0 sealed_event (new_istage True True 1 0 (fresh_ledger null_signer) [])))) None = Inr sealed_builder"
    using sealed_builder_new by (simp only: sealed_stage_def seal_demo_stage_def)
  show "is_pending (snd (istage_process sha256 0 0 sealed_event (new_istage True True 1 0 (fresh_ledger null_signer) []))) = []"
    using sealed_stage_state by (simp only: sealed_stage_def seal_demo_stage_def)
qed (simp_all add: demo_store_has)

end
