(* ===== verification/Intake.thy ===== *)
theory Intake
  imports Events
begin

text \<open>
  The hand-off between listeners and workers: the bounded queue of \<^verbatim>\<open>ulpf/ingest/queue.py\<close>, the in-process
  buffer over it (\<^verbatim>\<open>ulpf/ingest/buffer/in_process.py\<close>) and the Kafka buffer
  (\<^verbatim>\<open>ulpf/ingest/buffer/kafka_buffer.py\<close>). A wait for room is the pair of the attempt (\<open>put_attempt\<close>) and what
  ends it: room (\<open>put_resume\<close>) or the timeout (\<open>put_timeout\<close>). Of the Kafka client the model has the calls
  made to it (messages sent, offsets committed) and what it returns (a record, as an argument).
\<close>

section \<open>The bounded queue\<close>

datatype drop_policy = Block | ToDlq

datatype put_outcome = Enqueued | DeadLettered

record 'a bqueue =
  bq_max :: int
  bq_policy :: drop_policy
  bq_has_handler :: bool
  bq_items :: "'a list"
  bq_unfinished :: nat
  bq_gauge :: nat
  bq_waits :: nat
  bq_overflow :: "'a list"

definition new_bqueue :: "int \<Rightarrow> drop_policy \<Rightarrow> bool \<Rightarrow> 'a bqueue res" where
  "new_bqueue max_size policy has_handler =
     (if policy = ToDlq \<and> \<not> has_handler then Inl (ValueError ''drop_policy='dlq' requires a dlq_handler'')
      else Inr \<lparr>bq_max = max_size, bq_policy = policy, bq_has_handler = has_handler, bq_items = [], bq_unfinished = 0,
                bq_gauge = 0, bq_waits = 0, bq_overflow = []\<rparr>)"

definition bq_len :: "'a bqueue \<Rightarrow> nat" where
  "bq_len q = length (bq_items q)"

definition bq_depth :: "'a bqueue \<Rightarrow> nat \<times> 'a bqueue" where
  "bq_depth q = (bq_len q, q\<lparr>bq_gauge := bq_len q\<rparr>)"

text \<open>\<^verbatim>\<open>asyncio.Queue.full\<close>: a size that is not positive means no bound.\<close>

definition bq_full :: "'a bqueue \<Rightarrow> bool" where
  "bq_full q \<longleftrightarrow> 0 < bq_max q \<and> bq_max q \<le> int (bq_len q)"

definition bq_push :: "'a \<Rightarrow> 'a bqueue \<Rightarrow> 'a bqueue" where
  "bq_push x q = q\<lparr>bq_items := bq_items q @ [x], bq_unfinished := bq_unfinished q + 1\<rparr>"

text \<open>The fast path, or the start of a wait (\<open>None\<close>).\<close>

definition put_attempt :: "'a \<Rightarrow> 'a bqueue \<Rightarrow> put_outcome option \<times> 'a bqueue" where
  "put_attempt x q =
     (if bq_full q then (None, q\<lparr>bq_waits := bq_waits q + 1\<rparr>)
      else (Some Enqueued, snd (bq_depth (bq_push x q))))"

definition put_resume :: "'a \<Rightarrow> 'a bqueue \<Rightarrow> (put_outcome \<times> 'a bqueue) option" where
  "put_resume x q = (if bq_full q then None else Some (Enqueued, snd (bq_depth (bq_push x q))))"

definition put_timeout :: "'a \<Rightarrow> 'a bqueue \<Rightarrow> put_outcome res \<times> 'a bqueue" where
  "put_timeout x q =
     (case bq_policy q of
        Block \<Rightarrow> (Inl (IngestError ''intake queue full; backpressure timeout exceeded''), q)
      | ToDlq \<Rightarrow> if \<not> bq_has_handler q then (Inl (AssertionError ''dlq_handler''), q)
                 else (Inr DeadLettered, q\<lparr>bq_overflow := bq_overflow q @ [x]\<rparr>))"

definition bq_get :: "'a bqueue \<Rightarrow> ('a \<times> 'a bqueue) option" where
  "bq_get q = (case bq_items q of [] \<Rightarrow> None | x # xs \<Rightarrow> Some (x, snd (bq_depth (q\<lparr>bq_items := xs\<rparr>))))"

definition bq_task_done :: "'a bqueue \<Rightarrow> 'a bqueue res" where
  "bq_task_done q =
     (if bq_unfinished q = 0 then Inl (ValueError ''task_done() called too many times'')
      else Inr (q\<lparr>bq_unfinished := bq_unfinished q - 1\<rparr>))"

definition bq_join_ready :: "'a bqueue \<Rightarrow> bool" where
  "bq_join_ready q \<longleftrightarrow> bq_unfinished q = 0"

lemmas bq_defs = bq_len_def bq_depth_def bq_full_def bq_push_def put_attempt_def put_resume_def put_timeout_def
  bq_get_def bq_task_done_def

text \<open>Within capacity, and at least as many unfinished items as queued ones.\<close>

definition bq_ok :: "'a bqueue \<Rightarrow> bool" where
  "bq_ok q \<longleftrightarrow> (0 < bq_max q \<longrightarrow> int (bq_len q) \<le> bq_max q) \<and> bq_len q \<le> bq_unfinished q
     \<and> (bq_policy q = ToDlq \<longrightarrow> bq_has_handler q)"

lemma bq_ok_attempt: "bq_ok q \<Longrightarrow> put_attempt x q = (r, q') \<Longrightarrow> bq_ok q'"
  by (auto simp: bq_ok_def bq_defs split: if_splits)

lemma bq_ok_resume: "bq_ok q \<Longrightarrow> put_resume x q = Some (r, q') \<Longrightarrow> bq_ok q'"
  by (auto simp: bq_ok_def bq_defs split: if_splits)

lemma bq_ok_timeout: "bq_ok q \<Longrightarrow> put_timeout x q = (r, q') \<Longrightarrow> bq_ok q'"
  by (auto simp: bq_ok_def bq_defs split: if_splits drop_policy.splits)

lemma bq_ok_get: "bq_ok q \<Longrightarrow> bq_get q = Some (x, q') \<Longrightarrow> bq_ok q' \<and> bq_len q' < bq_unfinished q'"
  by (auto simp: bq_ok_def bq_defs split: list.splits)

lemma bq_ok_new: "new_bqueue m p h = Inr q \<Longrightarrow> bq_ok q"
  by (auto simp: new_bqueue_def bq_ok_def bq_len_def split: if_splits)

text \<open>
  Backpressure never drops silently and never overfills: an offered item is queued exactly when there is
  room, otherwise the offer waits with the queue unchanged; a wait that ends with room queues the item at
  the end; a wait that times out either raises or hands the item to the dead-letter handler, and leaves the
  queued items alone. The capacity is never exceeded.
\<close>

theorem backpressure_accounts_for_item:
  assumes "bq_ok q"
  shows "(if int (bq_len q) < bq_max q \<or> bq_max q \<le> 0
          then fst (put_attempt x q) = Some Enqueued \<and> bq_items (snd (put_attempt x q)) = bq_items q @ [x]
          else fst (put_attempt x q) = None \<and> bq_items (snd (put_attempt x q)) = bq_items q)
    \<and> bq_ok (snd (put_attempt x q))
    \<and> (case put_resume x q of None \<Rightarrow> bq_full q
        | Some (r, q') \<Rightarrow> r = Enqueued \<and> bq_items q' = bq_items q @ [x] \<and> bq_ok q')
    \<and> (case put_timeout x q of
          (Inl err, q') \<Rightarrow> bq_policy q = Block \<and> q' = q
        | (Inr r, q') \<Rightarrow> r = DeadLettered \<and> bq_overflow q' = bq_overflow q @ [x] \<and> bq_items q' = bq_items q \<and> bq_ok q')"
  using assms by (auto simp: bq_ok_def bq_defs split: drop_policy.splits)

definition demo_queue :: "nat bqueue" where
  "demo_queue = \<lparr>bq_max = 2, bq_policy = ToDlq, bq_has_handler = True, bq_items = [7, 8], bq_unfinished = 3,
     bq_gauge = 2, bq_waits = 0, bq_overflow = []\<rparr>"

theorem backpressure_accounts_for_item_witness:
  "put_timeout 9 demo_queue = (Inr DeadLettered, demo_queue\<lparr>bq_overflow := [9]\<rparr>)
    \<and> fst (put_attempt 9 demo_queue) = None \<and> bq_items (snd (put_attempt 9 demo_queue)) = [7, 8]"
proof -
  have "bq_ok demo_queue" by (simp add: bq_ok_def bq_len_def demo_queue_def)
  from backpressure_accounts_for_item [OF this, of 9]
  have "fst (put_attempt 9 demo_queue) = None \<and> bq_items (snd (put_attempt 9 demo_queue)) = bq_items demo_queue"
    by (simp add: bq_len_def demo_queue_def split: if_splits)
  then show ?thesis by (simp add: put_timeout_def demo_queue_def)
qed

section \<open>The in-process buffer\<close>

record 'a in_process =
  ip_queue :: "'a bqueue"
  ip_published :: nat
  ip_consumed :: nat

definition ip_put :: "'a \<Rightarrow> 'a in_process \<Rightarrow> 'a in_process option" where
  "ip_put e b =
     (case put_attempt e (ip_queue b) of
        (Some _, q) \<Rightarrow> Some (b\<lparr>ip_queue := q, ip_published := ip_published b + 1\<rparr>)
      | (None, q) \<Rightarrow> None)"

definition ip_get :: "'a in_process \<Rightarrow> ('a \<times> 'a in_process) option" where
  "ip_get b = map_option (\<lambda>(e, q). (e, b\<lparr>ip_queue := q, ip_consumed := ip_consumed b + 1\<rparr>)) (bq_get (ip_queue b))"

definition ip_ack :: "'a \<Rightarrow> 'a in_process \<Rightarrow> 'a in_process res" where
  "ip_ack e b = bind_res (bq_task_done (ip_queue b)) (\<lambda>q. Inr (b\<lparr>ip_queue := q\<rparr>))"

definition ip_depth :: "'a in_process \<Rightarrow> nat" where
  "ip_depth b = fst (bq_depth (ip_queue b))"

section \<open>The Kafka buffer\<close>

text \<open>The wire format is pydantic's JSON of the event, so its two directions are arguments.\<close>

record kafka_record =
  kr_topic :: string
  kr_partition :: int
  kr_offset :: int
  kr_value :: string

type_synonym kafka_commit = "(string \<times> int) \<times> int"

record kafka_producer =
  kp_topic :: string
  kp_started :: bool
  kp_sent :: "(string \<times> string \<times> string) list"

definition kp_publish :: "(raw_event \<Rightarrow> string) \<Rightarrow> raw_event \<Rightarrow> kafka_producer \<Rightarrow> kafka_producer res" where
  "kp_publish ser e p =
     (if \<not> kp_started p then Inl (RuntimeError ''KafkaProducerBuffer.start() has not been called'')
      else Inr (p\<lparr>kp_sent := kp_sent p @ [(kp_topic p, ser e, source_id e)]\<rparr>))"

record kafka_consumer =
  kc_started :: bool
  kc_pending :: "(string \<times> kafka_record) list"
  kc_commits :: "kafka_commit list"

definition kc_start :: "kafka_consumer \<Rightarrow> kafka_consumer" where
  "kc_start c = c\<lparr>kc_started := True\<rparr>"

definition kc_stop :: "kafka_consumer \<Rightarrow> kafka_consumer" where
  "kc_stop c = c\<lparr>kc_pending := []\<rparr>"

definition kc_get :: "(string \<Rightarrow> raw_event res) \<Rightarrow> kafka_record \<Rightarrow> kafka_consumer \<Rightarrow> (raw_event \<times> kafka_consumer) res" where
  "kc_get deser r c =
     (if \<not> kc_started c then Inl (RuntimeError ''KafkaConsumerBuffer.start() has not been called'')
      else bind_res (deser (kr_value r)) (\<lambda>e. Inr (e, c\<lparr>kc_pending := dict_set (event_uid e) r (kc_pending c)\<rparr>)))"

definition kc_ack :: "raw_event \<Rightarrow> kafka_consumer \<Rightarrow> kafka_consumer" where
  "kc_ack e c =
     (let c' = c\<lparr>kc_pending := dict_pop (event_uid e) (kc_pending c)\<rparr>
      in case map_of (kc_pending c) (event_uid e) of
           None \<Rightarrow> c'
         | Some r \<Rightarrow> if \<not> kc_started c then c'
                     else c'\<lparr>kc_commits := kc_commits c @ [((kr_topic r, kr_partition r), kr_offset r + 1)]\<rparr>)"

definition kc_depth :: "kafka_consumer \<Rightarrow> nat" where
  "kc_depth c = length (kc_pending c)"

text \<open>\<open>ends\<close> and \<open>positions\<close> are the broker's answers per assigned partition; \<open>None\<close> stands for a broker error.\<close>

definition kc_lag :: "(int \<times> int) list option \<Rightarrow> bool \<Rightarrow> kafka_consumer \<Rightarrow> int option" where
  "kc_lag answers assigned c =
     (if \<not> kc_started c \<or> \<not> assigned then None
      else map_option (\<lambda>ps. sum_list (map (\<lambda>(e, p). max 0 (e - p)) ps)) answers)"

text \<open>One round of \<^verbatim>\<open>consume_into\<close>: get, hand on, acknowledge; a handler that raises leaves the offset uncommitted.\<close>

definition consume_round ::
  "(string \<Rightarrow> raw_event res) \<Rightarrow> (raw_event \<Rightarrow> 'h \<Rightarrow> 'h res) \<Rightarrow> kafka_record \<Rightarrow> kafka_consumer \<times> 'h \<Rightarrow> (kafka_consumer \<times> 'h) res" where
  "consume_round deser handler r = (\<lambda>(c, h).
     bind_res (kc_get deser r c) (\<lambda>(e, c1). bind_res (handler e h) (\<lambda>h1. Inr (kc_ack e c1, h1))))"

section \<open>What a consumer buffer promises\<close>

text \<open>
  Taking an event puts one more in flight, acknowledging it puts one less; \<open>fresh\<close> says the event is not
  already in flight and \<open>held\<close> that it is.
\<close>

locale consumer_buffer =
  fixes inflight :: "'s \<Rightarrow> nat"
    and take :: "'i \<Rightarrow> 's \<Rightarrow> ('e \<times> 's) option"
    and ack :: "'e \<Rightarrow> 's \<Rightarrow> 's"
    and fresh :: "'i \<Rightarrow> 's \<Rightarrow> bool"
    and held :: "'e \<Rightarrow> 's \<Rightarrow> bool"
    and inv :: "'s \<Rightarrow> bool"
  assumes take_inflight: "inv s \<Longrightarrow> fresh i s \<Longrightarrow> take i s = Some (e, s') \<Longrightarrow> inflight s' = inflight s + 1 \<and> held e s' \<and> inv s'"
    and ack_inflight: "inv s \<Longrightarrow> held e s \<Longrightarrow> inflight (ack e s) + 1 = inflight s \<and> inv (ack e s)"
begin

lemma take_ack_balanced:
  "inv s \<Longrightarrow> fresh i s \<Longrightarrow> take i s = Some (e, s') \<Longrightarrow> inflight (ack e s') = inflight s \<and> inv (ack e s')"
  using take_inflight ack_inflight by fastforce

text \<open>A consumer that acknowledges each event it takes ends with as many in flight as it began with.\<close>

fun consume :: "'i list \<Rightarrow> 's \<Rightarrow> 's" where
  "consume [] s = s"
| "consume (i # is) s = (case take i s of None \<Rightarrow> s | Some (e, s') \<Rightarrow> consume is (ack e s'))"

lemma consume_balanced:
  assumes "\<And>i s. inv s \<Longrightarrow> fresh i s"
  shows "inv s \<Longrightarrow> inflight (consume is s) = inflight s"
  using take_ack_balanced assms by (induction "is" arbitrary: s) (auto split: option.splits)

end

definition ip_inflight :: "'a in_process \<Rightarrow> nat" where
  "ip_inflight b = bq_unfinished (ip_queue b) - bq_len (ip_queue b)"

definition ip_acked :: "'a \<Rightarrow> 'a in_process \<Rightarrow> 'a in_process" where
  "ip_acked e b = (case ip_ack e b of Inl _ \<Rightarrow> b | Inr b' \<Rightarrow> b')"

interpretation ipbuf: consumer_buffer ip_inflight "\<lambda>(_ :: unit) b. ip_get b" ip_acked "\<lambda>_ _. True"
  "\<lambda>e b. bq_len (ip_queue b) < bq_unfinished (ip_queue b)" "\<lambda>b. bq_ok (ip_queue b)"
proof (unfold_locales, goal_cases)
  case (1 s i e s')
  then obtain q where q: "bq_get (ip_queue s) = Some (e, q)" "s' = s\<lparr>ip_queue := q, ip_consumed := ip_consumed s + 1\<rparr>"
    by (auto simp: ip_get_def)
  then have "bq_unfinished q = bq_unfinished (ip_queue s)" "bq_len (ip_queue s) = Suc (bq_len q)"
    by (auto simp: bq_defs split: list.splits)
  then show ?case using bq_ok_get [OF 1(1) q(1)] by (simp add: ip_inflight_def q(2) Suc_diff_Suc)
next
  case (2 s e)
  then show ?case
    by (auto simp: ip_acked_def ip_ack_def bq_task_done_def ip_inflight_def bq_len_def bq_ok_def)
qed

definition kc_take :: "(string \<Rightarrow> raw_event res) \<Rightarrow> kafka_record \<Rightarrow> kafka_consumer \<Rightarrow> (raw_event \<times> kafka_consumer) option" where
  "kc_take deser r c = (case kc_get deser r c of Inl _ \<Rightarrow> None | Inr x \<Rightarrow> Some x)"

definition kc_fresh :: "(string \<Rightarrow> raw_event res) \<Rightarrow> kafka_record \<Rightarrow> kafka_consumer \<Rightarrow> bool" where
  "kc_fresh deser r c = (case deser (kr_value r) of Inl _ \<Rightarrow> True | Inr e \<Rightarrow> event_uid e \<notin> fst ` set (kc_pending c))"

lemma length_dict_set_new: "k \<notin> fst ` set d \<Longrightarrow> length (dict_set k v d) = Suc (length d)"
  by (induction d) auto

lemma length_dict_pop: "k \<in> fst ` set d \<Longrightarrow> Suc (length (dict_pop k d)) = length d"
proof (induction d)
  case (Cons p d)
  then show ?case by (cases p; cases "fst p = k") simp_all
qed simp

interpretation kcbuf: consumer_buffer kc_depth "kc_take deser" kc_ack "kc_fresh deser"
  "\<lambda>e c. event_uid e \<in> fst ` set (kc_pending c)" "\<lambda>c. dict_ok (kc_pending c)" for deser
proof (unfold_locales, goal_cases)
  case (1 s i e s')
  then have "deser (kr_value i) = Inr e" "s' = s\<lparr>kc_pending := dict_set (event_uid e) i (kc_pending s)\<rparr>"
    by (auto simp: kc_take_def kc_get_def bind_res_Inr_iff split: sum.splits if_splits)
  then show ?case
    using 1 by (simp add: kc_depth_def kc_fresh_def length_dict_set_new keys_dict_set)
next
  case (2 s e)
  then show ?case
    using length_dict_pop [of "event_uid e" "kc_pending s"]
    by (auto simp: kc_ack_def kc_depth_def Let_def split: option.splits)
qed

text \<open>
  Kafka offsets are committed by acknowledgement only, and each exactly once: acknowledging the event a
  record decoded to commits that record's next offset, a second acknowledgement commits nothing, and
  taking events commits nothing.
\<close>

theorem kafka_commit_once:
  assumes "kc_get deser r c = Inr (e, c')"
  shows "kc_commits c' = kc_commits c
    \<and> kc_commits (kc_ack e c') = kc_commits c @ [((kr_topic r, kr_partition r), kr_offset r + 1)]
    \<and> (dict_ok (kc_pending c) \<longrightarrow> kc_commits (kc_ack e (kc_ack e c')) = kc_commits (kc_ack e c'))"
proof -
  have c': "c' = c\<lparr>kc_pending := dict_set (event_uid e) r (kc_pending c)\<rparr>" and st: "kc_started c"
    using assms by (auto simp: kc_get_def bind_res_Inr_iff split: if_splits)
  have "map_of (dict_pop (event_uid e) (dict_set (event_uid e) r (kc_pending c))) (event_uid e) = None"
    if "dict_ok (kc_pending c)"
    using that by (simp add: map_of_dict_pop)
  then show ?thesis by (simp add: kc_ack_def c' st Let_def)
qed

definition demo_raw :: raw_event where
  "demo_raw = make_raw_event sha256 ''u1'' 0 [1, 2] ''fw'' Udp None"

theorem kafka_commit_once_witness:
  "kc_commits (kc_ack demo_raw (kc_ack demo_raw
      \<lparr>kc_started = True, kc_pending = [(''u1'', \<lparr>kr_topic = ''raw'', kr_partition = 3, kr_offset = 41, kr_value = ''x''\<rparr>)], kc_commits = []\<rparr>))
     = [((''raw'', 3), 42)]"
proof -
  have "kc_get (\<lambda>_. Inr demo_raw) \<lparr>kr_topic = ''raw'', kr_partition = 3, kr_offset = 41, kr_value = ''x''\<rparr>
      \<lparr>kc_started = True, kc_pending = [], kc_commits = []\<rparr> = Inr (demo_raw,
      \<lparr>kc_started = True, kc_pending = [(''u1'', \<lparr>kr_topic = ''raw'', kr_partition = 3, kr_offset = 41, kr_value = ''x''\<rparr>)], kc_commits = []\<rparr>)"
    by (simp add: kc_get_def demo_raw_def make_raw_event_def)
  from kafka_commit_once [OF this] show ?thesis by simp
qed

end
