(* ===== verification/Pipeline.thy ===== *)
theory Pipeline
  imports Integrity_Stage Intake
begin

text \<open>
  The orchestrator (\<^verbatim>\<open>ulpf/core/pipeline.py\<close>): running one event through the stages, the shared-queue worker
  pool with its drain-then-sentinel shutdown, and the partition-aware workers. Stage objects live in a
  world \<open>'w\<close> that the stages read and update. The interleaving of producers, workers and the shutdown is the
  step relation \<open>pipe_step\<close>.
\<close>

section \<open>Stages\<close>

datatype event = RawE raw_event | ParsedE parsed_event | NormE normalized_event

fun is_raw_kind :: "event \<Rightarrow> bool" where
  "is_raw_kind (NormE _) = False"
| "is_raw_kind _ = True"

definition base_event :: "parsed_event \<Rightarrow> raw_event" where
  "base_event p = raw_event.truncate p"

text \<open>The raw event a raw or parsed event carries: \<^verbatim>\<open>isinstance(event, RawEvent)\<close>.\<close>

fun raw_of :: "event \<Rightarrow> raw_event option" where
  "raw_of (RawE e) = Some e"
| "raw_of (ParsedE p) = Some (base_event p)"
| "raw_of (NormE _) = None"

text \<open>The link back to the evidence: event id and raw hash.\<close>

fun link :: "event \<Rightarrow> string \<times> string" where
  "link (RawE e) = (event_uid e, raw_hash e)"
| "link (ParsedE p) = (event_uid p, raw_hash p)"
| "link (NormE n) = (n_event_uid n, n_raw_hash n)"

record 'w stage =
  sg_name :: string
  sg_process :: "event \<Rightarrow> 'w \<Rightarrow> event option res \<times> 'w"

definition exn_name :: "exn \<Rightarrow> string" where
  "exn_name x = (case x of ValueError _ \<Rightarrow> ''ValueError'' | IndexError _ \<Rightarrow> ''IndexError'' | KeyError _ \<Rightarrow> ''KeyError''
     | TypeError _ \<Rightarrow> ''TypeError'' | OverflowError _ \<Rightarrow> ''OverflowError'' | OSError _ \<Rightarrow> ''OSError''
     | RuntimeError _ \<Rightarrow> ''RuntimeError'' | AttributeError _ \<Rightarrow> ''AttributeError'' | InvalidOperation _ \<Rightarrow> ''InvalidOperation''
     | AssertionError _ \<Rightarrow> ''AssertionError'' | IngestError _ \<Rightarrow> ''IngestError''
     | PipelineStoppedError _ \<Rightarrow> ''PipelineStoppedError'' | ParseError _ _ \<Rightarrow> ''ParseError'' | MappingError _ _ \<Rightarrow> ''MappingError'')"

text \<open>\<^verbatim>\<open>str(exc)\<close>: a \<^verbatim>\<open>UlpfError\<close> appends its detail, a \<^verbatim>\<open>KeyError\<close> shows the repr of its key.\<close>

definition ulpf_text :: "string \<Rightarrow> pydict \<Rightarrow> string" where
  "ulpf_text m d = (if d = [] then m else m @ '' ('' @ py_repr (PDict d) @ '')'')"

definition exn_text :: "exn \<Rightarrow> string" where
  "exn_text x = (case x of ValueError m \<Rightarrow> m | IndexError m \<Rightarrow> m | KeyError m \<Rightarrow> repr_str m | TypeError m \<Rightarrow> m | OverflowError m \<Rightarrow> m
     | OSError m \<Rightarrow> m | RuntimeError m \<Rightarrow> m | AttributeError m \<Rightarrow> m | InvalidOperation m \<Rightarrow> m
     | AssertionError m \<Rightarrow> m | IngestError m \<Rightarrow> m | PipelineStoppedError m \<Rightarrow> m
     | ParseError m d \<Rightarrow> ulpf_text m d | MappingError m d \<Rightarrow> ulpf_text m d)"

text \<open>How an event left the chain: at the end, dropped by a stage, or failed in a stage.\<close>

datatype run_result = Delivered event | Dropped string | Failed string exn

definition to_dlq :: "dl_enc \<Rightarrow> int \<Rightarrow> event \<Rightarrow> string \<Rightarrow> exn \<Rightarrow> dlq \<Rightarrow> dlq res" where
  "to_dlq enc now e stage_name x q =
     (case raw_of e of
        None \<Rightarrow> Inr q
      | Some r \<Rightarrow> bind_res (dlq_write enc now r (exn_name x) stage_name (Some [(''error'', PStr (exn_text x))]) q) (\<lambda>(_, q'). Inr q'))"

text \<open>\<open>first\<close> is the event that entered the chain, the one that is dead-lettered.\<close>

fun run_chain :: "dl_enc \<Rightarrow> int \<Rightarrow> event \<Rightarrow> event \<Rightarrow> 'w stage list \<Rightarrow> 'w \<times> dlq \<Rightarrow> run_result res \<times> 'w \<times> dlq" where
  "run_chain enc now first current [] (w, q) = (Inr (Delivered current), w, q)"
| "run_chain enc now first current (st # sts) (w, q) =
     (case sg_process st current w of
        (Inl x, w') \<Rightarrow> (case to_dlq enc now first (sg_name st) x q of
                          Inl y \<Rightarrow> (Inl y, w', q)
                        | Inr q' \<Rightarrow> (Inr (Failed (sg_name st) x), w', q'))
      | (Inr None, w') \<Rightarrow> (Inr (Dropped (sg_name st)), w', q)
      | (Inr (Some e), w') \<Rightarrow> run_chain enc now first e sts (w', q))"

definition run_stages :: "dl_enc \<Rightarrow> int \<Rightarrow> event \<Rightarrow> 'w stage list \<Rightarrow> 'w \<times> dlq \<Rightarrow> run_result res \<times> 'w \<times> dlq" where
  "run_stages enc now e stages = run_chain enc now e e stages"

section \<open>The stages of this module\<close>

text \<open>\<open>get\<close> and \<open>put\<close> say where in the world the stage's object lives.\<close>

definition raw_store_stage :: "instant \<Rightarrow> instant \<Rightarrow> ('w \<Rightarrow> raw_store) \<Rightarrow> (raw_store \<Rightarrow> 'w \<Rightarrow> 'w) \<Rightarrow> 'w stage" where
  "raw_store_stage now now' get put =
     \<lparr>sg_name = ''raw_store'',
      sg_process = (\<lambda>e w. case raw_of e of
          None \<Rightarrow> (Inl (AssertionError ''isinstance(event, RawEvent)''), w)
        | Some r \<Rightarrow> (case rs_write now now' r (get w) of
                       Inl x \<Rightarrow> (Inl x, w) | Inr s \<Rightarrow> (Inr (Some e), put s w)))\<rparr>"

definition no_op_stage :: "'w stage" where
  "no_op_stage = \<lparr>sg_name = ''noop'', sg_process = (\<lambda>e w. (Inr (Some e), w))\<rparr>"

definition integrity_stage :: "digest_fn \<Rightarrow> instant \<Rightarrow> int \<Rightarrow> ('w \<Rightarrow> istage) \<Rightarrow> (istage \<Rightarrow> 'w \<Rightarrow> 'w) \<Rightarrow> 'w stage" where
  "integrity_stage H tick clock get put =
     \<lparr>sg_name = ''integrity'',
      sg_process = (\<lambda>e w. case raw_of e of
          None \<Rightarrow> (Inl (AssertionError ''isinstance(event, RawEvent)''), w)
        | Some r \<Rightarrow> (case istage_process H tick clock r (get w) of
                       (Inl x, st) \<Rightarrow> (Inl x, put st w) | (Inr _, st) \<Rightarrow> (Inr (Some e), put st w)))\<rparr>"

definition unclassified :: "raw_event \<Rightarrow> parsed_event" where
  "unclassified e = raw_event.extend e
     \<lparr>format = FUnknown, source_type = None, p_fields = [], envelope = [], template_id = None,
      needs_template_mining = True, bom_stripped = False\<rparr>"

text \<open>The sliding window of parse outcomes: at most \<open>window\<close> of them, oldest dropped first.\<close>

definition observe_outcome :: "nat \<Rightarrow> bool \<Rightarrow> bool list \<Rightarrow> bool list" where
  "observe_outcome window success outcomes =
     (let os = outcomes @ [success] in drop (length os - window) os)"

definition is_parse_error :: "exn \<Rightarrow> bool" where
  "is_parse_error x = (case x of ParseError _ _ \<Rightarrow> True | _ \<Rightarrow> False)"

definition parse_stage ::
  "(raw_event \<Rightarrow> parsed_event res) \<Rightarrow> nat \<Rightarrow> ('w \<Rightarrow> bool list) \<Rightarrow> (bool list \<Rightarrow> 'w \<Rightarrow> 'w) \<Rightarrow> 'w stage" where
  "parse_stage coordinator window get put =
     \<lparr>sg_name = ''parse'',
      sg_process = (\<lambda>e w. case raw_of e of
          None \<Rightarrow> (Inl (AssertionError ''isinstance(event, RawEvent)''), w)
        | Some r \<Rightarrow> (case coordinator r of
            Inr p \<Rightarrow> (Inr (Some (ParsedE p)), put (observe_outcome window True (get w)) w)
          | Inl x \<Rightarrow> if is_parse_error x
                     then (Inr (Some (ParsedE (unclassified r))), put (observe_outcome window False (get w)) w)
                     else (Inl x, w)))\<rparr>"

section \<open>The contract of a stage\<close>

text \<open>A stage that passes an event on keeps its link to the evidence.\<close>

locale linked_stage =
  fixes stage :: "'w stage"
  assumes keeps_link: "sg_process stage e w = (Inr (Some e'), w') \<Longrightarrow> link e' = link e"
begin

lemma twice_keeps_link:
  "sg_process stage e w = (Inr (Some e'), w') \<Longrightarrow> sg_process stage e' v = (Inr (Some e''), v') \<Longrightarrow> link e'' = link e"
  using keeps_link by metis

end

lemma link_base [simp]: "link (RawE (base_event p)) = link (ParsedE p)"
  by (simp add: base_event_def raw_event.truncate_def)

lemma link_extend [simp]: "event_uid (unclassified e) = event_uid e" "raw_hash (unclassified e) = raw_hash e"
  by (simp_all add: unclassified_def raw_event.extend_def)

lemma raw_of_link: "raw_of e = Some r \<Longrightarrow> link e = (event_uid r, raw_hash r)"
  by (cases e) (auto simp: base_event_def raw_event.truncate_def)

interpretation rsst: linked_stage "raw_store_stage now now' get put" for now now' get put
  by unfold_locales (auto simp: raw_store_stage_def split: option.splits sum.splits)

interpretation noop: linked_stage "no_op_stage"
  by unfold_locales (simp add: no_op_stage_def)

interpretation isst: linked_stage "integrity_stage H tick clock get put" for H tick clock get put
  by unfold_locales (auto simp: integrity_stage_def split: option.splits sum.splits prod.splits)

lemma chain_keeps_link:
  assumes "\<forall>st \<in> set sts. linked_stage st" and "run_chain enc now first e sts (w, q) = (Inr (Delivered e'), w', q')"
  shows "link e' = link e"
  using assms
proof (induction sts arbitrary: e w q)
  case (Cons st sts)
  then show ?case
    by (auto simp: linked_stage_def split: sum.splits option.splits prod.splits) blast
qed simp

lemma run_chain_outcome:
  assumes "run_chain enc now (RawE e) cur sts (w, q) = (Inr r, w', q')"
  shows "case r of Delivered _ \<Rightarrow> q' = q | Dropped name \<Rightarrow> q' = q \<and> name \<in> sg_name ` set sts
    | Failed name x \<Rightarrow> name \<in> sg_name ` set sts
        \<and> (\<exists>l. dlq_write enc now e (exn_name x) name (Some [(''error'', PStr (exn_text x))]) q = Inr (l, q'))"
  using assms
proof (induction sts arbitrary: cur w q)
  case Nil
  then show ?case by auto
next
  case (Cons st sts)
  show ?case
  proof (cases "sg_process st cur w")
    case (Pair o1 w1)
    show ?thesis
    proof (cases o1)
      case (Inl x)
      then show ?thesis
        using Cons.prems Pair by (auto simp: to_dlq_def bind_res_def split: sum.splits)
    next
      case (Inr o2)
      then show ?thesis
        using Cons.prems Pair Cons.IH by (cases o2) (fastforce split: run_result.splits)+
    qed
  qed
qed

text \<open>
  Failure isolation, for any list of stages: an event that reaches the end or is dropped by a stage leaves
  the dead-letter queue alone; an event that fails in a stage is written to it exactly once, with the bytes
  and the hash it came in with, tagged with that stage's name and the exception's type.
\<close>

theorem run_stages_isolates_failure:
  assumes "run_stages enc now (RawE e) stages (w, q) = (Inr r, w', q')"
  shows "case r of Delivered _ \<Rightarrow> q' = q | Dropped name \<Rightarrow> q' = q \<and> name \<in> sg_name ` set stages
    | Failed name x \<Rightarrow> name \<in> sg_name ` set stages
        \<and> (\<exists>l. dlq_write enc now e (exn_name x) name (Some [(''error'', PStr (exn_text x))]) q = Inr (l, q')
              \<and> dl_raw l = raw e \<and> dl_raw_hash l = raw_hash e \<and> dl_event_uid l = event_uid e
              \<and> dl_stage l = name \<and> dl_reason l = exn_name x)"
proof -
  have "dl_raw l = raw e \<and> dl_raw_hash l = raw_hash e \<and> dl_event_uid l = event_uid e \<and> dl_stage l = stage \<and> dl_reason l = reason"
    if "dlq_write enc now e reason stage detail q = Inr (l, q')" for reason stage detail l
    using that by (auto simp: dlq_write_def Let_def dlq_record_def bind_res_Inr_iff)
  then show ?thesis
    using run_chain_outcome [OF assms [unfolded run_stages_def]] by (fastforce split: run_result.splits)
qed

definition failing_stage :: "unit stage" where
  "failing_stage = \<lparr>sg_name = ''parse'', sg_process = (\<lambda>e w. (Inl (ValueError ''boom''), w))\<rparr>"

theorem run_stages_isolates_failure_witness:
  "\<exists>l q'. dlq_write demo_enc 0 sealed_event ''ValueError'' ''parse'' (Some [(''error'', PStr ''boom'')]) empty_dlq = Inr (l, q')
     \<and> dl_raw l = raw sealed_event \<and> dl_raw_hash l = raw_hash sealed_event \<and> dl_event_uid l = event_uid sealed_event
     \<and> dl_stage l = ''parse'' \<and> dl_reason l = ''ValueError''"
proof -
  obtain l q' where w: "dlq_write demo_enc 0 sealed_event ''ValueError'' ''parse'' (Some [(''error'', PStr ''boom'')]) empty_dlq = Inr (l, q')"
    by (simp add: dlq_write_def Let_def dlq_record_def demo_dates)
  have "run_stages demo_enc 0 (RawE sealed_event) [no_op_stage, failing_stage] ((), empty_dlq)
      = (Inr (Failed ''parse'' (ValueError ''boom'')), (), q')"
    by (simp add: run_stages_def no_op_stage_def failing_stage_def to_dlq_def exn_name_def exn_text_def w)
  from run_stages_isolates_failure [OF this] show ?thesis by (auto simp: exn_name_def exn_text_def)
qed

section \<open>The worker pool over the shared queue\<close>

datatype job = Job event | Shutdown

datatype worker = Idle | Busy job | Exited | Died

datatype phase = Running | Draining | Stopping nat | Stopped

record 'w pipe =
  pp_queue :: "job bqueue"
  pp_waiting :: "event list"
  pp_workers :: "worker list"
  pp_phase :: phase
  pp_drained :: bool
  pp_world :: "'w \<times> dlq"
  pp_submitted :: "event list"
  pp_done :: "event list"
  pp_lost :: "event list"
  pp_late :: "event list"

text \<open>What \<^verbatim>\<open>submit\<close> answers once \<^verbatim>\<open>stop\<close> has begun.\<close>

definition submit_check :: "'w pipe \<Rightarrow> unit res" where
  "submit_check s = (if pp_phase s = Running then Inr () else Inl (PipelineStoppedError ''pipeline is shutting down''))"

definition new_pipe :: "job bqueue \<Rightarrow> nat \<Rightarrow> 'w \<times> dlq \<Rightarrow> 'w pipe" where
  "new_pipe q n wq = \<lparr>pp_queue = q, pp_waiting = [], pp_workers = replicate n Idle, pp_phase = Running, pp_drained = False,
     pp_world = wq, pp_submitted = [], pp_done = [], pp_lost = [], pp_late = []\<rparr>"

text \<open>
  One step of the system. A worker whose dead-letter write fails ends with that exception (\<open>crash\<close>); its
  \<^verbatim>\<open>finally\<close> still marks the slot done. \<^verbatim>\<open>join\<close> returns once the count of unfinished items has been zero
  (\<open>drained\<close>), even if a blocked producer has put its event in the meantime.
\<close>

inductive pipe_step :: "dl_enc \<Rightarrow> 'w stage list \<Rightarrow> 'w pipe \<Rightarrow> 'w pipe \<Rightarrow> bool" for enc stages where
  submit: "submit_check s = Inr () \<Longrightarrow> put_attempt (Job e) (pp_queue s) = (Some r, q) \<Longrightarrow>
    pipe_step enc stages s (s\<lparr>pp_queue := q, pp_submitted := pp_submitted s @ [e]\<rparr>)"
| block: "submit_check s = Inr () \<Longrightarrow> put_attempt (Job e) (pp_queue s) = (None, q) \<Longrightarrow>
    pipe_step enc stages s (s\<lparr>pp_queue := q, pp_waiting := pp_waiting s @ [e], pp_submitted := pp_submitted s @ [e]\<rparr>)"
| resume: "pp_waiting s = xs @ e # ys \<Longrightarrow> put_resume (Job e) (pp_queue s) = Some (r, q) \<Longrightarrow>
    pipe_step enc stages s (s\<lparr>pp_queue := q, pp_waiting := xs @ ys\<rparr>)"
| fetch: "i < length (pp_workers s) \<Longrightarrow> pp_workers s ! i = Idle \<Longrightarrow> bq_get (pp_queue s) = Some (j, q) \<Longrightarrow>
    pipe_step enc stages s (s\<lparr>pp_queue := q, pp_workers := (pp_workers s)[i := Busy j]\<rparr>)"
| finish: "i < length (pp_workers s) \<Longrightarrow> pp_workers s ! i = Busy (Job e) \<Longrightarrow>
    run_stages enc now e stages (pp_world s) = (Inr r, wq) \<Longrightarrow> bq_task_done (pp_queue s) = Inr q \<Longrightarrow>
    pipe_step enc stages s (s\<lparr>pp_queue := q, pp_workers := (pp_workers s)[i := Idle], pp_world := wq, pp_done := pp_done s @ [e]\<rparr>)"
| crash: "i < length (pp_workers s) \<Longrightarrow> pp_workers s ! i = Busy (Job e) \<Longrightarrow>
    run_stages enc now e stages (pp_world s) = (Inl x, wq) \<Longrightarrow> bq_task_done (pp_queue s) = Inr q \<Longrightarrow>
    pipe_step enc stages s (s\<lparr>pp_queue := q, pp_workers := (pp_workers s)[i := Died], pp_world := wq, pp_lost := pp_lost s @ [e]\<rparr>)"
| exit: "i < length (pp_workers s) \<Longrightarrow> pp_workers s ! i = Busy Shutdown \<Longrightarrow> bq_task_done (pp_queue s) = Inr q \<Longrightarrow>
    pipe_step enc stages s (s\<lparr>pp_queue := q, pp_workers := (pp_workers s)[i := Exited]\<rparr>)"
| stop: "pp_phase s = Running \<Longrightarrow> pipe_step enc stages s (s\<lparr>pp_phase := Draining\<rparr>)"
| drained: "pp_phase s = Draining \<Longrightarrow> bq_join_ready (pp_queue s) \<Longrightarrow> pipe_step enc stages s (s\<lparr>pp_drained := True\<rparr>)"
| joined: "pp_phase s = Draining \<Longrightarrow> pp_drained s \<Longrightarrow>
    pipe_step enc stages s (s\<lparr>pp_phase := Stopping (length (pp_workers s)), pp_late := pp_waiting s\<rparr>)"
| sentinel: "pp_phase s = Stopping (Suc n) \<Longrightarrow> put_resume Shutdown (pp_queue s) = Some (r, q) \<Longrightarrow>
    pipe_step enc stages s (s\<lparr>pp_queue := q, pp_phase := Stopping n\<rparr>)"
| stopped: "pp_phase s = Stopping 0 \<Longrightarrow> \<forall>w \<in> set (pp_workers s). w = Exited \<or> w = Died \<Longrightarrow>
    pipe_step enc stages s (s\<lparr>pp_phase := Stopped\<rparr>)"

inductive_cases pipe_stepE: "pipe_step enc stages s t"

inductive pipe_reach :: "dl_enc \<Rightarrow> 'w stage list \<Rightarrow> 'w pipe \<Rightarrow> 'w pipe \<Rightarrow> bool" for enc stages s0 where
  init: "pipe_reach enc stages s0 s0"
| step: "pipe_reach enc stages s0 s \<Longrightarrow> pipe_step enc stages s t \<Longrightarrow> pipe_reach enc stages s0 t"

section \<open>Conservation of events\<close>

fun jobs :: "job list \<Rightarrow> event list" where
  "jobs [] = []"
| "jobs (Job e # js) = e # jobs js"
| "jobs (Shutdown # js) = jobs js"

fun after_sentinel :: "job list \<Rightarrow> event list" where
  "after_sentinel [] = []"
| "after_sentinel (Job e # js) = after_sentinel js"
| "after_sentinel (Shutdown # js) = jobs js"

fun held :: "worker list \<Rightarrow> event list" where
  "held [] = []"
| "held (Busy (Job e) # ws) = e # held ws"
| "held (_ # ws) = held ws"

lemma jobs_append [simp]: "jobs (xs @ ys) = jobs xs @ jobs ys"
proof (induction xs)
  case (Cons x xs)
  then show ?case by (cases x) auto
qed simp

lemma after_sentinel_append:
  "after_sentinel (xs @ ys) = (if Shutdown \<in> set xs then after_sentinel xs @ jobs ys else after_sentinel ys)"
proof (induction xs)
  case (Cons x xs)
  then show ?case by (cases x) auto
qed simp

lemma after_sentinel_subset: "mset (after_sentinel js) \<subseteq># mset (jobs js)"
proof (induction js)
  case (Cons j js)
  then show ?case by (cases j) (auto intro: subset_mset.order_trans)
qed simp

lemma held_append: "held (xs @ ys) = held xs @ held ys"
  by (induction xs rule: held.induct) auto

lemma held_exited: "\<forall>w \<in> set ws. w = Exited \<Longrightarrow> held ws = []"
  by (induction ws rule: held.induct) auto

lemma mset_held_update:
  "i < length ws \<Longrightarrow> mset (held (ws[i := w])) + mset (held [ws ! i]) = mset (held ws) + mset (held [w])"
proof -
  assume i: "i < length ws"
  have "held ws = held (take i ws) @ held [ws ! i] @ held (drop (Suc i) ws)"
    using id_take_nth_drop [OF i] held_append by (metis append_Cons append_Nil)
  moreover have "held (ws[i := w]) = held (take i ws) @ held [w] @ held (drop (Suc i) ws)"
    using upd_conv_take_nth_drop [OF i] held_append by (metis append_Cons append_Nil)
  ultimately show ?thesis by simp
qed

definition consumed :: "worker list \<Rightarrow> bool" where
  "consumed ws \<longleftrightarrow> Busy Shutdown \<in> set ws \<or> Exited \<in> set ws"

text \<open>The queued events that no worker is certain to reach, once sentinels are out.\<close>

definition exposed :: "job list \<Rightarrow> worker list \<Rightarrow> event list" where
  "exposed js ws = (if consumed ws then jobs js else after_sentinel js)"

definition conserved :: "'w pipe \<Rightarrow> bool" where
  "conserved s \<longleftrightarrow> mset (pp_submitted s) = mset (pp_done s) + mset (pp_lost s) + mset (jobs (bq_items (pp_queue s)))
     + mset (held (pp_workers s)) + mset (pp_waiting s)"

definition before_sentinels :: "phase \<Rightarrow> bool" where
  "before_sentinels p \<longleftrightarrow> p = Running \<or> p = Draining"

definition fifo_inv :: "'w pipe \<Rightarrow> bool" where
  "fifo_inv s \<longleftrightarrow>
     (if before_sentinels (pp_phase s) then Shutdown \<notin> set (bq_items (pp_queue s)) \<and> \<not> consumed (pp_workers s)
      else mset (exposed (bq_items (pp_queue s)) (pp_workers s)) + mset (pp_waiting s) \<subseteq># mset (pp_late s))"

definition died_inv :: "'w pipe \<Rightarrow> bool" where
  "died_inv s \<longleftrightarrow> (Died \<in> set (pp_workers s) \<longrightarrow> pp_lost s \<noteq> [])
     \<and> (pp_phase s = Stopped \<longrightarrow> (\<forall>w \<in> set (pp_workers s). w = Exited \<or> w = Died))"

lemma attempt_items: "put_attempt x q = (Some r, q') \<Longrightarrow> bq_items q' = bq_items q @ [x]"
  "put_attempt x q = (None, q') \<Longrightarrow> bq_items q' = bq_items q"
  by (auto simp: bq_defs split: if_splits)

lemma resume_items: "put_resume x q = Some (r, q') \<Longrightarrow> bq_items q' = bq_items q @ [x]"
  by (auto simp: bq_defs split: if_splits)

lemma get_items: "bq_get q = Some (j, q') \<Longrightarrow> bq_items q = j # bq_items q'"
  by (auto simp: bq_defs split: list.splits)

lemma task_done_items: "bq_task_done q = Inr q' \<Longrightarrow> bq_items q' = bq_items q"
  by (auto simp: bq_defs split: if_splits)

lemmas queue_items = attempt_items resume_items get_items task_done_items

lemma held_swap:
  assumes "i < length ws"
  shows "ws ! i = Idle \<Longrightarrow> mset (held (ws[i := Busy j])) = mset (held ws) + mset (jobs [j])"
    and "ws ! i = Busy (Job e) \<Longrightarrow> held [w] = [] \<Longrightarrow> mset (held (ws[i := w])) + {#e#} = mset (held ws)"
    and "ws ! i = Busy Shutdown \<Longrightarrow> held [w] = [] \<Longrightarrow> mset (held (ws[i := w])) = mset (held ws)"
  using mset_held_update [OF assms, of "Busy j"] mset_held_update [OF assms, of w] by (auto, cases j, auto)

lemma conserved_step: "pipe_step enc stages s t \<Longrightarrow> conserved s \<Longrightarrow> conserved t"
proof (induction rule: pipe_step.induct)
  case (fetch i s j q)
  then show ?case
    using held_swap(1) [OF fetch(1,2), of j] get_items [OF fetch(3)] by (cases j) (auto simp: conserved_def)
next
  case (finish i s e now r wq q)
  then show ?case
    using held_swap(2) [OF finish(1,2), of Idle] task_done_items [OF finish(4)]
    by (auto simp: conserved_def)
next
  case (crash i s e now x wq q)
  then show ?case
    using held_swap(2) [OF crash(1,2), of Died] task_done_items [OF crash(4)]
    by (auto simp: conserved_def)
next
  case (exit i s q)
  then show ?case
    using held_swap(3) [OF exit(1,2), of Exited] task_done_items [OF exit(3)] by (simp add: conserved_def)
qed (auto simp: conserved_def dest: queue_items)

lemma consumed_update:
  "i < length ws \<Longrightarrow> ws ! i \<noteq> Exited \<Longrightarrow> ws ! i \<noteq> Busy Shutdown \<Longrightarrow> w \<noteq> Exited \<Longrightarrow> w \<noteq> Busy Shutdown \<Longrightarrow>
   consumed (ws[i := w]) = consumed ws"
proof -
  assume a: "i < length ws" "ws ! i \<noteq> Exited" "ws ! i \<noteq> Busy Shutdown" "w \<noteq> Exited" "w \<noteq> Busy Shutdown"
  have "x \<in> set (ws[i := w]) \<longleftrightarrow> x \<in> set ws" if "x \<noteq> w" "x \<noteq> ws ! i" for x
    using a(1) that by (auto simp: in_set_conv_nth nth_list_update)
  then show ?thesis using a by (auto simp: consumed_def)
qed

lemma consumed_set: "i < length ws \<Longrightarrow> w = Exited \<or> w = Busy Shutdown \<Longrightarrow> consumed (ws[i := w])"
  by (auto simp: consumed_def set_update_memI)

lemma fifo_fetch_shutdown: "mset (exposed js ws') \<subseteq># mset (exposed (Shutdown # js) ws)"
  using after_sentinel_subset [of js] by (simp add: exposed_def)

lemma fifo_fetch_job:
  "consumed ws' = consumed ws \<Longrightarrow> mset (exposed js ws') \<subseteq># mset (exposed (Job e # js) ws)"
  by (simp add: exposed_def)

lemma fifo_resume: "mset (exposed (js @ [Job e]) ws) \<subseteq># mset (exposed js ws) + {#e#}"
  by (simp add: exposed_def after_sentinel_append)

lemma fifo_sentinel: "exposed (js @ [Shutdown]) ws = exposed js ws"
  by (simp add: exposed_def after_sentinel_append)
    (metis after_sentinel.simps(1) after_sentinel_append append_Nil2)

lemma fifo_step: "pipe_step enc stages s t \<Longrightarrow> fifo_inv s \<Longrightarrow> fifo_inv t"
proof (induction rule: pipe_step.induct)
  case (submit s e r q)
  then show ?case
    using attempt_items(1) [OF submit(2)]
    by (auto simp: fifo_inv_def submit_check_def before_sentinels_def split: if_splits)
next
  case (block s e q)
  then show ?case
    using attempt_items(2) [OF block(2)]
    by (auto simp: fifo_inv_def submit_check_def before_sentinels_def split: if_splits)
next
  case (resume s xs e ys r q)
  have sub: "mset (exposed (bq_items q) (pp_workers s)) + mset (xs @ ys)
      \<subseteq># mset (exposed (bq_items (pp_queue s)) (pp_workers s)) + mset (pp_waiting s)"
    using fifo_resume [of "bq_items (pp_queue s)" e "pp_workers s"] resume_items [OF resume(2)]
    by (simp add: resume(1))
  show ?case
  proof (cases "before_sentinels (pp_phase s)")
    case True
    then show ?thesis using resume resume_items [OF resume(2)] by (auto simp: fifo_inv_def)
  next
    case False
    then have "mset (exposed (bq_items (pp_queue s)) (pp_workers s)) + mset (pp_waiting s) \<subseteq># mset (pp_late s)"
      using resume(3) by (simp add: fifo_inv_def)
    from subset_mset.order_trans [OF sub this] show ?thesis using False by (simp add: fifo_inv_def)
  qed
next
  case (fetch i s j q)
  have items: "bq_items (pp_queue s) = j # bq_items q" by (rule get_items [OF fetch(3)])
  have "mset (exposed (bq_items q) ((pp_workers s)[i := Busy j])) \<subseteq># mset (exposed (bq_items (pp_queue s)) (pp_workers s))"
    using fifo_fetch_shutdown fifo_fetch_job consumed_update [OF fetch(1)] fetch(2)
    unfolding items by (cases j) auto
  moreover have "j \<noteq> Shutdown \<Longrightarrow> consumed ((pp_workers s)[i := Busy j]) = consumed (pp_workers s)"
    using consumed_update [OF fetch(1)] fetch(2) by simp
  ultimately show ?case
    using fetch(4) items by (auto simp: fifo_inv_def intro: subset_mset.order_trans subset_mset.add_right_mono)
next
  case (finish i s e now r wq q)
  then show ?case
    using consumed_update [OF finish(1), of Idle] task_done_items [OF finish(4)]
    by (auto simp: fifo_inv_def exposed_def split: if_splits)
next
  case (crash i s e now x wq q)
  then show ?case
    using consumed_update [OF crash(1), of Died] task_done_items [OF crash(4)]
    by (auto simp: fifo_inv_def exposed_def split: if_splits)
next
  case (exit i s q)
  have c: "consumed (pp_workers s)" using exit(1,2) nth_mem [of i "pp_workers s"] by (auto simp: consumed_def)
  then show ?case
    using exit consumed_set [OF exit(1), of Exited] task_done_items [OF exit(3)]
    by (auto simp: fifo_inv_def exposed_def split: if_splits)
next
  case (joined s)
  then show ?case
    by (auto simp: fifo_inv_def before_sentinels_def exposed_def)
      (metis after_sentinel.simps(1) after_sentinel_append append_Nil2 mset.simps(1) subset_mset.le_add_same_cancel1 subset_mset.order_refl union_commute empty_neutral(1))
next
  case (sentinel s n r q)
  then show ?case
    using resume_items [OF sentinel(2)] fifo_sentinel
    by (auto simp: fifo_inv_def before_sentinels_def)
qed (auto simp: fifo_inv_def before_sentinels_def)

lemma died_step: "pipe_step enc stages s t \<Longrightarrow> died_inv s \<Longrightarrow> died_inv t"
proof (induction rule: pipe_step.induct)
  case (fetch i s j q)
  then show ?case using set_update_subset_insert [of "pp_workers s" i "Busy j"] nth_mem [OF fetch(1)]
    by (fastforce simp: died_inv_def)
next
  case (finish i s e now r wq q)
  then show ?case using set_update_subset_insert [of "pp_workers s" i Idle] nth_mem [OF finish(1)]
    by (fastforce simp: died_inv_def)
next
  case (crash i s e now x wq q)
  then show ?case using nth_mem [OF crash(1)] by (fastforce simp: died_inv_def)
next
  case (exit i s q)
  then show ?case using set_update_subset_insert [of "pp_workers s" i Exited] nth_mem [OF exit(1)]
    by (fastforce simp: died_inv_def)
qed (auto simp: died_inv_def submit_check_def)

lemma pipe_reach_inv:
  assumes "pipe_reach enc stages (new_pipe q n wq) s" and "bq_items q = []"
  shows "conserved s \<and> fifo_inv s \<and> died_inv s"
  using assms(1)
proof (induction rule: pipe_reach.induct)
  case init
  have "held (replicate n Idle) = []" by (induction n) auto
  then show ?case
    using assms(2) by (auto simp: conserved_def fifo_inv_def died_inv_def new_pipe_def before_sentinels_def consumed_def)
next
  case (step s t)
  then show ?case using conserved_step fifo_step died_step by blast
qed


definition tiny_queue :: "job list \<Rightarrow> nat \<Rightarrow> job bqueue" where
  "tiny_queue js k = \<lparr>bq_max = 1, bq_policy = Block, bq_has_handler = False, bq_items = js, bq_unfinished = k,
     bq_gauge = length js, bq_waits = 0, bq_overflow = []\<rparr>"

definition tiny_pipe :: "job list \<Rightarrow> nat \<Rightarrow> worker \<Rightarrow> phase \<Rightarrow> bool \<Rightarrow> event list \<Rightarrow> event list \<Rightarrow> unit pipe" where
  "tiny_pipe js k w ph dr sub don = \<lparr>pp_queue = tiny_queue js k, pp_waiting = [], pp_workers = [w], pp_phase = ph, pp_drained = dr,
     pp_world = ((), empty_dlq), pp_submitted = sub, pp_done = don, pp_lost = [], pp_late = []\<rparr>"

abbreviation "ev1 \<equiv> RawE sealed_event"

lemma tiny_queue_new: "new_bqueue 1 Block False = Inr (tiny_queue [] 0)"
  by (simp add: new_bqueue_def tiny_queue_def)

lemma tiny_pipe_new: "new_pipe (tiny_queue [] 0) 1 ((), empty_dlq) = tiny_pipe [] 0 Idle Running False [] []"
  by (simp add: new_pipe_def tiny_pipe_def)

lemmas tiny_defs = tiny_pipe_def tiny_queue_def bq_defs submit_check_def bq_join_ready_def run_stages_def no_op_stage_def

abbreviation "tiny_step \<equiv> pipe_step demo_enc [no_op_stage]"

lemma tiny_steps:
  "tiny_step (tiny_pipe [] 0 Idle Running False [] []) (tiny_pipe [Job ev1] 1 Idle Running False [ev1] [])"
  "tiny_step (tiny_pipe [Job ev1] 1 Idle Running False [ev1] []) (tiny_pipe [] 1 (Busy (Job ev1)) Running False [ev1] [])"
  "tiny_step (tiny_pipe [] 1 (Busy (Job ev1)) Running False [ev1] []) (tiny_pipe [] 1 (Busy (Job ev1)) Draining False [ev1] [])"
  "tiny_step (tiny_pipe [] 1 (Busy (Job ev1)) Draining False [ev1] []) (tiny_pipe [] 0 Idle Draining False [ev1] [ev1])"
  "tiny_step (tiny_pipe [] 0 Idle Draining False [ev1] [ev1]) (tiny_pipe [] 0 Idle Draining True [ev1] [ev1])"
  "tiny_step (tiny_pipe [] 0 Idle Draining True [ev1] [ev1]) (tiny_pipe [] 0 Idle (Stopping 1) True [ev1] [ev1])"
  "tiny_step (tiny_pipe [] 0 Idle (Stopping 1) True [ev1] [ev1]) (tiny_pipe [Shutdown] 1 Idle (Stopping 0) True [ev1] [ev1])"
  "tiny_step (tiny_pipe [Shutdown] 1 Idle (Stopping 0) True [ev1] [ev1]) (tiny_pipe [] 1 (Busy Shutdown) (Stopping 0) True [ev1] [ev1])"
  "tiny_step (tiny_pipe [] 1 (Busy Shutdown) (Stopping 0) True [ev1] [ev1]) (tiny_pipe [] 0 Exited (Stopping 0) True [ev1] [ev1])"
  "tiny_step (tiny_pipe [] 0 Exited (Stopping 0) True [ev1] [ev1]) (tiny_pipe [] 0 Exited Stopped True [ev1] [ev1])"
proof -
  let ?s = "tiny_pipe [] 0 Idle Running False [] []"
  show "tiny_step ?s (tiny_pipe [Job ev1] 1 Idle Running False [ev1] [])"
    using pipe_step.submit [of ?s ev1 Enqueued "tiny_queue [Job ev1] 1"] by (simp add: tiny_defs)
  let ?s = "tiny_pipe [Job ev1] 1 Idle Running False [ev1] []"
  show "tiny_step ?s (tiny_pipe [] 1 (Busy (Job ev1)) Running False [ev1] [])"
    using pipe_step.fetch [of 0 ?s "Job ev1" "tiny_queue [] 1"] by (simp add: tiny_defs)
  let ?s = "tiny_pipe [] 1 (Busy (Job ev1)) Running False [ev1] []"
  show "tiny_step ?s (tiny_pipe [] 1 (Busy (Job ev1)) Draining False [ev1] [])"
    using pipe_step.stop [of ?s] by (simp add: tiny_defs)
  let ?s = "tiny_pipe [] 1 (Busy (Job ev1)) Draining False [ev1] []"
  show "tiny_step ?s (tiny_pipe [] 0 Idle Draining False [ev1] [ev1])"
    using pipe_step.finish [of 0 ?s ev1 demo_enc 0 "[no_op_stage]" "Delivered ev1" "((), empty_dlq)" "tiny_queue [] 0"]
    by (simp add: tiny_defs)
  let ?s = "tiny_pipe [] 0 Idle Draining False [ev1] [ev1]"
  show "tiny_step ?s (tiny_pipe [] 0 Idle Draining True [ev1] [ev1])"
    using pipe_step.drained [of ?s] by (simp add: tiny_defs)
  let ?s = "tiny_pipe [] 0 Idle Draining True [ev1] [ev1]"
  show "tiny_step ?s (tiny_pipe [] 0 Idle (Stopping 1) True [ev1] [ev1])"
    using pipe_step.joined [of ?s] by (simp add: tiny_defs)
  let ?s = "tiny_pipe [] 0 Idle (Stopping 1) True [ev1] [ev1]"
  show "tiny_step ?s (tiny_pipe [Shutdown] 1 Idle (Stopping 0) True [ev1] [ev1])"
    using pipe_step.sentinel [of ?s 0 Enqueued "tiny_queue [Shutdown] 1"] by (simp add: tiny_defs)
  let ?s = "tiny_pipe [Shutdown] 1 Idle (Stopping 0) True [ev1] [ev1]"
  show "tiny_step ?s (tiny_pipe [] 1 (Busy Shutdown) (Stopping 0) True [ev1] [ev1])"
    using pipe_step.fetch [of 0 ?s Shutdown "tiny_queue [] 1"] by (simp add: tiny_defs)
  let ?s = "tiny_pipe [] 1 (Busy Shutdown) (Stopping 0) True [ev1] [ev1]"
  show "tiny_step ?s (tiny_pipe [] 0 Exited (Stopping 0) True [ev1] [ev1])"
    using pipe_step.exit [of 0 ?s "tiny_queue [] 0"] by (simp add: tiny_defs)
  let ?s = "tiny_pipe [] 0 Exited (Stopping 0) True [ev1] [ev1]"
  show "tiny_step ?s (tiny_pipe [] 0 Exited Stopped True [ev1] [ev1])"
    using pipe_step.stopped [of ?s] by (simp add: tiny_defs)
qed

lemmas tiny_reach_init = pipe_reach.init [of demo_enc "[no_op_stage]" "tiny_pipe [] 0 Idle Running False [] []"]

lemmas tiny_submitted = pipe_reach.step [OF tiny_reach_init tiny_steps(1)]

lemmas tiny_stopped = pipe_reach.step [OF pipe_reach.step [OF pipe_reach.step [OF pipe_reach.step [OF
  pipe_reach.step [OF pipe_reach.step [OF pipe_reach.step [OF pipe_reach.step [OF pipe_reach.step [OF tiny_submitted
  tiny_steps(2)] tiny_steps(3)] tiny_steps(4)] tiny_steps(5)] tiny_steps(6)] tiny_steps(7)] tiny_steps(8)]
  tiny_steps(9)] tiny_steps(10)]


text \<open>
  Shutdown drains: when \<^verbatim>\<open>stop\<close> has finished in shared-queue mode, every accepted event has been run through
  the stages, provided there was a worker, no dead-letter write failed and no producer was still blocked
  when the drain ended. In general what is left over is among the events of such blocked producers.
\<close>

theorem shutdown_processes_everything:
  assumes "new_bqueue m p h = Inr q" and "pipe_reach enc stages (new_pipe q n wq) s"
    and "pp_phase s = Stopped" and "pp_workers s \<noteq> []" and "pp_lost s = []"
  shows "(\<exists>rest. mset (pp_submitted s) = mset (pp_done s) + rest \<and> rest \<subseteq># mset (pp_late s))
    \<and> (pp_late s = [] \<longrightarrow> mset (pp_submitted s) = mset (pp_done s))"
proof -
  have "bq_items q = []" using assms(1) by (auto simp: new_bqueue_def split: if_splits)
  note inv = pipe_reach_inv [OF assms(2) this]
  have ex: "\<forall>w \<in> set (pp_workers s). w = Exited" using inv assms(3,5) by (auto simp: died_inv_def)
  then have "held (pp_workers s) = []" by (rule held_exited)
  moreover have "consumed (pp_workers s)" using ex assms(4) by (cases "pp_workers s") (auto simp: consumed_def)
  ultimately have c: "mset (pp_submitted s) = mset (pp_done s) + (mset (jobs (bq_items (pp_queue s))) + mset (pp_waiting s))"
    and f: "mset (jobs (bq_items (pp_queue s))) + mset (pp_waiting s) \<subseteq># mset (pp_late s)"
    using inv assms(3,5) by (simp_all add: conserved_def fifo_inv_def before_sentinels_def exposed_def)
  then show ?thesis by auto
qed

theorem shutdown_processes_everything_witness:
  "mset (pp_submitted (tiny_pipe [] 0 Exited Stopped True [ev1] [ev1])) = mset (pp_done (tiny_pipe [] 0 Exited Stopped True [ev1] [ev1]))"
  using shutdown_processes_everything [OF tiny_queue_new, of demo_enc "[no_op_stage]" 1 "((), empty_dlq)", unfolded tiny_pipe_new,
      OF tiny_stopped] by (simp add: tiny_pipe_def)

section \<open>Construction, start and flush\<close>

definition pipeline_init :: "bool \<Rightarrow> bool \<Rightarrow> bool \<Rightarrow> bool \<Rightarrow> unit res" where
  "pipeline_init has_stages has_factory has_worker_buffers has_buffer =
     (if (\<not> has_stages) = (\<not> has_factory) then Inl (ValueError ''Pipeline needs exactly one of stages= or stage_factory='')
      else if has_worker_buffers \<and> \<not> has_buffer then Inl (ValueError ''worker_buffers= requires buffer='')
      else Inr ())"

text \<open>The number of workers started, given those already running, the worker buffers and the configured count.\<close>

definition pipeline_start :: "nat \<Rightarrow> nat option \<Rightarrow> int \<Rightarrow> nat res" where
  "pipeline_start running worker_buffers worker_count =
     (if running \<noteq> 0 then Inl (RuntimeError ''pipeline already started'')
      else Inr (case worker_buffers of Some n \<Rightarrow> n | None \<Rightarrow> nat worker_count))"

text \<open>Stage objects by identity, with whether they have a \<^verbatim>\<open>flush\<close>; the result is the flush calls in order.\<close>

fun flush_walk :: "nat set \<Rightarrow> (nat \<times> bool) list \<Rightarrow> nat list" where
  "flush_walk seen [] = []"
| "flush_walk seen ((i, has_flush) # sts) =
     (if i \<in> seen then flush_walk seen sts
      else (if has_flush then [i] else []) @ flush_walk (insert i seen) sts)"

definition flush_stages :: "(nat \<times> bool) list list \<Rightarrow> (nat \<times> bool) list option \<Rightarrow> nat list" where
  "flush_stages worker_stages stages =
     flush_walk {} (concat (if worker_stages \<noteq> [] then worker_stages else case stages of Some l \<Rightarrow> [l] | None \<Rightarrow> []))"

lemma flush_walk_distinct:
  "distinct (flush_walk seen sts) \<and> set (flush_walk seen sts) \<inter> seen = {} \<and> set (flush_walk seen sts) \<subseteq> fst ` set sts"
proof (induction seen sts rule: flush_walk.induct)
  case (2 seen i b sts)
  then show ?case by (cases "i \<in> seen") auto
qed simp

lemma flush_walk_complete:
  "(i, True) \<in> set sts \<Longrightarrow> (i, False) \<notin> set sts \<Longrightarrow> i \<notin> seen \<Longrightarrow> i \<in> set (flush_walk seen sts)"
  by (induction seen sts rule: flush_walk.induct) auto

text \<open>
  At shutdown each distinct stage object that has a \<^verbatim>\<open>flush\<close> is flushed exactly once, however many workers'
  stage lists it appears in.
\<close>

theorem flush_each_stage_once:
  assumes "\<forall>i. \<not> ((i, True) \<in> set (concat worker_stages) \<and> (i, False) \<in> set (concat worker_stages))" and "worker_stages \<noteq> []"
  shows "distinct (flush_stages worker_stages stages)
    \<and> set (flush_stages worker_stages stages) = {i. (i, True) \<in> set (concat worker_stages)}"
proof -
  let ?l = "concat worker_stages"
  have f: "flush_stages worker_stages stages = flush_walk {} ?l" using assms(2) by (simp add: flush_stages_def)
  have "(i, True) \<in> set sts" if "i \<in> set (flush_walk seen sts)" for i seen sts
    using that by (induction seen sts rule: flush_walk.induct) (auto split: if_splits)
  then show ?thesis
    unfolding f using flush_walk_distinct [of "{}" ?l] flush_walk_complete [of _ ?l "{}"] assms(1) by blast
qed

theorem flush_each_stage_once_witness:
  "distinct (flush_stages [[(1, True), (2, False), (3, True)], [(1, True), (4, False), (3, True)]] None)
    \<and> set (flush_stages [[(1, True), (2, False), (3, True)], [(1, True), (4, False), (3, True)]] None)
        = {i. (i, True) \<in> set (concat [[(1, True), (2, False), (3, True)], [(1, True), (4, False), (3, True)]])}"
  by (rule flush_each_stage_once) auto

section \<open>Partition-aware workers\<close>

text \<open>
  One round of a worker on its own Kafka buffer: take an event, run the stages, acknowledge in the \<^verbatim>\<open>finally\<close>.
  \<open>cancel = Some k\<close> is a cancellation that arrives while the event is in its stage number \<open>k\<close>; it is no
  \<^verbatim>\<open>Exception\<close>, so it is not dead-lettered.
\<close>

datatype round_end = RoundDone run_result | RoundRaised exn | RoundCancelled

definition owned_round ::
  "(string \<Rightarrow> raw_event res) \<Rightarrow> dl_enc \<Rightarrow> int \<Rightarrow> 'w stage list \<Rightarrow> nat option \<Rightarrow> kafka_record
     \<Rightarrow> kafka_consumer \<times> 'w \<times> dlq \<Rightarrow> (round_end \<times> kafka_consumer \<times> 'w \<times> dlq) res" where
  "owned_round deser enc now stages cancel r = (\<lambda>(c, wq).
     bind_res (kc_get deser r c) (\<lambda>(e, c1).
       case cancel of
         None \<Rightarrow> (case run_stages enc now (RawE e) stages wq of
                    (Inr res, wq') \<Rightarrow> Inr (RoundDone res, kc_ack e c1, wq')
                  | (Inl x, wq') \<Rightarrow> Inr (RoundRaised x, kc_ack e c1, wq'))
       | Some k \<Rightarrow> Inr (RoundCancelled, kc_ack e c1, snd (run_stages enc now (RawE e) (take k stages) wq))))"

text \<open>
  An event whose worker is cancelled in mid-flight is acknowledged all the same: its Kafka offset is
  committed although no later stage has run and it is not in the dead-letter queue, so it is not
  redelivered. (The documentation of the module and of the method says that it is never acknowledged.)
\<close>

theorem cancelled_event_is_acked:
  assumes "owned_round deser enc now stages (Some k) r (c, w, q) = Inr (RoundCancelled, c', w', q')"
    and "\<forall>st \<in> set (take k stages). \<forall>e v. \<exists>v'. sg_process st e v = (Inr (Some e), v')"
  shows "kc_commits c' = kc_commits c @ [((kr_topic r, kr_partition r), kr_offset r + 1)] \<and> q' = q"
proof -
  obtain e c1 where g: "kc_get deser r c = Inr (e, c1)" and c': "c' = kc_ack e c1"
    and rn: "snd (run_stages enc now (RawE e) (take k stages) (w, q)) = (w', q')"
    using assms(1) by (auto simp: owned_round_def bind_res_Inr_iff)
  have "snd (snd (run_chain enc now f cur sts (v, q))) = q"
    if "\<forall>st \<in> set sts. \<forall>e v. \<exists>v'. sg_process st e v = (Inr (Some e), v')" for f cur sts v
    using that
  proof (induction sts arbitrary: v)
    case (Cons st sts)
    have "\<exists>v'. sg_process st cur v = (Inr (Some cur), v')" using Cons.prems by simp
    then obtain v' where "sg_process st cur v = (Inr (Some cur), v')" ..
    then show ?case using Cons by simp
  qed simp
  from this [OF assms(2)] have "q' = q" using rn by (metis run_stages_def snd_conv)
  moreover have "c1 = c\<lparr>kc_pending := dict_set (event_uid e) r (kc_pending c)\<rparr>" "kc_started c"
    using g by (auto simp: kc_get_def bind_res_Inr_iff split: if_splits)
  ultimately show ?thesis by (simp add: c' kc_ack_def Let_def)
qed

theorem cancelled_event_is_acked_witness:
  "kc_commits (fst (snd (projr (owned_round (\<lambda>_. Inr demo_raw) demo_enc 0 [no_op_stage, failing_stage] (Some 1)
      \<lparr>kr_topic = ''raw'', kr_partition = 0, kr_offset = 7, kr_value = ''x''\<rparr>
      (\<lparr>kc_started = True, kc_pending = [], kc_commits = []\<rparr>, (), empty_dlq))))) = [] @ [((''raw'', 0), 7 + 1)]"
proof -
  let ?c = "\<lparr>kc_started = True, kc_pending = [], kc_commits = []\<rparr>"
  let ?r = "\<lparr>kr_topic = ''raw'', kr_partition = 0, kr_offset = 7, kr_value = ''x''\<rparr>"
  have "owned_round (\<lambda>_. Inr demo_raw) demo_enc 0 [no_op_stage, failing_stage] (Some 1) ?r (?c, (), empty_dlq)
      = Inr (RoundCancelled, kc_ack demo_raw (?c\<lparr>kc_pending := [(event_uid demo_raw, ?r)]\<rparr>), (), empty_dlq)"
    by (simp add: owned_round_def kc_get_def run_stages_def no_op_stage_def)
  from cancelled_event_is_acked [OF this] this show ?thesis by (simp add: no_op_stage_def)
qed

end
