(* ===== verification/Parse_Engine.thy ===== *)
theory Parse_Engine
  imports Pipeline
begin

text \<open>
  The contract of the parse engines (\<^verbatim>\<open>ulpf/parse/engines/base.py\<close>), the flattening they share
  (\<^verbatim>\<open>util.py\<close>) and the JSON engine (\<^verbatim>\<open>json_engine.py\<close>). An engine is a function from the text of a
  message and an options dictionary to a dictionary of extracted fields or an exception.

  \<open>orjson.loads\<close> is a third-party function: the JSON engine takes it as an argument, with the text of
  the decode error as the other outcome.
\<close>

section \<open>The contract of an engine\<close>

type_synonym engine = "string \<Rightarrow> pydict \<Rightarrow> pydict res"

text \<open>A scalar, or an empty container, which \<open>flatten\<close> keeps as it is.\<close>

definition leaf :: "pyval \<Rightarrow> bool" where
  "leaf v = (case v of PList xs \<Rightarrow> xs = [] | PDict d \<Rightarrow> d = [] | _ \<Rightarrow> True)"

lemma leaf_simps [simp]:
  "leaf PNone" "leaf (PBool b)" "leaf (PInt i)" "leaf (PFloat t)" "leaf (PStr s)"
  "leaf (PList xs) \<longleftrightarrow> xs = []" "leaf (PDict d) \<longleftrightarrow> d = []"
  by (simp_all add: leaf_def)

definition flat :: "pydict \<Rightarrow> bool" where
  "flat d \<longleftrightarrow> (\<forall>(k, v) \<in> set d. leaf v)"

lemma flat_Nil [simp]: "flat []"
  by (simp add: flat_def)

lemma flat_Cons [simp]: "flat ((k, v) # d) \<longleftrightarrow> leaf v \<and> flat d"
  by (simp add: flat_def)

lemma flat_append [simp]: "flat (d @ e) \<longleftrightarrow> flat d \<and> flat e"
  by (auto simp: flat_def)

lemma flat_set [simp]: "flat d \<Longrightarrow> leaf v \<Longrightarrow> flat (dict_set k v d)"
  by (induction k v d rule: dict_set.induct) auto

lemma flat_update [simp]: "flat d \<Longrightarrow> flat e \<Longrightarrow> flat (dict_update d e)"
  by (induction e arbitrary: d) auto

lemma flat_strs [simp]: "flat (map (\<lambda>(k, s). (k, PStr s)) d)"
  by (auto simp: flat_def)

text \<open>
  Every engine returns a dictionary (distinct keys); a flat engine moreover returns only leaves. What a
  caller gets when it merges flat context fields into a result, as the coordinator does, follows.
\<close>

lemma map_of_rev_distinct: "distinct (map fst d) \<Longrightarrow> map_of (rev d) = map_of d"
  by (rule map_of_inject_set [THEN iffD2]) (simp_all flip: rev_map)

locale parse_engine =
  fixes parse :: engine
  assumes keys_distinct: "parse t opts = Inr d \<Longrightarrow> dict_ok d"
begin

lemma merged_keys_distinct: "parse t opts = Inr d \<Longrightarrow> dict_ok (dict_update d extra)"
  using keys_distinct by simp

lemma merged_lookup:
  assumes "parse t opts = Inr d" and "dict_ok extra"
  shows "map_of (dict_update d extra) k = (case map_of extra k of None \<Rightarrow> map_of d k | Some v \<Rightarrow> Some v)"
  using assms
  by (simp add: map_of_dict_update dict_ok_def map_add_def map_of_rev_distinct split: option.split)

end

locale flat_engine = parse_engine +
  assumes values_flat: "parse t opts = Inr d \<Longrightarrow> flat d"
begin

lemma merged_flat: "parse t opts = Inr d \<Longrightarrow> flat extra \<Longrightarrow> flat (dict_update d extra)"
  using values_flat by simp

end

section \<open>Flattening\<close>

definition child_key :: "string \<Rightarrow> string \<Rightarrow> string \<Rightarrow> string" where
  "child_key sep pre k = (if pre \<noteq> [] then pre @ sep @ k else k)"

fun flatten_into :: "string \<Rightarrow> string \<Rightarrow> pyval \<Rightarrow> pydict \<Rightarrow> pydict"
  and flatten_members :: "string \<Rightarrow> string \<Rightarrow> pydict \<Rightarrow> pydict \<Rightarrow> pydict"
  and flatten_items :: "string \<Rightarrow> string \<Rightarrow> nat \<Rightarrow> pyval list \<Rightarrow> pydict \<Rightarrow> pydict" where
  "flatten_into sep pre (PDict d) out =
     (if d = [] then dict_set pre (PDict []) out else flatten_members sep pre d out)"
| "flatten_into sep pre (PList xs) out =
     (if xs = [] then dict_set pre (PList []) out else flatten_items sep pre 0 xs out)"
| "flatten_into sep pre PNone out = dict_set pre PNone out"
| "flatten_into sep pre (PBool b) out = dict_set pre (PBool b) out"
| "flatten_into sep pre (PInt i) out = dict_set pre (PInt i) out"
| "flatten_into sep pre (PFloat t) out = dict_set pre (PFloat t) out"
| "flatten_into sep pre (PStr s) out = dict_set pre (PStr s) out"
| "flatten_members sep pre [] out = out"
| "flatten_members sep pre ((k, v) # d) out =
     flatten_members sep pre d (flatten_into sep (child_key sep pre k) v out)"
| "flatten_items sep pre i [] out = out"
| "flatten_items sep pre i (v # xs) out =
     flatten_items sep pre (Suc i) xs (flatten_into sep (child_key sep pre (dec_digits i)) v out)"

definition flatten :: "string \<Rightarrow> string \<Rightarrow> pyval \<Rightarrow> pydict" where
  "flatten sep pre obj = flatten_into sep pre obj []"

subsection \<open>The leaves of a value, by path\<close>

fun leaves :: "string \<Rightarrow> string \<Rightarrow> pyval \<Rightarrow> pydict"
  and member_leaves :: "string \<Rightarrow> string \<Rightarrow> pydict \<Rightarrow> pydict"
  and item_leaves :: "string \<Rightarrow> string \<Rightarrow> nat \<Rightarrow> pyval list \<Rightarrow> pydict" where
  "leaves sep pre (PDict d) = (if d = [] then [(pre, PDict [])] else member_leaves sep pre d)"
| "leaves sep pre (PList xs) = (if xs = [] then [(pre, PList [])] else item_leaves sep pre 0 xs)"
| "leaves sep pre PNone = [(pre, PNone)]"
| "leaves sep pre (PBool b) = [(pre, PBool b)]"
| "leaves sep pre (PInt i) = [(pre, PInt i)]"
| "leaves sep pre (PFloat t) = [(pre, PFloat t)]"
| "leaves sep pre (PStr s) = [(pre, PStr s)]"
| "member_leaves sep pre [] = []"
| "member_leaves sep pre ((k, v) # d) = leaves sep (child_key sep pre k) v @ member_leaves sep pre d"
| "item_leaves sep pre i [] = []"
| "item_leaves sep pre i (v # xs) =
     leaves sep (child_key sep pre (dec_digits i)) v @ item_leaves sep pre (Suc i) xs"

lemma dict_update_append: "dict_update d (e @ f) = dict_update (dict_update d e) f"
  by (simp add: dict_update_def)

lemma flatten_is_update:
  "flatten_into sep pre v out = dict_update out (leaves sep pre v)"
  "flatten_members sep pre d out = dict_update out (member_leaves sep pre d)"
  "flatten_items sep pre i xs out = dict_update out (item_leaves sep pre i xs)"
  by (induction sep pre v out and sep pre d out and sep pre i xs out
      rule: flatten_into_flatten_members_flatten_items.induct) (simp_all add: dict_update_append)

lemma leaves_flat:
  "flat (leaves sep pre v)" "flat (member_leaves sep pre d)" "flat (item_leaves sep pre i xs)"
  by (induction sep pre v and sep pre d and sep pre i xs
      rule: leaves_member_leaves_item_leaves.induct) (auto simp: flat_def)

lemma flatten_ok [simp]: "dict_ok (flatten sep pre v)" "flat (flatten sep pre v)"
  by (simp_all add: flatten_def flatten_is_update leaves_flat)

text \<open>When the keys are not empty and do not contain the separator, no two leaves have the same path.\<close>

fun plain_keys :: "char \<Rightarrow> pyval \<Rightarrow> bool" where
  "plain_keys c (PDict d) \<longleftrightarrow> distinct (map fst d) \<and> (\<forall>(k, v) \<in> set d. k \<noteq> [] \<and> c \<notin> set k \<and> plain_keys c v)"
| "plain_keys c (PList xs) \<longleftrightarrow> (\<forall>v \<in> set xs. plain_keys c v)"
| "plain_keys c _ \<longleftrightarrow> True"

definition below :: "char \<Rightarrow> string \<Rightarrow> string \<Rightarrow> bool" where
  "below c q s \<longleftrightarrow> s = q \<or> (\<exists>r. s = q @ c # r)"

lemma below_refl [simp]: "below c q q"
  by (simp add: below_def)

lemma below_child: "below c (child_key [c] q k) s \<Longrightarrow> q \<noteq> [] \<Longrightarrow> below c q s"
  by (auto simp: below_def child_key_def)

lemma child_unique:
  assumes "below c (child_key [c] q k) s" "below c (child_key [c] q k') s" "c \<notin> set k" "c \<notin> set k'"
  shows "k = k'"
proof -
  define t where "t = (if q = [] then s else drop (Suc (length q)) s)"
  have "takeWhile (\<lambda>x. x \<noteq> c) t = j" if "below c (child_key [c] q j) s" "c \<notin> set j" for j
  proof -
    have "t = j \<or> (\<exists>r. t = j @ c # r)" using that by (auto simp: below_def child_key_def t_def)
    then show ?thesis using that(2) by (auto simp: takeWhile_append takeWhile_eq_all_conv)
  qed
  with assms show ?thesis by metis
qed

lemma dec_digits_inj: "dec_digits i = dec_digits j \<Longrightarrow> i = j"
  using nat_of_dec_digits by metis

lemma leaves_distinct:
  assumes "\<not> is_dec c"
  shows "sep = [c] \<Longrightarrow> plain_keys c v
      \<Longrightarrow> distinct (map fst (leaves sep pre v)) \<and> (pre \<noteq> [] \<longrightarrow> (\<forall>s \<in> fst ` set (leaves sep pre v). below c pre s))"
    and "sep = [c] \<Longrightarrow> plain_keys c (PDict d)
      \<Longrightarrow> distinct (map fst (member_leaves sep pre d))
        \<and> (\<forall>s \<in> fst ` set (member_leaves sep pre d). \<exists>k \<in> fst ` set d. c \<notin> set k \<and> below c (child_key [c] pre k) s)"
    and "sep = [c] \<Longrightarrow> plain_keys c (PList xs)
      \<Longrightarrow> distinct (map fst (item_leaves sep pre i xs))
        \<and> (\<forall>s \<in> fst ` set (item_leaves sep pre i xs). \<exists>j \<ge> i. below c (child_key [c] pre (dec_digits j)) s)"
proof (induction sep pre v and sep pre d and sep pre i xs rule: leaves_member_leaves_item_leaves.induct)
  case (1 sep pre d)
  show ?case
  proof (cases "d = []")
    case False
    with 1(1) [OF False 1(2,3)] below_child show ?thesis by (metis leaves.simps(1))
  qed simp
next
  case (2 sep pre xs)
  show ?case
  proof (cases "xs = []")
    case False
    with 2(1) [OF False 2(2,3)] below_child show ?thesis by (metis leaves.simps(2))
  qed simp
next
  case (9 sep pre k v d)
  have k: "k \<noteq> []" "c \<notin> set k" "plain_keys c v" "plain_keys c (PDict d)" "k \<notin> fst ` set d"
    using 9(4) by (auto simp: image_iff)
  have ne: "child_key sep pre k \<noteq> []" using k(1) by (simp add: child_key_def)
  note hd = 9(1) [OF 9(3) k(3)] and tl = 9(2) [OF 9(3) k(4)]
  have "s \<notin> fst ` set (member_leaves sep pre d)" if "s \<in> fst ` set (leaves sep (child_key sep pre k) v)" for s
    using that hd ne tl k(2,5) child_unique 9(3) by metis
  then show ?case using hd tl ne k(2) 9(3) by (simp add: disjoint_iff) (metis UnE fst_conv image_Un insertCI)
next
  case (11 sep pre i v xs)
  have k: "plain_keys c v" "plain_keys c (PList xs)" using 11(4) by simp_all
  have nc: "c \<notin> set (dec_digits j)" for j using assms dec_digits_is_dec by blast
  have ne: "child_key sep pre (dec_digits i) \<noteq> []" by (simp add: child_key_def)
  note hd = 11(1) [OF 11(3) k(1)] and tl = 11(2) [OF 11(3) k(2)]
  have "s \<notin> fst ` set (item_leaves sep pre (Suc i) xs)"
    if "s \<in> fst ` set (leaves sep (child_key sep pre (dec_digits i)) v)" for s
    using that hd ne tl nc child_unique dec_digits_inj 11(3) by (metis Suc_n_not_le_n)
  then show ?case using hd tl ne 11(3) by (simp add: disjoint_iff) (metis UnE Suc_leD image_Un le_refl)
qed simp_all

lemma dict_set_fresh: "k \<notin> fst ` set d \<Longrightarrow> dict_set k v d = d @ [(k, v)]"
  by (induction k v d rule: dict_set.induct) auto

lemma dict_update_fresh: "distinct (map fst (d @ e)) \<Longrightarrow> dict_update d e = d @ e"
proof (induction e arbitrary: d)
  case (Cons p e)
  obtain k v where p: "p = (k, v)" by fastforce
  have "k \<notin> fst ` set d" using Cons.prems p by auto
  then show ?case using Cons.IH [of "d @ [(k, v)]"] Cons.prems p by (simp add: dict_set_fresh)
qed simp

text \<open>
  Flattening loses nothing: when no key of the value is empty or contains the (one-character, not a
  digit) separator, the result has one entry per leaf, in document order, each under its own path. (A
  key that contains the separator may collide with a path; then the later leaf wins.)
\<close>

theorem flatten_lossless:
  assumes "\<not> is_dec c" and "plain_keys c v"
  shows "flatten [c] pre v = leaves [c] pre v"
  using leaves_distinct(1) [OF assms(1) refl assms(2), of pre]
  by (simp add: flatten_def flatten_is_update dict_update_fresh)

definition demo_value :: pyval where
  "demo_value = PDict [(''tags'', PList [PStr ''x'', PInt 2]), (''user'', PDict [(''name'', PStr ''bob''), (''x'', PNone)])]"

theorem flatten_lossless_witness:
  "flatten ''.'' [] demo_value
     = [(''tags.0'', PStr ''x''), (''tags.1'', PInt 2), (''user.name'', PStr ''bob''), (''user.x'', PNone)]"
proof -
  have "plain_keys (CHR ''.'') demo_value" by (simp add: demo_value_def)
  moreover have "dec_digits 0 = ''0''" "dec_digits (Suc 0) = ''1''" by code_simp+
  ultimately show ?thesis using flatten_lossless [of "CHR ''.''" demo_value "[]"]
    by (simp add: is_dec_def demo_value_def child_key_def)
qed

section \<open>The JSON engine\<close>

definition is_container :: "pyval \<Rightarrow> bool" where
  "is_container v = (case v of PList _ \<Rightarrow> True | PDict _ \<Rightarrow> True | _ \<Rightarrow> False)"

definition type_name :: "pyval \<Rightarrow> string" where
  "type_name v = (case v of PNone \<Rightarrow> ''NoneType'' | PBool _ \<Rightarrow> ''bool'' | PInt _ \<Rightarrow> ''int'' | PFloat _ \<Rightarrow> ''float''
     | PStr _ \<Rightarrow> ''str'' | PList _ \<Rightarrow> ''list'' | PDict _ \<Rightarrow> ''dict'')"

definition opt_get :: "pydict \<Rightarrow> string \<Rightarrow> pyval \<Rightarrow> pyval" where
  "opt_get opts k dflt = (case map_of opts k of Some v \<Rightarrow> v | None \<Rightarrow> dflt)"

definition as_object :: "pyval \<Rightarrow> pydict res" where
  "as_object loaded =
     (case loaded of
        PDict d \<Rightarrow> Inr d
      | PList xs \<Rightarrow> (case xs of [PDict d] \<Rightarrow> Inr d
                    | _ \<Rightarrow> Inl (ParseError ''expected a JSON object; got a top-level array''
                                 [(''length'', PInt (int (length xs)))]))
      | v \<Rightarrow> Inl (ParseError ''expected a JSON object at the top level'' [(''type'', PStr (type_name v))]))"

definition scalar_str :: "pyval \<Rightarrow> string" where
  "scalar_str v = (case v of PNone \<Rightarrow> ''null'' | PBool b \<Rightarrow> (if b then ''true'' else ''false'') | _ \<Rightarrow> py_str v)"

fun prepare :: "bool \<Rightarrow> pyval \<Rightarrow> pyval"
  and prepare_members :: "bool \<Rightarrow> pydict \<Rightarrow> pydict"
  and prepare_items :: "bool \<Rightarrow> pyval list \<Rightarrow> pyval list" where
  "prepare join (PDict d) = PDict (prepare_members join d)"
| "prepare join (PList xs) =
     (if join \<and> list_all (\<lambda>e. \<not> is_container e) xs
      then PStr (join_with '','' (map scalar_str xs)) else PList (prepare_items join xs))"
| "prepare join PNone = PNone"
| "prepare join (PBool b) = PBool b"
| "prepare join (PInt i) = PInt i"
| "prepare join (PFloat t) = PFloat t"
| "prepare join (PStr s) = PStr s"
| "prepare_members join [] = []"
| "prepare_members join ((k, v) # d) = (k, prepare join v) # prepare_members join d"
| "prepare_items join [] = []"
| "prepare_items join (v # xs) = prepare join v # prepare_items join xs"

definition json_parse :: "(string \<Rightarrow> string + pyval) \<Rightarrow> engine" where
  "json_parse loads t opts =
     (case loads t of
        Inl err \<Rightarrow> Inl (ParseError ''invalid JSON'' [(''error'', PStr err)])
      | Inr loaded \<Rightarrow>
          let mode = opt_get opts ''array_mode'' (PStr ''flatten'') in
          if mode \<noteq> PStr ''flatten'' \<and> mode \<noteq> PStr ''join''
          then Inl (ParseError ''unknown array_mode'' [(''array_mode'', mode)])
          else bind_res (as_object loaded) (\<lambda>obj.
            Inr (flatten (py_str (opt_get opts ''sep'' (PStr ''.''))) [] (prepare (mode = PStr ''join'') (PDict obj)))))"

interpretation json: flat_engine "json_parse loads" for loads
  by unfold_locales (auto simp: json_parse_def Let_def bind_res_Inr_iff split: sum.splits if_splits)

lemma prepare_flatten:
  "\<not> join \<Longrightarrow> prepare join v = v" "\<not> join \<Longrightarrow> prepare_members join d = d" "\<not> join \<Longrightarrow> prepare_items join xs = xs"
  by (induction join v and join d and join xs rule: prepare_prepare_members_prepare_items.induct) simp_all

text \<open>
  With the default options the JSON engine returns every scalar of the document with its own type, under
  its dotted path and in document order, for an object whose keys are not empty and have no dot; a
  one-element array of such an object is unwrapped.
\<close>

theorem json_engine_lossless:
  assumes "loads t = Inr (PDict obj) \<or> loads t = Inr (PList [PDict obj])" and "plain_keys (CHR ''.'') (PDict obj)"
  shows "json_parse loads t [] = Inr (leaves ''.'' [] (PDict obj))"
proof -
  have "flatten ''.'' [] (PDict obj) = leaves ''.'' [] (PDict obj)"
    using leaves_distinct(1) [OF _ refl assms(2), of "[]"]
    by (simp add: is_dec_def flatten_def flatten_is_update dict_update_fresh del: leaves.simps)
  then show ?thesis
    using assms(1) by (auto simp: json_parse_def opt_get_def as_object_def prepare_flatten simp del: prepare.simps)
qed

theorem json_engine_lossless_witness:
  "json_parse (\<lambda>_. Inr (PList [demo_value])) ''...'' []
     = Inr [(''tags.0'', PStr ''x''), (''tags.1'', PInt 2), (''user.name'', PStr ''bob''), (''user.x'', PNone)]"
proof -
  have "dec_digits 0 = ''0''" "dec_digits (Suc 0) = ''1''" by code_simp+
  then show ?thesis
    using json_engine_lossless [of "\<lambda>_. Inr (PList [demo_value])" "''...''" "dict_of demo_value"]
    by (simp add: demo_value_def dict_of_def child_key_def)
qed

end
