(* ===== verification/Kv_Engine.thy ===== *)
theory Kv_Engine
  imports Parse_Engine
begin

text \<open>
  The key=value engine (\<^verbatim>\<open>ulpf/parse/engines/kv_engine.py\<close>). An index into the text is represented by the
  rest of the text from there.
\<close>

section \<open>The scanner\<close>

fun read_quoted :: "string \<Rightarrow> string \<times> string" where
  "read_quoted [] = ([], [])"
| "read_quoted [c] = (if c = CHR 0x22 then ([], []) else ([c], []))"
| "read_quoted (c # d # r) =
     (if c = CHR 0x5C then let (v, k) = read_quoted r in (d # v, k)
      else if c = CHR 0x22 then ([], d # r)
      else let (v, k) = read_quoted (d # r) in (c # v, k))"

lemma length_read_quoted: "length (snd (read_quoted s)) \<le> length s"
  by (induction s rule: read_quoted.induct) (auto simp: case_prod_unfold Let_def)

function skip_seps :: "string \<Rightarrow> string \<Rightarrow> string" where
  "skip_seps p s = (if p \<noteq> [] \<and> starts_with p s then skip_seps p (drop (length p) s) else s)"
  by auto
termination by (relation "measure (length \<circ> snd)") (auto simp: starts_with_iff)

declare skip_seps.simps [simp del]

lemma length_skip_seps: "length (skip_seps p s) \<le> length s"
proof (induction p s rule: skip_seps.induct)
  case (1 p s)
  then show ?case by (subst skip_seps.simps) (auto intro: order_trans)
qed

text \<open>The value after the separator: a quoted run, or everything up to the next pair separator.\<close>

definition kv_value :: "string \<Rightarrow> bool \<Rightarrow> string \<Rightarrow> string \<times> string" where
  "kv_value p strip s =
     (if s \<noteq> [] \<and> hd s = CHR 0x22
      then let (v, r) = read_quoted (tl s) in (if strip then v else [CHR 0x22] @ v @ [CHR 0x22], r)
      else case find_sub p s of None \<Rightarrow> (s, []) | Some (v, r) \<Rightarrow> (v, p @ r))"

lemma length_kv_value: "length (snd (kv_value p strip s)) \<le> length s"
proof (cases "find_sub p s")
  case None
  then show ?thesis using length_read_quoted [of "tl s"] by (auto simp: kv_value_def case_prod_unfold Let_def)
next
  case (Some q)
  then obtain v r where "find_sub p s = Some (v, r)" by (cases q) simp
  then show ?thesis
    using length_read_quoted [of "tl s"] find_sub_Some [of p s v r] by (auto simp: kv_value_def case_prod_unfold Let_def)
qed

lemma scan_shorter:
  assumes "find_sub k (skip_seps p t) = Some (key, after)" and "k \<noteq> []"
  shows "length after < length t" and "(v, r) = kv_value p strip after \<Longrightarrow> length r < length t"
proof -
  show 1: "length after < length t" using find_sub_shorter [OF assms] length_skip_seps [of p t] by linarith
  show "length r < length t" if "(v, r) = kv_value p strip after"
    using that 1 length_kv_value [of p strip after] by (metis le_less_trans snd_conv)
qed

function scan :: "string \<Rightarrow> string \<Rightarrow> bool \<Rightarrow> (string \<times> string) list \<Rightarrow> string \<Rightarrow> (string \<times> string) list" where
  "scan p k strip acc t =
     (let s = skip_seps p t in
      if s = [] \<or> p = [] \<or> k = [] then acc else
      case find_sub k s of
        None \<Rightarrow> acc
      | Some (key, after) \<Rightarrow>
          (case find_sub p s of
             Some (tok, r) \<Rightarrow>
               if length tok < length key then scan p k strip acc r
               else let (v, r') = kv_value p strip after in scan p k strip (dict_set key v acc) r'
           | None \<Rightarrow> let (v, r') = kv_value p strip after in scan p k strip (dict_set key v acc) r'))"
  by auto
termination
  by (relation "measure (\<lambda>(p, k, strip, acc, t). length t)") (auto intro: scan_shorter)

declare scan.simps [simp del]

text \<open>
  \<^verbatim>\<open>KvEngine.parse\<close>. A separator that is not a string is rejected by \<^verbatim>\<open>str.startswith\<close> or \<^verbatim>\<open>str.find\<close>
  when the scan first uses it.
\<close>

definition kv_parse :: engine where
  "kv_parse t opts =
     (let pair = opt_get opts ''pair_separator'' (PStr '' ''); kv = opt_get opts ''kv_separator'' (PStr ''='');
          strip = py_truth (opt_get opts ''strip_quotes'' (PBool True)); body = py_strip t
      in if \<not> py_truth pair \<or> \<not> py_truth kv
         then Inl (ParseError ''pair_separator and kv_separator must be non-empty''
                    [(''pair_separator'', pair), (''kv_separator'', kv)])
         else if body = [] then Inr []
         else case pair of
           PStr p \<Rightarrow> (case kv of
               PStr k \<Rightarrow> Inr (map (\<lambda>(k, s). (k, PStr s)) (scan p k strip [] body))
             | _ \<Rightarrow> if skip_seps p body = [] then Inr [] else Inl (TypeError ''find() argument must be str''))
         | _ \<Rightarrow> Inl (TypeError ''startswith first arg must be str''))"

lemma dict_ok_strs [simp]: "dict_ok (map (\<lambda>(k, s). (k, PStr s)) d) = dict_ok d"
  by (simp add: dict_ok_def case_prod_unfold comp_def)

lemma scan_ok: "dict_ok acc \<Longrightarrow> dict_ok (scan p k strip acc t)"
proof (induction p k strip acc t rule: scan.induct)
  case (1 p k strip acc t)
  show ?case
    by (subst scan.simps) (auto simp: Let_def 1 case_prod_unfold split: option.split prod.split intro!: 1)
qed

interpretation kv: flat_engine kv_parse
  by unfold_locales (auto simp: kv_parse_def Let_def scan_ok split: if_splits pyval.splits)

section \<open>Printing and reading back\<close>

definition kv_escape :: "string \<Rightarrow> string" where
  "kv_escape v = concat (map (\<lambda>c. if c = CHR 0x5C \<or> c = CHR 0x22 then [CHR 0x5C, c] else [c]) v)"

definition kv_pair :: "char \<Rightarrow> string \<times> string \<Rightarrow> string" where
  "kv_pair kc = (\<lambda>(k, v). k @ kc # CHR 0x22 # kv_escape v @ [CHR 0x22])"

definition kv_print :: "char \<Rightarrow> char \<Rightarrow> (string \<times> string) list \<Rightarrow> string" where
  "kv_print pc kc kvs = join_with [pc] (map (kv_pair kc) kvs)"

lemma read_quoted_plain:
  "c \<noteq> CHR 0x5C \<Longrightarrow> c \<noteq> CHR 0x22 \<Longrightarrow> read_quoted (c # r) = (c # fst (read_quoted r), snd (read_quoted r))"
  by (cases r) (simp_all add: case_prod_unfold Let_def)

lemma read_quoted_escape: "read_quoted (kv_escape v @ CHR 0x22 # r) = (v, r)"
proof (induction v)
  case Nil
  show ?case by (cases r) (simp_all add: kv_escape_def)
next
  case (Cons c v)
  have e: "kv_escape (c # v) = (if c = CHR 0x5C \<or> c = CHR 0x22 then [CHR 0x5C, c] else [c]) @ kv_escape v"
    by (simp add: kv_escape_def)
  show ?case
  proof (cases "c = CHR 0x5C \<or> c = CHR 0x22")
    case True
    then have "kv_escape (c # v) @ CHR 0x22 # r = CHR 0x5C # c # (kv_escape v @ CHR 0x22 # r)" using e by simp
    then show ?thesis using Cons.IH by simp
  qed (simp add: e read_quoted_plain Cons.IH)
qed

lemma skip_seps_sep: "skip_seps [pc] (pc # t) = skip_seps [pc] t"
  by (subst skip_seps.simps) simp

lemma skip_seps_stop: "t = [] \<or> hd t \<noteq> pc \<Longrightarrow> skip_seps [pc] t = t"
  by (subst skip_seps.simps) (cases t; auto)

lemma scan_skips: "scan p k strip acc t = scan p k strip acc t'" if "skip_seps p t = skip_seps p t'"
  using that by (simp add: scan.simps [of p k strip acc t] scan.simps [of p k strip acc t'])

definition kv_key :: "char \<Rightarrow> char \<Rightarrow> string \<Rightarrow> bool" where
  "kv_key pc kc k \<longleftrightarrow> k \<noteq> [] \<and> pc \<notin> set k \<and> kc \<notin> set k"

lemma find_sub_after:
  assumes "find_sub [c] (a @ s) = Some (tok, r)" and "c \<notin> set a"
  shows "length a \<le> length tok"
proof (rule ccontr)
  assume n: "\<not> length a \<le> length tok"
  have "(a @ s) ! length tok = c" using find_sub_Some [OF assms(1)] by (simp add: nth_append)
  then show False using n assms(2) by (metis linorder_not_le nth_append nth_mem)
qed

lemma scan_pair:
  assumes "kv_key pc kc k"
  shows "scan [pc] [kc] True acc (kv_pair kc (k, v) @ r) = scan [pc] [kc] True (dict_set k v acc) r"
proof -
  let ?s = "kv_pair kc (k, v) @ r" and ?a = "CHR 0x22 # kv_escape v @ CHR 0x22 # r"
  have k: "k \<noteq> []" "pc \<notin> set k" "kc \<notin> set k" using assms by (simp_all add: kv_key_def)
  have s: "?s = k @ kc # ?a" by (simp add: kv_pair_def)
  have sk: "skip_seps [pc] ?s = ?s" unfolding s by (rule skip_seps_stop) (use k in \<open>cases k; auto\<close>)
  have fk: "find_sub [kc] ?s = Some (k, ?a)" unfolding s by (rule find_sub_single [OF k(3)])
  have val: "kv_value [pc] True ?a = (v, r)" by (simp add: kv_value_def read_quoted_escape)
  have tok: "\<not> length tok < length k" if "find_sub [pc] ?s = Some (tok, x)" for tok x
    using find_sub_after [of pc k] that k(2) unfolding s by fastforce
  have "?s \<noteq> []" using k(1) s by simp
  then show ?thesis
    by (subst scan.simps) (auto simp: sk fk val tok Let_def split: option.split)
qed

lemma scan_print:
  assumes "\<forall>(k, v) \<in> set kvs. kv_key pc kc k"
  shows "scan [pc] [kc] True acc (kv_print pc kc kvs) = dict_update acc kvs"
  using assms
proof (induction kvs arbitrary: acc)
  case Nil
  show ?case by (subst scan.simps) (simp add: kv_print_def skip_seps_stop)
next
  case (Cons p kvs)
  obtain k v where p: "p = (k, v)" by fastforce
  have k: "kv_key pc kc k" using Cons.prems p by simp
  show ?case
  proof (cases "kvs = []")
    case True
    have "scan [pc] [kc] True acc' [] = acc'" for acc' by (subst scan.simps) (simp add: skip_seps_stop)
    then show ?thesis using scan_pair [OF k, of acc v "[]"] by (simp add: True p kv_print_def)
  next
    case False
    then have "kv_print pc kc (p # kvs) = kv_pair kc (k, v) @ pc # kv_print pc kc kvs"
      by (simp add: kv_print_def p join_with_Cons)
    moreover have "scan [pc] [kc] True acc' (pc # kv_print pc kc kvs) = scan [pc] [kc] True acc' (kv_print pc kc kvs)" for acc'
      by (rule scan_skips) (rule skip_seps_sep)
    ultimately show ?thesis using scan_pair [OF k] Cons by (simp add: p)
  qed
qed

lemma py_strip_id: "s \<noteq> [] \<Longrightarrow> \<not> is_space (hd s) \<Longrightarrow> \<not> is_space (last s) \<Longrightarrow> py_strip s = s"
  unfolding py_strip_def lstrip_by_def rstrip_by_def by (metis dropWhile_eq_self_iff hd_rev rev_rev_ident)

text \<open>
  Reading back a printed line: for keys that are not empty and contain no white space and neither
  separator, and for values of any characters (spaces, separators, quotes and backslashes included), the
  engine recovers every pair; of two pairs with one key the later one stays.
\<close>

theorem kv_roundtrip:
  assumes "kvs \<noteq> []" and "\<forall>(k, v) \<in> set kvs. kv_key pc kc k \<and> (\<forall>c \<in> set k. \<not> is_space c)"
  shows "kv_parse (kv_print pc kc kvs) [(''pair_separator'', PStr [pc]), (''kv_separator'', PStr [kc])]
       = Inr (map (\<lambda>(k, s). (k, PStr s)) (dict_update [] kvs))"
proof -
  obtain k v r where kvs: "kvs = (k, v) # r" using assms(1) by (metis list.exhaust surj_pair)
  have k: "k \<noteq> []" "\<not> is_space (hd k)" using assms(2) by (auto simp: kvs kv_key_def)
  have "\<exists>x. kv_print pc kc kvs = x @ [CHR 0x22]" if "kvs \<noteq> []" for kvs
    using that by (induction kvs rule: list_nonempty_induct) (auto simp: kv_print_def kv_pair_def join_with_Cons)
  then have l: "last (kv_print pc kc kvs) = CHR 0x22" using assms(1) by (metis snoc_eq_iff_butlast)
  have h: "kv_print pc kc kvs \<noteq> []" "hd (kv_print pc kc kvs) = hd k"
    using k by (cases r; simp add: kvs kv_print_def kv_pair_def join_with_Cons)+
  have "py_strip (kv_print pc kc kvs) = kv_print pc kc kvs"
    by (rule py_strip_id) (use k l h in \<open>simp_all add: is_space_def\<close>)
  moreover have "scan [pc] [kc] True [] (kv_print pc kc kvs) = dict_update [] kvs"
    by (rule scan_print) (use assms(2) in auto)
  ultimately show ?thesis using h(1) by (simp add: kv_parse_def opt_get_def Let_def)
qed

theorem kv_roundtrip_witness:
  "kv_parse (''msg='' @ [CHR 0x22] @ ''src=1 '' @ [CHR 0x5C, CHR 0x22, CHR ''x'', CHR 0x22] @ '' n='' @ [CHR 0x22, CHR ''2'', CHR 0x22])
       [(''pair_separator'', PStr '' ''), (''kv_separator'', PStr ''='')]
     = Inr [(''msg'', PStr (''src=1 '' @ [CHR 0x22, CHR ''x''])), (''n'', PStr ''2'')]"
proof -
  let ?kvs = "[(''msg'', ''src=1 '' @ [CHR 0x22, CHR ''x'']), (''n'', ''2'')]"
  have "kv_print (CHR '' '') (CHR ''='') ?kvs
      = ''msg='' @ [CHR 0x22] @ ''src=1 '' @ [CHR 0x5C, CHR 0x22, CHR ''x'', CHR 0x22] @ '' n='' @ [CHR 0x22, CHR ''2'', CHR 0x22]"
    by (simp add: kv_print_def kv_pair_def kv_escape_def)
  moreover have "\<forall>(k, v) \<in> set ?kvs. kv_key (CHR '' '') (CHR ''='') k \<and> (\<forall>c \<in> set k. \<not> is_space c)"
    by (simp add: kv_key_def is_space_def)
  ultimately show ?thesis using kv_roundtrip [of ?kvs "CHR '' ''" "CHR ''=''"] by simp
qed

end
