(* ===== verification/Cef_Leef.thy ===== *)
theory Cef_Leef
  imports Kv_Engine
begin

text \<open>
  The CEF and LEEF engines (\<^verbatim>\<open>cef_engine.py\<close>, \<^verbatim>\<open>leef_engine.py\<close>): headers split at unescaped pipes, the
  CEF extension scanned for the next unescaped \<^verbatim>\<open>key=\<close>, the LEEF attributes split at a delimiter that the
  header names. Both modules have their own copy of the header functions; the loops are shared here.
\<close>

section \<open>Header splitting and escapes\<close>

fun pipe_loop :: "nat \<Rightarrow> string \<Rightarrow> string \<Rightarrow> string list" where
  "pipe_loop m buf [] = [buf]"
| "pipe_loop m buf [c] = (if c = CHR ''|'' \<and> 0 < m then [buf, []] else [buf @ [c]])"
| "pipe_loop m buf (c # d # r) =
     (if c = CHR 0x5C then pipe_loop m (buf @ [c, d]) r
      else if c = CHR ''|'' \<and> 0 < m then buf # pipe_loop (m - 1) [] (d # r)
      else pipe_loop m (buf @ [c]) (d # r))"

fun unescape_pairs :: "(char \<Rightarrow> char option) \<Rightarrow> string \<Rightarrow> string" where
  "unescape_pairs esc [] = []"
| "unescape_pairs esc [c] = [c]"
| "unescape_pairs esc (c # d # r) =
     (case if c = CHR 0x5C then esc d else None of
        Some x \<Rightarrow> x # unescape_pairs esc r
      | None \<Rightarrow> c # unescape_pairs esc (d # r))"

definition header_escapes :: "char \<Rightarrow> char option" where
  "header_escapes c = (if c = CHR ''|'' \<or> c = CHR 0x5C then Some c else None)"

definition split_unescaped_pipes :: "string \<Rightarrow> nat \<Rightarrow> string list" where
  "split_unescaped_pipes t maxsplit = pipe_loop maxsplit [] t"

definition unescape_header :: "string \<Rightarrow> string" where
  "unescape_header f = unescape_pairs header_escapes f"

section \<open>CEF\<close>

definition cef_header_keys :: "string list" where
  "cef_header_keys = [''CEFVersion'', ''deviceVendor'', ''deviceProduct'', ''deviceVersion'',
     ''deviceEventClassId'', ''name'', ''severity'']"

definition custom_bases :: "string list" where
  "custom_bases = [''cs1'', ''cs2'', ''cs3'', ''cs4'', ''cs5'', ''cs6'', ''cn1'', ''cn2'', ''cn3'',
     ''cfp1'', ''cfp2'', ''cfp3'', ''cfp4'', ''deviceCustomDate1'', ''deviceCustomDate2'']"

definition ext_escapes :: "char \<Rightarrow> char option" where
  "ext_escapes c = (if c = CHR 0x5C then Some (CHR 0x5C) else if c = CHR ''='' then Some (CHR ''='')
     else if c = CHR ''n'' then Some (CHR 0x0A) else if c = CHR ''r'' then Some (CHR 0x0D) else None)"

definition unescape_extension :: "string \<Rightarrow> string" where
  "unescape_extension v = unescape_pairs ext_escapes v"

definition key_char :: "char \<Rightarrow> bool" where
  "key_char c \<longleftrightarrow> c \<noteq> CHR ''='' \<and> c \<noteq> CHR '' '' \<and> c \<noteq> CHR 0x5C"

definition looks_like_key_eq :: "string \<Rightarrow> bool" where
  "looks_like_key_eq s \<longleftrightarrow> takeWhile key_char s \<noteq> [] \<and> dropWhile key_char s \<noteq> [] \<and> hd (dropWhile key_char s) = CHR ''=''"

text \<open>\<^verbatim>\<open>_find_value_end\<close>: the text before the end it finds and the text from there.\<close>

fun value_end :: "string \<Rightarrow> string \<times> string" where
  "value_end [] = ([], [])"
| "value_end [c] = ([c], [])"
| "value_end (c # d # r) =
     (if c = CHR 0x5C \<and> ext_escapes d \<noteq> None then let (v, k) = value_end r in (c # d # v, k)
      else if c = CHR '' '' \<and> looks_like_key_eq (d # r) then ([], c # d # r)
      else let (v, k) = value_end (d # r) in (c # v, k))"

lemma length_value_end: "length (snd (value_end s)) \<le> length s"
  by (induction s rule: value_end.induct) (auto simp: Let_def case_prod_unfold)

definition ext_key_char :: "char \<Rightarrow> bool" where
  "ext_key_char c \<longleftrightarrow> c \<noteq> CHR ''='' \<and> c \<noteq> CHR '' ''"

lemma parse_extension_shorter:
  assumes "dropWhile ext_key_char (dropWhile (\<lambda>c. c = CHR '' '') t) \<noteq> []"
  shows "hd (dropWhile ext_key_char (dropWhile (\<lambda>c. c = CHR '' '') t)) = CHR '' ''
      \<Longrightarrow> length (dropWhile ext_key_char (dropWhile (\<lambda>c. c = CHR '' '') t)) < length t"
    and "(v, r) = value_end (tl (dropWhile ext_key_char (dropWhile (\<lambda>c. c = CHR '' '') t))) \<Longrightarrow> length r < length t"
proof -
  let ?s = "dropWhile (\<lambda>c. c = CHR '' '') t"
  let ?r = "dropWhile ext_key_char ?s"
  have l: "length ?r \<le> length ?s" "length ?s \<le> length t" by (simp_all add: length_dropWhile_le)
  show "length ?r < length t" if "hd ?r = CHR '' ''"
  proof -
    obtain c s' where s: "?s = c # s'" using assms by (cases ?s) auto
    have "c \<noteq> CHR '' ''" using hd_dropWhile [of "\<lambda>c. c = CHR '' ''" t] s by simp
    then have "ext_key_char c" using that by (auto simp: s ext_key_char_def split: if_splits)
    then have "length ?r < length ?s" by (simp add: s length_dropWhile_le le_imp_less_Suc)
    then show ?thesis using l by linarith
  qed
  show "length r < length t" if "(v, r) = value_end (tl ?r)"
  proof -
    have "length r \<le> length (tl ?r)" using that length_value_end [of "tl ?r"] by (metis snd_conv)
    moreover have "length (tl ?r) < length ?r" using assms by (cases ?r) auto
    ultimately show ?thesis using l by linarith
  qed
qed

function parse_extension :: "(string \<times> string) list \<Rightarrow> string \<Rightarrow> (string \<times> string) list" where
  "parse_extension acc t =
     (let s = dropWhile (\<lambda>c. c = CHR '' '') t; key = takeWhile ext_key_char s; rest = dropWhile ext_key_char s in
      if rest = [] then acc
      else if hd rest = CHR '' '' then parse_extension acc rest
      else let (v, r) = value_end (tl rest)
           in parse_extension (if key \<noteq> [] then dict_set key (unescape_extension v) acc else acc) r)"
  by auto

termination
  by (relation "measure (length \<circ> snd)") (auto intro: parse_extension_shorter)

declare parse_extension.simps [simp del]

definition expand_label :: "(string \<times> string) list \<Rightarrow> string \<Rightarrow> (string \<times> string) list" where
  "expand_label d base =
     (case (map_of d base, map_of d (base @ ''Label'')) of
        (Some v, Some l) \<Rightarrow>
          (let label = py_strip l in
           if label \<noteq> [] \<and> label \<noteq> base \<and> label \<noteq> base @ ''Label'' then dict_set label v d else d)
      | _ \<Rightarrow> d)"

definition expand_custom_labels :: "(string \<times> string) list \<Rightarrow> (string \<times> string) list" where
  "expand_custom_labels d = foldl expand_label d custom_bases"

abbreviation strs :: "(string \<times> string) list \<Rightarrow> pydict" where
  "strs \<equiv> map (\<lambda>(k, s). (k, PStr s))"

definition cef_parse :: engine where
  "cef_parse t opts =
     (case find_sub ''CEF:'' t of
        None \<Rightarrow> Inl (ParseError (''no '' @ [CHR 0x27] @ ''CEF:'' @ [CHR 0x27] @ '' marker found in line'') [])
      | Some (_, rest) \<Rightarrow>
          (let segments = split_unescaped_pipes rest 7 in
           if length segments < 7
           then Inl (ParseError ''CEF header is incomplete'' [(''found'', PInt (int (length segments))), (''expected'', PInt 7)])
           else let d = zip cef_header_keys (map unescape_header (take 7 segments));
                    d' = (if 7 < length segments then dict_update d (parse_extension [] (segments ! 7)) else d)
                in Inr (strs (expand_custom_labels d'))))"

lemma parse_extension_ok: "dict_ok acc \<Longrightarrow> dict_ok (parse_extension acc t)"
proof (induction acc t rule: parse_extension.induct)
  case (1 acc t)
  show ?case by (subst parse_extension.simps) (auto simp: Let_def 1 split: prod.split intro!: 1)
qed

lemma expand_ok: "dict_ok d \<Longrightarrow> dict_ok (expand_custom_labels d)"
proof -
  have "dict_ok d \<Longrightarrow> dict_ok (foldl expand_label d bs)" for bs
    by (induction bs arbitrary: d) (auto simp: expand_label_def Let_def split: option.split)
  then show "dict_ok d \<Longrightarrow> dict_ok (expand_custom_labels d)" by (simp add: expand_custom_labels_def)
qed

lemma dict_ok_zip [simp]: "distinct ks \<Longrightarrow> dict_ok (zip ks vs)"
  by (simp add: dict_ok_def map_fst_zip_take)

lemma cef_header_keys_props [simp]: "distinct cef_header_keys" "length cef_header_keys = 7"
  by (simp_all add: cef_header_keys_def)

interpretation cef: flat_engine cef_parse
  by unfold_locales (auto simp: cef_parse_def Let_def parse_extension_ok expand_ok split: option.splits if_splits)

subsection \<open>Printing and reading back\<close>

definition escape_header :: "string \<Rightarrow> string" where
  "escape_header h = concat (map (\<lambda>c. if c = CHR ''|'' \<or> c = CHR 0x5C then [CHR 0x5C, c] else [c]) h)"

definition escape_ext_char :: "char \<Rightarrow> string" where
  "escape_ext_char c = (if c = CHR 0x5C \<or> c = CHR ''='' then [CHR 0x5C, c]
     else if c = CHR 0x0A then [CHR 0x5C, CHR ''n''] else if c = CHR 0x0D then [CHR 0x5C, CHR ''r''] else [c])"

definition escape_extension :: "string \<Rightarrow> string" where
  "escape_extension v = concat (map escape_ext_char v)"

lemma escape_header_Cons:
  "escape_header (c # h) = (if c = CHR ''|'' \<or> c = CHR 0x5C then [CHR 0x5C, c] else [c]) @ escape_header h"
  by (simp add: escape_header_def)

lemma escape_extension_Cons: "escape_extension (c # v) = escape_ext_char c @ escape_extension v"
  by (simp add: escape_extension_def)

lemma pipe_loop_simps:
  "c \<noteq> CHR 0x5C \<Longrightarrow> c \<noteq> CHR ''|'' \<Longrightarrow> pipe_loop m buf (c # r) = pipe_loop m (buf @ [c]) r"
  "pipe_loop (Suc m) buf (CHR ''|'' # r) = buf # pipe_loop m [] r"
  by (cases r; simp)+

lemma pipe_loop_rest: "pipe_loop 0 buf r = [buf @ r]"
  by (induction "0::nat" buf r rule: pipe_loop.induct) auto

lemma pipe_loop_escaped: "pipe_loop m buf (escape_header h @ r) = pipe_loop m (buf @ escape_header h) r"
proof (induction h arbitrary: buf)
  case (Cons c h)
  then show ?case
    by (cases "c = CHR ''|'' \<or> c = CHR 0x5C") (auto simp: escape_header_Cons pipe_loop_simps)
qed (simp add: escape_header_def)

lemma pipe_loop_header:
  "pipe_loop (length hs + m) [] (concat (map (\<lambda>h. escape_header h @ ''|'') hs) @ r) = map escape_header hs @ pipe_loop m [] r"
  by (induction hs) (simp_all add: pipe_loop_escaped pipe_loop_simps)

lemma unescape_pairs_plain: "c \<noteq> CHR 0x5C \<Longrightarrow> unescape_pairs esc (c # r) = c # unescape_pairs esc r"
  by (cases r) simp_all

lemma unescape_header_escape [simp]: "unescape_header (escape_header h) = h"
proof -
  have "unescape_pairs header_escapes (escape_header h) = h"
    by (induction h) (auto simp: escape_header_Cons unescape_pairs_plain header_escapes_def, simp add: escape_header_def)
  then show ?thesis by (simp add: unescape_header_def)
qed

lemma unescape_extension_escape [simp]: "unescape_extension (escape_extension v) = v"
proof -
  have "unescape_pairs ext_escapes (escape_extension v) = v"
    by (induction v)
      (auto simp: escape_extension_Cons escape_ext_char_def unescape_pairs_plain ext_escapes_def, simp add: escape_extension_def)
  then show ?thesis by (simp add: unescape_extension_def)
qed

lemma not_looks_like_escaped:
  assumes "r = [] \<or> hd r = CHR '' ''"
  shows "\<not> looks_like_key_eq (escape_extension v @ r)"
proof -
  have "dropWhile key_char (escape_extension v @ r) \<noteq> [] \<Longrightarrow> hd (dropWhile key_char (escape_extension v @ r)) \<noteq> CHR ''=''"
  proof (induction v)
    case Nil
    then show ?case using assms by (cases r) (auto simp: escape_extension_def key_char_def)
  next
    case (Cons c v)
    then show ?case by (auto simp: escape_extension_Cons escape_ext_char_def key_char_def split: if_splits)
  qed
  then show ?thesis by (auto simp: looks_like_key_eq_def)
qed

lemma value_end_plain:
  assumes "c \<noteq> CHR 0x5C" and "\<not> (c = CHR '' '' \<and> looks_like_key_eq r)"
  shows "value_end (c # r) = (c # fst (value_end r), snd (value_end r))"
  using assms by (cases r) (auto simp: case_prod_unfold Let_def)

lemma value_end_escaped:
  assumes "r = [] \<or> hd r = CHR '' '' \<and> looks_like_key_eq (tl r)"
  shows "value_end (escape_extension v @ r) = (escape_extension v, r)"
proof (induction v)
  case Nil
  show ?case
  proof (cases r)
    case (Cons c r')
    then obtain d r'' where "r = CHR '' '' # d # r''" using assms by (cases r') (auto simp: looks_like_key_eq_def)
    then show ?thesis using assms by (simp add: escape_extension_def)
  qed (simp add: escape_extension_def)
next
  case (Cons c v)
  show ?case
  proof (cases "escape_ext_char c = [c]")
    case True
    then have "c \<noteq> CHR 0x5C" by (auto simp: escape_ext_char_def)
    moreover have "\<not> looks_like_key_eq (escape_extension v @ r)" using not_looks_like_escaped assms by auto
    ultimately show ?thesis using Cons.IH by (simp add: escape_extension_Cons True value_end_plain)
  next
    case False
    then obtain d where "escape_ext_char c = [CHR 0x5C, d]" "ext_escapes d \<noteq> None"
      by (auto simp: escape_ext_char_def ext_escapes_def split: if_splits)
    then show ?thesis using Cons.IH by (simp add: escape_extension_Cons)
  qed
qed

definition ext_key :: "string \<Rightarrow> bool" where
  "ext_key k \<longleftrightarrow> k \<noteq> [] \<and> list_all key_char k"

definition ext_pair :: "string \<times> string \<Rightarrow> string" where
  "ext_pair = (\<lambda>(k, v). k @ ''='' @ escape_extension v)"

definition print_extension :: "(string \<times> string) list \<Rightarrow> string" where
  "print_extension kvs = join_with '' '' (map ext_pair kvs)"

lemma parse_extension_pair:
  assumes "ext_key k" and "r = [] \<or> hd r = CHR '' '' \<and> looks_like_key_eq (tl r)"
  shows "parse_extension acc (ext_pair (k, v) @ r) = parse_extension (dict_set k v acc) r"
proof -
  let ?t = "k @ CHR ''='' # escape_extension v @ r"
  have kc: "k \<noteq> []" "\<forall>c \<in> set k. key_char c" using assms(1) by (simp_all add: ext_key_def list_all_iff)
  have h: "hd k \<noteq> CHR '' ''" using kc by (metis hd_in_set key_char_def)
  have "\<forall>c \<in> set k. ext_key_char c" using kc(2) by (simp add: key_char_def ext_key_char_def)
  then have "takeWhile ext_key_char ?t = k" "dropWhile ext_key_char ?t = CHR ''='' # escape_extension v @ r"
    by (simp_all add: takeWhile_append dropWhile_append ext_key_char_def)
  moreover have "dropWhile (\<lambda>c. c = CHR '' '') ?t = ?t" using h kc(1) by (cases k) auto
  moreover have "\<not> ext_key_char (CHR ''='')" by (simp add: ext_key_char_def)
  ultimately show ?thesis
    using kc(1) value_end_escaped [OF assms(2), of v] by (simp add: parse_extension.simps [of acc] ext_pair_def Let_def)
qed

lemma parse_extension_space: "parse_extension acc (CHR '' '' # t) = parse_extension acc t"
  by (simp add: parse_extension.simps [of acc])

lemma ext_pair_is_key: "ext_key k \<Longrightarrow> looks_like_key_eq (ext_pair (k, v) @ r)"
  by (auto simp: ext_key_def ext_pair_def looks_like_key_eq_def list_all_iff takeWhile_append dropWhile_append key_char_def)

lemma parse_extension_print:
  "\<forall>(k, v) \<in> set kvs. ext_key k \<Longrightarrow> parse_extension acc (print_extension kvs) = dict_update acc kvs"
proof (induction kvs arbitrary: acc)
  case Nil
  show ?case by (simp add: print_extension_def parse_extension.simps)
next
  case (Cons p kvs)
  obtain k v where p: "p = (k, v)" by fastforce
  have k: "ext_key k" using Cons.prems p by simp
  show ?case
  proof (cases kvs)
    case Nil
    then show ?thesis
      using parse_extension_pair [OF k, of "[]" acc v] by (simp add: p print_extension_def parse_extension.simps [of _ "[]"])
  next
    case (Cons q kvs')
    obtain k' v' where q: "q = (k', v')" by fastforce
    have "looks_like_key_eq (print_extension kvs)"
      using ext_pair_is_key [of k' v'] Cons.prems(1) by (cases kvs') (auto simp: Cons q print_extension_def intro: ext_pair_is_key [of k' v' "[]", simplified])
    moreover have "print_extension (p # kvs) = ext_pair (k, v) @ '' '' @ print_extension kvs"
      by (simp add: print_extension_def Cons p)
    ultimately show ?thesis
      using parse_extension_pair [OF k, of "'' '' @ print_extension kvs" acc v] Cons.IH Cons.prems(1)
      by (simp add: parse_extension_space p)
  qed
qed

lemma find_sub_list [text_simps]:
  "find_sub p [] = (if p = [] then Some ([], []) else None)"
  "find_sub p (c # s) = (if starts_with p (c # s) then Some ([], drop (length p) (c # s))
     else map_option (\<lambda>(a, b). (c # a, b)) (find_sub p s))"
  by (subst find_sub.simps; cases p; simp)+

lemma starts_with_extend: "starts_with p s \<Longrightarrow> starts_with p (s @ t)"
  by (auto simp: starts_with_iff)

lemma starts_with_shrink: "starts_with p (s @ t) \<Longrightarrow> length p \<le> length s \<Longrightarrow> starts_with p s"
  by (auto simp: starts_with_iff append_eq_append_conv2)

lemma find_sub_extend: "find_sub p s = Some (a, b) \<Longrightarrow> find_sub p (s @ t) = Some (a, b @ t)"
proof (induction s arbitrary: a b)
  case Nil
  then show ?case by (cases t) (auto simp: find_sub_list split: if_splits)
next
  case (Cons c s)
  show ?case
  proof (cases "starts_with p (c # s)")
    case True
    then obtain r where "c # s = p @ r" by (auto simp: starts_with_iff)
    then have "drop (length p) ((c # s) @ t) = drop (length p) (c # s) @ t" by simp
    then show ?thesis using True Cons.prems starts_with_extend [OF True, of t] by (auto simp: find_sub_list)
  next
    case False
    then obtain a' where a: "a = c # a'" "find_sub p s = Some (a', b)" using Cons.prems by (auto simp: find_sub_list)
    then have "length p \<le> length s" using find_sub_Some [OF a(2)] by simp
    then have "\<not> starts_with p (c # s @ t)" using False starts_with_shrink [of p "c # s" t] by auto
    then show ?thesis using Cons.IH [OF a(2)] by (simp add: a(1) find_sub_list)
  qed
qed

definition print_cef :: "string \<Rightarrow> string list \<Rightarrow> (string \<times> string) list \<Rightarrow> string" where
  "print_cef pre hs kvs = pre @ ''CEF:'' @ concat (map (\<lambda>h. escape_header h @ ''|'') hs) @ print_extension kvs"

text \<open>
  Reading back a printed CEF line. After any text that does not yet contain the marker, for header fields
  and extension values of any characters (pipes, backslashes, equal signs, spaces and line breaks
  included) and extension keys that are not empty and contain no equal sign, space or backslash, the
  engine recovers every header field and every extension value; then the custom labels are expanded.
\<close>

theorem cef_roundtrip:
  assumes "length hs = 7" and "\<forall>(k, v) \<in> set kvs. ext_key k"
    and "find_sub ''CEF:'' (pre @ ''CEF:'') = Some (pre, [])"
  shows "cef_parse (print_cef pre hs kvs) opts
       = Inr (strs (expand_custom_labels (dict_update (zip cef_header_keys hs) (dict_update [] kvs))))"
proof -
  let ?b = "concat (map (\<lambda>h. escape_header h @ ''|'') hs) @ print_extension kvs"
  have f: "find_sub ''CEF:'' (print_cef pre hs kvs) = Some (pre, ?b)"
    using find_sub_extend [OF assms(3), of ?b] by (simp add: print_cef_def)
  have s: "split_unescaped_pipes ?b 7 = map escape_header hs @ [print_extension kvs]"
    using pipe_loop_header [of hs 0 "print_extension kvs"] assms(1) by (simp add: split_unescaped_pipes_def pipe_loop_rest)
  have "map unescape_header (take 7 (map escape_header hs @ [print_extension kvs])) = hs"
    using assms(1) by (simp add: comp_def)
  moreover have "(map escape_header hs @ [print_extension kvs]) ! 7 = print_extension kvs"
    using assms(1) by (metis length_map nth_append_length)
  ultimately show ?thesis
    using assms(1) parse_extension_print [OF assms(2), of "[]"] by (simp add: cef_parse_def f s Let_def)
qed

theorem cef_roundtrip_witness:
  "cef_parse (print_cef ''<13>h '' [''0'', ''A|B'', ''p'', ''1'', ''7'', ''n'', ''5''] [(''msg'', ''a=b c''), (''cs1'', ''x''), (''cs1Label'', ''Rule'')]) []
     = Inr (strs [(''CEFVersion'', ''0''), (''deviceVendor'', ''A|B''), (''deviceProduct'', ''p''), (''deviceVersion'', ''1''),
         (''deviceEventClassId'', ''7''), (''name'', ''n''), (''severity'', ''5''), (''msg'', ''a=b c''), (''cs1'', ''x''),
         (''cs1Label'', ''Rule''), (''Rule'', ''x'')])"
proof -
  let ?hs = "[''0'', ''A|B'', ''p'', ''1'', ''7'', ''n'', ''5'']" and ?kvs = "[(''msg'', ''a=b c''), (''cs1'', ''x''), (''cs1Label'', ''Rule'')]"
  have "\<forall>(k, v) \<in> set ?kvs. ext_key k" by (simp add: ext_key_def key_char_def)
  moreover have "find_sub ''CEF:'' (''<13>h '' @ ''CEF:'') = Some (''<13>h '', [])" by code_simp
  ultimately have "cef_parse (print_cef ''<13>h '' ?hs ?kvs) []
      = Inr (strs (expand_custom_labels (dict_update (zip cef_header_keys ?hs) (dict_update [] ?kvs))))"
    using cef_roundtrip [of ?hs ?kvs "''<13>h ''" "[]"] by simp
  moreover have "expand_custom_labels (dict_update (zip cef_header_keys ?hs) (dict_update [] ?kvs))
      = [(''CEFVersion'', ''0''), (''deviceVendor'', ''A|B''), (''deviceProduct'', ''p''), (''deviceVersion'', ''1''),
         (''deviceEventClassId'', ''7''), (''name'', ''n''), (''severity'', ''5''), (''msg'', ''a=b c''), (''cs1'', ''x''),
         (''cs1Label'', ''Rule''), (''Rule'', ''x'')]" by code_simp
  ultimately show ?thesis by simp
qed

section \<open>LEEF\<close>

definition leef_header_keys :: "string list" where
  "leef_header_keys = [''leefVersion'', ''vendor'', ''product'', ''productVersion'', ''eventId'']"

definition leef_split_header :: "string \<Rightarrow> nat \<Rightarrow> string list" where
  "leef_split_header t maxsplit = pipe_loop maxsplit [] t"

definition leef_unescape_header :: "string \<Rightarrow> string" where
  "leef_unescape_header f = unescape_pairs header_escapes f"

definition attribute_piece :: "(string \<times> string) list \<Rightarrow> string \<Rightarrow> (string \<times> string) list" where
  "attribute_piece acc piece =
     (case find_sub ''='' piece of
        None \<Rightarrow> acc
      | Some (k, v) \<Rightarrow> (let key = py_strip k in if key \<noteq> [] then dict_set key v acc else acc))"

definition parse_attributes :: "string \<Rightarrow> string \<Rightarrow> (string \<times> string) list" where
  "parse_attributes body delim = (if body = [] then [] else foldl attribute_piece [] (split_on delim body))"

definition is_lower_hex :: "char \<Rightarrow> bool" where
  "is_lower_hex c \<longleftrightarrow> is_dec c \<or> 97 \<le> code c \<and> code c \<le> 102"

definition nat_of_hex :: "string \<Rightarrow> nat" where
  "nat_of_hex s = foldl (\<lambda>n c. 16 * n + (case hex_val c of Some d \<Rightarrow> d | None \<Rightarrow> 0)) 0 s"

definition hex_delimiter :: "string \<Rightarrow> string \<Rightarrow> string res" where
  "hex_delimiter rw hex =
     (if 1 \<le> length hex \<and> length hex \<le> 2 \<and> list_all is_lower_hex hex then Inr [ch (nat_of_hex hex)]
      else Inl (ParseError ''invalid LEEF 2.0 hex delimiter'' [(''delimiter'', PStr rw)]))"

definition resolve_delimiter :: "string \<Rightarrow> string res" where
  "resolve_delimiter rw =
     (let lowered = py_lower rw in
      if rw = [] then Inr [CHR 0x09]
      else if starts_with ''0x'' lowered then hex_delimiter rw (drop 2 lowered)
      else if starts_with ''x'' lowered \<and> 1 < length lowered then hex_delimiter rw (drop 1 lowered)
      else if length rw = 1 then Inr rw
      else Inl (ParseError ''invalid LEEF 2.0 delimiter'' [(''delimiter'', PStr rw)]))"

definition parse_v1 :: "string \<Rightarrow> pydict res" where
  "parse_v1 rest =
     (let parts = leef_split_header rest 5 in
      if length parts < 5
      then Inl (ParseError ''LEEF 1.0 header is incomplete'' [(''found'', PInt (int (length parts)))])
      else Inr (strs (dict_update (zip leef_header_keys (map leef_unescape_header (take 5 parts)))
                 (parse_attributes (if 5 < length parts then parts ! 5 else []) [CHR 0x09]))))"

definition parse_v2 :: "string \<Rightarrow> pydict res" where
  "parse_v2 rest =
     (let parts = leef_split_header rest 6 in
      if length parts < 6
      then Inl (ParseError ''LEEF 2.0 header is incomplete'' [(''found'', PInt (int (length parts)))])
      else let rw = leef_unescape_header (parts ! 5);
               d = dict_set ''delimiter'' rw (zip leef_header_keys (map leef_unescape_header (take 5 parts)))
           in bind_res (resolve_delimiter rw) (\<lambda>delim.
                Inr (strs (dict_update d (parse_attributes (if 6 < length parts then parts ! 6 else []) delim)))))"

definition leef_parse :: engine where
  "leef_parse t opts =
     (case find_sub ''LEEF:'' (rstrip_by (\<lambda>c. c = CHR 0x0D \<or> c = CHR 0x0A) t) of
        None \<Rightarrow> Inl (ParseError (''no '' @ [CHR 0x27] @ ''LEEF:'' @ [CHR 0x27] @ '' marker found in line'') [])
      | Some (_, rest) \<Rightarrow>
          (let version = py_strip (hd (split_max 1 ''|'' rest)) in
           if starts_with ''1'' version then parse_v1 rest
           else if starts_with ''2'' version then parse_v2 rest
           else Inl (ParseError ''unsupported LEEF version'' [(''version'', PStr version)])))"

lemma leef_keys_distinct [simp]: "distinct leef_header_keys" "length leef_header_keys = 5"
  by (simp_all add: leef_header_keys_def)

interpretation leef: flat_engine leef_parse
  by unfold_locales
    (auto simp: leef_parse_def parse_v1_def parse_v2_def Let_def bind_res_Inr_iff split: option.splits if_splits)

subsection \<open>Printing and reading back\<close>

definition attribute_key :: "char \<Rightarrow> string \<Rightarrow> bool" where
  "attribute_key dc k \<longleftrightarrow> k \<noteq> [] \<and> py_strip k = k \<and> CHR ''='' \<notin> set k \<and> dc \<notin> set k"

definition print_attrs :: "char \<Rightarrow> (string \<times> string) list \<Rightarrow> string" where
  "print_attrs dc kvs = join_with [dc] (map (\<lambda>(k, v). k @ ''='' @ v) kvs)"

definition print_leef2 :: "string \<Rightarrow> string list \<Rightarrow> string \<Rightarrow> char \<Rightarrow> (string \<times> string) list \<Rightarrow> string" where
  "print_leef2 pre hs dl dc kvs =
     pre @ ''LEEF:'' @ concat (map (\<lambda>h. escape_header h @ ''|'') (hs @ [dl])) @ print_attrs dc kvs"

lemma attribute_pieces:
  "\<forall>(k, v) \<in> set kvs. attribute_key dc k \<Longrightarrow>
     foldl attribute_piece acc (map (\<lambda>(k, v). k @ ''='' @ v) kvs) = dict_update acc kvs"
  by (induction kvs arbitrary: acc) (auto simp: attribute_piece_def attribute_key_def find_sub_single)

lemma parse_print_attrs:
  assumes "\<forall>(k, v) \<in> set kvs. attribute_key dc k \<and> dc \<notin> set v" and "dc \<noteq> CHR ''=''"
  shows "parse_attributes (print_attrs dc kvs) [dc] = dict_update [] kvs"
proof (cases "kvs = []")
  case False
  have "split_on [dc] (print_attrs dc kvs) = map (\<lambda>(k, v). k @ ''='' @ v) kvs"
    unfolding print_attrs_def by (rule split_join_single) (use False assms in \<open>auto simp: attribute_key_def\<close>)
  moreover have "print_attrs dc kvs \<noteq> []"
  proof -
    obtain k v r where "kvs = (k, v) # r" using False by (metis list.exhaust surj_pair)
    then show ?thesis by (cases r) (auto simp: print_attrs_def)
  qed
  moreover have "\<forall>(k, v) \<in> set kvs. attribute_key dc k" using assms(1) by auto
  ultimately show ?thesis using attribute_pieces [of kvs dc "[]"] by (simp add: parse_attributes_def)
qed (simp add: parse_attributes_def print_attrs_def)

lemma last_print_attrs:
  "print_attrs dc (kvs @ [(k, v)]) \<noteq> [] \<and> last (print_attrs dc (kvs @ [(k, v)])) = (if v = [] then CHR ''='' else last v)"
proof (induction kvs)
  case Nil
  show ?case by (simp add: print_attrs_def)
next
  case (Cons p kvs)
  obtain k' v' where p: "p = (k', v')" by fastforce
  have "print_attrs dc ((p # kvs) @ [(k, v)]) = (k' @ ''='' @ v') @ [dc] @ print_attrs dc (kvs @ [(k, v)])"
    unfolding print_attrs_def by (simp add: join_with_Cons p)
  then show ?case using Cons.IH by (simp only: last_appendR append_is_Nil_conv) simp
qed

lemma rstrip_by_id: "\<not> P (last s) \<Longrightarrow> rstrip_by P s = s"
  by (cases s rule: rev_cases) (simp_all add: rstrip_by_def)

text \<open>
  Reading back a printed LEEF 2.0 line: with the delimiter named in any form the header allows, for header
  fields of any characters, attribute keys without surrounding space, equal sign or delimiter, and values
  without the delimiter and line breaks, the engine recovers the header fields and every attribute.
\<close>

theorem leef2_roundtrip:
  assumes "hs = ''2.0'' # hs'" and "length hs = 5" and "resolve_delimiter dl = Inr [dc]" and "dc \<noteq> CHR ''=''"
    and "\<forall>(k, v) \<in> set kvs. attribute_key dc k \<and> dc \<notin> set v \<and> CHR 0x0A \<notin> set v \<and> CHR 0x0D \<notin> set v"
    and "find_sub ''LEEF:'' (pre @ ''LEEF:'') = Some (pre, [])"
  shows "leef_parse (print_leef2 pre hs dl dc kvs) opts
       = Inr (strs (dict_update (dict_set ''delimiter'' dl (zip leef_header_keys hs)) (dict_update [] kvs)))"
proof -
  let ?t = "print_leef2 pre hs dl dc kvs"
  let ?b = "concat (map (\<lambda>h. escape_header h @ ''|'') (hs @ [dl])) @ print_attrs dc kvs"
  have "last ?t \<notin> {CHR 0x0A, CHR 0x0D}"
  proof (cases "kvs = []")
    case False
    then obtain kvs' k v where kvs: "kvs = kvs' @ [(k, v)]" by (metis rev_exhaust surj_pair)
    then have "CHR 0x0A \<notin> set v" "CHR 0x0D \<notin> set v" using assms(5) by auto
    then have "v = [] \<or> last v \<noteq> CHR 0x0A \<and> last v \<noteq> CHR 0x0D" using last_in_set [of v] by metis
    then show ?thesis using last_print_attrs [of dc kvs' k v] by (auto simp: print_leef2_def kvs)
  qed (simp add: print_leef2_def print_attrs_def)
  then have r: "rstrip_by (\<lambda>c. c = CHR 0x0D \<or> c = CHR 0x0A) ?t = ?t" by (intro rstrip_by_id) auto
  have f: "find_sub ''LEEF:'' ?t = Some (pre, ?b)"
    using find_sub_extend [OF assms(6), of ?b] by (simp add: print_leef2_def)
  have "split_max 1 ''|'' ?b = [''2.0'', concat (map (\<lambda>h. escape_header h @ ''|'') (hs' @ [dl])) @ print_attrs dc kvs]"
    by (simp add: assms(1) escape_header_def find_sub_list)
  then have v: "py_strip (hd (split_max 1 ''|'' ?b)) = ''2.0''" by (simp add: py_strip_id is_space_def)
  have s: "leef_split_header ?b 6 = map escape_header (hs @ [dl]) @ [print_attrs dc kvs]"
    using pipe_loop_header [of "hs @ [dl]" 0] assms(2) by (simp add: leef_split_header_def pipe_loop_rest)
  have u: "leef_unescape_header (escape_header h) = h" for h
    using unescape_header_escape by (simp add: leef_unescape_header_def unescape_header_def)
  have n: "(map escape_header (hs @ [dl]) @ [x]) ! 5 = escape_header dl" "(map escape_header (hs @ [dl]) @ [x]) ! 6 = x" for x
    using assms(2) by (simp_all add: nth_append)
  have h: "map leef_unescape_header (take 5 (map escape_header (hs @ [dl]))) = hs"
    using assms(2) by (simp add: comp_def u)
  have a: "parse_attributes (print_attrs dc kvs) [dc] = dict_update [] kvs"
    by (rule parse_print_attrs) (use assms(4,5) in auto)
  have "parse_v2 ?b = Inr (strs (dict_update (dict_set ''delimiter'' dl (zip leef_header_keys hs)) (dict_update [] kvs)))"
    using assms(2) by (simp add: parse_v2_def s n u h a assms(3) Let_def comp_def del: map_append)
  then show ?thesis unfolding leef_parse_def r f option.case prod.case Let_def v by simp
qed

theorem leef2_roundtrip_witness:
  "leef_parse (print_leef2 [] [''2.0'', ''A|B'', ''p'', ''1'', ''e''] ''x5e'' (CHR ''^'') [(''src'', ''a=b''), (''n'', [])]) []
     = Inr (strs [(''leefVersion'', ''2.0''), (''vendor'', ''A|B''), (''product'', ''p''), (''productVersion'', ''1''),
         (''eventId'', ''e''), (''delimiter'', ''x5e''), (''src'', ''a=b''), (''n'', [])])"
proof -
  let ?hs = "[''2.0'', ''A|B'', ''p'', ''1'', ''e'']" and ?kvs = "[(''src'', ''a=b''), (''n'', [])]"
  have d: "resolve_delimiter ''x5e'' = Inr ''^''" by code_simp
  have k: "\<forall>(k, v) \<in> set ?kvs. attribute_key (CHR ''^'') k \<and> CHR ''^'' \<notin> set v \<and> CHR 0x0A \<notin> set v \<and> CHR 0x0D \<notin> set v"
    by (simp add: attribute_key_def py_strip_id is_space_def)
  have m: "find_sub ''LEEF:'' ([] @ ''LEEF:'') = Some ([], [])" by code_simp
  show ?thesis
    using leef2_roundtrip [OF refl _ d _ k m, of "tl ?hs" "[]"] by (simp add: leef_header_keys_def)
qed

end
