(* ===== verification/Tabular_Engines.thy ===== *)
theory Tabular_Engines
  imports Cef_Leef
begin

text \<open>
  The positional engines: CSV (\<^verbatim>\<open>csv_engine.py\<close>, with the column maps of \<^verbatim>\<open>column_maps.py\<close> and the
  record reader of Python's \<^verbatim>\<open>csv\<close> module) and Zeek TSV (\<^verbatim>\<open>tsv_engine.py\<close>), whose schema memory is kept
  per stream. Keys of a result are strings; a column name of another type is represented by its text.
\<close>

section \<open>Column maps\<close>

definition panos_traffic_10_1 :: "string list" where
  "panos_traffic_10_1 =
    [''future_use_1'', ''receive_time'', ''serial_number'', ''type'', ''threat_content_type'',
     ''future_use_2'', ''generated_time'', ''src_ip'', ''dst_ip'', ''nat_src_ip'', ''nat_dst_ip'',
     ''rule_name'', ''src_user'', ''dst_user'', ''app'', ''vsys'', ''src_zone'', ''dst_zone'',
     ''ingress_interface'', ''egress_interface'', ''log_action'', ''future_use_3'', ''session_id'',
     ''repeat_count'', ''src_port'', ''dst_port'', ''nat_src_port'', ''nat_dst_port'', ''flags'',
     ''protocol'', ''action'', ''bytes'', ''bytes_sent'', ''bytes_received'', ''packets'',
     ''start_time'', ''elapsed_time'', ''category'', ''future_use_4'', ''sequence_number'',
     ''action_flags'', ''src_location'', ''dst_location'', ''future_use_5'', ''packets_sent'',
     ''packets_received'', ''session_end_reason'']"

definition panos_traffic_11_0 :: "string list" where
  "panos_traffic_11_0 = take 12 panos_traffic_10_1 @ [''tunnel_inspection_rule''] @ drop 12 panos_traffic_10_1
     @ [''link_change_count'', ''policy_id'', ''link_switches'']"

definition column_maps :: "((string \<times> string) \<times> string list) list" where
  "column_maps = [((''panos_traffic'', ''10.1''), panos_traffic_10_1), ((''panos_traffic'', ''11.0''), panos_traffic_11_0)]"

definition get_column_map :: "string \<Rightarrow> string \<Rightarrow> string list res" where
  "get_column_map product version =
     (case map_of column_maps (product, version) of
        Some cols \<Rightarrow> Inr cols
      | None \<Rightarrow> Inl (KeyError (''no column map for product='' @ repr_str product @ '' version='' @ repr_str version)))"

section \<open>The record reader of the csv module\<close>

text \<open>
  \<^verbatim>\<open>csv.reader([text], delimiter=d, quotechar=q)\<close> and the first \<^verbatim>\<open>next\<close>: the states of CPython's reader
  with its default dialect (doubled quotes, no escape character, not strict), including the limit on the
  length of a field. A quoted field that is still open at the end of the text is kept as it is.
\<close>

datatype csv_state = StartRecord | StartField | InField | InQuoted | QuoteInQuoted | EatCrnl

definition field_limit :: nat where
  "field_limit = 131072"

definition is_newline :: "char \<Rightarrow> bool" where
  "is_newline c \<longleftrightarrow> c = CHR 0x0A \<or> c = CHR 0x0D"

text \<open>The state, the current field and the fields saved so far.\<close>

type_synonym csv_reader = "csv_state \<times> string \<times> string list"

definition add_char :: "char \<Rightarrow> csv_state \<Rightarrow> string \<Rightarrow> string list \<Rightarrow> csv_reader res" where
  "add_char c st cur row =
     (if field_limit \<le> length cur then Inl (ValueError ''field larger than field limit (131072)'')
      else Inr (st, cur @ [c], row))"

definition start_field :: "char \<Rightarrow> char \<Rightarrow> char \<Rightarrow> string \<Rightarrow> string list \<Rightarrow> csv_reader res" where
  "start_field d q c cur row =
     (if is_newline c then Inr (EatCrnl, [], row @ [cur])
      else if c = q then Inr (InQuoted, cur, row)
      else if c = d then Inr (StartField, [], row @ [cur])
      else add_char c InField cur row)"

fun csv_step :: "char \<Rightarrow> char \<Rightarrow> char \<Rightarrow> csv_reader \<Rightarrow> csv_reader res" where
  "csv_step d q c (StartRecord, cur, row) = (if is_newline c then Inr (EatCrnl, cur, row) else start_field d q c cur row)"
| "csv_step d q c (StartField, cur, row) = start_field d q c cur row"
| "csv_step d q c (InField, cur, row) =
     (if is_newline c then Inr (EatCrnl, [], row @ [cur])
      else if c = d then Inr (StartField, [], row @ [cur])
      else add_char c InField cur row)"
| "csv_step d q c (InQuoted, cur, row) =
     (if c = q then Inr (QuoteInQuoted, cur, row) else add_char c InQuoted cur row)"
| "csv_step d q c (QuoteInQuoted, cur, row) =
     (if c = q then add_char c InQuoted cur row
      else if c = d then Inr (StartField, [], row @ [cur])
      else if is_newline c then Inr (EatCrnl, [], row @ [cur])
      else add_char c InField cur row)"
| "csv_step d q c (EatCrnl, cur, row) =
     (if is_newline c then Inr (EatCrnl, cur, row)
      else Inl (ValueError ''new-line character seen in unquoted field - do you need to open the file in universal-newline mode?''))"

fun csv_run :: "char \<Rightarrow> char \<Rightarrow> string \<Rightarrow> csv_reader \<Rightarrow> csv_reader res" where
  "csv_run d q [] r = Inr r"
| "csv_run d q (c # s) r = bind_res (csv_step d q c r) (csv_run d q s)"

text \<open>The end of the text: fields are saved unless the record has already ended.\<close>

fun csv_finish :: "csv_reader \<Rightarrow> string list" where
  "csv_finish (StartRecord, cur, row) = row"
| "csv_finish (EatCrnl, cur, row) = row"
| "csv_finish (_, cur, row) = row @ [cur]"

definition csv_record :: "char \<Rightarrow> char \<Rightarrow> string \<Rightarrow> string list res" where
  "csv_record d q t = bind_res (csv_run d q t (StartRecord, [], [])) (\<lambda>r. Inr (csv_finish r))"

section \<open>The CSV engine\<close>

definition resolve_column_map :: "pyval \<Rightarrow> string list option res" where
  "resolve_column_map spec =
     (case spec of
        PDict d \<Rightarrow>
          (let product = py_get d ''product''; version = py_get d ''version'' in
           if \<not> py_truth product \<or> version = PNone then Inr None
           else case get_column_map (py_str product) (py_str version) of
                  Inr cols \<Rightarrow> Inr (Some cols)
                | Inl _ \<Rightarrow> Inl (ParseError ''unknown column_map'' [(''column_map'', spec)]))
      | _ \<Rightarrow> Inr None)"

text \<open>\<^verbatim>\<open>[str(name) for name in v]\<close>.\<close>

definition iter_names :: "pyval \<Rightarrow> string list res" where
  "iter_names v =
     (case v of PList xs \<Rightarrow> Inr (map py_str xs) | PStr s \<Rightarrow> Inr (map (\<lambda>c. [c]) s) | PDict d \<Rightarrow> Inr (map fst d)
      | _ \<Rightarrow> Inl (TypeError ''object is not iterable''))"

definition py_len :: "pyval \<Rightarrow> nat res" where
  "py_len v =
     (case v of PList xs \<Rightarrow> Inr (length xs) | PStr s \<Rightarrow> Inr (length s) | PDict d \<Rightarrow> Inr (length d)
      | _ \<Rightarrow> Inl (TypeError ''object has no len()''))"

definition read_row :: "string \<Rightarrow> pyval \<Rightarrow> pyval \<Rightarrow> string list res" where
  "read_row t delim quotechar =
     (case (delim, quotechar) of
        (PStr [d], PStr [q]) \<Rightarrow>
          (case csv_record d q t of
             Inr row \<Rightarrow> Inr row
           | Inl (ValueError m) \<Rightarrow> Inl (ParseError ''malformed CSV row'' [(''error'', PStr m)])
           | Inl x \<Rightarrow> Inl x)
      | _ \<Rightarrow> Inl (TypeError ''delimiter and quotechar must be 1-character strings''))"

definition clean :: "string \<Rightarrow> bool \<Rightarrow> pyval" where
  "clean v skip_empty = (if skip_empty \<and> v = [] then PNone else PStr v)"

fun map_columns :: "bool \<Rightarrow> string list \<Rightarrow> string list \<Rightarrow> pydict \<Rightarrow> pydict" where
  "map_columns skip row [] result = result"
| "map_columns skip [] (name # names) result = dict_set ''_truncated'' (PBool True) result"
| "map_columns skip (v # row) (name # names) result = map_columns skip row names (dict_set name (clean v skip) result)"

definition extra_key :: "nat \<Rightarrow> string" where
  "extra_key i = ''_extra.'' @ dec_digits i"

definition map_row :: "string list \<Rightarrow> string list \<Rightarrow> bool \<Rightarrow> pydict" where
  "map_row row columns skip =
     foldl (\<lambda>result i. dict_set (extra_key i) (clean (row ! i) skip) result) (map_columns skip row columns [])
       [length columns ..< length row]"

definition quoted :: "string \<Rightarrow> string" where
  "quoted s = [CHR 0x27] @ s @ [CHR 0x27]"

definition csv_columns :: "pydict \<Rightarrow> pyval res" where
  "csv_columns opts =
     (let given = py_get opts ''columns'' in
      if py_truth given then Inr given
      else bind_res (resolve_column_map (py_get opts ''column_map'')) (\<lambda>m.
             Inr (case m of Some cols \<Rightarrow> PList (map PStr cols) | None \<Rightarrow> PNone)))"

definition csv_parse :: engine where
  "csv_parse t opts = bind_res (csv_columns opts) (\<lambda>columns.
     if \<not> py_truth columns
     then Inl (ParseError (''csv engine requires a '' @ quoted ''columns'' @ '' list or a resolvable '' @ quoted ''column_map'' @ '' option'') [])
     else let delim = opt_get opts ''delimiter'' (PStr '',''); quotechar = opt_get opts ''quotechar'' (PStr [CHR 0x22]);
              skip = py_truth (opt_get opts ''skip_empty'' (PBool True)) in
          bind_res (py_len delim) (\<lambda>n.
            if n \<noteq> 1 then Inl (ParseError ''delimiter must be a single character'' [(''delimiter'', delim)])
            else bind_res (read_row t delim quotechar) (\<lambda>row.
                   bind_res (iter_names columns) (\<lambda>names. Inr (map_row row names skip)))))"

lemma leaf_clean [simp]: "leaf (clean v skip)"
  by (simp add: clean_def)

lemma map_columns_ok: "dict_ok r \<and> flat r \<Longrightarrow> dict_ok (map_columns skip row cols r) \<and> flat (map_columns skip row cols r)"
  by (induction skip row cols r rule: map_columns.induct) simp_all

lemma map_row_ok: "dict_ok (map_row row cols skip) \<and> flat (map_row row cols skip)"
proof -
  have "dict_ok r \<and> flat r \<Longrightarrow>
      dict_ok (foldl (\<lambda>result i. dict_set (extra_key i) (clean (row ! i) skip) result) r is)
    \<and> flat (foldl (\<lambda>result i. dict_set (extra_key i) (clean (row ! i) skip) result) r is)" for r "is"
    by (induction "is" arbitrary: r) simp_all
  with map_columns_ok [of "[]"] show ?thesis by (simp add: map_row_def)
qed

interpretation csv: flat_engine csv_parse
  by unfold_locales (auto simp: csv_parse_def Let_def bind_res_Inr_iff map_row_ok split: if_splits)

subsection \<open>Printing and reading back\<close>

definition csv_quote :: "char \<Rightarrow> string \<Rightarrow> string" where
  "csv_quote q v = q # concat (map (\<lambda>c. if c = q then [q, q] else [c]) v) @ [q]"

definition print_row :: "char \<Rightarrow> char \<Rightarrow> string list \<Rightarrow> string" where
  "print_row d q row = join_with [d] (map (csv_quote q) row)"

lemma csv_run_quoted:
  "length cur + length v \<le> field_limit \<Longrightarrow>
     csv_run d q (concat (map (\<lambda>c. if c = q then [q, q] else [c]) v) @ r) (InQuoted, cur, row)
       = csv_run d q r (InQuoted, cur @ v, row)"
  by (induction v arbitrary: cur) (simp_all add: add_char_def)

lemma csv_run_field:
  assumes "length v \<le> field_limit" and "\<not> is_newline q" and "st = StartRecord \<or> st = StartField"
  shows "csv_run d q (csv_quote q v @ r) (st, [], row) = csv_run d q r (QuoteInQuoted, v, row)"
  using assms csv_run_quoted [of "[]" v d q "q # r" row] by (auto simp: csv_quote_def start_field_def)

lemma csv_run_row:
  assumes "\<not> is_newline q" and "d \<noteq> q" and "row \<noteq> []" and "\<forall>v \<in> set row. length v \<le> field_limit"
  shows "st = StartRecord \<or> st = StartField \<Longrightarrow>
    csv_run d q (print_row d q row) (st, [], done) = Inr (QuoteInQuoted, last row, done @ butlast row)"
  using assms(3,4)
proof (induction row arbitrary: st "done" rule: list_nonempty_induct)
  case (single v)
  then show ?case using csv_run_field [OF _ assms(1) single(1), of v d "[]"] by (simp add: print_row_def)
next
  case (cons v row)
  then have "print_row d q (v # row) = csv_quote q v @ d # print_row d q row" by (simp add: print_row_def join_with_Cons)
  then show ?case using csv_run_field [OF _ assms(1) cons(3), of v d] cons assms(2) by simp
qed

lemma csv_record_print:
  "\<not> is_newline q \<Longrightarrow> d \<noteq> q \<Longrightarrow> row \<noteq> [] \<Longrightarrow> \<forall>v \<in> set row. length v \<le> field_limit
     \<Longrightarrow> csv_record d q (print_row d q row) = Inr row"
  by (simp add: csv_record_def csv_run_row)

text \<open>What a row means: named columns, a mark when the row is short, numbered extras when it is long.\<close>

definition row_fields :: "string list \<Rightarrow> string list \<Rightarrow> bool \<Rightarrow> pydict" where
  "row_fields row cols skip =
     zip cols (map (\<lambda>v. clean v skip) row)
     @ (if length row < length cols then [(''_truncated'', PBool True)] else [])
     @ map (\<lambda>i. (extra_key i, clean (row ! i) skip)) [length cols ..< length row]"

lemma map_columns_update:
  "map_columns skip row cols r
     = dict_update r (zip cols (map (\<lambda>v. clean v skip) row) @ (if length row < length cols then [(''_truncated'', PBool True)] else []))"
  by (induction skip row cols r rule: map_columns.induct) simp_all

lemma map_row_update: "map_row row cols skip = dict_update [] (row_fields row cols skip)"
proof -
  have "foldl (\<lambda>result i. dict_set (extra_key i) (clean (row ! i) skip) result) r is
      = dict_update r (map (\<lambda>i. (extra_key i, clean (row ! i) skip)) is)" for r "is"
    by (induction "is" arbitrary: r) simp_all
  then show ?thesis by (simp add: map_row_def row_fields_def map_columns_update dict_update_append)
qed

lemma distinct_row_fields:
  assumes "distinct (cols @ ''_truncated'' # map extra_key [length cols ..< length row])"
  shows "distinct (map fst (row_fields row cols skip))"
proof -
  have "map fst (zip cols (map (\<lambda>v. clean v skip) row)) = take (length row) cols" by (simp add: map_fst_zip_take min_def)
  moreover have "set (take (length row) cols) \<subseteq> set cols" by (rule set_take_subset)
  ultimately show ?thesis using assms by (auto simp: row_fields_def comp_def)
qed

text \<open>
  A record written with every field quoted (inner quotes doubled) is read back by the CSV engine with
  nothing lost, whatever characters the fields hold, line breaks included: the fields are mapped to the
  columns in order, a short record is marked, and the fields of a long record that have no column are kept
  under their index. Fields are bounded by the limit of the csv module.
\<close>

theorem csv_roundtrip:
  assumes "\<not> is_newline q" and "d \<noteq> q" and "row \<noteq> []" and "\<forall>v \<in> set row. length v \<le> field_limit"
    and "cols \<noteq> []" and "distinct (cols @ ''_truncated'' # map extra_key [length cols ..< length row])"
  shows "csv_parse (print_row d q row)
      [(''columns'', PList (map PStr cols)), (''delimiter'', PStr [d]), (''quotechar'', PStr [q]), (''skip_empty'', PBool skip)]
    = Inr (row_fields row cols skip)"
proof -
  have "map_row row cols skip = row_fields row cols skip"
    using distinct_row_fields [OF assms(6)] by (simp add: map_row_update dict_update_fresh)
  then show ?thesis
    using csv_record_print [OF assms(1-4)] assms(5)
    by (simp add: csv_parse_def csv_columns_def py_get_def opt_get_def py_len_def read_row_def iter_names_def comp_def)
qed

theorem csv_roundtrip_witness:
  "csv_parse (print_row (CHR '','') (CHR 0x22) [''a,b'', [], [CHR 0x22, CHR 0x0A]])
      [(''columns'', PList [PStr ''x'', PStr ''y'']), (''delimiter'', PStr '',''), (''quotechar'', PStr [CHR 0x22]), (''skip_empty'', PBool True)]
    = Inr [(''x'', PStr ''a,b''), (''y'', PNone), (''_extra.2'', PStr [CHR 0x22, CHR 0x0A])]"
proof -
  have k: "extra_key (Suc (Suc 0)) = ''_extra.2''" by code_simp
  show ?thesis
    using csv_roundtrip [of "CHR 0x22" "CHR '',''" "[''a,b'', [], [CHR 0x22, CHR 0x0A]]" "[''x'', ''y'']" True]
    by (simp add: is_newline_def field_limit_def row_fields_def clean_def k upt_conv_Cons)
qed

section \<open>The TSV engine\<close>

record tsv_stream =
  ts_columns :: "string list option"
  ts_types :: "string list option"
  ts_list_cols :: "string list"
  ts_separator :: string
  ts_set_separator :: string
  ts_unset :: string
  ts_empty :: string

definition new_stream :: tsv_stream where
  "new_stream = \<lparr>ts_columns = None, ts_types = None, ts_list_cols = [], ts_separator = [CHR 0x09],
     ts_set_separator = '','', ts_unset = ''-'', ts_empty = ''(empt)''\<rparr>"

text \<open>\<^verbatim>\<open>int(s, 16)\<close> of a two-character text, then \<^verbatim>\<open>chr\<close>.\<close>

definition chr_of_hex :: "string \<Rightarrow> string res" where
  "chr_of_hex s =
     (let t = py_strip s; neg = starts_with ''-'' t; body = (if neg \<or> starts_with ''+'' t then tl t else t) in
      if body = [] \<or> \<not> list_all (\<lambda>c. hex_val c \<noteq> None) body
      then Inl (ValueError ''invalid literal for int() with base 16'')
      else if neg \<and> nat_of_hex body \<noteq> 0 then Inl (ValueError ''chr() arg not in range(0x110000)'')
      else Inr [ch (nat_of_hex body)])"

definition decode_separator :: "string \<Rightarrow> string res" where
  "decode_separator token =
     (let lowered = py_lower token in
      if lowered \<in> {[CHR 0x5C, CHR ''t''], CHR 0x5C # ''x09'', ''0x09''} then Inr [CHR 0x09]
      else if (take 2 lowered = [CHR 0x5C, CHR ''x''] \<or> take 2 lowered = ''0x'') \<and> length token = 4
      then chr_of_hex (drop 2 token)
      else Inr token)"

definition list_type :: "string \<Rightarrow> bool" where
  "list_type t \<longleftrightarrow> starts_with ''set['' t \<or> starts_with ''vector['' t \<or> starts_with ''table['' t"

text \<open>Exceptions leave the changes made so far: results are paired with the stream.\<close>

definition reconcile_list_cols :: "tsv_stream \<Rightarrow> unit res \<times> tsv_stream" where
  "reconcile_list_cols s =
     (case (ts_columns s, ts_types s) of
        (Some cols, Some types) \<Rightarrow>
          if length cols \<noteq> length types
          then (Inl (ParseError ''Zeek #fields and #types column counts differ''
                  [(''fields'', PInt (int (length cols))), (''types'', PInt (int (length types)))]), s)
          else (Inr (), s\<lparr>ts_list_cols := map fst (filter (\<lambda>(n, t). list_type t) (zip cols types))\<rparr>)
      | _ \<Rightarrow> (Inr (), s))"

definition apply_directive :: "tsv_stream \<Rightarrow> string \<Rightarrow> unit res \<times> tsv_stream" where
  "apply_directive s line =
     (if starts_with ''#separator'' line
      then let value = py_strip (drop 10 line) in
           if value = [] then (Inr (), s)
           else case decode_separator value of
                  Inl x \<Rightarrow> (Inl x, s) | Inr sep \<Rightarrow> (Inr (), s\<lparr>ts_separator := sep\<rparr>)
      else
        let (name, _, value) = py_partition (ts_separator s) line;
            directive = lstrip_by (\<lambda>c. c = CHR ''#'') name;
            cells = (if value = [] then None else Some (split_on (ts_separator s) value)) in
        if directive = ''set_separator'' then (Inr (), if value = [] then s else s\<lparr>ts_set_separator := value\<rparr>)
        else if directive = ''empty_field'' then (Inr (), if value = [] then s else s\<lparr>ts_empty := value\<rparr>)
        else if directive = ''unset_field'' then (Inr (), if value = [] then s else s\<lparr>ts_unset := value\<rparr>)
        else if directive = ''fields'' then reconcile_list_cols (s\<lparr>ts_columns := cells\<rparr>)
        else if directive = ''types'' then reconcile_list_cols (s\<lparr>ts_types := cells\<rparr>)
        else (Inr (), s))"

definition coerce_cell :: "string \<Rightarrow> bool \<Rightarrow> string \<Rightarrow> string \<Rightarrow> string \<Rightarrow> pyval" where
  "coerce_cell cell is_list unset empt set_sep =
     (if cell = unset then PNone
      else if is_list
      then if cell = empt then PList []
           else PList (map (\<lambda>p. if p = unset then PNone else PStr p) (split_on set_sep cell))
      else if cell = empt then PNone
      else PStr cell)"

definition or_else :: "pyval \<Rightarrow> pyval \<Rightarrow> pyval" where
  "or_else v w = (if py_truth v then v else w)"

definition parse_data_line :: "string \<Rightarrow> tsv_stream \<Rightarrow> pydict \<Rightarrow> pydict res" where
  "parse_data_line line s opts =
     (let columns = or_else (py_get opts ''columns'') (case ts_columns s of None \<Rightarrow> PNone | Some cs \<Rightarrow> PList (map PStr cs)) in
      if \<not> py_truth columns
      then Inl (ParseError (''tsv engine: no #fields header seen and no '' @ quoted ''columns'' @ '' option'') [])
      else
        let sep = py_str (or_else (py_get opts ''separator'') (PStr (ts_separator s)));
            unset = py_str (opt_get opts ''unset_field'' (PStr (ts_unset s)));
            empt = py_str (opt_get opts ''empty_field'' (PStr (ts_empty s)));
            set_sep = py_str (or_else (py_get opts ''set_separator'') (PStr (ts_set_separator s))) in
        bind_res (iter_names (or_else (py_get opts ''list_fields'') (PList []))) (\<lambda>extra.
        bind_res (iter_names columns) (\<lambda>names.
          let list_cols = ts_list_cols s @ extra; values = split_on sep line in
          Inr (dict_update []
            (zip names (map2 (\<lambda>n v. coerce_cell v (n \<in> set list_cols) unset empt set_sep) names values)
             @ map (\<lambda>i. (extra_key i, coerce_cell (values ! i) False unset empt set_sep)) [length names ..< length values])))))"

type_synonym tsv_streams = "(string \<times> tsv_stream) list"

definition stream_key :: "pydict \<Rightarrow> string" where
  "stream_key opts = py_str (or_else (py_get opts ''stream'') (or_else (py_get opts ''source_id'') (PStr [])))"

definition stream_of :: "string \<Rightarrow> tsv_streams \<Rightarrow> tsv_stream" where
  "stream_of k sts = (case map_of sts k of Some s \<Rightarrow> s | None \<Rightarrow> new_stream)"

definition tsv_parse :: "string \<Rightarrow> pydict \<Rightarrow> tsv_streams \<Rightarrow> pydict res \<times> tsv_streams" where
  "tsv_parse t opts sts =
     (let k = stream_key opts; s = stream_of k sts;
          line = rstrip_by (\<lambda>c. c = CHR 0x0D \<or> c = CHR 0x0A) t in
      if starts_with ''#'' line
      then let (r, s') = apply_directive s line in (case r of Inl x \<Rightarrow> Inl x | Inr _ \<Rightarrow> Inr [], dict_set k s' sts)
      else (parse_data_line line s opts, dict_set k s sts))"

interpretation tsv: parse_engine "\<lambda>t opts. fst (tsv_parse t opts sts)" for sts
  by unfold_locales
    (auto simp: tsv_parse_def parse_data_line_def Let_def bind_res_Inr_iff case_prod_unfold split: if_splits sum.splits)

text \<open>A run over the lines of several interleaved streams: the stream of each line and its result.\<close>

fun run_tsv :: "(pydict \<times> string) list \<Rightarrow> tsv_streams \<Rightarrow> (string \<times> pydict res) list" where
  "run_tsv [] sts = []"
| "run_tsv ((opts, t) # lines) sts =
     (let (r, sts') = tsv_parse t opts sts in (stream_key opts, r) # run_tsv lines sts')"

lemma stream_of_set: "stream_of k (dict_set k' s sts) = (if k = k' then s else stream_of k sts)"
  by (simp add: stream_of_def)

lemma tsv_parse_local:
  assumes "stream_of (stream_key opts) sts = stream_of (stream_key opts) sts'"
  shows "fst (tsv_parse t opts sts) = fst (tsv_parse t opts sts')"
    and "stream_of (stream_key opts) (snd (tsv_parse t opts sts)) = stream_of (stream_key opts) (snd (tsv_parse t opts sts'))"
  using assms by (simp_all add: tsv_parse_def Let_def case_prod_unfold stream_of_set)

lemma tsv_parse_other: "k \<noteq> stream_key opts \<Longrightarrow> stream_of k (snd (tsv_parse t opts sts)) = stream_of k sts"
  by (simp add: tsv_parse_def Let_def case_prod_unfold stream_of_set)

lemma run_tsv_local:
  "stream_of k sts = stream_of k sts' \<Longrightarrow>
     filter (\<lambda>(k', r). k' = k) (run_tsv lines sts) = run_tsv (filter (\<lambda>(opts, t). stream_key opts = k) lines) sts'"
proof (induction lines arbitrary: sts sts')
  case (Cons l lines)
  obtain opts t where l: "l = (opts, t)" by fastforce
  show ?case
  proof (cases "stream_key opts = k")
    case True
    then show ?thesis
      using tsv_parse_local [of opts sts sts' t] Cons.prems Cons.IH by (simp add: l case_prod_unfold Let_def)
  next
    case False
    then show ?thesis using tsv_parse_other [of k opts t sts] Cons by (simp add: l case_prod_unfold Let_def)
  qed
qed simp

text \<open>
  Interleaved Zeek streams do not interfere: the results of the lines of one stream, errors included, are
  the results these lines have when they are parsed alone, whatever directives and data of other streams
  come between them.
\<close>

theorem tsv_streams_independent:
  "filter (\<lambda>(k', r). k' = k) (run_tsv lines []) = run_tsv (filter (\<lambda>(opts, t). stream_key opts = k) lines) []"
  by (rule run_tsv_local) (rule refl)

text \<open>A set column comes out as a list, which the contract of the engines excludes.\<close>

lemma tsv_set_is_list:
  "run_tsv [([], ''#fields'' @ [CHR 0x09] @ ''ids''), ([], ''#types'' @ [CHR 0x09] @ ''set[string]''), ([], ''a,b'')] []
     = [([], Inr []), ([], Inr []), ([], Inr [(''ids'', PList [PStr ''a'', PStr ''b''])])]"
  by code_simp

end
