(* ===== verification/Template_Engines.thy ===== *)
theory Template_Engines
  imports Tabular_Engines "HOL-Library.List_Lexorder" "HOL-Library.Char_ord" "HOL-Library.Product_Lexorder"
begin

text \<open>
  The engines driven by a template: dissect (\<^verbatim>\<open>dissect_engine.py\<close>), whose patterns are compiled to a prefix
  and delimited fields and matched in one scan, and grok (\<^verbatim>\<open>grok_engine.py\<close>), whose references are expanded
  recursively into a regular expression. The regular expression module is third-party: compiling and
  matching an expression are arguments of the grok engine.
\<close>

section \<open>Dissect: compilation\<close>

datatype dissect_op = SetField | SkipField | AppendField

record dissect_field =
  df_name :: string
  df_op :: dissect_op
  df_delim :: string
  df_right_pad :: bool

record dissect_pattern =
  dp_prefix :: string
  dp_fields :: "dissect_field list"

definition pattern_error :: "string \<Rightarrow> string \<Rightarrow> exn" where
  "pattern_error msg pattern = ParseError msg [(''pattern'', PStr pattern)]"

definition parse_placeholder :: "string \<Rightarrow> string \<Rightarrow> (string \<times> dissect_op \<times> bool) res" where
  "parse_placeholder content pattern =
     (let right_pad = ends_with ''->'' content;
          c = (if right_pad then take (length content - 2) content else content) in
      if starts_with ''+'' c
      then if tl c = [] then Inl (pattern_error ''%{+} has no field name'' pattern) else Inr (tl c, AppendField, right_pad)
      else if c = [] then Inr ([], SkipField, right_pad)
      else Inr (c, SetField, right_pad))"

text \<open>The loop over the placeholders; \<open>s\<close> is the pattern after the opening of the current one.\<close>

function compile_fields :: "string \<Rightarrow> string \<Rightarrow> dissect_field list res" where
  "compile_fields pattern s =
     (case find_sub ''}'' s of
        None \<Rightarrow> Inl (pattern_error ''unterminated %{ in dissect pattern'' pattern)
      | Some (content, after) \<Rightarrow>
          (case parse_placeholder content pattern of
             Inl x \<Rightarrow> Inl x
           | Inr (name, op, right_pad) \<Rightarrow>
               (case find_sub ''%{'' after of
                  None \<Rightarrow> Inr [\<lparr>df_name = name, df_op = op, df_delim = after, df_right_pad = right_pad\<rparr>]
                | Some (delim, s') \<Rightarrow>
                    (case compile_fields pattern s' of
                       Inl x \<Rightarrow> Inl x
                     | Inr fs \<Rightarrow> Inr (\<lparr>df_name = name, df_op = op, df_delim = delim, df_right_pad = right_pad\<rparr> # fs)))))"
  by auto
termination
proof (relation "measure (length \<circ> snd)", goal_cases)
  case (2 pattern s q content after y z name op right_pad q' delim s')
  then have "length after < length s" "length s' < length after"
    by (auto intro: find_sub_shorter [where p = "''}''"] find_sub_shorter [where p = "''%{''"])
  then show ?case by simp
qed simp

declare compile_fields.simps [simp del]

definition adjacent_at :: "dissect_field list \<Rightarrow> nat option" where
  "adjacent_at fs = List.find (\<lambda>i. df_delim (fs ! i) = []) [0 ..< length fs - 1]"

definition compile_pattern :: "string \<Rightarrow> dissect_pattern res" where
  "compile_pattern pattern =
     (case find_sub ''%{'' pattern of
        None \<Rightarrow> Inl (pattern_error ''dissect pattern has no %{...} placeholders'' pattern)
      | Some (pre, s) \<Rightarrow> bind_res (compile_fields pattern s) (\<lambda>fs.
          case adjacent_at fs of
            Some i \<Rightarrow> Inl (ParseError ''adjacent dissect placeholders need a delimiter between them''
                        [(''pattern'', PStr pattern), (''after_field'', PInt (int i))])
          | None \<Rightarrow> Inr \<lparr>dp_prefix = pre, dp_fields = fs\<rparr>))"

section \<open>Dissect: matching\<close>

text \<open>The text from the current position on is \<open>s\<close>; \<open>n\<close> is the length of the whole text.\<close>

definition consume_middle :: "nat \<Rightarrow> string \<Rightarrow> dissect_field \<Rightarrow> (string \<times> string) res" where
  "consume_middle n s f =
     (case find_sub (df_delim f) s of
        None \<Rightarrow> Inl (ParseError ''dissect delimiter not found''
                  [(''delimiter'', PStr (df_delim f)), (''offset'', PInt (int (n - length s)))])
      | Some (v, r) \<Rightarrow> Inr (v, if df_right_pad f then skip_seps (df_delim f) r else r))"

text \<open>Copies of \<open>d\<close> are cut from the end of \<open>s\<close> by skipping them at the start of the reversed text.\<close>

definition cut_tail :: "string \<Rightarrow> string \<Rightarrow> string" where
  "cut_tail d s = rev (skip_seps (rev d) (rev s))"

definition consume_last :: "string \<Rightarrow> dissect_field \<Rightarrow> string res" where
  "consume_last body f =
     (if df_delim f = [] then Inr body
      else if \<not> ends_with (df_delim f) body
      then Inl (ParseError ''dissect trailing delimiter not matched'' [(''delimiter'', PStr (df_delim f))])
      else if df_right_pad f then Inr (cut_tail (df_delim f) body)
      else Inr (take (length body - length (df_delim f)) body))"

definition apply_field :: "string \<Rightarrow> (string \<times> string) list \<Rightarrow> dissect_field \<times> string \<Rightarrow> (string \<times> string) list" where
  "apply_field sep out = (\<lambda>(f, v).
     case df_op f of
       SkipField \<Rightarrow> out
     | AppendField \<Rightarrow> dict_set (df_name f) (case map_of out (df_name f) of None \<Rightarrow> v | Some p \<Rightarrow> p @ sep @ v) out
     | SetField \<Rightarrow> dict_set (df_name f) v out)"

fun dissect_loop :: "nat \<Rightarrow> string \<Rightarrow> string \<Rightarrow> dissect_field list \<Rightarrow> (string \<times> string) list \<Rightarrow> (string \<times> string) list res" where
  "dissect_loop n sep s [] out = Inr out"
| "dissect_loop n sep s [f] out = bind_res (consume_last s f) (\<lambda>v. Inr (apply_field sep out (f, v)))"
| "dissect_loop n sep s (f # g # fs) out =
     bind_res (consume_middle n s f) (\<lambda>(v, r). dissect_loop n sep r (g # fs) (apply_field sep out (f, v)))"

definition dissect :: "string \<Rightarrow> dissect_pattern \<Rightarrow> string \<Rightarrow> (string \<times> string) list res" where
  "dissect t c sep =
     (if \<not> starts_with (dp_prefix c) t
      then Inl (ParseError ''dissect prefix did not match'' [(''prefix'', PStr (dp_prefix c))])
      else dissect_loop (length t) sep (drop (length (dp_prefix c)) t) (dp_fields c) [])"

definition dissect_parse :: engine where
  "dissect_parse t opts =
     (case py_get opts ''pattern'' of
        PStr pattern \<Rightarrow>
          if pattern = [] then Inl (ParseError (''dissect engine requires a non-empty '' @ quoted ''pattern'' @ '' option'') [])
          else bind_res (compile_pattern pattern) (\<lambda>c.
                 bind_res (dissect t c (py_str (opt_get opts ''append_separator'' (PStr [])))) (\<lambda>out. Inr (strs out)))
      | _ \<Rightarrow> Inl (ParseError (''dissect engine requires a non-empty '' @ quoted ''pattern'' @ '' option'') []))"

lemma apply_field_ok: "dict_ok out \<Longrightarrow> dict_ok (apply_field sep out fv)"
  by (auto simp: apply_field_def split: prod.split dissect_op.split)

lemma dissect_loop_ok: "dict_ok out \<Longrightarrow> dissect_loop n sep s fs out = Inr d \<Longrightarrow> dict_ok d"
  by (induction n sep s fs out rule: dissect_loop.induct) (auto simp: bind_res_Inr_iff apply_field_ok)

interpretation dissect: flat_engine dissect_parse
  by unfold_locales
    (auto simp: dissect_parse_def dissect_def bind_res_Inr_iff split: pyval.splits if_splits intro: dissect_loop_ok [OF dict_ok_Nil])

subsection \<open>What a match is\<close>

lemma find_sub_prefix: "find_sub p (a @ p @ b) = Some (a, b) \<Longrightarrow> find_sub p (a @ p) = Some (a, [])"
proof (induction a)
  case Nil
  show ?case by (cases p) (simp_all add: find_sub_list starts_with_iff)
next
  case (Cons c a)
  have n: "\<not> starts_with p (c # a @ p @ b)" using Cons.prems by (auto simp: find_sub_list split: if_splits)
  then have "find_sub p (a @ p @ b) = Some (a, b)" using Cons.prems by (auto simp: find_sub_list)
  moreover have "\<not> starts_with p (c # a @ p)" using n starts_with_extend [of p "c # a @ p" b] by auto
  ultimately show ?case using Cons.IH by (simp add: find_sub_list)
qed

lemma find_sub_iff: "find_sub p s = Some (a, b) \<longleftrightarrow> s = a @ p @ b \<and> find_sub p (a @ p) = Some (a, [])"
  using find_sub_Some [of p s a b] find_sub_prefix [of p a b] find_sub_extend [of p "a @ p" a "[]" b] by auto

text \<open>The text that captured values stand for, and when a value is the shortest one before its delimiter.\<close>

definition render :: "dissect_field list \<Rightarrow> string list \<Rightarrow> string" where
  "render fs vs = concat (map2 (\<lambda>f v. v @ df_delim f) fs vs)"

fun shortest :: "dissect_field list \<Rightarrow> string list \<Rightarrow> bool" where
  "shortest (f # g # fs) (v # vs) \<longleftrightarrow> find_sub (df_delim f) (v @ df_delim f) = Some (v, []) \<and> shortest (g # fs) vs"
| "shortest _ _ \<longleftrightarrow> True"

lemma consume_last_iff: "\<not> df_right_pad f \<Longrightarrow> consume_last s f = Inr v \<longleftrightarrow> s = v @ df_delim f"
  by (auto simp: consume_last_def ends_with_iff)

lemma dissect_loop_iff:
  assumes "fs \<noteq> []" and "\<forall>f \<in> set fs. \<not> df_right_pad f"
  shows "dissect_loop n sep s fs out = Inr d \<longleftrightarrow>
    (\<exists>vs. length vs = length fs \<and> s = render fs vs \<and> shortest fs vs \<and> d = foldl (apply_field sep) out (zip fs vs))"
  using assms
proof (induction fs arbitrary: s out rule: list_nonempty_induct)
  case (single f)
  have "\<not> df_right_pad f" using single by simp
  then show ?case
    by (auto simp: bind_res_Inr_iff consume_last_iff render_def length_Suc_conv)
next
  case (cons f fs)
  obtain g gs where fs: "fs = g # gs" using cons(1) by (cases fs) auto
  have "consume_middle n s f = Inr (v, r) \<longleftrightarrow> find_sub (df_delim f) s = Some (v, r)" for v r
    using cons.prems by (auto simp: consume_middle_def split: option.split)
  then have mid: "consume_middle n s f = Inr (v, r) \<longleftrightarrow> s = v @ df_delim f @ r \<and> find_sub (df_delim f) (v @ df_delim f) = Some (v, [])" for v r
    using find_sub_iff by blast
  have IH: "dissect_loop n sep r fs o' = Inr d \<longleftrightarrow> (\<exists>vs. length vs = length fs \<and> r = render fs vs \<and> shortest fs vs
      \<and> d = foldl (apply_field sep) o' (zip fs vs))" for r o'
    using cons by simp
  have "dissect_loop n sep s (f # fs) out = Inr d \<longleftrightarrow>
      (\<exists>v r. s = v @ df_delim f @ r \<and> find_sub (df_delim f) (v @ df_delim f) = Some (v, [])
        \<and> dissect_loop n sep r fs (apply_field sep out (f, v)) = Inr d)"
    by (auto simp: fs bind_res_Inr_iff mid)
  also have "\<dots> \<longleftrightarrow> (\<exists>v vs. length vs = length fs \<and> s = v @ df_delim f @ render fs vs
        \<and> find_sub (df_delim f) (v @ df_delim f) = Some (v, []) \<and> shortest fs vs
        \<and> d = foldl (apply_field sep) (apply_field sep out (f, v)) (zip fs vs))"
    unfolding IH by blast
  also have "\<dots> \<longleftrightarrow> (\<exists>vs. length vs = length (f # fs) \<and> s = render (f # fs) vs \<and> shortest (f # fs) vs
        \<and> d = foldl (apply_field sep) out (zip (f # fs) vs))"
    (is "(\<exists>v vs. ?P v vs) \<longleftrightarrow> (\<exists>vs. ?Q vs)")
  proof -
    have "?Q (v # vs) \<longleftrightarrow> ?P v vs" for v vs by (auto simp: render_def fs)
    moreover have "\<not> ?Q []" by simp
    ultimately show ?thesis by (metis list.exhaust)
  qed
  finally show ?case .
qed

text \<open>
  A dissect match is exactly a way of reading the text as the prefix followed by the captured values, each
  with its delimiter, where every value but the last is the shortest one before its delimiter; the result
  is what the values give in order. So a match loses no character of the text, and it is unique. (For
  patterns without padding modifiers.)
\<close>

theorem dissect_exact:
  assumes "dp_fields c \<noteq> []" and "\<forall>f \<in> set (dp_fields c). \<not> df_right_pad f"
  shows "dissect t c sep = Inr d \<longleftrightarrow>
    (\<exists>vs. length vs = length (dp_fields c) \<and> t = dp_prefix c @ render (dp_fields c) vs \<and> shortest (dp_fields c) vs
      \<and> d = foldl (apply_field sep) [] (zip (dp_fields c) vs))"
  by (auto simp: dissect_def dissect_loop_iff [OF assms] starts_with_iff)

definition demo_dissect :: dissect_pattern where
  "demo_dissect = \<lparr>dp_prefix = ''<'', dp_fields =
     [\<lparr>df_name = ''lvl'', df_op = SetField, df_delim = ''>'', df_right_pad = False\<rparr>,
      \<lparr>df_name = ''m'', df_op = SetField, df_delim = ''.'', df_right_pad = False\<rparr>]\<rparr>"

theorem dissect_exact_witness:
  "compile_pattern ''<%{lvl}>%{m}.'' = Inr demo_dissect
     \<and> (\<exists>vs. ''<3>a.b.'' = dp_prefix demo_dissect @ render (dp_fields demo_dissect) vs \<and> length vs = 2)"
proof
  show "compile_pattern ''<%{lvl}>%{m}.'' = Inr demo_dissect" by code_simp
  have d: "dissect ''<3>a.b.'' demo_dissect [] = Inr [(''lvl'', ''3''), (''m'', ''a.b'')]" by code_simp
  have "dp_fields demo_dissect \<noteq> []" "\<forall>f \<in> set (dp_fields demo_dissect). \<not> df_right_pad f"
    by (simp_all add: demo_dissect_def)
  from iffD1 [OF dissect_exact [OF this] d]
  obtain vs where "length vs = length (dp_fields demo_dissect)" "''<3>a.b.'' = dp_prefix demo_dissect @ render (dp_fields demo_dissect) vs"
    by blast
  moreover have "length (dp_fields demo_dissect) = 2" by (simp add: demo_dissect_def)
  ultimately show "\<exists>vs. ''<3>a.b.'' = dp_prefix demo_dissect @ render (dp_fields demo_dissect) vs \<and> length vs = 2" by metis
qed

section \<open>Grok: the pattern library\<close>

text \<open>\<^verbatim>\<open>s.split(None, 1)\<close> of a stripped line: the first word, and the rest when there is one.\<close>

definition first_word :: "string \<Rightarrow> string \<times> string" where
  "first_word s = (takeWhile (\<lambda>c. \<not> is_space c) s, dropWhile is_space (dropWhile (\<lambda>c. \<not> is_space c) s))"

definition library_line :: "(string \<times> string) list \<Rightarrow> string \<Rightarrow> (string \<times> string) list" where
  "library_line lib line =
     (let s = py_strip line; (n, body) = first_word s in
      if s = [] \<or> starts_with ''#'' s \<or> body = [] then lib else dict_set n body lib)"

definition load_pattern_file :: "string \<Rightarrow> (string \<times> string) list" where
  "load_pattern_file t = foldl library_line [] (py_splitlines t)"

section \<open>Grok: expansion of references\<close>

text \<open>The state of the compiler: how often a group name was asked for, and the field of each group.\<close>

type_synonym grok_state = "(string \<times> nat) list \<times> (string \<times> string) list"

definition max_nesting_depth :: nat where
  "max_nesting_depth = 20"

definition is_digit_char :: "char \<Rightarrow> bool" where
  "is_digit_char c \<longleftrightarrow> is_dec c \<or> code c \<in> {178, 179, 185}"

text \<open>\<open>word\<close> says which characters the regular expression module takes for word characters.\<close>

definition unique_group :: "(char \<Rightarrow> bool) \<Rightarrow> string \<Rightarrow> (string \<times> nat) list \<Rightarrow> string \<times> (string \<times> nat) list" where
  "unique_group word field_name seen =
     (let b = map (\<lambda>c. if word c then c else CHR ''_'') field_name;
          base = (if b = [] \<or> is_digit_char (hd b) then ''f_'' @ b else b);
          count = (case map_of seen base of None \<Rightarrow> 0 | Some n \<Rightarrow> n) + 1
      in (if count = 1 then base else base @ ''__'' @ dec_digits count, dict_set base count seen))"

definition field_of_reference :: "string \<Rightarrow> string \<times> string" where
  "field_of_reference content =
     (let (name, _, rest) = py_partition '':'' content; (field_name, _, _) = py_partition '':'' rest in (name, field_name))"

definition add_group :: "(char \<Rightarrow> bool) \<Rightarrow> string \<Rightarrow> string \<Rightarrow> grok_state \<Rightarrow> string \<times> grok_state" where
  "add_group word field_name inner st =
     (if field_name = [] then (''(?:'' @ inner @ '')'', st)
      else let (g, seen) = unique_group word field_name (fst st)
           in (''(?P<'' @ g @ ''>'' @ inner @ '')'', (seen, dict_set g field_name (snd st))))"

text \<open>
  \<^verbatim>\<open>_Compiler.compile\<close> and \<^verbatim>\<open>_expand\<close>: \<open>whole\<close> is the pattern being expanded at this depth, \<open>g\<close> what is left of
  it. The recursion ends because the depth is bounded.
\<close>

function grok_loop :: "(char \<Rightarrow> bool) \<Rightarrow> (string \<times> string) list \<Rightarrow> nat \<Rightarrow> string \<Rightarrow> string \<Rightarrow> grok_state \<Rightarrow> (string \<times> grok_state) res" where
  "grok_loop word lib depth whole g st =
     (if max_nesting_depth < depth
      then Inl (ParseError ''grok pattern nesting exceeded'' [(''max_depth'', PInt (int max_nesting_depth))])
      else case find_sub ''%{'' g of
        None \<Rightarrow> Inr (g, st)
      | Some (a, b) \<Rightarrow>
          (case find_sub ''}'' b of
             None \<Rightarrow> Inl (pattern_error ''unterminated %{ in grok pattern'' whole)
           | Some (content, rest) \<Rightarrow>
               (case map_of lib (fst (field_of_reference content)) of
                  None \<Rightarrow> Inl (ParseError ''unknown grok pattern reference'' [(''name'', PStr (fst (field_of_reference content)))])
                | Some body \<Rightarrow>
                    (case grok_loop word lib (Suc depth) body body st of
                       Inl x \<Rightarrow> Inl x
                     | Inr (inner, st1) \<Rightarrow>
                         let (piece, st2) = add_group word (snd (field_of_reference content)) inner st1 in
                         (case grok_loop word lib depth whole rest st2 of
                            Inl x \<Rightarrow> Inl x
                          | Inr (tail, st3) \<Rightarrow> Inr (a @ piece @ tail, st3))))))"
  by auto
termination
proof (relation "measures [\<lambda>(word, lib, depth, whole, g, st). Suc max_nesting_depth - depth,
    \<lambda>(word, lib, depth, whole, g, st). length g]", goal_cases)
  case (3 word lib depth whole g st q a b q' content rest body r inner st1 z piece st2)
  then have "length b < length g" "length rest < length b"
    by (auto intro: find_sub_shorter [where p = "''}''"] find_sub_shorter [where p = "''%{''"])
  then show ?case by simp
qed auto

declare grok_loop.simps [simp del]

definition grok_compile :: "(char \<Rightarrow> bool) \<Rightarrow> (string \<times> string) list \<Rightarrow> string \<Rightarrow> (string \<times> (string \<times> string) list) res" where
  "grok_compile word lib pattern =
     bind_res (grok_loop word lib 0 pattern pattern ([], [])) (\<lambda>(src, st). Inr (src, snd st))"



text \<open>
  The group names are not free of collisions: the second group of a field \<open>x\<close> gets the name of the first
  group of a field \<open>x__2\<close>, and the map from groups to fields keeps only one of the two.
\<close>

theorem grok_group_collision:
  "grok_compile (\<lambda>c. is_alpha c \<or> is_dec c \<or> c = CHR ''_'') [(''W'', ''w'')] ''%{W:x} %{W:x} %{W:x__2}''
     = Inr (''(?P<x>w) (?P<x__2>w) (?P<x__2>w)'', [(''x'', ''x''), (''x__2'', ''x__2'')])"
  by code_simp

section \<open>Grok: the engine\<close>

datatype grok_outcome = TimedOut | NoMatch | Groups "(string \<times> string option) list"

text \<open>
  The compiled patterns are cached under the pattern and the sorted extra patterns. \<open>compile_rx\<close> compiles
  an expression to a matcher or gives the text of the error; \<open>search\<close> runs a matcher on a text with a
  limit in milliseconds. Values of the \<^verbatim>\<open>patterns\<close> option that are not strings stand for their text.
\<close>

type_synonym grok_key = "string \<times> (string \<times> string) list"
type_synonym 'm grok_cache = "(grok_key \<times> 'm \<times> (string \<times> string) list) list"

definition extra_patterns :: "pydict \<Rightarrow> (string \<times> string) list res" where
  "extra_patterns opts =
     (case or_else (py_get opts ''patterns'') (PDict []) of
        PDict d \<Rightarrow> Inr (map (\<lambda>(k, v). (k, py_str v)) d)
      | _ \<Rightarrow> Inl (TypeError ''cannot convert patterns to a dict''))"

definition grok_key :: "string \<Rightarrow> (string \<times> string) list \<Rightarrow> grok_key" where
  "grok_key pattern extra = (pattern, sort extra)"

definition get_compiled ::
  "(char \<Rightarrow> bool) \<Rightarrow> (string \<Rightarrow> string + 'm) \<Rightarrow> (string \<times> string) list \<Rightarrow> string \<Rightarrow> (string \<times> string) list
     \<Rightarrow> 'm grok_cache \<Rightarrow> ('m \<times> (string \<times> string) list) res \<times> 'm grok_cache" where
  "get_compiled word compile_rx lib pattern extra cache =
     (case map_of cache (grok_key pattern extra) of
        Some c \<Rightarrow> (Inr c, cache)
      | None \<Rightarrow>
          (case grok_compile word (dict_update lib extra) pattern of
             Inl x \<Rightarrow> (Inl x, cache)
           | Inr (src, groups) \<Rightarrow>
               (case compile_rx src of
                  Inl err \<Rightarrow> (Inl (ParseError ''grok pattern failed to compile'' [(''error'', PStr err)]), cache)
                | Inr m \<Rightarrow> (Inr (m, groups), dict_set (grok_key pattern extra) (m, groups) cache))))"

fun grok_fields :: "(string \<times> string) list \<Rightarrow> (string \<times> string option) list \<Rightarrow> (string \<times> string) list \<Rightarrow> (string \<times> string) list res" where
  "grok_fields groups [] out = Inr out"
| "grok_fields groups ((g, None) # gs) out = grok_fields groups gs out"
| "grok_fields groups ((g, Some v) # gs) out =
     (case map_of groups g of
        None \<Rightarrow> Inl (KeyError g) | Some f \<Rightarrow> grok_fields groups gs (dict_set f v out))"

definition grok_result :: "string \<Rightarrow> int \<Rightarrow> (string \<times> string) list \<Rightarrow> grok_outcome \<Rightarrow> pydict res" where
  "grok_result pattern timeout groups outcome =
     (case outcome of
        TimedOut \<Rightarrow> Inl (ParseError ''grok match timed out''
            [(''reason'', PStr ''grok_timeout''), (''timeout_ms'', PInt timeout), (''pattern'', PStr pattern)])
      | NoMatch \<Rightarrow> Inl (ParseError ''grok pattern did not match''
            [(''reason'', PStr ''grok_no_match''), (''pattern'', PStr pattern)])
      | Groups gs \<Rightarrow> bind_res (grok_fields groups gs []) (\<lambda>out. Inr (strs out)))"

definition grok_parse ::
  "(char \<Rightarrow> bool) \<Rightarrow> (string \<Rightarrow> string + 'm) \<Rightarrow> ('m \<Rightarrow> string \<Rightarrow> int \<Rightarrow> grok_outcome) \<Rightarrow> (string \<times> string) list
     \<Rightarrow> string \<Rightarrow> pydict \<Rightarrow> 'm grok_cache \<Rightarrow> pydict res \<times> 'm grok_cache" where
  "grok_parse word compile_rx search lib t opts cache =
     (case py_get opts ''pattern'' of
        PStr pattern \<Rightarrow>
          if pattern = [] then (Inl (ParseError (''grok engine requires a non-empty '' @ quoted ''pattern'' @ '' option'') []), cache)
          else (case extra_patterns opts of
              Inl x \<Rightarrow> (Inl x, cache)
            | Inr extra \<Rightarrow>
                (case py_int (opt_get opts ''grok_timeout_ms'' (PInt 100)) of
                   Inl x \<Rightarrow> (Inl x, cache)
                 | Inr timeout \<Rightarrow>
                     (case get_compiled word compile_rx lib pattern extra cache of
                        (Inl x, cache') \<Rightarrow> (Inl x, cache')
                      | (Inr (m, groups), cache') \<Rightarrow> (grok_result pattern timeout groups (search m t timeout), cache'))))
      | _ \<Rightarrow> (Inl (ParseError (''grok engine requires a non-empty '' @ quoted ''pattern'' @ '' option'') []), cache))"

lemma grok_fields_ok: "dict_ok out \<Longrightarrow> grok_fields groups gs out = Inr d \<Longrightarrow> dict_ok d"
  by (induction groups gs out rule: grok_fields.induct) (auto split: option.splits)

lemma grok_result_ok: "grok_result pattern timeout groups outcome = Inr d \<Longrightarrow> dict_ok d \<and> flat d"
  by (auto simp: grok_result_def bind_res_Inr_iff split: grok_outcome.splits dest: grok_fields_ok [OF dict_ok_Nil])

interpretation grok: flat_engine "\<lambda>t opts. fst (grok_parse word compile_rx search lib t opts cache)"
  for word compile_rx search lib cache
  by unfold_locales
    (auto simp: grok_parse_def split: pyval.splits if_splits sum.splits prod.splits dest: grok_result_ok)

subsection \<open>The cache is transparent\<close>

lemma grok_loop_cong: "map_of lib = map_of lib' \<Longrightarrow> grok_loop word lib depth whole g st = grok_loop word lib' depth whole g st"
proof (induction word lib depth whole g st rule: grok_loop.induct)
  case (1 word lib depth whole g st)
  show ?case
    by (subst (1 2) grok_loop.simps) (simp add: 1 split: option.split sum.split prod.split)
qed

lemma grok_compile_cong: "map_of lib = map_of lib' \<Longrightarrow> grok_compile word lib pattern = grok_compile word lib' pattern"
  using grok_loop_cong [of lib lib'] by (simp add: grok_compile_def)

lemma map_of_update_sort:
  fixes e :: "(string \<times> string) list"
  assumes "dict_ok e"
  shows "map_of (dict_update lib (sort e)) = map_of (dict_update lib e)"
proof -
  have m: "mset (map fst (sort e)) = mset (map fst e)" by (simp only: mset_map mset_sort)
  have e: "distinct (map fst e)" using assms by (simp add: dict_ok_def)
  have d: "distinct (map fst (sort e))" unfolding mset_eq_imp_distinct_iff [OF m] by (rule e)
  have "map_of (sort e) = map_of e" unfolding map_of_inject_set [OF d e] by (rule set_sort)
  then show ?thesis unfolding map_of_dict_update map_of_rev_distinct [OF d] map_of_rev_distinct [OF e] by simp
qed

definition cache_ok :: "(char \<Rightarrow> bool) \<Rightarrow> (string \<Rightarrow> string + 'm) \<Rightarrow> (string \<times> string) list \<Rightarrow> 'm grok_cache \<Rightarrow> bool" where
  "cache_ok word compile_rx lib cache \<longleftrightarrow>
     (\<forall>p k m g. map_of cache (p, k) = Some (m, g) \<longrightarrow>
        (\<exists>src. grok_compile word (dict_update lib k) p = Inr (src, g) \<and> compile_rx src = Inr m))"

lemma get_compiled_transparent:
  assumes "cache_ok word compile_rx lib cache" and "dict_ok extra"
  shows "fst (get_compiled word compile_rx lib p extra cache) = fst (get_compiled word compile_rx lib p extra [])"
    and "cache_ok word compile_rx lib (snd (get_compiled word compile_rx lib p extra cache))"
proof -
  have c: "grok_compile word (dict_update lib (sort extra)) p = grok_compile word (dict_update lib extra) p"
    by (rule grok_compile_cong) (rule map_of_update_sort [OF assms(2)])
  show "fst (get_compiled word compile_rx lib p extra cache) = fst (get_compiled word compile_rx lib p extra [])"
  proof (cases "map_of cache (grok_key p extra)")
    case (Some mg)
    obtain m g where mg: "mg = (m, g)" by fastforce
    from assms(1) Some obtain src where "grok_compile word (dict_update lib extra) p = Inr (src, g)" "compile_rx src = Inr m"
      unfolding cache_ok_def grok_key_def mg c [symmetric] by blast
    then show ?thesis by (simp add: get_compiled_def Some mg)
  qed (simp add: get_compiled_def split: sum.split prod.split)
  show "cache_ok word compile_rx lib (snd (get_compiled word compile_rx lib p extra cache))"
    using assms(1) c by (auto simp: get_compiled_def cache_ok_def grok_key_def split: option.split sum.split prod.split)
qed

lemma grok_parse_transparent:
  assumes "cache_ok word compile_rx lib cache" and "\<forall>extra. extra_patterns opts = Inr extra \<longrightarrow> dict_ok extra"
  shows "fst (grok_parse word compile_rx search lib t opts cache) = fst (grok_parse word compile_rx search lib t opts [])
    \<and> cache_ok word compile_rx lib (snd (grok_parse word compile_rx search lib t opts cache))"
proof (cases "py_get opts ''pattern''")
  case (PStr p)
  show ?thesis
  proof (cases "extra_patterns opts")
    case (Inr extra)
    then have "dict_ok extra" using assms(2) by simp
    note tr = get_compiled_transparent [OF assms(1) this, of p]
    obtain r c1 c2 where "get_compiled word compile_rx lib p extra cache = (r, c1)"
      "get_compiled word compile_rx lib p extra [] = (r, c2)" "cache_ok word compile_rx lib c1"
      using tr by (metis prod.collapse)
    then show ?thesis
      using assms(1) by (cases r) (auto simp: grok_parse_def PStr Inr split: sum.split)
  qed (simp add: grok_parse_def PStr assms(1))
qed (simp_all add: grok_parse_def assms(1))

text \<open>Parsing a sequence of lines with one engine object.\<close>

fun run_grok ::
  "(char \<Rightarrow> bool) \<Rightarrow> (string \<Rightarrow> string + 'm) \<Rightarrow> ('m \<Rightarrow> string \<Rightarrow> int \<Rightarrow> grok_outcome) \<Rightarrow> (string \<times> string) list
     \<Rightarrow> (string \<times> pydict) list \<Rightarrow> 'm grok_cache \<Rightarrow> pydict res list" where
  "run_grok word compile_rx search lib [] cache = []"
| "run_grok word compile_rx search lib ((t, opts) # lines) cache =
     (let (r, cache') = grok_parse word compile_rx search lib t opts cache
      in r # run_grok word compile_rx search lib lines cache')"

text \<open>
  The cache of compiled patterns is transparent: over any sequence of lines and options, the engine
  returns for each line what a fresh engine would return. (The extra patterns of the options are
  dictionaries: their names are distinct.)
\<close>

theorem grok_cache_transparent:
  assumes "\<forall>(t, opts) \<in> set lines. \<forall>extra. extra_patterns opts = Inr extra \<longrightarrow> dict_ok extra"
  shows "run_grok word compile_rx search lib lines []
       = map (\<lambda>(t, opts). fst (grok_parse word compile_rx search lib t opts [])) lines"
proof -
  have "cache_ok word compile_rx lib cache \<Longrightarrow> run_grok word compile_rx search lib lines cache
       = map (\<lambda>(t, opts). fst (grok_parse word compile_rx search lib t opts [])) lines" for cache
    using assms
  proof (induction lines arbitrary: cache)
    case (Cons l lines)
    obtain t opts where l: "l = (t, opts)" by fastforce
    then have "\<forall>extra. extra_patterns opts = Inr extra \<longrightarrow> dict_ok extra" using Cons.prems(2) by simp
    from grok_parse_transparent [OF Cons.prems(1) this, of search t] Cons show ?case
      by (simp add: l case_prod_unfold Let_def)
  qed simp
  then show ?thesis by (simp add: cache_ok_def)
qed

theorem grok_cache_transparent_witness:
  "run_grok is_alpha (\<lambda>src. Inr src) (\<lambda>m t ms. if m = ''(?P<f>x)'' then Groups [(''f'', Some t)] else NoMatch) [(''A'', ''x'')]
      [(''l1'', [(''pattern'', PStr ''%{A:f}'')]), (''l2'', [(''pattern'', PStr ''%{A:f}'')])] []
     = [Inr [(''f'', PStr ''l1'')], Inr [(''f'', PStr ''l2'')]]"
proof -
  let ?opts = "[(''pattern'', PStr ''%{A:f}'')]"
  have "\<forall>(t, opts) \<in> set [(''l1'', ?opts), (''l2'', ?opts)]. \<forall>extra. extra_patterns opts = Inr extra \<longrightarrow> dict_ok extra"
    by (simp add: extra_patterns_def py_get_def or_else_def)
  from grok_cache_transparent [OF this]
  have "run_grok is_alpha (\<lambda>src. Inr src) (\<lambda>m t ms. if m = ''(?P<f>x)'' then Groups [(''f'', Some t)] else NoMatch)
      [(''A'', ''x'')] [(''l1'', ?opts), (''l2'', ?opts)] []
    = map (\<lambda>(t, opts). fst (grok_parse is_alpha (\<lambda>src. Inr src)
        (\<lambda>m t ms. if m = ''(?P<f>x)'' then Groups [(''f'', Some t)] else NoMatch) [(''A'', ''x'')] t opts []))
      [(''l1'', ?opts), (''l2'', ?opts)]" .
  also have "\<dots> = [Inr [(''f'', PStr ''l1'')], Inr [(''f'', PStr ''l2'')]]" by code_simp
  finally show ?thesis .
qed

end
