(* ===== verification/Envelope.thy ===== *)
theory Envelope
  imports Kv_Engine
begin

text \<open>
  The syslog envelope (\<^verbatim>\<open>ulpf/parse/syslog_envelope.py\<close>). The header is scanned on the Latin-1 text of the
  bytes, one character per byte; an index into the text is represented by the rest of the text from there,
  and the message is the same rest of the bytes.
\<close>

section \<open>Bytes as Latin-1 text\<close>

definition latin1 :: "bytes \<Rightarrow> string" where
  "latin1 bs = map (\<lambda>b. ch (unat b)) bs"

definition latin1_bytes :: "string \<Rightarrow> bytes" where
  "latin1_bytes s = map (\<lambda>c. word_of_nat (code c)) s"

lemma latin1_bytes_latin1 [simp]: "latin1_bytes (latin1 bs) = bs"
  by (simp add: latin1_def latin1_bytes_def comp_def unat_byte_less)

lemma latin1_simps [simp]: "length (latin1 bs) = length bs" "drop n (latin1 bs) = latin1 (drop n bs)"
  "take n (latin1 bs) = latin1 (take n bs)"
  by (simp_all add: latin1_def drop_map take_map)

section \<open>PRI\<close>

definition facility_names :: "string list" where
  "facility_names = [''kernel'', ''user'', ''mail'', ''daemon'', ''auth'', ''syslog'', ''lpr'', ''news'', ''uucp'',
     ''cron'', ''authpriv'', ''ftp'', ''ntp'', ''audit'', ''alert'', ''cron2'', ''local0'', ''local1'', ''local2'',
     ''local3'', ''local4'', ''local5'', ''local6'', ''local7'']"

definition severity_names :: "string list" where
  "severity_names = [''Emergency'', ''Alert'', ''Critical'', ''Error'', ''Warning'', ''Notice'', ''Informational'', ''Debug'']"

text \<open>A run of at most \<open>k\<close> characters of a class, and what follows; matching it is greedy.\<close>

fun take_run :: "nat \<Rightarrow> (char \<Rightarrow> bool) \<Rightarrow> string \<Rightarrow> string \<times> string" where
  "take_run (Suc k) P (c # s) = (if P c then let (a, r) = take_run k P s in (c # a, r) else ([], c # s))"
| "take_run _ P s = ([], s)"

text \<open>\<^verbatim>\<open>(\d{1,3})\<close> followed by the character \<open>e\<close>.\<close>

definition short_number :: "char \<Rightarrow> string \<Rightarrow> (string \<times> string) option" where
  "short_number e s =
     (case take_run 3 is_dec s of (ds, r) \<Rightarrow> if ds \<noteq> [] \<and> r \<noteq> [] \<and> hd r = e then Some (ds, tl r) else None)"

definition match_pri :: "string \<Rightarrow> (string \<times> string) option" where
  "match_pri s = (if s \<noteq> [] \<and> hd s = CHR ''<'' then short_number (CHR ''>'') (tl s) else None)"

definition pri_fields :: "nat \<Rightarrow> string \<Rightarrow> pydict" where
  "pri_fields pri pri_raw =
     (let facility = pri div 8; severity = pri mod 8 in
      [(''pri'', PInt (int pri)), (''pri_raw'', PStr pri_raw), (''facility'', PInt (int facility)),
       (''facility_name'', PStr (if facility < 24 then facility_names ! facility else dec_digits facility)),
       (''severity'', PInt (int severity)),
       (''severity_name'', PStr (if severity < 8 then severity_names ! severity else dec_digits severity))])"

section \<open>RFC 5424\<close>

definition nil_value :: "string \<Rightarrow> pyval" where
  "nil_value v = (if v = ''-'' then PNone else PStr v)"

definition env_read_quoted :: "string \<Rightarrow> string \<times> string" where
  "env_read_quoted s = read_quoted s"

text \<open>The parameters of an element: the loop stops where a parameter is malformed.\<close>

lemma sd_params_shorter:
  assumes "find_sub ''='' (tl s) = Some (name, r)" and "(v, r') = env_read_quoted (tl r)" and "s \<noteq> []"
  shows "length r' < length s"
proof -
  have "length r < length (tl s)" using assms(1) by (rule find_sub_shorter) simp
  moreover have "length r' \<le> length (tl r)"
    using assms(2) length_read_quoted [of "tl r"] by (metis env_read_quoted_def snd_conv)
  ultimately show ?thesis by (simp add: assms(3))
qed

function sd_params :: "(string \<times> string) list \<Rightarrow> string \<Rightarrow> (string \<times> string) list \<times> string" where
  "sd_params params s =
     (if s \<noteq> [] \<and> hd s = CHR '' ''
      then case find_sub ''='' (tl s) of
             None \<Rightarrow> (params, tl s)
           | Some (name, r) \<Rightarrow>
               if r = [] \<or> hd r \<noteq> CHR 0x22 then (params, tl s)
               else let (v, r') = env_read_quoted (tl r) in sd_params (dict_set name v params) r'
      else (params, s))"
  by auto

termination
  by (relation "measure (length \<circ> snd)") (auto intro: sd_params_shorter)

declare sd_params.simps [simp del]

lemma length_sd_params: "length (snd (sd_params params s)) \<le> length s"
proof (induction params s rule: sd_params.induct)
  case (1 params s)
  show ?case
  proof (subst sd_params.simps, auto split: option.split prod.split, goal_cases)
    case (1 name r v r')
    then show ?case using 1 "1.IH" sd_params_shorter [of s name r v r'] by fastforce
  qed
qed

text \<open>One element; \<open>s\<close> is the text after its opening bracket.\<close>

definition scan_sd_element :: "string \<Rightarrow> string \<times> (string \<times> string) list \<times> string" where
  "scan_sd_element s =
     (let id_char = (\<lambda>c. c \<noteq> CHR '' '' \<and> c \<noteq> CHR '']'');
          (params, r) = sd_params [] (dropWhile id_char s)
      in (takeWhile id_char s, params, if r \<noteq> [] \<and> hd r = CHR '']'' then tl r else r))"

lemma length_scan_sd_element: "length (snd (snd (scan_sd_element s))) \<le> length s"
proof -
  let ?d = "dropWhile (\<lambda>c. c \<noteq> CHR '' '' \<and> c \<noteq> CHR '']'') s"
  have "length (snd (sd_params [] ?d)) \<le> length s"
    using length_sd_params [of "[]" ?d] length_dropWhile_le order_trans by blast
  then show ?thesis by (auto simp: scan_sd_element_def case_prod_unfold Let_def)
qed

function sd_elements :: "pydict \<Rightarrow> string \<Rightarrow> pydict \<times> string" where
  "sd_elements els s =
     (if s \<noteq> [] \<and> hd s = CHR ''[''
      then let (sd_id, params, r) = scan_sd_element (tl s)
           in sd_elements (dict_set sd_id (PDict (map (\<lambda>(k, v). (k, PStr v)) params)) els) r
      else (els, s))"
  by auto
termination
proof (relation "measure (length \<circ> snd)", goal_cases)
  case (2 els s x sd_id y params r)
  then have "length r \<le> length (tl s)" using length_scan_sd_element [of "tl s"] by (metis snd_conv)
  then show ?case using 2(1) by (cases s) auto
qed simp

declare sd_elements.simps [simp del]

text \<open>The structured data, its raw text, and the text from where the message begins.\<close>

definition parse_structured_data :: "string \<Rightarrow> pyval \<times> string \<times> string" where
  "parse_structured_data tail =
     (if take 1 tail = ''-'' \<and> (length tail = 1 \<or> tail ! 1 = CHR '' '')
      then (PNone, ''-'', drop (if 1 < length tail then 2 else 1) tail)
      else if take 1 tail \<noteq> ''['' then (PNone, [], tail)
      else let (els, r) = sd_elements [] tail; sd_raw = take (length tail - length r) tail
           in (PDict els, sd_raw, if r \<noteq> [] \<and> hd r = CHR '' '' then tl r else r))"

text \<open>\<open>t\<close> is the whole text, \<open>body\<close> what follows the version.\<close>

definition parse_rfc5424 :: "string \<Rightarrow> pydict \<Rightarrow> nat \<Rightarrow> string \<Rightarrow> (pydict \<times> string) option" where
  "parse_rfc5424 t env version body =
     (case split_max 5 '' '' body of
        [timestamp, hostname, app_name, procid, msgid, tail] \<Rightarrow>
          (let (structured, sd_raw, msg) = parse_structured_data tail in
           Some (dict_update env
             [(''format'', PStr ''rfc5424''), (''version'', PInt (int version)),
              (''timestamp'', nil_value timestamp), (''timestamp_raw'', PStr timestamp),
              (''hostname'', nil_value hostname), (''hostname_raw'', PStr hostname),
              (''app_name'', nil_value app_name), (''app_name_raw'', PStr app_name),
              (''procid'', nil_value procid), (''procid_raw'', PStr procid),
              (''msgid'', nil_value msgid), (''msgid_raw'', PStr msgid),
              (''structured_data'', structured), (''structured_data_raw'', PStr sd_raw),
              (''header_raw'', PStr (take (length t - length msg) t))], msg))
      | _ \<Rightarrow> None)"

section \<open>RFC 3164\<close>

text \<open>The month, the timestamp up to its last digit, the host, and the text after the space that follows.\<close>

definition match_time :: "string \<Rightarrow> (string \<times> string) option" where
  "match_time s =
     (let t = take 8 s in
      if length t = 8 \<and> list_all is_dec [t ! 0, t ! 1, t ! 3, t ! 4, t ! 6, t ! 7] \<and> t ! 2 = CHR '':'' \<and> t ! 5 = CHR '':''
      then Some (t, drop 8 s) else None)"

definition match_rfc3164 :: "string \<Rightarrow> (string \<times> string \<times> string) option" where
  "match_rfc3164 s =
     (let month = take 3 s; gap = takeWhile is_space (drop 3 s); (day, r1) = take_run 2 is_dec (dropWhile is_space (drop 3 s)) in
      if length month = 3 \<and> list_all is_alpha month \<and> gap \<noteq> [] \<and> day \<noteq> [] \<and> r1 \<noteq> [] \<and> hd r1 = CHR '' ''
      then case match_time (tl r1) of
             None \<Rightarrow> None
           | Some (tm, r2) \<Rightarrow>
               if r2 \<noteq> [] \<and> hd r2 = CHR '' ''
               then let host = takeWhile (\<lambda>c. \<not> is_space c) (tl r2); r3 = dropWhile (\<lambda>c. \<not> is_space c) (tl r2) in
                    if host \<noteq> [] \<and> r3 \<noteq> [] \<and> hd r3 = CHR '' ''
                    then Some (month @ gap @ day @ '' '' @ tm, host, tl r3) else None
               else None
      else None)"

definition tag_char :: "char \<Rightarrow> bool" where
  "tag_char c \<longleftrightarrow> \<not> is_space c \<and> c \<noteq> CHR '':'' \<and> c \<noteq> CHR ''[''"

definition tag_procid :: "string \<Rightarrow> string option \<times> string" where
  "tag_procid s =
     (if s \<noteq> [] \<and> hd s = CHR ''[''
      then case take_run 10 is_dec (tl s) of
             (ds, r) \<Rightarrow> if ds \<noteq> [] \<and> r \<noteq> [] \<and> hd r = CHR '']'' then (Some ds, tl r) else (None, s)
      else (None, s))"

definition skip_one :: "char \<Rightarrow> string \<Rightarrow> string" where
  "skip_one c s = (if s \<noteq> [] \<and> hd s = c then tl s else s)"

definition match_tag :: "string \<Rightarrow> (string \<times> string option \<times> string) option" where
  "match_tag s =
     (let (tag, r) = take_run 32 tag_char s in
      if tag = [] then None
      else let (procid, r') = tag_procid r in Some (tag, procid, skip_one (CHR '' '') (skip_one (CHR '':'') r')))"

definition opt_str :: "string option \<Rightarrow> pyval" where
  "opt_str v = (case v of None \<Rightarrow> PNone | Some s \<Rightarrow> PStr s)"

definition parse_rfc3164 :: "string \<Rightarrow> pydict \<Rightarrow> string \<times> string \<times> string \<Rightarrow> pydict \<times> string" where
  "parse_rfc3164 t env = (\<lambda>(timestamp, hostname, content).
     let (tag, procid, msg) = (case match_tag content of
           Some (tg, p, r) \<Rightarrow> (Some tg, p, r) | None \<Rightarrow> (None, None, content)) in
     (dict_update env
        [(''format'', PStr ''rfc3164''), (''timestamp'', PStr timestamp), (''timestamp_raw'', PStr timestamp),
         (''hostname'', PStr hostname), (''tag'', opt_str tag), (''app_name'', opt_str tag), (''procid'', opt_str procid),
         (''header_raw'', PStr (take (length t - length msg) t))], msg))"

section \<open>The envelope\<close>

definition pri_only :: "string \<Rightarrow> pydict \<Rightarrow> string \<Rightarrow> pydict \<times> string" where
  "pri_only t env rest =
     (dict_update env [(''format'', PStr ''pri_only''), (''header_raw'', PStr (take (length t - length rest) t))], rest)"

definition parse_after_pri :: "string \<Rightarrow> pydict \<Rightarrow> string \<Rightarrow> pydict \<times> string" where
  "parse_after_pri t env rest =
     (case (case short_number (CHR '' '') rest of
              Some (v, body) \<Rightarrow> parse_rfc5424 t env (nat_of_dec v) body | None \<Rightarrow> None) of
        Some r \<Rightarrow> r
      | None \<Rightarrow>
          (case match_rfc3164 rest of
             Some header \<Rightarrow> parse_rfc3164 t env header
           | None \<Rightarrow> pri_only t env rest))"

definition parse_syslog_envelope :: "bytes \<Rightarrow> pydict \<times> bytes" where
  "parse_syslog_envelope bs =
     (case match_pri (latin1 bs) of
        None \<Rightarrow> ([], bs)
      | Some (digits, rest) \<Rightarrow>
          (let (env, msg) = parse_after_pri (latin1 bs) (pri_fields (nat_of_dec digits) (''<'' @ digits @ ''>'')) rest
           in (env, drop (length bs - length msg) bs)))"

section \<open>The split is reversible\<close>

definition header_raw :: "pydict \<Rightarrow> string" where
  "header_raw env = (case map_of env ''header_raw'' of Some (PStr h) \<Rightarrow> h | _ \<Rightarrow> [])"

lemma map_of_update_last:
  "map_of (dict_update env (d @ [(k, v)])) k = Some v"
  by (simp add: dict_update_append)

lemma after_pri_header:
  "parse_after_pri t env rest = (env', msg) \<Longrightarrow> header_raw env' = take (length t - length msg) t"
proof -
  have f: "parse_rfc5424 t env v body = Some (env', msg) \<Longrightarrow> header_raw env' = take (length t - length msg) t" for v body
    by (auto simp: parse_rfc5424_def header_raw_def Let_def split: list.splits prod.splits)
  show "parse_after_pri t env rest = (env', msg) \<Longrightarrow> header_raw env' = take (length t - length msg) t"
    by (auto simp: parse_after_pri_def pri_only_def parse_rfc3164_def header_raw_def Let_def
        split: option.splits prod.splits dest!: f [unfolded header_raw_def])
qed

text \<open>
  Splitting off the envelope loses no byte: the recorded header followed by the message is the input, for
  any input, whatever header was recognised (none leaves the whole input as the message).
\<close>

theorem envelope_reversible:
  "latin1_bytes (header_raw (fst (parse_syslog_envelope bs))) @ snd (parse_syslog_envelope bs) = bs"
proof (cases "match_pri (latin1 bs)")
  case None
  then show ?thesis by (simp add: parse_syslog_envelope_def header_raw_def latin1_bytes_def)
next
  case (Some dr)
  obtain digits rest where "dr = (digits, rest)" by fastforce
  moreover obtain env msg where p: "parse_after_pri (latin1 bs) (pri_fields (nat_of_dec digits) (''<'' @ digits @ ''>'')) rest = (env, msg)"
    by fastforce
  moreover have "header_raw env = latin1 (take (length bs - length msg) bs)" using after_pri_header [OF p] by simp
  ultimately show ?thesis by (simp add: parse_syslog_envelope_def Some)
qed

section \<open>Printing an RFC 5424 line and reading it back\<close>

definition sd_escape :: "string \<Rightarrow> string" where
  "sd_escape v = concat (map (\<lambda>c. if c = CHR 0x5C \<or> c = CHR 0x22 \<or> c = CHR '']'' then [CHR 0x5C, c] else [c]) v)"

definition print_param :: "string \<times> string \<Rightarrow> string" where
  "print_param = (\<lambda>(n, v). '' '' @ n @ ''='' @ [CHR 0x22] @ sd_escape v @ [CHR 0x22])"

definition print_element :: "string \<times> (string \<times> string) list \<Rightarrow> string" where
  "print_element = (\<lambda>(i, ps). ''['' @ i @ concat (map print_param ps) @ '']'')"

definition print_rfc5424 :: "nat \<Rightarrow> nat \<Rightarrow> string list \<Rightarrow> (string \<times> (string \<times> string) list) list \<Rightarrow> string \<Rightarrow> string" where
  "print_rfc5424 pri version tokens els msg =
     ''<'' @ dec_digits pri @ ''>'' @ dec_digits version @ '' '' @ concat (map (\<lambda>t. t @ '' '') tokens)
       @ concat (map print_element els) @ '' '' @ msg"

lemma read_quoted_sd: "read_quoted (sd_escape v @ CHR 0x22 # r) = (v, r)"
proof (induction v)
  case Nil
  show ?case by (cases r) (simp_all add: sd_escape_def)
next
  case (Cons c v)
  have e: "sd_escape (c # v) = (if c = CHR 0x5C \<or> c = CHR 0x22 \<or> c = CHR '']'' then [CHR 0x5C, c] else [c]) @ sd_escape v"
    by (simp add: sd_escape_def)
  show ?case
  proof (cases "c = CHR 0x5C \<or> c = CHR 0x22 \<or> c = CHR '']''")
    case True
    then have "sd_escape (c # v) @ CHR 0x22 # r = CHR 0x5C # c # (sd_escape v @ CHR 0x22 # r)" using e by simp
    then show ?thesis using Cons.IH by simp
  qed (simp add: e read_quoted_plain Cons.IH)
qed

lemma sd_params_print:
  "\<forall>(n, v) \<in> set ps. CHR ''='' \<notin> set n \<Longrightarrow>
     sd_params acc (concat (map print_param ps) @ CHR '']'' # r) = (dict_update acc ps, CHR '']'' # r)"
proof (induction ps arbitrary: acc)
  case Nil
  show ?case by (subst sd_params.simps) simp
next
  case (Cons p ps)
  obtain n v where p: "p = (n, v)" by fastforce
  let ?r = "concat (map print_param ps) @ CHR '']'' # r"
  have "find_sub ''='' (n @ CHR ''='' # CHR 0x22 # sd_escape v @ CHR 0x22 # ?r) = Some (n, CHR 0x22 # sd_escape v @ CHR 0x22 # ?r)"
    by (rule find_sub_single) (use Cons.prems p in simp)
  then have "sd_params acc (print_param p @ ?r) = sd_params (dict_set n v acc) ?r"
    by (subst sd_params.simps) (simp add: p print_param_def env_read_quoted_def read_quoted_sd)
  then show ?case using Cons by (simp add: p)
qed

definition sd_id :: "string \<Rightarrow> bool" where
  "sd_id i \<longleftrightarrow> CHR '' '' \<notin> set i \<and> CHR '']'' \<notin> set i"

definition element_ok :: "string \<times> (string \<times> string) list \<Rightarrow> bool" where
  "element_ok = (\<lambda>(i, ps). sd_id i \<and> (\<forall>(n, v) \<in> set ps. CHR ''='' \<notin> set n))"

lemma scan_print_element:
  assumes "element_ok (i, ps)"
  shows "scan_sd_element (i @ concat (map print_param ps) @ CHR '']'' # r) = (i, dict_update [] ps, r)"
proof -
  let ?P = "\<lambda>c. c \<noteq> CHR '' '' \<and> c \<noteq> CHR '']''" and ?r = "concat (map print_param ps) @ CHR '']'' # r"
  have "\<forall>c \<in> set i. ?P c" using assms by (auto simp: element_ok_def sd_id_def)
  moreover obtain c s where r: "?r = c # s" "\<not> ?P c" by (cases ps) (auto simp: print_param_def)
  ultimately have w: "takeWhile ?P (i @ ?r) = i" "dropWhile ?P (i @ ?r) = ?r"
    by (auto simp: takeWhile_append2 dropWhile_append2)
  have "sd_params [] ?r = (dict_update [] ps, CHR '']'' # r)"
    by (rule sd_params_print) (use assms in \<open>simp add: element_ok_def\<close>)
  then show ?thesis unfolding scan_sd_element_def Let_def w by simp
qed

definition element_dict :: "(string \<times> (string \<times> string) list) list \<Rightarrow> pydict" where
  "element_dict els = map (\<lambda>(i, ps). (i, PDict (map (\<lambda>(k, v). (k, PStr v)) (dict_update [] ps)))) els"

lemma sd_elements_print:
  "\<forall>e \<in> set els. element_ok e \<Longrightarrow> r = [] \<or> hd r \<noteq> CHR ''['' \<Longrightarrow>
     sd_elements acc (concat (map print_element els) @ r) = (dict_update acc (element_dict els), r)"
proof (induction els arbitrary: acc)
  case Nil
  then show ?case by (subst sd_elements.simps) (auto simp: element_dict_def)
next
  case (Cons e els)
  obtain i ps where e: "e = (i, ps)" by fastforce
  let ?r = "concat (map print_element els) @ r"
  have "scan_sd_element (i @ concat (map print_param ps) @ CHR '']'' # ?r) = (i, dict_update [] ps, ?r)"
    by (rule scan_print_element) (use Cons.prems e in simp)
  then have "sd_elements acc (print_element e @ ?r) = sd_elements (dict_set i (PDict (map (\<lambda>(k, v). (k, PStr v)) (dict_update [] ps))) acc) ?r"
    by (subst sd_elements.simps) (simp add: e print_element_def)
  then show ?case using Cons by (simp add: e element_dict_def)
qed

lemma take_run_exact:
  "length ds \<le> k \<Longrightarrow> \<forall>c \<in> set ds. P c \<Longrightarrow> \<not> P e \<Longrightarrow> take_run k P (ds @ e # r) = (ds, e # r)"
proof (induction ds arbitrary: k)
  case Nil
  then show ?case by (cases k) auto
next
  case (Cons d ds)
  then show ?case by (cases k) auto
qed

lemma dec_digits_short: "n < 1000 \<Longrightarrow> length (dec_digits n) \<le> 3"
  using dec_digits_bound [of 3 n] by simp

lemma short_number_print:
  "n < 1000 \<Longrightarrow> \<not> is_dec e \<Longrightarrow> short_number e (dec_digits n @ e # r) = Some (dec_digits n, r)"
  using take_run_exact [of "dec_digits n" 3 is_dec e r] dec_digits_short dec_digits_is_dec
  by (simp add: short_number_def)

lemma split_tokens:
  "\<forall>t \<in> set tokens. CHR '' '' \<notin> set t \<Longrightarrow>
     split_max (length tokens) '' '' (concat (map (\<lambda>t. t @ '' '') tokens) @ r) = tokens @ [r]"
  by (induction tokens) (simp_all add: find_sub_single)

text \<open>
  C34. A printed RFC 5424 line is read back completely: for any numbers up to three digits, header tokens
  without spaces, and structured data with parameter values of any characters (quotes, backslashes and
  brackets included), the envelope holds every field and the message is the text after the structured data.
\<close>

theorem rfc5424_roundtrip:
  assumes "pri < 1000" and "version < 1000" and "\<forall>t \<in> set [ts, host, app, procid, msgid]. CHR '' '' \<notin> set t"
    and "els \<noteq> []" and "\<forall>e \<in> set els. element_ok e"
  shows "parse_syslog_envelope (latin1_bytes (print_rfc5424 pri version [ts, host, app, procid, msgid] els msg))
    = (dict_update (pri_fields pri (''<'' @ dec_digits pri @ ''>''))
         [(''format'', PStr ''rfc5424''), (''version'', PInt (int version)),
          (''timestamp'', nil_value ts), (''timestamp_raw'', PStr ts), (''hostname'', nil_value host), (''hostname_raw'', PStr host),
          (''app_name'', nil_value app), (''app_name_raw'', PStr app), (''procid'', nil_value procid), (''procid_raw'', PStr procid),
          (''msgid'', nil_value msgid), (''msgid_raw'', PStr msgid),
          (''structured_data'', PDict (dict_update [] (element_dict els))),
          (''structured_data_raw'', PStr (concat (map print_element els))),
          (''header_raw'', PStr (print_rfc5424 pri version [ts, host, app, procid, msgid] els []))],
       latin1_bytes msg)"
proof -
  let ?tokens = "[ts, host, app, procid, msgid]" and ?sd = "concat (map print_element els)"
  let ?t = "print_rfc5424 pri version ?tokens els msg"
  let ?body = "concat (map (\<lambda>t. t @ '' '') ?tokens) @ ?sd @ '' '' @ msg"
  let ?rest = "dec_digits version @ CHR '' '' # ?body"
  have l: "latin1 (latin1_bytes s) = s" for s
    by (simp add: latin1_def latin1_bytes_def comp_def unsigned_of_nat take_bit_nat_eq_self)
  have pri: "match_pri ?t = Some (dec_digits pri, ?rest)"
    using short_number_print [OF assms(1), of "CHR ''>''" ?rest] by (simp add: match_pri_def print_rfc5424_def is_dec_def)
  have ver: "short_number (CHR '' '') ?rest = Some (dec_digits version, ?body)"
    by (rule short_number_print [OF assms(2)]) (simp add: is_dec_def)
  have tok: "split_max 5 '' '' ?body = [ts, host, app, procid, msgid, ?sd @ '' '' @ msg]"
    using split_tokens [OF assms(3), of "?sd @ '' '' @ msg"] by (simp add: numeral_eq_Suc del: split_max.simps)
  have sd: "sd_elements [] (?sd @ '' '' @ msg) = (dict_update [] (element_dict els), '' '' @ msg)"
    by (rule sd_elements_print [OF assms(5)]) simp
  have hd: "take 1 (?sd @ '' '' @ msg) = ''[''" using assms(4) by (cases els) (auto simp: print_element_def)
  have psd: "parse_structured_data (?sd @ '' '' @ msg) = (PDict (dict_update [] (element_dict els)), ?sd, msg)"
    unfolding parse_structured_data_def hd sd by simp
  have t: "?t = print_rfc5424 pri version ?tokens els [] @ msg" by (simp add: print_rfc5424_def)
  have "take (length ?t - length msg) ?t = print_rfc5424 pri version ?tokens els []" unfolding t by simp
  then have "parse_after_pri ?t env ?rest = (dict_update env
         [(''format'', PStr ''rfc5424''), (''version'', PInt (int version)),
          (''timestamp'', nil_value ts), (''timestamp_raw'', PStr ts), (''hostname'', nil_value host), (''hostname_raw'', PStr host),
          (''app_name'', nil_value app), (''app_name_raw'', PStr app), (''procid'', nil_value procid), (''procid_raw'', PStr procid),
          (''msgid'', nil_value msgid), (''msgid_raw'', PStr msgid),
          (''structured_data'', PDict (dict_update [] (element_dict els))), (''structured_data_raw'', PStr ?sd),
          (''header_raw'', PStr (print_rfc5424 pri version ?tokens els []))], msg)" for env
    by (simp only: parse_after_pri_def ver option.case prod.case nat_of_dec_digits parse_rfc5424_def tok list.case psd Let_def)
  moreover have "drop (length ?t - length msg) (latin1_bytes ?t) = latin1_bytes msg"
    unfolding t by (simp add: latin1_bytes_def)
  moreover have "length (latin1_bytes s) = length s" for s by (simp add: latin1_bytes_def)
  ultimately show ?thesis
    by (simp only: parse_syslog_envelope_def l pri option.case prod.case nat_of_dec_digits Let_def)
qed

theorem rfc5424_roundtrip_witness:
  "snd (parse_syslog_envelope (latin1_bytes (print_rfc5424 34 1 [''t'', ''h'', ''-'', ''7'', ''m''] [(''x@1'', [(''k'', ''a]b'')])] ''hi'')))
     = latin1_bytes ''hi''"
proof -
  have "\<forall>t \<in> set [''t'', ''h'', ''-'', ''7'', ''m'']. CHR '' '' \<notin> set t" by simp
  moreover have "\<forall>e \<in> set [(''x@1'', [(''k'', ''a]b'')])]. element_ok e" by (simp add: element_ok_def sd_id_def)
  ultimately show ?thesis
    using rfc5424_roundtrip [of 34 1 "''t''" "''h''" "''-''" "''7''" "''m''" "[(''x@1'', [(''k'', ''a]b'')])]" "''hi''"] by simp
qed

end
