(* ===== verification/Coordinator.thy ===== *)
theory Coordinator
  imports Template_Engines Envelope
begin

text \<open>
  From the bytes of an event to its parsed form: decoding (\<^verbatim>\<open>ulpf/parse/decode.py\<close>), format detection
  (\<^verbatim>\<open>ulpf/detect/sniffer.py\<close>), the engine registry (\<^verbatim>\<open>registry.py\<close>) and the coordinator
  (\<^verbatim>\<open>coordinator.py\<close>). An engine of the registry is a function; a stateful engine is given at its
  current state.
\<close>

section \<open>Decoding\<close>

text \<open>UTF-8 with \<^verbatim>\<open>errors="replace"\<close>: a malformed sequence gives U+FFFD once per maximal valid prefix.\<close>

definition cont :: "nat \<Rightarrow> bool" where
  "cont b \<longleftrightarrow> 128 \<le> b \<and> b < 192"

definition replacement :: nat where
  "replacement = 65533"

text \<open>The bytes that may follow the lead byte of a sequence of three or four bytes.\<close>

definition second_ok :: "nat \<Rightarrow> nat \<Rightarrow> bool" where
  "second_ok b c \<longleftrightarrow>
     (if b = 224 then 160 else if b = 240 then 144 else 128) \<le> c \<and> c \<le> (if b = 237 then 159 else if b = 244 then 143 else 191)"

definition utf8_step :: "nat \<Rightarrow> nat list \<Rightarrow> nat \<times> nat list" where
  "utf8_step b r =
     (if b < 128 then (b, r)
      else if 194 \<le> b \<and> b < 224
      then (case r of c # r1 \<Rightarrow> if cont c then ((b - 192) * 64 + (c - 128), r1) else (replacement, r) | [] \<Rightarrow> (replacement, r))
      else if 224 \<le> b \<and> b < 245
      then (case r of
              [] \<Rightarrow> (replacement, r)
            | c # r1 \<Rightarrow>
                if \<not> second_ok b c then (replacement, r)
                else (case r1 of
                        [] \<Rightarrow> (replacement, r1)
                      | d # r2 \<Rightarrow>
                          if \<not> cont d then (replacement, r1)
                          else if b < 240 then (((b - 224) * 64 + (c - 128)) * 64 + (d - 128), r2)
                          else (case r2 of
                                  [] \<Rightarrow> (replacement, r2)
                                | e # r3 \<Rightarrow>
                                    if cont e then ((((b - 240) * 64 + (c - 128)) * 64 + (d - 128)) * 64 + (e - 128), r3)
                                    else (replacement, r2))))
      else (replacement, r))"

lemma length_utf8_step: "length (snd (utf8_step b r)) \<le> length r"
  by (auto simp: utf8_step_def split: list.split)

function utf8_points :: "nat list \<Rightarrow> nat list" where
  "utf8_points [] = []"
| "utf8_points (b # r) = (let (p, r') = utf8_step b r in p # utf8_points r')"
  by pat_completeness auto
termination
proof (relation "measure length", goal_cases)
  case (2 b r x p r')
  then show ?case using length_utf8_step [of b r] by (metis in_measure le_imp_less_Suc length_Cons snd_conv)
qed simp

definition decode_utf8 :: "bytes \<Rightarrow> string" where
  "decode_utf8 bs = map text_char (utf8_points (map unat bs))"

fun encode_points :: "nat list \<Rightarrow> nat list" where
  "encode_points [] = []"
| "encode_points (p # ps) = (if p < 128 then [p] else [192 + p div 64, 128 + p mod 64]) @ encode_points ps"

text \<open>\<^verbatim>\<open>str.encode("utf-8")\<close> on the text of the model, whose code points are below 256.\<close>

definition encode_utf8 :: "string \<Rightarrow> bytes" where
  "encode_utf8 s = map word_of_nat (encode_points (map code s))"

text \<open>UTF-16 with replacement; \<open>u\<close> puts the two bytes of a unit together in the given byte order.\<close>

fun utf16_points :: "(nat \<Rightarrow> nat \<Rightarrow> nat) \<Rightarrow> nat list \<Rightarrow> nat list" where
  "utf16_points u [] = []"
| "utf16_points u [a] = [replacement]"
| "utf16_points u [a, b] = [if u a b < 55296 \<or> 57343 < u a b then u a b else replacement]"
| "utf16_points u [a, b, c] =
     (if u a b < 55296 \<or> 57343 < u a b then [u a b, replacement]
      else if u a b < 56320 then [replacement] else [replacement, replacement])"
| "utf16_points u (a # b # c # d # r) =
     (if u a b < 55296 \<or> 57343 < u a b then u a b # utf16_points u (c # d # r)
      else if u a b < 56320 \<and> 56320 \<le> u c d \<and> u c d < 57344
      then (65536 + (u a b - 55296) * 1024 + (u c d - 56320)) # utf16_points u r
      else replacement # utf16_points u (c # d # r))"

definition decode_utf16 :: "(nat \<Rightarrow> nat \<Rightarrow> nat) \<Rightarrow> bytes \<Rightarrow> string" where
  "decode_utf16 u bs = map text_char (utf16_points u (map unat bs))"

text \<open>The byte order marks in the order they are checked, each with the decoder it selects.\<close>

definition boms :: "(bytes \<times> (bytes \<Rightarrow> string)) list" where
  "boms = [([0xEF, 0xBB, 0xBF], decode_utf8), ([0xFF, 0xFE], decode_utf16 (\<lambda>a b. a + 256 * b)),
           ([0xFE, 0xFF], decode_utf16 (\<lambda>a b. 256 * a + b))]"

definition decode_raw :: "bytes \<Rightarrow> string \<times> bool" where
  "decode_raw bs =
     (case List.find (\<lambda>(bom, _). starts_with bom bs) boms of
        Some (bom, decode) \<Rightarrow> (decode (drop (length bom) bs), True)
      | None \<Rightarrow> (decode_utf8 bs, False))"

definition strip_bom_bytes :: "bytes \<Rightarrow> bytes" where
  "strip_bom_bytes bs = (let (t, stripped) = decode_raw bs in if stripped then encode_utf8 t else bs)"

subsection \<open>Decoding what was encoded\<close>

lemma utf8_points_encode: "\<forall>p \<in> set ps. p < 256 \<Longrightarrow> utf8_points (encode_points ps) = ps"
proof (induction ps)
  case (Cons p ps)
  have "utf8_points (encode_points (p # ps)) = p # utf8_points (encode_points ps)"
  proof (cases "p < 128")
    case False
    then have q: "192 + p div 64 < 224" "194 \<le> 192 + p div 64" "p div 64 * 64 + p mod 64 = p" using Cons.prems by auto
    then have "utf8_step (192 + p div 64) ((128 + p mod 64) # r) = (p, r)" for r
      by (simp add: utf8_step_def cont_def)
    then show ?thesis using False by simp
  qed (simp add: utf8_step_def)
  then show ?case using Cons by simp
qed simp

lemma encode_points_bound: "\<forall>p \<in> set ps. p < 256 \<Longrightarrow> \<forall>b \<in> set (encode_points ps). b < 256"
  by (induction ps) auto

lemma decode_encode [simp, text_simps]: "decode_utf8 (encode_utf8 s) = s"
proof -
  have b: "\<forall>p \<in> set (map code s). p < 256" by simp
  have "map unat (map word_of_nat (encode_points (map code s)) :: bytes) = encode_points (map code s)"
    using encode_points_bound [OF b] by (auto simp: unsigned_of_nat take_bit_nat_eq_self intro: map_idI)
  moreover have "map text_char (map code s) = s" by (simp add: comp_def)
  ultimately show ?thesis using utf8_points_encode [OF b] by (simp add: decode_utf8_def encode_utf8_def)
qed

text \<open>
  A byte order mark changes nothing but the flag: the text decoded from a marked payload in any of the
  three encodings is the text that was encoded, and the bytes handed to the envelope parser are its plain
  UTF-8 form.
\<close>

definition encode_utf16 :: "bool \<Rightarrow> string \<Rightarrow> bytes" where
  "encode_utf16 be s = concat (map (\<lambda>c. if be then [0, word_of_nat (code c)] else [word_of_nat (code c), 0]) s)"

lemma utf16_points_encode:
  assumes "\<And>a. u (if be then 0 else a) (if be then a else 0) = a"
  shows "\<forall>p \<in> set ps. p < 256 \<Longrightarrow> utf16_points u (concat (map (\<lambda>p. if be then [0, p] else [p, 0]) ps)) = ps"
proof (induction ps)
  case (Cons p ps)
  have v: "u (if be then 0 else p) (if be then p else 0) = p" "p < 55296" using assms Cons.prems by auto
  obtain q where q: "concat (map (\<lambda>p. if be then [0, p] else [p, 0]) (p # ps))
      = (if be then 0 else p) # (if be then p else 0) # q" "q = concat (map (\<lambda>p. if be then [0, p] else [p, 0]) ps)"
    by simp
  have "q = [] \<or> (\<exists>c d r. q = c # d # r)" using q(2) by (cases ps) auto
  then have "utf16_points u ((if be then 0 else p) # (if be then p else 0) # q) = p # utf16_points u q"
    using v by auto
  then show ?case using Cons q by auto
qed simp

theorem bom_is_transparent:
  "decode_raw ([0xEF, 0xBB, 0xBF] @ encode_utf8 s) = (s, True)
   \<and> decode_raw ([0xFF, 0xFE] @ encode_utf16 False s) = (s, True)
   \<and> decode_raw ([0xFE, 0xFF] @ encode_utf16 True s) = (s, True)
   \<and> strip_bom_bytes ([0xEF, 0xBB, 0xBF] @ encode_utf8 s) = encode_utf8 s
   \<and> strip_bom_bytes ([0xFF, 0xFE] @ encode_utf16 False s) = encode_utf8 s
   \<and> strip_bom_bytes ([0xFE, 0xFF] @ encode_utf16 True s) = encode_utf8 s"
proof -
  have d: "decode_utf16 u (encode_utf16 be s) = s" if "\<And>a. u (if be then 0 else a) (if be then a else 0) = a" for u be
  proof -
    have "map unat (encode_utf16 be s) = concat (map (\<lambda>p. if be then [0, p] else [p, 0]) (map code s))"
      by (induction s) (auto simp: encode_utf16_def unsigned_of_nat take_bit_nat_eq_self)
    then show ?thesis
      using utf16_points_encode [of u be "map code s", OF that] by (simp add: decode_utf16_def comp_def)
  qed
  have "decode_raw ([0xEF, 0xBB, 0xBF] @ encode_utf8 s) = (s, True)" by (simp add: decode_raw_def boms_def)
  moreover have "decode_raw ([0xFF, 0xFE] @ encode_utf16 False s) = (s, True)"
    using d [of "\<lambda>a b. a + 256 * b" False] by (simp add: decode_raw_def boms_def)
  moreover have "decode_raw ([0xFE, 0xFF] @ encode_utf16 True s) = (s, True)"
    using d [of "\<lambda>a b. 256 * a + b" True] by (simp add: decode_raw_def boms_def)
  ultimately show ?thesis by (simp add: strip_bom_bytes_def)
qed

section \<open>Format detection\<close>

text \<open>\<^verbatim>\<open>^<\d+>\<close>.\<close>

definition has_pri :: "string \<Rightarrow> bool" where
  "has_pri t \<longleftrightarrow> t \<noteq> [] \<and> hd t = CHR ''<'' \<and> takeWhile is_dec (tl t) \<noteq> []
     \<and> dropWhile is_dec (tl t) \<noteq> [] \<and> hd (dropWhile is_dec (tl t)) = CHR ''>''"

text \<open>
  How many matches \<^verbatim>\<open>[^\s=]+=\<close> has: one for each equal sign right after a character that is neither
  white space nor an equal sign (\<open>k\<close> says whether the previous character was one).
\<close>

fun key_eq_count :: "bool \<Rightarrow> string \<Rightarrow> nat" where
  "key_eq_count k [] = 0"
| "key_eq_count k (c # s) =
     (if c = CHR ''='' then (if k then 1 else 0) + key_eq_count False s else key_eq_count (\<not> is_space c) s)"

definition sniff :: "string \<Rightarrow> log_format" where
  "sniff line =
     (if has_pri line then FSyslog
      else if contains_sub ''CEF:'' (take 200 line) then FCef
      else if contains_sub ''LEEF:'' (take 200 line) then FLeef
      else if (starts_with ''{'' line \<or> starts_with ''['' line) \<and> json_loads line \<noteq> None then FJson
      else if 3 \<le> count_list line (CHR 0x09) then FTsv
      else if 3 \<le> key_eq_count False line then FKv
      else if 8 \<le> count_list line (CHR '','') then FCsv
      else FUnknown)"

definition sniff_layered :: "string \<Rightarrow> log_format \<times> log_format" where
  "sniff_layered line =
     (let outer = sniff line in
      if outer \<noteq> FSyslog then (outer, outer)
      else let (env, msg) = parse_syslog_envelope (encode_utf8 line); payload = decode_utf8 msg; inner = sniff payload in
           case (inner, py_get env ''tag'') of
             (FUnknown, PStr tag) \<Rightarrow> (outer, if tag = [] then inner else sniff (tag @ '':'' @ payload))
           | _ \<Rightarrow> (outer, inner))"

subsection \<open>The cache of the sniffer\<close>

text \<open>An \<^verbatim>\<open>OrderedDict\<close>: the least recently used source is first.\<close>

record sniffer =
  sn_maxsize :: int
  sn_cache :: "(string \<times> log_format \<times> log_format) list"

definition new_sniffer :: "int \<Rightarrow> sniffer" where
  "new_sniffer m = \<lparr>sn_maxsize = m, sn_cache = []\<rparr>"

definition move_to_end :: "string \<Rightarrow> (string \<times> 'a) list \<Rightarrow> (string \<times> 'a) list" where
  "move_to_end k d = (case map_of d k of None \<Rightarrow> d | Some v \<Rightarrow> dict_pop k d @ [(k, v)])"

definition sniff_source_layered :: "string \<Rightarrow> string \<Rightarrow> bool \<Rightarrow> sniffer \<Rightarrow> (log_format \<times> log_format) \<times> sniffer" where
  "sniff_source_layered src line cache_bypass sn =
     (if cache_bypass then (sniff_layered line, sn)
      else case map_of (sn_cache sn) src of
        Some cached \<Rightarrow> (cached, sn\<lparr>sn_cache := move_to_end src (sn_cache sn)\<rparr>)
      | None \<Rightarrow>
          (let result = sniff_layered line; c = move_to_end src (dict_set src result (sn_cache sn)) in
           (result, sn\<lparr>sn_cache := if sn_maxsize sn < int (length c) then tl c else c\<rparr>)))"

definition sniff_source :: "string \<Rightarrow> string \<Rightarrow> bool \<Rightarrow> sniffer \<Rightarrow> log_format \<times> sniffer" where
  "sniff_source src line cache_bypass sn =
     (let (r, sn') = sniff_source_layered src line cache_bypass sn in (fst r, sn'))"

definition sniffer_clear :: "sniffer \<Rightarrow> sniffer" where
  "sniffer_clear sn = sn\<lparr>sn_cache := []\<rparr>"

text \<open>A sequence of calls, and what holds of the cache after any of them.\<close>

fun run_sniffer :: "(string \<times> string \<times> bool) list \<Rightarrow> sniffer \<Rightarrow> (log_format \<times> log_format) list \<times> sniffer" where
  "run_sniffer [] sn = ([], sn)"
| "run_sniffer ((src, line, bypass) # calls) sn =
     (let (r, sn1) = sniff_source_layered src line bypass sn; (rs, sn2) = run_sniffer calls sn1 in (r # rs, sn2))"

definition sniffer_ok :: "(string \<times> string \<times> bool) list \<Rightarrow> sniffer \<Rightarrow> bool" where
  "sniffer_ok seen sn \<longleftrightarrow> distinct (map fst (sn_cache sn)) \<and> int (length (sn_cache sn)) \<le> max 0 (sn_maxsize sn)
     \<and> (\<forall>(src, r) \<in> set (sn_cache sn). \<exists>(s, line, b) \<in> set seen. s = src \<and> r = sniff_layered line)"

lemma dict_pop_absent: "k \<notin> fst ` set d \<Longrightarrow> dict_pop k d = d"
  by (induction k d rule: dict_pop.induct) auto

lemma length_dict_pop_present: "map_of d k = Some v \<Longrightarrow> Suc (length (dict_pop k d)) = length d"
  by (induction k d rule: dict_pop.induct) (auto split: if_splits)

lemma keys_dict_pop: "distinct (map fst d) \<Longrightarrow> fst ` set (dict_pop k d) = fst ` set d - {k}"
  by (induction k d rule: dict_pop.induct) (auto simp: dict_pop_absent)

lemma move_to_end_props:
  assumes "distinct (map fst d)"
  shows "distinct (map fst (move_to_end k d)) \<and> length (move_to_end k d) = length d \<and> set (move_to_end k d) \<subseteq> set d"
proof (cases "map_of d k")
  case (Some v)
  have "distinct (map fst (dict_pop k d))" using assms dict_ok_pop [of d k] by (simp add: dict_ok_def)
  then show ?thesis
    using Some length_dict_pop_present [OF Some] keys_dict_pop [OF assms, of k] keys_dict_pop_subset [of k d] map_of_SomeD [OF Some]
    by (auto simp: move_to_end_def)
qed (simp add: move_to_end_def assms)

lemma sniffer_step_ok:
  assumes "sniffer_ok seen sn" and "sniff_source_layered src line bypass sn = (r, sn')"
  shows "sniffer_ok (seen @ [(src, line, bypass)]) sn' \<and> sn_maxsize sn' = sn_maxsize sn
    \<and> (\<exists>(s, l, b) \<in> set (seen @ [(src, line, bypass)]). s = src \<and> r = sniff_layered l)"
proof -
  have d: "distinct (map fst (sn_cache sn))" and n: "int (length (sn_cache sn)) \<le> max 0 (sn_maxsize sn)"
    and e: "\<forall>(s, r) \<in> set (sn_cache sn). \<exists>(s', line, b) \<in> set seen. s' = s \<and> r = sniff_layered line"
    using assms(1) by (auto simp: sniffer_ok_def)
  show ?thesis
  proof (cases bypass)
    case False
    show ?thesis
    proof (cases "map_of (sn_cache sn) src")
      case None
      let ?c = "move_to_end src (dict_set src (sniff_layered line) (sn_cache sn))"
      have "src \<notin> fst ` set (sn_cache sn)" using None by (simp add: map_of_eq_None_iff)
      then have "dict_set src (sniff_layered line) (sn_cache sn) = sn_cache sn @ [(src, sniff_layered line)]"
        by (rule dict_set_fresh)
      moreover have "distinct (map fst (sn_cache sn @ [(src, sniff_layered line)]))"
        using d \<open>src \<notin> _\<close> by simp
      ultimately have c: "distinct (map fst ?c)" "length ?c = Suc (length (sn_cache sn))"
        "set ?c \<subseteq> set (sn_cache sn @ [(src, sniff_layered line)])"
        using move_to_end_props [of "sn_cache sn @ [(src, sniff_layered line)]" src] by simp_all
      have "distinct (map fst (tl ?c))" "set (tl ?c) \<subseteq> set ?c" using c(1) by (cases ?c; auto)+
      moreover have "r = sniff_layered line"
        "sn' = sn\<lparr>sn_cache := if sn_maxsize sn < int (length ?c) then tl ?c else ?c\<rparr>"
        using assms(2) by (auto simp: sniff_source_layered_def False None Let_def)
      ultimately show ?thesis using c n e by (auto simp: sniffer_ok_def)
    next
      case (Some cached)
      let ?c = "move_to_end src (sn_cache sn)"
      have "r = cached" "sn' = sn\<lparr>sn_cache := ?c\<rparr>" using assms(2) by (auto simp: sniff_source_layered_def False Some)
      then show ?thesis using move_to_end_props [OF d, of src] n e map_of_SomeD [OF Some] by (auto simp: sniffer_ok_def)
    qed
  qed (use assms in \<open>auto simp: sniff_source_layered_def sniffer_ok_def\<close>)
qed

definition answered :: "(string \<times> string \<times> bool) list \<Rightarrow> string \<Rightarrow> log_format \<times> log_format \<Rightarrow> bool" where
  "answered seen src r \<longleftrightarrow> (\<exists>(s, line, b) \<in> set seen. s = src \<and> r = sniff_layered line)"

lemma run_sniffer_ok:
  "sniffer_ok seen sn \<Longrightarrow> run_sniffer calls sn = (rs, sn') \<Longrightarrow>
     sniffer_ok (seen @ calls) sn' \<and> sn_maxsize sn' = sn_maxsize sn \<and> length rs = length calls
     \<and> (\<forall>i < length calls. answered (seen @ take (Suc i) calls) (fst (calls ! i)) (rs ! i))"
proof (induction calls arbitrary: seen sn rs)
  case (Cons c calls)
  obtain src line bypass where c: "c = (src, line, bypass)" using prod_cases3 by blast
  obtain r sn1 where st: "sniff_source_layered src line bypass sn = (r, sn1)" by fastforce
  obtain rs1 where rn: "run_sniffer calls sn1 = (rs1, sn')" "rs = r # rs1"
    using Cons.prems(2) by (auto simp: c st split: prod.splits)
  note step = sniffer_step_ok [OF Cons.prems(1) st]
  then have ok: "sniffer_ok (seen @ [c]) sn1" by (simp add: c)
  note ih = Cons.IH [OF ok rn(1)]
  have "answered (seen @ take (Suc i) (c # calls)) (fst ((c # calls) ! i)) (rs ! i)" if "i < length (c # calls)" for i
    using that ih step by (cases i) (auto simp: rn(2) answered_def c)
  then show ?case using ih step by (simp add: rn(2))
qed simp

text \<open>
  The sniffer's cache stays within its size with one entry per source, and every answer is the
  classification of a line of the same source that was presented at or before that call, so a cached
  answer is never another source's.
\<close>

theorem sniffer_cache_sound:
  "case run_sniffer calls (new_sniffer m) of (rs, sn) \<Rightarrow>
     length rs = length calls \<and> distinct (map fst (sn_cache sn)) \<and> int (length (sn_cache sn)) \<le> max 0 m
     \<and> list_all (\<lambda>i. \<exists>j \<le> i. fst (calls ! j) = fst (calls ! i) \<and> rs ! i = sniff_layered (fst (snd (calls ! j)))) [0 ..< length calls]"
proof -
  obtain rs sn where r: "run_sniffer calls (new_sniffer m) = (rs, sn)" by fastforce
  have "sniffer_ok [] (new_sniffer m)" by (simp add: sniffer_ok_def new_sniffer_def)
  note ok = run_sniffer_ok [OF this r]
  have "\<exists>j \<le> i. fst (calls ! j) = fst (calls ! i) \<and> rs ! i = sniff_layered (fst (snd (calls ! j)))" if "i < length calls" for i
  proof -
    have "answered (take (Suc i) calls) (fst (calls ! i)) (rs ! i)" using ok that by simp
    then obtain x where x: "x \<in> set (take (Suc i) calls)" "fst x = fst (calls ! i)" "rs ! i = sniff_layered (fst (snd x))"
      by (auto simp: answered_def)
    then obtain j where "j < Suc i" "j < length calls" "calls ! j = x" by (auto simp: in_set_conv_nth)
    then show ?thesis using x by (auto simp: less_Suc_eq_le)
  qed
  then show ?thesis using ok unfolding r prod.case by (auto simp: sniffer_ok_def new_sniffer_def list_all_iff)
qed

section \<open>The engine registry\<close>

type_synonym registry = "(string \<times> engine) list"

definition register :: "string \<Rightarrow> engine \<Rightarrow> registry \<Rightarrow> registry res" where
  "register name e reg =
     (if name \<in> fst ` set reg then Inl (ValueError (''parse engine '' @ repr_str name @ '' is already registered''))
      else Inr (dict_set name e reg))"

definition get_engine :: "registry \<Rightarrow> string \<Rightarrow> engine res" where
  "get_engine reg name =
     (case map_of reg name of
        Some e \<Rightarrow> Inr e | None \<Rightarrow> Inl (KeyError (''no parse engine registered as '' @ repr_str name)))"

definition list_names :: "registry \<Rightarrow> string list" where
  "list_names reg = sort (map fst reg)"

section \<open>The coordinator\<close>

definition format_name :: "log_format \<Rightarrow> string" where
  "format_name f = (case f of FSyslog \<Rightarrow> ''syslog'' | FCef \<Rightarrow> ''cef'' | FLeef \<Rightarrow> ''leef'' | FJson \<Rightarrow> ''json''
     | FKv \<Rightarrow> ''kv'' | FCsv \<Rightarrow> ''csv'' | FTsv \<Rightarrow> ''tsv'' | FUnknown \<Rightarrow> ''unknown'')"

text \<open>\<^verbatim>\<open>exc.detail.get("reason")\<close> of an error of the framework, the name of the type of any other.\<close>

definition failure_reason :: "exn \<Rightarrow> pyval" where
  "failure_reason x =
     (case x of ParseError _ d \<Rightarrow> py_get d ''reason'' | MappingError _ d \<Rightarrow> py_get d ''reason''
      | IngestError _ \<Rightarrow> PNone | PipelineStoppedError _ \<Rightarrow> PNone | _ \<Rightarrow> PStr (exn_name x))"

definition engine_failure :: "string \<Rightarrow> string \<Rightarrow> exn \<Rightarrow> exn" where
  "engine_failure msg fmt x =
     ParseError msg [(''format'', PStr fmt), (''reason'', or_else (failure_reason x) (PStr (exn_text x))),
       (''error'', PStr (exn_text x))]"

definition run_engine :: "(string \<times> pydict) list \<Rightarrow> engine \<Rightarrow> string \<Rightarrow> string \<Rightarrow> pydict res" where
  "run_engine engine_options e fmt payload =
     (case e payload (case map_of engine_options fmt of Some o' \<Rightarrow> o' | None \<Rightarrow> []) of
        Inr d \<Rightarrow> Inr d | Inl x \<Rightarrow> Inl (engine_failure ''parse engine failed'' fmt x))"

definition no_engine_formats :: "log_format list" where
  "no_engine_formats = [FUnknown, FSyslog, FCsv, FTsv]"

definition engine_for :: "registry \<Rightarrow> log_format \<Rightarrow> engine option" where
  "engine_for reg fmt =
     (if fmt \<in> set no_engine_formats then None
      else case get_engine reg (format_name fmt) of Inr e \<Rightarrow> Some e | Inl _ \<Rightarrow> None)"

definition with_envelope :: "pydict \<Rightarrow> pydict \<Rightarrow> pydict" where
  "with_envelope d env = (if env = [] then d else dict_update d (flatten ''.'' ''envelope'' (PDict env)))"

text \<open>The envelope and the text for the engine, given the outer and inner formats.\<close>

definition strip_envelope :: "bytes \<Rightarrow> log_format \<times> log_format \<Rightarrow> pydict \<times> string" where
  "strip_envelope bs = (\<lambda>(outer, inner).
     let (t, stripped) = decode_raw bs in
     if outer = FSyslog
     then let (env, msg) = parse_syslog_envelope (if stripped then strip_bom_bytes bs else bs)
          in (env, if inner = FCef \<or> inner = FLeef then t else decode_utf8 msg)
     else ([], t))"

definition parse_as ::
  "registry \<Rightarrow> (string \<times> pydict) list \<Rightarrow> raw_event \<Rightarrow> log_format \<times> log_format \<Rightarrow> parsed_event res" where
  "parse_as reg engine_options r formats =
     (let (env, payload) = strip_envelope (raw r) formats; fmt = snd formats in
      bind_res (case engine_for reg fmt of
                  None \<Rightarrow> Inr ([], True)
                | Some e \<Rightarrow> bind_res (run_engine engine_options e (format_name fmt) payload) (\<lambda>d. Inr (d, False)))
        (\<lambda>(d, mining). Inr (raw_event.extend r
           \<lparr>format = fmt, source_type = None, p_fields = with_envelope d env, envelope = env, template_id = None,
            needs_template_mining = mining, bom_stripped = snd (decode_raw (raw r))\<rparr>)))"

definition coordinator_parse ::
  "registry \<Rightarrow> (string \<times> pydict) list \<Rightarrow> raw_event \<Rightarrow> sniffer option \<Rightarrow> parsed_event res \<times> sniffer option" where
  "coordinator_parse reg engine_options r sn =
     (let t = fst (decode_raw (raw r)) in
      case sn of
        None \<Rightarrow> (parse_as reg engine_options r (sniff_layered t), None)
      | Some s \<Rightarrow> (let (formats, s') = sniff_source_layered (source_id r) t False s
                    in (parse_as reg engine_options r formats, Some s')))"

text \<open>\<^verbatim>\<open>parse_for_definition\<close>: the definition's own engine, options and envelope handling.\<close>

record parse_spec =
  ps_envelope :: string
  ps_engine :: string
  ps_options :: pydict

definition parse_for_definition :: "registry \<Rightarrow> bytes \<Rightarrow> parse_spec \<Rightarrow> pydict res" where
  "parse_for_definition reg bs spec =
     (let (t, stripped) = decode_raw bs;
          (env, payload) =
            (if ps_envelope spec = ''syslog''
             then let (env, msg) = parse_syslog_envelope (if stripped then strip_bom_bytes bs else bs)
                  in (env, if ps_engine spec \<in> {''cef'', ''leef''} then t else decode_utf8 msg)
             else ([], t)) in
      case get_engine reg (ps_engine spec) of
        Inl _ \<Rightarrow> Inl (ParseError (''no parse engine registered as '' @ repr_str (ps_engine spec)) [(''format'', PStr (ps_engine spec))])
      | Inr e \<Rightarrow>
          (case e payload (ps_options spec) of
             Inl x \<Rightarrow> Inl (engine_failure (ps_engine spec @ '' engine failed'') (ps_engine spec) x)
           | Inr d \<Rightarrow> Inr (with_envelope d env)))"

section \<open>What a parse gives\<close>

definition all_flat :: "registry \<Rightarrow> bool" where
  "all_flat reg \<longleftrightarrow> (\<forall>(n, e) \<in> set reg. flat_engine e)"

lemma engine_for_flat: "all_flat reg \<Longrightarrow> engine_for reg fmt = Some e \<Longrightarrow> flat_engine e"
  by (auto simp: all_flat_def engine_for_def get_engine_def split: if_splits option.splits sum.splits dest: map_of_SomeD)

lemma run_engine_flat: "flat_engine e \<Longrightarrow> run_engine opts e fmt payload = Inr d \<Longrightarrow> dict_ok d \<and> flat d"
  using flat_engine.values_flat [of e] parse_engine.keys_distinct [of e] flat_engine.axioms(1) [of e]
  by (auto simp: run_engine_def split: sum.splits)

lemma with_envelope_ok: "dict_ok d \<and> flat d \<Longrightarrow> dict_ok (with_envelope d env) \<and> flat (with_envelope d env)"
  by (simp add: with_envelope_def)

lemma parse_as_result:
  assumes "all_flat reg" and "parse_as reg opts r formats = Inr p"
  shows "dict_ok (p_fields p) \<and> flat (p_fields p) \<and> raw_event.truncate p = r
    \<and> (needs_template_mining p \<longleftrightarrow> engine_for reg (snd formats) = None) \<and> format p = snd formats"
proof -
  obtain env payload where se: "strip_envelope (raw r) formats = (env, payload)" by fastforce
  show ?thesis
  proof (cases "engine_for reg (snd formats)")
    case None
    then show ?thesis
      using assms(2) with_envelope_ok [of "[]" env]
      by (auto simp: parse_as_def se Let_def raw_event.extend_def raw_event.truncate_def)
  next
    case (Some e)
    then obtain d where d: "run_engine opts e (format_name (snd formats)) payload = Inr d"
      and p: "p = raw_event.extend r \<lparr>format = snd formats, source_type = None, p_fields = with_envelope d env, envelope = env,
        template_id = None, needs_template_mining = False, bom_stripped = snd (decode_raw (raw r))\<rparr>"
      using assms(2) by (auto simp: parse_as_def se Let_def bind_res_Inr_iff)
    then show ?thesis
      using with_envelope_ok [OF run_engine_flat [OF engine_for_flat [OF assms(1) Some] d], of env] Some
      by (simp add: raw_event.extend_def raw_event.truncate_def)
  qed
qed

lemma parse_as_error: "parse_as reg opts r formats = Inl x \<Longrightarrow> is_parse_error x"
  by (auto simp: parse_as_def Let_def bind_res_def run_engine_def engine_failure_def is_parse_error_def
      split: prod.splits option.splits sum.splits)

lemma coordinator_is_parse_as:
  "\<exists>formats. fst (coordinator_parse reg opts r sn) = parse_as reg opts r formats"
  by (cases sn; simp add: coordinator_parse_def Let_def case_prod_unfold del: split_paired_Ex; rule exI; rule refl)

lemma parse_as_truncate: "parse_as reg opts r formats = Inr p \<Longrightarrow> raw_event.truncate p = r"
  by (auto simp: parse_as_def Let_def bind_res_Inr_iff raw_event.extend_def raw_event.truncate_def split: prod.splits)

text \<open>
  A parsed event is its raw event, unchanged, with a flat dictionary of fields; fields are empty exactly
  when the format has no engine of its own, and only then the event is marked for template mining, so the
  formats that need a source definition are never parsed by guess. Whatever an engine raises, the
  coordinator raises nothing but a parse error.
\<close>

theorem coordinator_contract:
  assumes "all_flat reg"
  shows "case fst (coordinator_parse reg opts r sn) of
      Inr p \<Rightarrow> raw_event.truncate p = r \<and> dict_ok (p_fields p) \<and> flat (p_fields p)
        \<and> needs_template_mining p = (engine_for reg (format p) = None)
    | Inl x \<Rightarrow> is_parse_error x"
proof -
  obtain formats where f: "fst (coordinator_parse reg opts r sn) = parse_as reg opts r formats"
    using coordinator_is_parse_as by blast
  show ?thesis
  proof (cases "parse_as reg opts r formats")
    case (Inr p)
    then show ?thesis using parse_as_result [OF assms Inr] by (simp add: f)
  qed (simp add: f parse_as_error)
qed

definition demo_registry :: registry where
  "demo_registry = [(''kv'', kv_parse), (''cef'', cef_parse), (''leef'', leef_parse), (''csv'', csv_parse)]"

lemma demo_registry_flat: "all_flat demo_registry"
  by (simp add: all_flat_def demo_registry_def kv.flat_engine_axioms cef.flat_engine_axioms leef.flat_engine_axioms
      csv.flat_engine_axioms)

theorem coordinator_contract_witness:
  "raw_event.truncate (projr (fst (coordinator_parse demo_registry [] demo_raw None))) = demo_raw"
proof -
  have "sniff_layered (fst (decode_raw [1, 2])) = (FUnknown, FUnknown)" by code_simp
  then have "\<exists>p. fst (coordinator_parse demo_registry [] demo_raw None) = Inr p"
    by (simp add: coordinator_parse_def parse_as_def demo_raw_def make_raw_event_def engine_for_def no_engine_formats_def
        case_prod_unfold Let_def)
  then show ?thesis
    using coordinator_contract [OF demo_registry_flat, where opts = "[]" and r = demo_raw and sn = None] by auto
qed

lemma raw_event_truncate_link:
  "raw_event.truncate p = r \<Longrightarrow> event_uid p = event_uid r \<and> raw_hash p = raw_hash r"
  by (auto simp: raw_event.truncate_def)

interpretation pst: linked_stage "parse_stage (\<lambda>r. fst (coordinator_parse reg opts r None)) window get put"
  for reg opts window get put
proof unfold_locales
  fix e e' :: event and w w'
  assume "sg_process (parse_stage (\<lambda>r. fst (coordinator_parse reg opts r None)) window get put) e w = (Inr (Some e'), w')"
  then obtain r where r: "raw_of e = Some r" and e': "(\<exists>p. fst (coordinator_parse reg opts r None) = Inr p \<and> e' = ParsedE p) \<or> e' = ParsedE (unclassified r)"
    by (auto simp: parse_stage_def split: option.splits sum.splits if_splits)
  have "event_uid p = event_uid r \<and> raw_hash p = raw_hash r" if "fst (coordinator_parse reg opts r None) = Inr p" for p
    using that coordinator_is_parse_as [of reg opts r None] parse_as_truncate raw_event_truncate_link by metis
  then show "link e' = link e" using e' raw_of_link [OF r] by auto
qed

end
