(* ===== verification/Sources.thy ===== *)
theory Sources
  imports Coordinator
begin

text \<open>
  Source definitions (\<^verbatim>\<open>ulpf/parse/dsl/schema.py\<close>) and their registry with hot reload
  (\<^verbatim>\<open>loader.py\<close>): detection rules, what the schema's own validators demand, matching by priority, and the
  swap of definitions on file events. Reading and validating a file with the YAML and pydantic libraries is
  an argument \<open>read\<close>, as is searching a regular expression.
\<close>

section \<open>The schema\<close>

record field_count =
  fc_delimiter :: string
  fc_equals :: "int option"
  fc_min :: "int option"
  fc_max :: "int option"

definition has_a_bound :: "field_count \<Rightarrow> bool" where
  "has_a_bound f \<longleftrightarrow> \<not> (fc_equals f = None \<and> fc_min f = None \<and> fc_max f = None)"

datatype detect_rule = Rule
  (rule_contains: "string option") (rule_regex: "string option") (rule_starts_with: "string option")
  (rule_all: "detect_rule list option") (rule_any: "detect_rule list option")
  (rule_field_equals: "(string \<times> pyval) option") (rule_field_count: "field_count option")

definition present_alternatives :: "detect_rule \<Rightarrow> nat" where
  "present_alternatives r = length (filter id
     [rule_contains r \<noteq> None, rule_regex r \<noteq> None, rule_starts_with r \<noteq> None, rule_all r \<noteq> None, rule_any r \<noteq> None,
      rule_field_equals r \<noteq> None, rule_field_count r \<noteq> None])"

text \<open>\<^verbatim>\<open>_exactly_one_alternative\<close>, with the bounds of a field count.\<close>

definition exactly_one_alternative :: "detect_rule \<Rightarrow> bool" where
  "exactly_one_alternative r \<longleftrightarrow> present_alternatives r = 1 \<and> rule_all r \<noteq> Some [] \<and> rule_any r \<noteq> Some []
     \<and> (case rule_field_count r of None \<Rightarrow> True | Some f \<Rightarrow> has_a_bound f)"

datatype field_type = TStr | TInt | TFloat | TBool | TIp | TTimestamp

datatype from_spec = FromOne string | FromList "string list"

record field_mapping =
  fm_from :: from_spec
  fm_type :: field_type
  fm_map :: "pydict option"
  fm_default :: pyval
  fm_format :: "string option"
  fm_tz :: "string option"
  fm_join :: "string option"
  fm_required :: bool

definition mapping_shape :: "field_mapping \<Rightarrow> bool" where
  "mapping_shape m \<longleftrightarrow>
     (case fm_from m of
        FromList xs \<Rightarrow> xs \<noteq> [] \<and> list_all (\<lambda>x. py_strip x \<noteq> []) xs
      | FromOne s \<Rightarrow> py_strip s \<noteq> [] \<and> fm_join m = None)
     \<and> (fm_type m = TTimestamp \<or> fm_format m = None \<and> fm_tz m = None)"

datatype activity_spec = StaticActivity int | ActivityFrom string "(string \<times> int) list" "int option"

datatype unmapped_mode = KeepAll | DropAll | KeepList "string list"

record ocsf_spec =
  os_class_uid :: int
  os_category_uid :: int
  os_activity :: activity_spec
  os_fields :: "(string \<times> field_mapping) list"
  os_constants :: pydict
  os_unmapped :: unmapped_mode

record source_definition =
  sd_name :: string
  sd_version :: string
  sd_detect :: detect_rule
  sd_parse :: parse_spec
  sd_normalize :: ocsf_spec
  sd_required :: "string list"
  sd_dead_letter :: bool
  sd_enabled :: bool
  sd_priority :: int

definition slug_char :: "char \<Rightarrow> bool" where
  "slug_char c \<longleftrightarrow> is_dec c \<or> 97 \<le> code c \<and> code c \<le> 122"

text \<open>\<^verbatim>\<open>^[a-z0-9][a-z0-9_-]*$\<close>; the dollar also matches before a final line feed.\<close>

definition name_is_slug :: "string \<Rightarrow> bool" where
  "name_is_slug s \<longleftrightarrow>
     (let t = (if s \<noteq> [] \<and> last s = CHR 0x0A then butlast s else s) in
      t \<noteq> [] \<and> slug_char (hd t) \<and> list_all (\<lambda>c. slug_char c \<or> c = CHR ''_'' \<or> c = CHR ''-'') (tl t))"

definition engine_has_pattern :: "parse_spec \<Rightarrow> bool" where
  "engine_has_pattern p \<longleftrightarrow>
     (if ps_engine p \<in> {''grok'', ''dissect''}
      then case py_get (ps_options p) ''pattern'' of PStr t \<Rightarrow> py_strip t \<noteq> [] | _ \<Rightarrow> False
      else True)"

section \<open>Detection\<close>

text \<open>\<^verbatim>\<open>==\<close> on values: numbers of different types compare by value, a float that is no integer by its literal.\<close>

definition float_int :: "string \<Rightarrow> int option" where
  "float_int t =
     (if t \<in> {''inf'', ''-inf'', ''nan''} then None
      else let (mant, _, ex) = py_partition ''e'' (py_lower t); (ip, _, fp) = py_partition ''.'' mant;
               k = (case signed_digits ex of Some e \<Rightarrow> e | None \<Rightarrow> 0) - int (length fp);
               m = int (nat_of_dec (filter is_dec (ip @ fp)))
           in if 0 \<le> k \<or> m mod 10 ^ nat (- k) = 0 then Some (float_trunc t) else None)"

definition num_value :: "pyval \<Rightarrow> int option" where
  "num_value v = (case v of PInt i \<Rightarrow> Some i | PBool b \<Rightarrow> Some (if b then 1 else 0) | PFloat t \<Rightarrow> float_int t | _ \<Rightarrow> None)"

fun py_eq :: "pyval \<Rightarrow> pyval \<Rightarrow> bool"
  and py_eq_items :: "pyval list \<Rightarrow> pyval list \<Rightarrow> bool"
  and py_eq_members :: "pydict \<Rightarrow> pydict \<Rightarrow> bool" where
  "py_eq PNone w \<longleftrightarrow> w = PNone"
| "py_eq (PStr s) w \<longleftrightarrow> w = PStr s"
| "py_eq (PBool b) w \<longleftrightarrow> num_value w = Some (if b then 1 else 0)"
| "py_eq (PInt i) w \<longleftrightarrow> num_value w = Some i"
| "py_eq (PFloat t) w \<longleftrightarrow>
     (case float_int t of Some i \<Rightarrow> num_value w = Some i | None \<Rightarrow> w = PFloat t \<and> t \<noteq> ''nan'')"
| "py_eq (PList xs) w \<longleftrightarrow> (case w of PList ys \<Rightarrow> py_eq_items xs ys | _ \<Rightarrow> False)"
| "py_eq (PDict d) w \<longleftrightarrow> (case w of PDict e \<Rightarrow> length d = length e \<and> py_eq_members d e | _ \<Rightarrow> False)"
| "py_eq_items [] ys \<longleftrightarrow> ys = []"
| "py_eq_items (x # xs) ys \<longleftrightarrow> (case ys of y # ys' \<Rightarrow> py_eq x y \<and> py_eq_items xs ys' | [] \<Rightarrow> False)"
| "py_eq_members [] e \<longleftrightarrow> True"
| "py_eq_members ((k, v) # d) e \<longleftrightarrow> (case map_of e k of Some w \<Rightarrow> py_eq v w | None \<Rightarrow> False) \<and> py_eq_members d e"

definition field_equals :: "pydict \<Rightarrow> string \<Rightarrow> pyval \<Rightarrow> bool" where
  "field_equals d name v =
     (case map_of d name of None \<Rightarrow> False | Some got \<Rightarrow> py_eq got v \<or> py_str got = py_str v)"

definition field_count_ok :: "field_count \<Rightarrow> string \<Rightarrow> bool" where
  "field_count_ok f t =
     (let n = int (count_sub (fc_delimiter f) t) + 1 in
      if (case fc_equals f of Some e \<Rightarrow> n \<noteq> e | None \<Rightarrow> False) then False
      else if (case fc_min f of Some m \<Rightarrow> n < m | None \<Rightarrow> False) then False
      else \<not> (case fc_max f of Some m \<Rightarrow> m < n | None \<Rightarrow> False))"

text \<open>\<open>search\<close> is \<^verbatim>\<open>regex.search\<close>, as a test.\<close>

function evaluate_detect :: "(string \<Rightarrow> string \<Rightarrow> bool) \<Rightarrow> detect_rule \<Rightarrow> string \<Rightarrow> pydict \<Rightarrow> bool" where
  "evaluate_detect search r t d =
     (case rule_contains r of Some p \<Rightarrow> contains_sub p t | None \<Rightarrow>
     (case rule_starts_with r of Some p \<Rightarrow> starts_with p t | None \<Rightarrow>
     (case rule_regex r of Some p \<Rightarrow> search p t | None \<Rightarrow>
     (case rule_all r of Some rs \<Rightarrow> (\<forall>c \<in> set rs. evaluate_detect search c t d) | None \<Rightarrow>
     (case rule_any r of Some rs \<Rightarrow> (\<exists>c \<in> set rs. evaluate_detect search c t d) | None \<Rightarrow>
     (case rule_field_equals r of Some (name, v) \<Rightarrow> field_equals d name v | None \<Rightarrow>
     (case rule_field_count r of Some f \<Rightarrow> field_count_ok f t | None \<Rightarrow> False)))))))"
  by pat_completeness auto
termination
proof (relation "measure (\<lambda>(search, r, t, d). size r)", goal_cases)
  case (2 search r t d rs c)
  then show ?case by (cases r) (auto dest: size_list_estimation' [of c _ _ size])
next
  case (3 search r t d rs c)
  then show ?case by (cases r) (auto dest: size_list_estimation' [of c _ _ size])
qed simp

declare evaluate_detect.simps [simp del]

section \<open>The registry\<close>

record source_registry =
  sr_definitions :: "(string \<times> source_definition) list"
  sr_paths :: "(string \<times> string) list"
  sr_errors :: "(string \<times> string) list"
  sr_reload_count :: nat

definition empty_registry :: source_registry where
  "empty_registry = \<lparr>sr_definitions = [], sr_paths = [], sr_errors = [], sr_reload_count = 0\<rparr>"

definition load_errors :: "source_registry \<Rightarrow> (string \<times> string) list" where
  "load_errors reg = sr_errors reg"

definition definition_rank :: "source_definition \<Rightarrow> int \<times> string" where
  "definition_rank d = (sd_priority d, sd_name d)"

definition definitions :: "source_registry \<Rightarrow> source_definition list" where
  "definitions reg = sort_key definition_rank (map snd (sr_definitions reg))"

definition get_definition :: "source_registry \<Rightarrow> string \<Rightarrow> source_definition option" where
  "get_definition reg name = map_of (sr_definitions reg) name"

definition path_for :: "source_registry \<Rightarrow> string \<Rightarrow> string option" where
  "path_for reg name = map_option fst (List.find (\<lambda>(p, n). n = name) (sr_paths reg))"

definition bump_reload :: "source_registry \<Rightarrow> source_registry" where
  "bump_reload reg = reg\<lparr>sr_reload_count := Suc (sr_reload_count reg)\<rparr>"

text \<open>\<open>read\<close> is \<^verbatim>\<open>_read_and_validate\<close>: the definition of a file, or the text of the error.\<close>

type_synonym reader = "string \<Rightarrow> string + source_definition"

definition error_or_unknown :: "string \<Rightarrow> string" where
  "error_or_unknown e = (if e = [] then ''unknown error'' else e)"

definition load_file ::
  "reader \<Rightarrow> string \<Rightarrow> (string \<times> source_definition) list \<times> (string \<times> string) list \<times> (string \<times> string) list
     \<Rightarrow> (string \<times> source_definition) list \<times> (string \<times> string) list \<times> (string \<times> string) list" where
  "load_file read path = (\<lambda>(loaded, paths, errors).
     case read path of
       Inr d \<Rightarrow> (dict_set (sd_name d) d loaded, dict_set path (sd_name d) paths, errors)
     | Inl e \<Rightarrow> (loaded, paths, dict_set path (error_or_unknown e) errors))"

definition load_all :: "reader \<Rightarrow> string list \<Rightarrow> source_registry \<Rightarrow> source_registry" where
  "load_all read files reg =
     (let (loaded, paths, errors) = foldl (\<lambda>acc p. load_file read p acc) ([], [], []) (sort files) in
      bump_reload (reg\<lparr>sr_definitions := loaded, sr_paths := paths, sr_errors := errors\<rparr>))"

definition reload_path :: "reader \<Rightarrow> string \<Rightarrow> source_registry \<Rightarrow> string option \<times> source_registry" where
  "reload_path read path reg =
     (case read path of
        Inl e \<Rightarrow> (Some e, reg\<lparr>sr_errors := dict_set path (error_or_unknown e) (sr_errors reg)\<rparr>)
      | Inr d \<Rightarrow>
          (let updated =
             (case map_of (sr_paths reg) path of
                Some previous \<Rightarrow> if previous \<noteq> [] \<and> previous \<noteq> sd_name d then dict_pop previous (sr_definitions reg)
                                else sr_definitions reg
              | None \<Rightarrow> sr_definitions reg)
           in (None, bump_reload (reg\<lparr>sr_definitions := dict_set (sd_name d) d updated,
                 sr_paths := dict_set path (sd_name d) (sr_paths reg), sr_errors := dict_pop path (sr_errors reg)\<rparr>))))"

definition forget_path :: "string \<Rightarrow> source_registry \<Rightarrow> source_registry" where
  "forget_path path reg =
     (let reg' = reg\<lparr>sr_errors := dict_pop path (sr_errors reg), sr_paths := dict_pop path (sr_paths reg)\<rparr> in
      case map_of (sr_paths reg) path of
        Some name \<Rightarrow>
          if name \<noteq> [] \<and> name \<in> fst ` set (sr_definitions reg)
          then bump_reload (reg'\<lparr>sr_definitions := dict_pop name (sr_definitions reg)\<rparr>) else reg'
      | None \<Rightarrow> reg')"

subsection \<open>File events\<close>

datatype fs_event = Created string | Modified string | Moved string string | Deleted string

text \<open>\<^verbatim>\<open>Path(p).suffix == ".yaml"\<close>: the last component ends in the suffix and is more than it.\<close>

definition base_name :: "string \<Rightarrow> string" where
  "base_name p = rev (takeWhile (\<lambda>c. c \<noteq> CHR ''/'') (rev p))"

definition yaml_suffix :: "string \<Rightarrow> bool" where
  "yaml_suffix p \<longleftrightarrow> ends_with ''.yaml'' (base_name p) \<and> base_name p \<noteq> ''.yaml''"

definition path_changed :: "reader \<Rightarrow> string \<Rightarrow> source_registry \<Rightarrow> source_registry" where
  "path_changed read p reg = (if yaml_suffix p then snd (reload_path read p reg) else reg)"

fun handle_event :: "reader \<Rightarrow> bool \<Rightarrow> fs_event \<Rightarrow> source_registry \<Rightarrow> source_registry" where
  "handle_event read is_dir (Created p) reg = (if is_dir then reg else path_changed read p reg)"
| "handle_event read is_dir (Modified p) reg = (if is_dir then reg else path_changed read p reg)"
| "handle_event read is_dir (Moved src dest) reg = (if is_dir then reg else path_changed read dest reg)"
| "handle_event read is_dir (Deleted p) reg = (if \<not> is_dir \<and> ends_with ''.yaml'' p then forget_path p reg else reg)"

subsection \<open>Matching\<close>

definition match_text :: "(string \<Rightarrow> string \<Rightarrow> bool) \<Rightarrow> source_registry \<Rightarrow> string \<Rightarrow> pydict \<Rightarrow> source_definition option" where
  "match_text search reg t d =
     List.find (\<lambda>df. sd_enabled df \<and> evaluate_detect search (sd_detect df) t d) (definitions reg)"

definition match_event :: "(string \<Rightarrow> string \<Rightarrow> bool) \<Rightarrow> source_registry \<Rightarrow> parsed_event \<Rightarrow> source_definition option" where
  "match_event search reg p = match_text search reg (decode_utf8 (raw p)) (p_fields p)"

lemma find_sorted_least:
  assumes "List.find P (sort_key f xs) = Some x"
  shows "x \<in> set xs \<and> P x \<and> (\<forall>y \<in> set xs. P y \<longrightarrow> f x \<le> f y)"
proof -
  obtain i where i: "i < length (sort_key f xs)" "P (sort_key f xs ! i)" "x = sort_key f xs ! i"
    "\<forall>j < i. \<not> P (sort_key f xs ! j)"
    using assms by (auto simp: find_Some_iff)
  have "f x \<le> f y" if "y \<in> set xs" "P y" for y
  proof -
    obtain j where j: "j < length (sort_key f xs)" "y = sort_key f xs ! j"
      using \<open>y \<in> set xs\<close> by (metis in_set_conv_nth set_sort)
    then have "i \<le> j" using i(4) \<open>P y\<close> not_le by blast
    moreover have "sorted (map f (sort_key f xs))" by simp
    ultimately show ?thesis using j i by (auto simp: sorted_iff_nth_mono)
  qed
  then show ?thesis using i by (metis nth_mem set_sort)
qed

definition accepting :: "(string \<Rightarrow> string \<Rightarrow> bool) \<Rightarrow> source_registry \<Rightarrow> string \<Rightarrow> pydict \<Rightarrow> source_definition list" where
  "accepting search reg t d =
     filter (\<lambda>df. sd_enabled df \<and> evaluate_detect search (sd_detect df) t d) (map snd (sr_definitions reg))"

text \<open>
  Matching picks the loaded definition of least priority number, then least name, among the enabled ones
  whose detection rule accepts the line, and finds none only if no enabled definition accepts it.
\<close>

theorem match_is_least:
  "case match_text search reg t d of
     Some df \<Rightarrow> df \<in> set (accepting search reg t d)
       \<and> list_all (\<lambda>df'. definition_rank df \<le> definition_rank df') (accepting search reg t d)
   | None \<Rightarrow> accepting search reg t d = []"
proof (cases "match_text search reg t d")
  case None
  have "\<forall>df \<in> set (map snd (sr_definitions reg)). \<not> (sd_enabled df \<and> evaluate_detect search (sd_detect df) t d)"
    using None unfolding match_text_def find_None_iff definitions_def set_sort by blast
  then show ?thesis unfolding None option.case accepting_def filter_empty_conv .
next
  case (Some df)
  from find_sorted_least [OF Some [unfolded match_text_def definitions_def]] show ?thesis
    unfolding Some option.case by (auto simp: accepting_def list_all_iff)
qed

section \<open>What holds of every reachable registry\<close>

text \<open>Definitions are filed under their own names; files change between the steps, so each has its own reader.\<close>

definition names_ok :: "(string \<times> source_definition) list \<Rightarrow> bool" where
  "names_ok ds \<longleftrightarrow> (\<forall>(n, d) \<in> set ds. sd_name d = n)"

definition registry_ok :: "source_registry \<Rightarrow> bool" where
  "registry_ok reg \<longleftrightarrow> dict_ok (sr_definitions reg) \<and> dict_ok (sr_paths reg) \<and> dict_ok (sr_errors reg)
     \<and> names_ok (sr_definitions reg)"

inductive registry_reach :: "source_registry \<Rightarrow> bool" where
  start: "registry_reach empty_registry"
| load: "registry_reach reg \<Longrightarrow> registry_reach (load_all read files reg)"
| reload: "registry_reach reg \<Longrightarrow> registry_reach (snd (reload_path read p reg))"
| event: "registry_reach reg \<Longrightarrow> registry_reach (handle_event read is_dir ev reg)"

lemma names_ok_simps [simp]:
  "names_ok []" "names_ok ((n, d) # ds) \<longleftrightarrow> sd_name d = n \<and> names_ok ds"
  by (simp_all add: names_ok_def)

lemma names_ok_set [simp]: "names_ok ds \<Longrightarrow> names_ok (dict_set (sd_name e) e ds)"
  by (induction ds) auto

lemma names_ok_pop [simp]: "names_ok ds \<Longrightarrow> names_ok (dict_pop k ds)"
  unfolding names_ok_def using keys_dict_pop_subset [of k ds] by blast

lemma load_files_ok:
  "dict_ok a \<and> dict_ok b \<and> dict_ok c \<and> names_ok a \<Longrightarrow>
     foldl (\<lambda>acc p. load_file read p acc) (a, b, c) ps = (a', b', c') \<Longrightarrow> dict_ok a' \<and> dict_ok b' \<and> dict_ok c' \<and> names_ok a'"
proof (induction ps arbitrary: a b c)
  case (Cons p ps)
  obtain a1 b1 c1 where l: "load_file read p (a, b, c) = (a1, b1, c1)" using prod_cases3 by blast
  have "dict_ok a1 \<and> dict_ok b1 \<and> dict_ok c1 \<and> names_ok a1"
    using Cons.prems(1) l by (cases "read p") (auto simp: load_file_def)
  from Cons.IH [OF this] Cons.prems(2) show ?case by (simp add: l)
qed simp

lemma registry_ok_load: "registry_ok (load_all read files reg)"
proof -
  obtain a b c where f: "foldl (\<lambda>acc p. load_file read p acc) ([], [], []) (sort files) = (a, b, c)"
    using prod_cases3 by blast
  show ?thesis using load_files_ok [OF _ f] by (simp add: load_all_def f registry_ok_def bump_reload_def)
qed

lemma registry_ok_reload: "registry_ok reg \<Longrightarrow> registry_ok (snd (reload_path read p reg))"
  by (auto simp: reload_path_def registry_ok_def bump_reload_def Let_def split: sum.split option.split)

lemma registry_ok_forget: "registry_ok reg \<Longrightarrow> registry_ok (forget_path p reg)"
  by (auto simp: forget_path_def registry_ok_def bump_reload_def Let_def split: option.split)

text \<open>
  In every registry that loading, reloading and file events can produce, each name is filed once, each
  definition is filed under its own name, and each file has at most one name and one error.
\<close>

theorem registry_reachable_ok:
  assumes "registry_reach reg"
  shows "registry_ok reg"
  using assms
proof induction
  case start
  show ?case by (simp add: registry_ok_def empty_registry_def)
next
  case (event reg read is_dir ev)
  then show ?case
    using registry_ok_reload [of reg read] registry_ok_forget [of reg] by (cases ev) (simp_all add: path_changed_def)
qed (simp_all add: registry_ok_load registry_ok_reload)

definition demo_rule :: detect_rule where
  "demo_rule = Rule (Some ''fw'') None None None None None None"

definition demo_definition :: "string \<Rightarrow> source_definition" where
  "demo_definition name = \<lparr>sd_name = name, sd_version = ''1'', sd_detect = demo_rule,
     sd_parse = \<lparr>ps_envelope = ''none'', ps_engine = ''kv'', ps_options = []\<rparr>,
     sd_normalize = \<lparr>os_class_uid = 4001, os_category_uid = 4, os_activity = StaticActivity 6, os_fields = [],
       os_constants = [], os_unmapped = KeepAll\<rparr>,
     sd_required = [], sd_dead_letter = True, sd_enabled = True, sd_priority = 100\<rparr>"

definition demo_reader :: reader where
  "demo_reader p = (if p = ''bad.yaml'' then Inl ''oops'' else Inr (demo_definition ''fw''))"

theorem registry_reachable_ok_witness:
  "registry_ok (load_all demo_reader [''b.yaml'', ''a.yaml''] empty_registry)"
  by (rule registry_reachable_ok) (rule registry_reach.load, rule registry_reach.start)

text \<open>
  Validate, then swap: a file that does not validate changes no definition, no path and no count, so what
  matches is what matched before; only its error is recorded and returned.
\<close>

theorem broken_file_changes_nothing:
  assumes "read p = Inl err"
  shows "sr_definitions (snd (reload_path read p reg)) = sr_definitions reg
    \<and> match_text search (snd (reload_path read p reg)) t d = match_text search reg t d
    \<and> sr_reload_count (snd (reload_path read p reg)) = sr_reload_count reg
    \<and> fst (reload_path read p reg) = Some err
    \<and> map_of (load_errors (snd (reload_path read p reg))) p = Some (error_or_unknown err)"
  using assms by (simp add: reload_path_def match_text_def definitions_def load_errors_def)

theorem broken_file_changes_nothing_witness:
  "sr_definitions (snd (reload_path demo_reader ''bad.yaml'' (load_all demo_reader [''a.yaml''] empty_registry)))
     = [(''fw'', demo_definition ''fw'')]"
proof -
  have "demo_reader ''bad.yaml'' = Inl ''oops''" by (simp add: demo_reader_def)
  from broken_file_changes_nothing [of demo_reader, OF this, of "load_all demo_reader [''a.yaml''] empty_registry"]
  show ?thesis by (simp add: load_all_def load_file_def demo_reader_def bump_reload_def demo_definition_def)
qed

text \<open>
  Loading the directory again is not validate-then-swap: the definition of a file that has become invalid
  is dropped, although the log message says that the previous version is kept.
\<close>

theorem load_all_drops_broken:
  assumes "read ''a.yaml'' = Inr d" and "read' ''a.yaml'' = Inl err"
  shows "sr_definitions (load_all read [''a.yaml''] empty_registry) = [(sd_name d, d)]
    \<and> sr_definitions (load_all read' [''a.yaml''] (load_all read [''a.yaml''] empty_registry)) = []"
  using assms by (simp add: load_all_def load_file_def bump_reload_def)

theorem load_all_drops_broken_witness:
  "sr_definitions (load_all (\<lambda>_. Inl ''oops'') [''a.yaml''] (load_all demo_reader [''a.yaml''] empty_registry)) = []"
  using load_all_drops_broken [of demo_reader "demo_definition ''fw''" "\<lambda>_. Inl ''oops''" "''oops''"]
  by (simp add: demo_reader_def)

text \<open>
  Deleting a file removes the definition filed under its name even when another file now provides it: after
  two files with the same name are loaded and the first is deleted, the registry has no definition of that
  name, while the second file is still listed as its source.
\<close>

theorem forget_removes_other_files_definition:
  "get_definition (handle_event demo_reader False (Deleted ''a.yaml'') (load_all demo_reader [''a.yaml'', ''b.yaml''] empty_registry)) ''fw'' = None
   \<and> path_for (handle_event demo_reader False (Deleted ''a.yaml'') (load_all demo_reader [''a.yaml'', ''b.yaml''] empty_registry)) ''fw''
       = Some ''b.yaml''"
proof -
  have "load_all demo_reader [''a.yaml'', ''b.yaml''] empty_registry
      = \<lparr>sr_definitions = [(''fw'', demo_definition ''fw'')], sr_paths = [(''a.yaml'', ''fw''), (''b.yaml'', ''fw'')],
         sr_errors = [], sr_reload_count = 1\<rparr>"
    by (simp add: load_all_def load_file_def demo_reader_def bump_reload_def demo_definition_def empty_registry_def)
  then show ?thesis
    by (simp add: forget_path_def bump_reload_def get_definition_def path_for_def ends_with_def)
qed

end
