(* ===== verification/Ip_Address.thy ===== *)
theory Ip_Address
  imports Py_Value
begin

text \<open>
  The standard library's \<^verbatim>\<open>ipaddress\<close> as the normalisation and enrichment code uses it: \<^verbatim>\<open>ip_address\<close> and
  \<^verbatim>\<open>str\<close> of an address, \<^verbatim>\<open>ip_network(..., strict=False)\<close>, membership, and the classification of CPython 3.11.
  An address is a number with its family; an IPv6 address may carry a scope.
\<close>

section \<open>Addresses\<close>

datatype ip = V4 nat | V6 nat "string option"

fun ip_version :: "ip \<Rightarrow> nat" where
  "ip_version (V4 _) = 4"
| "ip_version (V6 _ _) = 6"

fun ip_num :: "ip \<Rightarrow> nat" where
  "ip_num (V4 n) = n"
| "ip_num (V6 n _) = n"

fun ip_ok :: "ip \<Rightarrow> bool" where
  "ip_ok (V4 n) \<longleftrightarrow> n < 2 ^ 32"
| "ip_ok (V6 n scope) \<longleftrightarrow> n < 2 ^ 128
     \<and> (case scope of None \<Rightarrow> True | Some s \<Rightarrow> s \<noteq> [] \<and> CHR ''%'' \<notin> set s \<and> CHR ''/'' \<notin> set s)"

definition positional :: "nat \<Rightarrow> nat list \<Rightarrow> nat" where
  "positional b ds = foldl (\<lambda>a d. a * b + d) 0 ds"

text \<open>IPv4: four decimal octets without leading zeros.\<close>

definition parse_octet :: "string \<Rightarrow> nat option" where
  "parse_octet s =
     (if s \<noteq> [] \<and> list_all is_dec s \<and> length s \<le> 3 \<and> (s = ''0'' \<or> hd s \<noteq> CHR ''0'') \<and> nat_of_dec s \<le> 255
      then Some (nat_of_dec s) else None)"

fun map_opt :: "('a \<Rightarrow> 'b option) \<Rightarrow> 'a list \<Rightarrow> 'b list option" where
  "map_opt f [] = Some []"
| "map_opt f (x # xs) = Option.bind (f x) (\<lambda>y. map_option ((#) y) (map_opt f xs))"

definition parse_v4 :: "string \<Rightarrow> nat option" where
  "parse_v4 s =
     (let octets = split_on ''.'' s in
      if CHR ''/'' \<in> set s \<or> length octets \<noteq> 4 then None
      else map_option (positional 256) (map_opt parse_octet octets))"

definition octets_of :: "nat \<Rightarrow> nat list" where
  "octets_of n = map (\<lambda>i. n div 256 ^ i mod 256) [3, 2, 1, 0]"

definition v4_text :: "nat \<Rightarrow> string" where
  "v4_text n = join_with ''.'' (map dec_digits (octets_of n))"

text \<open>IPv6: eight groups of at most four hexadecimal digits, one run of which may be left out.\<close>

fun hex_digits :: "nat \<Rightarrow> string" where
  "hex_digits n = (if n < 16 then [hex_digit n] else hex_digits (n div 16) @ [hex_digit (n mod 16)])"

declare hex_digits.simps [simp del]

definition parse_hextet :: "string \<Rightarrow> nat option" where
  "parse_hextet s =
     (if s = [] \<or> 4 < length s then None else map_option (positional 16) (map_opt hex_val s))"

text \<open>The groups of the text, an IPv4 suffix rewritten to two of them.\<close>

definition hextet_texts :: "string \<Rightarrow> string list option" where
  "hextet_texts s =
     (let ps = split_on '':'' s in
      if length ps < 3 then None
      else if CHR ''.'' \<in> set (last ps)
      then map_option (\<lambda>n. butlast ps @ [hex_digits (n div 65536 mod 65536), hex_digits (n mod 65536)]) (parse_v4 (last ps))
      else Some ps)"

definition parse_hextets :: "string list \<Rightarrow> nat option" where
  "parse_hextets ps =
     (if 9 < length ps then None
      else case filter (\<lambda>i. ps ! i = []) [1..<length ps - 1] of
        [] \<Rightarrow> if length ps = 8 then map_option (positional 65536) (map_opt parse_hextet ps) else None
      | [skip] \<Rightarrow>
          (let hi = (if hd ps = [] then skip - 1 else skip);
               lo = (if last ps = [] then length ps - skip - 2 else length ps - skip - 1)
           in if hd ps = [] \<and> hi \<noteq> 0 \<or> last ps = [] \<and> lo \<noteq> 0 \<or> 8 \<le> hi + lo then None
              else Option.bind (map_opt parse_hextet (take hi ps)) (\<lambda>his.
                   map_option (\<lambda>los. positional 65536 (his @ replicate (8 - (hi + lo)) 0 @ los))
                     (map_opt parse_hextet (if last ps = [] then [] else drop (skip + 1) ps))))
      | _ \<Rightarrow> None)"

definition parse_v6 :: "string \<Rightarrow> ip option" where
  "parse_v6 s =
     (let (addr, found, scope) = py_partition ''%'' s in
      if CHR ''/'' \<in> set s \<or> found \<and> (scope = [] \<or> CHR ''%'' \<in> set scope) then None
      else map_option (\<lambda>n. V6 n (if found then Some scope else None))
             (Option.bind (hextet_texts addr) parse_hextets))"

text \<open>\<^verbatim>\<open>ip_address\<close>; a text of neither family raises \<^verbatim>\<open>ValueError\<close>.\<close>

definition ip_address :: "string \<Rightarrow> ip res" where
  "ip_address s =
     (case parse_v4 s of Some n \<Rightarrow> Inr (V4 n)
      | None \<Rightarrow> (case parse_v6 s of Some a \<Rightarrow> Inr a
                 | None \<Rightarrow> Inl (ValueError (repr_str s @ '' does not appear to be an IPv4 or IPv6 address''))))"

definition hextets_of :: "nat \<Rightarrow> nat list" where
  "hextets_of n = map (\<lambda>i. n div 65536 ^ i mod 65536) [7, 6, 5, 4, 3, 2, 1, 0]"

text \<open>The first longest run of zero groups, as its start and length; \<open>i\<close> is the position, \<open>(s, l)\<close> the current run.\<close>

fun zero_run :: "nat \<Rightarrow> nat \<times> nat \<Rightarrow> nat \<times> nat \<Rightarrow> nat list \<Rightarrow> nat \<times> nat" where
  "zero_run i (s, l) best [] = best"
| "zero_run i (s, l) best (h # hs) =
     (if h = 0
      then let s' = (if l = 0 then i else s); l' = l + 1
           in zero_run (i + 1) (s', l') (if snd best < l' then (s', l') else best) hs
      else zero_run (i + 1) (0, 0) best hs)"

definition compress_hextets :: "nat list \<Rightarrow> string list" where
  "compress_hextets hs =
     (let (s, l) = zero_run 0 (0, 0) (0, 0) hs; ts = map hex_digits hs in
      if 1 < l
      then (if s = 0 then [[]] else []) @ take s ts @ [[]] @ drop (s + l) ts @ (if s + l = length hs then [[]] else [])
      else ts)"

definition v6_text :: "nat \<Rightarrow> string" where
  "v6_text n = join_with '':'' (compress_hextets (hextets_of n))"

fun ip_text :: "ip \<Rightarrow> string" where
  "ip_text (V4 n) = v4_text n"
| "ip_text (V6 n None) = v6_text n"
| "ip_text (V6 n (Some scope)) = v6_text n @ ''%'' @ scope"

section \<open>Networks\<close>

record network =
  nw_version :: nat
  nw_address :: nat
  nw_prefix :: nat

definition width :: "nat \<Rightarrow> nat" where
  "width version = (if version = 4 then 32 else 128)"

definition network_text :: "network \<Rightarrow> string" where
  "network_text nw = (if nw_version nw = 4 then v4_text (nw_address nw) else v6_text (nw_address nw))
     @ ''/'' @ dec_digits (nw_prefix nw)"

text \<open>A prefix length in digits, or for IPv4 a netmask or hostmask.\<close>

definition parse_prefix_len :: "nat \<Rightarrow> string \<Rightarrow> nat option" where
  "parse_prefix_len w s =
     (if s \<noteq> [] \<and> list_all is_dec s \<and> nat_of_dec s \<le> w then Some (nat_of_dec s) else None)"

definition prefix_of_mask :: "nat \<Rightarrow> nat option" where
  "prefix_of_mask m = List.find (\<lambda>p. m = 2 ^ 32 - 2 ^ (32 - p)) [0..<33]"

definition parse_mask :: "string \<Rightarrow> nat option" where
  "parse_mask s =
     (case parse_prefix_len 32 s of
        Some p \<Rightarrow> Some p
      | None \<Rightarrow> Option.bind (parse_v4 s) (\<lambda>m.
          case prefix_of_mask m of Some p \<Rightarrow> Some p | None \<Rightarrow> prefix_of_mask (2 ^ 32 - 1 - m)))"

definition network_of :: "nat \<Rightarrow> nat \<Rightarrow> nat \<Rightarrow> network" where
  "network_of version n p =
     (let host = 2 ^ (width version - p) in \<lparr>nw_version = version, nw_address = n div host * host, nw_prefix = p\<rparr>)"

definition ip_network :: "string \<Rightarrow> network res" where
  "ip_network s =
     (let parts = split_on ''/'' s; addr = hd parts;
          v4 = Option.bind (parse_v4 addr) (\<lambda>n. map_option (network_of 4 n)
                 (if length parts = 1 then Some 32 else parse_mask (parts ! 1)));
          v6 = Option.bind (parse_v6 addr) (\<lambda>a. map_option (network_of 6 (ip_num a))
                 (if length parts = 1 then Some 128 else parse_prefix_len 128 (parts ! 1)))
      in case (if length parts \<le> 2 then (case v4 of None \<Rightarrow> v6 | _ \<Rightarrow> v4) else None) of
           Some nw \<Rightarrow> Inr nw
         | None \<Rightarrow> Inl (ValueError (repr_str s @ '' does not appear to be an IPv4 or IPv6 network'')))"

text \<open>\<^verbatim>\<open>address in network\<close>\<close>

definition in_network :: "ip \<Rightarrow> network \<Rightarrow> bool" where
  "in_network a nw \<longleftrightarrow> ip_version a = nw_version nw
     \<and> (let host = 2 ^ (width (nw_version nw) - nw_prefix nw) in ip_num a div host = nw_address nw div host)"

section \<open>Classification\<close>

definition v4_net :: "nat list \<Rightarrow> nat \<Rightarrow> network" where
  "v4_net octets p = network_of 4 (positional 256 octets) p"

definition v6_net :: "nat list \<Rightarrow> nat \<Rightarrow> network" where
  "v6_net hextets p = network_of 6 (positional 65536 hextets) p"

definition v4_private_networks :: "network list" where
  "v4_private_networks =
     [v4_net [0,0,0,0] 8, v4_net [10,0,0,0] 8, v4_net [127,0,0,0] 8, v4_net [169,254,0,0] 16, v4_net [172,16,0,0] 12,
      v4_net [192,0,0,0] 24, v4_net [192,0,0,170] 31, v4_net [192,0,2,0] 24, v4_net [192,168,0,0] 16,
      v4_net [198,18,0,0] 15, v4_net [198,51,100,0] 24, v4_net [203,0,113,0] 24, v4_net [240,0,0,0] 4,
      v4_net [255,255,255,255] 32]"

definition v4_private_exceptions :: "network list" where
  "v4_private_exceptions = [v4_net [192,0,0,9] 32, v4_net [192,0,0,10] 32]"

definition v6_private_networks :: "network list" where
  "v6_private_networks =
     [v6_net [0,0,0,0,0,0,0,1] 128, v6_net [0,0,0,0,0,0,0,0] 128, v6_net [0,0,0,0,0,65535,0,0] 96,
      v6_net [100,65435,1,0,0,0,0,0] 48, v6_net [256,0,0,0,0,0,0,0] 64, v6_net [8193,0,0,0,0,0,0,0] 23,
      v6_net [8193,3512,0,0,0,0,0,0] 32, v6_net [8194,0,0,0,0,0,0,0] 16, v6_net [64512,0,0,0,0,0,0,0] 7,
      v6_net [65152,0,0,0,0,0,0,0] 10]"

definition v6_private_exceptions :: "network list" where
  "v6_private_exceptions =
     [v6_net [8193,1,0,0,0,0,0,1] 128, v6_net [8193,1,0,0,0,0,0,2] 128, v6_net [8193,3,0,0,0,0,0,0] 32,
      v6_net [8193,4,274,0,0,0,0,0] 48, v6_net [8193,32,0,0,0,0,0,0] 28, v6_net [8193,48,0,0,0,0,0,0] 28]"

definition v6_reserved_networks :: "network list" where
  "v6_reserved_networks = map (\<lambda>(h, p). v6_net [h,0,0,0,0,0,0,0] p)
     [(0, 8), (256, 8), (512, 7), (1024, 6), (2048, 5), (4096, 4), (16384, 3), (24576, 3), (32768, 3), (40960, 3),
      (49152, 3), (57344, 4), (61440, 5), (63488, 6), (65024, 9)]"

definition in_any :: "ip \<Rightarrow> network list \<Rightarrow> bool" where
  "in_any a = list_ex (in_network a)"

fun ipv4_mapped :: "ip \<Rightarrow> ip option" where
  "ipv4_mapped (V4 _) = None"
| "ipv4_mapped (V6 n _) = (if n div 2 ^ 32 = 65535 then Some (V4 (n mod 2 ^ 32)) else None)"

fun v4_is_private :: "ip \<Rightarrow> bool" where
  "v4_is_private a \<longleftrightarrow> in_any a v4_private_networks \<and> \<not> in_any a v4_private_exceptions"

definition is_private :: "ip \<Rightarrow> bool" where
  "is_private a \<longleftrightarrow>
     (if ip_version a = 4 then v4_is_private a
      else case ipv4_mapped a of
        Some b \<Rightarrow> v4_is_private b
      | None \<Rightarrow> in_any a v6_private_networks \<and> \<not> in_any a v6_private_exceptions)"

definition is_global :: "ip \<Rightarrow> bool" where
  "is_global a \<longleftrightarrow> \<not> is_private a \<and> (ip_version a = 4 \<longrightarrow> \<not> in_network a (v4_net [100,64,0,0] 10))"

definition is_loopback :: "ip \<Rightarrow> bool" where
  "is_loopback a \<longleftrightarrow> (if ip_version a = 4 then in_network a (v4_net [127,0,0,0] 8) else ip_num a = 1)"

definition is_multicast :: "ip \<Rightarrow> bool" where
  "is_multicast a \<longleftrightarrow>
     (if ip_version a = 4 then in_network a (v4_net [224,0,0,0] 4) else in_network a (v6_net [65280,0,0,0,0,0,0,0] 8))"

definition is_reserved :: "ip \<Rightarrow> bool" where
  "is_reserved a \<longleftrightarrow>
     (if ip_version a = 4 then in_network a (v4_net [240,0,0,0] 4) else in_any a v6_reserved_networks)"

section \<open>Printing and reading back\<close>

lemma foldl_positional: "foldl (\<lambda>a d. a * b + d) x ds = x * b ^ length ds + positional b ds"
proof (induction ds arbitrary: x)
  case (Cons d ds)
  have "positional b (d # ds) = d * b ^ length ds + positional b ds"
    using Cons [of d] by (simp add: positional_def)
  then show ?case using Cons [of "x * b + d"] by (simp add: algebra_simps)
qed (simp add: positional_def)

lemma positional_simps [simp]:
  "positional b [] = 0"
  "positional b (d # ds) = d * b ^ length ds + positional b ds"
  "positional b (ds @ es) = positional b ds * b ^ length es + positional b es"
proof -
  show "positional b [] = 0" by (simp add: positional_def)
  show "positional b (d # ds) = d * b ^ length ds + positional b ds"
    using foldl_positional [of b d ds] by (simp add: positional_def)
  show "positional b (ds @ es) = positional b ds * b ^ length es + positional b es"
    using foldl_positional [of b "positional b ds" es] by (simp add: positional_def)
qed

lemma positional_zeros [simp]: "positional b (replicate n 0) = 0"
  by (induction n) simp_all

lemma positional_digits:
  assumes "0 < b"
  shows "positional b (map (\<lambda>i. n div b ^ i mod b) (rev [0..<k])) = n mod b ^ k"
proof (induction k)
  case (Suc k)
  have "n mod b ^ Suc k = b ^ k * (n div b ^ k mod b) + n mod b ^ k"
    using mod_mult2_eq [of n "b ^ k" b] by (simp add: mult.commute)
  then show ?case using Suc by simp
qed simp

lemma map_opt_Some: "\<forall>x \<in> set xs. f (g x) = Some (h x) \<Longrightarrow> map_opt f (map g xs) = Some (map h xs)"
  by (induction xs) simp_all

lemma parse_octet_digits: "n < 256 \<Longrightarrow> parse_octet (dec_digits n) = Some n"
proof -
  assume n: "n < 256"
  have "length (dec_digits n) \<le> 3" using n dec_digits_bound [of 3 n] by simp
  moreover have "dec_digits n = ''0'' \<or> hd (dec_digits n) \<noteq> CHR ''0''"
  proof (cases "n = 0")
    case True
    then show ?thesis by (simp add: dec_digits.simps digit_char_def ch_def)
  next
    case False
    then show ?thesis using dec_digits_lead [of n] by auto
  qed
  ultimately show ?thesis
    using n dec_digits_is_dec [of n] by (simp add: parse_octet_def list_all_iff)
qed

lemma dec_not_in: "\<not> is_dec c \<Longrightarrow> c \<notin> set (dec_digits n)"
  using dec_digits_is_dec [of n] by auto

lemma octets_of_digits: "octets_of n = map (\<lambda>i. n div 256 ^ i mod 256) (rev [0..<4])"
  by (simp add: octets_of_def upt_rec)

lemma set_join: "set (join_with p xs) \<subseteq> set p \<union> (\<Union>x \<in> set xs. set x)"
  by (induction p xs rule: join_with.induct) auto

lemma v4_text_chars: "c \<in> set (v4_text n) \<Longrightarrow> is_dec c \<or> c = CHR ''.''"
  using set_join [of "''.''" "map dec_digits (octets_of n)"] dec_digits_is_dec by (fastforce simp: v4_text_def)

lemma parse_v4_text: "n < 2 ^ 32 \<Longrightarrow> parse_v4 (v4_text n) = Some n"
proof -
  assume n: "n < 2 ^ 32"
  have s: "split_on ''.'' (v4_text n) = map dec_digits (octets_of n)"
    unfolding v4_text_def
    by (rule split_join_single) (auto simp: octets_of_def dec_not_in is_dec_def)
  have "CHR ''/'' \<notin> set (v4_text n)" using v4_text_chars [of "CHR ''/''" n] by (auto simp: is_dec_def)
  moreover have "map_opt parse_octet (map dec_digits (octets_of n)) = Some (octets_of n)"
    using map_opt_Some [of "octets_of n" parse_octet dec_digits id] by (simp add: octets_of_def parse_octet_digits)
  moreover have "positional 256 (octets_of n) = n"
    using positional_digits [of 256 n 4] n unfolding octets_of_digits by simp
  ultimately show ?thesis by (simp add: parse_v4_def s Let_def) (simp add: octets_of_def)
qed

lemma hex_digits_props:
  "hex_digits n \<noteq> [] \<and> (\<exists>ds. map_opt hex_val (hex_digits n) = Some ds \<and> positional 16 ds = n)
   \<and> (\<forall>c \<in> set (hex_digits n). hex_val c \<noteq> None)"
proof (induction n rule: hex_digits.induct)
  case (1 n)
  have snoc: "map_opt f (xs @ [y]) = Some (zs @ [z])"
    if "map_opt f xs = Some zs" "f y = Some z" for f :: "char \<Rightarrow> nat option" and xs y zs z
    using that by (induction xs arbitrary: zs) (auto simp: bind_eq_Some_conv)
  show ?case
  proof (cases "n < 16")
    case True
    then show ?thesis by (subst (1 2 3) hex_digits.simps) simp
  next
    case False
    from 1 [OF this] obtain ds where ds: "map_opt hex_val (hex_digits (n div 16)) = Some ds" "positional 16 ds = n div 16"
      and c: "\<forall>c \<in> set (hex_digits (n div 16)). hex_val c \<noteq> None" by blast
    have "map_opt hex_val (hex_digits n) = Some (ds @ [n mod 16])"
      using False snoc [OF ds(1), of "hex_digit (n mod 16)" "n mod 16"] by (subst hex_digits.simps) simp
    moreover have "positional 16 (ds @ [n mod 16]) = n" using ds(2) by simp
    moreover have "hex_digits n \<noteq> []" using False by (subst hex_digits.simps) simp
    moreover have "\<forall>c \<in> set (hex_digits n). hex_val c \<noteq> None" using False c by (subst hex_digits.simps) auto
    ultimately show ?thesis by blast
  qed
qed

lemma length_hex_digits: "0 < k \<Longrightarrow> n < 16 ^ k \<Longrightarrow> length (hex_digits n) \<le> k"
proof (induction k arbitrary: n)
  case (Suc k)
  show ?case
  proof (cases "n < 16")
    case False
    then have "0 < k" "n div 16 < 16 ^ k" using Suc.prems(2) by (cases k; simp add: less_mult_imp_div_less mult.commute)+
    from Suc.IH [OF this] show ?thesis using False by (subst hex_digits.simps) simp
  qed (subst hex_digits.simps, simp)
qed simp

lemma parse_hextet_digits: "n < 65536 \<Longrightarrow> parse_hextet (hex_digits n) = Some n"
  using hex_digits_props [of n] length_hex_digits [of 4 n] by (auto simp: parse_hextet_def)

lemma hex_digits_not_Nil [simp]: "hex_digits n \<noteq> []"
  using hex_digits_props by blast

lemma not_hex_digit: "hex_val c = None \<Longrightarrow> c \<notin> set (hex_digits n)"
  using hex_digits_props by blast

definition run_ok :: "nat list \<Rightarrow> nat \<times> nat \<Rightarrow> bool" where
  "run_ok hs = (\<lambda>(s, l). s + l \<le> length hs \<and> (\<forall>j < l. hs ! (s + j) = 0))"

lemma zero_run_ok:
  assumes "hs = pre @ rest" and "run_ok hs best" and "0 < l \<Longrightarrow> s + l = length pre \<and> run_ok hs (s, l)"
  shows "run_ok hs (zero_run (length pre) (s, l) best rest)"
  using assms
proof (induction rest arbitrary: pre s l best)
  case (Cons h rest)
  show ?case
  proof (cases "h = 0")
    case True
    define s' where "s' = (if l = 0 then length pre else s)"
    have "hs ! length pre = 0" using Cons.prems(1) True by simp
    then have run: "s' + (l + 1) = length (pre @ [h]) \<and> run_ok hs (s', l + 1)"
      using Cons.prems by (auto simp: run_ok_def s'_def less_Suc_eq nth_append)
    then have "run_ok hs (zero_run (length (pre @ [h])) (s', l + 1) (if snd best < l + 1 then (s', l + 1) else best) rest)"
      using Cons.prems(1,2) by (intro Cons.IH) auto
    moreover have "length (pre @ [h]) = length pre + 1" by simp
    ultimately show ?thesis unfolding zero_run.simps s'_def using True by (simp only: if_True simp_thms Let_def)
  next
    case False
    have "run_ok hs (zero_run (length (pre @ [h])) (0, 0) best rest)"
      using Cons.prems(1,2) by (intro Cons.IH) auto
    then show ?thesis by (simp add: False)
  qed
qed simp

lemma run_ok_split:
  assumes "run_ok hs (s, l)"
  shows "hs = take s hs @ replicate l 0 @ drop (s + l) hs"
proof (rule nth_equalityI)
  show "length hs = length (take s hs @ replicate l 0 @ drop (s + l) hs)" using assms by (simp add: run_ok_def)
  fix i
  assume i: "i < length hs"
  then have "hs ! i = 0" if "s \<le> i" "i < s + l"
    using assms that by (auto simp: run_ok_def dest: spec [of _ "i - s"])
  then show "hs ! i = (take s hs @ replicate l 0 @ drop (s + l) hs) ! i"
    using assms i by (auto simp: run_ok_def nth_append min_def)
qed

definition gap_texts :: "nat list \<Rightarrow> nat list \<Rightarrow> string list" where
  "gap_texts xs ys = (if xs = [] then [[]] else []) @ map hex_digits xs @ [[]] @ map hex_digits ys
     @ (if ys = [] then [[]] else [])"

lemma compress_cases:
  obtains "compress_hextets hs = map hex_digits hs"
  | xs l ys where "hs = xs @ replicate l 0 @ ys" "1 < l" "compress_hextets hs = gap_texts xs ys"
proof -
  obtain s l where r: "zero_run 0 (0, 0) (0, 0) hs = (s, l)" by (cases "zero_run 0 (0, 0) (0, 0) hs")
  have ok: "run_ok hs (s, l)" using zero_run_ok [of hs "[]" hs "(0, 0)" 0 0] by (simp add: r run_ok_def)
  show ?thesis
  proof (cases "1 < l")
    case True
    have "hs \<noteq> []" using ok True by (auto simp: run_ok_def)
    then have "compress_hextets hs = gap_texts (take s hs) (drop (s + l) hs)"
      using True ok by (auto simp: compress_hextets_def r gap_texts_def take_map drop_map run_ok_def)
    with run_ok_split [OF ok] True show ?thesis by (rule that(2))
  next
    case False
    then show ?thesis by (intro that(1)) (simp add: compress_hextets_def r)
  qed
qed

lemma filter_single:
  assumes "a \<le> k" "k < b" "\<And>i. a \<le> i \<Longrightarrow> i < b \<Longrightarrow> P i \<longleftrightarrow> i = k"
  shows "filter P [a..<b] = [k]"
proof -
  have "[a..<b] = [a..<k] @ k # [Suc k..<b]"
    using assms(1,2) upt_add_eq_append [of a k "b - k"] upt_conv_Cons [of k b] by simp
  moreover have "filter P [a..<k] = []" "filter P [Suc k..<b] = []" "P k"
    using assms by (auto simp: filter_empty_conv)
  ultimately show ?thesis by simp
qed

lemma length_gap_texts:
  "length (gap_texts xs ys) = length xs + length ys + 1 + (if xs = [] then 1 else 0) + (if ys = [] then 1 else 0)"
  by (simp add: gap_texts_def)

lemma parse_hextets_gap:
  assumes "length xs + l + length ys = 8" "1 < l" "\<forall>h \<in> set xs \<union> set ys. h < 65536"
  shows "parse_hextets (gap_texts xs ys) = Some (positional 65536 (xs @ replicate l 0 @ ys))"
proof -
  let ?ps = "gap_texts xs ys"
  let ?skip = "if xs = [] then 1 else length xs"
  have "filter (\<lambda>i. ?ps ! i = []) [1..<length ?ps - 1] = [?skip]"
    by (rule filter_single) (auto simp: length_gap_texts Suc_le_eq, auto simp: gap_texts_def nth_append nth_Cons' split: if_splits)
  moreover have "map_opt parse_hextet (map hex_digits xs) = Some xs" "map_opt parse_hextet (map hex_digits ys) = Some ys"
    using map_opt_Some [of xs parse_hextet hex_digits id] map_opt_Some [of ys parse_hextet hex_digits id] assms(3)
    by (simp_all add: parse_hextet_digits)
  moreover have "hd ?ps = [] \<longleftrightarrow> xs = []" "last ?ps = [] \<longleftrightarrow> ys = []"
    by (cases xs; cases ys rule: rev_cases; simp add: gap_texts_def)+
  moreover have "take (if xs = [] then 0 else length xs) ?ps = map hex_digits xs" "drop (?skip + 1) ?ps = map hex_digits ys" if "ys \<noteq> []"
    using that by (simp_all add: gap_texts_def)
  moreover have "take (length xs) ?ps = map hex_digits xs" if "xs \<noteq> []"
    using that by (simp add: gap_texts_def)
  moreover have "length xs + length ys < 8" "length ?ps \<le> 9" "8 - (length xs + length ys) = l" using assms(1,2) by (auto simp: length_gap_texts)
  ultimately show ?thesis
    by (cases "xs = []"; cases "ys = []"; simp add: parse_hextets_def length_gap_texts Let_def)
qed

lemma hextets_of_digits: "hextets_of n = map (\<lambda>i. n div 65536 ^ i mod 65536) (rev [0..<8])"
  by (simp add: hextets_of_def upt_rec)

lemma hextets_of_props:
  "length (hextets_of n) = 8" "h \<in> set (hextets_of n) \<Longrightarrow> h < 65536"
  "n < 2 ^ 128 \<Longrightarrow> positional 65536 (hextets_of n) = n"
proof -
  show "length (hextets_of n) = 8" by (simp add: hextets_of_def)
  show "h \<in> set (hextets_of n) \<Longrightarrow> h < 65536" by (auto simp: hextets_of_def)
  have "(65536 :: nat) ^ 8 = 2 ^ 128" by simp
  then show "n < 2 ^ 128 \<Longrightarrow> positional 65536 (hextets_of n) = n"
    using positional_digits [of 65536 n 8] unfolding hextets_of_digits by simp
qed

lemma parse_compressed: "n < 2 ^ 128 \<Longrightarrow> parse_hextets (compress_hextets (hextets_of n)) = Some n"
proof -
  assume n: "n < 2 ^ 128"
  note hs = hextets_of_props [where n = n]
  show ?thesis
  proof (cases rule: compress_cases [of "hextets_of n"])
    case 1
    let ?ps = "map hex_digits (hextets_of n)"
    have "filter (\<lambda>i. ?ps ! i = []) [1..<length ?ps - 1] = []"
      by (auto simp: filter_empty_conv)
    moreover have "map_opt parse_hextet ?ps = Some (hextets_of n)"
      using map_opt_Some [of "hextets_of n" parse_hextet hex_digits id] hs(2) by (simp add: parse_hextet_digits)
    ultimately show ?thesis unfolding 1 parse_hextets_def using n hs by simp
  next
    case (2 xs l ys)
    have "length xs + l + length ys = 8" using hs(1) arg_cong [OF 2(1), of length] by simp
    moreover have "\<forall>h \<in> set xs \<union> set ys. h < 65536" using hs(2) unfolding 2(1) by auto
    ultimately show ?thesis using parse_hextets_gap [OF _ 2(2), of xs ys] hs(3) [OF n] 2 by simp
  qed
qed

lemma compress_parts:
  "c \<in> set t \<Longrightarrow> t \<in> set (compress_hextets hs) \<Longrightarrow> hex_val c \<noteq> None"
  "length hs = 8 \<Longrightarrow> 3 \<le> length (compress_hextets hs)"
proof -
  show "c \<in> set t \<Longrightarrow> t \<in> set (compress_hextets hs) \<Longrightarrow> hex_val c \<noteq> None"
    using not_hex_digit by (cases rule: compress_cases [of hs]) (auto simp: gap_texts_def split: if_splits)
  show "3 \<le> length (compress_hextets hs)" if "length hs = 8"
    using that
  proof (cases rule: compress_cases [of hs])
    case (2 xs l ys)
    then show ?thesis by (cases xs; cases ys; simp add: gap_texts_def)
  qed simp
qed

lemma split_v6_text: "split_on '':'' (v6_text n) = compress_hextets (hextets_of n)"
  unfolding v6_text_def
proof (rule split_join_single)
  show "compress_hextets (hextets_of n) \<noteq> []" using compress_parts(2) [OF hextets_of_props(1), of n] by auto
  have "hex_val (CHR '':'') = None" by (simp add: hex_val_def)
  then show "\<forall>t \<in> set (compress_hextets (hextets_of n)). CHR '':'' \<notin> set t"
    using compress_parts(1) [of _ _ "hextets_of n"] by blast
qed

lemma v6_text_chars: "c \<in> set (v6_text n) \<Longrightarrow> hex_val c \<noteq> None \<or> c = CHR '':''"
  using set_join [of "'':''" "compress_hextets (hextets_of n)"] compress_parts(1) [of c _ "hextets_of n"]
  by (fastforce simp: v6_text_def)

lemma parse_v6_text:
  assumes "ip_ok (V6 n scope)"
  shows "parse_v6 (ip_text (V6 n scope)) = Some (V6 n scope)"
proof -
  let ?ps = "compress_hextets (hextets_of n)"
  have "?ps \<noteq> []" using compress_parts(2) [OF hextets_of_props(1), of n] by auto
  from last_in_set [OF this] have "CHR ''.'' \<notin> set (last ?ps)"
    using compress_parts(1) [of "CHR ''.''" "last ?ps" "hextets_of n"] by (auto simp: hex_val_def)
  then have "hextet_texts (v6_text n) = Some ?ps"
    using compress_parts(2) [OF hextets_of_props(1), of n] by (simp add: hextet_texts_def split_v6_text)
  moreover have "CHR ''%'' \<notin> set (v6_text n)" "CHR ''/'' \<notin> set (v6_text n)"
    using v6_text_chars [of "CHR ''%''" n] v6_text_chars [of "CHR ''/''" n] by (auto simp: hex_val_def)
  moreover have "parse_hextets ?ps = Some n" using assms by (simp add: parse_compressed)
  ultimately show ?thesis
    using assms
    by (cases scope) (auto simp: parse_v6_def py_partition_def find_sub_single_None [THEN iffD2] find_sub_single)
qed

lemma map_opt_mem: "map_opt f xs = Some ys \<Longrightarrow> x \<in> set xs \<Longrightarrow> f x \<noteq> None"
  by (induction xs arbitrary: ys) (auto simp: bind_eq_Some_conv)

lemma map_opt_set: "map_opt f xs = Some ys \<Longrightarrow> y \<in> set ys \<Longrightarrow> \<exists>x \<in> set xs. f x = Some y"
  by (induction xs arbitrary: ys) (auto simp: bind_eq_Some_conv)

lemma map_opt_length: "map_opt f xs = Some ys \<Longrightarrow> length ys = length xs"
  by (induction xs arbitrary: ys) (auto simp: bind_eq_Some_conv)

lemma positional_bound: "\<forall>d \<in> set ds. d < b \<Longrightarrow> positional b ds < b ^ length ds"
proof (induction ds)
  case (Cons d ds)
  then have "d + 1 \<le> b" "positional b ds < b ^ length ds" by auto
  then have "d * b ^ length ds + positional b ds < (d + 1) * b ^ length ds" by simp
  also have "\<dots> \<le> b * b ^ length ds" using \<open>d + 1 \<le> b\<close> by (rule mult_le_mono1)
  finally show ?case by simp
qed simp

lemma parse_octet_bound: "parse_octet s = Some n \<Longrightarrow> n < 256"
  by (auto simp: parse_octet_def split: if_splits)

lemma parse_v4_chars: "parse_v4 s = Some n \<Longrightarrow> c \<in> set s \<Longrightarrow> is_dec c \<or> c = CHR ''.''"
proof -
  assume s: "parse_v4 s = Some n" and c: "c \<in> set s"
  obtain os where "map_opt parse_octet (split_on ''.'' s) = Some os"
    using s by (auto simp: parse_v4_def Let_def split: if_splits)
  from map_opt_mem [OF this] have "\<forall>t \<in> set (split_on ''.'' s). list_all is_dec t"
    by (auto simp: parse_octet_def split: if_splits) (metis option.distinct(1))
  then have "\<forall>t \<in> set (split_on ''.'' s). \<forall>c \<in> set t. is_dec c" by (simp add: list_all_iff)
  moreover have "c = CHR ''.'' \<or> (\<exists>t \<in> set (split_on ''.'' s). c \<in> set t)"
    using c set_join [of "''.''" "split_on ''.'' s"] by (auto simp: join_split)
  ultimately show ?thesis by blast
qed

lemma parse_v4_bound: "parse_v4 s = Some n \<Longrightarrow> n < 2 ^ 32"
proof -
  assume "parse_v4 s = Some n"
  then obtain os where os: "map_opt parse_octet (split_on ''.'' s) = Some os" "length (split_on ''.'' s) = 4" "n = positional 256 os"
    by (auto simp: parse_v4_def Let_def split: if_splits)
  have "\<forall>d \<in> set os. d < 256" using map_opt_set [OF os(1)] parse_octet_bound by blast
  from positional_bound [OF this] show ?thesis using map_opt_length [OF os(1)] os(2,3) by simp
qed

lemma parse_hextet_bound: "parse_hextet s = Some n \<Longrightarrow> n < 65536"
proof -
  assume "parse_hextet s = Some n"
  then obtain ds where ds: "map_opt hex_val s = Some ds" "length s \<le> 4" "n = positional 16 ds"
    by (auto simp: parse_hextet_def split: if_splits)
  have "d < 16" if "hex_val c = Some d" for c d using that by (auto simp: hex_val_def split: if_splits)
  then have "\<forall>d \<in> set ds. d < 16" using map_opt_set [OF ds(1)] by blast
  from positional_bound [OF this] have "n < 16 ^ length ds" using ds(3) by simp
  also have "\<dots> \<le> 16 ^ 4" using map_opt_length [OF ds(1)] ds(2) by (intro power_increasing) auto
  finally show ?thesis by simp
qed

lemma parse_hextets_bound: "parse_hextets ps = Some n \<Longrightarrow> n < 2 ^ 128"
proof -
  assume n: "parse_hextets ps = Some n"
  have "\<exists>hs. n = positional 65536 hs \<and> length hs = 8 \<and> (\<forall>h \<in> set hs. h < 65536)"
  proof (cases "filter (\<lambda>i. ps ! i = []) [1..<length ps - 1]")
    case Nil
    then obtain hs where "map_opt parse_hextet ps = Some hs" "n = positional 65536 hs" "length ps = 8"
      using n by (auto simp: parse_hextets_def split: if_splits)
    then show ?thesis using map_opt_length [of parse_hextet ps hs] map_opt_set [of parse_hextet ps hs] parse_hextet_bound by metis
  next
    case (Cons skip sks)
    define hi where "hi = (if hd ps = [] then skip - 1 else skip)"
    define lo where "lo = (if last ps = [] then length ps - skip - 2 else length ps - skip - 1)"
    have skip: "1 \<le> skip" "skip < length ps - 1"
      using arg_cong [OF Cons, of set] by auto
    have nil: "sks = []" using n Cons by (auto simp: parse_hextets_def split: if_splits list.splits)
    obtain his los where p: "map_opt parse_hextet (take hi ps) = Some his"
        "map_opt parse_hextet (if last ps = [] then [] else drop (skip + 1) ps) = Some los"
        "n = positional 65536 (his @ replicate (8 - (hi + lo)) 0 @ los)" "last ps = [] \<longrightarrow> lo = 0" "hi + lo < 8"
      using n unfolding parse_hextets_def Cons nil list.case Let_def hi_def [symmetric] lo_def [symmetric]
      by (auto simp: bind_eq_Some_conv split: if_splits)
    have "length his = hi" "length los = lo"
      using map_opt_length [OF p(1)] map_opt_length [OF p(2)] skip p(4) by (auto simp: hi_def lo_def split: if_splits)
    moreover have "\<forall>h \<in> set his \<union> set los. h < 65536"
      using map_opt_set [OF p(1)] map_opt_set [OF p(2)] parse_hextet_bound by blast
    ultimately show ?thesis using p(3,5) by (intro exI [of _ "his @ replicate (8 - (hi + lo)) 0 @ los"]) auto
  qed
  then obtain hs where hs: "n = positional 65536 hs" "length hs = 8" "\<forall>h \<in> set hs. h < 65536" by blast
  from positional_bound [OF hs(3)] show ?thesis using hs(1,2) by simp
qed

lemma parse_v6_ok: "parse_v6 s = Some a \<Longrightarrow> ip_ok a"
  by (auto simp: parse_v6_def Let_def py_partition_def bind_eq_Some_conv split: if_splits option.splits
      dest!: parse_hextets_bound find_sub_Some)

lemma ip_address_ok: "ip_address s = Inr a \<Longrightarrow> ip_ok a"
  using parse_v4_bound [of s] parse_v6_ok [of s] by (auto simp: ip_address_def split: option.splits)

lemma ip_address_text: "ip_ok a \<Longrightarrow> ip_address (ip_text a) = Inr a"
proof (cases a)
  case (V6 n scope)
  assume ok: "ip_ok a"
  have "CHR '':'' \<in> set (v6_text n)"
  proof -
    have "\<not> (\<exists>t. split_on '':'' (v6_text n) = [t])"
      using compress_parts(2) [OF hextets_of_props(1), of n] by (auto simp: split_v6_text)
    then show ?thesis using split_on_single_none [of "CHR '':''" "v6_text n"] by blast
  qed
  then have "CHR '':'' \<in> set (ip_text a)" by (cases scope) (simp_all add: V6)
  then have "parse_v4 (ip_text a) = None"
    using parse_v4_chars [of "ip_text a" _ "CHR '':''"] by (cases "parse_v4 (ip_text a)") (auto simp: is_dec_def)
  then show ?thesis using parse_v6_text ok by (simp add: ip_address_def V6)
qed (simp add: ip_address_def parse_v4_text)

text \<open>The canonical text of an address is its own canonical text, so the texts of an enriched record can be read again.\<close>

lemma ip_address_canonical: "ip_address s = Inr a \<Longrightarrow> ip_address (ip_text a) = Inr a"
  by (rule ip_address_text) (rule ip_address_ok)

end
