(* ===== verification/Ocsf.thy ===== *)
theory Ocsf
  imports Sources Ip_Address
begin

text \<open>
  The OCSF target of the normalisation (\<^verbatim>\<open>ulpf/normalize/ocsf\<close>): lookup tables, builders and the
  finalisation of a record (\<^verbatim>\<open>base.py\<close>), and the shape and checks of the four classes. A check returns its
  problems; looking up a list or a mapping in a table raises \<^verbatim>\<open>TypeError\<close>, as Python does.
\<close>

section \<open>Tables\<close>

type_synonym id_table = "(int \<times> string) list"

definition ocsf_version :: string where
  "ocsf_version = ''1.5.0''"

definition categories :: id_table where
  "categories =
     [(1, ''System Activity''), (2, ''Findings''), (3, ''Identity & Access Management''), (4, ''Network Activity''),
      (5, ''Discovery''), (6, ''Application Activity''), (7, ''Remediation''), (8, ''Unmanned Systems'')]"

definition severity_ids :: id_table where
  "severity_ids =
     [(0, ''Unknown''), (1, ''Informational''), (2, ''Low''), (3, ''Medium''), (4, ''High''), (5, ''Critical''),
      (6, ''Fatal''), (99, ''Other'')]"

definition class_names :: id_table where
  "class_names =
     [(1001, ''File System Activity''), (2004, ''Detection Finding''), (3002, ''Authentication''),
      (4001, ''Network Activity''), (4002, ''HTTP Activity''), (4003, ''DNS Activity''), (4004, ''DHCP Activity''),
      (4005, ''RDP Activity''), (4006, ''SMB Activity''), (4007, ''SSH Activity''), (4008, ''FTP Activity''),
      (4009, ''Email Activity''), (4013, ''NTP Activity''), (6003, ''API Activity'')]"

definition network_activity_ids :: id_table where
  "network_activity_ids = [(0, ''Unknown''), (1, ''Open''), (2, ''Close''), (3, ''Reset''), (4, ''Fail''), (5, ''Refuse''),
     (6, ''Traffic''), (99, ''Other'')]"

definition http_activity_ids :: id_table where
  "http_activity_ids = [(0, ''Unknown''), (1, ''Connect''), (2, ''Delete''), (3, ''Get''), (4, ''Head''), (5, ''Options''),
     (6, ''Post''), (7, ''Put''), (8, ''Trace''), (99, ''Other'')]"

definition dns_activity_ids :: id_table where
  "dns_activity_ids = [(0, ''Unknown''), (1, ''Query''), (2, ''Response''), (6, ''Traffic''), (99, ''Other'')]"

definition finding_activity_ids :: id_table where
  "finding_activity_ids = [(0, ''Unknown''), (1, ''Create''), (2, ''Update''), (3, ''Close''), (99, ''Other'')]"

definition authentication_activity_ids :: id_table where
  "authentication_activity_ids =
     [(0, ''Unknown''), (1, ''Logon''), (2, ''Logoff''), (3, ''Authentication Ticket''), (99, ''Other'')]"

definition activity_names :: "(int \<times> id_table) list" where
  "activity_names =
     [(4001, network_activity_ids), (4002, http_activity_ids), (4003, dns_activity_ids),
      (3002, authentication_activity_ids), (2004, finding_activity_ids)]"

text \<open>\<^verbatim>\<open>table.get(value)\<close> of a table with integer keys: numbers compare by value, an unhashable value raises.\<close>

definition lookup_id :: "(int \<times> 'a) list \<Rightarrow> pyval \<Rightarrow> 'a option res" where
  "lookup_id table v =
     (if hashable v then Inr (case num_value v of None \<Rightarrow> None | Some i \<Rightarrow> map_of table i)
      else Inl (TypeError ''unhashable type''))"

section \<open>Builders and finalisation\<close>

definition type_uid :: "int \<Rightarrow> int \<Rightarrow> int" where
  "type_uid class_uid activity_id = class_uid * 100 + activity_id"

fun strip_none :: "pyval \<Rightarrow> pyval"
  and strip_members :: "pydict \<Rightarrow> pydict"
  and strip_items :: "pyval list \<Rightarrow> pyval list" where
  "strip_none (PDict d) = PDict (strip_members d)"
| "strip_none (PList xs) = PList (strip_items xs)"
| "strip_none v = v"
| "strip_members [] = []"
| "strip_members ((k, v) # d) = (if v = PNone then strip_members d else (k, strip_none v) # strip_members d)"
| "strip_items [] = []"
| "strip_items (x # xs) = (if x = PNone then strip_items xs else strip_none x # strip_items xs)"

definition build_metadata :: "string \<Rightarrow> pyval \<Rightarrow> pyval \<Rightarrow> string \<Rightarrow> pyval \<Rightarrow> pydict" where
  "build_metadata uid vendor product_name version logged_time = strip_members
     [(''uid'', PStr uid), (''version'', PStr ocsf_version), (''log_version'', PStr version),
      (''logged_time'', logged_time), (''product'', PDict [(''vendor_name'', vendor), (''name'', product_name)])]"

definition build_endpoint :: "pyval \<Rightarrow> pyval \<Rightarrow> pyval \<Rightarrow> pyval \<Rightarrow> pyval \<Rightarrow> pydict" where
  "build_endpoint addr port hostname iface mac = strip_members
     [(''ip'', addr), (''port'', port), (''hostname'', hostname), (''interface_name'', iface), (''mac'', mac)]"

text \<open>
  The steps of \<^verbatim>\<open>finalize\<close>. \<open>class_uid\<close> and \<open>activity_id\<close> are integers there; arithmetic on anything else
  is taken to raise.
\<close>

definition int_value :: "pyval \<Rightarrow> int option" where
  "int_value v = (case v of PInt i \<Rightarrow> Some i | PBool b \<Rightarrow> Some (if b then 1 else 0) | _ \<Rightarrow> None)"

definition fill_activity :: "pyval \<Rightarrow> string option \<Rightarrow> pydict \<Rightarrow> pydict res" where
  "fill_activity class_uid class_name d =
     (case int_value class_uid of
        None \<Rightarrow> Inl (TypeError ''unsupported operand type(s)'')
      | Some c \<Rightarrow>
          (case int_value (py_get d ''activity_id'') of
             None \<Rightarrow> Inl (TypeError ''unsupported operand type(s)'')
           | Some a \<Rightarrow>
               (let d1 = dict_set ''type_uid'' (PInt (type_uid c a)) d;
                    name = Option.bind (map_of activity_names c) (\<lambda>t. map_of t a);
                    d2 = (case name of
                            Some n \<Rightarrow> if py_truth (py_get d1 ''activity_name'') then d1 else dict_set ''activity_name'' (PStr n) d1
                          | None \<Rightarrow> d1)
                in Inr (case class_name of
                          None \<Rightarrow> d2
                        | Some cn \<Rightarrow> dict_set ''type_name'' (PStr (case name of Some n \<Rightarrow> cn @ '': '' @ n | None \<Rightarrow> cn)) d2))))"

definition fill_class :: "pydict \<Rightarrow> pydict res" where
  "fill_class d =
     (let class_uid = py_get d ''class_uid'' in
      if class_uid = PNone then Inr d
      else bind_res (lookup_id class_names class_uid) (\<lambda>class_name.
        let d1 = (case class_name of None \<Rightarrow> d | Some n \<Rightarrow> dict_set ''class_name'' (PStr n) d) in
        if py_get d1 ''activity_id'' = PNone then Inr d1 else fill_activity class_uid class_name d1))"

definition fill_name :: "id_table \<Rightarrow> string \<Rightarrow> string \<Rightarrow> pydict \<Rightarrow> pydict res" where
  "fill_name table key target d =
     bind_res (lookup_id table (py_get d key)) (\<lambda>n. Inr (case n of None \<Rightarrow> d | Some t \<Rightarrow> dict_set target (PStr t) d))"

definition finalize_record :: "pydict \<Rightarrow> pydict res" where
  "finalize_record record =
     bind_res (fill_class record) (\<lambda>d1.
     bind_res (fill_name categories ''category_uid'' ''category_name'' d1) (\<lambda>d2.
     bind_res (fill_name severity_ids ''severity_id'' ''severity'' d2) (\<lambda>d3.
     Inr (strip_members d3))))"

section \<open>Checks shared by the classes\<close>

definition missing :: "string \<Rightarrow> string" where
  "missing attr = ''missing required attribute: '' @ attr"

definition filled_dict :: "pyval \<Rightarrow> bool" where
  "filled_dict v = (case v of PDict d \<Rightarrow> d \<noteq> [] | _ \<Rightarrow> False)"

definition check_required :: "string list \<Rightarrow> string list \<Rightarrow> pydict \<Rightarrow> string list" where
  "check_required scalars objects record =
     map missing (filter (\<lambda>a. py_get record a = PNone) scalars)
     @ map missing (filter (\<lambda>a. \<not> filled_dict (py_get record a)) objects)
     @ (if ''metadata'' \<in> set objects \<and> filled_dict (py_get record ''metadata'')
           \<and> \<not> py_truth (py_get (dict_of (py_get record ''metadata'')) ''uid'')
        then [''metadata.uid is required''] else [])"

definition class_mismatch :: "string \<Rightarrow> int \<Rightarrow> pydict \<Rightarrow> string list" where
  "class_mismatch key n record =
     (let v = py_get record key in
      if v \<noteq> PNone \<and> \<not> py_eq v (PInt n) then [key @ '' must be '' @ str_of_int n @ '', got '' @ py_repr v] else [])"

definition check_class :: "int \<Rightarrow> int \<Rightarrow> pydict \<Rightarrow> string list" where
  "check_class class_uid category_uid record =
     class_mismatch ''class_uid'' class_uid record @ class_mismatch ''category_uid'' category_uid record"

definition check_enum :: "string \<Rightarrow> id_table \<Rightarrow> string \<Rightarrow> pydict \<Rightarrow> string list res" where
  "check_enum field allowed label record =
     (let v = py_get record field in
      if v = PNone then Inr []
      else bind_res (lookup_id allowed v) (\<lambda>n.
        Inr (if n = None then [field @ '' '' @ py_repr v @ '' is not a '' @ label] else [])))"

definition check_enums :: "(string \<times> id_table \<times> string) list \<Rightarrow> pydict \<Rightarrow> string list res" where
  "check_enums enums record =
     bind_res (map_res (\<lambda>(f, t, l). check_enum f t l record) enums) (\<lambda>ps. Inr (concat ps))"

section \<open>The classes\<close>

record class_shape =
  cs_class_uid :: int
  cs_category_uid :: int
  cs_scalars :: "string list"
  cs_objects :: "string list"
  cs_recommended :: "string list"
  cs_enums :: "(string \<times> id_table \<times> string) list"

definition base_scalars :: "string list" where
  "base_scalars = [''class_uid'', ''category_uid'', ''activity_id'', ''type_uid'', ''severity_id'', ''time'']"

definition shape_problems :: "class_shape \<Rightarrow> pydict \<Rightarrow> string list res" where
  "shape_problems cs record =
     bind_res (check_enums (cs_enums cs) record) (\<lambda>ps.
       Inr (check_required (cs_scalars cs) (cs_objects cs) record
            @ check_class (cs_class_uid cs) (cs_category_uid cs) record @ ps))"

subsection \<open>Network activity\<close>

definition action_ids :: id_table where
  "action_ids = [(0, ''Unknown''), (1, ''Allowed''), (2, ''Denied''), (99, ''Other'')]"

definition network_shape :: class_shape where
  "network_shape =
     \<lparr>cs_class_uid = 4001, cs_category_uid = 4, cs_scalars = base_scalars, cs_objects = [''metadata'', ''src_endpoint''],
      cs_recommended = [''dst_endpoint'', ''connection_info'', ''traffic'', ''firewall_rule'', ''action'', ''action_id'',
        ''disposition'', ''status_id'', ''severity'', ''activity_name'', ''type_name'', ''unmapped''],
      cs_enums = [(''activity_id'', network_activity_ids, ''Network Activity value''), (''action_id'', action_ids, ''valid action'')]\<rparr>"

definition build_connection_info :: "pyval \<Rightarrow> pyval \<Rightarrow> pyval \<Rightarrow> pyval \<Rightarrow> pyval \<Rightarrow> pyval \<Rightarrow> pyval \<Rightarrow> pyval \<Rightarrow> pydict" where
  "build_connection_info uid direction direction_id protocol_name protocol_num tcp_flags boundary boundary_id = strip_members
     [(''uid'', uid), (''direction'', direction), (''direction_id'', direction_id), (''protocol_name'', protocol_name),
      (''protocol_num'', protocol_num), (''tcp_flags'', tcp_flags), (''boundary'', boundary), (''boundary_id'', boundary_id)]"

definition build_traffic :: "pyval \<Rightarrow> pyval \<Rightarrow> pyval \<Rightarrow> pyval \<Rightarrow> pyval \<Rightarrow> pyval \<Rightarrow> pydict" where
  "build_traffic total_bytes bytes_in bytes_out packets packets_in packets_out = strip_members
     [(''bytes'', total_bytes), (''bytes_in'', bytes_in), (''bytes_out'', bytes_out), (''packets'', packets),
      (''packets_in'', packets_in), (''packets_out'', packets_out)]"

definition build_firewall_rule :: "pyval \<Rightarrow> pyval \<Rightarrow> pydict" where
  "build_firewall_rule uid name = strip_members [(''uid'', uid), (''name'', name)]"

text \<open>The caption of an id that is \<^verbatim>\<open>None\<close> or not in the table is \<^verbatim>\<open>None\<close>.\<close>

definition caption :: "id_table \<Rightarrow> pyval \<Rightarrow> pyval" where
  "caption table v = (case int_value v of None \<Rightarrow> PNone | Some i \<Rightarrow> (case map_of table i of None \<Rightarrow> PNone | Some n \<Rightarrow> PStr n))"

definition new_network_record ::
  "int \<Rightarrow> int \<Rightarrow> int \<Rightarrow> pydict \<Rightarrow> pydict \<Rightarrow> pyval \<Rightarrow> pyval \<Rightarrow> pyval \<Rightarrow> pyval \<Rightarrow> pyval \<Rightarrow> pyval \<Rightarrow> pyval \<Rightarrow> pyval \<Rightarrow> pydict" where
  "new_network_record activity_id severity_id time metadata src dst connection_info traffic firewall_rule action_id
       disposition status_id unmapped = strip_members
     [(''class_uid'', PInt 4001), (''category_uid'', PInt 4), (''activity_id'', PInt activity_id),
      (''activity_name'', caption network_activity_ids (PInt activity_id)), (''severity_id'', PInt severity_id),
      (''time'', PInt time), (''metadata'', PDict metadata), (''src_endpoint'', PDict src), (''dst_endpoint'', dst),
      (''connection_info'', connection_info), (''traffic'', traffic), (''firewall_rule'', firewall_rule),
      (''action_id'', action_id), (''action'', caption action_ids action_id), (''disposition'', disposition),
      (''status_id'', status_id), (''unmapped'', unmapped)]"

subsection \<open>HTTP activity\<close>

definition method_activity_ids :: "(string \<times> int) list" where
  "method_activity_ids = [(''CONNECT'', 1), (''DELETE'', 2), (''GET'', 3), (''HEAD'', 4), (''OPTIONS'', 5), (''POST'', 6),
     (''PUT'', 7), (''TRACE'', 8)]"

definition upper_ascii :: "string \<Rightarrow> string" where
  "upper_ascii s = map (\<lambda>c. if 97 \<le> code c \<and> code c \<le> 122 then ch (code c - 32) else c) s"

definition activity_id_for_method :: "string option \<Rightarrow> int" where
  "activity_id_for_method m =
     (case map_of method_activity_ids (upper_ascii (py_strip (case m of None \<Rightarrow> [] | Some s \<Rightarrow> s))) of
        None \<Rightarrow> 99 | Some i \<Rightarrow> i)"

definition http_shape :: class_shape where
  "http_shape =
     \<lparr>cs_class_uid = 4002, cs_category_uid = 4, cs_scalars = base_scalars,
      cs_objects = [''metadata'', ''http_request'', ''src_endpoint''],
      cs_recommended = [''http_response'', ''dst_endpoint'', ''status_id'', ''severity'', ''activity_name'', ''type_name'',
        ''unmapped''],
      cs_enums = [(''activity_id'', http_activity_ids, ''HTTP Activity value'')]\<rparr>"

definition build_url :: "pyval \<Rightarrow> pyval \<Rightarrow> pyval \<Rightarrow> pyval \<Rightarrow> pyval \<Rightarrow> pyval \<Rightarrow> pydict" where
  "build_url url_text scheme hostname port path query_string = strip_members
     [(''url_string'', url_text), (''scheme'', scheme), (''hostname'', hostname), (''port'', port), (''path'', path),
      (''query_string'', query_string)]"

definition build_http_request :: "pyval \<Rightarrow> pyval \<Rightarrow> pyval \<Rightarrow> pyval \<Rightarrow> pyval \<Rightarrow> pydict" where
  "build_http_request url http_method user_agent referrer version = strip_members
     [(''url'', url), (''http_method'', http_method), (''user_agent'', user_agent), (''referrer'', referrer), (''version'', version)]"

definition build_http_response :: "pyval \<Rightarrow> pyval \<Rightarrow> pydict" where
  "build_http_response status len = strip_members [(''code'', status), (''length'', len)]"

definition new_http_record ::
  "int \<Rightarrow> int \<Rightarrow> int \<Rightarrow> pydict \<Rightarrow> pydict \<Rightarrow> pydict \<Rightarrow> pyval \<Rightarrow> pyval \<Rightarrow> pyval \<Rightarrow> pyval \<Rightarrow> pydict" where
  "new_http_record activity_id severity_id time metadata http_request src dst http_response status_id unmapped = strip_members
     [(''class_uid'', PInt 4002), (''category_uid'', PInt 4), (''activity_id'', PInt activity_id),
      (''activity_name'', caption http_activity_ids (PInt activity_id)), (''severity_id'', PInt severity_id),
      (''time'', PInt time), (''metadata'', PDict metadata), (''http_request'', PDict http_request),
      (''http_response'', http_response), (''src_endpoint'', PDict src), (''dst_endpoint'', dst),
      (''status_id'', status_id), (''unmapped'', unmapped)]"

subsection \<open>DNS activity\<close>

definition rcode_ids :: id_table where
  "rcode_ids = [(0, ''NoError''), (1, ''FormError''), (2, ''ServError''), (3, ''NXDomain''), (4, ''NotImp''), (5, ''Refused''),
     (6, ''YXDomain''), (7, ''YXRRSet''), (8, ''NXRRSet''), (9, ''NotAuth''), (10, ''NotZone''), (99, ''Other'')]"

definition dns_shape :: class_shape where
  "dns_shape =
     \<lparr>cs_class_uid = 4003, cs_category_uid = 4, cs_scalars = base_scalars, cs_objects = [''metadata'', ''query'', ''src_endpoint''],
      cs_recommended = [''dst_endpoint'', ''answers'', ''rcode'', ''rcode_id'', ''response_time'', ''status_id'', ''severity'',
        ''activity_name'', ''type_name'', ''unmapped''],
      cs_enums = [(''activity_id'', dns_activity_ids, ''DNS Activity value''), (''rcode_id'', rcode_ids, ''valid rcode_id'')]\<rparr>"

definition build_query :: "pyval \<Rightarrow> pyval \<Rightarrow> pyval \<Rightarrow> pydict" where
  "build_query hostname qtype qclass = strip_members [(''hostname'', hostname), (''type'', qtype), (''class'', qclass)]"

definition build_answer :: "pyval \<Rightarrow> pyval \<Rightarrow> pyval \<Rightarrow> pyval \<Rightarrow> pydict" where
  "build_answer rdata rtype rclass ttl = strip_members [(''rdata'', rdata), (''type'', rtype), (''class'', rclass), (''ttl'', ttl)]"

definition new_dns_record ::
  "int \<Rightarrow> int \<Rightarrow> int \<Rightarrow> pydict \<Rightarrow> pydict \<Rightarrow> pydict \<Rightarrow> pyval \<Rightarrow> pyval \<Rightarrow> pyval \<Rightarrow> pyval \<Rightarrow> pyval \<Rightarrow> pyval \<Rightarrow> pydict" where
  "new_dns_record activity_id severity_id time metadata query src dst answers rcode_id response_time status_id unmapped = strip_members
     [(''class_uid'', PInt 4003), (''category_uid'', PInt 4), (''activity_id'', PInt activity_id),
      (''activity_name'', caption dns_activity_ids (PInt activity_id)), (''severity_id'', PInt severity_id),
      (''time'', PInt time), (''metadata'', PDict metadata), (''query'', PDict query), (''answers'', answers),
      (''rcode_id'', rcode_id), (''rcode'', caption rcode_ids rcode_id), (''response_time'', response_time),
      (''src_endpoint'', PDict src), (''dst_endpoint'', dst), (''status_id'', status_id), (''unmapped'', unmapped)]"

subsection \<open>Detection finding\<close>

definition confidence_ids :: id_table where
  "confidence_ids = [(0, ''Unknown''), (1, ''Low''), (2, ''Medium''), (3, ''High''), (99, ''Other'')]"

definition risk_level_ids :: id_table where
  "risk_level_ids = [(0, ''Info''), (1, ''Low''), (2, ''Medium''), (3, ''High''), (4, ''Critical'')]"

definition finding_status_ids :: id_table where
  "finding_status_ids = [(0, ''Unknown''), (1, ''New''), (2, ''In Progress''), (3, ''Suppressed''), (4, ''Resolved''), (99, ''Other'')]"

definition finding_shape :: class_shape where
  "finding_shape =
     \<lparr>cs_class_uid = 2004, cs_category_uid = 2, cs_scalars = base_scalars, cs_objects = [''metadata'', ''finding_info''],
      cs_recommended = [''src_endpoint'', ''dst_endpoint'', ''confidence_id'', ''confidence'', ''risk_level_id'', ''risk_level'',
        ''evidences'', ''status_id'', ''severity'', ''activity_name'', ''type_name'', ''unmapped''],
      cs_enums = [(''activity_id'', finding_activity_ids, ''Detection Finding value''),
        (''confidence_id'', confidence_ids, ''valid confidence_id''), (''risk_level_id'', risk_level_ids, ''valid risk_level_id''),
        (''status_id'', finding_status_ids, ''valid status_id'')]\<rparr>"

definition build_analytic :: "pyval \<Rightarrow> pyval \<Rightarrow> pyval \<Rightarrow> pyval \<Rightarrow> pydict" where
  "build_analytic name atype type_id uid = strip_members [(''name'', name), (''type'', atype), (''type_id'', type_id), (''uid'', uid)]"

definition build_finding_info :: "string \<Rightarrow> pyval \<Rightarrow> pyval \<Rightarrow> pyval \<Rightarrow> pyval \<Rightarrow> pydict" where
  "build_finding_info uid title desc types analytic = strip_members
     [(''uid'', PStr uid), (''title'', title), (''desc'', desc), (''types'', types), (''analytic'', analytic)]"

definition new_finding_record ::
  "int \<Rightarrow> int \<Rightarrow> int \<Rightarrow> pydict \<Rightarrow> pydict \<Rightarrow> pyval \<Rightarrow> pyval \<Rightarrow> pyval \<Rightarrow> pyval \<Rightarrow> pyval \<Rightarrow> pyval \<Rightarrow> pyval \<Rightarrow> pydict" where
  "new_finding_record activity_id severity_id time metadata finding_info confidence_id risk_level_id evidences src dst
       status_id unmapped = strip_members
     [(''class_uid'', PInt 2004), (''category_uid'', PInt 2), (''activity_id'', PInt activity_id),
      (''activity_name'', caption finding_activity_ids (PInt activity_id)), (''severity_id'', PInt severity_id),
      (''time'', PInt time), (''metadata'', PDict metadata), (''finding_info'', PDict finding_info),
      (''confidence_id'', confidence_id), (''confidence'', caption confidence_ids confidence_id),
      (''risk_level_id'', risk_level_id), (''risk_level'', caption risk_level_ids risk_level_id),
      (''evidences'', evidences), (''src_endpoint'', src), (''dst_endpoint'', dst), (''status_id'', status_id),
      (''unmapped'', unmapped)]"

definition finding_problems :: "pydict \<Rightarrow> string list res" where
  "finding_problems record =
     bind_res (shape_problems finding_shape record) (\<lambda>ps.
       Inr (ps @ (if filled_dict (py_get record ''finding_info'')
                     \<and> \<not> py_truth (py_get (dict_of (py_get record ''finding_info'')) ''uid'')
                  then [''finding_info.uid is required''] else [])))"

subsection \<open>The registry of classes\<close>

definition class_registry :: "(int \<times> class_shape \<times> (pydict \<Rightarrow> string list res)) list" where
  "class_registry =
     [(4001, network_shape, shape_problems network_shape), (2004, finding_shape, finding_problems),
      (4002, http_shape, shape_problems http_shape), (4003, dns_shape, shape_problems dns_shape)]"

definition class_of :: "pydict \<Rightarrow> (class_shape \<times> (pydict \<Rightarrow> string list res)) option" where
  "class_of record = Option.bind (int_value (py_get record ''class_uid'')) (map_of class_registry)"

definition unknown_class :: "pydict \<Rightarrow> string" where
  "unknown_class record = ''unknown or missing class_uid: '' @ py_repr (py_get record ''class_uid'')"

definition ocsf_validate :: "pydict \<Rightarrow> string list res" where
  "ocsf_validate record =
     (case class_of record of None \<Rightarrow> Inr [unknown_class record] | Some (_, problems) \<Rightarrow> problems record)"

end
