(* ===== verification/Validator.thy ===== *)
theory Validator
  imports Ocsf
begin

text \<open>
  The validation of finalised records and the completeness score (\<^verbatim>\<open>ulpf/normalize/validator.py\<close>). The score
  is carried as the fraction before its rounding to a float. Observing it in the histogram of the metrics is
  left out.
\<close>

section \<open>The checks\<close>

record validation_result =
  vr_valid :: bool
  vr_errors :: "string list"
  vr_warnings :: "string list"
  vr_completeness :: "nat \<times> nat"

definition finish :: "string list \<Rightarrow> string list \<Rightarrow> nat \<times> nat \<Rightarrow> validation_result" where
  "finish errors warnings completeness =
     \<lparr>vr_valid = (errors = []), vr_errors = errors, vr_warnings = warnings, vr_completeness = completeness\<rparr>"

definition check_type_uid :: "pydict \<Rightarrow> string list" where
  "check_type_uid record =
     (case (int_value (py_get record ''class_uid''), int_value (py_get record ''activity_id'')) of
        (Some c, Some a) \<Rightarrow>
          (let v = py_get record ''type_uid'' in
           if v = PNone \<or> py_eq v (PInt (c * 100 + a)) then []
           else [''type_uid '' @ py_repr v @ '' should be '' @ str_of_int (c * 100 + a)])
      | _ \<Rightarrow> [])"

definition check_time :: "pydict \<Rightarrow> string list" where
  "check_time record =
     (case py_get record ''time'' of
        PNone \<Rightarrow> []
      | PInt t \<Rightarrow> if t \<le> 0 then [''time must be a positive int, got '' @ str_of_int t] else []
      | v \<Rightarrow> [''time must be a positive int, got '' @ py_repr v])"

text \<open>\<^verbatim>\<open>_collect\<close>: the scalars stored under \<open>key\<close> anywhere in the record.\<close>

definition is_container :: "pyval \<Rightarrow> bool" where
  "is_container v = (case v of PDict _ \<Rightarrow> True | PList _ \<Rightarrow> True | _ \<Rightarrow> False)"

fun collect :: "string \<Rightarrow> pyval \<Rightarrow> pyval list"
  and collect_in_members :: "string \<Rightarrow> pydict \<Rightarrow> pyval list"
  and collect_in_items :: "string \<Rightarrow> pyval list \<Rightarrow> pyval list" where
  "collect key (PDict d) = collect_in_members key d"
| "collect key (PList xs) = collect_in_items key xs"
| "collect key _ = []"
| "collect_in_members key [] = []"
| "collect_in_members key ((k, v) # d) =
     (if k = key \<and> \<not> is_container v then [v] else collect key v) @ collect_in_members key d"
| "collect_in_items key [] = []"
| "collect_in_items key (x # xs) = collect key x @ collect_in_items key xs"

definition is_ip_value :: "pyval \<Rightarrow> bool" where
  "is_ip_value v = (case ip_address (py_strip (py_str v)) of Inr _ \<Rightarrow> True | Inl _ \<Rightarrow> False)"

definition check_ips :: "pydict \<Rightarrow> string list" where
  "check_ips record =
     map (\<lambda>v. ''invalid IP address: '' @ py_repr v) (filter (\<lambda>v. \<not> is_ip_value v) (collect ''ip'' (PDict record)))"

text \<open>
  \<^verbatim>\<open>str.isdigit\<close> also accepts the superscripts (of Latin-1: two, three and one), which \<^verbatim>\<open>int()\<close> does not read.
\<close>

definition is_digit :: "char \<Rightarrow> bool" where
  "is_digit c \<longleftrightarrow> is_dec c \<or> code c \<in> {178, 179, 185}"

definition as_port :: "pyval \<Rightarrow> int option res" where
  "as_port v =
     (case v of
        PInt i \<Rightarrow> Inr (Some i)
      | PStr s \<Rightarrow> if s \<noteq> [] \<and> list_all is_digit s
                 then (if list_all is_dec s then Inr (Some (int (nat_of_dec s))) else Inl (ValueError ''invalid literal for int()''))
                 else Inr None
      | _ \<Rightarrow> Inr None)"

definition port_problem :: "pyval \<Rightarrow> string list res" where
  "port_problem v =
     bind_res (as_port v) (\<lambda>p. Inr (case p of
        Some n \<Rightarrow> if 0 \<le> n \<and> n \<le> 65535 then [] else [''port out of range 0-65535: '' @ py_repr v]
      | None \<Rightarrow> [''port out of range 0-65535: '' @ py_repr v]))"

definition check_ports :: "pydict \<Rightarrow> string list res" where
  "check_ports record =
     bind_res (map_res port_problem (collect ''port'' (PDict record))) (\<lambda>ps. Inr (concat ps))"

definition collect_warnings :: "pydict \<Rightarrow> string list" where
  "collect_warnings record =
     (if py_truth (py_get (dict_of (py_get record ''metadata'')) ''version'') then [] else [''metadata.version is not set''])
     @ (if py_eq (py_get record ''activity_id'') (PInt 0) then [''activity_id is 0 (Unknown)''] else [])
     @ (if py_eq (py_get record ''severity_id'') (PInt 0) then [''severity_id is 0 (Unknown)''] else [])"

definition is_populated :: "pyval \<Rightarrow> bool" where
  "is_populated v = (case v of PNone \<Rightarrow> False | PStr s \<Rightarrow> s \<noteq> [] | PDict d \<Rightarrow> d \<noteq> [] | PList xs \<Rightarrow> xs \<noteq> [] | _ \<Rightarrow> True)"

text \<open>\<^verbatim>\<open>dict.fromkeys\<close>: the first occurrence of each attribute, in order.\<close>

definition first_occurrences :: "'a list \<Rightarrow> 'a list" where
  "first_occurrences xs = rev (remdups (rev xs))"

definition completeness :: "class_shape \<Rightarrow> pydict \<Rightarrow> nat \<times> nat" where
  "completeness cs record =
     (let attrs = first_occurrences (cs_scalars cs @ cs_objects cs @ cs_recommended cs) in
      if attrs = [] then (0, 1) else (length (filter (\<lambda>a. is_populated (py_get record a)) attrs), length attrs))"

definition validate :: "pydict \<Rightarrow> validation_result res" where
  "validate record =
     (case class_of record of
        None \<Rightarrow> Inr (finish [unknown_class record] [] (0, 1))
      | Some (cs, problems) \<Rightarrow>
          bind_res (problems record) (\<lambda>ps.
          let errors = ps @ check_type_uid record @ check_time record @ check_ips record in
          bind_res (check_ports record) (\<lambda>ports.
            Inr (finish (errors @ ports) (collect_warnings record) (completeness cs record)))))"

section \<open>What finalisation gives\<close>

lemma py_get_Cons: "py_get ((k, v) # d) j = (if k = j then v else py_get d j)"
  by (simp add: py_get_def)

lemma py_get_Nil [simp]: "py_get [] k = PNone"
  by (simp add: py_get_def)

lemma py_get_dict_set [simp]: "py_get (dict_set k v d) j = (if j = k then v else py_get d j)"
  by (simp add: py_get_def)

lemma strip_none_eq_None [simp]: "strip_none v = PNone \<longleftrightarrow> v = PNone"
  by (cases v) simp_all

lemma py_get_strip [simp]: "dict_ok d \<Longrightarrow> py_get (strip_members d) k = strip_none (py_get d k)"
proof (induction d)
  case (Cons p d)
  obtain j v where p: "p = (j, v)" by (cases p)
  have ok: "dict_ok d" and j: "j \<notin> fst ` set d" using Cons.prems by (simp_all add: p dict_ok_def)
  have "py_get d j = PNone" using j by (simp add: py_get_def map_of_eq_None_iff [THEN iffD2])
  then show ?case using Cons.IH [OF ok] by (auto simp: p py_get_Cons)
qed simp

lemma strip_none_scalar: "\<not> is_container v \<Longrightarrow> strip_none v = v"
  by (cases v) (simp_all add: is_container_def)

lemma int_value_strip [simp]: "int_value (strip_none v) = int_value v"
  by (cases v) (simp_all add: int_value_def)

lemma int_value_None [simp]: "int_value PNone = None"
  by (simp add: int_value_def)

lemma class_of_cases:
  assumes "class_of r = Some (cs, problems)"
  obtains "cs_scalars cs = base_scalars" "''metadata'' \<in> set (cs_objects cs)"
    "\<And>ps. problems r = Inr ps \<Longrightarrow> \<exists>qs. ps = check_required (cs_scalars cs) (cs_objects cs) r @ qs"
proof -
  obtain i where "map_of class_registry i = Some (cs, problems)"
    using assms by (auto simp: class_of_def bind_eq_Some_conv)
  from map_of_SomeD [OF this] have "(cs, problems) \<in> snd ` set class_registry" by force
  then show ?thesis
    by (intro that)
      (auto simp: class_registry_def network_shape_def http_shape_def dns_shape_def finding_shape_def shape_problems_def
        finding_problems_def bind_res_Inr_iff)
qed

text \<open>What the verdict on a record promises to whoever reads it afterwards.\<close>

definition port_in_range :: "pyval \<Rightarrow> bool" where
  "port_in_range v = (case as_port v of Inr (Some n) \<Rightarrow> 0 \<le> n \<and> n \<le> 65535 | _ \<Rightarrow> False)"

definition record_sound :: "pydict \<Rightarrow> bool" where
  "record_sound r \<longleftrightarrow> class_of r \<noteq> None \<and> list_all (\<lambda>a. py_get r a \<noteq> PNone) base_scalars
     \<and> py_truth (py_get (dict_of (py_get r ''metadata'')) ''uid'')
     \<and> (case py_get r ''time'' of PInt t \<Rightarrow> 0 < t | _ \<Rightarrow> False) \<and> check_type_uid r = []
     \<and> list_all is_ip_value (collect ''ip'' (PDict r)) \<and> list_all port_in_range (collect ''port'' (PDict r))"

lemma port_problem_none: "port_problem v = Inr [] \<longleftrightarrow> port_in_range v"
  by (auto simp: port_problem_def port_in_range_def bind_res_def split: sum.splits option.splits)

lemma check_ports_none: "check_ports r = Inr [] \<longleftrightarrow> list_all port_in_range (collect ''port'' (PDict r))"
proof -
  have "(\<exists>ps. map_res port_problem vs = Inr ps \<and> concat ps = []) \<longleftrightarrow> list_all port_in_range vs" for vs
    by (induction vs) (auto simp: bind_res_Inr_iff port_problem_none [symmetric])
  then show ?thesis by (auto simp: check_ports_def bind_res_Inr_iff simp del: collect.simps concat_eq_Nil_conv)
qed

lemma filter_Nil_list_all: "filter (\<lambda>x. \<not> P x) xs = [] \<longleftrightarrow> list_all P xs"
  by (simp add: filter_empty_conv list_all_iff)

lemma check_required_Nil:
  assumes "check_required scalars objects r = []" and "''metadata'' \<in> set objects"
  shows "list_all (\<lambda>a. py_get r a \<noteq> PNone) scalars" "py_truth (py_get (dict_of (py_get r ''metadata'')) ''uid'')"
proof -
  have "filter (\<lambda>a. \<not> filled_dict (py_get r a)) objects = []" using assms(1) by (simp add: check_required_def)
  then have "filled_dict (py_get r ''metadata'')" using assms(2) by (auto simp: filter_empty_conv)
  then show "py_truth (py_get (dict_of (py_get r ''metadata'')) ''uid'')"
    using assms by (simp add: check_required_def split: if_splits)
  show "list_all (\<lambda>a. py_get r a \<noteq> PNone) scalars"
    using assms(1) by (simp add: check_required_def filter_empty_conv list_all_iff)
qed

text \<open>
  C38. A record the validator passes is one the later stages can rely on: its class is known, every scalar of
  the base event is there, the metadata name the event, the time is a positive integer, the type agrees with
  class and activity, every address parses and every port is in range.
\<close>

theorem valid_record_sound:
  assumes "validate r = Inr res" and "vr_valid res"
  shows "record_sound r"
proof (cases "class_of r")
  case None
  then show ?thesis using assms by (auto simp: validate_def finish_def)
next
  case (Some c)
  obtain cs problems where c: "c = (cs, problems)" by (cases c)
  from class_of_cases [OF Some [unfolded c]] have cs: "cs_scalars cs = base_scalars" "''metadata'' \<in> set (cs_objects cs)"
    "\<And>ps. problems r = Inr ps \<Longrightarrow> \<exists>qs. ps = check_required (cs_scalars cs) (cs_objects cs) r @ qs"
    by blast+
  from assms obtain ps where ps: "problems r = Inr ps" "ps = []" "check_type_uid r = []" "check_time r = []" "check_ips r = []"
      "check_ports r = Inr []"
    by (auto simp: validate_def Some c finish_def bind_res_Inr_iff)
  have req: "check_required (cs_scalars cs) (cs_objects cs) r = []" using cs(3) [OF ps(1)] ps(2) by auto
  note scalars = check_required_Nil [OF req cs(2)]
  have "py_get r ''time'' \<noteq> PNone" using scalars(1) by (simp add: cs(1) base_scalars_def)
  then have "case py_get r ''time'' of PInt t \<Rightarrow> 0 < t | _ \<Rightarrow> False"
    using ps(4) by (cases "py_get r ''time''") (auto simp: check_time_def split: if_splits)
  moreover have "list_all is_ip_value (collect ''ip'' (PDict r))"
    using ps(5) by (simp add: check_ips_def filter_Nil_list_all del: collect.simps)
  ultimately show ?thesis
    using scalars ps(3) check_ports_none [of r] ps(6) Some by (simp add: record_sound_def cs(1) del: collect.simps)
qed

definition demo_record :: pydict where
  "demo_record = [(''class_uid'', PInt 4001), (''category_uid'', PInt 4), (''activity_id'', PInt 6), (''type_uid'', PInt 400106),
     (''severity_id'', PInt 1), (''time'', PInt 1700000000000000000), (''metadata'', PDict [(''uid'', PStr ''e1'')]),
     (''src_endpoint'', PDict [(''ip'', PStr ''10.0.0.1''), (''port'', PStr ''443'')])]"

lemma demo_ip: "is_ip_value (PStr ''10.0.0.1'')"
proof -
  have "v4_text 167772161 = ''10.0.0.1''"
    by (simp add: v4_text_def octets_of_def dec_digits.simps digit_char_def ch_def) code_simp
  then have "ip_address ''10.0.0.1'' = Inr (V4 167772161)" using ip_address_text [of "V4 167772161"] by simp
  moreover have "py_strip ''10.0.0.1'' = ''10.0.0.1''" by code_simp
  ultimately show ?thesis by (simp add: is_ip_value_def)
qed

lemma demo_valid: "\<exists>res. validate demo_record = Inr res \<and> vr_valid res"
proof -
  have "as_port (PStr ''443'') = Inr (Some 443)" by (simp add: as_port_def is_digit_def is_dec_def nat_of_dec_def)
  then have "port_in_range (PStr ''443'')" by (simp add: port_in_range_def)
  then have "check_ports demo_record = Inr []" "check_ips demo_record = []"
    using demo_ip by (simp_all add: check_ports_none check_ips_def demo_record_def is_container_def del: is_ip_value_def)
  then show ?thesis
    by (simp add: validate_def class_of_def demo_record_def py_get_def class_registry_def shape_problems_def network_shape_def
        check_enums_def check_enum_def lookup_id_def num_value_def hashable_def network_activity_ids_def check_required_def
        base_scalars_def filled_dict_def check_class_def class_mismatch_def check_type_uid_def check_time_def finish_def int_value_def dict_of_def)
qed

theorem valid_record_sound_witness: "record_sound demo_record"
proof -
  obtain res where "validate demo_record = Inr res" "vr_valid res" using demo_valid by blast
  then show ?thesis by (rule valid_record_sound)
qed

text \<open>
  The completeness score is a fraction in the unit interval, whatever the record: the denominator is
  positive and the numerator does not exceed it.
\<close>

theorem completeness_bounds:
  "list_all (\<lambda>(_, cs, _). fst (completeness cs r) \<le> snd (completeness cs r) \<and> 0 < snd (completeness cs r)) class_registry"
  by (simp add: list_all_iff completeness_def Let_def le_less_trans [OF length_filter_le] length_greater_0_conv split: prod.splits)

text \<open>A port of superscript digits makes the validator raise instead of reporting the port.\<close>

lemma superscript_port_raises:
  "validate (demo_record @ [(''dst_endpoint'', PDict [(''port'', PStr [CHR 0xB2])])]) = Inl (ValueError ''invalid literal for int()'')"
proof -
  let ?r = "demo_record @ [(''dst_endpoint'', PDict [(''port'', PStr [CHR 0xB2])])]"
  have "as_port (PStr [CHR 0xB2]) = Inl (ValueError ''invalid literal for int()'')"
    by (simp add: as_port_def is_digit_def is_dec_def)
  then have "port_problem (PStr [CHR 0xB2]) = Inl (ValueError ''invalid literal for int()'')" by (simp add: port_problem_def)
  moreover have "as_port (PStr ''443'') = Inr (Some 443)" by (simp add: as_port_def is_digit_def is_dec_def nat_of_dec_def)
  then have "port_problem (PStr ''443'') = Inr []" by (simp add: port_problem_def)
  moreover have "collect ''port'' (PDict ?r) = [PStr ''443'', PStr [CHR 0xB2]]" by (simp add: demo_record_def is_container_def)
  ultimately have "check_ports ?r = Inl (ValueError ''invalid literal for int()'')" by (simp add: check_ports_def)
  then show ?thesis
    by (simp add: validate_def class_of_def demo_record_def py_get_def class_registry_def shape_problems_def network_shape_def
        check_enums_def check_enum_def lookup_id_def num_value_def hashable_def network_activity_ids_def int_value_def)
qed

section \<open>Finalisation\<close>

lemma fill_name_get: "fill_name table key target d = Inr e \<Longrightarrow> j \<noteq> target \<Longrightarrow> py_get e j = py_get d j"
  by (auto simp: fill_name_def bind_res_Inr_iff split: option.splits)

lemma fill_name_ok: "fill_name table key target d = Inr e \<Longrightarrow> dict_ok d \<Longrightarrow> dict_ok e"
  by (auto simp: fill_name_def bind_res_Inr_iff split: option.splits)

lemma fill_class_get:
  assumes "fill_class d = Inr e" and "j \<notin> {''class_name'', ''type_uid'', ''activity_name'', ''type_name''}"
  shows "py_get e j = py_get d j"
  using assms
  by (auto simp: fill_class_def fill_activity_def Let_def bind_res_Inr_iff split: option.splits if_splits)

lemma fill_class_ok: "fill_class d = Inr e \<Longrightarrow> dict_ok d \<Longrightarrow> dict_ok e"
  by (auto simp: fill_class_def fill_activity_def Let_def bind_res_Inr_iff split: option.splits if_splits)

lemma fill_class_type:
  assumes "fill_class d = Inr e" and "int_value (py_get e ''class_uid'') = Some c" and "int_value (py_get e ''activity_id'') = Some a"
  shows "py_get e ''type_uid'' = PInt (type_uid c a)"
proof -
  have "int_value (py_get d ''class_uid'') = Some c" "int_value (py_get d ''activity_id'') = Some a"
    using assms fill_class_get [OF assms(1)] by simp_all
  then show ?thesis
    using assms(1) by (auto simp: fill_class_def fill_activity_def Let_def bind_res_Inr_iff split: option.splits if_splits)
qed

lemma finalize_steps:
  assumes "finalize_record r = Inr d" and "dict_ok r"
  obtains d1 d2 d3 where "fill_class r = Inr d1" "fill_name categories ''category_uid'' ''category_name'' d1 = Inr d2"
    "fill_name severity_ids ''severity_id'' ''severity'' d2 = Inr d3" "d = strip_members d3"
    "dict_ok d1" "dict_ok d2" "dict_ok d3"
  using assms fill_class_ok fill_name_ok unfolding finalize_record_def bind_res_Inr_iff by blast

text \<open>
  Finalisation and validation agree on the type: the validator never complains about the type of a
  finalised record, whatever type the record had before.
\<close>

theorem finalized_type_agrees:
  assumes "finalize_record r = Inr d" and "dict_ok r"
  shows "check_type_uid d = []"
proof -
  obtain d1 d2 d3 where d: "fill_class r = Inr d1" "fill_name categories ''category_uid'' ''category_name'' d1 = Inr d2"
      "fill_name severity_ids ''severity_id'' ''severity'' d2 = Inr d3" "d = strip_members d3" "dict_ok d3"
    using finalize_steps [OF assms] by metis
  have "py_get d j = strip_none (py_get d1 j)" if "j \<noteq> ''category_name''" "j \<noteq> ''severity''" for j
    using that d(4,5) fill_name_get [OF d(2), of j] fill_name_get [OF d(3), of j] by simp
  then show ?thesis
    using fill_class_type [OF d(1)] by (auto simp: check_type_uid_def type_uid_def num_value_def split: option.splits)
qed

theorem finalized_type_agrees_witness:
  "check_type_uid (demo_record @ [(''class_name'', PStr ''Network Activity''), (''activity_name'', PStr ''Traffic''),
      (''type_name'', PStr ''Network Activity: Traffic''), (''category_name'', PStr ''Network Activity''),
      (''severity'', PStr ''Informational'')]) = []"
proof (rule finalized_type_agrees)
  show "finalize_record demo_record = Inr (demo_record @ [(''class_name'', PStr ''Network Activity''), (''activity_name'', PStr ''Traffic''),
      (''type_name'', PStr ''Network Activity: Traffic''), (''category_name'', PStr ''Network Activity''),
      (''severity'', PStr ''Informational'')])"
    by (simp add: finalize_record_def fill_class_def fill_activity_def fill_name_def demo_record_def py_get_def lookup_id_def
        hashable_def num_value_def class_names_def categories_def severity_ids_def int_value_def activity_names_def
        network_activity_ids_def type_uid_def Let_def)
  show "dict_ok demo_record" by (simp add: demo_record_def dict_ok_def)
qed

end
