(* ===== verification/Mapper.thy ===== *)
theory Mapper
  imports Validator
begin

text \<open>
  The field mapper of \<^verbatim>\<open>ulpf/normalize/mapper.py\<close>: from the flat fields of a parse to the nested OCSF record
  of a source definition. Arguments are the parts of time parsing outside the sources (\<open>time_env\<close>) and
  \<^verbatim>\<open>float(text)\<close>, which gives the shortest literal of the number read. The Python code stores the mapping and
  list values of a definition (constants, defaults, values of a map) by reference; here a value is copied,
  which is the same unless such a constant is a mapping that a later target writes into
  (theory \<open>Mapper_Sharing\<close>).
\<close>

section \<open>Coercion\<close>

record coerce_env =
  ce_time :: time_env
  ce_float :: "string \<Rightarrow> string option"

definition is_present :: "pyval \<Rightarrow> bool" where
  "is_present v \<longleftrightarrow> v \<noteq> PNone \<and> v \<noteq> PStr []"

text \<open>\<^verbatim>\<open>float(raw)\<close>; an integer beyond the range of the floats raises \<^verbatim>\<open>OverflowError\<close>.\<close>

definition py_float :: "coerce_env \<Rightarrow> pyval \<Rightarrow> pyval res" where
  "py_float env v =
     (case v of
        PFloat t \<Rightarrow> Inr (PFloat t)
      | PBool b \<Rightarrow> Inr (PFloat (if b then ''1.0'' else ''0.0''))
      | PInt i \<Rightarrow> if 2 ^ 1024 - 2 ^ 970 \<le> \<bar>i\<bar> then Inl (OverflowError ''int too large to convert to float'')
                  else (case ce_float env (str_of_int i) of
                          Some t \<Rightarrow> Inr (PFloat t) | None \<Rightarrow> Inl (ValueError ''could not convert string to float''))
      | PStr s \<Rightarrow> (case ce_float env s of
                     Some t \<Rightarrow> Inr (PFloat t) | None \<Rightarrow> Inl (ValueError (''could not convert string to float: '' @ repr_str s)))
      | _ \<Rightarrow> Inl (TypeError ''float() argument must be a string or a real number''))"

definition to_int :: "coerce_env \<Rightarrow> pyval \<Rightarrow> int res" where
  "to_int env v =
     (case v of
        PBool b \<Rightarrow> Inl (ValueError ''refusing to coerce bool to int'')
      | PInt i \<Rightarrow> Inr i
      | _ \<Rightarrow>
          (let t = py_strip (py_str v) in
           case signed_digits t of
             Some i \<Rightarrow> Inr i
           | None \<Rightarrow>
               (case ce_float env t of
                  None \<Rightarrow> Inl (ValueError (''could not convert string to float: '' @ repr_str t))
                | Some f \<Rightarrow> (case float_int f of
                               Some i \<Rightarrow> Inr i | None \<Rightarrow> Inl (ValueError (repr_str t @ '' is not an integer''))))))"

definition true_strings :: "string list" where
  "true_strings = [''true'', ''t'', ''yes'', ''y'', ''1'', ''on'']"

definition false_strings :: "string list" where
  "false_strings = [''false'', ''f'', ''no'', ''n'', ''0'', ''off'', [] ]"

definition to_bool :: "pyval \<Rightarrow> bool res" where
  "to_bool v =
     (case v of
        PBool b \<Rightarrow> Inr b
      | _ \<Rightarrow> (let t = py_lower (py_strip (py_str v)) in
              if t \<in> set true_strings then Inr True
              else if t \<in> set false_strings then Inr False
              else Inl (ValueError (py_repr v @ '' is not a boolean''))))"

text \<open>
  \<^verbatim>\<open>parse_timestamp\<close> on a field. Without a format a bool and a NaN are no decimal numbers, an infinite float no
  integer.
\<close>

definition timestamp_of :: "time_env \<Rightarrow> pyval \<Rightarrow> string option \<Rightarrow> string option \<Rightarrow> int res" where
  "timestamp_of env v fmt tz =
     (if fmt \<noteq> None then parse_timestamp env False (py_str v) fmt tz None
      else case v of
        PInt i \<Rightarrow> parse_timestamp env True (py_str v) None tz None
      | PBool b \<Rightarrow> bind_res (resolve_tz env tz) (\<lambda>_. Inl (InvalidOperation ''ConversionSyntax''))
      | PFloat t \<Rightarrow>
          if t = ''nan'' then bind_res (resolve_tz env tz) (\<lambda>_. Inl (InvalidOperation ''comparison involving NaN''))
          else if t \<in> {''inf'', ''-inf''}
          then bind_res (resolve_tz env tz) (\<lambda>_. Inl (OverflowError ''cannot convert Infinity to integer''))
          else parse_timestamp env True (py_str v) None tz None
      | _ \<Rightarrow> parse_timestamp env False (py_str v) None tz None)"

definition type_name :: "field_type \<Rightarrow> string" where
  "type_name t = (case t of TStr \<Rightarrow> ''str'' | TInt \<Rightarrow> ''int'' | TFloat \<Rightarrow> ''float'' | TBool \<Rightarrow> ''bool'' | TIp \<Rightarrow> ''ip''
     | TTimestamp \<Rightarrow> ''timestamp'')"

definition convert :: "coerce_env \<Rightarrow> field_mapping \<Rightarrow> pyval \<Rightarrow> pyval res" where
  "convert env m v =
     (case fm_type m of
        TStr \<Rightarrow> Inr (PStr (py_str v))
      | TInt \<Rightarrow> bind_res (to_int env v) (\<lambda>i. Inr (PInt i))
      | TFloat \<Rightarrow> py_float env v
      | TBool \<Rightarrow> bind_res (to_bool v) (\<lambda>b. Inr (PBool b))
      | TIp \<Rightarrow> bind_res (ip_address (py_strip (py_str v))) (\<lambda>a. Inr (PStr (ip_text a)))
      | TTimestamp \<Rightarrow> bind_res (timestamp_of (ce_time env) v (fm_format m) (fm_tz m)) (\<lambda>n. Inr (PInt n)))"

definition short :: "pyval \<Rightarrow> string" where
  "short v = (let t = py_repr v in if length t \<le> 200 then t else take 200 t @ ''...'')"

definition caught_by_coerce :: "exn \<Rightarrow> bool" where
  "caught_by_coerce x = (case x of ValueError _ \<Rightarrow> True | TypeError _ \<Rightarrow> True | ParseError _ _ \<Rightarrow> True | _ \<Rightarrow> False)"

definition coerce_value :: "coerce_env \<Rightarrow> pyval \<Rightarrow> field_mapping \<Rightarrow> string \<Rightarrow> pyval res" where
  "coerce_value env v m path =
     (case convert env m v of
        Inr w \<Rightarrow> Inr w
      | Inl x \<Rightarrow>
          if caught_by_coerce x
          then Inl (MappingError (''could not coerce '' @ repr_str path @ '' to '' @ type_name (fm_type m))
                 [(''target'', PStr path), (''value'', PStr (short v)), (''type'', PStr (type_name (fm_type m))),
                  (''reason'', PStr (''invalid_'' @ type_name (fm_type m))), (''error'', PStr (exn_text x))])
          else Inl x)"

section \<open>Reading a source\<close>

definition source_keys :: "from_spec \<Rightarrow> string list" where
  "source_keys f = (case f of FromOne k \<Rightarrow> [k] | FromList ks \<Rightarrow> ks)"

definition resolve_source :: "field_mapping \<Rightarrow> pydict \<Rightarrow> pyval \<times> string list" where
  "resolve_source m d =
     (let keys = source_keys (fm_from m); present = filter (\<lambda>k. is_present (py_get d k)) keys in
      case (fm_join m, 1 < length keys) of
        (Some sep, True) \<Rightarrow> if present = [] then (PNone, [])
                           else (PStr (join_with sep (map (\<lambda>k. py_str (py_get d k)) present)), present)
      | _ \<Rightarrow> (case present of [] \<Rightarrow> (PNone, []) | k # _ \<Rightarrow> (py_get d k, [k])))"

definition from_value :: "from_spec \<Rightarrow> pyval" where
  "from_value f = (case f of FromOne k \<Rightarrow> PStr k | FromList ks \<Rightarrow> PList (map PStr ks))"

text \<open>The value of a mapping (\<^verbatim>\<open>None\<close> to skip it) and the fields it consumed.\<close>

definition map_one :: "coerce_env \<Rightarrow> string \<Rightarrow> field_mapping \<Rightarrow> pydict \<Rightarrow> (pyval \<times> string list) res" where
  "map_one env path m d =
     (let (v, used) = resolve_source m d in
      bind_res (if v = PNone then Inr (fm_default m)
                else case fm_map m of
                  Some table \<Rightarrow> Inr (case map_of table (py_str v) of Some w \<Rightarrow> w | None \<Rightarrow> fm_default m)
                | None \<Rightarrow> coerce_value env v m path) (\<lambda>w.
        if w = PNone \<and> fm_required m
        then Inl (MappingError (''required mapping '' @ repr_str path @ '' resolved to None'')
               [(''target'', PStr path), (''from'', from_value (fm_from m)), (''reason'', PStr ''required_unresolved'')])
        else Inr (w, if v = PNone then [] else used)))"

section \<open>Building the record\<close>

fun set_nested :: "string list \<Rightarrow> pyval \<Rightarrow> pydict \<Rightarrow> pydict" where
  "set_nested [] v d = d"
| "set_nested [k] v d = dict_set k v d"
| "set_nested (k # ks) v d = dict_set k (PDict (set_nested ks v (dict_of (py_get d k)))) d"

definition set_dotted :: "string \<Rightarrow> pyval \<Rightarrow> pydict \<Rightarrow> pydict" where
  "set_dotted path v d = set_nested (split_on ''.'' path) v d"

definition resolve_activity :: "activity_spec \<Rightarrow> pydict \<Rightarrow> int option \<times> string list" where
  "resolve_activity spec d =
     (case spec of
        StaticActivity a \<Rightarrow> (Some a, [])
      | ActivityFrom k table dflt \<Rightarrow>
          (let v = py_get d k in
           if is_present v then (case map_of table (py_str v) of Some a \<Rightarrow> Some a | None \<Rightarrow> dflt, [k]) else (dflt, [])))"

definition add_detail :: "string \<Rightarrow> pyval \<Rightarrow> pydict \<Rightarrow> pydict" where
  "add_detail k v d = (if map_of d k = None then dict_set k v d else d)"

text \<open>The loop over the fields; the record is kept when a mapping fails.\<close>

fun map_fields :: "coerce_env \<Rightarrow> pydict \<Rightarrow> (string \<times> field_mapping) list \<Rightarrow> pydict \<Rightarrow> string list \<Rightarrow> (pydict \<times> string list) res" where
  "map_fields env d [] rec taken = Inr (rec, taken)"
| "map_fields env d ((path, m) # ms) rec taken =
     (case map_one env path m d of
        Inr (v, used) \<Rightarrow> map_fields env d ms (if v = PNone then rec else set_dotted path v rec) (taken @ used)
      | Inl (MappingError t det) \<Rightarrow>
          Inl (MappingError t (add_detail ''partial_ocsf'' (PDict rec) (add_detail ''parsed_fields'' (PDict d) det)))
      | Inl x \<Rightarrow> Inl x)"

definition leftovers :: "unmapped_mode \<Rightarrow> pydict \<Rightarrow> string list \<Rightarrow> pydict option" where
  "leftovers mode d taken =
     (case mode of
        DropAll \<Rightarrow> None
      | KeepAll \<Rightarrow> Some (filter (\<lambda>(k, v). k \<notin> set taken) d)
      | KeepList ks \<Rightarrow> Some (dict_update [] (map (\<lambda>k. (k, py_get d k)) (filter (\<lambda>k. k \<in> fst ` set d \<and> k \<notin> set taken) ks))))"

definition attach_unmapped :: "unmapped_mode \<Rightarrow> pydict \<Rightarrow> string list \<Rightarrow> pydict \<Rightarrow> pydict" where
  "attach_unmapped mode d taken rec =
     (case leftovers mode d taken of None \<Rightarrow> rec | Some u \<Rightarrow> dict_set ''unmapped'' (PDict u) rec)"

definition start_record :: "ocsf_spec \<Rightarrow> int option \<Rightarrow> pydict" where
  "start_record spec activity =
     (let r = fold (\<lambda>(path, v). set_dotted path v) (os_constants spec) [];
          r1 = dict_set ''category_uid'' (PInt (os_category_uid spec)) (dict_set ''class_uid'' (PInt (os_class_uid spec)) r)
      in case activity of
           None \<Rightarrow> r1
         | Some a \<Rightarrow> dict_set ''type_uid'' (PInt (os_class_uid spec * 100 + a)) (dict_set ''activity_id'' (PInt a) r1))"

definition to_ocsf :: "coerce_env \<Rightarrow> source_definition \<Rightarrow> pydict \<Rightarrow> string \<Rightarrow> string \<Rightarrow> pydict res" where
  "to_ocsf env df d uid log_hash =
     (let spec = sd_normalize df; (activity, used) = resolve_activity (os_activity spec) d in
      bind_res (map_fields env d (os_fields spec) (start_record spec activity) used) (\<lambda>(r, taken).
        let r1 = set_dotted ''metadata.uid'' (PStr uid) r;
            r2 = set_dotted ''metadata.log_hash'' (PStr log_hash) r1;
            r3 = set_dotted ''metadata.version'' (PStr ocsf_version) r2
        in Inr (attach_unmapped (os_unmapped spec) d taken r3)))"

definition normalize :: "coerce_env \<Rightarrow> source_definition \<Rightarrow> parsed_event \<Rightarrow> normalized_event res" where
  "normalize env df e =
     bind_res (to_ocsf env df (p_fields e) (event_uid e) (raw_hash e)) (\<lambda>rec.
       Inr \<lparr>n_event_uid = event_uid e, n_raw_hash = raw_hash e, n_ingest_time_ns = ingest_time_ns e, ocsf = rec,
            n_source_type = sd_name df, mapping_version = sd_version df, enrichment = []\<rparr>)"

section \<open>Properties\<close>

definition get_path :: "string list \<Rightarrow> pydict \<Rightarrow> pyval" where
  "get_path ks d = foldl (\<lambda>v k. py_get (dict_of v) k) (PDict d) ks"

lemma dict_of_PDict [simp]: "dict_of (PDict d) = d"
  by (simp add: dict_of_def)

lemma metadata_paths:
  "split_on ''.'' ''metadata.uid'' = [''metadata'', ''uid'']"
  "split_on ''.'' ''metadata.log_hash'' = [''metadata'', ''log_hash'']"
  "split_on ''.'' ''metadata.version'' = [''metadata'', ''version'']"
  by code_simp+

lemma py_get_attach: "j \<noteq> ''unmapped'' \<Longrightarrow> py_get (attach_unmapped mode d taken rec) j = py_get rec j"
  by (simp add: attach_unmapped_def split: option.split)

lemma to_ocsf_result:
  assumes "to_ocsf env df d uid h = Inr rec"
  obtains r taken where
    "map_fields env d (os_fields (sd_normalize df)) (start_record (sd_normalize df) (fst (resolve_activity (os_activity (sd_normalize df)) d)))
       (snd (resolve_activity (os_activity (sd_normalize df)) d)) = Inr (r, taken)"
    "rec = attach_unmapped (os_unmapped (sd_normalize df)) d taken
       (set_dotted ''metadata.version'' (PStr ocsf_version) (set_dotted ''metadata.log_hash'' (PStr h)
         (set_dotted ''metadata.uid'' (PStr uid) r)))"
  using assms by (auto simp: to_ocsf_def Let_def bind_res_Inr_iff split: prod.splits)

text \<open>
  C16. Traceability survives the mapping: whatever the definition maps, every record carries the id and the hash
  of its event and the schema version in its metadata.
\<close>

theorem mapped_record_traceable:
  assumes "to_ocsf env df d uid h = Inr rec"
  shows "(get_path [''metadata'', ''uid''] rec, get_path [''metadata'', ''log_hash''] rec, get_path [''metadata'', ''version''] rec)
       = (PStr uid, PStr h, PStr ocsf_version)"
  using assms
  by (rule to_ocsf_result) (simp add: get_path_def py_get_attach set_dotted_def metadata_paths)

text \<open>The fields a definition names as sources, and that only they are consumed.\<close>

definition named_sources :: "ocsf_spec \<Rightarrow> string list" where
  "named_sources spec =
     (case os_activity spec of StaticActivity _ \<Rightarrow> [] | ActivityFrom k _ _ \<Rightarrow> [k])
     @ concat (map (\<lambda>(_, m). source_keys (fm_from m)) (os_fields spec))"

lemma resolve_source_used: "resolve_source m d = (v, used) \<Longrightarrow> set used \<subseteq> set (source_keys (fm_from m)) \<inter> {k. is_present (py_get d k)}"
  by (auto simp: resolve_source_def Let_def filter_eq_Cons_iff split: option.splits bool.splits if_splits list.splits)

lemma map_one_used: "map_one env path m d = Inr (v, used) \<Longrightarrow> set used \<subseteq> set (source_keys (fm_from m)) \<inter> {k. is_present (py_get d k)}"
  using resolve_source_used [of m d]
  by (auto simp: map_one_def Let_def bind_res_Inr_iff split: prod.splits if_splits)

lemma map_fields_taken:
  "map_fields env d ms rec taken = Inr (r, taken') \<Longrightarrow>
     set taken' \<subseteq> set taken \<union> (set (concat (map (\<lambda>(_, m). source_keys (fm_from m)) ms)) \<inter> {k. is_present (py_get d k)})"
proof (induction env d ms rec taken rule: map_fields.induct)
  case (2 env d path m ms rec taken)
  then obtain v used where m: "map_one env path m d = Inr (v, used)"
    by (auto split: sum.splits exn.splits)
  then show ?case using 2 map_one_used [OF m] by fastforce
qed simp


lemma convert_not_mapping: "convert env m v = Inl x \<Longrightarrow> \<not> caught_by_coerce x \<Longrightarrow> coerce_value env v m path = Inl x"
  by (simp add: coerce_value_def)

lemma coerce_value_raises: "coerce_value env v m path = Inl x \<Longrightarrow> \<not> caught_by_coerce x"
  by (auto simp: coerce_value_def caught_by_coerce_def split: sum.splits if_splits)

lemma map_one_raises: "map_one env path m d = Inl x \<Longrightarrow> \<not> caught_by_coerce x"
  by (auto simp: map_one_def Let_def bind_res_def caught_by_coerce_def dest!: coerce_value_raises
      split: prod.splits if_splits sum.splits option.splits)

definition mapping_error_informs :: "pydict \<Rightarrow> exn \<Rightarrow> bool" where
  "mapping_error_informs d x = (case x of MappingError _ det \<Rightarrow>
       map_of det ''parsed_fields'' \<noteq> None \<and> map_of det ''partial_ocsf'' \<noteq> None | _ \<Rightarrow> \<not> caught_by_coerce x)"

lemma map_of_add_detail: "map_of (add_detail k v det) j = (if j = k \<and> map_of det k = None then Some v else map_of det j)"
  by (auto simp: add_detail_def)

lemma map_fields_raises: "map_fields env d ms rec taken = Inl x \<Longrightarrow> mapping_error_informs d x"
proof (induction env d ms rec taken rule: map_fields.induct)
  case (2 env d path m ms rec taken)
  show ?case
  proof (cases "map_one env path m d")
    case (Inl y)
    then have "\<not> caught_by_coerce y" by (rule map_one_raises)
    then show ?thesis
      using "2.prems" Inl by (cases y) (auto simp: mapping_error_informs_def map_of_add_detail caught_by_coerce_def)
  next
    case (Inr w)
    then show ?thesis using 2 by (cases w) simp
  qed
qed simp

text \<open>
  A value that cannot be coerced never surfaces as the conversion's own error: whatever the mapping raises is
  either a mapping error that carries the parsed fields and the record built so far, or an error no conversion
  declares (an overflow or a decimal operation on a value that is no number).
\<close>

theorem mapping_errors_inform:
  assumes "to_ocsf env df d uid h = Inl x"
  shows "mapping_error_informs d x"
proof -
  let ?act = "resolve_activity (os_activity (sd_normalize df)) d"
  have "map_fields env d (os_fields (sd_normalize df)) (start_record (sd_normalize df) (fst ?act)) (snd ?act) = Inl x"
    using assms by (cases ?act) (auto simp: to_ocsf_def Let_def bind_res_def split: sum.splits prod.splits)
  then show ?thesis by (rule map_fields_raises)
qed

section \<open>A definition to try\<close>

definition plain_mapping :: "string \<Rightarrow> field_type \<Rightarrow> pydict option \<Rightarrow> bool \<Rightarrow> field_mapping" where
  "plain_mapping key t table required =
     \<lparr>fm_from = FromOne key, fm_type = t, fm_map = table, fm_default = PNone, fm_format = None, fm_tz = None, fm_join = None,
      fm_required = required\<rparr>"

definition trial_definition :: "(string \<times> field_mapping) list \<Rightarrow> source_definition" where
  "trial_definition ms = (demo_definition ''fw'')\<lparr>sd_normalize :=
     \<lparr>os_class_uid = 4001, os_category_uid = 4, os_activity = StaticActivity 6, os_fields = ms, os_constants = [],
      os_unmapped = KeepAll\<rparr>\<rparr>"

definition trial_env :: coerce_env where
  "trial_env = \<lparr>ce_time = \<lparr>te_strptime = \<lambda>_ _. Inl (ValueError ''format''), te_gettz = \<lambda>_. None,
       te_isoparse = \<lambda>_. Inl (ValueError ''iso''), te_dateutil = \<lambda>_. Inl (ValueError ''text''), te_now = 0, te_now_year = 2024\<rparr>,
     ce_float = \<lambda>_. None\<rparr>"

lemmas trial_simps = to_ocsf_def trial_definition_def plain_mapping_def resolve_activity_def start_record_def
  map_one_def resolve_source_def is_present_def py_get_def source_keys_def coerce_value_def convert_def
  set_dotted_def metadata_paths attach_unmapped_def leftovers_def dict_of_def

lemma trial_run:
  "to_ocsf trial_env (trial_definition [(''action'', plain_mapping ''act'' TStr None True)])
     [(''act'', PStr ''deny''), (''zone'', PStr ''dmz'')] ''e1'' ''ab''
   = Inr [(''class_uid'', PInt 4001), (''category_uid'', PInt 4), (''activity_id'', PInt 6), (''type_uid'', PInt 400106),
          (''action'', PStr ''deny''),
          (''metadata'', PDict [(''uid'', PStr ''e1''), (''log_hash'', PStr ''ab''), (''version'', PStr ''1.5.0'')]),
          (''unmapped'', PDict [(''zone'', PStr ''dmz'')])]"
proof -
  have "split_on ''.'' ''action'' = [''action'']" by code_simp
  then show ?thesis by (simp add: trial_simps ocsf_version_def Let_def)
qed

theorem mapped_record_traceable_witness:
  "get_path [''metadata'', ''uid''] [(''class_uid'', PInt 4001), (''category_uid'', PInt 4), (''activity_id'', PInt 6), (''type_uid'', PInt 400106),
          (''action'', PStr ''deny''),
          (''metadata'', PDict [(''uid'', PStr ''e1''), (''log_hash'', PStr ''ab''), (''version'', PStr ''1.5.0'')]),
          (''unmapped'', PDict [(''zone'', PStr ''dmz'')])] = PStr ''e1''"
  using mapped_record_traceable [OF trial_run] by simp


text \<open>
  A value that a map of the definition does not list counts as consumed: it is neither in the record nor under
  \<open>unmapped\<close>.
\<close>

lemma unmatched_value_lost:
  "to_ocsf trial_env (trial_definition [(''action'', plain_mapping ''act'' TStr (Some [(''allow'', PStr ''Allowed'')]) False)])
     [(''act'', PStr ''quarantine'')] ''e1'' ''ab''
   = Inr [(''class_uid'', PInt 4001), (''category_uid'', PInt 4), (''activity_id'', PInt 6), (''type_uid'', PInt 400106),
          (''metadata'', PDict [(''uid'', PStr ''e1''), (''log_hash'', PStr ''ab''), (''version'', PStr ''1.5.0'')]),
          (''unmapped'', PDict [])]"
  by (simp add: trial_simps ocsf_version_def Let_def)

lemma trial_failure:
  "to_ocsf trial_env (trial_definition [(''time'', plain_mapping ''n'' TInt None True)]) [(''n'', PStr ''x'')] ''e1'' ''ab''
   = Inl (MappingError ''could not coerce 'time' to int''
       [(''target'', PStr ''time''), (''value'', PStr (repr_str ''x'')), (''type'', PStr ''int''), (''reason'', PStr ''invalid_int''),
        (''error'', PStr (''could not convert string to float: '' @ repr_str ''x'')),
        (''parsed_fields'', PDict [(''n'', PStr ''x'')]),
        (''partial_ocsf'', PDict [(''class_uid'', PInt 4001), (''category_uid'', PInt 4), (''activity_id'', PInt 6), (''type_uid'', PInt 400106)])])"
proof -
  have "to_int trial_env (PStr ''x'') = Inl (ValueError (''could not convert string to float: '' @ repr_str ''x''))"
  proof -
    have "py_strip ''x'' = ''x''" "signed_digits ''x'' = None" by code_simp+
    then show ?thesis by (simp add: to_int_def trial_env_def)
  qed
  moreover have "repr_str ''time'' = [CHR 0x27] @ ''time'' @ [CHR 0x27]" "short (PStr ''x'') = repr_str ''x''" by code_simp+
  ultimately show ?thesis
    by (simp add: trial_simps Let_def caught_by_coerce_def type_name_def exn_text_def add_detail_def)
qed

theorem mapping_errors_inform_witness:
  "mapping_error_informs [(''n'', PStr ''x'')] (MappingError ''could not coerce 'time' to int''
       [(''target'', PStr ''time''), (''value'', PStr (repr_str ''x'')), (''type'', PStr ''int''), (''reason'', PStr ''invalid_int''),
        (''error'', PStr (''could not convert string to float: '' @ repr_str ''x'')),
        (''parsed_fields'', PDict [(''n'', PStr ''x'')]),
        (''partial_ocsf'', PDict [(''class_uid'', PInt 4001), (''category_uid'', PInt 4), (''activity_id'', PInt 6), (''type_uid'', PInt 400106)])])"
  by (rule mapping_errors_inform [OF trial_failure])

end
