(* ===== verification/Mapper_Sharing.thy ===== *)
theory Mapper_Sharing
  imports Mapper
begin

text \<open>
  What the mapper does to a constant that is a mapping. \<^verbatim>\<open>_set_nested\<close> stores such a constant by reference, so
  a later target below it writes into the definition itself and the next event starts from the changed
  constant. The records live in an explicit store: an object is a number, a field of it holds a scalar or
  another object.
\<close>

section \<open>Objects\<close>

datatype field_value = is_scalar: Scalar pyval | is_ref: Ref nat

type_synonym object = "(string \<times> field_value) list"
type_synonym store = "object list"

fun assign_nested :: "nat \<Rightarrow> string list \<Rightarrow> field_value \<Rightarrow> store \<Rightarrow> store" where
  "assign_nested a [] v st = st"
| "assign_nested a [k] v st = st[a := dict_set k v (st ! a)]"
| "assign_nested a (k # k' # ks) v st =
     (case map_of (st ! a) k of
        Some (Ref b) \<Rightarrow> assign_nested b (k' # ks) v st
      | _ \<Rightarrow> assign_nested (length st) (k' # ks) v ((st @ [[]])[a := dict_set k (Ref (length st)) (st ! a)]))"

text \<open>One event: a new record from the definition's constants and the values mapped for the event.\<close>

definition build_record :: "(string list \<times> field_value) list \<Rightarrow> (string list \<times> pyval) list \<Rightarrow> store \<Rightarrow> nat \<times> store" where
  "build_record constants mapped st =
     (let rec = length st; st1 = fold (\<lambda>(path, v). assign_nested rec path v) constants (st @ [[]])
      in (rec, fold (\<lambda>(path, v). assign_nested rec path (Scalar v)) mapped st1))"

definition read_field :: "string list \<Rightarrow> nat \<Rightarrow> store \<Rightarrow> field_value option" where
  "read_field path a st =
     foldl (\<lambda>v k. case v of Some (Ref b) \<Rightarrow> map_of (st ! b) k | _ \<Rightarrow> None) (Some (Ref a)) path"

section \<open>Records of scalar constants are independent\<close>

text \<open>A store in which every object a field refers to was made after the record \<open>a\<close>: nothing of the definition is reachable.\<close>

definition refs_within :: "nat \<Rightarrow> nat \<Rightarrow> object \<Rightarrow> bool" where
  "refs_within a n ob \<longleftrightarrow> (\<forall>b. Ref b \<in> snd ` set ob \<longrightarrow> a \<le> b \<and> b < n)"

definition owned :: "nat \<Rightarrow> store \<Rightarrow> bool" where
  "owned a st \<longleftrightarrow> a < length st \<and> (\<forall>i. a \<le> i \<longrightarrow> i < length st \<longrightarrow> refs_within a (length st) (st ! i))"

lemma values_dict_set: "snd ` set (dict_set k v d) \<subseteq> insert v (snd ` set d)"
proof (induction d)
  case (Cons p d)
  then show ?case by (cases p; cases "fst p = k") auto
qed simp

lemma owned_append: "owned r st \<Longrightarrow> owned r (st @ [[]])"
proof -
  assume o: "owned r st"
  have "refs_within r (length (st @ [[]])) ((st @ [[]]) ! i)" if "r \<le> i" "i < length (st @ [[]])" for i
  proof (cases "i < length st")
    case True
    then have "refs_within r (length st) (st ! i)" using o that(1) by (simp add: owned_def)
    then show ?thesis using True by (auto simp: refs_within_def nth_append)
  next
    case False
    then have "(st @ [[]]) ! i = []" using that(2) by (simp add: nth_append less_Suc_eq)
    then show ?thesis by (simp add: refs_within_def)
  qed
  then show ?thesis using o by (simp add: owned_def)
qed

lemma owned_update:
  assumes "owned r st" and "a < length st" and "\<And>b. v = Ref b \<Longrightarrow> r \<le> b \<and> b < length st"
  shows "owned r (st[a := dict_set k v (st ! a)])"
proof -
  have "refs_within r (length st) (dict_set k v (st ! a))" if "r \<le> a"
    using assms that values_dict_set [of k v "st ! a"] unfolding owned_def refs_within_def by blast
  then have "refs_within r (length st) (st[a := dict_set k v (st ! a)] ! i)" if "r \<le> i" "i < length st" for i
    using assms(1) that by (cases "i = a") (simp_all add: owned_def)
  then show ?thesis using assms(1) by (simp add: owned_def)
qed

lemma owned_child: "owned r st \<Longrightarrow> r \<le> a \<Longrightarrow> a < length st \<Longrightarrow> map_of (st ! a) k = Some (Ref b) \<Longrightarrow> r \<le> b \<and> b < length st"
  unfolding owned_def refs_within_def by (metis image_eqI map_of_SomeD snd_conv)

lemma owned_new_child:
  assumes "owned r st" and "r \<le> a" and "a < length st"
  shows "owned r ((st @ [[]])[a := dict_set k (Ref (length st)) (st ! a)])"
  using owned_update [OF owned_append [OF assms(1)], of a "Ref (length st)" k] assms
  by (simp add: nth_append owned_def)

lemma assign_nested_frame:
  assumes "owned r st" and "r \<le> a" and "a < length st" and "is_scalar v"
  shows "owned r (assign_nested a path v st) \<and> (\<forall>i < r. assign_nested a path v st ! i = st ! i)"
  using assms
proof (induction a path v st rule: assign_nested.induct)
  case (2 a k v st)
  then show ?case by (auto intro!: owned_update)
next
  case (3 a k k' ks v st)
  let ?st = "(st @ [[]])[a := dict_set k (Ref (length st)) (st ! a)]"
  have st: "owned r ?st" by (rule owned_new_child [OF "3.prems"(1-3)])
  have frame: "\<forall>i < r. ?st ! i = st ! i" using "3.prems"(1-3) by (auto simp: nth_append owned_def)
  have len: "r \<le> length st" "length st < length ?st" using "3.prems"(1) by (auto simp: owned_def)
  show ?case
  proof (cases "map_of (st ! a) k")
    case None
    from "3.IH"(1) [OF None st len "3.prems"(4)] frame show ?thesis by (simp add: None)
  next
    case (Some w)
    show ?thesis
    proof (cases w)
      case (Scalar s)
      from "3.IH"(2) [OF Some Scalar st len "3.prems"(4)] frame show ?thesis by (simp add: Some Scalar)
    next
      case (Ref b)
      have "r \<le> b" "b < length st" using owned_child [OF "3.prems"(1-3)] Some Ref by blast+
      from "3.IH"(3) [OF Some Ref "3.prems"(1) this "3.prems"(4)] show ?thesis by (simp add: Some Ref)
    qed
  qed
qed auto

lemma fold_assign_frame:
  assumes "owned r st" and "list_all (\<lambda>(_, v). is_scalar v) assignments"
  shows "owned r (fold (\<lambda>(path, v). assign_nested r path v) assignments st)
       \<and> (\<forall>i < r. fold (\<lambda>(path, v). assign_nested r path v) assignments st ! i = st ! i)"
  using assms
proof (induction assignments arbitrary: st)
  case (Cons x xs)
  obtain path v where x: "x = (path, v)" by (cases x)
  have f: "owned r (assign_nested r path v st) \<and> (\<forall>i < r. assign_nested r path v st ! i = st ! i)"
    using Cons.prems by (intro assign_nested_frame) (auto simp: x owned_def)
  then show ?case using Cons by (auto simp: x)
qed simp

text \<open>
  A definition whose constants are scalars is not changed by mapping an event with it: building a record
  leaves every object that existed before as it was.
\<close>

theorem scalar_constants_unshared:
  assumes "list_all (\<lambda>(_, v). is_scalar v) constants"
  shows "take (length st) (snd (build_record constants mapped st)) = st"
proof -
  let ?scalars = "map (\<lambda>(path, v). (path, Scalar v)) mapped"
  let ?st1 = "fold (\<lambda>(path, v). assign_nested (length st) path v) constants (st @ [[]])"
  have scalars: "snd (build_record constants mapped st) = fold (\<lambda>(path, v). assign_nested (length st) path v) ?scalars ?st1"
    by (simp add: build_record_def Let_def fold_map comp_def case_prod_unfold)
  have o: "owned (length st) (st @ [[]])" by (simp add: owned_def refs_within_def le_less_Suc_eq)
  have f1: "owned (length st) ?st1" "\<forall>i < length st. ?st1 ! i = (st @ [[]]) ! i"
    using fold_assign_frame [OF o assms] by blast+
  have "list_all (\<lambda>(_, v). is_scalar v) ?scalars" by (simp add: list_all_iff split: prod.splits)
  note f2 = fold_assign_frame [OF f1(1) this]
  show ?thesis unfolding scalars
    using f1(2) f2 by (intro nth_equalityI) (auto simp: owned_def nth_append)
qed

theorem scalar_constants_unshared_witness:
  "take (length ([] :: store)) (snd (build_record [([''severity_id''], Scalar (PInt 1))] [([''src_endpoint'', ''ip''], PStr ''10.0.0.1'')] [])) = []"
  by (rule scalar_constants_unshared) simp

text \<open>
  With a constant that is a mapping, a value of one event appears in the record of another: a first event that
  has an address writes it into the constant, and the record of a second event without one shows it.
\<close>

theorem mapping_constant_leaks:
  "let constants = [([''src_endpoint''], Ref 0)]; definition_object = [[(''zone'', Scalar (PStr ''dmz''))]];
       (r1, st1) = build_record constants [([''src_endpoint'', ''ip''], PStr ''10.0.0.1'')] definition_object;
       (r2, st2) = build_record constants [] st1
   in read_field [''src_endpoint'', ''ip''] r2 st2 = Some (Scalar (PStr ''10.0.0.1''))"
  by (simp add: build_record_def read_field_def)

end
