(* ===== verification/Stream_Framing.thy ===== *)
theory Stream_Framing
  imports Events
begin

text \<open>
  The TCP and TLS syslog listeners of \<^verbatim>\<open>ulpf/ingest/syslog_tcp.py\<close>: RFC 6587 framing (an octet count and that many
  bytes, or bytes up to a line feed), detected per message on the head of the buffer, and the connection
  handler that turns each frame into a raw event. A connection is the list of chunks its reader returns;
  the empty chunk, or the end of the list, is the end of the stream.
\<close>

section \<open>One frame\<close>

definition is_digit_byte :: "byte \<Rightarrow> bool" where
  "is_digit_byte b \<longleftrightarrow> 48 \<le> unat b \<and> unat b \<le> 57"

text \<open>\<^verbatim>\<open>int(b)\<close> of ASCII digits; the interpreter refuses more than 4300 of them.\<close>

definition int_max_str_digits :: nat where
  "int_max_str_digits = 4300"

definition int_of_digits :: "bytes \<Rightarrow> nat res" where
  "int_of_digits ds =
     (if int_max_str_digits < length ds then Inl (ValueError ''Exceeds the limit (4300 digits) for integer string conversion'')
      else Inr (foldl (\<lambda>n b. 10 * n + (unat b - 48)) 0 ds))"

text \<open>The pair is the frame, if it is complete, and what is left of the buffer.\<close>

definition read_octet_body :: "nat \<Rightarrow> bytes \<Rightarrow> nat \<Rightarrow> (bytes option \<times> bytes) res" where
  "read_octet_body m buf i =
     bind_res (int_of_digits (take i buf)) (\<lambda>n.
       if m < n then Inl (IngestError (''octet-counted frame exceeds max_frame_bytes ({'declared': ''
                           @ str_of_int (int n) @ '', 'limit': '' @ str_of_int (int m) @ ''})''))
       else let start = i + 1
            in if length buf - start < n then Inr (None, buf)
               else Inr (Some (take n (drop start buf)), drop (start + n) buf))"

definition trim_cr :: "bytes \<Rightarrow> bytes" where
  "trim_cr l = (if ends_with [13] l then butlast l else l)"

definition try_newline :: "bytes \<Rightarrow> bytes option \<times> bytes" where
  "try_newline buf = (case find_sub [10] buf of None \<Rightarrow> (None, buf) | Some (l, rest) \<Rightarrow> (Some (trim_cr l), rest))"

definition digit_run :: "bytes \<Rightarrow> nat" where
  "digit_run buf = length (takeWhile is_digit_byte buf)"

definition next_frame :: "nat \<Rightarrow> bytes \<Rightarrow> (bytes option \<times> bytes) res" where
  "next_frame m buf =
     (if buf = [] then Inr (None, buf)
      else let i = digit_run buf
           in if 0 < i \<and> i = length buf then Inr (None, buf)
              else if 0 < i \<and> buf ! i = 32 then read_octet_body m buf i
              else Inr (try_newline buf))"

definition rstrip_line_end :: "bytes \<Rightarrow> bytes" where
  "rstrip_line_end s = rev (dropWhile (\<lambda>b. b \<in> {13, 10}) (rev s))"

definition final_frame :: "bytes \<Rightarrow> bytes option" where
  "final_frame buf =
     (let i = digit_run buf
      in if buf = [] then None
         else if 0 < i \<and> (i = length buf \<or> buf ! i = 32) then None
         else let t = rstrip_line_end buf in if t = [] then None else Some t)"

lemma length_try_newline: "try_newline buf = (Some f, r) \<Longrightarrow> length r < length buf"
  by (auto simp: try_newline_def dest!: find_sub_shorter split: option.splits)

lemma digit_run_le: "digit_run buf \<le> length buf"
  by (simp add: digit_run_def length_takeWhile_le)

lemma length_next_frame: "next_frame m buf = Inr (Some f, r) \<Longrightarrow> length r < length buf"
  using digit_run_le [of buf]
  by (auto simp: next_frame_def read_octet_body_def Let_def bind_res_Inr_iff length_try_newline split: if_splits)

section \<open>The stream\<close>

text \<open>
  The inner steps of \<^verbatim>\<open>read_frames\<close>: every complete frame at the head of the buffer is yielded (an empty one is
  not) until more bytes are needed, or an exception ends the generator.
\<close>

function emit_frames :: "nat \<Rightarrow> bytes \<Rightarrow> bytes list \<times> bytes res" where
  "emit_frames m buf =
     (case next_frame m buf of
        Inl x \<Rightarrow> ([], Inl x)
      | Inr (None, b) \<Rightarrow> ([], Inr b)
      | Inr (Some f, b) \<Rightarrow> (case emit_frames m b of (fs, r) \<Rightarrow> (if f = [] then fs else f # fs, r)))"
  by pat_completeness auto
termination
  by (relation "measure (\<lambda>(m, buf). length buf)") (auto dest: length_next_frame)

declare emit_frames.simps [simp del]

definition stream_end :: "bytes \<Rightarrow> bytes list" where
  "stream_end buf = (case final_frame buf of None \<Rightarrow> [] | Some t \<Rightarrow> [t])"

fun read_frames :: "nat \<Rightarrow> bytes \<Rightarrow> bytes list \<Rightarrow> bytes list \<times> unit res" where
  "read_frames m buf chunks =
     (case emit_frames m buf of
        (fs, Inl x) \<Rightarrow> (fs, Inl x)
      | (fs, Inr b) \<Rightarrow>
          (case chunks of
             [] \<Rightarrow> (fs @ stream_end b, Inr ())
           | c # cs \<Rightarrow>
               if c = [] then (fs @ stream_end b, Inr ())
               else (case read_frames m (b @ c) cs of (gs, r) \<Rightarrow> (fs @ gs, r))))"

declare read_frames.simps [simp del]

section \<open>The connection\<close>

text \<open>
  \<^verbatim>\<open>FramedListenerBase\<close>: a frame becomes a raw event with a fresh identifier and clock reading (the lists
  \<open>uids\<close> and \<open>nows\<close>, by position) and is dispatched; a callback that raises is logged. A framing error ends the
  connection with a warning; any other exception ends the handler's task with it. The writer is closed
  in every case.
\<close>

datatype conn_end = Eof | Misframed string | TaskFailed exn

record connection =
  cn_dispatched :: "raw_event list"
  cn_callback_errors :: "string list"
  cn_received :: nat
  cn_bytes :: nat
  cn_end :: conn_end
  cn_closed :: bool

definition frame_event ::
  "(bytes \<Rightarrow> bytes) \<Rightarrow> (nat \<Rightarrow> string) \<Rightarrow> (nat \<Rightarrow> int) \<Rightarrow> string \<Rightarrow> transport \<Rightarrow> string option \<Rightarrow> nat \<Rightarrow> bytes \<Rightarrow> raw_event" where
  "frame_event H uids nows src tr pr i f = make_raw_event H (uids i) (nows i) f src tr pr"

definition dispatch :: "(raw_event \<Rightarrow> exn option) \<Rightarrow> raw_event \<Rightarrow> connection \<Rightarrow> connection" where
  "dispatch on_event e c =
     (let c1 = c\<lparr>cn_dispatched := cn_dispatched c @ [e]\<rparr>
      in case on_event e of
           None \<Rightarrow> c1
         | Some x \<Rightarrow> c1\<lparr>cn_callback_errors := cn_callback_errors c1 @ [event_uid e]\<rparr>)"

definition handle_frame ::
  "(bytes \<Rightarrow> bytes) \<Rightarrow> (nat \<Rightarrow> string) \<Rightarrow> (nat \<Rightarrow> int) \<Rightarrow> string \<Rightarrow> transport \<Rightarrow> string option \<Rightarrow> (raw_event \<Rightarrow> exn option)
    \<Rightarrow> bytes \<Rightarrow> connection \<Rightarrow> connection" where
  "handle_frame H uids nows src tr pr on_event f c =
     dispatch on_event (frame_event H uids nows src tr pr (cn_received c) f)
       (c\<lparr>cn_received := cn_received c + 1, cn_bytes := cn_bytes c + length f\<rparr>)"

definition new_connection :: connection where
  "new_connection = \<lparr>cn_dispatched = [], cn_callback_errors = [], cn_received = 0, cn_bytes = 0,
     cn_end = Eof, cn_closed = False\<rparr>"

definition handle_client ::
  "(bytes \<Rightarrow> bytes) \<Rightarrow> (nat \<Rightarrow> string) \<Rightarrow> (nat \<Rightarrow> int) \<Rightarrow> string \<Rightarrow> transport \<Rightarrow> string option \<Rightarrow> (raw_event \<Rightarrow> exn option)
    \<Rightarrow> nat \<Rightarrow> bytes list \<Rightarrow> connection" where
  "handle_client H uids nows src tr pr on_event m chunks =
     (case read_frames m [] chunks of
        (fs, r) \<Rightarrow>
          (fold (handle_frame H uids nows src tr pr on_event) fs new_connection)
            \<lparr>cn_end := (case r of Inr _ \<Rightarrow> Eof | Inl (IngestError w) \<Rightarrow> Misframed w | Inl x \<Rightarrow> TaskFailed x),
             cn_closed := True\<rparr>)"

section \<open>Framing does not depend on how the bytes arrive\<close>

lemma find_sub_more: "find_sub [c] s = Some (a, b) \<Longrightarrow> find_sub [c] (s @ x) = Some (a, b @ x)"
proof (induction s arbitrary: a)
  case Nil
  then show ?case by (simp add: find_sub.simps)
next
  case (Cons d s)
  then show ?case
    by (cases "c = d") (auto simp: find_sub.simps [of _ "d # _"])
qed

lemma digit_run_more: "digit_run buf < length buf \<Longrightarrow> digit_run (buf @ x) = digit_run buf"
proof -
  assume "digit_run buf < length buf"
  then have "\<not> (\<forall>b \<in> set buf. is_digit_byte b)"
    by (metis digit_run_def less_irrefl takeWhile_eq_all_conv)
  then have "\<exists>b \<in> set buf. \<not> is_digit_byte b" by blast
  then show ?thesis by (auto simp: digit_run_def takeWhile_append1)
qed

lemma digit_run_empty: "digit_run [] = 0" by (simp add: digit_run_def)

text \<open>What is decided on a buffer stays decided when more bytes follow.\<close>

lemma next_frame_more:
  assumes "case next_frame m buf of Inr (None, _) \<Rightarrow> False | _ \<Rightarrow> True"
  shows "next_frame m (buf @ x) = (case next_frame m buf of Inl e \<Rightarrow> Inl e | Inr (f, b) \<Rightarrow> Inr (f, b @ x))"
proof -
  let ?i = "digit_run buf"
  have ne: "buf \<noteq> []" using assms by (auto simp: next_frame_def)
  show ?thesis
  proof (cases "0 < ?i")
    case False
    then have "digit_run (buf @ x) = 0"
      using digit_run_more [of buf x] ne by auto
    then show ?thesis
      using assms False ne
      by (auto simp: next_frame_def try_newline_def find_sub_more split: option.splits)
  next
    case True
    then have lt: "?i < length buf" using assms ne digit_run_le [of buf] by (cases "?i = length buf") (auto simp: next_frame_def Let_def)
    then have run: "digit_run (buf @ x) = ?i" "(buf @ x) ! ?i = buf ! ?i" by (simp_all add: digit_run_more nth_append)
    show ?thesis
      using assms True ne lt
      by (auto simp: next_frame_def run try_newline_def find_sub_more read_octet_body_def bind_res_def Let_def
          split: option.splits sum.splits if_splits)
  qed
qed

lemma next_frame_none: "next_frame m buf = Inr (None, b) \<Longrightarrow> b = buf"
  by (auto simp: next_frame_def try_newline_def read_octet_body_def Let_def bind_res_Inr_iff
      split: if_splits option.splits)

text \<open>Draining the buffer before the next chunk is read makes no difference.\<close>

lemma emit_frames_more:
  "emit_frames m (buf @ x) =
     (case emit_frames m buf of
        (fs, Inl e) \<Rightarrow> (fs, Inl e)
      | (fs, Inr b) \<Rightarrow> (case emit_frames m (b @ x) of (gs, r) \<Rightarrow> (fs @ gs, r)))"
proof (induction m buf rule: emit_frames.induct)
  case (1 m buf)
  show ?case
  proof (cases "next_frame m buf")
    case (Inl e)
    then show ?thesis using next_frame_more [of m buf x] by (simp add: emit_frames.simps [of m buf] emit_frames.simps [of m "buf @ x"])
  next
    case (Inr p)
    obtain f b where p: "p = (f, b)" by (cases p)
    show ?thesis
    proof (cases f)
      case None
      then show ?thesis using Inr p next_frame_none [of m buf b]
        by (simp add: emit_frames.simps [of m buf] split: prod.splits)
    next
      case (Some g)
      then have "next_frame m (buf @ x) = Inr (Some g, b @ x)"
        using next_frame_more [of m buf x] Inr p by simp
      then show ?thesis
        using "1.IH" [OF Inr p [symmetric] Some] Inr p Some
        by (simp add: emit_frames.simps [of m buf] emit_frames.simps [of m "buf @ x"] split: prod.splits sum.splits)
    qed
  qed
qed

text \<open>The bytes of a connection, up to the first empty read.\<close>

definition stream_bytes :: "bytes list \<Rightarrow> bytes" where
  "stream_bytes chunks = concat (takeWhile (\<lambda>c. c \<noteq> []) chunks)"

text \<open>The reference: frame the whole stream at once.\<close>

definition frame_stream :: "nat \<Rightarrow> bytes \<Rightarrow> bytes list \<times> unit res" where
  "frame_stream m s =
     (case emit_frames m s of (fs, Inl x) \<Rightarrow> (fs, Inl x) | (fs, Inr b) \<Rightarrow> (fs @ stream_end b, Inr ()))"

lemma read_frames_stream: "read_frames m buf chunks = frame_stream m (buf @ stream_bytes chunks)"
proof (induction chunks arbitrary: buf)
  case Nil
  then show ?case by (simp add: read_frames.simps frame_stream_def stream_bytes_def split: prod.splits sum.splits)
next
  case (Cons c cs)
  have IH: "read_frames m (b @ c) cs = frame_stream m (b @ c @ stream_bytes cs)" for b
    using Cons.IH [of "b @ c"] by simp
  show ?case
  proof (cases "c = []")
    case True
    then show ?thesis by (simp add: read_frames.simps frame_stream_def stream_bytes_def split: prod.splits sum.splits)
  next
    case False
    then show ?thesis
      by (simp add: read_frames.simps [of m buf "c # cs"] IH frame_stream_def stream_bytes_def emit_frames_more [of m buf]
          split: prod.splits sum.splits)
  qed
qed

text \<open>
  C31. The frames of a connection, and whether it ends in an error, are a function of its bytes: how they
  were cut into reads makes no difference.
\<close>

theorem framing_chunk_independent:
  "read_frames m [] chunks = frame_stream m (stream_bytes chunks)"
  by (simp add: read_frames_stream)

section \<open>What a sender frames is what is received\<close>

text \<open>
  The sender's side of RFC 6587: a message with an octet count, or ended by a line feed, or by a carriage return and
  a line feed.
\<close>

datatype framed = Counted bytes | LfEnded bytes | CrLfEnded bytes

definition count_bytes :: "nat \<Rightarrow> bytes" where
  "count_bytes n = map (\<lambda>c. word_of_nat (code c)) (dec_digits n)"

fun payload :: "framed \<Rightarrow> bytes" where
  "payload (Counted p) = p"
| "payload (LfEnded p) = p"
| "payload (CrLfEnded p) = p"

fun wire :: "framed \<Rightarrow> bytes" where
  "wire (Counted p) = count_bytes (length p) @ 32 # p"
| "wire (LfEnded p) = p @ [10]"
| "wire (CrLfEnded p) = p @ [13, 10]"

text \<open>A line may not begin like an octet count: digits and a space.\<close>

definition looks_counted :: "bytes \<Rightarrow> bool" where
  "looks_counted p \<longleftrightarrow> 0 < digit_run p \<and> digit_run p < length p \<and> p ! digit_run p = 32"

fun well_framed :: "nat \<Rightarrow> framed \<Rightarrow> bool" where
  "well_framed m (Counted p) \<longleftrightarrow> p \<noteq> [] \<and> length p \<le> m"
| "well_framed m (LfEnded p) \<longleftrightarrow> p \<noteq> [] \<and> 10 \<notin> set p \<and> last p \<noteq> 13 \<and> \<not> looks_counted p"
| "well_framed m (CrLfEnded p) \<longleftrightarrow> p \<noteq> [] \<and> 10 \<notin> set p \<and> \<not> looks_counted p"

lemma unat_code: "unat (word_of_nat (code c) :: byte) = code c"
  by (simp add: unat_of_nat take_bit_eq_mod)

lemma digits_value: "foldl (\<lambda>n b. 10 * n + (unat b - 48)) n (map (\<lambda>c. word_of_nat (code c) :: byte) ds) =
    foldl (\<lambda>n c. 10 * n + (code c - 48)) n ds"
  by (induction ds arbitrary: n) (simp_all add: unat_code)

lemma int_max_str_digits_pos [simp]: "0 < int_max_str_digits"
  by (simp add: int_max_str_digits_def)

lemma count_bytes_digits: "b \<in> set (count_bytes n) \<Longrightarrow> is_digit_byte b"
  using dec_digits_is_dec [of n]
  by (auto simp: count_bytes_def is_digit_byte_def unat_code is_dec_def)

lemma count_bytes_not_Nil [simp]: "count_bytes n \<noteq> []"
  by (simp add: count_bytes_def)

lemma int_of_count_bytes: "n < 10 ^ int_max_str_digits \<Longrightarrow> int_of_digits (count_bytes n) = Inr n"
  using dec_digits_bound [of int_max_str_digits n] nat_of_dec_digits [of n]
  by (simp add: int_of_digits_def count_bytes_def digits_value nat_of_dec_def)

lemma digit_run_stop: "(\<And>b. b \<in> set ds \<Longrightarrow> is_digit_byte b) \<Longrightarrow> \<not> is_digit_byte c \<Longrightarrow> digit_run (ds @ c # x) = length ds"
  by (simp add: digit_run_def takeWhile_append2)

lemma digit_byte_simps [simp]: "\<not> is_digit_byte 32" "\<not> is_digit_byte 10" "\<not> is_digit_byte 13"
  by (simp_all add: is_digit_byte_def)

text \<open>A run of digits and a space is read as an octet count.\<close>

lemma next_frame_counted:
  assumes "\<And>b. b \<in> set ds \<Longrightarrow> is_digit_byte b" and "ds \<noteq> []"
  shows "next_frame m (ds @ 32 # x) = read_octet_body m (ds @ 32 # x) (length ds)"
  using assms by (simp add: next_frame_def digit_run_stop Let_def)

lemma next_frame_line:
  assumes "\<not> looks_counted p" "p \<noteq> []" "10 \<notin> set p"
  shows "next_frame m (p @ 10 # x) = Inr (Some (trim_cr p), x)"
proof -
  let ?b = "p @ 10 # x"
  have "\<not> (0 < digit_run ?b \<and> (digit_run ?b = length ?b \<or> ?b ! digit_run ?b = 32))"
  proof (cases "digit_run p < length p")
    case True
    then show ?thesis
      using digit_run_more [OF True, of "10 # x"] assms(1) by (auto simp: looks_counted_def nth_append)
  next
    case False
    then have "\<And>b. b \<in> set p \<Longrightarrow> is_digit_byte b"
      by (metis digit_run_def digit_run_le le_antisym not_less takeWhile_eq_all_conv takeWhile_eq_take take_all_iff)
    then have "digit_run ?b = length p" by (simp add: digit_run_stop)
    then show ?thesis by simp
  qed
  then show ?thesis
    using assms(2,3) by (auto simp: next_frame_def try_newline_def find_sub_single Let_def)
qed

lemma next_frame_wire:
  assumes "well_framed m s" "m < 10 ^ int_max_str_digits"
  shows "next_frame m (wire s @ x) = Inr (Some (payload s), x)"
proof (cases s)
  case (Counted p)
  then have "length p < 10 ^ int_max_str_digits" using assms by auto
  then show ?thesis
    using Counted assms next_frame_counted [of "count_bytes (length p)" m "p @ x"] count_bytes_digits [of _ "length p"]
    by (simp add: read_octet_body_def int_of_count_bytes)
next
  case (LfEnded p)
  then have "trim_cr p = p" using assms(1) by (auto simp: trim_cr_def ends_with_iff)
  then show ?thesis using LfEnded assms(1) next_frame_line [of p m x] by simp
next
  case (CrLfEnded p)
  have "\<not> looks_counted (p @ [13])"
  proof (cases "digit_run p < length p")
    case True
    then show ?thesis
      using digit_run_more [OF True, of "[13]"] CrLfEnded assms(1) by (auto simp: looks_counted_def nth_append)
  next
    case False
    then have "\<And>b. b \<in> set p \<Longrightarrow> is_digit_byte b"
      by (metis digit_run_def digit_run_le le_antisym not_less takeWhile_eq_all_conv takeWhile_eq_take take_all_iff)
    then have "digit_run (p @ [13]) = length p" by (simp add: digit_run_stop)
    then show ?thesis by (simp add: looks_counted_def)
  qed
  moreover have "trim_cr (p @ [13]) = p" by (auto simp: trim_cr_def ends_with_iff)
  ultimately show ?thesis
    using CrLfEnded assms(1) next_frame_line [of "p @ [13]" m x] by simp
qed

lemma payload_not_Nil: "well_framed m s \<Longrightarrow> payload s \<noteq> []"
  by (cases s) auto

lemma emit_frames_wire:
  assumes "list_all (well_framed m) ss" "m < 10 ^ int_max_str_digits"
  shows "emit_frames m (concat (map wire ss) @ x) = (case emit_frames m x of (fs, r) \<Rightarrow> (map payload ss @ fs, r))"
  using assms(1)
proof (induction ss)
  case (Cons s ss)
  then show ?case
    using next_frame_wire [OF _ assms(2), of s "concat (map wire ss) @ x"]
    by (simp add: emit_frames.simps [of m "wire s @ _"] payload_not_Nil split: prod.splits)
qed simp

lemma emit_frames_Nil: "emit_frames m [] = ([], Inr [])"
  by (simp add: emit_frames.simps next_frame_def)

section \<open>What a connection delivers\<close>

lemma handle_frames:
  "(let c = fold (handle_frame H uids nows src tr pr on_event) fs c0
    in map raw (cn_dispatched c) = map raw (cn_dispatched c0) @ fs
      \<and> (list_all (evidence_ok H) (cn_dispatched c0) \<longrightarrow> list_all (evidence_ok H) (cn_dispatched c))
      \<and> cn_received c = cn_received c0 + length fs
      \<and> cn_bytes c = cn_bytes c0 + sum_list (map length fs))"
proof (induction fs arbitrary: c0)
  case (Cons f fs)
  let ?c1 = "handle_frame H uids nows src tr pr on_event f c0"
  have "map raw (cn_dispatched ?c1) = map raw (cn_dispatched c0) @ [f]"
    "list_all (evidence_ok H) (cn_dispatched ?c1) = list_all (evidence_ok H) (cn_dispatched c0)"
    "cn_received ?c1 = cn_received c0 + 1" "cn_bytes ?c1 = cn_bytes c0 + length f"
    by (simp_all add: handle_frame_def dispatch_def frame_event_def Let_def make_raw_event_def evidence_ok_def split: option.splits)
  then show ?case using Cons.IH [of ?c1] by (simp add: Let_def)
qed simp

lemma handle_client_frames:
  assumes "frame_stream m (stream_bytes chunks) = (fs, r)"
    and "c = handle_client H uids nows src tr pr on_event m chunks"
  shows "map raw (cn_dispatched c) = fs" "list_all (evidence_ok H) (cn_dispatched c)" "cn_received c = length fs"
    "cn_bytes c = sum_list (map length fs)" "cn_closed c"
    "cn_end c = (case r of Inr _ \<Rightarrow> Eof | Inl (IngestError w) \<Rightarrow> Misframed w | Inl x \<Rightarrow> TaskFailed x)"
  using handle_frames [of H uids nows src tr pr on_event fs new_connection]
  by (simp_all add: assms(2) handle_client_def read_frames_stream assms(1) new_connection_def Let_def)

text \<open>
  C14. Every message that a sender frames, by either method and in any mixture, arrives as one event with exactly
  its bytes, in order, hashed as received, however the stream is cut into reads and whether or not the
  callback fails; nothing else arrives, and the connection ends cleanly.
\<close>

theorem framed_messages_delivered:
  assumes "list_all (well_framed m) ss" and "m < 10 ^ int_max_str_digits"
    and "stream_bytes chunks = concat (map wire ss)"
    and "c = handle_client H uids nows src tr pr on_event m chunks"
  shows "map raw (cn_dispatched c) = map payload ss \<and> list_all (evidence_ok H) (cn_dispatched c)
    \<and> cn_received c = length ss \<and> cn_bytes c = sum_list (map (length \<circ> payload) ss)
    \<and> cn_end c = Eof \<and> cn_closed c"
proof -
  have "frame_stream m (stream_bytes chunks) = (map payload ss, Inr ())"
    using emit_frames_wire [OF assms(1,2), of "[]"]
    by (simp add: frame_stream_def assms(3) emit_frames_Nil stream_end_def final_frame_def Let_def)
  from handle_client_frames [OF this assms(4)] show ?thesis by simp
qed

definition demo_sent :: "framed list" where
  "demo_sent = [Counted [60, 10, 49], LfEnded [49, 50, 51], CrLfEnded [97, 32, 98]]"

definition demo_chunks :: "bytes list" where
  "demo_chunks = [[51, 32, 60], [10, 49, 49], [50, 51, 10, 97, 32, 98, 13], [10], [], [1]]"

lemma small_limit: "1048576 < (10 :: nat) ^ int_max_str_digits"
proof -
  have "1048576 < (10 :: nat) ^ 7" by simp
  also have "\<dots> \<le> 10 ^ int_max_str_digits" by (rule power_increasing) (simp_all add: int_max_str_digits_def)
  finally show ?thesis .
qed

lemma count_bytes_3: "count_bytes (Suc (Suc (Suc 0))) = [51]"
  by code_simp

theorem framed_messages_delivered_witness:
  "map raw (cn_dispatched (handle_client (\<lambda>b. b) (\<lambda>i. ''u'') int ''tcp'' Tcp None
       (\<lambda>e. Some (RuntimeError ''callback'')) 1048576 demo_chunks)) = [[60, 10, 49], [49, 50, 51], [97, 32, 98]]"
proof -
  have ok: "list_all (well_framed 1048576) demo_sent"
    by (simp add: demo_sent_def looks_counted_def digit_run_def is_digit_byte_def)
  have bytes: "stream_bytes demo_chunks = concat (map wire demo_sent)"
    by (simp add: demo_sent_def demo_chunks_def stream_bytes_def count_bytes_3)
  show ?thesis using framed_messages_delivered [OF ok small_limit bytes refl] by (simp add: demo_sent_def)
qed

text \<open>
  A bad octet count ends the connection: every message before it was delivered, nothing after it is, and
  the writer is closed. A count above the limit is logged as a framing error; but a run of more than 4300
  digits makes \<^verbatim>\<open>int\<close> raise \<^verbatim>\<open>ValueError\<close>, which the handler does not catch, so that its task fails instead.
\<close>

theorem bad_count_ends_connection:
  assumes "list_all (well_framed m) ss" and "m < 10 ^ int_max_str_digits"
    and "ds \<noteq> []" and "list_all is_digit_byte ds" and "case int_of_digits ds of Inl _ \<Rightarrow> True | Inr n \<Rightarrow> m < n"
    and "stream_bytes chunks = concat (map wire ss) @ ds @ 32 # rest"
    and "c = handle_client H uids nows src tr pr on_event m chunks"
  shows "map raw (cn_dispatched c) = map payload ss \<and> cn_closed c
    \<and> (case cn_end c of TaskFailed x \<Rightarrow> int_max_str_digits < length ds \<and> is_value_error x
        | Misframed w \<Rightarrow> length ds \<le> int_max_str_digits | Eof \<Rightarrow> False)"
proof -
  have digits: "\<And>b. b \<in> set ds \<Longrightarrow> is_digit_byte b" using assms(4) by (simp add: list_all_iff)
  obtain x where x: "next_frame m (ds @ 32 # rest) = Inl x"
    and kind: "case x of IngestError w \<Rightarrow> length ds \<le> int_max_str_digits
        | _ \<Rightarrow> int_max_str_digits < length ds \<and> is_value_error x"
    using assms(5) by (simp add: next_frame_counted [OF digits assms(3)] read_octet_body_def int_of_digits_def split: if_splits)
  have "frame_stream m (stream_bytes chunks) = (map payload ss, Inl x)"
    using emit_frames_wire [OF assms(1,2), of "ds @ 32 # rest"]
    by (simp add: frame_stream_def assms(6) emit_frames.simps [of m "ds @ 32 # rest"] x)
  from handle_client_frames [OF this assms(7)] kind show ?thesis by (cases x) auto
qed

theorem bad_count_ends_connection_witness:
  "(let c = handle_client (\<lambda>b. b) (\<lambda>i. ''u'') int ''tcp'' Tcp None (\<lambda>e. None) 4 [[97, 10, 53, 32, 98]]
    in map raw (cn_dispatched c) = [[97]] \<and> cn_closed c)
   \<and> (let c = handle_client (\<lambda>b. b) (\<lambda>i. ''u'') int ''tcp'' Tcp None (\<lambda>e. None) 4 [replicate 4301 48 @ [32]]
      in cn_end c \<noteq> Eof \<and> (\<nexists>w. cn_end c = Misframed w))"
proof -
  have small: "(4 :: nat) < 10 ^ int_max_str_digits" using small_limit by simp
  have "list_all (well_framed 4) [LfEnded [97]]" by (simp add: looks_counted_def digit_run_def is_digit_byte_def)
  from bad_count_ends_connection [OF this small, of "[53]" "[[97, 10, 53, 32, 98]]" "[98]", OF _ _ _ _ refl]
  have 1: "let c = handle_client (\<lambda>b. b) (\<lambda>i. ''u'') int ''tcp'' Tcp None (\<lambda>e. None) 4 [[97, 10, 53, 32, 98]]
    in map raw (cn_dispatched c) = [[97]] \<and> cn_closed c"
    by (simp add: is_digit_byte_def int_of_digits_def int_max_str_digits_def stream_bytes_def Let_def)
  define c where "c = handle_client (\<lambda>b. b) (\<lambda>i. ''u'') int ''tcp'' Tcp None (\<lambda>e. None) 4 [replicate 4301 48 @ [32]]"
  from bad_count_ends_connection [OF _ small, of "[]" "replicate 4301 48" "[replicate 4301 48 @ [32]]" "[]", OF _ _ _ _ _ c_def]
  have "case cn_end c of TaskFailed x \<Rightarrow> int_max_str_digits < length (replicate 4301 (48 :: byte)) \<and> is_value_error x
      | Misframed w \<Rightarrow> length (replicate 4301 (48 :: byte)) \<le> int_max_str_digits | Eof \<Rightarrow> False"
    by (simp add: is_digit_byte_def int_of_digits_def int_max_str_digits_def stream_bytes_def list_all_iff)
  then have "cn_end c \<noteq> Eof \<and> (\<nexists>w. cn_end c = Misframed w)"
    by (cases "cn_end c") (simp_all add: int_max_str_digits_def)
  with 1 show ?thesis by (simp add: Let_def c_def)
qed

end
