(* ===== verification/File_Tail.thy ===== *)
theory File_Tail
  imports Stream_Framing Py_Value
begin

text \<open>
  The file tailer of \<^verbatim>\<open>ulpf/ingest/file_tail.py\<close>: a byte offset per file, persisted across restarts, rotation
  by a change of inode, truncation by a size below the offset, and a partial last line held back. A path on disk is
  missing, not a regular file, or a regular file with an inode and its bytes; \<^verbatim>\<open>stat\<close>, \<^verbatim>\<open>open\<close> and the reads of one
  scan see the same file. The offsets file is represented by what \<^verbatim>\<open>json.loads\<close> makes of it (the order of its
  keys is not observed; of a document that is not an object only that its use raises); \<^verbatim>\<open>read_size\<close> is not negative.
\<close>

section \<open>Lines\<close>

definition split_lines :: "bytes \<Rightarrow> bytes list \<times> bytes" where
  "split_lines data =
     (if 10 \<notin> set data then ([], data)
      else let parts = split_on [10] data
           in (filter (\<lambda>l. l \<noteq> []) (map trim_cr (butlast parts)), last parts))"

section \<open>State\<close>

datatype disk_entry = Missing | Special | Regular int bytes

datatype offsets_file = NoOffsets | CorruptOffsets | Offsets pyval

record file_state =
  fs_inode :: int
  fs_read_pos :: int
  fs_pending :: bytes

record tailer =
  tl_paths :: "string list"
  tl_read_size :: nat
  tl_start_at_end :: bool
  tl_state :: "(string \<times> file_state) list"
  tl_persisted :: pyval
  tl_configured :: bool
  tl_log :: "(string \<times> raw_event) list"
  tl_callback_errors :: "string list"

definition new_tailer :: "nat \<Rightarrow> bool \<Rightarrow> tailer" where
  "new_tailer rs at_end = \<lparr>tl_paths = [], tl_read_size = rs, tl_start_at_end = at_end, tl_state = [],
     tl_persisted = PDict [], tl_configured = False, tl_log = [], tl_callback_errors = []\<rparr>"

definition load_offsets :: "offsets_file \<Rightarrow> pyval" where
  "load_offsets f = (case f of NoOffsets \<Rightarrow> PDict [] | CorruptOffsets \<Rightarrow> PDict [] | Offsets v \<Rightarrow> v)"

definition tl_configure :: "offsets_file \<Rightarrow> string list \<Rightarrow> tailer \<Rightarrow> tailer" where
  "tl_configure f paths t =
     (if tl_configured t then t
      else t\<lparr>tl_paths := paths, tl_persisted := load_offsets f, tl_configured := True\<rparr>)"

text \<open>The committed offset is the read position less the partial line.\<close>

definition committed :: "file_state \<Rightarrow> int" where
  "committed st = max 0 (fs_read_pos st - int (length (fs_pending st)))"

definition offset_entry :: "file_state \<Rightarrow> pyval" where
  "offset_entry st = PDict [(''inode'', PInt (fs_inode st)), (''offset'', PInt (committed st))]"

definition save_offsets :: "tailer \<Rightarrow> (tailer \<times> offsets_file) res" where
  "save_offsets t =
     (case tl_persisted t of
        PDict d \<Rightarrow>
          let data = PDict (fold (\<lambda>(p, st) a. dict_set p (offset_entry st) a) (tl_state t) d)
          in Inr (t\<lparr>tl_persisted := data\<rparr>, Offsets data)
      | _ \<Rightarrow> Inl (TypeError ''object is not iterable''))"

section \<open>Reading\<close>

type_synonym event_maker = "nat \<Rightarrow> string \<Rightarrow> bytes \<Rightarrow> raw_event"

definition tail_event ::
  "(bytes \<Rightarrow> bytes) \<Rightarrow> (nat \<Rightarrow> string) \<Rightarrow> (nat \<Rightarrow> int) \<Rightarrow> (string \<Rightarrow> string) \<Rightarrow> event_maker" where
  "tail_event H uids nows source_id_of i p line = make_raw_event H (uids i) (nows i) line (source_id_of p) File None"

definition tl_emit :: "event_maker \<Rightarrow> (raw_event \<Rightarrow> exn option) \<Rightarrow> string \<Rightarrow> bytes \<Rightarrow> tailer \<Rightarrow> tailer" where
  "tl_emit mk on_event p line t =
     (let e = mk (length (tl_log t)) p line; t1 = t\<lparr>tl_log := tl_log t @ [(p, e)]\<rparr>
      in case on_event e of
           None \<Rightarrow> t1
         | Some x \<Rightarrow> t1\<lparr>tl_callback_errors := tl_callback_errors t1 @ [event_uid e]\<rparr>)"

text \<open>The chunks of one read: the lines they complete, how many bytes were read, the partial line left.\<close>

function read_chunks :: "nat \<Rightarrow> bytes \<Rightarrow> bytes \<Rightarrow> bytes list \<times> nat \<times> bytes" where
  "read_chunks rs pending data =
     (let chunk = take rs data
      in if chunk = [] then ([], 0, pending)
         else (case split_lines (pending @ chunk) of (ls, p) \<Rightarrow>
                 (case read_chunks rs p (drop rs data) of (ls', n, p') \<Rightarrow> (ls @ ls', length chunk + n, p'))))"
  by pat_completeness auto
termination
  by (relation "measure (\<lambda>(rs, pending, data). length data)") auto

declare read_chunks.simps [simp del]

definition read_new ::
  "event_maker \<Rightarrow> (raw_event \<Rightarrow> exn option) \<Rightarrow> string \<Rightarrow> bytes \<Rightarrow> file_state \<Rightarrow> tailer \<Rightarrow> nat res \<times> tailer" where
  "read_new mk on_event p content st t =
     (if int (length content) \<le> fs_read_pos st then (Inr 0, t)
      else if fs_read_pos st < 0 then (Inl (OSError ''Invalid argument''), t)
      else (case read_chunks (tl_read_size t) (fs_pending st) (drop (nat (fs_read_pos st)) content) of
              (lines, n, pending) \<Rightarrow>
                (Inr (length lines),
                 (fold (tl_emit mk on_event p) lines t)
                   \<lparr>tl_state := dict_set p (st\<lparr>fs_read_pos := fs_read_pos st + int n, fs_pending := pending\<rparr>) (tl_state t)\<rparr>)))"

text \<open>First sight of a file: resume at a saved offset of the same inode.\<close>

definition initial_state :: "string \<Rightarrow> int \<Rightarrow> int \<Rightarrow> tailer \<Rightarrow> file_state res" where
  "initial_state p inode sz t =
     (let fresh = \<lparr>fs_inode = inode, fs_read_pos = (if tl_start_at_end t then sz else 0), fs_pending = []\<rparr>
      in case tl_persisted t of
           PDict d \<Rightarrow>
             (let saved = py_get d p
              in if \<not> py_truth saved then Inr fresh
                 else case saved of
                        PDict s \<Rightarrow>
                          if py_get s ''inode'' = PInt inode
                          then bind_res (py_item saved ''offset'') (\<lambda>v. bind_res (py_int v) (\<lambda>off.
                                 Inr \<lparr>fs_inode = inode, fs_read_pos = min off sz, fs_pending = []\<rparr>))
                          else Inr fresh
                      | _ \<Rightarrow> Inl (AttributeError ''get''))
         | _ \<Rightarrow> Inl (AttributeError ''get''))"

definition reconcile :: "string \<Rightarrow> int \<Rightarrow> int \<Rightarrow> tailer \<Rightarrow> file_state res" where
  "reconcile p inode sz t =
     (case map_of (tl_state t) p of
        None \<Rightarrow> initial_state p inode sz t
      | Some st \<Rightarrow>
          if inode \<noteq> fs_inode st then Inr \<lparr>fs_inode = inode, fs_read_pos = 0, fs_pending = []\<rparr>
          else if sz < fs_read_pos st then Inr (st\<lparr>fs_read_pos := 0, fs_pending := []\<rparr>)
          else Inr st)"

definition scan_file ::
  "event_maker \<Rightarrow> (raw_event \<Rightarrow> exn option) \<Rightarrow> (string \<Rightarrow> disk_entry) \<Rightarrow> string \<Rightarrow> tailer \<Rightarrow> nat res \<times> tailer" where
  "scan_file mk on_event disk p t =
     (case disk p of
        Missing \<Rightarrow> (Inr 0, t)
      | Special \<Rightarrow> (Inr 0, t)
      | Regular inode content \<Rightarrow>
          (case reconcile p inode (int (length content)) t of
             Inl x \<Rightarrow> (Inl x, t)
           | Inr st \<Rightarrow> read_new mk on_event p content st (t\<lparr>tl_state := dict_set p st (tl_state t)\<rparr>)))"

fun scan_paths ::
  "event_maker \<Rightarrow> (raw_event \<Rightarrow> exn option) \<Rightarrow> (string \<Rightarrow> disk_entry) \<Rightarrow> string list \<Rightarrow> tailer \<Rightarrow> nat res \<times> tailer" where
  "scan_paths mk on_event disk [] t = (Inr 0, t)"
| "scan_paths mk on_event disk (p # ps) t =
     (case scan_file mk on_event disk p t of
        (Inl x, t1) \<Rightarrow> (Inl x, t1)
      | (Inr n, t1) \<Rightarrow>
          (case scan_paths mk on_event disk ps t1 of
             (Inl x, t2) \<Rightarrow> (Inl x, t2) | (Inr k, t2) \<Rightarrow> (Inr (n + k), t2)))"

text \<open>One scan of every path; the offsets file is rewritten when a line was emitted.\<close>

definition scan_all ::
  "event_maker \<Rightarrow> (raw_event \<Rightarrow> exn option) \<Rightarrow> (string \<Rightarrow> disk_entry) \<Rightarrow> tailer \<times> offsets_file \<Rightarrow> nat res \<times> tailer \<times> offsets_file" where
  "scan_all mk on_event disk tf =
     (case scan_paths mk on_event disk (tl_paths (fst tf)) (fst tf) of
        (Inl x, t) \<Rightarrow> (Inl x, t, snd tf)
      | (Inr n, t) \<Rightarrow>
          if n = 0 then (Inr n, t, snd tf)
          else (case save_offsets t of Inl x \<Rightarrow> (Inl x, t, snd tf) | Inr (t', f') \<Rightarrow> (Inr n, t', f')))"

definition poll_once ::
  "event_maker \<Rightarrow> (raw_event \<Rightarrow> exn option) \<Rightarrow> (string \<Rightarrow> disk_entry) \<Rightarrow> string list \<Rightarrow> tailer \<times> offsets_file
    \<Rightarrow> nat res \<times> tailer \<times> offsets_file" where
  "poll_once mk on_event disk paths tf =
     (case scan_all mk on_event disk (tl_configure (snd tf) paths (fst tf), snd tf) of
        (Inl x, r) \<Rightarrow> (Inl x, r)
      | (Inr n, t, f) \<Rightarrow> (case save_offsets t of Inl x \<Rightarrow> (Inl x, t, f) | Inr (t', f') \<Rightarrow> (Inr n, t', f')))"

text \<open>
  \<^verbatim>\<open>watch\<close> on the successive states of the disk, one per scan; \<^verbatim>\<open>stop\<close> is the end of the list. Its \<^verbatim>\<open>finally\<close> saves the
  offsets, also when a scan raised.
\<close>

fun watch_scans ::
  "event_maker \<Rightarrow> (raw_event \<Rightarrow> exn option) \<Rightarrow> (string \<Rightarrow> disk_entry) list \<Rightarrow> tailer \<times> offsets_file
    \<Rightarrow> exn option \<times> tailer \<times> offsets_file" where
  "watch_scans mk on_event [] tf = (None, tf)"
| "watch_scans mk on_event (disk # disks) tf =
     (case scan_all mk on_event disk tf of
        (Inl x, tf') \<Rightarrow> (Some x, tf')
      | (Inr n, tf') \<Rightarrow> watch_scans mk on_event disks tf')"

definition watch ::
  "event_maker \<Rightarrow> (raw_event \<Rightarrow> exn option) \<Rightarrow> (string \<Rightarrow> disk_entry) list \<Rightarrow> string list \<Rightarrow> tailer \<times> offsets_file
    \<Rightarrow> exn option \<times> tailer \<times> offsets_file" where
  "watch mk on_event disks paths tf =
     (case watch_scans mk on_event disks (tl_configure (snd tf) paths (fst tf), snd tf) of
        (x, t, f) \<Rightarrow> (case save_offsets t of Inl y \<Rightarrow> (Some y, t, f) | Inr (t', f') \<Rightarrow> (x, t', f')))"

section \<open>Lines do not depend on how the bytes are read\<close>

lemma split_on_last: "10 \<notin> set (last (split_on [10] (s :: bytes)))"
proof (induction "[10 :: byte]" s rule: split_on.induct)
  case (1 s)
  then show ?case
    by (subst split_on.simps) (auto split: option.splits simp: find_sub_single_None)
qed

lemma split_on_butlast_append:
  "split_on [10] (s @ x) = butlast (split_on [10] s) @ split_on [10] (last (split_on [10] s) @ (x :: bytes))"
proof (induction "[10 :: byte]" s rule: split_on.induct)
  case (1 s)
  show ?case
  proof (cases "find_sub [10] s")
    case None
    then show ?thesis by (simp add: split_on.simps [of _ s])
  next
    case (Some ab)
    obtain a b where ab: "ab = (a, b)" by (cases ab)
    have "split_on [10] (s @ x) = a # split_on [10] (b @ x)"
      using find_sub_more [of 10 s a b x] Some ab by (subst split_on.simps) simp
    then show ?thesis using "1.hyps" [OF _ Some [unfolded ab]] Some ab by (simp add: split_on.simps [of _ s])
  qed
qed

lemma split_lines_alt:
  "split_lines s = (filter (\<lambda>l. l \<noteq> []) (map trim_cr (butlast (split_on [10] s))), last (split_on [10] s))"
  by (simp add: split_lines_def split_on_single_none Let_def)

lemma split_lines_append:
  "split_lines (s @ x) = (case split_lines s of (ls, p) \<Rightarrow> (case split_lines (p @ x) of (ls', q) \<Rightarrow> (ls @ ls', q)))"
  by (simp add: split_lines_alt split_on_butlast_append [of s x] butlast_append)

lemma read_chunks_lines:
  "0 < rs \<Longrightarrow> read_chunks rs pending data =
     (if data = [] then ([], 0, pending)
      else (fst (split_lines (pending @ data)), length data, snd (split_lines (pending @ data))))"
proof (induction rs pending data rule: read_chunks.induct)
  case (1 rs pending data)
  show ?case
  proof (cases "data = []")
    case True
    then show ?thesis by (simp add: read_chunks.simps)
  next
    case False
    obtain ls p where sp: "split_lines (pending @ take rs data) = (ls, p)" by fastforce
    have all: "split_lines (pending @ data) = (case split_lines (p @ drop rs data) of (ls', q) \<Rightarrow> (ls @ ls', q))"
      using split_lines_append [of "pending @ take rs data" "drop rs data"] sp by simp
    have p: "split_lines p = ([], p)"
      using sp split_on_last [of "pending @ take rs data"] by (auto simp: split_lines_alt split_on_single_none)
    have ne: "take rs data \<noteq> []" using False "1.prems" by simp
    note IH = "1.IH" [OF refl ne sp [symmetric] "1.prems"]
    show ?thesis
      using False ne sp p all
      by (subst read_chunks.simps) (auto simp: Let_def IH split: prod.splits)
  qed
qed

section \<open>Every line once, across scans and restarts\<close>

text \<open>
  The complete lines of a file, and what is left after the last line feed. A file that is only appended to keeps its
  inode; the tailer is restarted at will, with the offsets file it saved.
\<close>

definition complete_lines :: "bytes \<Rightarrow> bytes list" where
  "complete_lines c = fst (split_lines c)"

record tail_system =
  sy_disk :: "string \<Rightarrow> disk_entry"
  sy_tailer :: tailer
  sy_offsets :: offsets_file
  sy_log :: "(string \<times> raw_event) list"

datatype tail_action =
    Append string bytes
  | Poll
  | Restart

definition append_to :: "string \<Rightarrow> bytes \<Rightarrow> (string \<Rightarrow> disk_entry) \<Rightarrow> string \<Rightarrow> disk_entry" where
  "append_to p x disk =
     (case disk p of Regular inode c \<Rightarrow> disk(p := Regular inode (c @ x)) | _ \<Rightarrow> disk)"

definition tail_step ::
  "event_maker \<Rightarrow> (raw_event \<Rightarrow> exn option) \<Rightarrow> string list \<Rightarrow> tail_action \<Rightarrow> tail_system \<Rightarrow> tail_system" where
  "tail_step mk on_event paths k s =
     (case k of
        Append p x \<Rightarrow> s\<lparr>sy_disk := append_to p x (sy_disk s)\<rparr>
      | Poll \<Rightarrow> (case poll_once mk on_event (sy_disk s) paths (sy_tailer s, sy_offsets s) of
                  (r, t, f) \<Rightarrow> s\<lparr>sy_tailer := t, sy_offsets := f\<rparr>)
      | Restart \<Rightarrow> s\<lparr>sy_tailer := new_tailer (tl_read_size (sy_tailer s)) (tl_start_at_end (sy_tailer s)),
                     sy_log := sy_log s @ tl_log (sy_tailer s)\<rparr>)"

definition start_system :: "nat \<Rightarrow> (string \<Rightarrow> disk_entry) \<Rightarrow> tail_system" where
  "start_system rs disk = \<lparr>sy_disk = disk, sy_tailer = new_tailer rs False, sy_offsets = NoOffsets, sy_log = []\<rparr>"

text \<open>The lines of a path, in the order they were handed on, by this process and those before it.\<close>

definition lines_of :: "string \<Rightarrow> tail_system \<Rightarrow> bytes list" where
  "lines_of p s = map (raw \<circ> snd) (filter (\<lambda>x. fst x = p) (sy_log s @ tl_log (sy_tailer s)))"

definition content_of :: "disk_entry \<Rightarrow> bytes" where
  "content_of d = (case d of Regular inode c \<Rightarrow> c | _ \<Rightarrow> [])"

definition covers :: "bytes \<Rightarrow> int \<Rightarrow> bytes \<Rightarrow> bytes list \<Rightarrow> bool" where
  "covers c off pending ls \<longleftrightarrow> 0 \<le> off \<and> off \<le> int (length c) \<and> split_lines (take (nat off) c) = (ls, pending)"

definition saved_ok :: "disk_entry \<Rightarrow> pyval option \<Rightarrow> bytes list \<Rightarrow> bool" where
  "saved_ok entry e ls =
     (case e of
        None \<Rightarrow> ls = []
      | Some v \<Rightarrow>
          (case entry of
             Regular i c \<Rightarrow> (\<exists>off. v = PDict [(''inode'', PInt i), (''offset'', PInt off)] \<and> covers c off [] ls)
           | _ \<Rightarrow> False))"

definition state_ok :: "disk_entry \<Rightarrow> file_state \<Rightarrow> bytes list \<Rightarrow> bool" where
  "state_ok entry st ls =
     (case entry of Regular i c \<Rightarrow> fs_inode st = i \<and> covers c (fs_read_pos st) (fs_pending st) ls | _ \<Rightarrow> False)"

definition logged :: "(string \<times> raw_event) list \<Rightarrow> tailer \<Rightarrow> string \<Rightarrow> bytes list" where
  "logged older t p = map (raw \<circ> snd) (filter (\<lambda>x. fst x = p) (older @ tl_log t))"

text \<open>A path that was read stands where its lines end; one that was not stands at its saved offset.\<close>

definition tail_ok :: "(string \<Rightarrow> disk_entry) \<Rightarrow> (string \<times> raw_event) list \<Rightarrow> tailer \<Rightarrow> bool" where
  "tail_ok disk older t \<longleftrightarrow> 0 < tl_read_size t \<and> \<not> tl_start_at_end t \<and> dict_ok (tl_state t) \<and>
     (\<exists>d. tl_persisted t = PDict d \<and>
       (\<forall>p. case map_of (tl_state t) p of
              Some st \<Rightarrow> state_ok (disk p) st (logged older t p)
            | None \<Rightarrow> saved_ok (disk p) (map_of d p) (logged older t p)))"

definition offsets_ok :: "(string \<Rightarrow> disk_entry) \<Rightarrow> (string \<Rightarrow> bytes list) \<Rightarrow> offsets_file \<Rightarrow> bool" where
  "offsets_ok disk ls f \<longleftrightarrow> (\<exists>d. load_offsets f = PDict d \<and> (\<forall>p. saved_ok (disk p) (map_of d p) (ls p)))"

lemma split_on_parts:
  "split_on [10] s = [s] \<and> 10 \<notin> set (s :: bytes) \<or>
   (\<exists>u. s = u @ last (split_on [10] s) \<and> split_on [10] u = butlast (split_on [10] s) @ [[]])"
proof (induction "[10 :: byte]" s rule: split_on.induct)
  case (1 s)
  show ?case
  proof (cases "find_sub [10] s")
    case None
    then have "10 \<notin> set s" by (simp add: find_sub_single_None)
    then show ?thesis by (simp add: split_on_single_none)
  next
    case (Some ab)
    obtain a b where ab: "ab = (a, b)" by (cases ab)
    then have s: "s = a @ 10 # b" using find_sub_Some [of "[10]" s a b] Some by simp
    have sp: "split_on [10] s = a # split_on [10] b" using Some ab by (simp add: split_on.simps [of _ s])
    have a: "10 \<notin> set a"
    proof
      assume "10 \<in> set a"
      then obtain y z where "a = y @ 10 # z" "10 \<notin> set y" by (metis split_list_first)
      then show False using find_sub_single [of 10 y "z @ 10 # b"] Some ab s by simp
    qed
    have "\<exists>u. b = u @ last (split_on [10] b) \<and> split_on [10] u = butlast (split_on [10] b) @ [[]]"
      using "1.hyps" [OF _ Some [unfolded ab] refl] by (auto intro: exI [of _ "[]"] simp: split_on_single_none)
    then obtain u where "b = u @ last (split_on [10] b)" "split_on [10] u = butlast (split_on [10] b) @ [[]]" by blast
    then have "s = (a @ 10 # u) @ last (split_on [10] s) \<and> split_on [10] (a @ 10 # u) = butlast (split_on [10] s) @ [[]]"
      using s sp a by (simp add: split_on_single_step)
    then show ?thesis by blast
  qed
qed

lemma split_lines_cut:
  assumes "split_lines s = (ls, p)"
  shows "\<exists>u. s = u @ p \<and> split_lines u = (ls, [])"
  using split_on_parts [of s]
proof
  assume "split_on [10] s = [s] \<and> 10 \<notin> set s"
  then show ?thesis using assms by (auto simp: split_lines_alt split_on_single_none intro: exI [of _ "[]"])
next
  assume "\<exists>u. s = u @ last (split_on [10] s) \<and> split_on [10] u = butlast (split_on [10] s) @ [[]]"
  then show ?thesis using assms by (auto simp: split_lines_alt)
qed

text \<open>The committed offset is a line boundary that covers the same lines.\<close>

lemma covers_committed:
  assumes "covers c (fs_read_pos st) (fs_pending st) ls"
  shows "covers c (committed st) [] ls"
proof -
  let ?r = "nat (fs_read_pos st)"
  obtain u where u: "take ?r c = u @ fs_pending st" "split_lines u = (ls, [])"
    using split_lines_cut assms unfolding covers_def by blast
  have "length u + length (fs_pending st) = ?r"
    using arg_cong [OF u(1), of length] assms by (auto simp: covers_def)
  then have at: "nat (fs_read_pos st - int (length (fs_pending st))) = length u"
    and le: "length (fs_pending st) \<le> ?r" "length u \<le> length c"
    using assms by (auto simp: covers_def)
  have "take (length u) c = u"
    using u(1) by (metis append_eq_conv_conj append_take_drop_id append_assoc)
  then show ?thesis
    using assms u(2) at le by (auto simp: covers_def committed_def max_def)
qed

lemma covers_more: "covers c off p ls \<Longrightarrow> covers (c @ x) off p ls"
  by (auto simp: covers_def)

lemma saved_ok_offset: "state_ok entry st ls \<Longrightarrow> saved_ok entry (Some (offset_entry st)) ls"
  by (auto simp: saved_ok_def state_ok_def offset_entry_def covers_committed split: disk_entry.splits)

text \<open>Reading to the end of a covered file.\<close>

lemma read_rest:
  assumes "covers c off pending ls" and "off < int (length c)" and "0 < rs"
  shows "\<exists>ls' q. read_chunks rs pending (drop (nat off) c) = (ls', length c - nat off, q)
     \<and> covers c (int (length c)) q (ls @ ls') \<and> ls @ ls' = complete_lines c"
proof -
  have "split_lines c = (case split_lines (pending @ drop (nat off) c) of (ls', q) \<Rightarrow> (ls @ ls', q))"
    using split_lines_append [of "take (nat off) c" "drop (nat off) c"] assms(1) by (simp add: covers_def)
  then show ?thesis
    using assms read_chunks_lines [OF assms(3), of pending "drop (nat off) c"]
    by (auto simp: covers_def complete_lines_def split: prod.splits)
qed

lemma covers_all: "covers c (int (length c)) q ls \<Longrightarrow> ls = complete_lines c"
  by (simp add: covers_def complete_lines_def)

definition same_setup :: "tailer \<Rightarrow> tailer \<Rightarrow> bool" where
  "same_setup t t' \<longleftrightarrow> tl_paths t' = tl_paths t \<and> tl_read_size t' = tl_read_size t \<and> tl_start_at_end t' = tl_start_at_end t
     \<and> tl_persisted t' = tl_persisted t \<and> tl_configured t' = tl_configured t"

lemma same_setup_refl [simp]: "same_setup t t"
  and same_setup_trans: "same_setup t t' \<Longrightarrow> same_setup t' t'' \<Longrightarrow> same_setup t t''"
  and same_setup_state [simp]: "same_setup t (t'\<lparr>tl_state := s\<rparr>) = same_setup t t'"
  by (auto simp: same_setup_def)

lemma logged_state [simp]: "logged older (t\<lparr>tl_state := s\<rparr>) = logged older t" "logged older (t\<lparr>tl_persisted := v\<rparr>) = logged older t"
  by (auto simp: logged_def)

lemma emit_lines:
  fixes H uids nows sid on_event p
  defines "step \<equiv> tl_emit (tail_event H uids nows sid) on_event p"
  shows "same_setup t (fold step ls t) \<and> tl_state (fold step ls t) = tl_state t
    \<and> logged older (fold step ls t) q = logged older t q @ (if q = p then ls else [])"
proof (induction ls arbitrary: t)
  case (Cons l ls)
  have "same_setup t (step l t)" "tl_state (step l t) = tl_state t"
    "logged older (step l t) q = logged older t q @ (if q = p then [l] else [])"
    by (simp_all add: step_def tl_emit_def same_setup_def logged_def tail_event_def make_raw_event_def Let_def split: option.splits)
  then show ?case using Cons.IH [of "step l t"] by (auto intro: same_setup_trans)
qed simp

lemma initial_state_ok:
  assumes "saved_ok (Regular i c) (map_of d p) ls" and "tl_persisted t = PDict d" and "\<not> tl_start_at_end t"
  shows "\<exists>st. initial_state p i (int (length c)) t = Inr st \<and> state_ok (Regular i c) st ls"
proof (cases "map_of d p")
  case None
  then show ?thesis
    using assms by (simp add: initial_state_def py_get_def saved_ok_def state_ok_def covers_def split_lines_def)
next
  case (Some v)
  then obtain off where off: "v = PDict [(''inode'', PInt i), (''offset'', PInt off)]" "covers c off [] ls"
    using assms(1) by (auto simp: saved_ok_def)
  then have "min off (int (length c)) = off" by (simp add: covers_def)
  then show ?thesis
    using Some off assms(2) by (simp add: initial_state_def py_get_def py_item_def py_int_def state_ok_def)
qed

lemma reconcile_ok:
  assumes "tail_ok disk older t" and "disk p = Regular i c"
  shows "\<exists>st. reconcile p i (int (length c)) t = Inr st \<and> state_ok (disk p) st (logged older t p)"
proof (cases "map_of (tl_state t) p")
  case None
  obtain d where d: "tl_persisted t = PDict d" "saved_ok (disk p) (map_of d p) (logged older t p)"
    using assms(1) None unfolding tail_ok_def by (metis option.simps(4))
  then show ?thesis
    using initial_state_ok [of i c d p] None assms by (simp add: reconcile_def tail_ok_def)
next
  case (Some st)
  then have "state_ok (disk p) st (logged older t p)"
    using assms(1) unfolding tail_ok_def by (metis option.simps(5))
  then show ?thesis using Some assms(2) by (simp add: reconcile_def state_ok_def covers_def)
qed

lemma tail_ok_set:
  assumes ok: "tail_ok disk older t" and conf: "same_setup t t'"
    and others: "\<And>q. q \<noteq> p \<Longrightarrow> map_of (tl_state t') q = map_of (tl_state t) q \<and> logged older t' q = logged older t q"
    and keys: "dict_ok (tl_state t')" and this_path: "map_of (tl_state t') p = Some st" "state_ok (disk p) st (logged older t' p)"
  shows "tail_ok disk older t'"
proof -
  obtain d where d: "tl_persisted t = PDict d" and each: "\<And>q. case map_of (tl_state t) q of
      Some st \<Rightarrow> state_ok (disk q) st (logged older t q) | None \<Rightarrow> saved_ok (disk q) (map_of d q) (logged older t q)"
    using ok unfolding tail_ok_def by blast
  have "case map_of (tl_state t') q of
      Some st \<Rightarrow> state_ok (disk q) st (logged older t' q) | None \<Rightarrow> saved_ok (disk q) (map_of d q) (logged older t' q)" for q
    using each [of q] others [of q] this_path
    by (cases "q = p"; cases "map_of (tl_state t) q") auto
  then show ?thesis using ok conf d keys by (auto simp: tail_ok_def same_setup_def)
qed

lemma nothing_logged:
  assumes "tail_ok disk older t" and "case disk p of Regular _ _ \<Rightarrow> False | _ \<Rightarrow> True"
  shows "logged older t p = []"
proof -
  obtain d where "case map_of (tl_state t) p of
      Some st \<Rightarrow> state_ok (disk p) st (logged older t p) | None \<Rightarrow> saved_ok (disk p) (map_of d p) (logged older t p)"
    using assms(1) unfolding tail_ok_def by blast
  then show ?thesis
    using assms(2) by (auto simp: state_ok_def saved_ok_def split: option.splits disk_entry.splits)
qed

text \<open>One scan of a file that is there: its lines are complete, and nothing else changes.\<close>

lemma scan_file_ok:
  fixes H uids nows sid
  defines "mk \<equiv> tail_event H uids nows sid"
  assumes ok: "tail_ok disk older t" and r: "scan_file mk on_event disk p t = (r, t')"
  shows "(\<exists>n. r = Inr n) \<and> tail_ok disk older t' \<and> same_setup t t'
    \<and> logged older t' p = complete_lines (content_of (disk p)) \<and> (\<forall>q. q \<noteq> p \<longrightarrow> logged older t' q = logged older t q)"
proof (cases "disk p")
  case (Regular i c)
  obtain st where st: "reconcile p i (int (length c)) t = Inr st" "state_ok (disk p) st (logged older t p)"
    using reconcile_ok [OF ok Regular] by blast
  let ?t1 = "t\<lparr>tl_state := dict_set p st (tl_state t)\<rparr>"
  have cov: "covers c (fs_read_pos st) (fs_pending st) (logged older t p)" "fs_inode st = i"
    using st(2) Regular by (simp_all add: state_ok_def)
  have rn: "read_new mk on_event p c st ?t1 = (r, t')"
    using r Regular st(1) by (simp add: scan_file_def)
  show ?thesis
  proof (cases "int (length c) \<le> fs_read_pos st")
    case True
    then have "fs_read_pos st = int (length c)" using cov by (simp add: covers_def)
    then have "logged older t p = complete_lines c" using cov by (auto dest: covers_all)
    moreover have "tail_ok disk older ?t1" by (rule tail_ok_set [OF ok, of _ p st]) (use ok in \<open>simp_all add: st(2) tail_ok_def\<close>)
    ultimately show ?thesis using True rn Regular by (auto simp: read_new_def content_of_def)
  next
    case False
    have rs: "0 < tl_read_size ?t1" using ok by (simp add: tail_ok_def)
    obtain ls' q where q: "read_chunks (tl_read_size ?t1) (fs_pending st) (drop (nat (fs_read_pos st)) c)
        = (ls', length c - nat (fs_read_pos st), q)"
      and cov': "covers c (int (length c)) q (logged older t p @ ls')" "logged older t p @ ls' = complete_lines c"
      using read_rest [OF cov(1) _ rs] False by auto
    let ?t2 = "fold (tl_emit mk on_event p) ls' ?t1"
    let ?st = "st\<lparr>fs_read_pos := int (length c), fs_pending := q\<rparr>"
    have pos: "fs_read_pos st + int (length c - nat (fs_read_pos st)) = int (length c)"
      using False cov(1) by (simp add: covers_def)
    have t': "r = Inr (length ls')" "t' = ?t2\<lparr>tl_state := dict_set p ?st (tl_state ?t1)\<rparr>"
      using rn False cov(1) q pos by (auto simp: read_new_def covers_def)
    have t2: "same_setup ?t1 ?t2" "tl_state ?t2 = dict_set p st (tl_state t)"
      "\<And>z. logged older ?t2 z = logged older t z @ (if z = p then ls' else [])"
      using emit_lines [of ?t1 H uids nows sid on_event p ls' older] by (simp_all add: mk_def)
    have conf: "same_setup t t'" using t2(1) t'(2) by (simp add: same_setup_def)
    have "state_ok (disk p) ?st (logged older t' p)"
      using cov' cov(2) Regular pos t'(2) t2(3) [of p] by (simp add: state_ok_def)
    then have "tail_ok disk older t'"
      by (intro tail_ok_set [OF ok conf, of p]) (use ok in \<open>simp_all add: t'(2) t2(2,3) tail_ok_def\<close>)
    then show ?thesis
      using t'(1) conf cov' Regular by (auto simp: t'(2) t2(3) content_of_def)
  qed
qed (use nothing_logged [OF ok, of p] ok r in \<open>auto simp: scan_file_def content_of_def complete_lines_def split_lines_def\<close>)

text \<open>All paths, the offsets file, and a whole poll.\<close>

lemma scan_paths_ok:
  fixes H uids nows sid
  defines "mk \<equiv> tail_event H uids nows sid"
  shows "tail_ok disk older t \<Longrightarrow> scan_paths mk on_event disk ps t = (r, t') \<Longrightarrow>
    (\<exists>n. r = Inr n) \<and> tail_ok disk older t' \<and> same_setup t t'
    \<and> (\<forall>q. logged older t' q = (if q \<in> set ps then complete_lines (content_of (disk q)) else logged older t q))"
proof (induction ps arbitrary: t r t')
  case (Cons p ps)
  obtain r1 t1 where one: "scan_file mk on_event disk p t = (r1, t1)" by (cases "scan_file mk on_event disk p t")
  note step = scan_file_ok [OF Cons.prems(1) one [unfolded mk_def]]
  then obtain n where n: "r1 = Inr n" by blast
  obtain r2 t2 where rest: "scan_paths mk on_event disk ps t1 = (r2, t2)" by (cases "scan_paths mk on_event disk ps t1")
  note IH = Cons.IH [OF _ rest]
  have "\<exists>k. r2 = Inr k" using IH step by blast
  then have "t' = t2" "\<exists>n. r = Inr n" using Cons.prems(2) one n rest by auto
  then show ?case using IH step same_setup_trans [of t t1 t2] by auto
qed auto

lemma map_of_saves:
  "distinct (map fst sts) \<Longrightarrow> map_of (fold (\<lambda>(p, st) a. dict_set p (f st) a) sts d) q =
     (case map_of sts q of Some st \<Rightarrow> Some (f st) | None \<Rightarrow> map_of d q)"
proof (induction sts arbitrary: d)
  case (Cons x sts)
  then show ?case
    by (cases x) (auto split: option.splits simp: image_iff dest: map_of_SomeD)
qed simp

lemma save_offsets_ok:
  assumes "tail_ok disk older t"
  shows "\<exists>t' f'. save_offsets t = Inr (t', f') \<and> tail_ok disk older t' \<and> tl_state t' = tl_state t \<and> tl_log t' = tl_log t
     \<and> tl_paths t' = tl_paths t \<and> tl_configured t' = tl_configured t \<and> offsets_ok disk (logged older t') f'"
proof -
  obtain d where d: "tl_persisted t = PDict d" and each: "\<And>q. case map_of (tl_state t) q of
      Some st \<Rightarrow> state_ok (disk q) st (logged older t q) | None \<Rightarrow> saved_ok (disk q) (map_of d q) (logged older t q)"
    using assms unfolding tail_ok_def by blast
  let ?data = "fold (\<lambda>(p, st) a. dict_set p (offset_entry st) a) (tl_state t) d"
  let ?t = "t\<lparr>tl_persisted := PDict ?data\<rparr>"
  have "distinct (map fst (tl_state t))" using assms by (simp add: tail_ok_def dict_ok_def)
  note saves = map_of_saves [OF this, of offset_entry d]
  have saved: "saved_ok (disk q) (map_of ?data q) (logged older t q)" for q
    using each [of q] by (cases "map_of (tl_state t) q") (simp_all add: saves saved_ok_offset)
  moreover have "tail_ok disk older ?t"
    unfolding tail_ok_def
  proof (intro conjI exI allI)
    show "case map_of (tl_state ?t) q of Some st \<Rightarrow> state_ok (disk q) st (logged older ?t q)
        | None \<Rightarrow> saved_ok (disk q) (map_of ?data q) (logged older ?t q)" for q
      using each [of q] saved [of q] by (cases "map_of (tl_state t) q") simp_all
  qed (use assms in \<open>simp_all add: tail_ok_def\<close>)
  ultimately show ?thesis by (auto simp: save_offsets_def d offsets_ok_def load_offsets_def Let_def)
qed

lemma poll_ok:
  fixes H uids nows sid
  defines "mk \<equiv> tail_event H uids nows sid"
  assumes ok: "tail_ok disk older t" and paths: "tl_configured t" "tl_paths t = paths"
    and r: "poll_once mk on_event disk paths (t, f) = (r, t', f')"
  shows "tail_ok disk older t' \<and> tl_configured t' \<and> tl_paths t' = paths \<and> offsets_ok disk (logged older t') f'
    \<and> (\<forall>q. logged older t' q = (if q \<in> set paths then complete_lines (content_of (disk q)) else logged older t q))"
proof -
  obtain r1 t1 where one: "scan_paths mk on_event disk paths t = (r1, t1)" by (cases "scan_paths mk on_event disk paths t")
  note scan = scan_paths_ok [OF ok one [unfolded mk_def]]
  obtain n where n: "r1 = Inr n" using scan by blast
  have s1: "tail_ok disk older t1" "tl_configured t1" "tl_paths t1 = paths" using scan paths by (auto simp: same_setup_def)
  obtain t2 f2 where two: "scan_all mk on_event disk (t, f) = (Inr n, t2, f2)" "tail_ok disk older t2" "tl_configured t2"
    "tl_paths t2 = paths" "tl_log t2 = tl_log t1"
  proof (cases "n = 0")
    case True
    then show ?thesis using that [of t1 f] one n s1 paths by (simp add: scan_all_def)
  next
    case False
    then show ?thesis using save_offsets_ok [OF s1(1)] that one n s1 paths by (fastforce simp: scan_all_def)
  qed
  obtain t3 f3 where three: "save_offsets t2 = Inr (t3, f3)" "tail_ok disk older t3" "tl_log t3 = tl_log t2"
    "tl_configured t3" "tl_paths t3 = paths" "offsets_ok disk (logged older t3) f3"
    using save_offsets_ok [OF two(2)] two by auto
  have "t' = t3" "f' = f3" using r paths two(1) three(1) by (simp_all add: poll_once_def tl_configure_def)
  moreover have "logged older t3 = logged older t1" by (simp add: logged_def three(3) two(5) fun_eq_iff)
  ultimately show ?thesis using three scan by auto
qed

definition system_ok :: "string list \<Rightarrow> tail_system \<Rightarrow> bool" where
  "system_ok paths s \<longleftrightarrow>
     (let t = sy_tailer s
      in offsets_ok (sy_disk s) (\<lambda>p. lines_of p s) (sy_offsets s) \<and> (\<forall>p. p \<notin> set paths \<longrightarrow> lines_of p s = []) \<and>
         (if tl_configured t then tl_paths t = paths \<and> tail_ok (sy_disk s) (sy_log s) t
          else 0 < tl_read_size t \<and> \<not> tl_start_at_end t \<and> tl_state t = [] \<and> tl_log t = []))"

lemma lines_logged: "lines_of p s = logged (sy_log s) (sy_tailer s) p"
  by (simp add: lines_of_def logged_def)

lemma append_ok:
  "saved_ok (disk q) e ls \<Longrightarrow> saved_ok (append_to p x disk q) e ls"
  "state_ok (disk q) st ls \<Longrightarrow> state_ok (append_to p x disk q) st ls"
  by (auto simp: append_to_def saved_ok_def state_ok_def covers_more split: disk_entry.splits option.splits)

lemma tail_ok_append: "tail_ok disk older t \<Longrightarrow> tail_ok (append_to p x disk) older t"
proof -
  assume ok: "tail_ok disk older t"
  then obtain d where d: "tl_persisted t = PDict d" and each: "\<And>q. case map_of (tl_state t) q of
      Some st \<Rightarrow> state_ok (disk q) st (logged older t q) | None \<Rightarrow> saved_ok (disk q) (map_of d q) (logged older t q)"
    unfolding tail_ok_def by blast
  have "case map_of (tl_state t) q of Some st \<Rightarrow> state_ok (append_to p x disk q) st (logged older t q)
      | None \<Rightarrow> saved_ok (append_to p x disk q) (map_of d q) (logged older t q)" for q
    using each [of q] by (cases "map_of (tl_state t) q") (simp_all add: append_ok)
  then show ?thesis using ok d by (auto simp: tail_ok_def)
qed

lemma poll_system:
  fixes H uids nows sid
  assumes "system_ok paths s"
  shows "(let s' = tail_step (tail_event H uids nows sid) on_event paths Poll s
    in system_ok paths s' \<and> (\<forall>p. lines_of p s' = (if p \<in> set paths then complete_lines (content_of (sy_disk s p)) else []) \<and> sy_disk s' = sy_disk s))"
proof -
  let ?t = "tl_configure (sy_offsets s) paths (sy_tailer s)"
  have ok: "tail_ok (sy_disk s) (sy_log s) ?t" "tl_configured ?t" "tl_paths ?t = paths"
    using assms
    by (auto simp: system_ok_def tl_configure_def tail_ok_def offsets_ok_def lines_logged logged_def Let_def split: if_splits)
  have watched: "\<And>p. p \<notin> set paths \<Longrightarrow> logged (sy_log s) ?t p = []"
    using assms by (auto simp: system_ok_def lines_logged tl_configure_def logged_def Let_def)
  have "poll_once mk on_event disk paths (sy_tailer s, f) = poll_once mk on_event disk paths (?t, f)" if "f = sy_offsets s" for mk disk f
    using that ok(2) by (simp add: poll_once_def tl_configure_def)
  then obtain r t f where r: "poll_once (tail_event H uids nows sid) on_event (sy_disk s) paths (sy_tailer s, sy_offsets s) = (r, t, f)"
    "poll_once (tail_event H uids nows sid) on_event (sy_disk s) paths (?t, sy_offsets s) = (r, t, f)"
    by (metis prod_cases3)
  note polled = poll_ok [OF ok r(2)]
  have lines: "logged (sy_log s) t = (\<lambda>q. if q \<in> set paths then complete_lines (content_of (sy_disk s q)) else [])"
    using polled watched by (auto simp: fun_eq_iff)
  have offsets: "offsets_ok (sy_disk s) (\<lambda>q. if q \<in> set paths then complete_lines (content_of (sy_disk s q)) else []) f"
    using polled unfolding lines by blast
  show ?thesis
    using polled [THEN conjunct1] polled [THEN conjunct2, THEN conjunct1] polled [THEN conjunct2, THEN conjunct2, THEN conjunct1] offsets
    by (simp add: tail_step_def system_ok_def lines_logged Let_def r(1) lines)
qed

lemma system_ok_step:
  fixes H uids nows sid
  assumes "system_ok paths s"
  shows "system_ok paths (tail_step (tail_event H uids nows sid) on_event paths k s)"
proof (cases k)
  case (Append p x)
  then show ?thesis
    using assms append_ok tail_ok_append
    by (auto simp: tail_step_def system_ok_def offsets_ok_def lines_logged Let_def split: if_splits)
next
  case Restart
  have "lines_of p (tail_step (tail_event H uids nows sid) on_event paths Restart s) = lines_of p s" for p
    by (simp add: tail_step_def lines_of_def new_tailer_def)
  then show ?thesis
    using assms Restart
    by (auto simp: tail_step_def system_ok_def new_tailer_def tail_ok_def Let_def split: if_splits)
next
  case Poll
  then show ?thesis using poll_system [OF assms] by (simp add: Let_def)
qed

text \<open>
  C5. Whatever is appended, however often the tailer is restarted between its polls, and whatever the size of its
  reads: after a poll, the lines handed on for a watched path, over all processes, are exactly the complete lines of
  the file, each once and in order (blank lines are dropped, the partial last line is held back), and a
  failing callback does not stop the tail.
\<close>

theorem tail_every_line_once:
  assumes "0 < rs"
  shows "(let s = tail_step (tail_event H uids nows sid) on_event paths Poll
                    (fold (tail_step (tail_event H uids nows sid) on_event paths) ks (start_system rs disk))
          in \<forall>p. lines_of p s = (if p \<in> set paths then complete_lines (content_of (sy_disk s p)) else []))"
proof -
  let ?step = "tail_step (tail_event H uids nows sid) on_event paths"
  have start: "system_ok paths (start_system rs disk)"
    using assms by (simp add: system_ok_def start_system_def new_tailer_def offsets_ok_def load_offsets_def saved_ok_def lines_of_def)
  have "system_ok paths s \<Longrightarrow> system_ok paths (fold ?step ks s)" for s
    by (induction ks arbitrary: s) (simp_all add: system_ok_step)
  from this [OF start] have "system_ok paths (fold ?step ks (start_system rs disk))" .
  then show ?thesis using poll_system by (simp add: Let_def)
qed

definition demo_disk :: "string \<Rightarrow> disk_entry" where
  "demo_disk p = (if p = ''eve.json'' then Regular 7 [97, 10, 98] else Missing)"

theorem tail_every_line_once_witness:
  "lines_of ''eve.json''
     (tail_step (tail_event (\<lambda>b. b) (\<lambda>i. ''u'') int (\<lambda>p. p)) (\<lambda>e. None) [''eve.json''] Poll
       (fold (tail_step (tail_event (\<lambda>b. b) (\<lambda>i. ''u'') int (\<lambda>p. p)) (\<lambda>e. None) [''eve.json''])
          [Poll, Append ''eve.json'' [99, 13], Restart, Poll, Append ''eve.json'' [10, 10, 100]] (start_system 2 demo_disk)))
     = [[97], [98, 99]]"
proof -
  have "complete_lines [97, 10, 98, 99, 13, 10, 10, 100] = [[97], [98, 99]]"
    by code_simp
  then show ?thesis
    using tail_every_line_once [of 2 "\<lambda>b. b" "\<lambda>i. ''u''" int "\<lambda>p. p" "\<lambda>e. None" "[''eve.json'']"
      "[Poll, Append ''eve.json'' [99, 13], Restart, Poll, Append ''eve.json'' [10, 10, 100]]" demo_disk]
    by (simp add: tail_step_def append_to_def start_system_def demo_disk_def content_of_def Let_def split: prod.splits)
qed

text \<open>
  Truncation in place. A running tailer notices that the file shrank and reads it from the start. A tailer that was
  stopped meanwhile does not: it takes the smaller of the saved offset and the size, that is the end of the
  new content, so that the lines written since the truncation are never handed on.
\<close>

theorem truncated_while_stopped_skips:
  "(let step = tail_step (tail_event (\<lambda>b. b) (\<lambda>i. ''u'') int (\<lambda>p. p)) (\<lambda>e. None) [''eve.json''];
        before = step Poll (start_system 8 (\<lambda>p. Regular 1 [97, 97, 10]));
        shrunk = before\<lparr>sy_disk := (\<lambda>p. Regular 1 [98, 10])\<rparr>
    in lines_of ''eve.json'' (step Poll shrunk) = [[97, 97], [98]]
     \<and> lines_of ''eve.json'' (step Poll (step Restart shrunk)) = [[97, 97]])"
  by code_simp

end
