(* ===== verification/Template_Store.thy ===== *)
theory Template_Store
  imports Sources
begin

text \<open>
  The catalogue of mined templates (\<^verbatim>\<open>ulpf/parse/templates/store.py\<close>) and the registry of miners
  (\<^verbatim>\<open>miner.py\<close>). Drain3 itself is an argument: \<open>engine\<close> maps its tree and a line to the template and the new
  tree. The catalogue file is its JSON value; the gauges of the metrics are left out.
\<close>

section \<open>Records of the catalogue\<close>

record template_record =
  tr_template_id :: string
  tr_template :: string
  tr_source_id :: string
  tr_first_seen :: int
  tr_last_seen :: int
  tr_count :: int
  tr_samples :: "string list"
  tr_suggested :: "string list"
  tr_recent :: "int list"

definition template_to_dict :: "template_record \<Rightarrow> pydict" where
  "template_to_dict r =
     [(''template_id'', PStr (tr_template_id r)), (''template'', PStr (tr_template r)), (''source_id'', PStr (tr_source_id r)),
      (''first_seen_ns'', PInt (tr_first_seen r)), (''last_seen_ns'', PInt (tr_last_seen r)), (''count'', PInt (tr_count r)),
      (''sample_lines'', PList (map PStr (tr_samples r))), (''suggested_fields'', PList (map PStr (tr_suggested r))),
      (''recent_ns'', PList (map PInt (tr_recent r)))]"

text \<open>\<^verbatim>\<open>from_dict\<close> of an entry; the lists and texts of a file that the store wrote have the types of the record.\<close>

definition text_item :: "pyval \<Rightarrow> string res" where
  "text_item v = (case v of PStr s \<Rightarrow> Inr s | _ \<Rightarrow> Inl (TypeError ''text expected''))"

definition int_item :: "pyval \<Rightarrow> int res" where
  "int_item v = (case v of PInt i \<Rightarrow> Inr i | _ \<Rightarrow> Inl (TypeError ''integer expected''))"

definition list_items :: "pyval \<Rightarrow> pyval list res" where
  "list_items v = (case v of PList xs \<Rightarrow> Inr xs | PNone \<Rightarrow> Inr [] | _ \<Rightarrow> Inl (TypeError ''list expected''))"

definition template_from_dict :: "pyval \<Rightarrow> template_record res" where
  "template_from_dict data =
     bind_res (py_item data ''template_id'') (\<lambda>tid.
     bind_res (bind_res (py_item data ''template'') text_item) (\<lambda>t.
     bind_res (bind_res (py_item data ''source_id'') text_item) (\<lambda>src.
     bind_res (bind_res (py_item data ''first_seen_ns'') py_int) (\<lambda>f.
     bind_res (bind_res (py_item data ''last_seen_ns'') py_int) (\<lambda>l.
     bind_res (case map_of (dict_of data) ''count'' of None \<Rightarrow> Inr 0 | Some c \<Rightarrow> py_int c) (\<lambda>n.
     bind_res (bind_res (list_items (py_get (dict_of data) ''sample_lines'')) (map_res text_item)) (\<lambda>ss.
     bind_res (bind_res (list_items (py_get (dict_of data) ''suggested_fields'')) (map_res text_item)) (\<lambda>fs.
     bind_res (bind_res (list_items (py_get (dict_of data) ''recent_ns'')) (map_res int_item)) (\<lambda>rs.
       Inr \<lparr>tr_template_id = py_str tid, tr_template = t, tr_source_id = src, tr_first_seen = f, tr_last_seen = l,
            tr_count = n, tr_samples = ss, tr_suggested = fs, tr_recent = rs\<rparr>)))))))))"

text \<open>The mask names of a template, \<^verbatim>\<open><([A-Z_]+)>\<close>, each once in the order of first sight.\<close>

definition mask_char :: "char \<Rightarrow> bool" where
  "mask_char c \<longleftrightarrow> 65 \<le> code c \<and> code c \<le> 90 \<or> c = CHR ''_''"

fun mask_names :: "string \<Rightarrow> string list" where
  "mask_names [] = []"
| "mask_names (c # s) =
     (let name = takeWhile mask_char s; rest = dropWhile mask_char s in
      if c = CHR ''<'' \<and> name \<noteq> [] \<and> rest \<noteq> [] \<and> hd rest = CHR ''>'' then name # mask_names s else mask_names s)"

definition suggested_fields :: "string \<Rightarrow> string list" where
  "suggested_fields t = rev (remdups (rev (mask_names t)))"

section \<open>The store\<close>

type_synonym template_key = "string \<times> string"

record template_store =
  ts_records :: "(template_key \<times> template_record) list"
  ts_file :: "pyval list option"

definition template_save :: "template_store \<Rightarrow> template_store" where
  "template_save s = s\<lparr>ts_file := Some (map (\<lambda>(_, r). PDict (template_to_dict r)) (ts_records s))\<rparr>"

definition max_samples :: nat where "max_samples = 5"
definition max_recent :: nat where "max_recent = 500"

definition keep_last :: "nat \<Rightarrow> 'a list \<Rightarrow> 'a list" where
  "keep_last n xs = drop (length xs - n) xs"

definition bump_template :: "int \<Rightarrow> string \<Rightarrow> string \<Rightarrow> template_record \<Rightarrow> template_record" where
  "bump_template now template line r =
     r\<lparr>tr_template := template, tr_last_seen := now, tr_count := tr_count r + 1,
       tr_samples := (if length (tr_samples r) < max_samples then tr_samples r @ [line] else tr_samples r),
       tr_suggested := suggested_fields template, tr_recent := keep_last max_recent (tr_recent r @ [now])\<rparr>"

definition new_template :: "int \<Rightarrow> string \<Rightarrow> string \<Rightarrow> string \<Rightarrow> string \<Rightarrow> template_record" where
  "new_template now tid template source line =
     \<lparr>tr_template_id = tid, tr_template = template, tr_source_id = source, tr_first_seen = now, tr_last_seen = now, tr_count = 1,
      tr_samples = [line], tr_suggested = suggested_fields template, tr_recent = [now]\<rparr>"

definition template_record_line :: "int \<Rightarrow> string \<Rightarrow> string \<Rightarrow> string \<Rightarrow> string \<Rightarrow> template_store \<Rightarrow> template_record \<times> template_store" where
  "template_record_line now tid template source line s =
     (let r = (case map_of (ts_records s) (source, tid) of
                 None \<Rightarrow> new_template now tid template source line
               | Some old \<Rightarrow> bump_template now template line old)
      in (r, template_save (s\<lparr>ts_records := dict_set (source, tid) r (ts_records s)\<rparr>)))"

datatype order_by = ByCount | ByFirstSeen | ByLastSeen | ByTemplateId

definition valid_order :: "string \<Rightarrow> order_by option" where
  "valid_order s = (if s = ''count'' then Some ByCount else if s = ''first_seen_ns'' then Some ByFirstSeen
     else if s = ''last_seen_ns'' then Some ByLastSeen else if s = ''template_id'' then Some ByTemplateId else None)"

text \<open>\<^verbatim>\<open>sort(reverse=True)\<close> keeps the order of equal elements.\<close>

definition sort_descending :: "('a \<Rightarrow> int) \<Rightarrow> 'a list \<Rightarrow> 'a list" where
  "sort_descending f xs = sort_key (\<lambda>x. - f x) xs"

definition list_templates :: "string option \<Rightarrow> string \<Rightarrow> template_store \<Rightarrow> template_record list res" where
  "list_templates source order s =
     (case valid_order order of
        None \<Rightarrow> Inl (ValueError (''order_by must be one of the columns; got '' @ repr_str order))
      | Some ob \<Rightarrow>
          (let rs = map snd (ts_records s);
               rs' = (case source of None \<Rightarrow> rs | Some src \<Rightarrow> filter (\<lambda>r. tr_source_id r = src) rs)
           in Inr (case ob of
                ByTemplateId \<Rightarrow> sort_key (\<lambda>r. (map code (tr_source_id r), map code (tr_template_id r))) rs'
              | ByCount \<Rightarrow> sort_descending tr_count rs'
              | ByFirstSeen \<Rightarrow> sort_descending tr_first_seen rs'
              | ByLastSeen \<Rightarrow> sort_descending tr_last_seen rs')))"

definition get_samples :: "string \<Rightarrow> string option \<Rightarrow> template_store \<Rightarrow> string list" where
  "get_samples tid source s =
     (case List.find (\<lambda>((src, t), r). t = tid \<and> (case source of None \<Rightarrow> True | Some x \<Rightarrow> src = x)) (ts_records s) of
        None \<Rightarrow> [] | Some (_, r) \<Rightarrow> tr_samples r)"

definition template_load :: "pyval list option \<Rightarrow> template_store res" where
  "template_load file =
     (case file of
        None \<Rightarrow> Inr \<lparr>ts_records = [], ts_file = None\<rparr>
      | Some entries \<Rightarrow>
          bind_res (map_res template_from_dict entries) (\<lambda>rs.
            Inr \<lparr>ts_records = dict_update [] (map (\<lambda>r. ((tr_source_id r, tr_template_id r), r)) rs), ts_file = file\<rparr>))"

section \<open>The registry of miners\<close>

definition safe_name_char :: "char \<Rightarrow> bool" where
  "safe_name_char c \<longleftrightarrow> is_dec c \<or> 65 \<le> code c \<and> code c \<le> 90 \<or> 97 \<le> code c \<and> code c \<le> 122 \<or> c \<in> {CHR ''_'', CHR ''.'', CHR ''-''}"

definition safe_source_name :: "string \<Rightarrow> string" where
  "safe_source_name source =
     (let s = map (\<lambda>c. if safe_name_char c then c else CHR ''_'') source in if s = [] then ''unknown'' else s)"

definition miner_state_file :: "string \<Rightarrow> string" where
  "miner_state_file source = ''drain3.'' @ safe_source_name source @ ''.bin''"

record mined_template =
  mt_template_id :: int
  mt_template :: string
  mt_change_type :: string
  mt_cluster_count :: int
  mt_params :: "string list"

text \<open>A tree is created on first use, from the snapshot under the source's file name if there is one.\<close>

record 't miners =
  mi_trees :: "(string \<times> 't) list"
  mi_snapshots :: "(string \<times> 't) list"

type_synonym 't drain = "'t \<Rightarrow> string \<Rightarrow> mined_template \<times> 't"

definition miner_tree :: "'t \<Rightarrow> string \<Rightarrow> 't miners \<Rightarrow> 't" where
  "miner_tree fresh source m =
     (case map_of (mi_trees m) source of
        Some t \<Rightarrow> t
      | None \<Rightarrow> (case map_of (mi_snapshots m) (miner_state_file source) of Some t \<Rightarrow> t | None \<Rightarrow> fresh))"

definition mine :: "'t drain \<Rightarrow> 't \<Rightarrow> string \<Rightarrow> string \<Rightarrow> 't miners \<Rightarrow> mined_template \<times> 't miners" where
  "mine engine fresh source line m =
     (let (result, t) = engine (miner_tree fresh source m) line
      in (result, m\<lparr>mi_trees := dict_set source t (mi_trees m),
             mi_snapshots := (if mt_change_type result = ''none'' then mi_snapshots m
                              else dict_set (miner_state_file source) t (mi_snapshots m))\<rparr>))"

definition flush_all :: "'t miners \<Rightarrow> 't miners" where
  "flush_all m = m\<lparr>mi_snapshots := fold (\<lambda>(source, t). dict_set (miner_state_file source) t) (mi_trees m) (mi_snapshots m)\<rparr>"

section \<open>Properties\<close>

text \<open>A call of \<open>record\<close>: the time, the template id and text, the source and the line.\<close>

type_synonym template_call = "int \<times> string \<times> string \<times> string \<times> string"

definition run_calls :: "template_call list \<Rightarrow> template_store \<Rightarrow> template_store" where
  "run_calls calls s = fold (\<lambda>(now, tid, t, source, line) s. snd (template_record_line now tid t source line s)) calls s"

definition calls_of :: "template_key \<Rightarrow> template_call list \<Rightarrow> template_call list" where
  "calls_of key calls = filter (\<lambda>(_, tid, _, source, _). (source, tid) = key) calls"

text \<open>What the history says a row must be.\<close>

definition row_of :: "template_key \<Rightarrow> template_call list \<Rightarrow> template_record option" where
  "row_of key calls =
     (let cs = calls_of key calls; times = map fst cs; template = fst (snd (snd (last cs))) in
      if cs = [] then None
      else Some \<lparr>tr_template_id = snd key, tr_template = template, tr_source_id = fst key, tr_first_seen = hd times,
             tr_last_seen = last times, tr_count = int (length cs),
             tr_samples = take max_samples (map (\<lambda>(_, _, _, _, line). line) cs),
             tr_suggested = suggested_fields template, tr_recent = keep_last max_recent times\<rparr>)"

lemma keep_last_snoc: "keep_last n (keep_last n xs @ [x]) = keep_last n (xs @ [x])"
proof (cases "length xs \<le> n")
  case False
  then have "length xs + 1 - n = Suc (length xs - n)" by simp
  moreover have "drop (length xs - n) xs \<noteq> []" if "n \<noteq> 0" using False that by simp
  ultimately show ?thesis using False
    by (cases n) (simp_all add: keep_last_def drop_Suc tl_drop flip: drop_Suc)
qed (simp add: keep_last_def)

lemma take_snoc: "take n (xs @ [x]) = (if length xs < n then xs @ [x] else take n xs)"
  by simp

lemma calls_of_snoc:
  "calls_of key (calls @ [(now, tid, t, source, line)])
     = (if (source, tid) = key then calls_of key calls @ [(now, tid, t, source, line)] else calls_of key calls)"
  by (simp add: calls_of_def)

text \<open>
  The catalogue is the summary of its history: after any calls, every row holds the number of its calls, the
  first five lines and the last five hundred times of them, first and last sight, and the newest template
  with the mask names of it.
\<close>

theorem template_store_summarises:
  "map_of (ts_records (run_calls calls \<lparr>ts_records = [], ts_file = None\<rparr>)) key = row_of key calls"
proof (induction calls arbitrary: key rule: rev_induct)
  case Nil
  then show ?case by (simp add: run_calls_def row_of_def calls_of_def)
next
  case (snoc c calls)
  obtain now tid t source line where c: "c = (now, tid, t, source, line)" by (cases c)
  define s where "s = run_calls calls \<lparr>ts_records = [], ts_file = None\<rparr>"
  have step: "run_calls (calls @ [c]) \<lparr>ts_records = [], ts_file = None\<rparr> = snd (template_record_line now tid t source line s)"
    by (simp add: run_calls_def s_def c)
  show ?case
  proof (cases "(source, tid) = key")
    case False
    then show ?thesis
      using snoc.IH [of key] unfolding step
      by (auto simp: s_def template_record_line_def Let_def template_save_def c row_of_def calls_of_snoc)
  next
    case True
    have old: "map_of (ts_records s) key = row_of key calls" using snoc.IH [of key] by (simp add: s_def)
    show ?thesis
    proof (cases "calls_of key calls = []")
      case True
      then show ?thesis
        using old \<open>(source, tid) = key\<close> unfolding step
        by (auto simp: template_record_line_def Let_def template_save_def c row_of_def calls_of_snoc new_template_def keep_last_def
            max_samples_def max_recent_def)
    next
      case False
      then show ?thesis
        using old \<open>(source, tid) = key\<close> unfolding step
        by (auto simp: template_record_line_def Let_def template_save_def c row_of_def calls_of_snoc bump_template_def keep_last_snoc
            min_def)
    qed
  qed
qed

lemma map_res_map: "(\<And>x. f (g x) = Inr x) \<Longrightarrow> map_res f (map g xs) = Inr xs"
  by (induction xs) simp_all

lemma template_dict_roundtrip: "template_from_dict (PDict (template_to_dict r)) = Inr r"
proof -
  have "map_res text_item (map PStr ss) = Inr ss" for ss by (rule map_res_map) (simp add: text_item_def)
  moreover have "map_res int_item (map PInt ns) = Inr ns" for ns by (rule map_res_map) (simp add: int_item_def)
  ultimately show ?thesis
    by (simp add: template_from_dict_def template_to_dict_def py_item_def text_item_def py_int_def dict_of_def py_get_def list_items_def)
qed

definition catalogue_ok :: "template_store \<Rightarrow> bool" where
  "catalogue_ok s \<longleftrightarrow> dict_ok (ts_records s) \<and> (\<forall>(k, r) \<in> set (ts_records s). k = (tr_source_id r, tr_template_id r))"

lemma set_dict_set: "set (dict_set k v d) \<subseteq> insert (k, v) (set d)"
proof (induction d)
  case (Cons p d)
  then show ?case by (cases p; cases "fst p = k") auto
qed simp

lemma run_calls_snoc:
  "run_calls (calls @ [(now, tid, t, source, line)]) s = snd (template_record_line now tid t source line (run_calls calls s))"
  by (simp add: run_calls_def)

lemma template_record_line_records:
  "ts_records (snd (template_record_line now tid t source line s))
     = dict_set (source, tid) (fst (template_record_line now tid t source line s)) (ts_records s)"
  by (simp add: template_record_line_def Let_def template_save_def)

lemma catalogue_ok_step: "catalogue_ok s \<Longrightarrow> catalogue_ok (snd (template_record_line now tid t source line s))"
proof -
  assume ok: "catalogue_ok s"
  let ?r = "fst (template_record_line now tid t source line s)"
  have "tr_source_id ?r = source \<and> tr_template_id ?r = tid"
    using ok by (auto simp: template_record_line_def Let_def new_template_def bump_template_def catalogue_ok_def
        split: option.splits dest!: map_of_SomeD)
  then show ?thesis
    using ok set_dict_set [of "(source, tid)" ?r "ts_records s"]
    unfolding catalogue_ok_def template_record_line_records by auto
qed

lemma catalogue_ok_run: "catalogue_ok (run_calls calls \<lparr>ts_records = [], ts_file = None\<rparr>)"
proof (induction calls rule: rev_induct)
  case Nil
  then show ?case by (simp add: run_calls_def catalogue_ok_def)
next
  case (snoc c calls)
  then show ?case by (cases c) (simp add: run_calls_snoc catalogue_ok_step)
qed

text \<open>
  The catalogue survives a restart: loading what a run of calls saved gives the same rows in the same order.
\<close>

theorem template_catalogue_reloads:
  assumes "calls \<noteq> []" and "s = run_calls calls \<lparr>ts_records = [], ts_file = None\<rparr>"
  shows "template_load (ts_file s) = Inr s"
proof -
  have saved: "ts_file s = Some (map (\<lambda>(_, r). PDict (template_to_dict r)) (ts_records s))"
    using assms by (cases calls rule: rev_cases) (auto simp: run_calls_def template_record_line_def Let_def template_save_def)
  have ok: "catalogue_ok s" using catalogue_ok_run assms(2) by simp
  have "map_res template_from_dict (map (\<lambda>(_, r). PDict (template_to_dict r)) (ts_records s)) = Inr (map snd (ts_records s))"
    using map_res_map [of template_from_dict "\<lambda>r. PDict (template_to_dict r)" "map snd (ts_records s)"]
    by (simp add: template_dict_roundtrip case_prod_unfold comp_def)
  moreover have "map (\<lambda>r. ((tr_source_id r, tr_template_id r), r)) (map snd (ts_records s)) = ts_records s"
    using ok by (auto simp: catalogue_ok_def intro!: map_idI)
  moreover have "dict_update [] (ts_records s) = ts_records s"
    using ok by (simp add: catalogue_ok_def dict_ok_def dict_update_fresh)
  ultimately show ?thesis using saved by (simp add: template_load_def comp_def)
qed

theorem template_catalogue_reloads_witness:
  "template_load (ts_file (run_calls [(5, ''1'', ''<IP> up'', ''fw'', ''x'')] \<lparr>ts_records = [], ts_file = None\<rparr>))
     = Inr (run_calls [(5, ''1'', ''<IP> up'', ''fw'', ''x'')] \<lparr>ts_records = [], ts_file = None\<rparr>)"
  by (rule template_catalogue_reloads) simp_all

text \<open>Two sources whose names differ only in characters unsafe in a file name share one snapshot file.\<close>

lemma miner_files_collide: "miner_state_file ''fw:1'' = miner_state_file ''fw_1''"
  by (simp add: miner_state_file_def safe_source_name_def safe_name_char_def is_dec_def)

end
