(* ===== verification/Normalize_Stage.thy ===== *)
theory Normalize_Stage
  imports Mapper Template_Store
begin

text \<open>
  The two stages of \<^verbatim>\<open>ulpf/normalize/stage.py\<close> on either side of the enrichment: \<open>normalize_process\<close> matches a
  source definition, parses again with its own engine, maps and finalises, and turns an event no source
  matches into a template-only record; \<open>validate_process\<close> applies the policy of the source to an invalid
  record. The queue of dead letters, the catalogue of templates and the miners are their state.
\<close>

section \<open>The environment of the stages\<close>

record 't normalize_env =
  ne_registry :: source_registry
  ne_search :: "string \<Rightarrow> string \<Rightarrow> bool"
  ne_engines :: registry
  ne_coerce :: coerce_env
  ne_enc :: dl_enc
  ne_drain :: "'t drain"
  ne_fresh :: 't

record 't normalize_state =
  ns_dlq :: dlq
  ns_templates :: template_store
  ns_miners :: "'t miners"
  ns_normalized :: "((string \<times> string) \<times> nat) list"
  ns_unknown :: "(string \<times> nat) list"

definition detail_of :: "exn \<Rightarrow> pydict" where
  "detail_of x = (case x of ParseError _ d \<Rightarrow> d | MappingError _ d \<Rightarrow> d | _ \<Rightarrow> [])"

definition is_mapping_error :: "exn \<Rightarrow> bool" where
  "is_mapping_error x = (case x of MappingError _ _ \<Rightarrow> True | _ \<Rightarrow> False)"

text \<open>\<^verbatim>\<open>str(detail.get("reason") or default)\<close>\<close>

definition reason_of :: "pydict \<Rightarrow> string \<Rightarrow> string" where
  "reason_of d fallback = (if py_truth (py_get d ''reason'') then py_str (py_get d ''reason'') else fallback)"

definition letter_detail :: "source_definition \<Rightarrow> exn \<Rightarrow> pydict \<Rightarrow> pydict" where
  "letter_detail df x d = dict_update [(''source_type'', PStr (sd_name df)), (''error'', PStr (exn_text x))] d"

definition dead_letter :: "'t normalize_env \<Rightarrow> int \<Rightarrow> raw_event \<Rightarrow> string \<Rightarrow> string \<Rightarrow> pydict \<Rightarrow> 't normalize_state \<Rightarrow> 't normalize_state res" where
  "dead_letter env now e reason stage d st =
     bind_res (dlq_write (ne_enc env) now e reason stage (Some d) (ns_dlq st)) (\<lambda>(_, q). Inr (st\<lparr>ns_dlq := q\<rparr>))"

section \<open>Events no source matches\<close>

definition line_for_mining :: "parsed_event \<Rightarrow> string" where
  "line_for_mining e =
     (let t = decode_utf8 (raw e) in
      case py_get (envelope e) ''header_raw'' of
        PStr h \<Rightarrow> if h \<noteq> [] \<and> starts_with h t then drop (length h) t else t
      | _ \<Rightarrow> t)"

text \<open>An unreadable envelope time falls back to the time of ingest; other errors of the time parser surface.\<close>

definition infer_time_ns :: "time_env \<Rightarrow> parsed_event \<Rightarrow> int res" where
  "infer_time_ns env e =
     (case py_get (envelope e) ''timestamp'' of
        PStr t \<Rightarrow>
          if t = [] then Inr (ingest_time_ns e)
          else (case parse_timestamp env False t None None None of
                  Inr n \<Rightarrow> Inr n
                | Inl x \<Rightarrow> if caught_by_coerce x then Inr (ingest_time_ns e) else Inl x)
      | _ \<Rightarrow> Inr (ingest_time_ns e))"

definition template_record_of :: "parsed_event \<Rightarrow> string \<Rightarrow> int \<Rightarrow> pydict" where
  "template_record_of e tid time =
     [(''class_uid'', PInt 4001), (''category_uid'', PInt 4), (''time'', PInt time),
      (''metadata'', PDict [(''uid'', PStr (event_uid e)), (''log_hash'', PStr (raw_hash e)), (''version'', PStr ocsf_version)]),
      (''unmapped'', PDict (p_fields e)),
      (''enrichments'', PDict [(''parse_status'', PStr ''template_only''), (''template_id'', PStr tid)])]"

definition template_only :: "'t normalize_env \<Rightarrow> int \<Rightarrow> parsed_event \<Rightarrow> 't normalize_state \<Rightarrow> normalized_event res \<times> 't normalize_state" where
  "template_only env now e st =
     (let line = line_for_mining e;
          (mined, miners) = mine (ne_drain env) (ne_fresh env) (source_id e) line (ns_miners st);
          tid = str_of_int (mt_template_id mined);
          (_, store) = template_record_line now tid (mt_template mined) (source_id e) line (ns_templates st);
          st1 = st\<lparr>ns_miners := miners, ns_templates := store, ns_unknown := counter_inc tid (ns_unknown st)\<rparr>
      in (bind_res (infer_time_ns (ce_time (ne_coerce env)) e) (\<lambda>time.
          bind_res (finalize_record (template_record_of e tid time)) (\<lambda>rec.
            Inr \<lparr>n_event_uid = event_uid e, n_raw_hash = raw_hash e, n_ingest_time_ns = ingest_time_ns e, ocsf = rec,
                 n_source_type = ''unknown:'' @ tid, mapping_version = ''none'',
                 enrichment = [(''parse_status'', PStr ''template_only''), (''template_id'', PStr tid),
                   (''needs_template_mining'', PBool (needs_template_mining e))]\<rparr>)), st1))"

section \<open>The normalize stage\<close>

definition normalized_of :: "source_definition \<Rightarrow> parsed_event \<Rightarrow> pydict \<Rightarrow> normalized_event" where
  "normalized_of df e rec =
     \<lparr>n_event_uid = event_uid e, n_raw_hash = raw_hash e, n_ingest_time_ns = ingest_time_ns e, ocsf = rec,
      n_source_type = sd_name df, mapping_version = sd_version df, enrichment = []\<rparr>"

definition class_label :: "pydict \<Rightarrow> string" where
  "class_label rec = (case py_get rec ''class_uid'' of PNone \<Rightarrow> ''unknown'' | v \<Rightarrow> py_str v)"

definition mapping_letter :: "source_definition \<Rightarrow> exn \<Rightarrow> pydict \<Rightarrow> pydict" where
  "mapping_letter df x d =
     letter_detail df x (add_detail ''partial_ocsf'' (PDict []) (add_detail ''parsed_fields'' (PDict d) (detail_of x)))"

text \<open>A step gives the event for the next stage, or none when it was dead-lettered.\<close>

definition keep_state :: "'s res \<Rightarrow> 's \<Rightarrow> 'a option res \<times> 's" where
  "keep_state r st = (case r of Inl x \<Rightarrow> (Inl x, st) | Inr st' \<Rightarrow> (Inr None, st'))"

definition normalize_process :: "'t normalize_env \<Rightarrow> int \<Rightarrow> parsed_event \<Rightarrow> 't normalize_state \<Rightarrow> normalized_event option res \<times> 't normalize_state" where
  "normalize_process env now e st =
     (case match_event (ne_search env) (ne_registry env) e of
        None \<Rightarrow> (case template_only env now e st of (Inl x, st') \<Rightarrow> (Inl x, st') | (Inr n, st') \<Rightarrow> (Inr (Some n), st'))
      | Some df \<Rightarrow>
          (case parse_for_definition (ne_engines env) (raw e) (sd_parse df) of
             Inl x \<Rightarrow>
               if is_parse_error x
               then keep_state (dead_letter env now (base_event e) (reason_of (detail_of x) ''source_parse_failed'') ''normalize''
                                  (letter_detail df x (detail_of x)) st) st
               else (Inl x, st)
           | Inr d \<Rightarrow>
               (case bind_res (to_ocsf (ne_coerce env) df d (event_uid e) (raw_hash e)) finalize_record of
                  Inl x \<Rightarrow>
                    if is_mapping_error x
                    then keep_state (dead_letter env now (base_event e) (reason_of (detail_of x) ''mapping_failed'') ''normalize''
                                       (mapping_letter df x d) st) st
                    else (Inl x, st)
                | Inr rec \<Rightarrow>
                    (Inr (Some (normalized_of df e rec)),
                     st\<lparr>ns_normalized := counter_inc (sd_name df, class_label rec) (ns_normalized st)\<rparr>))))"

section \<open>The validate stage\<close>

definition is_unmapped :: "string \<Rightarrow> bool" where
  "is_unmapped t \<longleftrightarrow> t = ''unknown'' \<or> starts_with ''unknown:'' t"

definition raw_stub :: "normalized_event \<Rightarrow> raw_event" where
  "raw_stub n = \<lparr>event_uid = n_event_uid n, raw = [], raw_hash = n_raw_hash n, raw_len = 0,
     ingest_time_ns = n_ingest_time_ns n, source_id = n_source_type n, transport = File, peer = None\<rparr>"

definition dead_letters_invalid :: "source_registry \<Rightarrow> string \<Rightarrow> bool" where
  "dead_letters_invalid reg source = (case get_definition reg source of None \<Rightarrow> True | Some df \<Rightarrow> sd_dead_letter df)"

definition validate_process :: "'t normalize_env \<Rightarrow> int \<Rightarrow> normalized_event \<Rightarrow> 't normalize_state \<Rightarrow> normalized_event option res \<times> 't normalize_state" where
  "validate_process env now n st =
     (if is_unmapped (n_source_type n) \<or> map_of (ocsf n) ''class_uid'' = None then (Inr (Some n), st)
      else case validate (ocsf n) of
        Inl x \<Rightarrow> (Inl x, st)
      | Inr res \<Rightarrow>
          if vr_valid res then (Inr (Some n), st)
          else if dead_letters_invalid (ne_registry env) (n_source_type n)
          then keep_state (dead_letter env now (raw_stub n) ''ocsf_validation_failed'' ''validate''
                 [(''source_type'', PStr (n_source_type n)), (''errors'', PList (map PStr (vr_errors res))),
                  (''note'', PStr ''raw bytes are in the bronze store under raw_hash'')] st) st
          else (Inr (Some n), st))"

section \<open>As stages of the pipeline\<close>

definition normalize_stage :: "'t normalize_env \<Rightarrow> int \<Rightarrow> ('w \<Rightarrow> 't normalize_state) \<Rightarrow> ('t normalize_state \<Rightarrow> 'w \<Rightarrow> 'w) \<Rightarrow> 'w stage" where
  "normalize_stage env now get put =
     \<lparr>sg_name = ''normalize'',
      sg_process = (\<lambda>e w. case e of
          ParsedE p \<Rightarrow> (case normalize_process env now p (get w) of
                          (r, st) \<Rightarrow> (map_sum id (map_option NormE) r, put st w))
        | _ \<Rightarrow> (Inl (AssertionError ''isinstance(event, ParsedEvent)''), w))\<rparr>"

definition validate_stage :: "'t normalize_env \<Rightarrow> int \<Rightarrow> ('w \<Rightarrow> 't normalize_state) \<Rightarrow> ('t normalize_state \<Rightarrow> 'w \<Rightarrow> 'w) \<Rightarrow> 'w stage" where
  "validate_stage env now get put =
     \<lparr>sg_name = ''validate'',
      sg_process = (\<lambda>e w. case e of
          NormE n \<Rightarrow> (case validate_process env now n (get w) of
                        (r, st) \<Rightarrow> (map_sum id (map_option NormE) r, put st w))
        | _ \<Rightarrow> (Inl (AssertionError ''isinstance(event, NormalizedEvent)''), w))\<rparr>"

section \<open>Properties\<close>

text \<open>That an event was written to the dead letters, once, and nothing else of the state changed.\<close>

definition lettered :: "'t normalize_env \<Rightarrow> int \<Rightarrow> raw_event \<Rightarrow> string \<Rightarrow> 't normalize_state \<Rightarrow> 't normalize_state \<Rightarrow> bool" where
  "lettered env now r stage st st' \<longleftrightarrow>
     (\<exists>reason d q. dlq_write (ne_enc env) now r reason stage (Some d) (ns_dlq st) = Inr (dlq_record now r reason stage (Some d), q)
        \<and> st' = st\<lparr>ns_dlq := q\<rparr>)"

lemma dead_letter_lettered: "dead_letter env now r reason stage d st = Inr st' \<Longrightarrow> lettered env now r stage st st'"
  by (auto simp: dead_letter_def lettered_def bind_res_Inr_iff dlq_write_def Let_def)

lemma keep_state_cases:
  "keep_state r st = (Inr None, st') \<Longrightarrow> r = Inr st'"
  "keep_state r st \<noteq> (Inr (Some x), st')"
  "keep_state r st = (Inl y, st') \<Longrightarrow> st' = st"
  by (auto simp: keep_state_def split: sum.splits)

lemma template_only_link:
  "template_only env now e st = (Inr n, st') \<Longrightarrow> n_event_uid n = event_uid e \<and> n_raw_hash n = raw_hash e \<and> is_unmapped (n_source_type n)"
  by (auto simp: template_only_def Let_def bind_res_Inr_iff is_unmapped_def simp del: list.map split: prod.splits)

lemma template_only_dlq: "template_only env now e st = (r, st') \<Longrightarrow> ns_dlq st' = ns_dlq st"
  by (auto simp: template_only_def Let_def split: prod.splits)

text \<open>What became of an event in a stage: passed on with its identity, dead-lettered, or an error for the pipeline.\<close>

definition accounted ::
  "'t normalize_env \<Rightarrow> int \<Rightarrow> raw_event \<Rightarrow> string \<Rightarrow> 't normalize_state \<Rightarrow> normalized_event option res \<times> 't normalize_state \<Rightarrow> bool" where
  "accounted env now r stage st result =
     (case result of
        (Inr (Some n), st') \<Rightarrow> n_event_uid n = event_uid r \<and> n_raw_hash n = raw_hash r \<and> ns_dlq st' = ns_dlq st
      | (Inr None, st') \<Rightarrow> lettered env now r stage st st'
      | (Inl x, st') \<Rightarrow> ns_dlq st' = ns_dlq st)"

lemma accounted_keep_state:
  "accounted env now r stage st (keep_state (dead_letter env now r reason stage d st) st)"
  using dead_letter_lettered [of env now r reason stage d st]
  by (auto simp: accounted_def keep_state_def split: sum.split)

lemma base_event_link [simp]: "event_uid (base_event e) = event_uid e" "raw_hash (base_event e) = raw_hash e"
  by (simp_all add: base_event_def raw_event.truncate_def)

lemma normalize_accounted:
  "accounted env now (base_event e) ''normalize'' st (normalize_process env now e st)"
proof (cases "match_event (ne_search env) (ne_registry env) e")
  case None
  obtain r st' where t: "template_only env now e st = (r, st')" by fastforce
  show ?thesis
  proof (cases r)
    case (Inr n)
    then show ?thesis
      using template_only_link [of env now e st n st'] template_only_dlq [OF t] t
      by (simp add: normalize_process_def None accounted_def)
  qed (use template_only_dlq [OF t] in \<open>simp add: normalize_process_def None t accounted_def\<close>)
next
  case (Some df)
  show ?thesis
  proof (cases "parse_for_definition (ne_engines env) (raw e) (sd_parse df)")
    case (Inl x)
    then show ?thesis
      using accounted_keep_state [of env now "base_event e" "''normalize''" st]
      by (simp add: normalize_process_def Some) (simp add: accounted_def)
  next
    case (Inr d)
    then show ?thesis
      using accounted_keep_state [of env now "base_event e" "''normalize''" st]
      by (cases "bind_res (to_ocsf (ne_coerce env) df d (event_uid e) (raw_hash e)) finalize_record")
        (simp_all add: normalize_process_def Some accounted_def normalized_of_def)
  qed
qed

text \<open>
  C13. The normalize stage loses no event in silence: it passes the event on with its id and hash, or writes it to
  the dead letters exactly once, or leaves them alone and raises to the pipeline, which writes it there.
\<close>

theorem normalize_accounts_for_event:
  "accounted env now (base_event e) ''normalize'' st (normalize_process env now e st)"
  by (rule normalize_accounted)

text \<open>
  An event that no source matches is never dead-lettered: it becomes a template-only record under an
  \<open>unknown:\<close> source type, which the validate stage lets through unchanged.
\<close>

theorem unmatched_event_passes:
  assumes "match_event (ne_search env) (ne_registry env) e = None" and "normalize_process env now e st = (Inr r, st')"
  shows "\<exists>n. r = Some n \<and> is_unmapped (n_source_type n) \<and> ns_dlq st' = ns_dlq st
       \<and> validate_process env later n st' = (Inr (Some n), st')"
proof -
  obtain t st1 where t: "template_only env now e st = (t, st1)" by fastforce
  with assms obtain n where n: "t = Inr n" "r = Some n" "st1 = st'"
    by (cases t) (simp_all add: normalize_process_def)
  have "is_unmapped (n_source_type n)" using template_only_link [OF t [unfolded n]] by blast
  then show ?thesis using template_only_dlq [OF t] n by (simp add: validate_process_def)
qed

definition trial_normalize_env :: "unit normalize_env" where
  "trial_normalize_env = \<lparr>ne_registry = empty_registry, ne_search = \<lambda>_ _. False, ne_engines = [], ne_coerce = trial_env,
     ne_enc = demo_enc, ne_drain = \<lambda>t l. (\<lparr>mt_template_id = 1, mt_template = l, mt_change_type = ''cluster_created'',
       mt_cluster_count = 1, mt_params = []\<rparr>, t), ne_fresh = ()\<rparr>"

definition trial_parsed :: parsed_event where
  "trial_parsed = \<lparr>event_uid = ''e1'', raw = [104, 105], raw_hash = ''ab'', raw_len = 2, ingest_time_ns = 5, source_id = ''fw'',
     transport = Udp, peer = None, format = FUnknown, source_type = None, p_fields = [(''msg'', PStr ''hi'')], envelope = [],
     template_id = None, needs_template_mining = True, bom_stripped = False\<rparr>"

definition trial_normalize_state :: "unit normalize_state" where
  "trial_normalize_state = \<lparr>ns_dlq = empty_dlq, ns_templates = \<lparr>ts_records = [], ts_file = None\<rparr>,
     ns_miners = \<lparr>mi_trees = [], mi_snapshots = []\<rparr>, ns_normalized = [], ns_unknown = []\<rparr>"

lemma trial_finalize: "\<exists>rec. finalize_record (template_record_of trial_parsed tid 5) = Inr rec"
  by (simp add: finalize_record_def template_record_of_def trial_parsed_def fill_class_def fill_name_def lookup_id_def hashable_def
      num_value_def py_get_def class_names_def categories_def severity_ids_def Let_def)

theorem unmatched_event_passes_witness:
  "\<exists>n st'. normalize_process trial_normalize_env 0 trial_parsed trial_normalize_state = (Inr (Some n), st')
     \<and> is_unmapped (n_source_type n) \<and> ns_dlq st' = empty_dlq
     \<and> validate_process trial_normalize_env 1 n st' = (Inr (Some n), st')"
proof -
  have m: "match_event (ne_search trial_normalize_env) (ne_registry trial_normalize_env) trial_parsed = None"
    by (simp add: match_event_def match_text_def definitions_def trial_normalize_env_def empty_registry_def)
  obtain r st' where run: "normalize_process trial_normalize_env 0 trial_parsed trial_normalize_state = (Inr r, st')"
  proof -
    have "\<exists>t st'. template_only trial_normalize_env 0 trial_parsed trial_normalize_state = (Inr t, st')"
    proof -
      have "infer_time_ns (ce_time (ne_coerce trial_normalize_env)) trial_parsed = Inr 5"
        by (simp add: infer_time_ns_def trial_parsed_def)
      moreover obtain rec where "finalize_record (template_record_of trial_parsed (str_of_int 1) 5) = Inr rec"
        using trial_finalize by blast
      moreover have "mt_template_id (fst (mine (ne_drain trial_normalize_env) (ne_fresh trial_normalize_env) s l m)) = 1" for s l m
        by (simp add: mine_def trial_normalize_env_def)
      ultimately show ?thesis by (simp add: template_only_def Let_def case_prod_unfold)
    qed
    then show ?thesis using that by (auto simp: normalize_process_def m)
  qed
  from unmatched_event_passes [OF m run, of 1] obtain n where "r = Some n" "is_unmapped (n_source_type n)"
    "ns_dlq st' = ns_dlq trial_normalize_state" "validate_process trial_normalize_env 1 n st' = (Inr (Some n), st')" by blast
  then show ?thesis using run by (simp add: trial_normalize_state_def)
qed

text \<open>
  The validate stage changes no record: it passes on exactly the record it got, or it writes a letter with
  the event's id and hash to the dead letters and passes on nothing.
\<close>

theorem validate_accounts_for_event:
  "accounted env now (raw_stub n) ''validate'' st (validate_process env now n st)
   \<and> (case fst (validate_process env now n st) of Inr (Some m) \<Rightarrow> m = n | _ \<Rightarrow> True)"
proof -
  let ?d = "\<lambda>res. [(''source_type'', PStr (n_source_type n)), (''errors'', PList (map PStr (vr_errors res))),
                  (''note'', PStr ''raw bytes are in the bronze store under raw_hash'')]"
  have "event_uid (raw_stub n) = n_event_uid n" "raw_hash (raw_stub n) = n_raw_hash n" by (simp_all add: raw_stub_def)
  then have pass: "accounted env now (raw_stub n) ''validate'' st (Inr (Some n), st)" by (simp add: accounted_def)
  have "fst (keep_state r st) \<noteq> Inr (Some m)" for r :: "'a normalize_state res" and m :: normalized_event
    by (simp add: keep_state_def split: sum.split)
  then have keep: "case fst (keep_state r st) of Inr (Some m) \<Rightarrow> m = n | _ \<Rightarrow> True" for r :: "'a normalize_state res"
    by (auto split: sum.split option.split)
  show ?thesis
  proof (cases "validate (ocsf n)")
    case (Inl x)
    then show ?thesis using pass by (simp add: validate_process_def) (simp add: accounted_def)
  next
    case (Inr res)
    then show ?thesis
      using pass accounted_keep_state [of env now "raw_stub n" "''validate''" st "''ocsf_validation_failed''" "?d res"]
        keep [of "dead_letter env now (raw_stub n) ''ocsf_validation_failed'' ''validate'' (?d res) st"]
      by (simp add: validate_process_def)
  qed
qed

end
