(* ===== verification/Crosswalk.thy ===== *)
theory Crosswalk
  imports Validator Py_Time "HOL-Library.List_Lexorder" "HOL-Library.Char_ord"
begin

text \<open>
  The crosswalks of \<^verbatim>\<open>ulpf/normalize/crosswalk\<close>: projections of a finalized OCSF record onto the Elastic Common Schema
  (\<^verbatim>\<open>ecs.py\<close>) and the Splunk Common Information Model (\<^verbatim>\<open>cim.py\<close>).
\<close>

section \<open>Shared helpers\<close>

text \<open>\<^verbatim>\<open>_to_int\<close>: the test strips any number of leading minus signs, the conversion reads one.\<close>

definition cw_to_int :: "pyval \<Rightarrow> int option res" where
  "cw_to_int v =
     (case v of
        PInt i \<Rightarrow> Inr (Some i)
      | PStr s \<Rightarrow>
          let t = dropWhile (\<lambda>c. c = CHR ''-'') s
          in if t \<noteq> [] \<and> list_all is_digit t then bind_res (py_int v) (\<lambda>i. Inr (Some i)) else Inr None
      | _ \<Rightarrow> Inr None)"

definition opt_int :: "int option \<Rightarrow> pyval" where
  "opt_int x = (case x of None \<Rightarrow> PNone | Some i \<Rightarrow> PInt i)"

definition py_or :: "pyval \<Rightarrow> pyval \<Rightarrow> pyval" where
  "py_or a b = (if py_truth a then a else b)"

definition lower_value :: "pyval \<Rightarrow> pyval" where
  "lower_value v = (case v of PStr s \<Rightarrow> PStr (py_lower s) | _ \<Rightarrow> v)"

text \<open>\<^verbatim>\<open>first + second\<close> when either is set.\<close>

definition sum_of :: "int option \<Rightarrow> int option \<Rightarrow> int option \<Rightarrow> int option" where
  "sum_of a b fallback =
     (if a = None \<and> b = None then fallback
      else Some ((case a of None \<Rightarrow> 0 | Some i \<Rightarrow> i) + (case b of None \<Rightarrow> 0 | Some i \<Rightarrow> i)))"

definition sub_dict :: "pydict \<Rightarrow> string \<Rightarrow> pydict" where
  "sub_dict d k = dict_of (py_get d k)"

section \<open>Elastic Common Schema\<close>

definition ecs_class_map :: "(int \<times> string list \<times> string list \<times> string) list" where
  "ecs_class_map =
     [(4001, [''network''], [''connection''], ''event''),
      (4002, [''network'', ''web''], [''connection'', ''protocol''], ''event''),
      (4003, [''network''], [''connection'', ''protocol''], ''event''),
      (2004, [''intrusion_detection''], [''info''], ''alert'')]"

text \<open>\<^verbatim>\<open>datetime(1970, 1, 1) + timedelta(...)\<close> overflows outside the years 1 to 9999.\<close>

definition iso8601 :: "pyval \<Rightarrow> pyval res" where
  "iso8601 v =
     (case v of
        PInt ns \<Rightarrow>
          let us = ns div 1000; secs = us div 1000000; micro = us mod 1000000; sod = secs mod 86400
          in if min_seconds \<le> secs \<and> secs < max_seconds
             then Inr (PStr (iso_date (ord2ymd (secs div 86400 + epoch_ordinal)) @ ''T''
                    @ pad_left 2 (str_of_int (sod div 3600)) @ '':'' @ pad_left 2 (str_of_int (sod div 60 mod 60)) @ '':''
                    @ pad_left 2 (str_of_int (sod mod 60))
                    @ (if micro = 0 then [] else ''.'' @ pad_left 6 (str_of_int micro)) @ ''Z''))
             else Inl (OverflowError ''date value out of range'')
      | _ \<Rightarrow> Inr PNone)"

definition traffic_bytes :: "pydict \<Rightarrow> string \<Rightarrow> int option res" where
  "traffic_bytes rec direction = cw_to_int (py_get (sub_dict rec ''traffic'') (''bytes_'' @ direction))"

definition ecs_event :: "pydict \<Rightarrow> pyval res" where
  "ecs_event rec =
     bind_res (lookup_id ecs_class_map (py_get rec ''class_uid'')) (\<lambda>entry.
       let (categories, types, kind) = (case entry of None \<Rightarrow> ([], [], ''event'') | Some e \<Rightarrow> e);
           metadata = sub_dict rec ''metadata''
       in Inr (PDict [(''kind'', PStr kind), (''category'', PList (map PStr categories)), (''type'', PList (map PStr types)),
                      (''action'', py_get rec ''action''), (''severity'', py_get rec ''severity_id''),
                      (''id'', py_get metadata ''uid'')]))"

definition ecs_endpoint :: "pyval \<Rightarrow> int option \<Rightarrow> pydict \<Rightarrow> string \<Rightarrow> pyval res" where
  "ecs_endpoint endpoint byte_count unmapped side =
     (let ep = dict_of endpoint
      in bind_res (cw_to_int (py_get unmapped (''nat_'' @ side @ ''_port''))) (\<lambda>nat_port.
           Inr (PDict [(''ip'', py_get ep ''ip''), (''port'', py_get ep ''port''), (''mac'', py_get ep ''mac''),
                       (''domain'', py_get ep ''hostname''), (''bytes'', opt_int byte_count),
                       (''nat'', PDict [(''ip'', py_get unmapped (''nat_'' @ side @ ''_ip'')), (''port'', opt_int nat_port)])])))"

definition ecs_network :: "pydict \<Rightarrow> pyval res" where
  "ecs_network rec =
     (let conn = sub_dict rec ''connection_info''
      in bind_res (traffic_bytes rec ''out'') (\<lambda>out_bytes.
         bind_res (traffic_bytes rec ''in'') (\<lambda>in_bytes.
         bind_res (cw_to_int (py_get conn ''protocol_num'')) (\<lambda>num.
           Inr (PDict [(''transport'', lower_value (py_get conn ''protocol_name'')), (''iana_number'', opt_int num),
                       (''bytes'', (case sum_of out_bytes in_bytes None of
                                     Some t \<Rightarrow> PInt t | None \<Rightarrow> py_get (sub_dict rec ''traffic'') ''bytes''))])))))"

definition ecs_rule :: "pydict \<Rightarrow> pyval" where
  "ecs_rule rec =
     (let fw_rule = sub_dict rec ''firewall_rule''; finding = sub_dict rec ''finding_info''
      in PDict [(''name'', py_or (py_get fw_rule ''name'') (py_get finding ''title'')),
                (''id'', py_or (py_get fw_rule ''uid'') (py_get finding ''uid'')), (''category'', py_get finding ''types'')])"

definition ecs_observer :: "pydict \<Rightarrow> pydict \<Rightarrow> pyval" where
  "ecs_observer rec unmapped =
     (let product = sub_dict (sub_dict rec ''metadata'') ''product''
      in PDict [(''vendor'', py_get product ''vendor_name''), (''name'', py_get product ''name''),
                (''ingress'', PDict [(''zone'', py_get unmapped ''src_zone'')]),
                (''egress'', PDict [(''zone'', py_get unmapped ''dst_zone'')])])"

definition address_texts :: "pyval \<Rightarrow> string list" where
  "address_texts v = (case v of PStr s \<Rightarrow> if s = [] then [] else [s] | _ \<Rightarrow> [])"

fun ecs_collect_ips :: "pyval \<Rightarrow> string list"
  and ecs_ips_in_members :: "pydict \<Rightarrow> string list"
  and ecs_ips_in_items :: "pyval list \<Rightarrow> string list" where
  "ecs_collect_ips (PDict d) = ecs_ips_in_members d"
| "ecs_collect_ips (PList xs) = ecs_ips_in_items xs"
| "ecs_collect_ips _ = []"
| "ecs_ips_in_members [] = []"
| "ecs_ips_in_members ((k, v) # d) =
     (if k = ''ip'' \<and> address_texts v \<noteq> [] then address_texts v else ecs_collect_ips v) @ ecs_ips_in_members d"
| "ecs_ips_in_items [] = []"
| "ecs_ips_in_items (x # xs) = ecs_collect_ips x @ ecs_ips_in_items xs"

definition related_ips :: "pydict \<Rightarrow> pydict \<Rightarrow> string list" where
  "related_ips rec unmapped =
     sort (remdups (ecs_collect_ips (PDict rec) @ address_texts (py_get unmapped ''nat_src_ip'') @ address_texts (py_get unmapped ''nat_dst_ip'')))"

definition is_blank :: "pyval \<Rightarrow> bool" where
  "is_blank v \<longleftrightarrow> v \<in> {PNone, PDict [], PList [], PStr []}"

fun prune :: "pyval \<Rightarrow> pyval"
  and prune_members :: "pydict \<Rightarrow> pydict"
  and prune_items :: "pyval list \<Rightarrow> pyval list" where
  "prune (PDict d) = PDict (prune_members d)"
| "prune (PList xs) = PList (prune_items xs)"
| "prune v = v"
| "prune_members [] = []"
| "prune_members ((k, v) # d) = (if is_blank (prune v) then prune_members d else (k, prune v) # prune_members d)"
| "prune_items [] = []"
| "prune_items (x # xs) = (if is_blank (prune x) then prune_items xs else prune x # prune_items xs)"

definition ecs_document :: "pydict \<Rightarrow> pyval \<Rightarrow> pyval \<Rightarrow> pyval \<Rightarrow> pyval \<Rightarrow> pyval \<Rightarrow> pydict" where
  "ecs_document rec timestamp event source destination network =
     (let unmapped = sub_dict rec ''unmapped'';
          doc = [(''@timestamp'', timestamp), (''ecs'', PDict [(''version'', PStr ''8.11.0'')]), (''event'', event),
                 (''source'', source), (''destination'', destination), (''network'', network),
                 (''rule'', ecs_rule rec), (''observer'', ecs_observer rec unmapped)];
          related = related_ips rec unmapped
      in if related = [] then doc else dict_set ''related'' (PDict [(''ip'', PList (map PStr related))]) doc)"

definition to_ecs :: "pydict \<Rightarrow> pydict res" where
  "to_ecs rec =
     (let unmapped = sub_dict rec ''unmapped''
      in bind_res (iso8601 (py_get rec ''time'')) (\<lambda>timestamp.
         bind_res (ecs_event rec) (\<lambda>event.
         bind_res (traffic_bytes rec ''out'') (\<lambda>out_bytes.
         bind_res (ecs_endpoint (py_get rec ''src_endpoint'') out_bytes unmapped ''src'') (\<lambda>source.
         bind_res (traffic_bytes rec ''in'') (\<lambda>in_bytes.
         bind_res (ecs_endpoint (py_get rec ''dst_endpoint'') in_bytes unmapped ''dst'') (\<lambda>destination.
         bind_res (ecs_network rec) (\<lambda>network.
           Inr (prune_members (ecs_document rec timestamp event source destination network))))))))))"

section \<open>Common Information Model\<close>

text \<open>The table has the keys one and two beside the captions.\<close>

definition traffic_action_names :: "(string \<times> string) list" where
  "traffic_action_names = [(''Allowed'', ''allowed''), (''Denied'', ''blocked''), (''Blocked'', ''blocked''), (''Dropped'', ''blocked'')]"

definition traffic_action_ids :: id_table where
  "traffic_action_ids = [(1, ''allowed''), (2, ''blocked'')]"

definition cim_severities :: id_table where
  "cim_severities = [(0, ''unknown''), (1, ''informational''), (2, ''low''), (3, ''medium''), (4, ''high''), (5, ''critical''),
     (6, ''critical'')]"

fun traffic_action :: "pyval list \<Rightarrow> pyval res" where
  "traffic_action [] = Inr PNone"
| "traffic_action (c # cs) =
     (case (case c of PStr s \<Rightarrow> Inr (map_of traffic_action_names s) | _ \<Rightarrow> lookup_id traffic_action_ids c) of
        Inl x \<Rightarrow> Inl x
      | Inr (Some a) \<Rightarrow> Inr (PStr a)
      | Inr None \<Rightarrow> traffic_action cs)"

definition cim_severity :: "pydict \<Rightarrow> pyval res" where
  "cim_severity rec =
     (case py_get rec ''severity'' of
        PStr (c # cs) \<Rightarrow> Inr (PStr (py_lower (c # cs)))
      | _ \<Rightarrow> bind_res (lookup_id cim_severities (py_get rec ''severity_id'')) (\<lambda>n.
               Inr (case n of None \<Rightarrow> PNone | Some s \<Rightarrow> PStr s)))"

definition vendor_product :: "pydict \<Rightarrow> pyval res" where
  "vendor_product rec =
     (let product = sub_dict (sub_dict rec ''metadata'') ''product'';
          parts = filter py_truth [py_get product ''vendor_name'', py_get product ''name'']
      in bind_res (map_res (\<lambda>p. case p of PStr s \<Rightarrow> Inr s | _ \<Rightarrow> Inl (TypeError ''expected str instance'')) parts) (\<lambda>texts.
           let joined = join_with '' '' texts in Inr (if joined = [] then PNone else PStr joined)))"

definition network_traffic :: "pydict \<Rightarrow> pydict res" where
  "network_traffic rec =
     (let src = sub_dict rec ''src_endpoint''; dst = sub_dict rec ''dst_endpoint'';
          conn = sub_dict rec ''connection_info''; traffic = sub_dict rec ''traffic'';
          fw_rule = sub_dict rec ''firewall_rule''
      in bind_res (cw_to_int (py_get traffic ''bytes_out'')) (\<lambda>bytes_out.
         bind_res (cw_to_int (py_get traffic ''bytes_in'')) (\<lambda>bytes_in.
         bind_res (cw_to_int (py_get src ''port'')) (\<lambda>src_port.
         bind_res (cw_to_int (py_get dst ''port'')) (\<lambda>dest_port.
         bind_res (traffic_action [py_get rec ''action_id'', py_get rec ''action'', py_get rec ''disposition'']) (\<lambda>action.
         bind_res (cw_to_int (py_get traffic ''bytes'')) (\<lambda>all_bytes.
         bind_res (cw_to_int (py_get traffic ''packets_out'')) (\<lambda>packets_out.
         bind_res (cw_to_int (py_get traffic ''packets_in'')) (\<lambda>packets_in.
         bind_res (cw_to_int (py_get traffic ''packets'')) (\<lambda>packets.
         bind_res (vendor_product rec) (\<lambda>vp.
           Inr [(''src'', py_get src ''ip''), (''src_port'', opt_int src_port), (''dest'', py_get dst ''ip''),
                (''dest_port'', opt_int dest_port), (''transport'', lower_value (py_get conn ''protocol_name'')),
                (''action'', action), (''bytes'', opt_int (sum_of bytes_out bytes_in all_bytes)),
                (''bytes_in'', opt_int bytes_in), (''bytes_out'', opt_int bytes_out),
                (''packets'', opt_int (sum_of packets_out packets_in packets)),
                (''rule'', py_or (py_get fw_rule ''name'') (py_get fw_rule ''uid'')), (''vendor_product'', vp)])))))))))))"

definition intrusion_detection :: "pydict \<Rightarrow> pydict res" where
  "intrusion_detection rec =
     (let finding = sub_dict rec ''finding_info''
      in bind_res (cim_severity rec) (\<lambda>severity.
         bind_res (vendor_product rec) (\<lambda>vp.
           Inr [(''signature'', py_get finding ''title''), (''signature_id'', py_get finding ''uid''), (''severity'', severity),
                (''src'', py_get (sub_dict rec ''src_endpoint'') ''ip''), (''dest'', py_get (sub_dict rec ''dst_endpoint'') ''ip''),
                (''ids_type'', PStr ''network''), (''vendor_product'', vp)])))"

definition cim_common :: "pydict \<Rightarrow> pydict res" where
  "cim_common rec =
     bind_res (vendor_product rec) (\<lambda>vp.
       Inr [(''src'', py_get (sub_dict rec ''src_endpoint'') ''ip''), (''dest'', py_get (sub_dict rec ''dst_endpoint'') ''ip''),
            (''vendor_product'', vp)])"

definition to_cim :: "pydict \<Rightarrow> pydict res" where
  "to_cim rec =
     (let class_uid = num_value (py_get rec ''class_uid'');
          (fields, tags) = (if class_uid = Some 4001 then (network_traffic rec, [''network'', ''communicate''])
                            else if class_uid = Some 2004 then (intrusion_detection rec, [''ids'', ''attack''])
                            else (cim_common rec, []))
      in bind_res fields (\<lambda>d. Inr (dict_set ''tags'' (PList (map PStr tags)) (filter (\<lambda>(k, v). v \<noteq> PNone) d))))"

section \<open>What a document holds\<close>

text \<open>No entry is blank, at any depth.\<close>

fun populated :: "pyval \<Rightarrow> bool"
  and populated_members :: "pydict \<Rightarrow> bool"
  and populated_items :: "pyval list \<Rightarrow> bool" where
  "populated (PDict d) = populated_members d"
| "populated (PList xs) = populated_items xs"
| "populated v = True"
| "populated_members [] = True"
| "populated_members ((k, v) # d) = (\<not> is_blank v \<and> populated v \<and> populated_members d)"
| "populated_items [] = True"
| "populated_items (x # xs) = (\<not> is_blank x \<and> populated x \<and> populated_items xs)"

lemma prune_populated:
  "populated (prune v)" "populated_members (prune_members d)" "populated_items (prune_items xs)"
  by (induction v and d and xs rule: prune_prune_members_prune_items.induct) simp_all

lemma prune_id:
  "populated v \<Longrightarrow> prune v = v" "populated_members d \<Longrightarrow> prune_members d = d" "populated_items xs \<Longrightarrow> prune_items xs = xs"
  by (induction v and d and xs rule: populated_populated_members_populated_items.induct) auto

lemma prune_idem: "prune (prune v) = prune v"
  by (rule prune_id(1)) (rule prune_populated(1))

lemma py_get_prune: "py_get (prune_members d) k =
    (let v = prune (py_get d k) in if is_blank v then PNone else v)" if "dict_ok d"
  using that
proof (induction d)
  case (Cons x d)
  then show ?case
    by (cases x) (auto simp: py_get_Cons Let_def dict_ok_def is_blank_def py_get_def map_of_eq_None_iff [THEN iffD2] image_iff
        split: option.splits)
qed (simp add: is_blank_def)

text \<open>The pivot list has every address text of the record: the values under any \<^verbatim>\<open>ip\<close> key, and the translated ones.\<close>

definition record_ips :: "pydict \<Rightarrow> string set" where
  "record_ips rec =
     {s. s \<noteq> [] \<and> (PStr s \<in> set (collect ''ip'' (PDict rec))
        \<or> PStr s \<in> {py_get (sub_dict rec ''unmapped'') ''nat_src_ip'', py_get (sub_dict rec ''unmapped'') ''nat_dst_ip''})}"

lemma address_texts_mem: "s \<in> set (address_texts v) \<longleftrightarrow> v = PStr s \<and> s \<noteq> []"
  by (cases v) (auto simp: address_texts_def)

lemma collect_texts:
  "s \<in> set (ecs_collect_ips v) \<longleftrightarrow> s \<noteq> [] \<and> PStr s \<in> set (collect ''ip'' v)"
  "s \<in> set (ecs_ips_in_members d) \<longleftrightarrow> s \<noteq> [] \<and> PStr s \<in> set (collect_in_members ''ip'' d)"
  "s \<in> set (ecs_ips_in_items xs) \<longleftrightarrow> s \<noteq> [] \<and> PStr s \<in> set (collect_in_items ''ip'' xs)"
  by (induction v and d and xs rule: ecs_collect_ips_ecs_ips_in_members_ecs_ips_in_items.induct)
    (auto simp: address_texts_def is_container_def split: pyval.splits if_splits)

lemma related_ips_set: "set (related_ips rec (sub_dict rec ''unmapped'')) = record_ips rec"
  by (auto simp: related_ips_def record_ips_def address_texts_mem collect_texts simp del: collect.simps ecs_collect_ips.simps)

lemma sort_remdups_set: "sort (remdups xs) = sorted_list_of_set (set xs)"
  by (simp add: sorted_list_of_set_sort_remdups)

lemma related_ips_sorted: "related_ips rec (sub_dict rec ''unmapped'') = sorted_list_of_set (record_ips rec)"
  using related_ips_set [of rec] unfolding related_ips_def sort_remdups_set set_sort set_remdups by simp

lemma finite_record_ips: "finite (record_ips rec)"
  using related_ips_set [of rec] finite_set by metis

lemma sub_dict_prune:
  assumes "dict_ok d" and "py_get d k = PDict e"
  shows "sub_dict (prune_members d) k = prune_members e"
  using assms by (simp add: sub_dict_def py_get_prune Let_def is_blank_def dict_of_def)

lemma prune_texts: "[] \<notin> set xs \<Longrightarrow> prune_items (map PStr xs) = map PStr xs"
  by (induction xs) (auto simp: is_blank_def)

lemma cw_to_int_raises: "cw_to_int v = Inl x \<Longrightarrow> is_lookup_or_value_error x"
  by (auto simp: cw_to_int_def py_int_def bind_res_def Let_def split: pyval.splits if_splits sum.splits option.splits)

lemma lookup_id_raises: "lookup_id t v = Inl x \<Longrightarrow> is_lookup_or_value_error x"
  by (auto simp: lookup_id_def split: if_splits)

lemma iso8601_raises: "iso8601 v = Inl x \<Longrightarrow> \<exists>m. x = OverflowError m"
  by (auto simp: iso8601_def Let_def split: pyval.splits if_splits)

lemma bind_res_Inl_iff: "bind_res r f = Inl x \<longleftrightarrow> r = Inl x \<or> (\<exists>y. r = Inr y \<and> f y = Inl x)"
  by (cases r) auto

lemma ecs_part_raises:
  "traffic_bytes rec dir = Inl x \<Longrightarrow> is_lookup_or_value_error x"
  "ecs_event rec = Inl x \<Longrightarrow> is_lookup_or_value_error x"
  "ecs_endpoint ep n u side = Inl x \<Longrightarrow> is_lookup_or_value_error x"
  "ecs_network rec = Inl x \<Longrightarrow> is_lookup_or_value_error x"
  by (auto simp: ecs_event_def ecs_endpoint_def ecs_network_def traffic_bytes_def bind_res_Inl_iff Let_def
      split: option.splits prod.splits dest: cw_to_int_raises lookup_id_raises)


text \<open>
  A text such as \<^verbatim>\<open>--5\<close> passes the digit test of \<^verbatim>\<open>_to_int\<close> and is refused by \<^verbatim>\<open>int\<close>: the projection of a record that
  the mapper accepted then raises.
\<close>

lemma double_minus_raises:
  "to_ecs [(''unmapped'', PDict [(''nat_src_port'', PStr ''--5'')])] = Inl (ValueError ''invalid literal for int()'')"
  by code_simp

text \<open>Both projections name the same source, when it is an address text.\<close>

lemma cim_source:
  assumes "to_cim rec = Inr out" and "py_get (sub_dict rec ''src_endpoint'') ''ip'' = PStr a"
  shows "py_get out ''src'' = PStr a"
  using assms
  by (auto simp: to_cim_def network_traffic_def intrusion_detection_def cim_common_def bind_res_Inr_iff Let_def py_get_Cons
      split: if_splits)

end
