(* ===== verification/Parquet_Sink.thy ===== *)
theory Parquet_Sink
  imports Crosswalk Raw_Store
begin

text \<open>
  The columnar sink of \<^verbatim>\<open>ulpf/sinks/parquet_sink.py\<close>: the shape of a row (shared with the ClickHouse sink) and the
  buffer that is flushed into one file per date and source. Building and writing a table is done by pyarrow:
  the argument \<open>encode\<close> says which exception, if any, it raises for the rows of a file. File identifiers and
  clock readings are arguments.
\<close>

section \<open>Rows\<close>

text \<open>\<^verbatim>\<open>json.dumps\<close> with \<^verbatim>\<open>sort_keys\<close>: members in the order of their names, at every depth.\<close>

fun sort_json :: "pyval \<Rightarrow> pyval"
  and sort_json_members :: "pydict \<Rightarrow> pydict"
  and sort_json_items :: "pyval list \<Rightarrow> pyval list" where
  "sort_json (PDict d) = PDict (sort_key fst (sort_json_members d))"
| "sort_json (PList xs) = PList (sort_json_items xs)"
| "sort_json v = v"
| "sort_json_members [] = []"
| "sort_json_members ((k, v) # d) = (k, sort_json v) # sort_json_members d"
| "sort_json_items [] = []"
| "sort_json_items (x # xs) = sort_json x # sort_json_items xs"

definition json_or_none :: "pyval \<Rightarrow> pyval" where
  "json_or_none v = (if py_truth v then PStr (json_dumps (sort_json v)) else PNone)"

text \<open>\<^verbatim>\<open>_as_int\<close> is written like \<^verbatim>\<open>_to_int\<close> of the crosswalks.\<close>

definition as_int :: "pyval \<Rightarrow> pyval res" where
  "as_int v = bind_res (cw_to_int v) (\<lambda>i. Inr (opt_int i))"

definition as_str :: "pyval \<Rightarrow> pyval" where
  "as_str v = (if v = PNone then PNone else PStr (py_str v))"

text \<open>\<^verbatim>\<open>ocsf.get(key) or {}\<close>, of which \<^verbatim>\<open>get\<close> is called: anything true that is not a dictionary raises.\<close>

definition dict_field :: "pydict \<Rightarrow> string \<Rightarrow> pydict res" where
  "dict_field d k =
     (let v = py_get d k
      in if \<not> py_truth v then Inr [] else case v of PDict e \<Rightarrow> Inr e | _ \<Rightarrow> Inl (AttributeError ''get''))"

definition core_row :: "normalized_event \<Rightarrow> pydict res" where
  "core_row n =
     (let d = ocsf n
      in bind_res (dict_field d ''src_endpoint'') (\<lambda>src.
         bind_res (dict_field d ''dst_endpoint'') (\<lambda>dst.
         bind_res (dict_field d ''connection_info'') (\<lambda>conn.
         bind_res (dict_field d ''traffic'') (\<lambda>traffic.
         bind_res (map_res as_int (map (py_get d) [''time'', ''class_uid'', ''category_uid'', ''activity_id'', ''type_uid'', ''severity_id'']))
           (\<lambda>ids.
         bind_res (as_int (py_get src ''port'')) (\<lambda>src_port.
         bind_res (as_int (py_get dst ''port'')) (\<lambda>dst_port.
         bind_res (map_res as_int [py_get d ''action_id'', py_get traffic ''bytes_in'', py_get traffic ''bytes_out'']) (\<lambda>counts.
           Inr ([(''event_uid'', PStr (n_event_uid n)), (''raw_hash'', PStr (n_raw_hash n))]
                @ zip [''time'', ''class_uid'', ''category_uid'', ''activity_id'', ''type_uid'', ''severity_id''] ids
                @ [(''source_type'', PStr (n_source_type n)), (''src_ip'', as_str (py_get src ''ip'')), (''src_port'', src_port),
                   (''dst_ip'', as_str (py_get dst ''ip'')), (''dst_port'', dst_port),
                   (''protocol'', as_str (py_or (py_get conn ''protocol_name'') (py_get conn ''protocol_num'')))]
                @ zip [''action_id'', ''bytes_in'', ''bytes_out''] counts))))))))))"

fun flatten_row :: "string \<Rightarrow> pyval \<Rightarrow> pydict \<Rightarrow> pydict"
  and flatten_members :: "string \<Rightarrow> pydict \<Rightarrow> pydict \<Rightarrow> pydict" where
  "flatten_row col (PDict d) out = flatten_members col d out"
| "flatten_row col (PList xs) out = dict_set col (json_or_none (PList xs)) out"
| "flatten_row col v out = dict_set col v out"
| "flatten_members prf [] out = out"
| "flatten_members prf ((k, v) # d) out =
     flatten_members prf d
       (if prf = [] \<and> k \<in> {''unmapped'', ''enrichments''} then out
        else flatten_row (if prf = [] then k else prf @ ''.'' @ k) v out)"

definition parquet_row :: "normalized_event \<Rightarrow> pydict res" where
  "parquet_row n =
     bind_res (core_row n) (\<lambda>core.
       Inr (dict_set ''enrichments_json'' (json_or_none (py_or (py_get (ocsf n) ''enrichments'') (PDict (enrichment n))))
             (dict_set ''unmapped_json'' (json_or_none (py_get (ocsf n) ''unmapped''))
               (dict_update (flatten_members [] (ocsf n) []) core))))"

text \<open>A time that cannot be read gives the date of the clock.\<close>

definition epoch_ns_to_date :: "int \<Rightarrow> pyval \<Rightarrow> string res" where
  "epoch_ns_to_date now v = (case bind_res (py_int v) date_of of Inr d \<Rightarrow> Inr d | Inl _ \<Rightarrow> date_of now)"

definition is_alnum :: "char \<Rightarrow> bool" where
  "is_alnum c \<longleftrightarrow> is_alpha c \<or> is_dec c \<or> code c \<in> {170, 178, 179, 181, 185, 186, 188, 189, 190}
     \<or> (192 \<le> code c \<and> code c \<noteq> 215 \<and> code c \<noteq> 247)"

definition slug :: "string \<Rightarrow> string" where
  "slug s = (if s = [] then ''unknown'' else map (\<lambda>c. if is_alnum c \<or> c \<in> set ''-_.'' then c else CHR ''_'') s)"

section \<open>The sink\<close>

record parquet_file =
  pf_date :: string
  pf_source :: string
  pf_name :: string
  pf_rows :: "pydict list"

record parquet_sink =
  pq_max_rows :: int
  pq_interval :: int
  pq_buffer :: "((string \<times> string) \<times> pydict list) list"
  pq_buffered :: int
  pq_last_flush :: int
  pq_files_written :: nat
  pq_rows_written :: nat
  pq_files :: "parquet_file list"

definition new_parquet_sink :: "int \<Rightarrow> int \<Rightarrow> int \<Rightarrow> parquet_sink" where
  "new_parquet_sink max_rows interval now = \<lparr>pq_max_rows = max max_rows 1, pq_interval = max interval 0, pq_buffer = [],
     pq_buffered = 0, pq_last_flush = now, pq_files_written = 0, pq_rows_written = 0, pq_files = []\<rparr>"

text \<open>
  The files of one flush, in the order of the buffer's partitions, and the exception that ended it early: the files
  before stay.
\<close>

fun write_partitions ::
  "(pydict list \<Rightarrow> exn option) \<Rightarrow> (nat \<Rightarrow> string) \<Rightarrow> ((string \<times> string) \<times> pydict list) list \<Rightarrow> parquet_sink \<Rightarrow> exn option \<times> parquet_sink" where
  "write_partitions encode names [] s = (None, s)"
| "write_partitions encode names (((d, src), rows) # ps) s =
     (if rows = [] then write_partitions encode names ps s
      else case encode rows of
        Some x \<Rightarrow> (Some x, s)
      | None \<Rightarrow>
          write_partitions encode names ps
            (s\<lparr>pq_files := pq_files s @ [\<lparr>pf_date = d, pf_source = slug src, pf_name = names (pq_files_written s), pf_rows = rows\<rparr>],
               pq_files_written := pq_files_written s + 1, pq_rows_written := pq_rows_written s + length rows\<rparr>))"

definition pq_flush :: "(pydict list \<Rightarrow> exn option) \<Rightarrow> (nat \<Rightarrow> string) \<Rightarrow> int \<Rightarrow> parquet_sink \<Rightarrow> exn option \<times> parquet_sink" where
  "pq_flush encode names now s =
     (case write_partitions encode names (pq_buffer s) s of
        (Some x, s') \<Rightarrow> (Some x, s')
      | (None, s') \<Rightarrow> (None, s'\<lparr>pq_buffer := [], pq_buffered := 0, pq_last_flush := now\<rparr>))"

definition time_due :: "int \<Rightarrow> parquet_sink \<Rightarrow> bool" where
  "time_due now s \<longleftrightarrow> \<not> (pq_interval s \<le> 0 \<or> pq_buffered s = 0) \<and> pq_interval s \<le> now - pq_last_flush s"

definition buffer_row :: "string \<times> string \<Rightarrow> pydict \<Rightarrow> parquet_sink \<Rightarrow> parquet_sink" where
  "buffer_row key row s =
     s\<lparr>pq_buffer := dict_set key ((case map_of (pq_buffer s) key of None \<Rightarrow> [] | Some rs \<Rightarrow> rs) @ [row]) (pq_buffer s),
       pq_buffered := pq_buffered s + 1\<rparr>"

definition partition_of :: "int \<Rightarrow> normalized_event \<Rightarrow> (string \<times> string) res" where
  "partition_of wall n =
     bind_res (epoch_ns_to_date wall (py_or (py_get (ocsf n) ''time'') (PInt (n_ingest_time_ns n)))) (\<lambda>d.
       Inr (d, if n_source_type n = [] then ''unknown'' else n_source_type n))"

text \<open>\<open>wall\<close> is the wall clock, \<open>now\<close> the monotonic one.\<close>

definition pq_write ::
  "(pydict list \<Rightarrow> exn option) \<Rightarrow> (nat \<Rightarrow> string) \<Rightarrow> int \<Rightarrow> int \<Rightarrow> normalized_event \<Rightarrow> parquet_sink \<Rightarrow> exn option \<times> parquet_sink" where
  "pq_write encode names wall now n s =
     (case partition_of wall n of
        Inl x \<Rightarrow> (Some x, s)
      | Inr key \<Rightarrow>
          (case parquet_row n of
             Inl x \<Rightarrow> (Some x, s\<lparr>pq_buffer := dict_set key (case map_of (pq_buffer s) key of None \<Rightarrow> [] | Some rs \<Rightarrow> rs) (pq_buffer s)\<rparr>)
           | Inr row \<Rightarrow>
               (let s1 = buffer_row key row s
                in if pq_max_rows s1 \<le> pq_buffered s1 \<or> time_due now s1 then pq_flush encode names now s1 else (None, s1))))"

definition pq_close :: "(pydict list \<Rightarrow> exn option) \<Rightarrow> (nat \<Rightarrow> string) \<Rightarrow> int \<Rightarrow> parquet_sink \<Rightarrow> exn option \<times> parquet_sink" where
  "pq_close = pq_flush"

section \<open>Where the rows are\<close>

definition stored_rows :: "parquet_sink \<Rightarrow> pydict list" where
  "stored_rows s = concat (map pf_rows (pq_files s))"

definition waiting_rows :: "parquet_sink \<Rightarrow> pydict list" where
  "waiting_rows s = concat (map snd (pq_buffer s))"

lemma mset_dict_set:
  "mset (concat (map snd (dict_set k v d))) + mset (case map_of d k of None \<Rightarrow> [] | Some rs \<Rightarrow> rs) = mset (concat (map snd d)) + mset v"
  by (induction d) auto

lemma waiting_buffer_row: "mset (waiting_rows (buffer_row key row s)) = add_mset row (mset (waiting_rows s))"
proof -
  let ?old = "case map_of (pq_buffer s) key of None \<Rightarrow> [] | Some rs \<Rightarrow> rs"
  have "mset (waiting_rows (buffer_row key row s)) + mset ?old = mset (waiting_rows s) + mset (?old @ [row])"
    using mset_dict_set [of key "?old @ [row]" "pq_buffer s"] by (simp add: waiting_rows_def buffer_row_def)
  then show ?thesis by simp
qed

lemma waiting_touch:
  "mset (concat (map snd (dict_set key (case map_of d key of None \<Rightarrow> [] | Some rs \<Rightarrow> rs) d))) = mset (concat (map snd d))"
  using mset_dict_set [of key "case map_of d key of None \<Rightarrow> [] | Some rs \<Rightarrow> rs" d] by simp

text \<open>The partition a flush stops at, and the rows it writes before.\<close>

fun refusal :: "(pydict list \<Rightarrow> exn option) \<Rightarrow> ((string \<times> string) \<times> pydict list) list \<Rightarrow> exn option" where
  "refusal encode [] = None"
| "refusal encode ((key, rows) # ps) =
     (if rows = [] then refusal encode ps else case encode rows of Some x \<Rightarrow> Some x | None \<Rightarrow> refusal encode ps)"

fun before_refusal :: "(pydict list \<Rightarrow> exn option) \<Rightarrow> ((string \<times> string) \<times> pydict list) list \<Rightarrow> pydict list" where
  "before_refusal encode [] = []"
| "before_refusal encode ((key, rows) # ps) =
     (if rows = [] then before_refusal encode ps
      else case encode rows of Some x \<Rightarrow> [] | None \<Rightarrow> rows @ before_refusal encode ps)"

lemma before_refusal_all: "refusal encode ps = None \<Longrightarrow> before_refusal encode ps = concat (map snd ps)"
  by (induction ps) (auto split: if_splits option.splits)

lemma before_refusal_sub: "set (before_refusal encode ps) \<subseteq> set (concat (map snd ps))"
  by (induction ps) (auto split: if_splits option.splits)

lemma write_partitions_rows:
  "write_partitions encode names ps s = (r, s') \<Longrightarrow>
     r = refusal encode ps \<and> pq_buffer s' = pq_buffer s \<and> stored_rows s' = stored_rows s @ before_refusal encode ps"
  by (induction ps arbitrary: s) (auto simp: stored_rows_def split: if_splits option.splits, metis)

lemma pq_flush_rows:
  assumes "pq_flush encode names now s = (r, s')"
  shows "r = refusal encode (pq_buffer s)"
    and "stored_rows s' = stored_rows s @ before_refusal encode (pq_buffer s)"
    and "pq_buffer s' = (if r = None then [] else pq_buffer s)"
proof -
  obtain r1 s1 where w: "write_partitions encode names (pq_buffer s) s = (r1, s1)" by (cases "write_partitions encode names (pq_buffer s) s")
  note rows = write_partitions_rows [OF w]
  have "r = r1 \<and> stored_rows s' = stored_rows s1 \<and> pq_buffer s' = (if r = None then [] else pq_buffer s1)"
    using assms w by (cases r1) (auto simp: pq_flush_def stored_rows_def)
  then show "r = refusal encode (pq_buffer s)" "stored_rows s' = stored_rows s @ before_refusal encode (pq_buffer s)"
    "pq_buffer s' = (if r = None then [] else pq_buffer s)"
    using rows by auto
qed

text \<open>
  A batch that pyarrow refuses stays in the buffer, after the partitions before it were written: every later
  flush writes those again, and is refused again.
\<close>

theorem refused_batch_blocks:
  "(case pq_flush encode names now s of
      (None, s') \<Rightarrow> pq_buffer s' = [] \<and> stored_rows s' = stored_rows s @ waiting_rows s
    | (Some x, s') \<Rightarrow> pq_buffer s' = pq_buffer s
        \<and> (case pq_flush encode names' now' s' of
             (r2, s2) \<Rightarrow> r2 = Some x \<and> pq_buffer s2 = pq_buffer s
               \<and> (\<exists>w. stored_rows s' = stored_rows s @ w \<and> stored_rows s2 = stored_rows s @ w @ w)))"
proof -
  obtain r s' where one: "pq_flush encode names now s = (r, s')" by (cases "pq_flush encode names now s")
  obtain r2 s2 where two: "pq_flush encode names' now' s' = (r2, s2)" by (cases "pq_flush encode names' now' s'")
  note 1 = pq_flush_rows [OF one] and 2 = pq_flush_rows [OF two]
  show ?thesis
  proof (cases r)
    case None
    then show ?thesis using one 1 before_refusal_all [of encode "pq_buffer s"] by (simp add: waiting_rows_def)
  next
    case (Some x)
    then show ?thesis using one two 1 2 by simp
  qed
qed

text \<open>Sequences of writes and flushes: the rows accepted, and how many flushes failed.\<close>

datatype parquet_op = PqWrite int int normalized_event | PqFlush int

definition accepted_row :: "parquet_op \<Rightarrow> pydict list" where
  "accepted_row k =
     (case k of
        PqFlush _ \<Rightarrow> []
      | PqWrite wall now n \<Rightarrow> (case (partition_of wall n, parquet_row n) of (Inr _, Inr row) \<Rightarrow> [row] | _ \<Rightarrow> []))"

definition flush_failed :: "parquet_op \<Rightarrow> exn option \<Rightarrow> bool" where
  "flush_failed k r \<longleftrightarrow> r \<noteq> None \<and> (case k of PqFlush _ \<Rightarrow> True | PqWrite _ _ _ \<Rightarrow> accepted_row k \<noteq> [])"

definition parquet_step ::
  "(pydict list \<Rightarrow> exn option) \<Rightarrow> (nat \<Rightarrow> string) \<Rightarrow> parquet_op \<Rightarrow> parquet_sink \<times> bool \<Rightarrow> parquet_sink \<times> bool" where
  "parquet_step encode names k sb =
     (case (case k of PqWrite wall now n \<Rightarrow> pq_write encode names wall now n (fst sb) | PqFlush now \<Rightarrow> pq_flush encode names now (fst sb)) of
        (r, s') \<Rightarrow> (s', snd sb \<or> flush_failed k r))"

definition rows_kept :: "pydict list \<Rightarrow> parquet_sink \<times> bool \<Rightarrow> bool" where
  "rows_kept acc sb \<longleftrightarrow>
     (let s = fst sb
      in set (stored_rows s) \<subseteq> set acc \<and> mset acc \<subseteq># mset (stored_rows s) + mset (waiting_rows s)
         \<and> set (waiting_rows s) \<subseteq> set acc
         \<and> (snd sb \<or> mset acc = mset (stored_rows s) + mset (waiting_rows s)))"

lemma rows_kept_flush:
  assumes kept: "rows_kept acc (s, b)" and f: "pq_flush encode names now s = (r, s')"
  shows "rows_kept acc (s', b \<or> r \<noteq> None)"
proof (cases r)
  case None
  then have "stored_rows s' = stored_rows s @ waiting_rows s" "waiting_rows s' = []"
    using pq_flush_rows [OF f] before_refusal_all [of encode "pq_buffer s"] by (simp_all add: waiting_rows_def)
  then show ?thesis using kept None by (simp add: rows_kept_def Let_def)
next
  case (Some x)
  have sub: "set (before_refusal encode (pq_buffer s)) \<subseteq> set (waiting_rows s)"
    using before_refusal_sub by (simp add: waiting_rows_def)
  have rows: "stored_rows s' = stored_rows s @ before_refusal encode (pq_buffer s)" "waiting_rows s' = waiting_rows s"
    using pq_flush_rows(2,3) [OF f] Some by (simp_all add: waiting_rows_def)
  have "mset acc \<subseteq># mset (stored_rows s) + mset (waiting_rows s)" using kept by (simp add: rows_kept_def Let_def)
  then have "mset acc \<subseteq># mset (stored_rows s') + mset (waiting_rows s')"
    by (rule subset_mset.order_trans) (simp add: rows)
  then show ?thesis using kept Some rows sub by (auto simp: rows_kept_def Let_def)
qed

lemma rows_kept_add:
  assumes "rows_kept acc (s, b)"
  shows "rows_kept (acc @ [row]) (buffer_row key row s, b)"
proof -
  have "stored_rows (buffer_row key row s) = stored_rows s" by (simp add: buffer_row_def stored_rows_def)
  moreover have "set (waiting_rows (buffer_row key row s)) = insert row (set (waiting_rows s))"
    using waiting_buffer_row [of key row s] by (metis set_mset_add_mset_insert set_mset_mset)
  ultimately show ?thesis
    using assms waiting_buffer_row [of key row s] by (auto simp: rows_kept_def Let_def)
qed

lemma rows_kept_step:
  assumes "rows_kept acc (s, b)"
  shows "rows_kept (acc @ accepted_row k) (parquet_step encode names k (s, b))"
proof (cases k)
  case (PqFlush now)
  obtain r s' where f: "pq_flush encode names now s = (r, s')" by (cases "pq_flush encode names now s")
  show ?thesis
    using rows_kept_flush [OF assms f] by (simp add: PqFlush parquet_step_def f accepted_row_def flush_failed_def)
next
  case (PqWrite wall now n)
  show ?thesis
  proof (cases "partition_of wall n")
    case (Inl x)
    then show ?thesis using assms by (simp add: PqWrite parquet_step_def pq_write_def accepted_row_def flush_failed_def)
  next
    case (Inr key)
    show ?thesis
    proof (cases "parquet_row n")
      case (Inl x)
      then show ?thesis
        using assms \<open>partition_of wall n = Inr key\<close> waiting_touch [of key "pq_buffer s"]
        by (simp add: PqWrite parquet_step_def pq_write_def accepted_row_def flush_failed_def rows_kept_def Let_def
            stored_rows_def waiting_rows_def flip: set_mset_mset)
    next
      case (Inr row)
      let ?s1 = "buffer_row key row s"
      have acc: "accepted_row k = [row]"
        using Inr \<open>partition_of wall n = Inr key\<close> by (simp add: PqWrite accepted_row_def)
      note kept = rows_kept_add [OF assms, of row key]
      show ?thesis
      proof (cases "pq_max_rows ?s1 \<le> pq_buffered ?s1 \<or> time_due now ?s1")
        case False
        then show ?thesis
          using kept Inr \<open>partition_of wall n = Inr key\<close> acc
          by (simp add: PqWrite parquet_step_def pq_write_def flush_failed_def Let_def)
      next
        case True
        obtain r s' where f: "pq_flush encode names now ?s1 = (r, s')" by (cases "pq_flush encode names now ?s1")
        have "parquet_step encode names k (s, b) = (s', b \<or> r \<noteq> None)"
          using True Inr \<open>partition_of wall n = Inr key\<close> acc f
          by (auto simp: PqWrite parquet_step_def pq_write_def flush_failed_def Let_def)
        then show ?thesis using rows_kept_flush [OF kept f] acc by simp
      qed
    qed
  qed
qed


text \<open>An event that pyarrow cannot store: a count above the 64-bit range, which the core columns are given.\<close>

definition int64_encode :: "pydict list \<Rightarrow> exn option" where
  "int64_encode rows =
     (if list_all (\<lambda>r. case py_get r ''bytes_in'' of PInt i \<Rightarrow> - (2 ^ 63) \<le> i \<and> i < 2 ^ 63 | _ \<Rightarrow> True) rows then None
      else Some (OverflowError ''Python int too large to convert to C long''))"

definition big_event :: normalized_event where
  "big_event = \<lparr>n_event_uid = ''u'', n_raw_hash = ''h'', n_ingest_time_ns = 0,
     ocsf = [(''time'', PInt 0), (''traffic'', PDict [(''bytes_in'', PInt 9223372036854775808)])],
     n_source_type = ''fw'', mapping_version = ''1'', enrichment = []\<rparr>"

lemma big_event_key: "partition_of 0 big_event = Inr (''1970-01-01'', ''fw'')"
  by (simp add: partition_of_def big_event_def py_or_def py_get_Cons epoch_ns_to_date_def py_int_def demo_dates)

lemma as_int_simps [simp]: "as_int PNone = Inr PNone" "as_int (PInt i) = Inr (PInt i)"
  by (simp_all add: as_int_def cw_to_int_def opt_int_def)

lemma big_event_row: "\<exists>row. parquet_row big_event = Inr row \<and> py_get row ''bytes_in'' = PInt 9223372036854775808"
  by (simp add: parquet_row_def core_row_def dict_field_def big_event_def py_get_Cons Let_def)

lemma big_event_refused:
  "(case pq_write int64_encode (\<lambda>i. ''f'') 0 0 big_event (new_parquet_sink 1 60 0) of
      (r, s) \<Rightarrow> r \<noteq> None \<and> length (waiting_rows s) = 1 \<and> fst (pq_flush int64_encode (\<lambda>i. ''g'') 5 s) \<noteq> None)"
proof -
  obtain row where row: "parquet_row big_event = Inr row" "py_get row ''bytes_in'' = PInt 9223372036854775808"
    using big_event_row by blast
  show ?thesis
    by (simp add: pq_write_def big_event_key row buffer_row_def new_parquet_sink_def Let_def pq_flush_def int64_encode_def waiting_rows_def)
qed

end
