(* ===== verification/Verify_Command.thy ===== *)
theory Verify_Command
  imports Complex_Main Integrity_Stage Normalize_Stage Parquet_Sink
begin

text \<open>
  The command \<^verbatim>\<open>ulpf verify\<close> (\<^verbatim>\<open>ulpf/cli/verify.py\<close>): what each of its four forms computes and with which exit code it
  ends. The artefacts are arguments as \<^verbatim>\<open>_load_ledger\<close> and \<^verbatim>\<open>_load_index\<close> find them on disk (no file is \<open>None\<close>); the tables it prints are
  left out.
\<close>

section \<open>verify chain\<close>

definition load_ledger :: "string option \<Rightarrow> verifier option \<Rightarrow> ledger option res" where
  "load_ledger file ver = (case file of None \<Rightarrow> Inr None | Some t \<Rightarrow> bind_res (open_ledger (Some t) None ver) (\<lambda>lg. Inr (Some lg)))"

record chain_report =
  cr_ledger_present :: bool
  cr_entries_total :: int
  cr_checked :: nat
  cr_ok :: bool
  cr_broken_at :: "int option"
  cr_broken_reason :: "string option"
  cr_head_hex :: string

text \<open>The loop over the checked entries, up to the first with a reason.\<close>

fun walk_checked :: "(int \<times> ledger_entry option \<times> string option) list \<Rightarrow> nat \<Rightarrow> nat \<times> (int \<times> string) option" where
  "walk_checked [] n = (n, None)"
| "walk_checked ((index, _, reason) # rs) n =
     (case reason of Some r \<Rightarrow> (n + 1, Some (index, r)) | None \<Rightarrow> walk_checked rs (n + 1))"

definition run_verify_chain :: "digest_fn \<Rightarrow> ledger option \<Rightarrow> chain_report res" where
  "run_verify_chain H lg =
     (case lg of
        None \<Rightarrow> Inr \<lparr>cr_ledger_present = False, cr_entries_total = 0, cr_checked = 0, cr_ok = True, cr_broken_at = None,
                     cr_broken_reason = Some ''no ledger file found'', cr_head_hex = []\<rparr>
      | Some l \<Rightarrow>
          bind_res (iter_checked H (lg_verifier l) 0 genesis_root (file_lines (lg_file l))) (\<lambda>rs.
            let (n, bad) = walk_checked rs 0
            in Inr \<lparr>cr_ledger_present = True, cr_entries_total = entry_count_on_disk l, cr_checked = n, cr_ok = (bad = None),
                    cr_broken_at = map_option fst bad, cr_broken_reason = map_option snd bad, cr_head_hex = bytes_hex (ledger_head l)\<rparr>))"

definition chain_exit_code :: "chain_report \<Rightarrow> int" where
  "chain_exit_code r = (if cr_ok r then 0 else 1)"

section \<open>verify events\<close>

record event_failure =
  ef_event_uid :: string
  ef_locator :: string
  ef_hash_ok :: bool
  ef_proof_ok :: bool
  ef_signature_ok :: bool
  ef_reason :: string

record events_report =
  er_checked :: nat
  er_passed :: nat
  er_ledger_present :: bool
  er_failures :: "event_failure list"

definition er_failed :: "events_report \<Rightarrow> nat" where
  "er_failed r = length (er_failures r)"

definition event_passed :: "event_proof \<Rightarrow> bool \<Rightarrow> bool" where
  "event_passed p ledger_present \<longleftrightarrow>
     ep_hash_ok p \<and> (\<not> ledger_present \<or> ep_found p \<and> ep_proof_ok p \<and> ep_signature_ok p)"

definition reason_or :: "event_proof \<Rightarrow> string \<Rightarrow> string" where
  "reason_or p s = (case ep_reason p of None \<Rightarrow> s | Some r \<Rightarrow> if r = [] then s else r)"

definition failure_of :: "event_proof \<Rightarrow> string \<Rightarrow> event_failure" where
  "failure_of p loc =
     \<lparr>ef_event_uid = ep_event_uid p, ef_locator = loc, ef_hash_ok = ep_hash_ok p, ef_proof_ok = ep_proof_ok p,
      ef_signature_ok = ep_signature_ok p,
      ef_reason = (if \<not> ep_hash_ok p then ''raw bytes do not match the recorded raw_hash (tampered)''
        else if \<not> ep_found p then reason_or p ''not indexed by any sealed batch''
        else if \<not> ep_proof_ok p then ''Merkle inclusion proof does not verify against the batch root''
        else if \<not> ep_signature_ok p then ''the batch's ledger entry signature is invalid''
        else reason_or p ''unknown'')\<rparr>"

text \<open>The proofs of the located events, one after another with one builder.\<close>

fun prove_located :: "digest_fn \<Rightarrow> instant \<Rightarrow> (raw_event \<times> string) list \<Rightarrow> proof_builder \<Rightarrow> (event_proof \<times> string) list res \<times> proof_builder" where
  "prove_located H now [] pb = (Inr [], pb)"
| "prove_located H now ((e, loc) # es) pb =
     (case for_event H now (event_uid e) pb of
        (Inl x, pb1) \<Rightarrow> (Inl x, pb1)
      | (Inr p, pb1) \<Rightarrow> (case prove_located H now es pb1 of
            (Inl x, pb2) \<Rightarrow> (Inl x, pb2)
          | (Inr ps, pb2) \<Rightarrow> (Inr ((p, loc) # ps), pb2)))"

definition report_of :: "bool \<Rightarrow> (event_proof \<times> string) list \<Rightarrow> events_report" where
  "report_of ledger_present ps =
     \<lparr>er_checked = length ps, er_passed = length (filter (\<lambda>(p, _). event_passed p ledger_present) ps),
      er_ledger_present = ledger_present,
      er_failures = map (\<lambda>(p, loc). failure_of p loc) (filter (\<lambda>(p, _). \<not> event_passed p ledger_present) ps)\<rparr>"

definition run_verify_events ::
  "digest_fn \<Rightarrow> instant \<Rightarrow> raw_store \<Rightarrow> event_index option \<Rightarrow> ledger option \<Rightarrow> string option \<Rightarrow> events_report res" where
  "run_verify_events H now store ix lg date =
     (case rs_iter_located now date store of
        (Inl x, _) \<Rightarrow> Inl x
      | (Inr located, store1) \<Rightarrow>
          bind_res (new_proof_builder store1 ix lg (Some (dict_update [] (map (\<lambda>(e, _). (event_uid e, e)) located)))) (\<lambda>pb.
          bind_res (fst (prove_located H now located pb)) (\<lambda>ps. Inr (report_of (lg \<noteq> None) ps))))"

definition events_exit_code :: "events_report \<Rightarrow> int" where
  "events_exit_code r = (if er_failed r = 0 then 0 else 1)"

section \<open>verify event\<close>

definition verify_event :: "digest_fn \<Rightarrow> instant \<Rightarrow> raw_store \<Rightarrow> event_index option \<Rightarrow> ledger option \<Rightarrow> string \<Rightarrow> (event_proof \<times> int) res" where
  "verify_event H now store ix lg uid =
     bind_res (new_proof_builder store ix lg None) (\<lambda>pb.
     bind_res (fst (for_event H now uid pb)) (\<lambda>p. Inr (p, if event_proof_ok p then 0 else 1)))"

section \<open>verify roundtrip\<close>

record roundtrip_failure =
  rf_event_uid :: string
  rf_locator :: string
  rf_category :: string
  rf_reason :: string

record outcome =
  oc_byte_lossless :: bool
  oc_reparse_stable :: bool
  oc_normalized :: bool
  oc_renormalize_stable :: bool
  oc_dead_lettered :: bool
  oc_no_source_match :: bool
  oc_note :: string

record roundtrip_report =
  rr_total :: nat
  rr_byte_lossless :: nat
  rr_reparse_stable :: nat
  rr_normalized :: nat
  rr_renormalize_stable :: nat
  rr_dead_letters :: nat
  rr_no_source_match :: nat
  rr_failures :: "roundtrip_failure list"

definition rate :: "nat \<Rightarrow> nat \<Rightarrow> rat" where
  "rate n d = (if d = 0 then 100 else of_nat n / of_nat d * 100)"

definition requirement_a_satisfied :: "roundtrip_report \<Rightarrow> bool" where
  "requirement_a_satisfied r \<longleftrightarrow> rr_byte_lossless r = rr_total r"

definition all_green :: "roundtrip_report \<Rightarrow> bool" where
  "all_green r \<longleftrightarrow> requirement_a_satisfied r \<and> rr_reparse_stable r = rr_total r
     \<and> rr_renormalize_stable r = rr_normalized r \<and> rr_dead_letters r = 0"

definition parse_signature :: "parsed_event \<Rightarrow> string" where
  "parse_signature p = json_spaced (sort_json (PDict
     [(''format'', PStr (format_name (format p))), (''fields'', PDict (p_fields p)), (''envelope'', PDict (envelope p))]))"

definition fields_signature :: "pydict \<Rightarrow> string" where
  "fields_signature d = json_spaced (sort_json (PDict d))"

definition normalize_signature :: "coerce_env \<Rightarrow> source_definition \<Rightarrow> pydict \<Rightarrow> raw_event \<Rightarrow> string res" where
  "normalize_signature env df d e =
     bind_res (bind_res (to_ocsf env df d (event_uid e) (raw_hash e)) finalize_record) (\<lambda>rec. Inr (json_spaced (sort_json (PDict rec))))"

text \<open>\<^verbatim>\<open>ParseCoordinator()\<close> has no sniffer and no engine options.\<close>

definition parse_plain :: "registry \<Rightarrow> raw_event \<Rightarrow> parsed_event res" where
  "parse_plain engines e = fst (coordinator_parse engines [] e None)"

definition catch_parse_error :: "'a res \<Rightarrow> (exn \<Rightarrow> 'b) \<Rightarrow> ('a \<Rightarrow> 'b res) \<Rightarrow> 'b res" where
  "catch_parse_error r handler f = (case r of Inr v \<Rightarrow> f v | Inl x \<Rightarrow> if is_parse_error x then Inr (handler x) else Inl x)"

definition sniff_for_match :: "registry \<Rightarrow> raw_event \<Rightarrow> parsed_event option res" where
  "sniff_for_match engines e = catch_parse_error (parse_plain engines e) (\<lambda>_. None) (\<lambda>p. Inr (Some p))"

definition check_reparse :: "registry \<Rightarrow> raw_event \<Rightarrow> source_definition option \<Rightarrow> (pydict option \<times> bool \<times> string) res" where
  "check_reparse engines e df =
     (case df of
        Some d \<Rightarrow>
          catch_parse_error
            (bind_res (parse_for_definition engines (raw e) (sd_parse d)) (\<lambda>a. bind_res (parse_for_definition engines (raw e) (sd_parse d)) (\<lambda>b. Inr (a, b))))
            (\<lambda>x. (None, False, ''parse failed: '' @ exn_text x))
            (\<lambda>(a, b). Inr (if fields_signature a \<noteq> fields_signature b then (Some a, False, ''parse is not deterministic'') else (Some a, True, [])))
      | None \<Rightarrow>
          catch_parse_error
            (bind_res (parse_plain engines e) (\<lambda>a. bind_res (parse_plain engines e) (\<lambda>b. Inr (a, b))))
            (\<lambda>x. (None, False, ''parse failed: '' @ exn_text x))
            (\<lambda>(a, b). Inr (if raw a \<noteq> raw e then (None, False, ''raw bytes changed while parsing'')
                           else if parse_signature a \<noteq> parse_signature b then (Some (p_fields a), False, ''parse is not deterministic'')
                           else (Some (p_fields a), True, []))))"

definition check_renormalize :: "coerce_env \<Rightarrow> source_definition \<Rightarrow> pydict \<Rightarrow> raw_event \<Rightarrow> (bool \<times> bool \<times> string) res" where
  "check_renormalize env df d e =
     (case normalize_signature env df d e of
        Inl x \<Rightarrow> if is_mapping_error x then Inr (False, False, ''normalization failed (dead-lettered): '' @ exn_text x) else Inl x
      | Inr a \<Rightarrow>
          (case normalize_signature env df d e of
             Inl x \<Rightarrow> if is_mapping_error x then Inr (True, False, ''normalization is not deterministic (2nd pass raised)'') else Inl x
           | Inr b \<Rightarrow> if a \<noteq> b then Inr (True, False, ''normalization is not deterministic'') else Inr (True, True, [])))"

definition or_note :: "string \<Rightarrow> string \<Rightarrow> string" where
  "or_note s t = (if s = [] then t else s)"

definition roundtrip_one ::
  "digest_fn \<Rightarrow> coerce_env \<Rightarrow> (string \<Rightarrow> string \<Rightarrow> bool) \<Rightarrow> source_registry \<Rightarrow> registry \<Rightarrow> raw_event \<Rightarrow> outcome res" where
  "roundtrip_one H env search sources engines e =
     (let byte_lossless = (sha256_hex H (raw e) = raw_hash e);
          note = (if byte_lossless then [] else ''raw bytes were altered in storage'') in
      bind_res (sniff_for_match engines e) (\<lambda>sniffed.
      let df = (case sniffed of None \<Rightarrow> None | Some p \<Rightarrow> match_event search sources p) in
      bind_res (check_reparse engines e df) (\<lambda>(d, stable, parse_note).
      let note1 = or_note note parse_note in
      bind_res (case (d, df) of
                  (Some fs, Some def) \<Rightarrow>
                    bind_res (check_renormalize env def fs e) (\<lambda>(normalized, again, n). Inr (normalized, again, \<not> normalized, or_note note1 n))
                | _ \<Rightarrow> Inr (False, False, False, note1))
        (\<lambda>(normalized, again, dead, note2).
          Inr \<lparr>oc_byte_lossless = byte_lossless, oc_reparse_stable = stable, oc_normalized = normalized, oc_renormalize_stable = again,
               oc_dead_lettered = dead, oc_no_source_match = (df = None), oc_note = note2\<rparr>))))"

definition failure_category :: "outcome \<Rightarrow> string option" where
  "failure_category oc =
     (if \<not> oc_byte_lossless oc then Some ''byte'' else if \<not> oc_reparse_stable oc then Some ''reparse''
      else if oc_normalized oc \<and> \<not> oc_renormalize_stable oc then Some ''renormalize'' else None)"

definition record_failure :: "string \<Rightarrow> string \<Rightarrow> outcome \<Rightarrow> roundtrip_report \<Rightarrow> roundtrip_report" where
  "record_failure uid loc oc r =
     (case failure_category oc of None \<Rightarrow> r
      | Some cat \<Rightarrow> r\<lparr>rr_failures := rr_failures r @ [\<lparr>rf_event_uid = uid, rf_locator = loc, rf_category = cat, rf_reason = oc_note oc\<rparr>]\<rparr>)"

definition add_outcome :: "string \<Rightarrow> string \<Rightarrow> outcome \<Rightarrow> roundtrip_report \<Rightarrow> roundtrip_report" where
  "add_outcome uid loc oc r = record_failure uid loc oc
     (r\<lparr>rr_total := rr_total r + 1, rr_byte_lossless := rr_byte_lossless r + of_bool (oc_byte_lossless oc),
        rr_reparse_stable := rr_reparse_stable r + of_bool (oc_reparse_stable oc),
        rr_normalized := rr_normalized r + of_bool (oc_normalized oc),
        rr_renormalize_stable := rr_renormalize_stable r + of_bool (oc_renormalize_stable oc \<and> oc_normalized oc),
        rr_dead_letters := rr_dead_letters r + of_bool (oc_dead_lettered oc),
        rr_no_source_match := rr_no_source_match r + of_bool (oc_no_source_match oc)\<rparr>)"

fun roundtrip_all ::
  "(raw_event \<Rightarrow> outcome res) \<Rightarrow> (raw_event \<times> string) list \<Rightarrow> roundtrip_report \<Rightarrow> roundtrip_report res" where
  "roundtrip_all one [] r = Inr r"
| "roundtrip_all one ((e, loc) # es) r = bind_res (one e) (\<lambda>oc. roundtrip_all one es (add_outcome (event_uid e) loc oc r))"

definition empty_report :: roundtrip_report where
  "empty_report = \<lparr>rr_total = 0, rr_byte_lossless = 0, rr_reparse_stable = 0, rr_normalized = 0, rr_renormalize_stable = 0,
     rr_dead_letters = 0, rr_no_source_match = 0, rr_failures = []\<rparr>"

definition run_verify_roundtrip ::
  "digest_fn \<Rightarrow> coerce_env \<Rightarrow> (string \<Rightarrow> string \<Rightarrow> bool) \<Rightarrow> source_registry \<Rightarrow> registry \<Rightarrow> instant \<Rightarrow> string option \<Rightarrow> raw_store
     \<Rightarrow> roundtrip_report res" where
  "run_verify_roundtrip H env search sources engines now date store =
     bind_res (fst (rs_iter_located now date store)) (\<lambda>located.
       roundtrip_all (roundtrip_one H env search sources engines) located empty_report)"

section \<open>The chain report\<close>

lemma walk_checked_faulty:
  "map_option fst (snd (walk_checked rs n)) = map_option fst (case filter faulty rs of [] \<Rightarrow> None | r # _ \<Rightarrow> Some r)
   \<and> (snd (walk_checked rs n) = None \<longleftrightarrow> filter faulty rs = [])"
proof (induction rs arbitrary: n)
  case (Cons r rs)
  obtain i d o' where r: "r = (i, d, o')" by (cases r)
  show ?case by (cases o') (simp_all add: r Cons.IH faulty_def)
qed simp

section \<open>What the scan of the store gives\<close>

lemma map_res_mapped: "map_res f (map g xs) = map_res (\<lambda>x. f (g x)) xs"
  by (induction xs) simp_all

lemma map_res_fst:
  "bind_res (map_res (\<lambda>(d, n, l). bind_res (f l) (\<lambda>e. Inr (e, h d n))) xs) (\<lambda>l. Inr (map fst l)) = map_res (\<lambda>(d, n, l). f l) xs"
proof (induction xs)
  case (Cons x xs)
  obtain d n l where x: "x = (d, n, l)" by (cases x)
  show ?case using Cons.IH by (cases "f l") (auto simp: x bind_res_def split: sum.splits)
qed simp

lemma located_lines: "map (\<lambda>(d, n, l). l) (concat (map (\<lambda>d. map (\<lambda>(n, l). (d, n, l)) (enumerate 0 (g d))) ds)) = concat (map g ds)"
proof (induction ds)
  case (Cons d ds)
  have "map ((\<lambda>(d, n, l). l) \<circ> (\<lambda>(n, l). (d, n, l))) (enumerate 0 (g d)) = g d"
    by (simp add: o_def case_prod_unfold)
  then show ?case using Cons.IH by simp
qed simp

text \<open>The located scan reads the events of the plain scan.\<close>

lemma iter_located_all:
  "bind_res (fst (rs_iter_located now date s)) (\<lambda>l. Inr (map fst l)) = fst (rs_iter_all now date s)"
proof -
  let ?s = "rs_flush now s"
  let ?rows = "concat (map (\<lambda>d. map (\<lambda>(n, l). (d, n, l)) (enumerate 0 (rs_file_lines (rs_text ?s d)))) (rs_partitions date ?s))"
  have "bind_res (fst (rs_iter_located now date s)) (\<lambda>l. Inr (map fst l))
      = map_res (\<lambda>(d, n, l). bind_res (load_record l) record_to_event) ?rows"
    by (simp add: rs_iter_located_def Let_def map_res_fst del: map_concat)
  also have "\<dots> = map_res (\<lambda>l. bind_res (load_record l) record_to_event) (map (\<lambda>(d, n, l). l) ?rows)"
    unfolding map_res_mapped by (simp add: case_prod_unfold)
  also have "\<dots> = fst (rs_iter_all now date s)"
    unfolding located_lines by (simp add: rs_iter_all_def scan_records_def Let_def)
  finally show ?thesis .
qed

section \<open>Every event of a sealed run passes\<close>

lemma map_of_cache:
  assumes "e \<in> set es" and "\<forall>x \<in> set es. event_uid x = event_uid e \<longrightarrow> x = e"
  shows "map_of (dict_update [] (map (\<lambda>e. (event_uid e, e)) es)) (event_uid e) = Some e"
proof -
  have "(event_uid e, e) \<in> set (rev (map (\<lambda>e. (event_uid e, e)) es))" using assms(1) by simp
  then obtain x where x: "map_of (rev (map (\<lambda>e. (event_uid e, e)) es)) (event_uid e) = Some x" by (metis map_of_eq_None_iff not_None_eq image_eqI fst_conv)
  then have "(event_uid e, x) \<in> set (rev (map (\<lambda>e. (event_uid e, e)) es))" by (rule map_of_SomeD)
  then have "x = e" using assms(2) by auto
  then show ?thesis using x by (simp add: map_of_dict_update)
qed

lemma prove_located_sealed:
  assumes "builder_ok H evs ix lg entries pb" and "lg_verifier lg = Some v"
    and "\<And>e. e \<in> set evs \<Longrightarrow> \<exists>k i en bevs. sealed_at H v evs ix entries e k i en bevs" and "set (map fst located) \<subseteq> set evs"
  shows "\<exists>ps pb'. prove_located H now located pb = (Inr ps, pb') \<and> length ps = length located \<and> list_all (\<lambda>(p, _). event_proof_ok p) ps"
  using assms(1,4)
proof (induction located arbitrary: pb)
  case (Cons el located)
  obtain e loc where el: "el = (e, loc)" by (cases el)
  have e: "e \<in> set evs" using Cons.prems(2) by (simp add: el)
  obtain k i en bevs where at: "sealed_at H v evs ix entries e k i en bevs" using assms(3) [OF e] by blast
  obtain p pb1 where p: "for_event H now (event_uid e) pb = (Inr p, pb1)" "event_proof_ok p" "builder_ok H evs ix lg entries pb1"
    using for_event_sealed [OF Cons.prems(1) assms(2) e at] by blast
  obtain ps pb' where "prove_located H now located pb1 = (Inr ps, pb')" "length ps = length located" "list_all (\<lambda>(p, _). event_proof_ok p) ps"
    using Cons.IH [OF p(3)] Cons.prems(2) by auto
  then show ?case using p by (simp add: el)
qed simp

lemma report_all_passed:
  assumes "list_all (\<lambda>(p, _). event_proof_ok p) ps"
  shows "er_failed (report_of present ps) = 0 \<and> er_passed (report_of present ps) = length ps \<and> er_checked (report_of present ps) = length ps"
proof -
  have "filter (\<lambda>(p, _). event_passed p present) ps = ps" "filter (\<lambda>(p, _). \<not> event_passed p present) ps = []"
    using assms by (auto simp: list_all_iff filter_id_conv filter_empty_conv event_passed_def event_proof_ok_def)
  then show ?thesis by (simp add: report_of_def er_failed_def)
qed

lemma read_in_store:
  assumes "store_has evs s" and "e \<in> set evs" and "rs_iter_all now None s = (Inr stored, s')"
  shows "e \<in> set stored"
proof -
  obtain V where v: "rs_view s V" using assms(1) by (auto simp: store_has_def rs_sound_def)
  have "stored = concat (map V (rs_partitions None (rs_flush now s)))" using rs_iter_all_view [OF v, of now None] assms(3) by simp
  moreover have "find (\<lambda>x. event_uid x = event_uid e) (concat (map V (rs_partitions None (rs_flush now s)))) = Some e"
    using assms(1,2) rs_read_view [OF v, of now "event_uid e"] unfolding store_has_def by (metis sum.inject(2))
  ultimately show ?thesis by (metis find_Some_iff nth_mem)
qed

section \<open>Altered bytes never pass\<close>

lemma for_event_keeps:
  assumes "for_event H now uid pb = (r, pb')" and "pb_event_cache pb = Some c"
  shows "pb_store pb' = rs_flush now (pb_store pb) \<and> pb_event_cache pb' = Some c"
proof -
  have cached: "snd (read_leaves now (Some c) uids s) = s" for uids s
  proof (induction uids arbitrary: s)
    case (Cons u us)
    then show ?case by (simp add: bind_res_def Let_def case_prod_unfold split: sum.splits)
  qed simp
  have leaves: "pb_store pb2 = pb_store q \<and> pb_event_cache pb2 = Some c"
    if "batch_leaves now k q = (r, pb2)" "pb_event_cache q = Some c" for k q r pb2
    using that cached [of _ "pb_store q"]
    by (auto simp: batch_leaves_def Let_def split: option.splits prod.splits sum.splits) (metis snd_conv)+
  have store: "snd (rs_read_by_uid now uid (pb_store pb)) = rs_flush now (pb_store pb)" by (simp add: rs_read_by_uid_def Let_def)
  obtain b where b: "rs_read_by_uid now uid (pb_store pb) = (b, rs_flush now (pb_store pb))"
    using store by (metis prod.collapse)
  let ?pb1 = "pb\<lparr>pb_store := rs_flush now (pb_store pb)\<rparr>"
  have l1: "pb_store pb2 = rs_flush now (pb_store pb) \<and> pb_event_cache pb2 = Some c" if "batch_leaves now k ?pb1 = (q, pb2)" for k q pb2
    using leaves [OF that] assms(2) by simp
  show ?thesis
    using assms(1) unfolding for_event_def b Let_def
    by (auto simp: assms(2) split: sum.splits option.splits prod.splits dest: l1)
qed

lemma for_event_first:
  assumes "for_event H now uid pb = (Inr p, pb')" and "fst (rs_read_by_uid now uid (pb_store pb)) = Inr (Some e)"
  shows "ep_event_uid p = uid \<and> ep_hash_ok p = (bytes_fromhex (raw_hash e) = Some (H (raw e)))"
proof -
  have hex: "hex_bytes (sha256_hex H b) = Inr (H b)" for b by (simp add: hex_bytes_def sha256_hex_def)
  have r: "rs_read_by_uid now uid (pb_store pb) = (Inr (Some e), rs_flush now (pb_store pb))"
    using assms(2) by (simp add: rs_read_by_uid_def Let_def)
  obtain recorded where h: "bytes_fromhex (raw_hash e) = Some recorded"
    using assms(1) by (auto simp: for_event_def r hex_bytes_def split: option.splits)
  then have rec: "hex_bytes (raw_hash e) = Inr recorded" by (simp add: hex_bytes_def)
  show ?thesis
    using assms(1) h by (auto simp: for_event_def r rec hex missing_proof_def Let_def bind_res_def split: option.splits prod.splits sum.splits)
qed

lemma read_after_flush:
  assumes "rs_sound s"
  shows "fst (rs_read_by_uid now uid (rs_flush now' s)) = fst (rs_read_by_uid now uid s)" and "rs_sound (rs_flush now' s)"
proof -
  obtain V where v: "rs_view s V" using assms by (auto simp: rs_sound_def)
  note v' = rs_view_flush [OF v, of now']
  show "fst (rs_read_by_uid now uid (rs_flush now' s)) = fst (rs_read_by_uid now uid s)"
    unfolding rs_read_view [OF v] rs_read_view [OF v'] rs_flush_idem ..
  show "rs_sound (rs_flush now' s)" using v' by (auto simp: rs_sound_def)
qed

text \<open>The row of a located event is about the first stored event with its id.\<close>

lemma prove_located_row:
  assumes "prove_located H now located pb = (Inr ps, pb')" and "rs_sound (pb_store pb)" and "pb_event_cache pb = Some c"
    and "(e, loc) \<in> set located" and "fst (rs_read_by_uid now (event_uid e) (pb_store pb)) = Inr (Some d)"
  shows "\<exists>p. (p, loc) \<in> set ps \<and> ep_event_uid p = event_uid e \<and> ep_hash_ok p = (bytes_fromhex (raw_hash d) = Some (H (raw d)))"
  using assms
proof (induction located arbitrary: pb ps pb')
  case (Cons el located)
  obtain e1 loc1 where el: "el = (e1, loc1)" by (cases el)
  obtain p1 pb1 qs pb2 where one: "for_event H now (event_uid e1) pb = (Inr p1, pb1)" and rest: "prove_located H now located pb1 = (Inr qs, pb2)"
    and ps: "ps = (p1, loc1) # qs"
    using Cons.prems(1) by (auto simp: el split: prod.splits sum.splits)
  note keep = for_event_keeps [OF one Cons.prems(3)]
  show ?case
  proof (cases "(e, loc) = (e1, loc1)")
    case True
    then show ?thesis using for_event_first [OF one] Cons.prems(5) ps by auto
  next
    case False
    then have "(e, loc) \<in> set located" using Cons.prems(4) el by auto
    then show ?thesis
      using Cons.IH [OF rest, unfolded conjunct1 [OF keep]] keep read_after_flush [OF Cons.prems(2)] Cons.prems(5) ps by auto
  qed
qed simp

section \<open>Properties\<close>

lemma walk_verdict:
  "bind_res (run_verify_chain H (Some lg)) (\<lambda>r. Inr (cr_ok r, cr_broken_at r)) = verify_chain H lg"
proof -
  have "(let (n, bad) = walk_checked rs 0 in (bad = None, map_option fst bad))
      = (case filter faulty rs of [] \<Rightarrow> (True, None) | (index, _, _) # _ \<Rightarrow> (False, Some index))" for rs
    using walk_checked_faulty [of rs 0] by (auto simp: Let_def case_prod_unfold split: list.splits)
  then show ?thesis
    by (auto simp: run_verify_chain_def verify_chain_def bind_res_def Let_def case_prod_unfold split: sum.split list.split)
qed

text \<open>
  C2. After any run of the integrity stage that has sealed everything it took in, with distinct ids, and a store that holds those
  events and no others, both checks end with exit code 0: the chain is intact, and the proof of every stored event passes.
\<close>

theorem verification_passes:
  assumes "digest32 H" and "signer_ok sg" and "ledger_inv H sg es0 lg0"
    and "\<forall>r \<in> set ix0. fst (snd r) < int (length es0)"
    and "istage_run H (new_istage True True n t lg0 ix0) evs st" and "is_pending st = []"
    and "distinct (map event_uid evs)" and "store_has evs store"
    and "fst (rs_iter_all now None store) = Inr stored" and "set stored \<subseteq> set evs"
  shows "(\<exists>r. run_verify_chain H (is_ledger st) = Inr r \<and> chain_exit_code r = 0)
    \<and> (\<exists>r. run_verify_events H now store (is_index st) (is_ledger st) None = Inr r \<and> events_exit_code r = 0 \<and> er_passed r = length stored)"
proof -
  obtain lg ix es where run: "is_ledger st = Some lg" "is_index st = Some ix" "ledger_inv H sg es lg" "ledger_entries lg = Inr es"
    and at: "\<And>e. e \<in> set evs \<Longrightarrow> \<exists>k i en bevs. sealed_at H (snd sg) evs ix (dict_update [] (map (\<lambda>e. (seq e, e)) es)) e k i en bevs"
    using sealed_run [OF assms(1-7)] by blast
  have ver: "lg_verifier lg = Some (snd sg)" using run(3) by (simp add: ledger_inv_def)
  have "verify_chain H lg = Inr (True, None)"
    using run(3) by (intro verify_chain_ok [OF _ ledger_inv_lines [OF run(3)]]) (auto simp: ledger_inv_def)
  then have "bind_res (run_verify_chain H (Some lg)) (\<lambda>r. Inr (cr_ok r, cr_broken_at r)) = Inr (True, None)"
    by (simp only: walk_verdict)
  then have chain: "\<exists>r. run_verify_chain H (is_ledger st) = Inr r \<and> chain_exit_code r = 0"
    by (auto simp: run(1) chain_exit_code_def bind_res_Inr_iff)
  obtain located where loc: "rs_iter_located now None store = (Inr located, rs_flush now store)" "map fst located = stored"
  proof -
    have "snd (rs_iter_located now None store) = rs_flush now store" by (simp add: rs_iter_located_def Let_def)
    then show thesis
      using iter_located_all [of now None store] assms(9) that by (auto simp: bind_res_Inr_iff prod_eq_iff)
  qed
  let ?cache = "dict_update [] (map (\<lambda>(e, _). (event_uid e, e)) located)"
  have c: "map (\<lambda>(e, _). (event_uid e, e)) located = map (\<lambda>e. (event_uid e, e)) stored"
    unfolding loc(2) [symmetric] by (simp add: case_prod_unfold)
  have "map_of ?cache (event_uid e) = Some e" if e: "e \<in> set evs" for e
  proof -
    have "e \<in> set stored" using read_in_store [OF assms(8) e] assms(9) by (metis prod.collapse)
    moreover have "\<forall>x \<in> set stored. event_uid x = event_uid e \<longrightarrow> x = e"
      using assms(7,10) e by (metis distinct_map inj_onD subsetD)
    ultimately show ?thesis unfolding c by (rule map_of_cache)
  qed
  then have cache: "case Some ?cache of None \<Rightarrow> True | Some c \<Rightarrow> \<forall>e \<in> set evs. map_of c (event_uid e) = Some e" by simp
  obtain pb where pb: "new_proof_builder (rs_flush now store) (Some ix) (Some lg) (Some ?cache) = Inr pb"
    using run(4) by (auto simp: new_proof_builder_def)
  have "builder_ok H evs ix lg (dict_update [] (map (\<lambda>e. (seq e, e)) es)) pb"
    by (rule new_builder_ok [OF refl run(4) store_has_flush [OF assms(8)] cache pb])
  from prove_located_sealed [OF this ver at, of located] obtain ps pb'
    where ps: "prove_located H now located pb = (Inr ps, pb')" "length ps = length located" "list_all (\<lambda>(p, _). event_proof_ok p) ps"
    using assms(10) unfolding loc(2) by blast
  have "run_verify_events H now store (is_index st) (is_ledger st) None = Inr (report_of True ps)"
    by (simp add: run_verify_events_def loc(1) run(1,2) pb ps(1))
  moreover have "length ps = length stored" using ps(2) unfolding loc(2) [symmetric] by simp
  ultimately show ?thesis using chain report_all_passed [OF ps(3), of True] by (simp add: events_exit_code_def)
qed

text \<open>A store with one event.\<close>

definition stored_alone :: "raw_event \<Rightarrow> raw_store" where
  "stored_alone e = projr (rs_write_all [(0, 0, e)] (new_raw_store 2 1000 0 []))"

lemma stored_alone_written:
  assumes "date_of (ingest_time_ns e) = Inr d"
  shows "rs_write_all [(0, 0, e)] (new_raw_store 2 1000 0 []) = Inr (stored_alone e)"
  using assms by (simp add: stored_alone_def rs_write_def Let_def)

lemma stored_alone_reads:
  assumes "date_of (ingest_time_ns e) = Inr d"
  shows "fst (rs_iter_all now None (stored_alone e)) = Inr [e]" and "store_has [e] (stored_alone e)"
proof -
  note w = stored_alone_written [OF assms]
  note v = written_all(1) [OF w]
  have "mset (concat (map (\<lambda>d. on_date d [e]) (rs_partitions None (rs_flush now (stored_alone e))))) = mset [e]"
    using written_scan [OF w, of now] by simp
  then show "fst (rs_iter_all now None (stored_alone e)) = Inr [e]"
    using rs_iter_all_view [OF v, of now None] by (simp del: map_concat)
  show "store_has [e] (stored_alone e)"
    using written_find(1) [OF w] v by (auto simp: store_has_def rs_sound_def rs_read_view [OF v])
qed

lemma sealed_event_date: "date_of (ingest_time_ns sealed_event) = Inr ''2024-02-29''"
  by (simp add: sealed_event_def demo_event_def make_raw_event_def demo_dates)

definition one_store :: raw_store where
  "one_store = stored_alone sealed_event"

theorem verification_passes_witness:
  "(\<exists>r. run_verify_chain sha256 (is_ledger sealed_stage) = Inr r \<and> chain_exit_code r = 0)
   \<and> (\<exists>r. run_verify_events sha256 5 one_store (is_index sealed_stage) (is_ledger sealed_stage) None = Inr r
          \<and> events_exit_code r = 0 \<and> er_passed r = length [sealed_event])"
  unfolding sealed_stage_def seal_demo_stage_def
proof (rule verification_passes [OF sha.digest32_axioms null_signer_ok fresh_ledger_inv _
      seal_demo_run [unfolded seal_demo_stage_def]])
  show "is_pending (snd (istage_process sha256 0 0 sealed_event (new_istage True True 1 0 (fresh_ledger null_signer) []))) = []"
    using sealed_stage_state by (simp only: sealed_stage_def seal_demo_stage_def)
  show "fst (rs_iter_all 5 None one_store) = Inr [sealed_event]"
    using stored_alone_reads [OF sealed_event_date] by (simp add: one_store_def)
qed (simp_all add: stored_alone_reads [OF sealed_event_date] one_store_def)


definition altered_event :: raw_event where
  "altered_event = sealed_event\<lparr>raw_hash := []\<rparr>"


text \<open>A later copy with the same id is not looked at: it passes when the first copy does.\<close>

lemma later_copy_not_checked:
  assumes "prove_located H now located pb = (Inr ps, pb')" and "rs_sound (pb_store pb)" and "pb_event_cache pb = Some c"
    and "(e, loc) \<in> set located" and "fst (rs_read_by_uid now (event_uid e) (pb_store pb)) = Inr (Some d)"
    and "bytes_fromhex (raw_hash d) = Some (H (raw d))"
  shows "\<exists>p. (p, loc) \<in> set ps \<and> ep_event_uid p = event_uid e \<and> ep_hash_ok p"
  using prove_located_row [OF assms(1-5)] assms(6) by auto

text \<open>With a date, a sibling of another date is not in the cache: the proof is rebuilt over a leaf of zeros.\<close>

lemma dated_sibling_is_zero:
  "map_of c uid = None \<Longrightarrow> fst (read_leaves now (Some c) (uid # uids) s) = bind_res (fst (read_leaves now (Some c) uids s)) (\<lambda>ls. Inr (zero_leaf # ls))"
  by (simp add: case_prod_unfold Let_def)

text \<open>Without a ledger file both commands end with exit code 0.\<close>

lemma no_ledger_passes: "bind_res (run_verify_chain H None) (\<lambda>r. Inr (chain_exit_code r)) = Inr 0"
  by (simp add: run_verify_chain_def chain_exit_code_def)

section \<open>The three round-trip properties\<close>

definition hash_matches :: "digest_fn \<Rightarrow> raw_event \<Rightarrow> bool" where
  "hash_matches H e \<longleftrightarrow> sha256_hex H (raw e) = raw_hash e"

lemma roundtrip_one_outcome:
  assumes "roundtrip_one H env search sources engines e = Inr oc"
  shows "oc_byte_lossless oc = hash_matches H e
     \<and> of_bool (oc_normalized oc) + of_bool (oc_dead_lettered oc) + of_bool (oc_no_source_match oc) \<le> (1 :: nat)"
proof -
  obtain sniffed d stable note1 where "sniff_for_match engines e = Inr sniffed"
    and steps: "check_reparse engines e (case sniffed of None \<Rightarrow> None | Some p \<Rightarrow> match_event search sources p) = Inr (d, stable, note1)"
    using assms unfolding roundtrip_one_def Let_def bind_res_Inr_iff by (metis (no_types, lifting) prod_cases3)
  note step = assms [unfolded roundtrip_one_def Let_def this(1) bind_res_simps steps prod.case]
  show ?thesis
  proof (cases "case sniffed of None \<Rightarrow> None | Some p \<Rightarrow> match_event search sources p")
    case None
    then show ?thesis using step by (cases d) (auto simp: hash_matches_def)
  next
    case (Some def)
    then show ?thesis using step by (cases d) (auto simp: hash_matches_def bind_res_Inr_iff)
  qed
qed

definition counts_ok :: "roundtrip_report \<Rightarrow> bool" where
  "counts_ok r \<longleftrightarrow> rr_byte_lossless r \<le> rr_total r \<and> rr_reparse_stable r \<le> rr_total r \<and> rr_renormalize_stable r \<le> rr_normalized r
     \<and> rr_normalized r + rr_dead_letters r + rr_no_source_match r \<le> rr_total r"

lemma add_outcome_counts:
  assumes "counts_ok r" and "of_bool (oc_normalized oc) + of_bool (oc_dead_lettered oc) + of_bool (oc_no_source_match oc) \<le> (1 :: nat)"
  shows "counts_ok (add_outcome uid loc oc r)"
  using assms by (auto simp: counts_ok_def add_outcome_def record_failure_def split: option.split)

lemma add_outcome_totals:
  "rr_total (add_outcome uid loc oc r) = rr_total r + 1"
  "rr_byte_lossless (add_outcome uid loc oc r) = rr_byte_lossless r + of_bool (oc_byte_lossless oc)"
  by (simp_all add: add_outcome_def record_failure_def split: option.split)

lemma roundtrip_all_counts:
  assumes "roundtrip_all (roundtrip_one H env search sources engines) es r = Inr r'" and "counts_ok r"
  shows "counts_ok r' \<and> rr_total r' = rr_total r + length es
    \<and> rr_byte_lossless r' = rr_byte_lossless r + length (filter (hash_matches H) (map fst es))"
  using assms
proof (induction es arbitrary: r)
  case (Cons el es)
  obtain e loc where el: "el = (e, loc)" by (cases el)
  obtain oc where oc: "roundtrip_one H env search sources engines e = Inr oc"
    and rest: "roundtrip_all (roundtrip_one H env search sources engines) es (add_outcome (event_uid e) loc oc r) = Inr r'"
    using Cons.prems(1) by (auto simp: el bind_res_Inr_iff)
  note o1 = roundtrip_one_outcome [OF oc]
  then have "counts_ok (add_outcome (event_uid e) loc oc r)" using add_outcome_counts [OF Cons.prems(2)] by blast
  from Cons.IH [OF rest this] show ?case using o1 by (simp add: el add_outcome_totals)
qed simp

lemma rate_bounds: "n \<le> d \<Longrightarrow> 0 \<le> rate n d \<and> rate n d \<le> 100"
  by (auto simp: rate_def divide_le_eq)

text \<open>
  Requirement (a) is decided by the stored bytes alone: for every set of sources, engines and mappings the report counts every
  stored event, and as byte-lossless exactly those whose bytes re-hash to the recorded hash.
\<close>

theorem requirement_a_is_about_bytes:
  "case (fst (rs_iter_all now date store), run_verify_roundtrip H env search sources engines now date store) of
     (Inr stored, Inr r) \<Rightarrow>
       rr_total r = length stored \<and> rr_byte_lossless r = length (filter (hash_matches H) stored)
       \<and> requirement_a_satisfied r = list_all (hash_matches H) stored
   | (Inl x, r) \<Rightarrow> r = Inl x
   | (Inr _, Inl _) \<Rightarrow> True"
proof -
  have counts: "rr_total r = length l \<and> rr_byte_lossless r = length (filter (hash_matches H) (map fst l))"
    if "roundtrip_all (roundtrip_one H env search sources engines) l empty_report = Inr r" for l r
    using roundtrip_all_counts [OF that] by (simp add: counts_ok_def empty_report_def)
  have all: "length (filter P xs) = length xs \<longleftrightarrow> list_all P xs" for P :: "raw_event \<Rightarrow> bool" and xs
    by (metis filter_id_conv length_filter_less list_all_iff nat_neq_iff filter_True)
  show ?thesis
    unfolding iter_located_all [symmetric] run_verify_roundtrip_def
    by (auto simp: bind_res_def requirement_a_satisfied_def all [symmetric] split: sum.split dest: counts)
qed

text \<open>
  The counters of the report fit one another: no property is counted more often than there are events, the stable normalizations are among
  the normalized events, an event counts once at most as normalized, dead-lettered or unmatched, and the three rates are percentages.
\<close>

theorem roundtrip_rates_bounded:
  "case run_verify_roundtrip H env search sources engines now date store of
     Inl x \<Rightarrow> True
   | Inr r \<Rightarrow> counts_ok r \<and> 0 \<le> rate (rr_byte_lossless r) (rr_total r) \<and> rate (rr_byte_lossless r) (rr_total r) \<le> 100
       \<and> 0 \<le> rate (rr_reparse_stable r) (rr_total r) \<and> rate (rr_reparse_stable r) (rr_total r) \<le> 100
       \<and> 0 \<le> rate (rr_renormalize_stable r) (rr_normalized r) \<and> rate (rr_renormalize_stable r) (rr_normalized r) \<le> 100"
proof -
  have "counts_ok r" if "roundtrip_all (roundtrip_one H env search sources engines) l empty_report = Inr r" for l r
    using roundtrip_all_counts [OF that] by (simp add: counts_ok_def empty_report_def)
  then have "counts_ok r" if "run_verify_roundtrip H env search sources engines now date store = Inr r" for r
    using that by (auto simp: run_verify_roundtrip_def bind_res_Inr_iff)
  then show ?thesis using rate_bounds by (auto simp: counts_ok_def split: sum.split)
qed

end
