(* ===== verification/Cidr.thy ===== *)
theory Cidr
  imports Ip_Address
begin

text \<open>
  The longest-prefix index of \<^verbatim>\<open>ulpf/enrich/_cidr.py\<close>: one binary trie per address family. What its two
  users (the zone map and the indicator set) rely on is the locale \<open>prefix_index\<close>; its interpretation on
  the trie says that a lookup finds the value of the most specific network entered, the last one entered
  where several are the same.
\<close>

section \<open>The trie\<close>

datatype 'v node = Node (zero_child: "'v node option") (one_child: "'v node option") (node_value: "'v option")

definition empty_node :: "'v node" where
  "empty_node = Node None None None"

fun child :: "bool \<Rightarrow> 'v node \<Rightarrow> 'v node option" where
  "child b (Node z d v) = (if b then d else z)"

fun set_child :: "bool \<Rightarrow> 'v node \<Rightarrow> 'v node \<Rightarrow> 'v node" where
  "set_child b c (Node z d v) = (if b then Node z (Some c) v else Node (Some c) d v)"

fun set_value :: "'v \<Rightarrow> 'v node \<Rightarrow> 'v node" where
  "set_value x (Node z d v) = Node z d (Some x)"

definition key_bit :: "nat \<Rightarrow> nat \<Rightarrow> nat \<Rightarrow> bool" where
  "key_bit bits key i = bit key (bits - 1 - i)"

text \<open>\<^verbatim>\<open>_Trie.insert\<close>: from bit \<open>i\<close> on, \<open>n\<close> bits are left.\<close>

fun trie_insert :: "nat \<Rightarrow> nat \<Rightarrow> nat \<Rightarrow> nat \<Rightarrow> 'v \<Rightarrow> 'v node \<Rightarrow> 'v node" where
  "trie_insert bits key i 0 v node = set_value v node"
| "trie_insert bits key i (Suc n) v node =
     (let b = key_bit bits key i; c = (case child b node of None \<Rightarrow> empty_node | Some c \<Rightarrow> c)
      in set_child b (trie_insert bits key (Suc i) n v c) node)"

definition or_best :: "'v option \<Rightarrow> 'v option \<Rightarrow> 'v option" where
  "or_best v best = (case v of None \<Rightarrow> best | Some x \<Rightarrow> Some x)"

fun trie_walk :: "nat \<Rightarrow> nat \<Rightarrow> nat \<Rightarrow> nat \<Rightarrow> 'v node \<Rightarrow> 'v option \<Rightarrow> 'v option" where
  "trie_walk bits key i 0 node best = best"
| "trie_walk bits key i (Suc n) node best =
     (case child (key_bit bits key i) node of
        None \<Rightarrow> best
      | Some c \<Rightarrow> trie_walk bits key (Suc i) n c (or_best (node_value c) best))"

definition trie_search :: "nat \<Rightarrow> nat \<Rightarrow> 'v node \<Rightarrow> 'v option" where
  "trie_search bits key root = trie_walk bits key 0 bits root (node_value root)"

section \<open>One trie per family\<close>

record 'v cidr_trie =
  ct_v4 :: "'v node"
  ct_v6 :: "'v node"
  ct_count :: nat

definition empty_cidr :: "'v cidr_trie" where
  "empty_cidr = \<lparr>ct_v4 = empty_node, ct_v6 = empty_node, ct_count = 0\<rparr>"

definition cidr_insert :: "network \<Rightarrow> 'v \<Rightarrow> 'v cidr_trie \<Rightarrow> 'v cidr_trie" where
  "cidr_insert nw v t =
     (if nw_version nw = 4
      then t\<lparr>ct_v4 := trie_insert 32 (nw_address nw) 0 (nw_prefix nw) v (ct_v4 t), ct_count := ct_count t + 1\<rparr>
      else t\<lparr>ct_v6 := trie_insert 128 (nw_address nw) 0 (nw_prefix nw) v (ct_v6 t), ct_count := ct_count t + 1\<rparr>)"

definition cidr_of :: "(network \<times> 'v) list \<Rightarrow> 'v cidr_trie" where
  "cidr_of entries = fold (\<lambda>(nw, v). cidr_insert nw v) entries empty_cidr"

definition cidr_lookup :: "ip \<Rightarrow> 'v cidr_trie \<Rightarrow> 'v option" where
  "cidr_lookup a t = (if ip_version a = 4 then trie_search 32 (ip_num a) (ct_v4 t) else trie_search 128 (ip_num a) (ct_v6 t))"

definition cidr_lookup_text :: "string \<Rightarrow> 'v cidr_trie \<Rightarrow> 'v option res" where
  "cidr_lookup_text s t = bind_res (ip_address s) (\<lambda>a. Inr (cidr_lookup a t))"

section \<open>What a client relies on\<close>

definition network_ok :: "network \<Rightarrow> bool" where
  "network_ok nw \<longleftrightarrow> (nw_version nw = 4 \<or> nw_version nw = 6) \<and> nw_prefix nw \<le> width (nw_version nw)
     \<and> nw_address nw < 2 ^ width (nw_version nw)"

text \<open>\<open>best_of a entries\<close> is the specification: the longest network of the list that has \<open>a\<close>, and its value.\<close>

definition better :: "ip \<Rightarrow> network \<Rightarrow> 'v \<Rightarrow> (nat \<times> 'v) option \<Rightarrow> (nat \<times> 'v) option" where
  "better a nw v best =
     (if in_network a nw \<and> (case best of None \<Rightarrow> True | Some (p, _) \<Rightarrow> p \<le> nw_prefix nw) then Some (nw_prefix nw, v)
      else best)"

definition best_of :: "ip \<Rightarrow> (network \<times> 'v) list \<Rightarrow> (nat \<times> 'v) option" where
  "best_of a entries = fold (\<lambda>(nw, v). better a nw v) entries None"

locale prefix_index =
  fixes new_index :: 'i
    and enter :: "network \<Rightarrow> 'v \<Rightarrow> 'i \<Rightarrow> 'i"
    and find_best :: "ip \<Rightarrow> 'i \<Rightarrow> (nat \<times> 'v) option"
    and find :: "ip \<Rightarrow> 'i \<Rightarrow> 'v option"
  assumes find_best_new: "find_best a new_index = None"
    and find_best_enter: "ip_ok a \<Longrightarrow> network_ok nw \<Longrightarrow> find_best a (enter nw v ix) = better a nw v (find_best a ix)"
    and find_is_best: "find a ix = map_option snd (find_best a ix)"
begin

lemma find_best_entries:
  assumes "ip_ok a" and "\<forall>(nw, v) \<in> set entries. network_ok nw"
  shows "find_best a (fold (\<lambda>(nw, v). enter nw v) entries ix)
       = fold (\<lambda>(nw, v). better a nw v) entries (find_best a ix)"
  using assms(2) by (induction entries arbitrary: ix) (auto simp: find_best_enter assms(1))

lemma find_entries:
  assumes "ip_ok a" and "\<forall>(nw, v) \<in> set entries. network_ok nw"
  shows "find a (fold (\<lambda>(nw, v). enter nw v) entries new_index) = map_option snd (best_of a entries)"
  using find_best_entries [OF assms, of new_index] by (simp add: find_is_best find_best_new best_of_def)

end

text \<open>The specification finds a network of the list that has the address, and none has a longer prefix.\<close>

lemma best_of_snoc: "best_of a (entries @ [(nw, v)]) = better a nw v (best_of a entries)"
  by (simp add: best_of_def)

lemma best_of_None: "best_of a entries = None \<longleftrightarrow> (\<forall>(nw, v) \<in> set entries. \<not> in_network a nw)"
proof (induction entries rule: rev_induct)
  case (snoc e entries)
  then show ?case by (cases e) (auto simp: best_of_snoc better_def split: option.splits)
qed (simp add: best_of_def)

lemma best_of_Some:
  "best_of a entries = Some (p, v) \<Longrightarrow>
     (\<exists>nw. (nw, v) \<in> set entries \<and> in_network a nw \<and> nw_prefix nw = p)
     \<and> (\<forall>(nw, v) \<in> set entries. in_network a nw \<longrightarrow> nw_prefix nw \<le> p)"
proof (induction entries arbitrary: p v rule: rev_induct)
  case (snoc e entries)
  obtain nw w where e: "e = (nw, w)" by (cases e)
  show ?case
  proof (cases "best_of a entries")
    case None
    then show ?thesis using snoc.prems best_of_None [of a entries]
      by (auto simp: best_of_snoc e better_def split: if_splits)
  next
    case (Some q)
    obtain p' v' where q: "q = (p', v')" by (cases q)
    from snoc.IH [OF Some [unfolded q]] show ?thesis
      using snoc.prems Some by (fastforce simp: best_of_snoc e q better_def split: if_splits)
  qed
qed (simp add: best_of_def)

section \<open>The trie provides it\<close>

fun best_walk :: "nat \<Rightarrow> nat \<Rightarrow> nat \<Rightarrow> nat \<Rightarrow> 'v node \<Rightarrow> (nat \<times> 'v) option \<Rightarrow> (nat \<times> 'v) option" where
  "best_walk bits key i 0 node best = best"
| "best_walk bits key i (Suc n) node best =
     (case child (key_bit bits key i) node of
        None \<Rightarrow> best
      | Some c \<Rightarrow> best_walk bits key (Suc i) n c (or_best (map_option (Pair (Suc i)) (node_value c)) best))"

definition trie_best :: "nat \<Rightarrow> nat \<Rightarrow> 'v node \<Rightarrow> (nat \<times> 'v) option" where
  "trie_best bits key root = best_walk bits key 0 bits root (map_option (Pair 0) (node_value root))"

definition cidr_best :: "ip \<Rightarrow> 'v cidr_trie \<Rightarrow> (nat \<times> 'v) option" where
  "cidr_best a t = (if ip_version a = 4 then trie_best 32 (ip_num a) (ct_v4 t) else trie_best 128 (ip_num a) (ct_v6 t))"

lemma or_best_simps [simp]: "or_best None b = b" "or_best (Some x) b = Some x" "or_best v None = v"
  by (simp_all add: or_best_def split: option.split)

lemma node_simps [simp]:
  "node_value (set_value x node) = Some x" "child b (set_value x node) = child b node"
  "node_value (set_child b c node) = node_value node"
  "child b' (set_child b c node) = (if b' = b then Some c else child b' node)"
  "node_value empty_node = None" "child b empty_node = None"
  by (cases node; simp add: empty_node_def)+

lemma trie_walk_best:
  "trie_walk bits key i n node (map_option snd best) = map_option snd (best_walk bits key i n node best)"
proof (induction bits key i n node best rule: best_walk.induct)
  case (2 bits key i n node best)
  have "or_best v (map_option snd best) = map_option snd (or_best (map_option (Pair (Suc i)) v) best)" for v
    by (cases v) simp_all
  then show ?case using 2 by (simp split: option.split)
qed simp

lemma best_walk_deeper:
  "best_walk bits key i n node best = or_best (best_walk bits key i n node None) best"
  "best_walk bits key i n node None = Some (p, w) \<Longrightarrow> i < p"
proof (induction n arbitrary: i node best p w)
  case (Suc n)
  {
    case 1
    show ?case
    proof (cases "child (key_bit bits key i) node")
      case (Some c)
      have "or_best r (or_best v b) = or_best (or_best r (or_best v None)) b" for r v b :: "(nat \<times> 'a) option"
        by (cases r; cases v) simp_all
      then show ?thesis
        unfolding best_walk.simps Some option.case
        by (subst (1 2) Suc(1)) (rule refl | assumption | blast)+
    qed simp
  next
    case 2
    let ?v = "\<lambda>c. map_option (Pair (Suc i)) (node_value c)"
    from 2 obtain c where c: "child (key_bit bits key i) node = Some c"
      by (auto split: option.splits)
    have "best_walk bits key (Suc i) n c (?v c) = Some (p, w)" using 2 by (simp add: c)
    then have r: "or_best (best_walk bits key (Suc i) n c None) (?v c) = Some (p, w)"
      using Suc(1) by (rule back_subst)
    show ?case
    proof (cases "best_walk bits key (Suc i) n c None")
      case None
      then show ?thesis using r by (cases "node_value c") auto
    next
      case (Some q)
      then show ?thesis using r Suc(2) [of "Suc i" c p w] by simp
    qed
  }
qed simp_all

lemma best_walk_empty [simp]: "best_walk bits key i n empty_node best = best"
  by (cases n) simp_all

lemma best_walk_insert:
  assumes "m \<le> n" and "\<And>p w. best = Some (p, w) \<Longrightarrow> p \<le> i"
  shows "best_walk bits a i n (trie_insert bits k i m v node)
             (or_best (map_option (Pair i) (node_value (trie_insert bits k i m v node))) best)
       = (let r = best_walk bits a i n node (or_best (map_option (Pair i) (node_value node)) best) in
          if (\<forall>j < m. key_bit bits a (i + j) = key_bit bits k (i + j))
             \<and> (case r of None \<Rightarrow> True | Some (p, _) \<Rightarrow> p \<le> i + m)
          then Some (i + m, v) else r)"
  using assms
proof (induction m arbitrary: i n node best)
  case 0
  have same: "best_walk bits a i n (set_value v node) b = best_walk bits a i n node b" for b
    by (cases n) simp_all
  let ?b = "or_best (map_option (Pair i) (node_value node)) best"
  have "p \<le> i" if "?b = Some (p, w)" for p w
    using that 0(2) by (cases "node_value node") auto
  then show ?case
    using best_walk_deeper(1) [of bits a i n node ?b] best_walk_deeper(1) [of bits a i n node "Some (i, v)"]
      best_walk_deeper(2) [of bits a i n node]
    by (cases "best_walk bits a i n node None"; cases ?b) (auto simp: same Let_def)
next
  case (Suc m)
  obtain n' where n: "n = Suc n'" "m \<le> n'" using Suc.prems(1) by (cases n) auto
  let ?b = "or_best (map_option (Pair i) (node_value node)) best"
  define c where "c = (case child (key_bit bits k i) node of None \<Rightarrow> empty_node | Some c \<Rightarrow> c)"
  have b: "p \<le> Suc i" if "?b = Some (p, w)" for p w
    using that Suc.prems(2) by (cases "node_value node") fastforce+
  have shift: "(\<forall>j < Suc m. key_bit bits a (i + j) = key_bit bits k (i + j)) \<longleftrightarrow>
      key_bit bits a i = key_bit bits k i \<and> (\<forall>j < m. key_bit bits a (Suc i + j) = key_bit bits k (Suc i + j))"
    by (auto simp: less_Suc_eq_0_disj)
  show ?case
  proof (cases "key_bit bits a i = key_bit bits k i")
    case True
    have "best_walk bits a i n node ?b = best_walk bits a (Suc i) n' c (or_best (map_option (Pair (Suc i)) (node_value c)) ?b)"
      by (cases "child (key_bit bits k i) node") (simp_all add: n True c_def)
    moreover have "best_walk bits a i n (trie_insert bits k i (Suc m) v node)
          (or_best (map_option (Pair i) (node_value (trie_insert bits k i (Suc m) v node))) best)
        = best_walk bits a (Suc i) n' (trie_insert bits k (Suc i) m v c)
            (or_best (map_option (Pair (Suc i)) (node_value (trie_insert bits k (Suc i) m v c))) ?b)"
      by (simp add: n True c_def Let_def)
    ultimately show ?thesis
      using Suc.IH [OF n(2), of ?b "Suc i" c] b True unfolding shift add_Suc add_Suc_right by (simp add: Let_def)
  next
    case False
    then show ?thesis unfolding shift by (simp add: n Let_def)
  qed
qed

lemma same_prefix_bits:
  fixes a k :: nat
  assumes "a < 2 ^ w" and "k < 2 ^ w" and "p \<le> w"
  shows "(\<forall>j < p. bit a (w - 1 - j) = bit k (w - 1 - j)) \<longleftrightarrow> a div 2 ^ (w - p) = k div 2 ^ (w - p)"
proof -
  have high: "\<not> bit x i" if "x < 2 ^ w" "w \<le> i" for x i :: nat
  proof -
    have "x < 2 ^ i" using that(1) power_increasing [OF that(2), of "2 :: nat"] by linarith
    then show ?thesis by (simp add: bit_iff_odd)
  qed
  have "a div 2 ^ (w - p) = k div 2 ^ (w - p) \<longleftrightarrow> (\<forall>i. bit a (w - p + i) = bit k (w - p + i))"
    by (simp add: bit_eq_iff flip: drop_bit_eq_div) (simp add: bit_drop_bit_eq)
  also have "\<dots> \<longleftrightarrow> (\<forall>j < p. bit a (w - 1 - j) = bit k (w - 1 - j))" (is "?L \<longleftrightarrow> ?R")
  proof
    assume l: ?L
    show ?R
    proof (intro allI impI)
      fix j
      assume "j < p"
      then have "w - 1 - j = w - p + (p - 1 - j)" using assms(3) by simp
      then show "bit a (w - 1 - j) = bit k (w - 1 - j)" using l by metis
    qed
  next
    assume r: ?R
    show ?L
    proof
      fix i
      show "bit a (w - p + i) = bit k (w - p + i)"
      proof (cases "i < p")
        case True
        then have "w - p + i = w - 1 - (p - 1 - i)" "p - 1 - i < p" using assms(3) by simp_all
        then show ?thesis using r by metis
      next
        case False
        then show ?thesis using high [OF assms(1), of "w - p + i"] high [OF assms(2), of "w - p + i"] by simp
      qed
    qed
  qed
  finally show ?thesis by simp
qed

lemma trie_best_insert:
  assumes "a < 2 ^ bits" and "k < 2 ^ bits" and "m \<le> bits"
  shows "trie_best bits a (trie_insert bits k 0 m v root)
      = (if a div 2 ^ (bits - m) = k div 2 ^ (bits - m)
            \<and> (case trie_best bits a root of None \<Rightarrow> True | Some (p, _) \<Rightarrow> p \<le> m)
         then Some (m, v) else trie_best bits a root)"
proof -
  show ?thesis
    using best_walk_insert [OF assms(3), of None 0 bits a k v root] same_prefix_bits [OF assms] unfolding add_0
    by (simp add: trie_best_def key_bit_def Let_def)
qed

interpretation cidr: prefix_index empty_cidr cidr_insert cidr_best cidr_lookup
proof
  fix a :: ip and nw :: network and v :: 'v and t :: "'v cidr_trie"
  show "cidr_best a (empty_cidr :: 'v cidr_trie) = None"
    by (simp add: cidr_best_def trie_best_def empty_cidr_def)
  show "cidr_best a (cidr_insert nw v t) = better a nw v (cidr_best a t)" if "ip_ok a" "network_ok nw"
  proof (cases a)
    case (V4 n)
    then show ?thesis
      using that trie_best_insert [of n 32 "nw_address nw" "nw_prefix nw" v "ct_v4 t"]
      by (auto simp: cidr_best_def cidr_insert_def better_def in_network_def network_ok_def width_def Let_def)
  next
    case (V6 n scope)
    then show ?thesis
      using that trie_best_insert [of n 128 "nw_address nw" "nw_prefix nw" v "ct_v6 t"]
      by (auto simp: cidr_best_def cidr_insert_def better_def in_network_def network_ok_def width_def Let_def)
  qed
  show "cidr_lookup a t = map_option snd (cidr_best a t)"
    using trie_walk_best [of 32 "ip_num a" 0 32 "ct_v4 t" "map_option (Pair 0) (node_value (ct_v4 t))"]
      trie_walk_best [of 128 "ip_num a" 0 128 "ct_v6 t" "map_option (Pair 0) (node_value (ct_v6 t))"]
    by (simp add: cidr_lookup_def cidr_best_def trie_search_def trie_best_def option.map_comp comp_def option.map_ident)
qed

text \<open>A network that was parsed is one the index takes.\<close>

lemma network_of_ok: "version = 4 \<or> version = 6 \<Longrightarrow> n < 2 ^ width version \<Longrightarrow> p \<le> width version \<Longrightarrow> network_ok (network_of version n p)"
  by (auto simp: network_of_def network_ok_def Let_def intro: le_less_trans [OF div_times_less_eq_dividend])

lemma prefix_of_mask_bound: "prefix_of_mask m = Some p \<Longrightarrow> p \<le> 32"
  by (auto simp: prefix_of_mask_def find_Some_iff)

lemma parse_mask_bound: "parse_mask s = Some p \<Longrightarrow> p \<le> 32"
  by (auto simp: parse_mask_def parse_prefix_len_def bind_eq_Some_conv dest: prefix_of_mask_bound split: if_splits option.splits)

lemma ip_network_ok:
  assumes "ip_network s = Inr nw"
  shows "network_ok nw"
proof -
  let ?parts = "split_on ''/'' s"
  let ?v4 = "Option.bind (parse_v4 (hd ?parts)) (\<lambda>n. map_option (network_of 4 n)
                 (if length ?parts = 1 then Some 32 else parse_mask (?parts ! 1)))"
  let ?v6 = "Option.bind (parse_v6 (hd ?parts)) (\<lambda>a. map_option (network_of 6 (ip_num a))
                 (if length ?parts = 1 then Some 128 else parse_prefix_len 128 (?parts ! 1)))"
  have "?v4 = Some nw \<or> ?v6 = Some nw"
    using assms by (auto simp: ip_network_def Let_def simp del: split_paired_Ex split: option.splits if_split_asm)
  then show ?thesis
  proof
    assume "?v4 = Some nw"
    then obtain n p where "parse_v4 (hd ?parts) = Some n" "p \<le> 32" "nw = network_of 4 n p"
      by (auto simp: bind_eq_Some_conv dest: parse_mask_bound split: if_split_asm)
    then show ?thesis using parse_v4_bound by (auto intro!: network_of_ok simp: width_def)
  next
    assume "?v6 = Some nw"
    then obtain a p where a: "parse_v6 (hd ?parts) = Some a" "p \<le> 128" "nw = network_of 6 (ip_num a) p"
      by (auto simp: bind_eq_Some_conv parse_prefix_len_def split: if_split_asm)
    then have "ip_num a < 2 ^ 128"
      using parse_v6_ok [OF a(1)] by (cases a) (auto simp: parse_v6_def Let_def split: prod.splits if_splits)
    then show ?thesis using a(2,3) by (auto intro!: network_of_ok simp: width_def)
  qed
qed

end
