(* ===== verification/Network_Context.thy ===== *)
theory Network_Context
  imports Cidr
begin

text \<open>
  The network-context enricher of \<^verbatim>\<open>ulpf/enrich/network_context.py\<close>: for every address of a record its
  classification (from the address alone), its zone (from the longest matching network of the asset map)
  and, from the two endpoints, the direction of the traffic. The YAML document of the asset map is a value.
\<close>

section \<open>Classification\<close>

definition documentation_nets :: "network list" where
  "documentation_nets =
     [v4_net [192,0,2,0] 24, v4_net [198,51,100,0] 24, v4_net [203,0,113,0] 24, v6_net [8193,3512,0,0,0,0,0,0] 32]"

definition is_documentation :: "ip \<Rightarrow> bool" where
  "is_documentation a \<longleftrightarrow> in_any a documentation_nets"

definition classify :: "ip \<Rightarrow> pydict" where
  "classify a =
     (let doc = is_documentation a in
      [(''ip_version'', PInt (int (ip_version a))), (''is_private'', PBool (is_private a \<and> \<not> doc)),
       (''is_loopback'', PBool (is_loopback a)), (''is_multicast'', PBool (is_multicast a)),
       (''is_reserved'', PBool (is_reserved a)), (''is_global'', PBool (is_global a \<or> doc))])"

section \<open>The asset map\<close>

record zone_info =
  zi_zone :: string
  zi_criticality :: "string option"
  zi_cidr :: string

type_synonym zone_map = "zone_info cidr_trie"

definition read_zone_row :: "pyval \<Rightarrow> (network \<times> zone_info) option" where
  "read_zone_row row =
     (case row of
        PDict d \<Rightarrow>
          (case map_of d ''cidr'' of
             None \<Rightarrow> None
           | Some c \<Rightarrow>
               (case ip_network (py_str c) of
                  Inl _ \<Rightarrow> None
                | Inr nw \<Rightarrow> Some (nw, \<lparr>zi_zone = (case map_of d ''zone'' of None \<Rightarrow> [] | Some z \<Rightarrow> py_str z),
                    zi_criticality = (case py_get d ''criticality'' of PNone \<Rightarrow> None | v \<Rightarrow> Some (py_str v)),
                    zi_cidr = network_text nw\<rparr>)))
      | _ \<Rightarrow> None)"

definition read_zone_rows :: "pyval list \<Rightarrow> (network \<times> zone_info) list" where
  "read_zone_rows rows = List.map_filter read_zone_row rows"

text \<open>\<^verbatim>\<open>from_yaml\<close>; \<open>None\<close> is an absent file. A mapping or a text in place of the rows has no row to read.\<close>

definition zone_map_of :: "pydict option \<Rightarrow> zone_map res" where
  "zone_map_of document =
     (case document of
        None \<Rightarrow> Inr (cidr_of [])
      | Some d \<Rightarrow>
          (case py_get d ''zones'' of
             PList rows \<Rightarrow> Inr (cidr_of (read_zone_rows rows))
           | v \<Rightarrow> if py_truth v \<and> (case v of PStr _ \<Rightarrow> False | PDict _ \<Rightarrow> False | _ \<Rightarrow> True)
                  then Inl (TypeError ''object is not iterable'') else Inr (cidr_of [])))"

section \<open>The addresses of a record\<close>

definition valid_ip :: "pyval \<Rightarrow> string option" where
  "valid_ip v = (case v of PStr s \<Rightarrow> (case ip_address s of Inr a \<Rightarrow> Some (ip_text a) | Inl _ \<Rightarrow> None) | _ \<Rightarrow> None)"

definition append_ip :: "pyval \<Rightarrow> string list \<Rightarrow> string list" where
  "append_ip v found = (case valid_ip v of None \<Rightarrow> found | Some s \<Rightarrow> if s \<in> set found then found else found @ [s])"

definition is_dict :: "pyval \<Rightarrow> bool" where
  "is_dict v = (case v of PDict _ \<Rightarrow> True | _ \<Rightarrow> False)"

fun collect_ips :: "pyval \<Rightarrow> string list \<Rightarrow> string list"
  and collect_members :: "pydict \<Rightarrow> string list \<Rightarrow> string list"
  and collect_items :: "pyval list \<Rightarrow> string list \<Rightarrow> string list" where
  "collect_ips (PDict d) found = collect_members d found"
| "collect_ips (PList xs) found = collect_items xs found"
| "collect_ips _ found = found"
| "collect_members [] found = found"
| "collect_members ((k, v) # d) found =
     collect_members d
       (if k = ''ip'' then append_ip v found
        else if k = ''unmapped'' \<and> is_dict v then fold (\<lambda>(_, item). append_ip item) (dict_of v) found
        else collect_ips v found)"
| "collect_items [] found = found"
| "collect_items (x # xs) found = collect_items xs (collect_ips x found)"

definition endpoint_ip :: "pydict \<Rightarrow> string \<Rightarrow> string option" where
  "endpoint_ip rec key = (case py_get rec key of PDict e \<Rightarrow> valid_ip (py_get e ''ip'') | _ \<Rightarrow> None)"

section \<open>Direction and enrichment\<close>

definition scope_private :: "string \<Rightarrow> bool res" where
  "scope_private s = bind_res (ip_address s) (\<lambda>a. Inr (py_get (classify a) ''is_private'' = PBool True))"

definition direction_of :: "bool \<Rightarrow> bool \<Rightarrow> string" where
  "direction_of src dst =
     (if src \<and> \<not> dst then ''outbound'' else if \<not> src \<and> dst then ''inbound''
      else if src \<and> dst then ''internal'' else ''transit'')"

definition infer_direction :: "string option \<Rightarrow> string option \<Rightarrow> string option res" where
  "infer_direction src dst =
     (case (src, dst) of
        (Some s, Some d) \<Rightarrow>
          if s = [] \<or> d = [] then Inr None
          else bind_res (scope_private s) (\<lambda>p. bind_res (scope_private d) (\<lambda>q. Inr (Some (direction_of p q))))
      | _ \<Rightarrow> Inr None)"

definition opt_str :: "string option \<Rightarrow> pyval" where
  "opt_str v = (case v of None \<Rightarrow> PNone | Some s \<Rightarrow> PStr s)"

definition describe :: "zone_map \<Rightarrow> string \<Rightarrow> pydict res" where
  "describe zones s =
     bind_res (ip_address s) (\<lambda>a.
       let info = cidr_lookup a zones
       in Inr (classify a @ [(''zone'', opt_str (map_option zi_zone info)),
                             (''criticality'', opt_str (Option.bind info zi_criticality))]))"

definition role_fields :: "string \<Rightarrow> string option \<Rightarrow> (string \<times> pydict) list \<Rightarrow> pydict" where
  "role_fields role addr described =
     (case addr of
        None \<Rightarrow> []
      | Some s \<Rightarrow>
          (case map_of described s of
             None \<Rightarrow> []
           | Some d \<Rightarrow> if s = [] then []
               else [(role @ ''_zone'', py_get d ''zone''), (role @ ''_criticality'', py_get d ''criticality'')]))"

definition enrich_network :: "zone_map \<Rightarrow> pydict \<Rightarrow> pydict res" where
  "enrich_network zones rec =
     (let ips = collect_ips (PDict rec) [] in
      if ips = [] then Inr []
      else bind_res (map_res (\<lambda>s. bind_res (describe zones s) (\<lambda>d. Inr (s, d))) ips) (\<lambda>described.
           let src = endpoint_ip rec ''src_endpoint''; dst = endpoint_ip rec ''dst_endpoint'' in
           bind_res (infer_direction src dst) (\<lambda>direction.
             Inr [(''network_context'', PDict ((''ips'', PDict (map (\<lambda>(s, d). (s, PDict d)) described))
                    # (case direction of None \<Rightarrow> [] | Some w \<Rightarrow> [(''direction'', PStr w)])
                    @ role_fields ''src'' src described @ role_fields ''dst'' dst described))])))"

section \<open>Properties\<close>

text \<open>
  C37. The longest-prefix index answers as its specification: the value of the longest network entered that
  has the address, the last entered where networks are equal, and nothing where none has it.
\<close>

theorem cidr_lookup_longest_prefix:
  assumes "ip_ok a" and "list_all (\<lambda>(nw, v). network_ok nw) entries"
  shows "cidr_lookup a (cidr_of entries) = map_option snd (best_of a entries)"
  using cidr.find_entries [of a entries] assms by (simp add: cidr_of_def list_all_iff)

theorem cidr_lookup_longest_prefix_witness:
  "cidr_lookup (V4 167838215) (cidr_of [(network_of 4 167838215 32, ''host''), (network_of 4 167772160 8, ''corp'')]) = Some ''host''
   \<and> cidr_lookup (V4 167772161) (cidr_of [(network_of 4 167838215 32, ''host''), (network_of 4 167772160 8, ''corp'')]) = Some ''corp''"
  using cidr_lookup_longest_prefix [of "V4 167838215" "[(network_of 4 167838215 32, ''host''), (network_of 4 167772160 8, ''corp'')]"]
    cidr_lookup_longest_prefix [of "V4 167772161" "[(network_of 4 167838215 32, ''host''), (network_of 4 167772160 8, ''corp'')]"]
  by (simp add: network_ok_def network_of_def width_def best_of_def better_def in_network_def)

text \<open>Every text that is collected is the canonical text of an address.\<close>

definition canonical :: "string \<Rightarrow> bool" where
  "canonical s \<longleftrightarrow> (\<exists>a. ip_address s = Inr a \<and> ip_text a = s)"

lemma valid_ip_canonical: "valid_ip v = Some s \<Longrightarrow> canonical s"
  by (auto simp: valid_ip_def canonical_def dest: ip_address_canonical split: pyval.splits sum.splits)

lemma append_ip_canonical: "\<forall>s \<in> set found. canonical s \<Longrightarrow> s \<in> set (append_ip v found) \<Longrightarrow> canonical s"
  using valid_ip_canonical by (auto simp: append_ip_def split: option.splits if_splits)

lemma fold_append_ip_canonical:
  "\<forall>s \<in> set found. canonical s \<Longrightarrow> \<forall>s \<in> set (fold (\<lambda>(_, item). append_ip item) u found). canonical s"
proof (induction u arbitrary: found)
  case (Cons p u)
  have "\<forall>s \<in> set (append_ip (snd p) found). canonical s" using append_ip_canonical [OF Cons.prems] by blast
  from Cons.IH [OF this] show ?case by (cases p) simp
qed simp

lemma collect_ips_canonical:
  "\<forall>s \<in> set found. canonical s \<Longrightarrow> \<forall>s \<in> set (collect_ips v found). canonical s"
  "\<forall>s \<in> set found. canonical s \<Longrightarrow> \<forall>s \<in> set (collect_members d found). canonical s"
  "\<forall>s \<in> set found. canonical s \<Longrightarrow> \<forall>s \<in> set (collect_items xs found). canonical s"
proof (induction v found and d found and xs found rule: collect_ips_collect_members_collect_items.induct)
  case (5 k v d found)
  consider "k = ''ip''" | "k \<noteq> ''ip''" "k = ''unmapped'' \<and> is_dict v" | "k \<noteq> ''ip''" "\<not> (k = ''unmapped'' \<and> is_dict v)" by blast
  then show ?case
  proof cases
    case 1
    then show ?thesis using "5.IH"(2) append_ip_canonical [OF "5.prems"] by simp
  next
    case 2
    then show ?thesis using "5.IH"(2) fold_append_ip_canonical [OF "5.prems", of "dict_of v"] by simp
  next
    case 3
    then show ?thesis using "5.IH"(2) "5.IH"(1) [OF 3 "5.prems"] by (simp only: collect_members.simps if_False)
  qed
next
  case (7 x xs found)
  then show ?case by simp
qed simp_all

lemma describe_canonical: "canonical s \<Longrightarrow> \<exists>d. describe zones s = Inr d"
  by (auto simp: canonical_def describe_def Let_def)

lemma endpoint_ip_canonical: "endpoint_ip rec key = Some s \<Longrightarrow> canonical s"
  by (auto simp: endpoint_ip_def dest: valid_ip_canonical split: pyval.splits)

lemma map_res_total: "\<forall>x \<in> set xs. \<exists>y. f x = Inr y \<Longrightarrow> \<exists>ys. map_res f xs = Inr ys"
  by (induction xs) auto

lemma infer_direction_total:
  assumes "\<And>s. src = Some s \<Longrightarrow> canonical s" and "\<And>s. dst = Some s \<Longrightarrow> canonical s"
  shows "\<exists>w. infer_direction src dst = Inr w"
proof -
  have scope: "\<exists>b. scope_private s = Inr b" if "canonical s" for s
    using that by (auto simp: canonical_def scope_private_def)
  show ?thesis
  proof (cases src)
    case (Some s)
    show ?thesis
    proof (cases dst)
      case (Some d)
      obtain p where "scope_private s = Inr p" using scope [OF assms(1)] \<open>src = Some s\<close> by blast
      moreover obtain q where "scope_private d = Inr q" using scope [OF assms(2)] Some by blast
      ultimately show ?thesis by (simp add: infer_direction_def \<open>src = Some s\<close> Some)
    qed (simp add: infer_direction_def Some)
  qed (simp add: infer_direction_def)
qed

lemma describe_all_total:
  "\<forall>s \<in> set ips. canonical s \<Longrightarrow> \<exists>ds. map_res (\<lambda>s. bind_res (describe zones s) (\<lambda>d. Inr (s, d))) ips = Inr ds"
proof -
  assume c: "\<forall>s \<in> set ips. canonical s"
  have "\<exists>y. bind_res (describe zones s) (\<lambda>d. Inr (s, d)) = Inr y" if "s \<in> set ips" for s
  proof -
    obtain d where "describe zones s = Inr d" using describe_canonical c \<open>s \<in> set ips\<close> by blast
    then show ?thesis by (simp only: bind_res_simps) blast
  qed
  then show ?thesis by (intro map_res_total) blast
qed

text \<open>
  The network-context enricher raises on no record: whatever the record holds, it answers with nothing or
  with one context, and it answers with nothing only when no address is in the record.
\<close>

theorem enrich_network_total:
  "\<exists>d. enrich_network zones rec = Inr d \<and> (d = []) = (collect_ips (PDict rec) [] = [])"
proof -
  define ips where "ips = collect_ips (PDict rec) []"
  have "\<forall>s \<in> set ips. canonical s" unfolding ips_def by (rule collect_ips_canonical(1)) simp
  then obtain ds where d: "map_res (\<lambda>s. bind_res (describe zones s) (\<lambda>d. Inr (s, d))) ips = Inr ds"
    using describe_all_total by blast
  have "\<exists>w. infer_direction (endpoint_ip rec ''src_endpoint'') (endpoint_ip rec ''dst_endpoint'') = Inr w"
    by (rule infer_direction_total) (rule endpoint_ip_canonical, assumption)+
  then obtain w where w: "infer_direction (endpoint_ip rec ''src_endpoint'') (endpoint_ip rec ''dst_endpoint'') = Inr w" ..
  show ?thesis unfolding enrich_network_def ips_def [symmetric] Let_def d w bind_res_simps by (cases "ips = []") simp_all
qed

lemma classify_flags:
  "py_get (classify a) ''is_private'' = PBool (is_private a \<and> \<not> is_documentation a)"
  "py_get (classify a) ''is_global'' = PBool (is_global a \<or> is_documentation a)"
  by (simp_all only: classify_def Let_def py_get_def) simp_all

text \<open>
  An address of a documentation range counts as public whatever the standard library says, and the
  address is private or global but never both.
\<close>

lemma classify_public_or_private:
  "py_get (classify a) ''is_private'' = PBool (is_private a \<and> \<not> is_documentation a)
   \<and> (py_get (classify a) ''is_private'' = PBool True) \<noteq> (is_documentation a \<or> \<not> is_private a)
   \<and> \<not> (py_get (classify a) ''is_private'' = PBool True \<and> py_get (classify a) ''is_global'' = PBool True)"
  unfolding classify_flags is_global_def by blast

end
