(* ===== verification/Enrichment.thy ===== *)
theory Enrichment
  imports Network_Context Normalize_Stage Crosswalk
begin

text \<open>
  The enrichment of a normalized record: the chain of \<^verbatim>\<open>ulpf/enrich/pipeline.py\<close>, each enricher on a worker thread and
  under a time limit, and the stage of \<^verbatim>\<open>ulpf/enrich/stage.py\<close> that stores the result and copies what has an OCSF
  home. An enricher is a function of the record into what its call does within the limit; a call that overruns
  keeps its worker until it returns (\<open>worker_returns\<close>, between calls), and a call that finds every worker taken
  is not started before its limit. A truthy \<^verbatim>\<open>enrichments\<close> entry that is not a dictionary is taken to raise.
\<close>

section \<open>The chain\<close>

datatype enricher_call = Returns pyval | Raises exn | Overruns

type_synonym enricher = "string \<times> (pydict \<Rightarrow> enricher_call)"

record worker_pool =
  wp_workers :: nat
  wp_busy :: nat
  wp_warnings :: "string list"

definition new_pool :: "enricher list \<Rightarrow> worker_pool" where
  "new_pool es = \<lparr>wp_workers = min (max (length es) 1) 8, wp_busy = 0, wp_warnings = []\<rparr>"

definition worker_returns :: "worker_pool \<Rightarrow> worker_pool" where
  "worker_returns p = p\<lparr>wp_busy := wp_busy p - 1\<rparr>"

definition warn :: "string \<Rightarrow> worker_pool \<Rightarrow> worker_pool" where
  "warn name p = p\<lparr>wp_warnings := wp_warnings p @ [name]\<rparr>"

definition run_one :: "enricher \<Rightarrow> pydict \<Rightarrow> worker_pool \<Rightarrow> pydict \<times> worker_pool" where
  "run_one e rec p =
     (if wp_workers p \<le> wp_busy p then ([], warn (fst e) p)
      else case snd e rec of
             Overruns \<Rightarrow> ([], warn (fst e) (p\<lparr>wp_busy := wp_busy p + 1\<rparr>))
           | Raises x \<Rightarrow> ([], warn (fst e) p)
           | Returns (PDict d) \<Rightarrow> (d, p)
           | Returns v \<Rightarrow> ([], warn (fst e) p))"

fun run_enrichers :: "enricher list \<Rightarrow> pydict \<Rightarrow> pydict \<Rightarrow> worker_pool \<Rightarrow> pydict \<times> worker_pool" where
  "run_enrichers [] rec merged p = (merged, p)"
| "run_enrichers (e # es) rec merged p =
     (case run_one e rec p of (got, p1) \<Rightarrow> run_enrichers es rec (if got = [] then merged else dict_update merged got) p1)"

definition enrich_record :: "enricher list \<Rightarrow> pydict \<Rightarrow> worker_pool \<Rightarrow> pydict res \<times> worker_pool" where
  "enrich_record es rec p =
     (let v = py_get rec ''enrichments''
      in case (if py_truth v then v else PDict []) of
           PDict merged \<Rightarrow> (case run_enrichers es rec merged p of (d, p1) \<Rightarrow> (Inr (dict_set ''enrichments'' (PDict d) rec), p1))
         | _ \<Rightarrow> (Inl (TypeError ''cannot convert to a dict''), p))"

section \<open>Promotion\<close>

definition geo_location :: "pydict \<Rightarrow> pydict" where
  "geo_location d =
     (let lat = py_get d ''latitude''; lon = py_get d ''longitude''
      in (if py_truth (py_get d ''country_code'') then [(''country'', py_get d ''country_code'')] else [])
         @ (if py_truth (py_get d ''city'') then [(''city'', py_get d ''city'')] else [])
         @ (if lat \<noteq> PNone \<and> lon \<noteq> PNone then [(''coordinates'', PList [lon, lat])] else []))"

text \<open>\<^verbatim>\<open>endpoint.setdefault("location", {}).update(location)\<close>\<close>

definition add_location :: "pydict \<Rightarrow> pydict \<Rightarrow> pydict res" where
  "add_location location endpoint =
     (case map_of endpoint ''location'' of
        None \<Rightarrow> Inr (dict_set ''location'' (PDict (dict_update [] location)) endpoint)
      | Some (PDict l) \<Rightarrow> Inr (dict_set ''location'' (PDict (dict_update l location)) endpoint)
      | Some _ \<Rightarrow> Inl (AttributeError ''update''))"

text \<open>\<^verbatim>\<open>geoip.get(ip)\<close> of a dictionary with text keys.\<close>

definition get_by_value :: "pyval \<Rightarrow> pyval \<Rightarrow> pyval res" where
  "get_by_value table key =
     (case table of
        PDict d \<Rightarrow>
          if \<not> hashable key then Inl (TypeError ''unhashable type'')
          else Inr (case key of PStr s \<Rightarrow> py_get d s | _ \<Rightarrow> PNone)
      | _ \<Rightarrow> Inl (AttributeError ''get''))"

definition promote_geoip_role :: "pyval \<Rightarrow> string \<Rightarrow> pydict \<Rightarrow> pydict res" where
  "promote_geoip_role geoip role rec =
     (case py_get rec role of
        PDict endpoint \<Rightarrow>
          bind_res (get_by_value geoip (py_get endpoint ''ip'')) (\<lambda>got.
            let location = (case got of PDict d \<Rightarrow> geo_location d | _ \<Rightarrow> [])
            in if location = [] then Inr rec
               else bind_res (add_location location endpoint) (\<lambda>e. Inr (dict_set role (PDict e) rec)))
      | _ \<Rightarrow> Inr rec)"

definition promote_geoip :: "pyval \<Rightarrow> pydict \<Rightarrow> pydict res" where
  "promote_geoip geoip rec =
     bind_res (promote_geoip_role geoip ''src_endpoint'' rec) (promote_geoip_role geoip ''dst_endpoint'')"

definition promotable_direction :: "(string \<times> int \<times> string) list" where
  "promotable_direction = [(''inbound'', 1, ''Inbound''), (''outbound'', 2, ''Outbound'')]"

definition promote_direction :: "pyval \<Rightarrow> pydict \<Rightarrow> pydict" where
  "promote_direction direction rec =
     (case (case direction of PStr s \<Rightarrow> map_of promotable_direction s | _ \<Rightarrow> None) of
        None \<Rightarrow> rec
      | Some (i, name) \<Rightarrow>
          (let conn = (case py_get rec ''connection_info'' of PDict c \<Rightarrow> c | _ \<Rightarrow> [])
           in dict_set ''connection_info''
                (PDict (if py_truth (py_get conn ''direction'') then conn
                        else dict_set ''direction'' (PStr name) (dict_set ''direction_id'' (PInt i) conn))) rec))"

definition promote :: "pydict \<Rightarrow> pydict \<Rightarrow> pydict res" where
  "promote rec enrichments =
     bind_res (promote_geoip (py_or (py_get enrichments ''geoip'') (PDict [])) rec) (\<lambda>rec1.
       case py_or (py_get enrichments ''network_context'') (PDict []) of
         PDict d \<Rightarrow> Inr (promote_direction (py_get d ''direction'') rec1)
       | _ \<Rightarrow> Inl (AttributeError ''get''))"

section \<open>The stage\<close>

text \<open>The chain is absent, or there; \<open>enabled\<close> is the setting.\<close>

definition enrich_process :: "bool \<Rightarrow> enricher list option \<Rightarrow> normalized_event \<Rightarrow> worker_pool \<Rightarrow> normalized_event res \<times> worker_pool" where
  "enrich_process enabled chain n p =
     (case chain of
        None \<Rightarrow> (Inr n, p)
      | Some es \<Rightarrow>
          if \<not> enabled \<or> map_of (ocsf n) ''class_uid'' = None then (Inr n, p)
          else (case enrich_record es (ocsf n) p of
                  (Inl x, p1) \<Rightarrow> (Inr n, p1)
                | (Inr rec, p1) \<Rightarrow>
                    (let d = dict_of (py_get rec ''enrichments'')
                     in if d = [] then (Inr n, p1)
                        else (bind_res (promote (dict_set ''enrichments'' (PDict d) (ocsf n)) d) (\<lambda>rec'.
                                Inr (n\<lparr>ocsf := rec', enrichment := dict_update (enrichment n) d\<rparr>)), p1))))"

text \<open>The network context enricher of the chain.\<close>

definition network_enricher :: "zone_map \<Rightarrow> enricher" where
  "network_enricher zones = (''network_context'', \<lambda>rec. case enrich_network zones rec of Inl x \<Rightarrow> Raises x | Inr d \<Rightarrow> Returns (PDict d))"

section \<open>One bad enricher does not matter, a hung one does\<close>

text \<open>What an enricher contributes when it has a worker.\<close>

definition contribution :: "pydict \<Rightarrow> enricher \<Rightarrow> pydict" where
  "contribution rec e = (case snd e rec of Returns (PDict d) \<Rightarrow> d | _ \<Rightarrow> [])"

definition overruns :: "pydict \<Rightarrow> enricher \<Rightarrow> bool" where
  "overruns rec e \<longleftrightarrow> snd e rec = Overruns"

lemma run_one_busy:
  "wp_busy p < wp_workers p \<Longrightarrow> run_one e rec p = (got, p1) \<Longrightarrow>
     got = contribution rec e \<and> wp_workers p1 = wp_workers p \<and> wp_busy p1 = wp_busy p + (if overruns rec e then 1 else 0)"
  by (auto simp: run_one_def contribution_def overruns_def warn_def split: enricher_call.splits pyval.splits)

lemma run_enrichers_free:
  "wp_busy p + length (filter (overruns rec) es) < wp_workers p \<Longrightarrow> run_enrichers es rec merged p = (d, p1) \<Longrightarrow>
     d = fold (\<lambda>e m. dict_update m (contribution rec e)) es merged \<and> wp_workers p1 = wp_workers p
     \<and> wp_busy p1 = wp_busy p + length (filter (overruns rec) es)"
proof (induction es arbitrary: merged p)
  case (Cons e es)
  obtain got p' where one: "run_one e rec p = (got, p')" by (cases "run_one e rec p")
  have "wp_busy p < wp_workers p" using Cons.prems(1) by simp
  note first = run_one_busy [OF this one]
  have "wp_busy p' + length (filter (overruns rec) es) < wp_workers p'" using Cons.prems(1) first by (auto split: if_splits)
  note rest = Cons.IH [OF this]
  show ?case
    using Cons.prems(2) one first rest [of "if got = [] then merged else dict_update merged got"] by auto
qed simp

lemma run_enrichers_starved:
  "wp_workers p \<le> wp_busy p \<Longrightarrow> fst (run_enrichers es rec merged p) = merged
     \<and> wp_busy (snd (run_enrichers es rec merged p)) = wp_busy p \<and> wp_workers (snd (run_enrichers es rec merged p)) = wp_workers p"
proof (induction es arbitrary: p)
  case (Cons e es)
  then show ?case using Cons.IH [of "warn (fst e) p"] by (simp add: run_one_def warn_def)
qed simp

lemma run_enrichers_workers: "wp_workers (snd (run_enrichers es rec merged p)) = wp_workers p"
proof (induction es arbitrary: merged p)
  case (Cons e es)
  show ?case by (auto simp: Cons.IH run_one_def warn_def split: prod.split enricher_call.splits pyval.splits)
qed simp

lemma run_enrichers_busy: "wp_busy p \<le> wp_busy (snd (run_enrichers es rec merged p))"
proof (induction es arbitrary: merged p)
  case (Cons e es)
  obtain got p1 where one: "run_one e rec p = (got, p1)" by (cases "run_one e rec p")
  have "wp_busy p \<le> wp_busy p1" using one by (auto simp: run_one_def warn_def split: if_splits enricher_call.splits pyval.splits)
  then show ?case using le_trans [OF _ Cons.IH] one by simp
qed simp

text \<open>What one record does to the pool.\<close>

definition pool_after :: "enricher list \<Rightarrow> pydict \<Rightarrow> worker_pool \<Rightarrow> worker_pool" where
  "pool_after es rec p = snd (enrich_record es rec p)"

lemma pool_after_plain:
  "py_get rec ''enrichments'' = PNone \<Longrightarrow> pool_after es rec p = snd (run_enrichers es rec [] p)"
  by (simp add: pool_after_def enrich_record_def split: prod.split)

lemma hung_takes_worker:
  assumes "py_get rec ''enrichments'' = PNone"
  shows "min (wp_workers p) (wp_busy p + 1) \<le> wp_busy (pool_after ((name, \<lambda>_. Overruns) # es) rec p)
     \<and> wp_workers (pool_after ((name, \<lambda>_. Overruns) # es) rec p) = wp_workers p"
proof (cases "wp_workers p \<le> wp_busy p")
  case True
  then show ?thesis using assms run_enrichers_busy [of "warn name p" es rec "[]"]
    by (simp add: pool_after_plain run_one_def run_enrichers_workers) (simp add: warn_def)
next
  case False
  then show ?thesis using assms run_enrichers_busy [of "warn name (p\<lparr>wp_busy := wp_busy p + 1\<rparr>)" es rec "[]"]
    by (simp add: pool_after_plain run_one_def run_enrichers_workers) (simp add: warn_def)
qed

lemma hung_takes_workers:
  assumes "py_get rec ''enrichments'' = PNone"
  shows "min (wp_workers p) (wp_busy p + n) \<le> wp_busy ((pool_after ((name, \<lambda>_. Overruns) # es) rec ^^ n) p)
     \<and> wp_workers ((pool_after ((name, \<lambda>_. Overruns) # es) rec ^^ n) p) = wp_workers p"
proof (induction n)
  case (Suc n)
  let ?q = "(pool_after ((name, \<lambda>_. Overruns) # es) rec ^^ n) p"
  show ?case using Suc.IH hung_takes_worker [OF assms, of ?q name es] by (auto simp: min_def split: if_splits)
qed simp

section \<open>Promotion touches its own attributes\<close>

definition promoted_keys :: "string list" where
  "promoted_keys = [''enrichments'', ''src_endpoint'', ''dst_endpoint'', ''connection_info'']"

definition rest_of :: "pydict \<Rightarrow> pydict" where
  "rest_of rec = filter (\<lambda>(k, v). k \<notin> set promoted_keys) rec"

lemma rest_of_dict_set [simp]: "k \<in> set promoted_keys \<Longrightarrow> rest_of (dict_set k v rec) = rest_of rec"
  by (induction k v rec rule: dict_set.induct) (auto simp: rest_of_def)

lemma promote_geoip_role_rest:
  "promote_geoip_role geoip role rec = Inr rec1 \<Longrightarrow> role \<in> set promoted_keys \<Longrightarrow> rest_of rec1 = rest_of rec"
  by (auto simp: promote_geoip_role_def bind_res_def Let_def split: pyval.splits sum.splits if_splits)

lemma promote_rest: "promote rec d = Inr rec1 \<Longrightarrow> rest_of rec1 = rest_of rec"
  using promote_geoip_role_rest
  by (auto simp: promote_def promote_geoip_def promote_direction_def bind_res_def Let_def promoted_keys_def
      split: pyval.splits sum.splits option.splits if_splits)

definition stage_error :: "exn \<Rightarrow> bool" where
  "stage_error x = (case x of AttributeError _ \<Rightarrow> True | TypeError _ \<Rightarrow> True | _ \<Rightarrow> False)"

lemma promote_geoip_role_error: "promote_geoip_role geoip role rec = Inl x \<Longrightarrow> stage_error x"
  by (auto simp: promote_geoip_role_def get_by_value_def add_location_def bind_res_def Let_def stage_error_def
      split: pyval.splits sum.splits option.splits if_splits)

lemma promote_error: "promote rec d = Inl x \<Longrightarrow> stage_error x"
  using promote_geoip_role_error
  by (auto simp: promote_def promote_geoip_def bind_res_def stage_error_def split: pyval.splits sum.splits)

text \<open>An endpoint keeps every other attribute, a known direction is kept.\<close>

lemma add_location_keeps:
  "add_location location endpoint = Inr e \<Longrightarrow> k \<noteq> ''location'' \<Longrightarrow> py_get e k = py_get endpoint k"
  by (auto simp: add_location_def split: option.splits pyval.splits)

lemma promote_direction_keeps:
  "py_get rec ''connection_info'' = PDict c \<Longrightarrow> py_truth (py_get c ''direction'') \<Longrightarrow>
     py_get (promote_direction v rec) ''connection_info'' = PDict c"
  by (auto simp: promote_direction_def split: option.split)

text \<open>The stage, by its outcome.\<close>

lemma enrich_outcome:
  "enrich_process enabled chain n p = (Inl x, p1) \<Longrightarrow> stage_error x"
  "enrich_process enabled chain n p = (Inr n1, p1) \<Longrightarrow>
     rest_of (ocsf n1) = rest_of (ocsf n) \<and> n1 = n\<lparr>ocsf := ocsf n1, enrichment := enrichment n1\<rparr>"
proof -
  have set: "rest_of (dict_set ''enrichments'' v r) = rest_of r" for v r by (simp add: promoted_keys_def)
  show "stage_error x" if "enrich_process enabled chain n p = (Inl x, p1)"
    using that promote_error by (auto simp: enrich_process_def bind_res_def Let_def split: option.splits sum.splits prod.splits if_splits)
  show "rest_of (ocsf n1) = rest_of (ocsf n) \<and> n1 = n\<lparr>ocsf := ocsf n1, enrichment := enrichment n1\<rparr>"
    if "enrich_process enabled chain n p = (Inr n1, p1)"
    using that promote_rest [of "dict_set ''enrichments'' _ (ocsf n)"] set
    by (fastforce simp: enrich_process_def bind_res_def Let_def split: option.splits sum.splits prod.splits if_splits)
qed

section \<open>Properties\<close>

text \<open>
  While a worker is free for every call, the chain's result is the contributions of the enrichers that returned a
  dictionary within the limit, later ones overriding: an enricher that raises, overruns or returns something else
  is skipped and takes nothing from the others.
\<close>

theorem enrich_skips_failures:
  assumes "py_get rec ''enrichments'' = PNone" and "wp_busy p + length (filter (overruns rec) es) < wp_workers p"
  shows "fst (enrich_record es rec p) =
    Inr (dict_set ''enrichments'' (PDict (fold (\<lambda>e m. dict_update m (contribution rec e)) es [])) rec)"
proof -
  obtain d p1 where run: "run_enrichers es rec [] p = (d, p1)" by (cases "run_enrichers es rec [] p")
  note run_enrichers_free [OF assms(2) run]
  then show ?thesis using assms(1) run by (simp add: enrich_record_def)
qed

theorem enrich_skips_failures_witness:
  "fst (enrich_record [(''threat'', \<lambda>_. Raises (KeyError ''feed'')), (''geoip'', \<lambda>_. Overruns), (''attack'', \<lambda>_. Returns (PDict [(''attack'', PInt 7)]))]
       [(''class_uid'', PInt 4001)] \<lparr>wp_workers = 3, wp_busy = 0, wp_warnings = []\<rparr>)
     = Inr [(''class_uid'', PInt 4001), (''enrichments'', PDict [(''attack'', PInt 7)])]"
  using enrich_skips_failures [of "[(''class_uid'', PInt 4001)]" "\<lparr>wp_workers = 3, wp_busy = 0, wp_warnings = []\<rparr>"
      "[(''threat'', \<lambda>_. Raises (KeyError ''feed'')), (''geoip'', \<lambda>_. Overruns), (''attack'', \<lambda>_. Returns (PDict [(''attack'', PInt 7)]))]"]
  by (simp add: py_get_Cons overruns_def contribution_def)

text \<open>
  An enricher that never returns takes a worker with every record until there is none: from the eighth record on
  the whole chain, the working enrichers included, is skipped for every record.
\<close>

theorem hung_enricher_starves_chain:
  assumes "py_get rec ''enrichments'' = PNone" and "8 \<le> n"
  shows "fst (enrich_record ((name, \<lambda>_. Overruns) # es) rec
          ((pool_after ((name, \<lambda>_. Overruns) # es) rec ^^ n) (new_pool ((name, \<lambda>_. Overruns) # es))))
     = Inr (dict_set ''enrichments'' (PDict []) rec)"
proof -
  let ?es = "(name, \<lambda>_. Overruns) # es"
  let ?p = "(pool_after ?es rec ^^ n) (new_pool ?es)"
  have "wp_workers ?p \<le> wp_busy ?p"
    using hung_takes_workers [OF assms(1), of "new_pool ?es" n name es] assms(2)
    by (simp only: new_pool_def worker_pool.select_convs) linarith
  from run_enrichers_starved [OF this, of ?es rec "[]"]
  obtain q where "run_enrichers ?es rec [] ?p = ([], q)" by (metis prod.collapse)
  then show ?thesis using assms(1) by (simp only: enrich_record_def) simp
qed

theorem hung_enricher_starves_chain_witness:
  "fst (enrich_record [(''geoip'', \<lambda>_. Overruns), (''attack'', \<lambda>_. Returns (PDict [(''attack'', PInt 7)]))] [(''class_uid'', PInt 4001)]
      ((pool_after [(''geoip'', \<lambda>_. Overruns), (''attack'', \<lambda>_. Returns (PDict [(''attack'', PInt 7)]))] [(''class_uid'', PInt 4001)] ^^ 8)
        (new_pool [(''geoip'', \<lambda>_. Overruns), (''attack'', \<lambda>_. Returns (PDict [(''attack'', PInt 7)]))])))
    = Inr [(''class_uid'', PInt 4001), (''enrichments'', PDict [])]"
  using hung_enricher_starves_chain [of "[(''class_uid'', PInt 4001)]" 8 "''geoip''" "[(''attack'', \<lambda>_. Returns (PDict [(''attack'', PInt 7)]))]"]
  by (simp add: py_get_Cons del: funpow.simps)

text \<open>
  The stage changes \<^verbatim>\<open>enrichments\<close>, the two endpoints and \<^verbatim>\<open>connection_info\<close> of the record and the event's enrichment, nothing
  else; the only exceptions that leave it are the attribute and type errors of a promoted value of an unexpected
  type.
\<close>

theorem enrich_stage_frame:
  "case fst (enrich_process enabled chain n p) of
     Inl x \<Rightarrow> stage_error x
   | Inr n' \<Rightarrow> rest_of (ocsf n') = rest_of (ocsf n) \<and> n' = n\<lparr>ocsf := ocsf n', enrichment := enrichment n'\<rparr>"
  using enrich_outcome [of enabled chain n p] by (cases "enrich_process enabled chain n p") (auto split: sum.split)

end
