(* ===== verification/Clickhouse_Sink.thy ===== *)
theory Clickhouse_Sink
  imports Parquet_Sink
begin

text \<open>
  The ClickHouse sink of \<^verbatim>\<open>ulpf/sinks/clickhouse_sink.py\<close>: a bounded buffer, batches posted with retries, and a
  spool of rows that were refused or left over at shutdown. The server is the list of its replies, each with the
  clock reading at which it arrives; a coroutine that has no reply left is waiting (\<open>None\<close>). Batch and buffer
  sizes and the number of retries are not negative. Names of spool files are fresh.
\<close>

section \<open>Replies\<close>

datatype http_reply = NoResponse | Status int

datatype attempt = Sent | Retry | Fatal

text \<open>How \<^verbatim>\<open>_post\<close> reads a reply; every failure to create the table may be retried.\<close>

definition post_outcome :: "http_reply \<Rightarrow> attempt" where
  "post_outcome r =
     (case r of
        NoResponse \<Rightarrow> Retry
      | Status c \<Rightarrow> if c < 300 then Sent else if c = 429 \<or> 500 \<le> c then Retry else Fatal)"

definition table_created :: "http_reply \<Rightarrow> bool" where
  "table_created r = (case r of NoResponse \<Rightarrow> False | Status c \<Rightarrow> c < 300)"

type_synonym replies = "(int \<times> http_reply) list"

section \<open>State\<close>

record clickhouse =
  ch_enabled :: bool
  ch_batch_rows :: nat
  ch_max_buffer :: nat
  ch_max_retries :: nat
  ch_patience :: int
  ch_buffer :: "pydict list"
  ch_started :: bool
  ch_table_ready :: bool
  ch_down_since :: "int option"
  ch_rows_delivered :: nat
  ch_batches_delivered :: nat
  ch_rows_spooled :: nat
  ch_spool :: "(string \<times> string) list"
  ch_server :: "pydict list"

definition compact_json :: "pyval \<Rightarrow> pyval" where
  "compact_json v = PStr (json_dumps (sort_json (py_or v (PDict []))))"

definition ch_row :: "normalized_event \<Rightarrow> pydict res" where
  "ch_row n =
     bind_res (core_row n) (\<lambda>row.
       let r1 = (if py_get row ''time'' = PNone then dict_set ''time'' (PInt (n_ingest_time_ns n)) row else row);
           r2 = dict_set ''source_type'' (PStr (if n_source_type n = [] then ''unknown'' else n_source_type n)) r1;
           r3 = dict_set ''unmapped'' (compact_json (py_get (ocsf n) ''unmapped'')) r2
       in Inr (dict_set ''enrichments'' (compact_json (py_or (py_get (ocsf n) ''enrichments'') (PDict (enrichment n)))) r3))"

definition ch_pending :: "clickhouse \<Rightarrow> nat" where
  "ch_pending s = length (ch_buffer s)"

definition ch_degraded :: "int \<Rightarrow> clickhouse \<Rightarrow> bool" where
  "ch_degraded now s = (case ch_down_since s of None \<Rightarrow> False | Some t \<Rightarrow> ch_patience s \<le> now - t)"

section \<open>The spool\<close>

definition spool_text :: "pydict list \<Rightarrow> string" where
  "spool_text rows = join_with [CHR 0x0A] (map (\<lambda>r. json_dumps (PDict r)) rows) @ [CHR 0x0A]"

definition spool_rows :: "string \<Rightarrow> pydict list \<Rightarrow> clickhouse \<Rightarrow> clickhouse" where
  "spool_rows name rows s =
     s\<lparr>ch_spool := ch_spool s @ [(name, spool_text rows)], ch_rows_spooled := ch_rows_spooled s + length rows\<rparr>"

definition spool_name :: "(nat \<Rightarrow> string) \<Rightarrow> clickhouse \<Rightarrow> string" where
  "spool_name names s = names (ch_rows_spooled s)"

definition read_spool :: "string \<Rightarrow> pydict list res" where
  "read_spool text =
     map_res (\<lambda>l. case json_loads l of Some (PDict r) \<Rightarrow> Inr r | Some _ \<Rightarrow> Inl (TypeError ''row'') | None \<Rightarrow> Inl (ValueError ''JSONDecodeError''))
       (filter (\<lambda>l. py_strip l \<noteq> []) (py_splitlines text))"

fun reload_files :: "(string \<times> string) list \<Rightarrow> clickhouse \<Rightarrow> exn option \<times> clickhouse" where
  "reload_files [] s = (None, s)"
| "reload_files ((name, text) # fs) s =
     (case read_spool text of
        Inl x \<Rightarrow> (Some x, s)
      | Inr rows \<Rightarrow> reload_files fs (s\<lparr>ch_buffer := rows @ ch_buffer s, ch_spool := fs\<rparr>))"

definition reload_spool :: "clickhouse \<Rightarrow> exn option \<times> clickhouse" where
  "reload_spool s = (let fs = sort_key fst (ch_spool s) in reload_files fs (s\<lparr>ch_spool := fs\<rparr>))"

section \<open>Delivery\<close>

definition note_failure :: "int \<Rightarrow> clickhouse \<Rightarrow> clickhouse" where
  "note_failure now s = (if ch_down_since s = None then s\<lparr>ch_down_since := Some now\<rparr> else s)"

definition note_success :: "pydict list \<Rightarrow> clickhouse \<Rightarrow> clickhouse" where
  "note_success rows s =
     s\<lparr>ch_down_since := None, ch_rows_delivered := ch_rows_delivered s + length rows,
       ch_batches_delivered := ch_batches_delivered s + 1, ch_server := ch_server s @ rows\<rparr>"

text \<open>One attempt: the table first, when it is not known to exist.\<close>

definition ch_attempt :: "replies \<Rightarrow> clickhouse \<Rightarrow> (attempt \<times> int) option \<times> clickhouse \<times> replies" where
  "ch_attempt rs s =
     (case rs of
        [] \<Rightarrow> (None, s, [])
      | (now, r) # rs1 \<Rightarrow>
          if ch_table_ready s then (Some (post_outcome r, now), s, rs1)
          else if \<not> table_created r then (Some (Retry, now), s, rs1)
          else (case rs1 of
                  [] \<Rightarrow> (None, s\<lparr>ch_table_ready := True\<rparr>, [])
                | (now2, r2) # rs2 \<Rightarrow> (Some (post_outcome r2, now2), s\<lparr>ch_table_ready := True\<rparr>, rs2)))"

fun ch_deliver :: "(nat \<Rightarrow> string) \<Rightarrow> pydict list \<Rightarrow> nat \<Rightarrow> replies \<Rightarrow> clickhouse \<Rightarrow> bool option \<times> clickhouse \<times> replies" where
  "ch_deliver names rows 0 rs s = (Some False, s, rs)"
| "ch_deliver names rows (Suc k) rs s =
     (case ch_attempt rs s of
        (None, s1, rs1) \<Rightarrow> (None, s1, rs1)
      | (Some (Fatal, now), s1, rs1) \<Rightarrow> (Some True, spool_rows (spool_name names s1) rows s1, rs1)
      | (Some (Retry, now), s1, rs1) \<Rightarrow> ch_deliver names rows k rs1 (note_failure now s1)
      | (Some (Sent, now), s1, rs1) \<Rightarrow> (Some True, note_success rows s1, rs1))"

definition drain_once :: "(nat \<Rightarrow> string) \<Rightarrow> replies \<Rightarrow> clickhouse \<Rightarrow> bool option \<times> clickhouse \<times> replies" where
  "drain_once names rs s =
     (if ch_buffer s = [] then (Some False, s, rs)
      else (let batch = take (ch_batch_rows s) (ch_buffer s)
            in case ch_deliver names batch (ch_max_retries s + 1) rs s of
                 (Some True, s1, rs1) \<Rightarrow> (Some True, s1\<lparr>ch_buffer := drop (length batch) (ch_buffer s1)\<rparr>, rs1)
               | r \<Rightarrow> r))"

section \<open>Operations\<close>

lemma attempt_consumes: "ch_attempt rs s = (Some a, s1, rs1) \<Longrightarrow> length rs1 < length rs"
  by (auto simp: ch_attempt_def split: list.splits if_splits)

lemma deliver_consumes: "ch_deliver names rows k rs s = (Some b, s1, rs1) \<Longrightarrow> length rs1 \<le> length rs \<and> (0 < k \<longrightarrow> length rs1 < length rs)"
proof (induction names rows k rs s rule: ch_deliver.induct)
  case (2 names rows k rs s)
  then show ?case
    by (auto split: prod.splits option.splits attempt.splits dest!: attempt_consumes) force+
qed simp

lemma drain_consumes: "drain_once names rs s = (Some b, s1, rs1) \<Longrightarrow> ch_buffer s \<noteq> [] \<Longrightarrow> length rs1 < length rs"
  using deliver_consumes [of names "take (ch_batch_rows s) (ch_buffer s)" "ch_max_retries s + 1" rs s]
  by (auto simp: drain_once_def Let_def split: prod.splits option.splits bool.splits)

text \<open>A full buffer holds the caller until rows have left it.\<close>

function wait_for_room :: "(nat \<Rightarrow> string) \<Rightarrow> replies \<Rightarrow> clickhouse \<Rightarrow> unit option \<times> clickhouse \<times> replies" where
  "wait_for_room names rs s =
     (if length (ch_buffer s) < ch_max_buffer s then (Some (), s, rs)
      else if ch_buffer s = [] then (None, s, rs)
      else case drain_once names rs s of
             (None, s1, rs1) \<Rightarrow> (None, s1, rs1)
           | (Some b, s1, rs1) \<Rightarrow> wait_for_room names rs1 s1)"
  by pat_completeness auto
termination
  by (relation "measure (\<lambda>(names, rs, s). length rs)") (auto dest!: drain_consumes [OF sym])

declare wait_for_room.simps [simp del]

definition ch_write :: "(nat \<Rightarrow> string) \<Rightarrow> replies \<Rightarrow> normalized_event \<Rightarrow> clickhouse \<Rightarrow> unit res option \<times> clickhouse \<times> replies" where
  "ch_write names rs n s =
     (if \<not> ch_enabled s then (Some (Inr ()), s, rs)
      else if \<not> ch_started s then (Some (Inl (RuntimeError ''ClickHouseSink.write() before start()'')), s, rs)
      else case ch_row n of
        Inl x \<Rightarrow> (Some (Inl x), s, rs)
      | Inr row \<Rightarrow>
          (let s1 = s\<lparr>ch_buffer := ch_buffer s @ [row]\<rparr>
           in case (if ch_batch_rows s1 \<le> length (ch_buffer s1) then drain_once names rs s1 else (Some False, s1, rs)) of
                (None, s2, rs2) \<Rightarrow> (None, s2, rs2)
              | (Some b, s2, rs2) \<Rightarrow>
                  (case wait_for_room names rs2 s2 of
                     (None, s3, rs3) \<Rightarrow> (None, s3, rs3) | (Some _, s3, rs3) \<Rightarrow> (Some (Inr ()), s3, rs3))))"

function ch_flush :: "(nat \<Rightarrow> string) \<Rightarrow> replies \<Rightarrow> clickhouse \<Rightarrow> unit option \<times> clickhouse \<times> replies" where
  "ch_flush names rs s =
     (if \<not> ch_enabled s \<or> ch_buffer s = [] then (Some (), s, rs)
      else case drain_once names rs s of
             (None, s1, rs1) \<Rightarrow> (None, s1, rs1)
           | (Some False, s1, rs1) \<Rightarrow> (Some (), s1, rs1)
           | (Some True, s1, rs1) \<Rightarrow> ch_flush names rs1 s1)"
  by pat_completeness auto
termination
  by (relation "measure (\<lambda>(names, rs, s). length rs)") (auto dest!: drain_consumes [OF sym])

declare ch_flush.simps [simp del]

fun drain_times :: "nat \<Rightarrow> (nat \<Rightarrow> string) \<Rightarrow> replies \<Rightarrow> clickhouse \<Rightarrow> unit option \<times> clickhouse \<times> replies" where
  "drain_times 0 names rs s = (Some (), s, rs)"
| "drain_times (Suc k) names rs s =
     (if ch_buffer s = [] then (Some (), s, rs)
      else case drain_once names rs s of
             (None, s1, rs1) \<Rightarrow> (None, s1, rs1) | (Some b, s1, rs1) \<Rightarrow> drain_times k names rs1 s1)"

definition ch_close :: "(nat \<Rightarrow> string) \<Rightarrow> replies \<Rightarrow> clickhouse \<Rightarrow> unit option \<times> clickhouse \<times> replies" where
  "ch_close names rs s =
     (if \<not> ch_enabled s \<or> \<not> ch_started s then (Some (), s, rs)
      else case drain_times (ch_max_retries s + 2) names rs s of
             (None, s1, rs1) \<Rightarrow> (None, s1, rs1)
           | (Some _, s1, rs1) \<Rightarrow>
               (let s2 = (if ch_buffer s1 = [] then s1
                          else (spool_rows (spool_name names s1) (ch_buffer s1) s1)\<lparr>ch_buffer := []\<rparr>)
                in (Some (), s2\<lparr>ch_started := False\<rparr>, rs1)))"

text \<open>A failure to create the table is not fatal at the start.\<close>

definition ch_start :: "replies \<Rightarrow> clickhouse \<Rightarrow> unit res option \<times> clickhouse \<times> replies" where
  "ch_start rs s =
     (if \<not> ch_enabled s \<or> ch_started s then (Some (Inr ()), s, rs)
      else case rs of
        [] \<Rightarrow> (None, s, [])
      | (now, r) # rs1 \<Rightarrow>
          (let s1 = (if table_created r then s\<lparr>ch_table_ready := True\<rparr> else s)
           in case reload_spool s1 of
                (Some x, s2) \<Rightarrow> (Some (Inl x), s2, rs1)
              | (None, s2) \<Rightarrow> (Some (Inr ()), s2\<lparr>ch_started := True\<rparr>, rs1)))"

section \<open>No row is dropped\<close>

definition row_ok :: "pydict \<Rightarrow> bool" where
  "row_ok r \<longleftrightarrow> json_ok (PDict r)"

definition rows_in :: "string \<Rightarrow> pydict list" where
  "rows_in text = (case read_spool text of Inr rows \<Rightarrow> rows | Inl _ \<Rightarrow> [])"

definition spooled_rows :: "clickhouse \<Rightarrow> pydict list" where
  "spooled_rows s = concat (map (rows_in \<circ> snd) (ch_spool s))"

definition files_ok :: "clickhouse \<Rightarrow> bool" where
  "files_ok s \<longleftrightarrow> list_all (\<lambda>f. \<exists>rows. list_all row_ok rows \<and> snd f = spool_text rows) (ch_spool s)"

lemma json_line_not_blank: "py_strip (json_dumps (PDict r)) \<noteq> []"
  by (simp add: py_strip_Nil_iff is_space_def)

lemma json_line_clean: "row_ok r \<Longrightarrow> c \<in> set (json_dumps (PDict r)) \<Longrightarrow> \<not> is_line_end c"
  by (metis json_dumps_printable(1) printable_not_line_end row_ok_def)

lemma join_terminated: "xs \<noteq> [] \<Longrightarrow> join_with sep xs @ sep = concat (map (\<lambda>x. x @ sep) xs)"
  by (induction sep xs rule: join_with.induct) auto

text \<open>A spool file is read back exactly.\<close>

lemma read_spool_text:
  assumes "list_all row_ok rows"
  shows "read_spool (spool_text rows) = Inr rows"
proof (cases "rows = []")
  case True
  then show ?thesis by (simp add: spool_text_def read_spool_def py_splitlines_def is_line_end_def skip_lf_def py_strip_def
        rstrip_by_def lstrip_by_def)
next
  case False
  have "spool_text rows = concat (map (\<lambda>r. json_dumps (PDict r) @ [CHR 0x0A]) rows)"
    using False join_terminated [of "map (\<lambda>r. json_dumps (PDict r)) rows" "[CHR 0x0A]"]
    by (simp add: spool_text_def o_def del: json_dumps.simps)
  moreover have "\<forall>r \<in> set rows. \<forall>c \<in> set (json_dumps (PDict r)). \<not> is_line_end c"
    using assms json_line_clean by (auto simp: list_all_iff simp del: json_dumps.simps)
  ultimately have "py_splitlines (spool_text rows) = map (\<lambda>r. json_dumps (PDict r)) rows"
    using splitlines_terminated [of rows "\<lambda>r. json_dumps (PDict r)"] by (simp del: json_dumps.simps)
  moreover have "filter (\<lambda>l. py_strip l \<noteq> []) (map (\<lambda>r. json_dumps (PDict r)) rs) = map (\<lambda>r. json_dumps (PDict r)) rs" for rs
    by (simp add: filter_id_conv json_line_not_blank del: json_dumps.simps)
  ultimately show ?thesis
    using assms
    by (auto simp: read_spool_def map_res_Inr_iff list_all2_conv_all_nth list_all_length row_ok_def json_loads_dumps simp del: json_dumps.simps)
qed

lemma rows_in_text [simp]: "list_all row_ok rows \<Longrightarrow> rows_in (spool_text rows) = rows"
  by (simp add: rows_in_def read_spool_text)

definition ch_keeps :: "pydict list \<Rightarrow> clickhouse \<Rightarrow> bool" where
  "ch_keeps acc s \<longleftrightarrow> list_all row_ok acc \<and> files_ok s \<and>
     mset acc = mset (ch_server s) + mset (ch_buffer s) + mset (spooled_rows s)"

definition same_config :: "clickhouse \<Rightarrow> clickhouse \<Rightarrow> bool" where
  "same_config s s' \<longleftrightarrow> ch_enabled s' = ch_enabled s \<and> ch_started s' = ch_started s \<and> ch_batch_rows s' = ch_batch_rows s
     \<and> ch_max_buffer s' = ch_max_buffer s \<and> ch_max_retries s' = ch_max_retries s"

lemma same_config_refl [simp]: "same_config s s"
  and same_config_trans: "same_config s s' \<Longrightarrow> same_config s' s'' \<Longrightarrow> same_config s s''"
  by (auto simp: same_config_def)

lemma spool_rows_frame [simp]:
  "ch_buffer (spool_rows name rows s) = ch_buffer s" "ch_server (spool_rows name rows s) = ch_server s"
  "same_config s (spool_rows name rows s')  = same_config s s'"
  by (simp_all add: spool_rows_def same_config_def)

lemma spool_rows_effect:
  assumes "list_all row_ok rows"
  shows "spooled_rows (spool_rows name rows s) = spooled_rows s @ rows" "files_ok s \<Longrightarrow> files_ok (spool_rows name rows s)"
  using assms by (auto simp: spool_rows_def spooled_rows_def files_ok_def)

lemma ch_attempt_frame: "ch_attempt rs s = (a, s1, rs1) \<Longrightarrow> s1 = s \<or> s1 = s\<lparr>ch_table_ready := True\<rparr>"
  by (auto simp: ch_attempt_def split: list.splits if_splits)

text \<open>A delivery that is handled has moved the rows to the server or to the spool; any other has moved nothing.\<close>

lemma ch_deliver_keeps:
  "list_all row_ok rows \<Longrightarrow> ch_deliver names rows k rs s = (b, s1, rs1) \<Longrightarrow> files_ok s \<Longrightarrow>
    files_ok s1 \<and> same_config s s1 \<and> ch_buffer s1 = ch_buffer s \<and>
    mset (ch_server s1) + mset (spooled_rows s1) = mset (ch_server s) + mset (spooled_rows s) + (if b = Some True then mset rows else {#})"
proof (induction names rows k rs s rule: ch_deliver.induct)
  case (2 names rows k rs s)
  obtain a s' rs' where a: "ch_attempt rs s = (a, s', rs')" by (cases "ch_attempt rs s")
  have s': "files_ok s'" "same_config s s'" "ch_buffer s' = ch_buffer s" "ch_server s' = ch_server s" "spooled_rows s' = spooled_rows s"
    using ch_attempt_frame [OF a] "2.prems"(3) by (auto simp: files_ok_def same_config_def spooled_rows_def)
  show ?case
  proof (cases a)
    case None
    then show ?thesis using "2.prems" a s' by auto
  next
    case (Some an)
    obtain o' now where an: "an = (o', now)" by (cases an)
    show ?thesis
    proof (cases o')
      case Sent
      then show ?thesis using "2.prems" a s' Some an by (auto simp: note_success_def files_ok_def same_config_def spooled_rows_def)
    next
      case Fatal
      then show ?thesis
        using "2.prems" a s' Some an by (auto simp: spool_rows_effect [OF "2.prems"(1)] ac_simps)
    next
      case Retry
      have "files_ok (note_failure now s')" "same_config s (note_failure now s')" "ch_buffer (note_failure now s') = ch_buffer s"
        "ch_server (note_failure now s') = ch_server s" "spooled_rows (note_failure now s') = spooled_rows s"
        using s' by (auto simp: note_failure_def files_ok_def same_config_def spooled_rows_def)
      then show ?thesis
        using "2.IH" [OF a [symmetric] Some an [symmetric] Retry refl] "2.prems" a Some an Retry
        by (auto intro: same_config_trans)
    qed
  qed
qed auto

lemma ch_keeps_buffer [simp]:
  "files_ok (s\<lparr>ch_buffer := b\<rparr>) = files_ok s" "spooled_rows (s\<lparr>ch_buffer := b\<rparr>) = spooled_rows s"
  "files_ok (s\<lparr>ch_started := x\<rparr>) = files_ok s" "spooled_rows (s\<lparr>ch_started := x\<rparr>) = spooled_rows s"
  "same_config s (s'\<lparr>ch_buffer := b\<rparr>) = same_config s s'"
  by (simp_all add: files_ok_def spooled_rows_def same_config_def)

lemma ch_keeps_rows_ok: "ch_keeps acc s \<Longrightarrow> list_all row_ok (ch_buffer s)"
  unfolding ch_keeps_def list_all_iff by (metis UnCI set_mset_mset set_mset_union)

lemma drain_once_keeps:
  assumes kept: "ch_keeps acc s" and d: "drain_once names rs s = (b, s1, rs1)"
  shows "ch_keeps acc s1 \<and> same_config s s1"
proof (cases "ch_buffer s = []")
  case True
  then show ?thesis using kept d by (simp add: drain_once_def)
next
  case False
  let ?batch = "take (ch_batch_rows s) (ch_buffer s)"
  obtain b' s' rs' where del: "ch_deliver names ?batch (ch_max_retries s + 1) rs s = (b', s', rs')"
    by (cases "ch_deliver names ?batch (ch_max_retries s + 1) rs s")
  have "list_all row_ok ?batch" using ch_keeps_rows_ok [OF kept] by (auto simp: list_all_iff dest: in_set_takeD)
  from ch_deliver_keeps [OF this del] kept
  have s': "files_ok s'" "same_config s s'" "ch_buffer s' = ch_buffer s"
    "mset (ch_server s') + mset (spooled_rows s') = mset (ch_server s) + mset (spooled_rows s) + (if b' = Some True then mset ?batch else {#})"
    by (auto simp: ch_keeps_def)
  have split: "mset (ch_buffer s) = mset ?batch + mset (drop (length ?batch) (ch_buffer s))"
    by (metis append_eq_conv_conj append_take_drop_id length_take mset_append)
  show ?thesis
  proof (cases "b' = Some True")
    case True
    then have s1: "s1 = s'\<lparr>ch_buffer := drop (length ?batch) (ch_buffer s')\<rparr>"
      using d False del by (auto simp: drain_once_def Let_def)
    have "mset (ch_server s1) + mset (ch_buffer s1) + mset (spooled_rows s1) = mset (ch_server s) + mset (ch_buffer s) + mset (spooled_rows s)"
      using s' True split by (simp add: s1 ac_simps)
    then show ?thesis using kept s' by (simp add: s1 ch_keeps_def)
  next
    case no: False
    then have "s1 = s'"
      using d False del by (auto simp: drain_once_def Let_def split: option.splits bool.splits)
    then show ?thesis using kept s' no by (auto simp: ch_keeps_def ac_simps)
  qed
qed

lemma wait_for_room_keeps:
  "ch_keeps acc s \<Longrightarrow> wait_for_room names rs s = (b, s1, rs1) \<Longrightarrow> ch_keeps acc s1 \<and> same_config s s1"
proof (induction names rs s rule: wait_for_room.induct)
  case (1 names rs s)
  show ?case
  proof (cases "length (ch_buffer s) < ch_max_buffer s \<or> ch_buffer s = []")
    case True
    then show ?thesis using "1.prems" by (subst (asm) wait_for_room.simps) (auto split: if_splits)
  next
    case False
    obtain d s' rs' where d: "drain_once names rs s = (d, s', rs')" by (cases "drain_once names rs s")
    note kept = drain_once_keeps [OF "1.prems"(1) d]
    show ?thesis
    proof (cases d)
      case None
      then show ?thesis using "1.prems"(2) False d kept by (subst (asm) wait_for_room.simps) auto
    next
      case (Some x)
      then have "wait_for_room names rs' s' = (b, s1, rs1)"
        using "1.prems"(2) False d by (subst (asm) wait_for_room.simps) auto
      then show ?thesis using "1.IH" [OF _ _ d [symmetric] Some refl] False kept same_config_trans by blast
    qed
  qed
qed

lemma ch_flush_keeps:
  "ch_keeps acc s \<Longrightarrow> ch_flush names rs s = (b, s1, rs1) \<Longrightarrow> ch_keeps acc s1 \<and> same_config s s1"
proof (induction names rs s rule: ch_flush.induct)
  case (1 names rs s)
  show ?case
  proof (cases "\<not> ch_enabled s \<or> ch_buffer s = []")
    case True
    then show ?thesis using "1.prems" by (subst (asm) ch_flush.simps) (auto split: if_splits)
  next
    case False
    obtain d s' rs' where d: "drain_once names rs s = (d, s', rs')" by (cases "drain_once names rs s")
    note kept = drain_once_keeps [OF "1.prems"(1) d]
    show ?thesis
    proof (cases "d = Some True")
      case True
      then have "ch_flush names rs' s' = (b, s1, rs1)"
        using "1.prems"(2) False d by (subst (asm) ch_flush.simps) auto
      then show ?thesis using "1.IH" [OF _ d [symmetric]] True False kept same_config_trans by blast
    next
      case no: False
      then show ?thesis
        using "1.prems"(2) False d kept by (subst (asm) ch_flush.simps) (auto split: option.splits bool.splits)
    qed
  qed
qed

lemma drain_times_keeps:
  "ch_keeps acc s \<Longrightarrow> drain_times k names rs s = (b, s1, rs1) \<Longrightarrow> ch_keeps acc s1 \<and> same_config s s1"
proof (induction k arbitrary: rs s)
  case (Suc k)
  obtain d s' rs' where d: "drain_once names rs s = (d, s', rs')" by (cases "drain_once names rs s")
  note kept = drain_once_keeps [OF Suc.prems(1) d]
  show ?case
    using Suc.prems Suc.IH [of s' rs'] d kept
    by (cases d) (auto split: if_splits intro: same_config_trans)
qed auto

lemma json_ok_set:
  "list_all (\<lambda>p. json_ok (snd p)) d \<Longrightarrow> json_ok v \<Longrightarrow> list_all (\<lambda>p. json_ok (snd p)) (dict_set k v d)"
  by (induction d) auto

lemma ch_row_ok: "ch_row n = Inr row \<Longrightarrow> row_ok row"
proof -
  assume "ch_row n = Inr row"
  then obtain core where core: "core_row n = Inr core"
    and row: "row = dict_set ''enrichments'' (compact_json (py_or (py_get (ocsf n) ''enrichments'') (PDict (enrichment n))))
      (dict_set ''unmapped'' (compact_json (py_get (ocsf n) ''unmapped''))
        (dict_set ''source_type'' (PStr (if n_source_type n = [] then ''unknown'' else n_source_type n))
          (if py_get core ''time'' = PNone then dict_set ''time'' (PInt (n_ingest_time_ns n)) core else core)))"
    by (auto simp: ch_row_def bind_res_Inr_iff Let_def)
  have int: "as_int v = Inr w \<Longrightarrow> json_ok w" for v w
    by (auto simp: as_int_def bind_res_Inr_iff opt_int_def split: option.splits)
  have strs: "json_ok (as_str v)" for v by (simp add: as_str_def)
  have vals: "dict_ok core \<and> list_all (\<lambda>p. json_ok (snd p)) core"
    using core int strs
    by (auto simp: core_row_def bind_res_Inr_iff Let_def dict_ok_def)
  show "row_ok row"
    using vals by (auto simp: row_ok_def row compact_json_def json_ok_set)
qed

lemma ch_close_keeps:
  assumes kept: "ch_keeps acc s" and c: "ch_close names rs s = (b, s1, rs1)"
  shows "ch_keeps acc s1"
proof (cases "\<not> ch_enabled s \<or> \<not> ch_started s")
  case True
  then show ?thesis using assms by (auto simp: ch_close_def)
next
  case False
  obtain d s' rs' where d: "drain_times (ch_max_retries s + 2) names rs s = (d, s', rs')"
    by (cases "drain_times (ch_max_retries s + 2) names rs s")
  have k: "ch_keeps acc s'" using drain_times_keeps [OF kept d] by blast
  show ?thesis
  proof (cases "d = None \<or> ch_buffer s' = []")
    case True
    then show ?thesis using c False d k by (auto simp: ch_close_def ch_keeps_def split: option.splits)
  next
    case no: False
    then have "s1 = (spool_rows (spool_name names s') (ch_buffer s') s')\<lparr>ch_buffer := [], ch_started := False\<rparr>"
      using c False d by (auto simp: ch_close_def Let_def)
    then show ?thesis
      using k spool_rows_effect [OF ch_keeps_rows_ok [OF k]] by (simp add: ch_keeps_def ac_simps)
  qed
qed

lemma reload_files_keeps:
  "reload_files fs s = (x, s1) \<Longrightarrow> ch_spool s = fs \<Longrightarrow> ch_keeps acc s \<Longrightarrow> ch_keeps acc s1 \<and> x = None \<and> ch_spool s1 = []"
proof (induction fs s rule: reload_files.induct)
  case (2 name content fs s)
  obtain rows where rows: "list_all row_ok rows" "content = spool_text rows"
    using "2.prems"(2) "2.prems"(3) by (auto simp: ch_keeps_def files_ok_def)
  let ?s = "s\<lparr>ch_buffer := rows @ ch_buffer s, ch_spool := fs\<rparr>"
  have "ch_keeps acc ?s"
    using "2.prems"(2,3) rows by (auto simp: ch_keeps_def files_ok_def spooled_rows_def ac_simps)
  then show ?case
    using "2.IH" [of rows] "2.prems"(1) rows by (simp add: read_spool_text)
qed simp

lemma mset_concat_sort: "mset (concat (map g (sort_key f xs))) = mset (concat (map g xs))"
  by (simp add: mset_concat flip: sum_mset_sum_list)

lemma ch_start_keeps:
  assumes kept: "ch_keeps acc s" and c: "ch_start rs s = (b, s1, rs1)"
  shows "ch_keeps acc s1 \<and> (\<forall>x. b \<noteq> Some (Inl x))"
proof (cases "\<not> ch_enabled s \<or> ch_started s \<or> rs = []")
  case True
  then show ?thesis using assms by (cases rs) (auto simp: ch_start_def split: if_splits)
next
  case False
  then obtain now r rs' where rs: "rs = (now, r) # rs'" by (cases rs) auto
  let ?s1 = "if table_created r then s\<lparr>ch_table_ready := True\<rparr> else s"
  let ?fs = "sort_key fst (ch_spool ?s1)"
  let ?s2 = "?s1\<lparr>ch_spool := ?fs\<rparr>"
  have "mset (spooled_rows ?s2) = mset (spooled_rows s)"
    by (simp add: spooled_rows_def mset_concat_sort)
  then have k: "ch_keeps acc ?s2" using kept by (simp add: ch_keeps_def files_ok_def list_all_iff)
  obtain x s3 where l: "reload_files ?fs ?s2 = (x, s3)" by (cases "reload_files ?fs ?s2")
  have "ch_keeps acc s3 \<and> x = None" using reload_files_keeps [OF l _ k] by simp
  then show ?thesis
    using c False l by (auto simp: ch_start_def rs reload_spool_def Let_def ch_keeps_def split: if_splits)
qed

lemma reload_files_server: "reload_files fs s = (x, s1) \<Longrightarrow> ch_server s1 = ch_server s"
  by (induction fs s rule: reload_files.induct) (auto split: sum.splits)

lemma ch_start_spool:
  assumes kept: "ch_keeps acc s" and c: "ch_start [(now, r)] s = (b, s1, rs1)" and "ch_enabled s" "\<not> ch_started s"
  shows "ch_spool s1 = [] \<and> ch_server s1 = ch_server s"
proof -
  let ?s1 = "if table_created r then s\<lparr>ch_table_ready := True\<rparr> else s"
  let ?fs = "sort_key fst (ch_spool ?s1)"
  let ?s2 = "?s1\<lparr>ch_spool := ?fs\<rparr>"
  have k: "ch_keeps acc ?s2"
    using kept by (simp add: ch_keeps_def files_ok_def list_all_iff spooled_rows_def mset_concat_sort)
  obtain x s3 where l: "reload_files ?fs ?s2 = (x, s3)" by (cases "reload_files ?fs ?s2")
  have "x = None \<and> ch_spool s3 = [] \<and> ch_server s3 = ch_server s"
    using reload_files_keeps [OF l _ k] reload_files_server [OF l] by simp
  then show ?thesis
    using assms l by (auto simp: ch_start_def reload_spool_def Let_def split: if_splits)
qed

section \<open>Any use of the sink\<close>

datatype ch_op = ChStart replies | ChWrite replies normalized_event | ChTick replies | ChFlush replies | ChClose replies

definition ch_accepts :: "ch_op \<Rightarrow> clickhouse \<Rightarrow> pydict list" where
  "ch_accepts k s =
     (case k of
        ChWrite _ n \<Rightarrow> if ch_enabled s \<and> ch_started s then (case ch_row n of Inr row \<Rightarrow> [row] | Inl _ \<Rightarrow> []) else []
      | _ \<Rightarrow> [])"

definition ch_step :: "(nat \<Rightarrow> string) \<Rightarrow> ch_op \<Rightarrow> clickhouse \<times> pydict list \<Rightarrow> clickhouse \<times> pydict list" where
  "ch_step names k sa =
     (let s = fst sa
      in (case k of
            ChStart rs \<Rightarrow> fst (snd (ch_start rs s))
          | ChWrite rs n \<Rightarrow> fst (snd (ch_write names rs n s))
          | ChTick rs \<Rightarrow> fst (snd (drain_once names rs s))
          | ChFlush rs \<Rightarrow> fst (snd (ch_flush names rs s))
          | ChClose rs \<Rightarrow> fst (snd (ch_close names rs s)),
          snd sa @ ch_accepts k s))"

definition new_clickhouse :: "nat \<Rightarrow> nat \<Rightarrow> nat \<Rightarrow> int \<Rightarrow> clickhouse" where
  "new_clickhouse batch limit retries patience = \<lparr>ch_enabled = True, ch_batch_rows = batch, ch_max_buffer = limit,
     ch_max_retries = retries, ch_patience = patience, ch_buffer = [], ch_started = False, ch_table_ready = False,
     ch_down_since = None, ch_rows_delivered = 0, ch_batches_delivered = 0, ch_rows_spooled = 0, ch_spool = [], ch_server = []\<rparr>"

lemma ch_write_keeps:
  assumes kept: "ch_keeps acc s" and w: "ch_write names rs n s = (b, s1, rs1)"
  shows "ch_keeps (acc @ ch_accepts (ChWrite rs n) s) s1"
proof (cases "ch_enabled s \<and> ch_started s \<and> (\<exists>row. ch_row n = Inr row)")
  case False
  then show ?thesis
    using assms by (cases "ch_row n") (auto simp: ch_write_def ch_accepts_def split: if_splits)
next
  case True
  then obtain row where row: "ch_row n = Inr row" by blast
  let ?s = "s\<lparr>ch_buffer := ch_buffer s @ [row]\<rparr>"
  have k: "ch_keeps (acc @ [row]) ?s" using kept ch_row_ok [OF row] by (simp add: ch_keeps_def ac_simps)
  obtain d s2 rs2 where d: "(if ch_batch_rows ?s \<le> length (ch_buffer ?s) then drain_once names rs ?s else (Some False, ?s, rs)) = (d, s2, rs2)"
    by (metis prod_cases3)
  have k2: "ch_keeps (acc @ [row]) s2"
    using d drain_once_keeps [OF k] k by (auto split: if_splits)
  show ?thesis
  proof (cases d)
    case None
    then show ?thesis using w True row d k2 by (simp add: ch_write_def ch_accepts_def Let_def)
  next
    case (Some x)
    obtain v s3 rs3 where v: "wait_for_room names rs2 s2 = (v, s3, rs3)" by (cases "wait_for_room names rs2 s2")
    have "s1 = s3"
      using w True row d Some v by (cases v) (simp_all add: ch_write_def Let_def)
    then show ?thesis using wait_for_room_keeps [OF k2 v] True row by (simp add: ch_accepts_def)
  qed
qed

lemma ch_run_keeps:
  "ch_keeps (snd (fold (ch_step names) ops (new_clickhouse batch limit retries patience, [])))
     (fst (fold (ch_step names) ops (new_clickhouse batch limit retries patience, [])))"
proof -
  have step: "ch_keeps (snd (ch_step names k sa)) (fst (ch_step names k sa))" if "ch_keeps (snd sa) (fst sa)" for k sa
  proof (cases k)
    case (ChStart rs)
    then show ?thesis using that ch_start_keeps [of "snd sa" "fst sa" rs]
      by (cases "ch_start rs (fst sa)") (simp add: ch_step_def ch_accepts_def)
  next
    case (ChWrite rs n)
    then show ?thesis using that ch_write_keeps [of "snd sa" "fst sa" names rs n]
      by (cases "ch_write names rs n (fst sa)") (simp add: ch_step_def)
  next
    case (ChTick rs)
    then show ?thesis using that drain_once_keeps [of "snd sa" "fst sa" names rs]
      by (cases "drain_once names rs (fst sa)") (simp add: ch_step_def ch_accepts_def)
  next
    case (ChFlush rs)
    then show ?thesis using that ch_flush_keeps [of "snd sa" "fst sa" names rs]
      by (cases "ch_flush names rs (fst sa)") (simp add: ch_step_def ch_accepts_def)
  next
    case (ChClose rs)
    then show ?thesis using that ch_close_keeps [of "snd sa" "fst sa" names rs]
      by (cases "ch_close names rs (fst sa)") (simp add: ch_step_def ch_accepts_def)
  qed
  have "ch_keeps (snd sa) (fst sa) \<Longrightarrow> ch_keeps (snd (fold (ch_step names) ops sa)) (fst (fold (ch_step names) ops sa))" for sa
    by (induction ops arbitrary: sa) (simp_all add: step)
  from this [of "(new_clickhouse batch limit retries patience, [])"]
  show ?thesis by (simp add: ch_keeps_def new_clickhouse_def files_ok_def spooled_rows_def)
qed

text \<open>
  C4. Whatever the server answers, in any sequence of starts, writes, timer ticks, flushes and shutdowns: every row
  that was accepted is at the server, in the buffer or in a spool file, exactly once. A write that does not
  return has its row in the buffer.
\<close>

theorem clickhouse_never_drops:
  "(case fold (ch_step names) ops (new_clickhouse batch limit retries patience, []) of
      (s, taken) \<Rightarrow> mset taken = mset (ch_server s) + mset (ch_buffer s) + mset (spooled_rows s))"
  using ch_run_keeps [of names ops batch limit retries patience]
  by (cases "fold (ch_step names) ops (new_clickhouse batch limit retries patience, [])") (simp add: ch_keeps_def)

text \<open>
  A start reads the spool into the buffer and removes its files before any row has been delivered: a process that is
  killed then loses rows the spool had kept.
\<close>

theorem start_empties_spool:
  "(case fold (ch_step names) ops (new_clickhouse batch limit retries patience, []) of
      (s, taken) \<Rightarrow>
        case ch_start [(now, r)] s of
          (b, s1, rs1) \<Rightarrow>
            if ch_started s \<or> \<not> ch_enabled s then s1 = s
            else ch_spool s1 = [] \<and> ch_server s1 = ch_server s
              \<and> mset (ch_buffer s1) = mset (ch_buffer s) + mset (spooled_rows s))"
proof -
  obtain s taken where s: "fold (ch_step names) ops (new_clickhouse batch limit retries patience, []) = (s, taken)"
    by (cases "fold (ch_step names) ops (new_clickhouse batch limit retries patience, [])")
  have kept: "ch_keeps taken s" using ch_run_keeps [of names ops batch limit retries patience] by (simp add: s)
  obtain b s1 rs1 where c: "ch_start [(now, r)] s = (b, s1, rs1)" by (cases "ch_start [(now, r)] s")
  show ?thesis
  proof (cases "ch_started s \<or> \<not> ch_enabled s")
    case True
    then show ?thesis by (auto simp: s ch_start_def)
  next
    case False
    note k1 = ch_start_keeps [OF kept c]
    have "ch_spool s1 = []" "ch_server s1 = ch_server s" using ch_start_spool [OF kept c] False by auto
    then show ?thesis
      using False kept k1 by (simp add: s c ch_keeps_def spooled_rows_def ac_simps)
  qed
qed

end
