(* ===== verification/Export_Sinks.thy ===== *)
theory Export_Sinks
  imports Clickhouse_Sink
begin

text \<open>
  The best-effort sinks: the retry loop of \<^verbatim>\<open>ulpf/sinks/_delivery.py\<close> and the two sinks that share it,
  \<^verbatim>\<open>opensearch_sink.py\<close> and \<^verbatim>\<open>splunk_hec_sink.py\<close>. They buffer, post batches, retry, and drop a batch that still
  does not go. A reply is the answer to one post (or its absence) with whether its body is a readable
  object; a coroutine that has no reply left is waiting (\<open>None\<close>). Delays are in whole units.
\<close>

section \<open>The retry loop\<close>

datatype send_result = Delivered | Again | Never | Raised exn

text \<open>
  The result, the failures reported (attempt, whether fatal), the delays slept, and the attempts left over.
\<close>

type_synonym 'r delivery = "bool res option \<times> (nat \<times> bool) list \<times> int list \<times> 'r list"

fun deliver_from :: "('r \<Rightarrow> send_result) \<Rightarrow> int \<Rightarrow> int \<Rightarrow> nat \<Rightarrow> nat \<Rightarrow> 'r list \<Rightarrow> 'r delivery" where
  "deliver_from send base cap i 0 rs = (Some (Inr False), [], [], rs)"
| "deliver_from send base cap i (Suc k) [] = (None, [], [], [])"
| "deliver_from send base cap i (Suc k) (r # rs) =
     (case send r of
        Delivered \<Rightarrow> (Some (Inr True), [], [], rs)
      | Never \<Rightarrow> (Some (Inr False), [(i, True)], [], rs)
      | Raised x \<Rightarrow> (Some (Inl x), [], [], rs)
      | Again \<Rightarrow>
          if k = 0 then (Some (Inr False), [(i, False)], [], rs)
          else (case deliver_from send base cap (Suc i) k rs of
                  (b, notes, delays, rest) \<Rightarrow> (b, (i, False) # notes, min (base * 2 ^ i) cap # delays, rest)))"

definition deliver_with_retry :: "('r \<Rightarrow> send_result) \<Rightarrow> int \<Rightarrow> int \<Rightarrow> int \<Rightarrow> 'r list \<Rightarrow> 'r delivery" where
  "deliver_with_retry send max_retries base cap rs = deliver_from send base cap 0 (nat (max_retries + 1)) rs"

text \<open>The attempts that come back with a failure worth retrying, out of the \<open>n\<close> that are made at most.\<close>

definition retried :: "('r \<Rightarrow> send_result) \<Rightarrow> nat \<Rightarrow> 'r list \<Rightarrow> nat" where
  "retried send n rs = length (takeWhile (\<lambda>r. send r = Again) (take n rs))"

definition delivery_spec :: "('r \<Rightarrow> send_result) \<Rightarrow> int \<Rightarrow> int \<Rightarrow> nat \<Rightarrow> nat \<Rightarrow> 'r list \<Rightarrow> 'r delivery" where
  "delivery_spec send base cap i n rs =
     (let k = retried send n rs; ended = k = n; waiting = \<not> ended \<and> k = length rs
      in (if ended then Some (Inr False) else if waiting then None
          else (case send (rs ! k) of Delivered \<Rightarrow> Some (Inr True) | Raised x \<Rightarrow> Some (Inl x) | _ \<Rightarrow> Some (Inr False)),
          map (\<lambda>j. (i + j, False)) [0..<k] @ (if \<not> ended \<and> \<not> waiting \<and> send (rs ! k) = Never then [(i + k, True)] else []),
          map (\<lambda>j. min (base * 2 ^ (i + j)) cap) [0..<(if ended then n - 1 else k)],
          drop (if ended \<or> waiting then k else k + 1) rs))"

lemma retried_simps [simp]:
  "retried send 0 rs = 0" "retried send n [] = 0"
  "retried send (Suc n) (r # rs) = (if send r = Again then Suc (retried send n rs) else 0)"
  by (simp_all add: retried_def)

lemma retried_le: "retried send n rs \<le> n" "retried send n rs \<le> length rs"
  using length_takeWhile_le [of "\<lambda>r. send r = Again" "take n rs"] by (simp_all add: retried_def)

lemma map_shift: "map f [0..<Suc n] = f 0 # map (\<lambda>j. f (Suc j)) [0..<n]"
  by (simp only: map_upt_Suc)

lemma deliver_is_spec: "deliver_from send base cap i n rs = delivery_spec send base cap i n rs"
proof (induction send base cap i n rs rule: deliver_from.induct)
  case (3 send base cap i k r rs)
  show ?case
  proof (cases "send r = Again")
    case False
    then show ?thesis by (auto simp: delivery_spec_def Let_def split: send_result.splits)
  next
    case True
    show ?thesis
    proof (cases k)
      case 0
      then show ?thesis using True by (simp add: delivery_spec_def Let_def)
    next
      case (Suc k')
      then show ?thesis
        using "3.IH" [OF True] True
        by (simp add: delivery_spec_def Let_def map_shift del: upt_Suc)
    qed
  qed
qed (simp_all add: delivery_spec_def Let_def)

text \<open>
  The loop makes at most one attempt more than the retries it is given, sleeps between them for doubled
  delays up to the cap, reports every failure, stops at the first attempt that succeeds or is refused, and answers
  false when it gives up.
\<close>

theorem delivery_attempts:
  "deliver_with_retry send max_retries base cap rs = delivery_spec send base cap 0 (nat (max_retries + 1)) rs"
  by (simp add: deliver_with_retry_def deliver_is_spec)

section \<open>The sinks\<close>

text \<open>
  The state the two sinks share. Beside the code's counters the model keeps where the documents went: acknowledged by the
  server, dropped, taken by a drain that is waiting for a reply (of a writer, or of the timer task), and gone with a
  drain that was cancelled or raised.
\<close>

record 'd export_sink =
  es_configured :: bool
  es_enabled :: bool
  es_started :: bool
  es_batch :: nat
  es_retries :: int
  es_buffer :: "'d list"
  es_delivered :: nat
  es_dropped :: nat
  es_batches_dropped :: nat
  es_server :: "'d list"
  es_given_up :: "'d list"
  es_waiting :: "'d list"
  es_timer_waiting :: "'d list"
  es_vanished :: "'d list"

type_synonym reply = "http_reply \<times> bool"

definition opensearch_outcome :: "reply \<Rightarrow> send_result" where
  "opensearch_outcome r =
     (case r of
        (NoResponse, _) \<Rightarrow> Again
      | (Status c, readable) \<Rightarrow>
          if 300 \<le> c then (if c = 429 \<or> 500 \<le> c then Again else Never)
          else if readable then Delivered else Raised (ValueError ''JSONDecodeError''))"

definition splunk_outcome :: "reply \<Rightarrow> send_result" where
  "splunk_outcome r =
     (case r of
        (NoResponse, _) \<Rightarrow> Again
      | (Status c, _) \<Rightarrow> if c < 300 then Delivered else if c = 429 \<or> 500 \<le> c then Again else Never)"

text \<open>A batch leaves the buffer before it is sent. The delays of the retry loop are not observed here.\<close>

definition export_drain :: "(reply \<Rightarrow> send_result) \<Rightarrow> bool \<Rightarrow> reply list \<Rightarrow> 'd export_sink \<Rightarrow> unit res option \<times> 'd export_sink \<times> reply list" where
  "export_drain outcome timer rs s =
     (if es_buffer s = [] then (Some (Inr ()), s, rs)
      else (let batch = take (es_batch s) (es_buffer s); s1 = s\<lparr>es_buffer := drop (length batch) (es_buffer s)\<rparr>
            in case deliver_with_retry outcome (es_retries s) 0 0 rs of
                 (Some (Inr True), _, _, rest) \<Rightarrow>
                   (Some (Inr ()), s1\<lparr>es_delivered := es_delivered s1 + length batch, es_server := es_server s1 @ batch\<rparr>, rest)
               | (Some (Inr False), _, _, rest) \<Rightarrow>
                   (Some (Inr ()), s1\<lparr>es_dropped := es_dropped s1 + length batch, es_batches_dropped := es_batches_dropped s1 + 1,
                                      es_given_up := es_given_up s1 @ batch\<rparr>, rest)
               | (Some (Inl x), _, _, rest) \<Rightarrow> (Some (Inl x), s1\<lparr>es_vanished := es_vanished s1 @ batch\<rparr>, rest)
               | (None, _, _, rest) \<Rightarrow>
                   (None, if timer then s1\<lparr>es_timer_waiting := es_timer_waiting s1 @ batch\<rparr>
                          else s1\<lparr>es_waiting := es_waiting s1 @ batch\<rparr>, rest)))"

definition export_write ::
  "(reply \<Rightarrow> send_result) \<Rightarrow> (normalized_event \<Rightarrow> 'd res) \<Rightarrow> reply list \<Rightarrow> normalized_event \<Rightarrow> 'd export_sink
    \<Rightarrow> unit res option \<times> 'd export_sink \<times> reply list" where
  "export_write outcome document rs n s =
     (if \<not> es_enabled s then (Some (Inr ()), s, rs)
      else case document n of
        Inl x \<Rightarrow> (Some (Inl x), s, rs)
      | Inr d \<Rightarrow>
          (let s1 = s\<lparr>es_buffer := es_buffer s @ [d]\<rparr>
           in if es_batch s1 \<le> length (es_buffer s1) then export_drain outcome False rs s1 else (Some (Inr ()), s1, rs)))"

lemma export_drain_shorter:
  "export_drain outcome timer rs s = (r, s1, rs1) \<Longrightarrow> es_buffer s \<noteq> [] \<Longrightarrow> 0 < es_batch s \<Longrightarrow>
     length (es_buffer s1) < length (es_buffer s)"
  by (auto simp: export_drain_def Let_def split: prod.splits option.splits sum.splits bool.splits if_splits)

text \<open>A batch size of zero would keep \<^verbatim>\<open>flush\<close> from ever returning.\<close>

function export_flush :: "(reply \<Rightarrow> send_result) \<Rightarrow> reply list \<Rightarrow> 'd export_sink \<Rightarrow> unit res option \<times> 'd export_sink \<times> reply list" where
  "export_flush outcome rs s =
     (if \<not> es_enabled s \<or> es_buffer s = [] then (Some (Inr ()), s, rs)
      else if es_batch s = 0 then (None, s, rs)
      else case export_drain outcome False rs s of
             (Some (Inr _), s1, rs1) \<Rightarrow> export_flush outcome rs1 s1
           | r \<Rightarrow> r)"
  by pat_completeness auto
termination
  by (relation "measure (\<lambda>(outcome, rs, s). length (es_buffer s))") (auto dest!: export_drain_shorter [OF sym])

declare export_flush.simps [simp del]

text \<open>\<^verbatim>\<open>close\<close> cancels the timer task, also when it is in the middle of a delivery.\<close>

definition export_close :: "(reply \<Rightarrow> send_result) \<Rightarrow> reply list \<Rightarrow> 'd export_sink \<Rightarrow> unit res option \<times> 'd export_sink \<times> reply list" where
  "export_close outcome rs s =
     (if \<not> es_started s then (Some (Inr ()), s, rs)
      else (let s1 = s\<lparr>es_vanished := es_vanished s @ es_timer_waiting s, es_timer_waiting := []\<rparr>
            in case export_flush outcome rs s1 of
                 (Some (Inr _), s2, rs2) \<Rightarrow> (Some (Inr ()), s2\<lparr>es_started := False\<rparr>, rs2)
               | r \<Rightarrow> r))"

definition opensearch_healthy :: "http_reply \<Rightarrow> bool" where
  "opensearch_healthy r = (case r of NoResponse \<Rightarrow> False | Status c \<Rightarrow> c < 300)"

definition splunk_healthy :: "http_reply \<Rightarrow> bool" where
  "splunk_healthy r = (case r of NoResponse \<Rightarrow> False | Status c \<Rightarrow> c = 200)"

definition export_start :: "(http_reply \<Rightarrow> bool) \<Rightarrow> http_reply \<Rightarrow> 'd export_sink \<Rightarrow> 'd export_sink" where
  "export_start healthy r s =
     (if \<not> es_configured s \<or> es_started s then s else s\<lparr>es_enabled := healthy r, es_started := True\<rparr>)"

definition new_export_sink :: "bool \<Rightarrow> nat \<Rightarrow> int \<Rightarrow> 'd export_sink" where
  "new_export_sink configured batch retries = \<lparr>es_configured = configured, es_enabled = False, es_started = False, es_batch = batch,
     es_retries = retries, es_buffer = [], es_delivered = 0, es_dropped = 0, es_batches_dropped = 0, es_server = [],
     es_given_up = [], es_waiting = [], es_timer_waiting = [], es_vanished = []\<rparr>"

section \<open>Documents\<close>

text \<open>The index is named after the day of the document's time, which the crosswalk writes in ISO form.\<close>

definition dotted :: "string \<Rightarrow> string" where
  "dotted d = map (\<lambda>c. if c = CHR ''-'' then CHR ''.'' else c) d"

definition index_name :: "string \<Rightarrow> pyval \<Rightarrow> int \<Rightarrow> string res" where
  "index_name prf timestamp fallback_ns =
     (case timestamp of
        PStr (c # cs) \<Rightarrow> Inr (prf @ ''-'' @ dotted (take 10 (c # cs)))
      | _ \<Rightarrow> bind_res (date_of fallback_ns) (\<lambda>d. Inr (prf @ ''-'' @ dotted d)))"

definition opensearch_document :: "string \<Rightarrow> normalized_event \<Rightarrow> (string \<times> string \<times> pydict) res" where
  "opensearch_document prf n =
     bind_res (to_ecs (ocsf n)) (\<lambda>doc.
     bind_res (index_name prf (py_get doc ''@timestamp'') (n_ingest_time_ns n)) (\<lambda>index.
       Inr (index, n_event_uid n, doc)))"

text \<open>\<open>seconds\<close> is the division by a billion, in floating point.\<close>

definition hec_envelope :: "(pyval \<Rightarrow> pyval res) \<Rightarrow> string \<Rightarrow> string \<Rightarrow> string option \<Rightarrow> normalized_event \<Rightarrow> pydict res" where
  "hec_envelope seconds source host index n =
     bind_res (seconds (py_or (py_get (ocsf n) ''time'') (PInt (n_ingest_time_ns n)))) (\<lambda>time.
     bind_res (to_cim (ocsf n)) (\<lambda>event.
       Inr ([(''time'', time), (''host'', PStr host), (''source'', PStr source),
             (''sourcetype'', PStr (if n_source_type n = [] then ''unknown'' else n_source_type n)), (''event'', PDict event)]
            @ (case index of None \<Rightarrow> [] | Some i \<Rightarrow> if i = [] then [] else [(''index'', PStr i)]))))"

definition bulk_body :: "(string \<times> string \<times> pydict) list \<Rightarrow> string" where
  "bulk_body batch =
     join_with [CHR 0x0A]
       (concat (map (\<lambda>(index, uid, doc).
          [json_dumps (PDict [(''index'', PDict [(''_index'', PStr index), (''_id'', PStr uid)])]), json_dumps (PDict doc)]) batch))
     @ [CHR 0x0A]"

section \<open>Where every document went\<close>

definition accounted :: "'d list \<Rightarrow> 'd export_sink \<Rightarrow> bool" where
  "accounted taken s \<longleftrightarrow>
     mset taken = mset (es_server s) + mset (es_given_up s) + mset (es_buffer s) + mset (es_waiting s)
       + mset (es_timer_waiting s) + mset (es_vanished s)
     \<and> es_delivered s = length (es_server s) \<and> es_dropped s = length (es_given_up s)"

lemma export_drain_accounted:
  assumes "accounted taken s" and d: "export_drain outcome timer rs s = (r, s1, rs1)"
  shows "accounted taken s1"
proof (cases "es_buffer s = []")
  case True
  then show ?thesis using assms by (simp add: export_drain_def)
next
  case False
  let ?batch = "take (es_batch s) (es_buffer s)"
  have split: "mset (es_buffer s) = mset ?batch + mset (drop (length ?batch) (es_buffer s))"
    by (metis append_eq_conv_conj append_take_drop_id length_take mset_append)
  obtain b failures delays rest where del: "deliver_with_retry outcome (es_retries s) 0 0 rs = (b, failures, delays, rest)"
    by (metis prod_cases4)
  then show ?thesis
    using assms(1) d False split
    by (auto simp: export_drain_def accounted_def Let_def split: option.splits sum.splits bool.splits if_splits)
qed

lemma export_flush_accounted:
  "accounted taken s \<Longrightarrow> export_flush outcome rs s = (r, s1, rs1) \<Longrightarrow> accounted taken s1"
proof (induction outcome rs s rule: export_flush.induct)
  case (1 outcome rs s)
  show ?case
  proof (cases "\<not> es_enabled s \<or> es_buffer s = [] \<or> es_batch s = 0")
    case True
    then show ?thesis using "1.prems" by (subst (asm) export_flush.simps) (auto split: if_splits)
  next
    case False
    obtain r' s' rs' where d: "export_drain outcome False rs s = (r', s', rs')" by (cases "export_drain outcome False rs s")
    note acc = export_drain_accounted [OF "1.prems"(1) d]
    show ?thesis
    proof (cases "\<exists>u. r' = Some (Inr u)")
      case True
      then obtain u where u: "r' = Some (Inr u)" by blast
      then have "export_flush outcome rs' s' = (r, s1, rs1)"
        using "1.prems"(2) False d by (subst (asm) export_flush.simps) auto
      then show ?thesis using "1.IH" [OF _ _ d [symmetric] u refl refl acc] False by simp
    next
      case no: False
      then have "(r, s1, rs1) = (r', s', rs')"
        using "1.prems"(2) False d by (subst (asm) export_flush.simps) (auto split: option.splits sum.splits)
      then show ?thesis using acc by simp
    qed
  qed
qed

datatype export_op = ExStart http_reply | ExWrite "reply list" normalized_event | ExTick "reply list" | ExFlush "reply list"
  | ExClose "reply list"

definition export_step ::
  "(http_reply \<Rightarrow> bool) \<Rightarrow> (reply \<Rightarrow> send_result) \<Rightarrow> (normalized_event \<Rightarrow> 'd res) \<Rightarrow> export_op
    \<Rightarrow> 'd export_sink \<times> 'd list \<Rightarrow> 'd export_sink \<times> 'd list" where
  "export_step healthy outcome document k sd =
     (let s = fst sd
      in (case k of
            ExStart r \<Rightarrow> (export_start healthy r s, snd sd)
          | ExWrite rs n \<Rightarrow>
              (fst (snd (export_write outcome document rs n s)),
               snd sd @ (if es_enabled s then (case document n of Inr d \<Rightarrow> [d] | Inl _ \<Rightarrow> []) else []))
          | ExTick rs \<Rightarrow> (fst (snd (export_drain outcome True rs s)), snd sd)
          | ExFlush rs \<Rightarrow> (fst (snd (export_flush outcome rs s)), snd sd)
          | ExClose rs \<Rightarrow> (fst (snd (export_close outcome rs s)), snd sd)))"

lemma export_step_accounted:
  assumes "accounted (snd sd) (fst sd)"
  shows "accounted (snd (export_step healthy outcome document k sd)) (fst (export_step healthy outcome document k sd))"
proof (cases k)
  case (ExStart r)
  then show ?thesis using assms by (simp add: export_step_def export_start_def accounted_def Let_def)
next
  case (ExTick rs)
  then show ?thesis using assms export_drain_accounted
    by (cases "export_drain outcome True rs (fst sd)") (simp add: export_step_def Let_def)
next
  case (ExFlush rs)
  then show ?thesis using assms export_flush_accounted
    by (cases "export_flush outcome rs (fst sd)") (simp add: export_step_def Let_def)
next
  case (ExClose rs)
  let ?s1 = "fst sd\<lparr>es_vanished := es_vanished (fst sd) @ es_timer_waiting (fst sd), es_timer_waiting := []\<rparr>"
  have "accounted (snd sd) ?s1" using assms by (simp add: accounted_def ac_simps)
  moreover obtain r s2 rs2 where f: "export_flush outcome rs ?s1 = (r, s2, rs2)" by (cases "export_flush outcome rs ?s1")
  ultimately have s2: "accounted (snd sd) s2" by (rule export_flush_accounted)
  then have "accounted (snd sd) (s2\<lparr>es_started := False\<rparr>)" by (simp add: accounted_def)
  then show ?thesis
    using assms s2 f by (auto simp: ExClose export_step_def export_close_def Let_def split: option.splits sum.splits)
next
  case (ExWrite rs n)
  show ?thesis
  proof (cases "es_enabled (fst sd)")
    case False
    then show ?thesis using assms by (simp add: ExWrite export_step_def export_write_def Let_def)
  next
    case True
    show ?thesis
    proof (cases "document n")
      case (Inl x)
      then show ?thesis using assms True by (simp add: ExWrite export_step_def export_write_def Let_def)
    next
      case (Inr d)
      let ?s1 = "fst sd\<lparr>es_buffer := es_buffer (fst sd) @ [d]\<rparr>"
      have "accounted (snd sd @ [d]) ?s1" using assms by (simp add: accounted_def ac_simps)
      moreover obtain r s2 rs2 where f: "export_drain outcome False rs ?s1 = (r, s2, rs2)" by (cases "export_drain outcome False rs ?s1")
      ultimately have "accounted (snd sd @ [d]) s2" "accounted (snd sd @ [d]) ?s1" using export_drain_accounted by blast+
      then show ?thesis using True Inr f by (simp add: ExWrite export_step_def export_write_def Let_def)
    qed
  qed
qed


section \<open>The contract of a server\<close>

text \<open>
  What the retry loop relies on: an acknowledgement ends it with success, and an outage is worth retrying.
\<close>

locale export_server =
  fixes outcome :: "reply \<Rightarrow> send_result"
  assumes acknowledged: "c < 300 \<Longrightarrow> outcome (Status c, True) = Delivered"
    and unreachable: "outcome (NoResponse, b) = Again"
begin

lemma drain_when_up:
  assumes "es_buffer s \<noteq> []" and "0 \<le> es_retries s" and "c < 300"
  shows "export_drain outcome timer ((Status c, True) # rs) s =
    (let batch = take (es_batch s) (es_buffer s)
     in (Some (Inr ()), s\<lparr>es_buffer := drop (length batch) (es_buffer s), es_delivered := es_delivered s + length batch,
                          es_server := es_server s @ batch\<rparr>, rs))"
proof -
  obtain k where "nat (es_retries s + 1) = Suc k" using assms(2) by (cases "nat (es_retries s + 1)") auto
  then show ?thesis
    using assms acknowledged by (simp add: export_drain_def deliver_with_retry_def Let_def)
qed

lemma flush_when_up:
  assumes "es_enabled s" and "0 < es_batch s" and "0 \<le> es_retries s" and "length (es_buffer s) \<le> length codes"
    and "list_all (\<lambda>c. c < 300) codes"
  shows "\<exists>s1 rs1. export_flush outcome (map (\<lambda>c. (Status c, True)) codes) s = (Some (Inr ()), s1, rs1)
    \<and> es_buffer s1 = [] \<and> es_server s1 = es_server s @ es_buffer s \<and> es_given_up s1 = es_given_up s \<and> es_vanished s1 = es_vanished s"
  using assms
proof (induction codes arbitrary: s)
  case Nil
  then show ?case by (simp add: export_flush.simps)
next
  case (Cons c codes)
  show ?case
  proof (cases "es_buffer s = []")
    case True
    then show ?thesis by (simp add: export_flush.simps)
  next
    case False
    let ?batch = "take (es_batch s) (es_buffer s)"
    let ?s = "s\<lparr>es_buffer := drop (length ?batch) (es_buffer s), es_delivered := es_delivered s + length ?batch,
                          es_server := es_server s @ ?batch\<rparr>"
    have step: "export_flush outcome (map (\<lambda>c. (Status c, True)) (c # codes)) s = export_flush outcome (map (\<lambda>c. (Status c, True)) codes) ?s"
      using Cons.prems False drain_when_up [OF False, of c False "map (\<lambda>c. (Status c, True)) codes"]
      by (subst export_flush.simps) (simp add: Let_def)
    have "length (es_buffer ?s) \<le> length codes" using Cons.prems False by (cases "es_buffer s") auto
    then show ?thesis
      using Cons.IH [of ?s] Cons.prems unfolding step by (simp add: min_def split: if_splits)
  qed
qed

lemma outage_is_counted:
  assumes "es_buffer s \<noteq> []" and "0 \<le> es_retries s"
  shows "export_drain outcome timer (replicate (nat (es_retries s + 1)) (NoResponse, False)) s =
    (let batch = take (es_batch s) (es_buffer s)
     in (Some (Inr ()), s\<lparr>es_buffer := drop (length batch) (es_buffer s), es_dropped := es_dropped s + length batch,
                          es_batches_dropped := es_batches_dropped s + 1, es_given_up := es_given_up s @ batch\<rparr>, []))"
proof -
  have "retried outcome n (replicate n (NoResponse, False)) = n" for n
    by (simp add: retried_def unreachable)
  then show ?thesis
    using assms by (simp add: export_drain_def deliver_with_retry_def deliver_is_spec delivery_spec_def Let_def)
qed

end

interpretation opensearch: export_server opensearch_outcome
  by unfold_locales (simp_all add: opensearch_outcome_def)

interpretation splunk: export_server splunk_outcome
  by unfold_locales (simp_all add: splunk_outcome_def)

text \<open>
  Of two sinks whose servers are up, a flush delivers everything that is buffered, in order, and drops nothing.
\<close>

theorem flush_delivers_when_up:
  assumes "es_enabled s" and "0 < es_batch s" and "0 \<le> es_retries s" and "length (es_buffer s) \<le> length codes"
    and "list_all (\<lambda>c. c < 300) codes"
  shows "(\<exists>s1 rs1. export_flush opensearch_outcome (map (\<lambda>c. (Status c, True)) codes) s = (Some (Inr ()), s1, rs1)
      \<and> es_buffer s1 = [] \<and> es_server s1 = es_server s @ es_buffer s \<and> es_given_up s1 = es_given_up s)
    \<and> (\<exists>s1 rs1. export_flush splunk_outcome (map (\<lambda>c. (Status c, True)) codes) s = (Some (Inr ()), s1, rs1)
      \<and> es_buffer s1 = [] \<and> es_server s1 = es_server s @ es_buffer s \<and> es_given_up s1 = es_given_up s)"
  using opensearch.flush_when_up [OF assms] splunk.flush_when_up [OF assms] by blast

definition demo_export :: "nat export_sink" where
  "demo_export = (new_export_sink True 2 1)\<lparr>es_enabled := True, es_started := True, es_buffer := [1, 2, 3]\<rparr>"

theorem flush_delivers_when_up_witness:
  "\<exists>s1 rs1. export_flush opensearch_outcome (map (\<lambda>c. (Status c, True)) [200, 201, 204]) demo_export = (Some (Inr ()), s1, rs1)
      \<and> es_buffer s1 = [] \<and> es_server s1 = [1, 2, 3]"
  using flush_delivers_when_up [of demo_export "[200, 201, 204]"] by (auto simp: demo_export_def new_export_sink_def)

text \<open>
  Shutdown in the middle of a timed delivery: the batch is neither delivered nor counted as dropped.
\<close>

lemma cancelled_batch_vanishes:
  "(let s = fst (snd (export_drain opensearch_outcome True [] demo_export));
        s' = fst (snd (export_close opensearch_outcome [(Status 200, True)] s))
    in es_vanished s' = [1, 2] \<and> es_server s' = [3] \<and> es_dropped s' = 0)"
  by (simp add: demo_export_def new_export_sink_def export_drain_def deliver_with_retry_def export_close_def export_flush.simps
      opensearch_outcome_def Let_def numeral_2_eq_2)

end
