(* ===== verification/Sink_Manager.thy ===== *)
theory Sink_Manager
  imports Export_Sinks Normalize_Stage
begin

text \<open>
  The last stage of the pipeline, \<^verbatim>\<open>ulpf/sinks/manager.py\<close>: every event is written to all sinks, whose failures are
  kept apart; the event is dead-lettered when a required sink failed. A sink is the state it keeps and a
  function that writes one event; the writes of one event run concurrently, on separate states, so that their
  order does not matter. The sinks of \<open>Parquet_Sink\<close>, \<open>Clickhouse_Sink\<close> and \<open>Export_Sinks\<close> are instances.
\<close>

section \<open>Handles and results\<close>

record 's sink_handle =
  sh_name :: string
  sh_required :: bool
  sh_write :: "normalized_event \<Rightarrow> 's \<Rightarrow> exn option \<times> 's"
  sh_state :: 's

record sink_result =
  sr_name :: string
  sr_required :: bool
  sr_error :: "exn option"

definition sr_ok :: "sink_result \<Rightarrow> bool" where
  "sr_ok r \<longleftrightarrow> sr_error r = None"

record 's sink_manager =
  sm_handles :: "'s sink_handle list"
  sm_dlq :: dlq
  sm_writes :: "((string \<times> string) \<times> nat) list"
  sm_log :: "(bool \<times> string \<times> string) list"

definition register_sink :: "'s sink_handle \<Rightarrow> 's sink_manager \<Rightarrow> 's sink_manager" where
  "register_sink h m = m\<lparr>sm_handles := sm_handles m @ [h]\<rparr>"

definition sink_names :: "'s sink_manager \<Rightarrow> string list" where
  "sink_names m = map sh_name (sm_handles m)"

definition required_sink_names :: "'s sink_manager \<Rightarrow> string list" where
  "required_sink_names m = map sh_name (filter sh_required (sm_handles m))"

section \<open>The stage\<close>

definition write_one :: "normalized_event \<Rightarrow> 's sink_handle \<Rightarrow> sink_result \<times> 's sink_handle" where
  "write_one n h =
     (case sh_write h n (sh_state h) of
        (x, s) \<Rightarrow> (\<lparr>sr_name = sh_name h, sr_required = sh_required h, sr_error = x\<rparr>, h\<lparr>sh_state := s\<rparr>))"

text \<open>The metric by sink and status, and a log line for a failure: an error for a required sink, else a warning.\<close>

definition record_result :: "normalized_event \<Rightarrow> sink_result \<Rightarrow> 's sink_manager \<Rightarrow> 's sink_manager" where
  "record_result n r m =
     (let m1 = m\<lparr>sm_writes := counter_inc (sr_name r, if sr_ok r then ''ok'' else ''failed'') (sm_writes m)\<rparr>
      in if sr_ok r then m1 else m1\<lparr>sm_log := sm_log m1 @ [(sr_required r, sr_name r, n_event_uid n)]\<rparr>)"

definition error_text :: "sink_result \<Rightarrow> string" where
  "error_text r = (case sr_error r of None \<Rightarrow> ''None'' | Some x \<Rightarrow> exn_text x)"

definition sink_letter :: "normalized_event \<Rightarrow> sink_result list \<Rightarrow> pydict" where
  "sink_letter n failed =
     [(''source_type'', PStr (n_source_type n)), (''failed_sinks'', PList (map (PStr \<circ> sr_name) failed)),
      (''errors'', PDict (dict_update [] (map (\<lambda>r. (sr_name r, PStr (error_text r))) failed)))]"

definition sinks_process :: "dl_enc \<Rightarrow> int \<Rightarrow> normalized_event \<Rightarrow> 's sink_manager \<Rightarrow> normalized_event option res \<times> 's sink_manager" where
  "sinks_process enc now n m =
     (if sm_handles m = [] then (Inr (Some n), m)
      else (let outcomes = map (write_one n) (sm_handles m); results = map fst outcomes;
                m1 = fold (record_result n) results (m\<lparr>sm_handles := map snd outcomes\<rparr>);
                failed = filter (\<lambda>r. sr_required r \<and> \<not> sr_ok r) results
            in if failed = [] then (Inr (Some n), m1)
               else (case dlq_write enc now (raw_stub n) ''required_sink_failed'' ''sinks'' (Some (sink_letter n failed)) (sm_dlq m1) of
                       Inl x \<Rightarrow> (Inl x, m1)
                     | Inr (_, q) \<Rightarrow> (Inr None, m1\<lparr>sm_dlq := q\<rparr>))))"

text \<open>Closing every sink; a failure is logged.\<close>

definition sinks_flush :: "('s sink_handle \<Rightarrow> exn option \<times> 's) \<Rightarrow> 's sink_manager \<Rightarrow> string list \<times> 's sink_manager" where
  "sinks_flush close m =
     (let outcomes = map (\<lambda>h. (sh_name h, close h)) (sm_handles m)
      in (map fst (filter (\<lambda>o'. fst (snd o') \<noteq> None) outcomes),
          m\<lparr>sm_handles := map (\<lambda>h. h\<lparr>sh_state := snd (close h)\<rparr>) (sm_handles m)\<rparr>))"

section \<open>The sinks as handles\<close>

text \<open>The state of any of the sinks; a write that is waiting for its server is not complete.\<close>

datatype sink_state =
    Parquet parquet_sink
  | Clickhouse clickhouse
  | Opensearch "(string \<times> string \<times> pydict) export_sink"
  | Splunk "pydict export_sink"

record sink_env =
  se_encode :: "pydict list \<Rightarrow> exn option"
  se_names :: "nat \<Rightarrow> string"
  se_wall :: int
  se_now :: int
  se_replies :: replies
  se_export_replies :: "reply list"
  se_index :: string
  se_envelope :: "normalized_event \<Rightarrow> pydict res"

definition error_of :: "unit res option \<Rightarrow> exn option" where
  "error_of r = (case r of Some (Inl x) \<Rightarrow> Some x | _ \<Rightarrow> None)"

definition sink_write :: "sink_env \<Rightarrow> normalized_event \<Rightarrow> sink_state \<Rightarrow> exn option \<times> sink_state" where
  "sink_write env n st =
     (case st of
        Parquet s \<Rightarrow> (case pq_write (se_encode env) (se_names env) (se_wall env) (se_now env) n s of (x, s') \<Rightarrow> (x, Parquet s'))
      | Clickhouse s \<Rightarrow> (case ch_write (se_names env) (se_replies env) n s of (r, s', _) \<Rightarrow> (error_of r, Clickhouse s'))
      | Opensearch s \<Rightarrow>
          (case export_write opensearch_outcome (opensearch_document (se_index env)) (se_export_replies env) n s of
             (r, s', _) \<Rightarrow> (error_of r, Opensearch s'))
      | Splunk s \<Rightarrow>
          (case export_write splunk_outcome (se_envelope env) (se_export_replies env) n s of (r, s', _) \<Rightarrow> (error_of r, Splunk s')))"

text \<open>\<^verbatim>\<open>from_settings\<close>: only the columnar sink is required.\<close>

definition default_handles :: "sink_env \<Rightarrow> parquet_sink \<Rightarrow> clickhouse \<Rightarrow> (string \<times> string \<times> pydict) export_sink \<Rightarrow> pydict export_sink
    \<Rightarrow> sink_state sink_handle list" where
  "default_handles env p c os hec =
     [\<lparr>sh_name = ''parquet'', sh_required = True, sh_write = sink_write env, sh_state = Parquet p\<rparr>,
      \<lparr>sh_name = ''clickhouse'', sh_required = False, sh_write = sink_write env, sh_state = Clickhouse c\<rparr>,
      \<lparr>sh_name = ''opensearch'', sh_required = False, sh_write = sink_write env, sh_state = Opensearch os\<rparr>,
      \<lparr>sh_name = ''splunk_hec'', sh_required = False, sh_write = sink_write env, sh_state = Splunk hec\<rparr>]"

section \<open>What the stage guarantees\<close>

lemma record_results_handles [simp]:
  "sm_handles (fold (record_result n) rs m) = sm_handles m" "sm_dlq (fold (record_result n) rs m) = sm_dlq m"
proof -
  have "sm_handles (record_result n r m) = sm_handles m \<and> sm_dlq (record_result n r m) = sm_dlq m" for r and m :: "'a sink_manager"
    by (simp add: record_result_def Let_def)
  then show "sm_handles (fold (record_result n) rs m) = sm_handles m" "sm_dlq (fold (record_result n) rs m) = sm_dlq m"
    by (induction rs arbitrary: m) auto
qed

text \<open>The sinks whose write of this event raised.\<close>

definition failing :: "normalized_event \<Rightarrow> 's sink_handle \<Rightarrow> bool" where
  "failing n h \<longleftrightarrow> fst (sh_write h n (sh_state h)) \<noteq> None"

definition required_failure :: "normalized_event \<Rightarrow> 's sink_manager \<Rightarrow> bool" where
  "required_failure n m \<longleftrightarrow> list_ex (\<lambda>h. sh_required h \<and> failing n h) (sm_handles m)"

lemma failed_names:
  "map sr_name (filter (\<lambda>r. sr_required r \<and> \<not> sr_ok r) (map (fst \<circ> write_one n) hs)) =
     map sh_name (filter (\<lambda>h. sh_required h \<and> failing n h) hs)"
  by (induction hs) (auto simp: write_one_def sr_ok_def failing_def split: prod.splits)

lemma failed_Nil:
  "filter (\<lambda>r. sr_required r \<and> \<not> sr_ok r) (map (fst \<circ> write_one n) hs) = [] \<longleftrightarrow> \<not> list_ex (\<lambda>h. sh_required h \<and> failing n h) hs"
  by (induction hs) (auto simp: write_one_def sr_ok_def failing_def split: prod.splits)

text \<open>The stage, by its outcome.\<close>

lemma sinks_outcome:
  "(case sinks_process enc now n m of
      (r, m') \<Rightarrow>
        sm_handles m' = map (\<lambda>h. h\<lparr>sh_state := snd (sh_write h n (sh_state h))\<rparr>) (sm_handles m)
        \<and> (case r of
             Inr (Some n') \<Rightarrow> n' = n \<and> \<not> required_failure n m \<and> sm_dlq m' = sm_dlq m
           | Inr None \<Rightarrow> required_failure n m
               \<and> (\<exists>d. py_get d ''failed_sinks'' = PList (map (PStr \<circ> sh_name) (filter (\<lambda>h. sh_required h \<and> failing n h) (sm_handles m)))
                    \<and> dlq_write enc now (raw_stub n) ''required_sink_failed'' ''sinks'' (Some d) (sm_dlq m)
                        = Inr (dlq_record now (raw_stub n) ''required_sink_failed'' ''sinks'' (Some d), sm_dlq m'))
           | Inl x \<Rightarrow> required_failure n m \<and> sm_dlq m' = sm_dlq m \<and> date_of now = Inl x))"
proof (cases "sm_handles m = []")
  case True
  then show ?thesis by (simp add: sinks_process_def required_failure_def)
next
  case False
  let ?results = "map (fst \<circ> write_one n) (sm_handles m)"
  let ?failed = "filter (\<lambda>r. sr_required r \<and> \<not> sr_ok r) ?results"
  let ?m1 = "fold (record_result n) ?results (m\<lparr>sm_handles := map (snd \<circ> write_one n) (sm_handles m)\<rparr>)"
  have handles: "sm_handles ?m1 = map (\<lambda>h. h\<lparr>sh_state := snd (sh_write h n (sh_state h))\<rparr>) (sm_handles m)"
    by (simp add: write_one_def split: prod.splits)
  have dlq: "sm_dlq ?m1 = sm_dlq m" by simp
  show ?thesis
  proof (cases "?failed = []")
    case ok: True
    then have "sinks_process enc now n m = (Inr (Some n), ?m1)"
      using False by (simp add: sinks_process_def Let_def)
    then show ?thesis using ok handles by (simp add: required_failure_def failed_Nil)
  next
    case failed: False
    let ?d = "sink_letter n ?failed"
    have names: "py_get ?d ''failed_sinks'' = PList (map (PStr \<circ> sh_name) (filter (\<lambda>h. sh_required h \<and> failing n h) (sm_handles m)))"
      using failed_names [of n "sm_handles m"] by (simp add: sink_letter_def py_get_Cons flip: map_map)
    have bad: "required_failure n m" using failed by (simp add: required_failure_def failed_Nil)
    show ?thesis
    proof (cases "date_of now")
      case (Inl x)
      then have "dlq_write enc now (raw_stub n) ''required_sink_failed'' ''sinks'' (Some ?d) (sm_dlq m) = Inl x"
        by (simp add: dlq_write_def dlq_record_def Let_def)
      then have "sinks_process enc now n m = (Inl x, ?m1)"
        using False failed by (simp add: sinks_process_def Let_def)
      then show ?thesis using Inl handles bad by simp
    next
      case (Inr d)
      obtain q where q: "dlq_write enc now (raw_stub n) ''required_sink_failed'' ''sinks'' (Some ?d) (sm_dlq m)
          = Inr (dlq_record now (raw_stub n) ''required_sink_failed'' ''sinks'' (Some ?d), q)"
        using Inr by (simp add: dlq_write_def dlq_record_def Let_def)
      then have "sinks_process enc now n m = (Inr None, ?m1\<lparr>sm_dlq := q\<rparr>)"
        using False failed by (simp add: sinks_process_def Let_def)
      then show ?thesis using handles bad names q by (auto intro: exI [of _ ?d])
    qed
  qed
qed

text \<open>
  C8. Every sink is given the event, whatever the others do. The event goes on exactly when no required sink
  failed; otherwise one dead letter is written that carries its identity and hash and names the required sinks that
  failed. The only other outcome is that the dead letter itself could not be written.
\<close>

theorem sinks_account_for_event:
  "(case sinks_process enc now n m of
      (r, m') \<Rightarrow>
        sm_handles m' = map (\<lambda>h. h\<lparr>sh_state := snd (sh_write h n (sh_state h))\<rparr>) (sm_handles m)
        \<and> (case r of
             Inr (Some n') \<Rightarrow> n' = n \<and> \<not> required_failure n m \<and> sm_dlq m' = sm_dlq m
           | Inr None \<Rightarrow> required_failure n m
               \<and> (\<exists>d. py_get d ''failed_sinks'' = PList (map (PStr \<circ> sh_name) (filter (\<lambda>h. sh_required h \<and> failing n h) (sm_handles m)))
                    \<and> dlq_write enc now (raw_stub n) ''required_sink_failed'' ''sinks'' (Some d) (sm_dlq m)
                        = Inr (dlq_record now (raw_stub n) ''required_sink_failed'' ''sinks'' (Some d), sm_dlq m'))
           | Inl x \<Rightarrow> required_failure n m \<and> sm_dlq m' = sm_dlq m \<and> date_of now = Inl x))"
  by (rule sinks_outcome)

text \<open>A columnar write that does not raise has put the row into a file or the buffer.\<close>

lemma pq_write_stores:
  assumes "pq_write encode names wall now n s = (None, s')"
  shows "\<exists>row. parquet_row n = Inr row \<and> row \<in> set (stored_rows s' @ waiting_rows s')"
proof -
  obtain key row where kr: "partition_of wall n = Inr key" "parquet_row n = Inr row"
    using assms by (auto simp: pq_write_def split: sum.splits)
  let ?s1 = "buffer_row key row s"
  have in1: "row \<in> set (waiting_rows ?s1)"
    using waiting_buffer_row [of key row s] by (metis set_mset_mset union_single_eq_member)
  show ?thesis
  proof (cases "pq_max_rows ?s1 \<le> pq_buffered ?s1 \<or> time_due now ?s1")
    case False
    then show ?thesis using assms kr in1 by (auto simp: pq_write_def Let_def)
  next
    case True
    then have f: "pq_flush encode names now ?s1 = (None, s')" using assms kr by (simp add: pq_write_def Let_def)
    have "stored_rows s' = stored_rows ?s1 @ waiting_rows ?s1"
      using pq_flush_rows(1,2) [OF f] before_refusal_all [of encode "pq_buffer ?s1"] by (simp add: waiting_rows_def)
    then show ?thesis using kr in1 by auto
  qed
qed

text \<open>
  An event that leaves the default set of sinks has its row in the columnar sink, in a file or in the buffer,
  whatever the other three sinks did.
\<close>

theorem passed_event_is_stored:
  "(case sinks_process enc now n (m\<lparr>sm_handles := default_handles env p c os hec\<rparr>) of
      (Inr (Some n'), m') \<Rightarrow>
        (case sh_state (hd (sm_handles m')) of
           Parquet s \<Rightarrow> (\<exists>row. parquet_row n = Inr row \<and> row \<in> set (stored_rows s @ waiting_rows s))
         | _ \<Rightarrow> False)
    | _ \<Rightarrow> True)"
proof -
  let ?m = "m\<lparr>sm_handles := default_handles env p c os hec\<rparr>"
  obtain r m' where r: "sinks_process enc now n ?m = (r, m')" by (cases "sinks_process enc now n ?m")
  show ?thesis
  proof (cases "\<exists>n'. r = Inr (Some n')")
    case False
    then show ?thesis using r by (auto split: sum.splits option.splits)
  next
    case True
    obtain x s where w: "pq_write (se_encode env) (se_names env) (se_wall env) (se_now env) n p = (x, s)"
      by (cases "pq_write (se_encode env) (se_names env) (se_wall env) (se_now env) n p")
    have "hd (sm_handles m') = hd (map (\<lambda>h. h\<lparr>sh_state := snd (sh_write h n (sh_state h))\<rparr>) (default_handles env p c os hec))"
      and none: "\<not> required_failure n ?m"
      using sinks_outcome [where enc = enc and now = now and n = n and m = ?m] r True by auto
    then have "sh_state (hd (sm_handles m')) = Parquet s" by (simp add: default_handles_def sink_write_def w)
    moreover have "x = None" using none by (simp add: required_failure_def default_handles_def failing_def sink_write_def w)
    ultimately show ?thesis using True r pq_write_stores w by auto
  qed
qed

end
