(* ===== verification/Reprocess.thy ===== *)
theory Reprocess
  imports Complex_Main Enrichment Sink_Manager
begin

text \<open>
  The command \<^verbatim>\<open>ulpf reprocess\<close> (\<^verbatim>\<open>ulpf/cli/reprocess.py\<close>): the stored events of an ingest date are run again through parsing,
  normalisation, enrichment, validation and the sinks, and compared with the rows the columnar store has for that date. The stages are
  those of the pipeline; \<open>clock\<close> is the time at each event, \<open>silver\<close> the rows of each partition.
\<close>

section \<open>The report\<close>

record compare_stats =
  cs_no_previous :: nat
  cs_changed :: nat
  cs_unchanged :: nat
  cs_old_sum :: rat
  cs_new_sum :: rat
  cs_compared :: nat

definition new_compare_stats :: compare_stats where
  "new_compare_stats = \<lparr>cs_no_previous = 0, cs_changed = 0, cs_unchanged = 0, cs_old_sum = 0, cs_new_sum = 0, cs_compared = 0\<rparr>"

definition avg_of :: "rat \<Rightarrow> compare_stats \<Rightarrow> rat option" where
  "avg_of t c = (if cs_compared c = 0 then None else Some (t / of_nat (cs_compared c)))"

definition old_avg :: "compare_stats \<Rightarrow> rat option" where
  "old_avg c = avg_of (cs_old_sum c) c"

definition new_avg :: "compare_stats \<Rightarrow> rat option" where
  "new_avg c = avg_of (cs_new_sum c) c"

definition delta_avg :: "compare_stats \<Rightarrow> rat option" where
  "delta_avg c = (case (new_avg c, old_avg c) of (Some a, Some b) \<Rightarrow> Some (a - b) | _ \<Rightarrow> None)"

record reprocess_report =
  rp_run_tag :: string
  rp_raw_events :: nat
  rp_in_scope :: nat
  rp_normalized :: nat
  rp_dead_lettered :: nat
  rp_written :: nat
  rp_silver_dates :: "string list"
  rp_compare :: "compare_stats option"

definition new_reprocess_report :: "string \<Rightarrow> bool \<Rightarrow> reprocess_report" where
  "new_reprocess_report tag compare =
     \<lparr>rp_run_tag = tag, rp_raw_events = 0, rp_in_scope = 0, rp_normalized = 0, rp_dead_lettered = 0, rp_written = 0, rp_silver_dates = [],
      rp_compare = (if compare then Some new_compare_stats else None)\<rparr>"

section \<open>One event\<close>

record 't reprocess_env =
  re_stages :: "'t normalize_env"
  re_enabled :: bool
  re_chain :: "enricher list option"

datatype reprocess_status = Out_Of_Scope | Dead_Lettered | Reprocessed normalized_event

text \<open>\<^verbatim>\<open>ocsf.setdefault("metadata", {})["log_version"] = tag\<close>\<close>

definition set_log_version :: "string \<Rightarrow> pydict \<Rightarrow> pydict res" where
  "set_log_version tag rec =
     (case map_of rec ''metadata'' of
        None \<Rightarrow> Inr (dict_set ''metadata'' (PDict [(''log_version'', PStr tag)]) rec)
      | Some (PDict d) \<Rightarrow> Inr (dict_set ''metadata'' (PDict (dict_set ''log_version'' (PStr tag) d)) rec)
      | Some _ \<Rightarrow> Inl (TypeError ''object does not support item assignment''))"

definition version_tag :: "source_definition \<Rightarrow> string \<Rightarrow> string" where
  "version_tag df run_tag = sd_version df @ ''+'' @ run_tag"

definition stamp :: "source_definition option \<Rightarrow> string \<Rightarrow> normalized_event \<Rightarrow> normalized_event res" where
  "stamp df run_tag n =
     (case df of
        None \<Rightarrow> Inr n
      | Some d \<Rightarrow> bind_res (set_log_version (version_tag d run_tag) (ocsf n)) (\<lambda>rec. Inr (n\<lparr>ocsf := rec, mapping_version := version_tag d run_tag\<rparr>)))"

definition in_scope :: "string option \<Rightarrow> source_definition option \<Rightarrow> bool" where
  "in_scope wanted df =
     (case wanted of None \<Rightarrow> True | Some s \<Rightarrow> s = (case df of None \<Rightarrow> ''unknown'' | Some d \<Rightarrow> sd_name d))"

definition reprocess_one ::
  "'t reprocess_env \<Rightarrow> string option \<Rightarrow> string \<Rightarrow> int \<Rightarrow> raw_event \<Rightarrow> 't normalize_state \<Rightarrow> worker_pool
     \<Rightarrow> reprocess_status res \<times> 't normalize_state \<times> worker_pool" where
  "reprocess_one env wanted run_tag now e st p =
     (case fst (coordinator_parse (ne_engines (re_stages env)) [] e None) of
        Inl x \<Rightarrow> (Inl x, st, p)
      | Inr parsed \<Rightarrow>
          (let df = match_event (ne_search (re_stages env)) (ne_registry (re_stages env)) parsed in
           if \<not> in_scope wanted df then (Inr Out_Of_Scope, st, p)
           else case normalize_process (re_stages env) now parsed st of
               (Inl x, st1) \<Rightarrow> (Inl x, st1, p)
             | (Inr None, st1) \<Rightarrow> (Inr Dead_Lettered, st1, p)
             | (Inr (Some n), st1) \<Rightarrow>
                 (case stamp df run_tag n of
                    Inl x \<Rightarrow> (Inl x, st1, p)
                  | Inr stamped \<Rightarrow>
                      (case enrich_process (re_enabled env) (re_chain env) stamped p of
                         (Inl x, p1) \<Rightarrow> (Inl x, st1, p1)
                       | (Inr enriched, p1) \<Rightarrow>
                           (case validate_process (re_stages env) now enriched st1 of
                              (Inl x, st2) \<Rightarrow> (Inl x, st2, p1)
                            | (Inr None, st2) \<Rightarrow> (Inr Dead_Lettered, st2, p1)
                            | (Inr (Some v), st2) \<Rightarrow> (Inr (Reprocessed v), st2, p1))))))"

section \<open>The comparison\<close>

definition core_columns :: "string list" where
  "core_columns = [''event_uid'', ''raw_hash'', ''time'', ''class_uid'', ''category_uid'', ''activity_id'', ''type_uid'', ''severity_id'',
     ''source_type'', ''src_ip'', ''src_port'', ''dst_ip'', ''dst_port'', ''protocol'', ''action_id'', ''bytes_in'', ''bytes_out'']"

definition blank_cell :: "pyval \<Rightarrow> bool" where
  "blank_cell v \<longleftrightarrow> v = PNone \<or> v = PStr []"

definition attr_populated :: "pydict \<Rightarrow> string \<Rightarrow> bool" where
  "attr_populated row attr =
     (if attr = ''unmapped'' \<or> attr = ''enrichments''
      then \<not> blank_cell (py_get row (attr @ ''_json'')) \<and> py_get row (attr @ ''_json'') \<noteq> PStr ''{}''
      else \<not> blank_cell (py_get row attr) \<or> list_ex (\<lambda>(k, v). starts_with (attr @ ''.'') k \<and> \<not> blank_cell v) row)"

definition row_int :: "pyval \<Rightarrow> int option" where
  "row_int v = (case v of PNone \<Rightarrow> None | PStr _ \<Rightarrow> None | PList _ \<Rightarrow> None | PDict _ \<Rightarrow> None
     | _ \<Rightarrow> (case py_int v of Inr i \<Rightarrow> Some i | Inl _ \<Rightarrow> None))"

definition flat_completeness :: "pydict \<Rightarrow> rat option" where
  "flat_completeness row =
     (case Option.bind (row_int (py_get row ''class_uid'')) (map_of class_registry) of
        None \<Rightarrow> None
      | Some (cs, _) \<Rightarrow>
          (let attrs = first_occurrences (cs_scalars cs @ cs_objects cs @ cs_recommended cs) in
           if attrs = [] then None
           else Some (of_nat (length (filter (attr_populated row) attrs)) / of_nat (length attrs))))"

definition update_compare :: "normalized_event \<Rightarrow> pydict option \<Rightarrow> compare_stats \<Rightarrow> compare_stats res" where
  "update_compare n previous c =
     bind_res (validate (ocsf n)) (\<lambda>res.
     case previous of
       None \<Rightarrow> Inr (c\<lparr>cs_no_previous := cs_no_previous c + 1\<rparr>)
     | Some row \<Rightarrow>
         bind_res (core_row n) (\<lambda>core.
         let c1 = (if list_ex (\<lambda>col. \<not> py_eq (py_get core col) (py_get row col)) core_columns
                   then c\<lparr>cs_changed := cs_changed c + 1\<rparr> else c\<lparr>cs_unchanged := cs_unchanged c + 1\<rparr>) in
         Inr (case flat_completeness row of
                None \<Rightarrow> c1
              | Some old \<Rightarrow> c1\<lparr>cs_old_sum := cs_old_sum c1 + old,
                  cs_new_sum := cs_new_sum c1 + of_nat (fst (vr_completeness res)) / of_nat (snd (vr_completeness res)),
                  cs_compared := cs_compared c1 + 1\<rparr>)))"

text \<open>The partitions are a date, the name of the source directory and the rows; the rows of the scope are read as one table.\<close>

type_synonym silver = "(string \<times> string \<times> pydict list) list"

definition after_last_plus :: "string \<Rightarrow> string" where
  "after_last_plus s = last (split_on ''+'' s)"

definition log_version_rank :: "pydict \<Rightarrow> nat \<times> string" where
  "log_version_rank row =
     (case py_get row ''metadata.log_version'' of PStr t \<Rightarrow> if t = [] then (0, []) else (1, after_last_plus t) | _ \<Rightarrow> (0, []))"

definition rank_le :: "nat \<times> string \<Rightarrow> nat \<times> string \<Rightarrow> bool" where
  "rank_le a b \<longleftrightarrow> fst a < fst b \<or> fst a = fst b \<and> snd a \<le> snd b"

definition keep_newest :: "pydict \<Rightarrow> (string \<times> pydict) list \<Rightarrow> (string \<times> pydict) list" where
  "keep_newest row by_uid =
     (case py_get row ''event_uid'' of
        PStr uid \<Rightarrow>
          if uid = [] then by_uid
          else (case map_of by_uid uid of
                  None \<Rightarrow> dict_set uid row by_uid
                | Some current \<Rightarrow> if rank_le (log_version_rank current) (log_version_rank row) then dict_set uid row by_uid else by_uid)
      | _ \<Rightarrow> by_uid)"

definition read_previous_rows :: "silver \<Rightarrow> string \<Rightarrow> string option \<Rightarrow> (string \<times> pydict) list" where
  "read_previous_rows silver date wanted =
     fold keep_newest (concat (map (\<lambda>(_, _, rows). rows)
       (filter (\<lambda>(d, s, _). d = date \<and> (case wanted of None \<Rightarrow> True | Some t \<Rightarrow> s = t)) silver))) []"

section \<open>A run\<close>

definition add_silver_date :: "string \<Rightarrow> reprocess_report \<Rightarrow> reprocess_report" where
  "add_silver_date d r = (if d \<in> set (rp_silver_dates r) then r else r\<lparr>rp_silver_dates := rp_silver_dates r @ [d]\<rparr>)"

definition compare_event :: "(string \<times> pydict) list \<Rightarrow> normalized_event \<Rightarrow> reprocess_report \<Rightarrow> reprocess_report res" where
  "compare_event previous n r =
     (case rp_compare r of
        None \<Rightarrow> Inr r
      | Some c \<Rightarrow> bind_res (update_compare n (map_of previous (n_event_uid n)) c) (\<lambda>c1. Inr (r\<lparr>rp_compare := Some c1\<rparr>)))"

definition deliver_event :: "dl_enc \<Rightarrow> int \<Rightarrow> normalized_event \<Rightarrow> reprocess_report \<times> 's sink_manager option \<Rightarrow> reprocess_report res \<times> 's sink_manager option" where
  "deliver_event enc now n = (\<lambda>(r, sinks).
     case sinks of
       None \<Rightarrow> (Inr r, None)
     | Some m \<Rightarrow> (case sinks_process enc now n m of
           (Inl x, m1) \<Rightarrow> (Inl x, Some m1)
         | (Inr None, m1) \<Rightarrow> (Inr r, Some m1)
         | (Inr (Some _), m1) \<Rightarrow> (Inr (r\<lparr>rp_written := rp_written r + 1\<rparr>), Some m1)))"

definition report_event ::
  "dl_enc \<Rightarrow> int \<Rightarrow> (string \<times> pydict) list \<Rightarrow> reprocess_status \<Rightarrow> reprocess_report \<times> 's sink_manager option
     \<Rightarrow> reprocess_report res \<times> 's sink_manager option" where
  "report_event enc now previous status = (\<lambda>(r, sinks).
     let r1 = r\<lparr>rp_raw_events := rp_raw_events r + 1\<rparr>; r2 = r1\<lparr>rp_in_scope := rp_in_scope r1 + 1\<rparr> in
     case status of
       Out_Of_Scope \<Rightarrow> (Inr r1, sinks)
     | Dead_Lettered \<Rightarrow> (Inr (r2\<lparr>rp_dead_lettered := rp_dead_lettered r2 + 1\<rparr>), sinks)
     | Reprocessed n \<Rightarrow>
         (case bind_res (epoch_ns_to_date now (py_or (py_get (ocsf n) ''time'') (PInt (n_ingest_time_ns n)))) (\<lambda>d.
                 compare_event previous n (add_silver_date d (r2\<lparr>rp_normalized := rp_normalized r2 + 1\<rparr>))) of
            Inl x \<Rightarrow> (Inl x, sinks)
          | Inr r3 \<Rightarrow> deliver_event enc now n (r3, sinks)))"

text \<open>The loop ends with the first exception; the sinks are flushed either way.\<close>

fun reprocess_events ::
  "'t reprocess_env \<Rightarrow> string option \<Rightarrow> (string \<times> pydict) list \<Rightarrow> (nat \<Rightarrow> int) \<Rightarrow> raw_event list \<Rightarrow> reprocess_report
     \<Rightarrow> 't normalize_state \<Rightarrow> worker_pool \<Rightarrow> 's sink_manager option
     \<Rightarrow> reprocess_report res \<times> 't normalize_state \<times> worker_pool \<times> 's sink_manager option" where
  "reprocess_events env wanted previous clock [] r st p sinks = (Inr r, st, p, sinks)"
| "reprocess_events env wanted previous clock (e # es) r st p sinks =
     (case reprocess_one env wanted (rp_run_tag r) (clock (rp_raw_events r)) e st p of
        (Inl x, st1, p1) \<Rightarrow> (Inl x, st1, p1, sinks)
      | (Inr status, st1, p1) \<Rightarrow>
          (case report_event (ne_enc (re_stages env)) (clock (rp_raw_events r)) previous status (r, sinks) of
             (Inl x, sinks1) \<Rightarrow> (Inl x, st1, p1, sinks1)
           | (Inr r1, sinks1) \<Rightarrow> reprocess_events env wanted previous clock es r1 st1 p1 sinks1))"

definition run_reprocess ::
  "'t reprocess_env \<Rightarrow> string \<Rightarrow> string \<Rightarrow> string option \<Rightarrow> bool \<Rightarrow> bool \<Rightarrow> silver \<Rightarrow> (nat \<Rightarrow> int) \<Rightarrow> raw_store \<Rightarrow> 't normalize_state \<Rightarrow> worker_pool
     \<Rightarrow> ('s sink_handle \<Rightarrow> exn option \<times> 's) \<Rightarrow> 's sink_manager
     \<Rightarrow> reprocess_report res \<times> 't normalize_state \<times> 's sink_manager" where
  "run_reprocess env tag date wanted dry_run compare silver clock store st p close m =
     (let previous = (if compare then read_previous_rows silver date wanted else []);
          st0 = (if dry_run then st\<lparr>ns_dlq := empty_dlq\<rparr> else st)
      in case fst (rs_iter_all 0 (Some date) store) of
           Inl x \<Rightarrow> (Inl x, st, if dry_run then m else snd (sinks_flush close m))
         | Inr events \<Rightarrow>
             (case reprocess_events env wanted previous clock events (new_reprocess_report tag compare) st0 p
                     (if dry_run then None else Some m) of
                (r, st1, _, sinks) \<Rightarrow>
                  (r, if dry_run then st1\<lparr>ns_dlq := ns_dlq st\<rparr> else st1,
                   case sinks of None \<Rightarrow> m | Some m1 \<Rightarrow> snd (sinks_flush close m1))))"

section \<open>The evidence of an event goes through\<close>

lemma normalize_identity:
  assumes "normalize_process env now e st = (Inr (Some n), st1)"
  shows "n_event_uid n = event_uid e \<and> n_raw_hash n = raw_hash e \<and> n_ingest_time_ns n = ingest_time_ns e"
proof (cases "match_event (ne_search env) (ne_registry env) e")
  case None
  then have "template_only env now e st = (Inr n, st1)" using assms by (auto simp: normalize_process_def split: prod.splits sum.splits)
  then show ?thesis by (auto simp: template_only_def Let_def bind_res_Inr_iff simp del: list.map split: prod.splits)
next
  case (Some df)
  then show ?thesis
    using assms by (auto simp: normalize_process_def normalized_of_def keep_state_def split: sum.splits if_splits)
qed

lemma stamp_identity:
  assumes "stamp df tag n = Inr m"
  shows "n_event_uid m = n_event_uid n \<and> n_raw_hash m = n_raw_hash n \<and> n_ingest_time_ns m = n_ingest_time_ns n"
    and "case df of None \<Rightarrow> True | Some d \<Rightarrow> mapping_version m = version_tag d tag
           \<and> py_get (dict_of (py_get (ocsf m) ''metadata'')) ''log_version'' = PStr (version_tag d tag)"
  using assms by (auto simp: stamp_def bind_res_Inr_iff set_log_version_def py_get_Cons split: option.splits pyval.splits)

lemma validate_same: "validate_process env now n st = (Inr (Some v), st1) \<Longrightarrow> v = n"
  by (auto simp: validate_process_def keep_state_def split: sum.splits if_splits)

lemma map_of_rest: "k \<notin> set promoted_keys \<Longrightarrow> map_of (rest_of rec) k = map_of rec k"
  by (induction rec) (auto simp: rest_of_def)

lemma metadata_kept: "rest_of a = rest_of b \<Longrightarrow> py_get a ''metadata'' = py_get b ''metadata''"
  using map_of_rest [of "''metadata''" a] map_of_rest [of "''metadata''" b] by (simp add: py_get_def promoted_keys_def)

lemma reprocess_one_result:
  assumes "reprocess_one env wanted tag now e st p = (Inr (Reprocessed v), st1, p1)"
  shows "\<exists>parsed df n st2 m q. fst (coordinator_parse (ne_engines (re_stages env)) [] e None) = Inr parsed
      \<and> df = match_event (ne_search (re_stages env)) (ne_registry (re_stages env)) parsed \<and> in_scope wanted df
      \<and> normalize_process (re_stages env) now parsed st = (Inr (Some n), st2) \<and> stamp df tag n = Inr m
      \<and> enrich_process (re_enabled env) (re_chain env) m p = (Inr q, p1) \<and> v = q"
  using assms
  by (auto simp: reprocess_one_def Let_def split: sum.splits option.splits if_splits prod.splits dest: validate_same)

section \<open>The counts of a run\<close>

definition compare_ok :: "reprocess_report \<Rightarrow> bool" where
  "compare_ok r \<longleftrightarrow> (case rp_compare r of None \<Rightarrow> True
     | Some c \<Rightarrow> cs_no_previous c + cs_changed c + cs_unchanged c = rp_normalized r \<and> cs_compared c \<le> cs_changed c + cs_unchanged c)"

definition report_ok :: "bool \<Rightarrow> reprocess_report \<Rightarrow> bool" where
  "report_ok dry r \<longleftrightarrow> rp_in_scope r = rp_normalized r + rp_dead_lettered r \<and> rp_in_scope r \<le> rp_raw_events r
     \<and> rp_written r \<le> (if dry then 0 else rp_normalized r) \<and> compare_ok r"

lemma compare_event_counts:
  assumes "compare_event previous n r = Inr r1" and "case rp_compare r of None \<Rightarrow> True
     | Some c \<Rightarrow> cs_no_previous c + cs_changed c + cs_unchanged c + 1 = k \<and> cs_compared c \<le> cs_changed c + cs_unchanged c"
  shows "rp_raw_events r1 = rp_raw_events r \<and> rp_in_scope r1 = rp_in_scope r \<and> rp_normalized r1 = rp_normalized r
    \<and> rp_dead_lettered r1 = rp_dead_lettered r \<and> rp_written r1 = rp_written r
    \<and> (case rp_compare r1 of None \<Rightarrow> True
         | Some c \<Rightarrow> cs_no_previous c + cs_changed c + cs_unchanged c = k \<and> cs_compared c \<le> cs_changed c + cs_unchanged c)"
proof (cases "rp_compare r")
  case None
  then show ?thesis using assms by (simp add: compare_event_def)
next
  case (Some c)
  then obtain c1 where c1: "update_compare n (map_of previous (n_event_uid n)) c = Inr c1" and r1: "r1 = r\<lparr>rp_compare := Some c1\<rparr>"
    using assms(1) by (auto simp: compare_event_def bind_res_Inr_iff)
  have "cs_no_previous c1 + cs_changed c1 + cs_unchanged c1 = k \<and> cs_compared c1 \<le> cs_changed c1 + cs_unchanged c1"
    using c1 assms(2) Some
    by (auto simp: update_compare_def bind_res_Inr_iff Let_def split: option.splits if_splits)
  then show ?thesis using r1 by simp
qed

lemma report_event_ok:
  fixes sinks :: "'s sink_manager option"
  assumes "report_event enc now previous status (r, sinks) = (Inr r1, sinks1)" and "report_ok (sinks = None) r"
  shows "report_ok (sinks = None) r1 \<and> rp_raw_events r1 = rp_raw_events r + 1 \<and> (sinks1 = None) = (sinks = None)"
proof (cases status)
  case (Reprocessed n)
  let ?r2 = "r\<lparr>rp_raw_events := rp_raw_events r + 1, rp_in_scope := rp_in_scope r + 1, rp_normalized := rp_normalized r + 1\<rparr>"
  obtain d r3 where r3: "compare_event previous n (add_silver_date d ?r2) = Inr r3" and del: "deliver_event enc now n (r3, sinks) = (Inr r1, sinks1)"
    using assms(1) Reprocessed by (auto simp: report_event_def Let_def bind_res_Inr_iff split: sum.splits)
  have added: "rp_raw_events (add_silver_date d q) = rp_raw_events q" "rp_in_scope (add_silver_date d q) = rp_in_scope q"
    "rp_normalized (add_silver_date d q) = rp_normalized q" "rp_dead_lettered (add_silver_date d q) = rp_dead_lettered q"
    "rp_written (add_silver_date d q) = rp_written q" "rp_compare (add_silver_date d q) = rp_compare q" for q
    by (simp_all add: add_silver_date_def)
  have "case rp_compare (add_silver_date d ?r2) of None \<Rightarrow> True
     | Some c \<Rightarrow> cs_no_previous c + cs_changed c + cs_unchanged c + 1 = rp_normalized r + 1 \<and> cs_compared c \<le> cs_changed c + cs_unchanged c"
    using assms(2) by (simp add: added report_ok_def compare_ok_def split: option.splits)
  note counts = compare_event_counts [OF r3 this]
  show ?thesis
    using del counts assms(2)
    by (auto simp: deliver_event_def added report_ok_def compare_ok_def split: option.splits prod.splits sum.splits if_splits)
qed (use assms in \<open>cases "rp_compare r"; auto simp: report_event_def Let_def report_ok_def compare_ok_def\<close>)+

lemma reprocess_events_ok:
  fixes sinks :: "'s sink_manager option"
  assumes "reprocess_events env wanted previous clock es r st p sinks = (Inr r1, st1, p1, sinks1)" and "report_ok (sinks = None) r"
  shows "report_ok (sinks = None) r1 \<and> rp_raw_events r1 = rp_raw_events r + length es"
  using assms
proof (induction es arbitrary: r st p sinks)
  case (Cons e es)
  obtain status st2 p2 where one: "reprocess_one env wanted (rp_run_tag r) (clock (rp_raw_events r)) e st p = (Inr status, st2, p2)"
    using Cons.prems(1) by (auto split: prod.splits sum.splits)
  obtain r2 sinks2 where rep: "report_event (ne_enc (re_stages env)) (clock (rp_raw_events r)) previous status (r, sinks) = (Inr r2, sinks2)"
    and rest: "reprocess_events env wanted previous clock es r2 st2 p2 sinks2 = (Inr r1, st1, p1, sinks1)"
    using Cons.prems(1) one by (auto split: prod.splits sum.splits)
  note ok = report_event_ok [OF rep Cons.prems(2)]
  show ?case using Cons.IH [OF rest] ok by simp
qed simp

lemma deliver_dry: "snd (deliver_event enc now n (r, None)) = None"
  by (simp add: deliver_event_def)

lemma reprocess_events_dry: "snd (snd (snd (reprocess_events env wanted previous clock es r st p None))) = None"
proof (induction es arbitrary: r st p)
  case (Cons e es)
  have none: "sinks1 = None" if "report_event enc now prev status (r, None) = (q, sinks1)" for enc now prev status q sinks1
    using that by (auto simp: report_event_def Let_def deliver_event_def split: reprocess_status.splits sum.splits)
  show ?case using Cons.IH by (auto split: prod.split sum.split dest: none)
qed simp

section \<open>Properties\<close>


text \<open>
  A completed run accounts for every stored event of the date: each is out of scope, normalized or dead-lettered; no more events are written than
  were normalized, none in a dry run; and with a comparison every normalized event is new, changed or unchanged.
\<close>

theorem reprocess_accounts_for_events:
  "case fst (run_reprocess env tag date wanted dry_run compare silver clock store st p close m) of
     Inl x \<Rightarrow> True
   | Inr r \<Rightarrow> report_ok dry_run r \<and> (case fst (rs_iter_all 0 (Some date) store) of Inl _ \<Rightarrow> False | Inr events \<Rightarrow> rp_raw_events r = length events)"
proof (cases "fst (rs_iter_all 0 (Some date) store)")
  case (Inr events)
  let ?previous = "if compare then read_previous_rows silver date wanted else []"
  let ?st = "if dry_run then st\<lparr>ns_dlq := empty_dlq\<rparr> else st"
  let ?sinks = "if dry_run then None else Some m"
  obtain r st1 p1 sinks1 where run: "reprocess_events env wanted ?previous clock events (new_reprocess_report tag compare) ?st p ?sinks = (r, st1, p1, sinks1)"
    using prod_cases4 by metis
  have "report_ok (?sinks = None) (new_reprocess_report tag compare)"
    by (simp add: report_ok_def compare_ok_def new_reprocess_report_def new_compare_stats_def)
  note ok = reprocess_events_ok [OF _ this]
  have "case r of Inl x \<Rightarrow> True | Inr r1 \<Rightarrow> report_ok dry_run r1 \<and> rp_raw_events r1 = length events"
  proof (cases r)
    case (Inr r1)
    have "(?sinks = None) = dry_run" by simp
    then show ?thesis using ok [OF run [unfolded Inr]] Inr by (simp add: new_reprocess_report_def)
  qed simp
  then show ?thesis using Inr run by (simp add: run_reprocess_def Let_def split: sum.splits)
qed (simp add: run_reprocess_def)

text \<open>
  A dry run leaves the sinks and the dead letters as they were.
\<close>

theorem dry_run_keeps_sinks:
  "(case run_reprocess env tag date wanted True compare silver clock store st p close m of
      (r, st1, m1) \<Rightarrow> m1 = m \<and> ns_dlq st1 = ns_dlq st)"
proof (cases "fst (rs_iter_all 0 (Some date) store)")
  case (Inr events)
  let ?previous = "if compare then read_previous_rows silver date wanted else []"
  obtain r st1 p1 sinks1 where run: "reprocess_events env wanted ?previous clock events (new_reprocess_report tag compare) (st\<lparr>ns_dlq := empty_dlq\<rparr>) p
      (None :: 'b sink_manager option) = (r, st1, p1, sinks1)"
    using prod_cases4 by metis
  then have "sinks1 = None" using reprocess_events_dry by (metis snd_conv)
  then show ?thesis using Inr run by (simp add: run_reprocess_def Let_def)
qed (simp add: run_reprocess_def)

text \<open>One event that does not parse ends the run: the events after it are not looked at.\<close>

lemma parse_error_ends_run:
  assumes "fst (coordinator_parse (ne_engines (re_stages env)) [] e None) = Inl x"
  shows "reprocess_events env wanted previous clock (e # es) r st p sinks = (Inl x, st, p, sinks)"
  using assms by (simp add: reprocess_one_def)

text \<open>The previous rows are looked up under the ingest date, though rows are filed under the date of the event.\<close>

lemma other_date_has_no_previous:
  "list_all (\<lambda>(d, _, _). d \<noteq> date) silver \<Longrightarrow> read_previous_rows silver date wanted = []"
  by (induction silver) (auto simp: read_previous_rows_def)

text \<open>A dry run records the shape of an unmatched event in the template catalogue, which is a file.\<close>

lemma dry_run_records_template:
  assumes "match_event (ne_search env) (ne_registry env) e = None"
  shows "snd (normalize_process env now e st) = snd (template_only env now e st)"
  using assms by (simp add: normalize_process_def split: prod.split sum.split)

end
