(* ===== verification/Compaction.thy ===== *)
theory Compaction
  imports Complex_Main Parquet_Sink "HOL-Library.Multiset"
begin

text \<open>
  The compaction of the columnar store (\<^verbatim>\<open>ulpf/sinks/compaction.py\<close>). A table is its schema and its rows; writing and reading
  Parquet, and concatenating tables (\<^verbatim>\<open>pyarrow.concat_tables\<close>, which raises when types conflict), are arguments: \<open>join\<close>, and \<open>size_of\<close> for the bytes a table
  takes on disk. A partition is the files of its directory; what a crash leaves of a compaction is a prefix of its steps.
\<close>

section \<open>Tables\<close>

record table =
  tb_schema :: "(string \<times> string) list"
  tb_rows :: "pydict list"

type_synonym concat_fn = "table list \<Rightarrow> table option"

definition null_type :: string where
  "null_type = ''null''"

definition column_types :: "table list \<Rightarrow> string \<Rightarrow> string list" where
  "column_types tables name =
     remdups (map snd (filter (\<lambda>(n, t). n = name \<and> t \<noteq> null_type) (concat (map tb_schema tables))))"

definition conflicting_columns :: "table list \<Rightarrow> string list" where
  "conflicting_columns tables =
     filter (\<lambda>name. 1 < length (column_types tables name)) (remdups (map fst (concat (map tb_schema tables))))"

definition json_cell :: "pyval \<Rightarrow> pyval" where
  "json_cell v = (if v = PNone then PNone else PStr (json_spaced v))"

definition stringify_row :: "string list \<Rightarrow> pydict \<Rightarrow> pydict" where
  "stringify_row names row = map (\<lambda>(k, v). (k, if k \<in> set names then json_cell v else v)) row"

definition stringify_columns :: "string list \<Rightarrow> table \<Rightarrow> table" where
  "stringify_columns names t =
     t\<lparr>tb_schema := map (\<lambda>(k, ty). (k, if k \<in> set names then ''string'' else ty)) (tb_schema t),
       tb_rows := map (stringify_row names) (tb_rows t)\<rparr>"

definition merge_tables :: "concat_fn \<Rightarrow> table list \<Rightarrow> table res" where
  "merge_tables join tables =
     (case join tables of
        Some t \<Rightarrow> Inr t
      | None \<Rightarrow> (case join (map (stringify_columns (conflicting_columns tables)) tables) of
            Some t \<Rightarrow> Inr t
          | None \<Rightarrow> Inl (ValueError ''ArrowInvalid'')))"

section \<open>A partition\<close>

type_synonym partition_files = "(string \<times> table) list"

record compaction_result =
  co_files_before :: nat
  co_files_after :: nat
  co_rows :: nat
  co_bytes_before :: nat
  co_bytes_after :: nat
  co_compacted :: bool

definition is_part :: "string \<Rightarrow> bool" where
  "is_part name \<longleftrightarrow> starts_with ''part-'' name \<and> ends_with ''.parquet'' name"

definition part_files :: "partition_files \<Rightarrow> partition_files" where
  "part_files fs = sort_key fst (filter (\<lambda>(n, _). is_part n) fs)"

definition total_bytes :: "(table \<Rightarrow> nat) \<Rightarrow> partition_files \<Rightarrow> nat" where
  "total_bytes size_of fs = sum_list (map (\<lambda>(_, t). size_of t) fs)"

text \<open>\<^verbatim>\<open>max(1, int(target / max(bytes / rows, 1.0)))\<close>\<close>

definition rows_per_file :: "nat \<Rightarrow> nat \<Rightarrow> nat \<Rightarrow> nat" where
  "rows_per_file rows bytes_before target =
     (if rows = 0 then 1
      else max 1 (nat \<lfloor>(of_nat target :: rat) / max (of_nat bytes_before / of_nat rows) 1\<rfloor>))"

function slices :: "nat \<Rightarrow> 'a list \<Rightarrow> 'a list list" where
  "slices k [] = []"
| "slices k (x # xs) = take (max k 1) (x # xs) # slices k (drop (max k 1) (x # xs))"
  by pat_completeness auto
termination by (relation "measure (\<lambda>(k, xs). length xs)") auto

definition slice_tables :: "table \<Rightarrow> nat \<Rightarrow> table list" where
  "slice_tables t k = map (\<lambda>rows. t\<lparr>tb_rows := rows\<rparr>) (slices k (tb_rows t))"

text \<open>The new files: the names are of the uuids, so that none is taken.\<close>

definition new_name :: "(nat \<Rightarrow> string) \<Rightarrow> nat \<Rightarrow> string" where
  "new_name hex i = ''part-'' @ hex i @ ''.parquet''"

definition temp_name :: "(nat \<Rightarrow> string) \<Rightarrow> nat \<Rightarrow> string" where
  "temp_name hex i = ''.'' @ new_name hex i @ ''.tmp''"

datatype disk_step = Write_Temp nat table | Rename_Temp nat | Unlink_Part string

fun disk_apply :: "(nat \<Rightarrow> string) \<Rightarrow> disk_step \<Rightarrow> partition_files \<Rightarrow> partition_files" where
  "disk_apply hex (Write_Temp i t) fs = dict_set (temp_name hex i) t fs"
| "disk_apply hex (Rename_Temp i) fs =
     (case map_of fs (temp_name hex i) of None \<Rightarrow> fs | Some t \<Rightarrow> dict_set (new_name hex i) t (dict_pop (temp_name hex i) fs))"
| "disk_apply hex (Unlink_Part n) fs = dict_pop n fs"

definition write_steps :: "table list \<Rightarrow> disk_step list" where
  "write_steps ts = concat (map (\<lambda>(i, t). [Write_Temp i t, Rename_Temp i]) (enumerate 0 ts))"

definition compact_steps :: "concat_fn \<Rightarrow> (table \<Rightarrow> nat) \<Rightarrow> nat \<Rightarrow> partition_files \<Rightarrow> (table list \<times> disk_step list) res" where
  "compact_steps join size_of target fs =
     (let parts = part_files fs in
      bind_res (merge_tables join (map snd parts)) (\<lambda>merged.
        let outs = slice_tables merged (rows_per_file (length (tb_rows merged)) (total_bytes size_of parts) target)
        in Inr (outs, write_steps outs @ map (\<lambda>(n, _). Unlink_Part n) parts)))"

definition min_target_bytes :: nat where
  "min_target_bytes = 4096"

record compactor =
  cp_target :: nat
  cp_min_files :: nat

definition new_compactor :: "int \<Rightarrow> int \<Rightarrow> compactor" where
  "new_compactor target min_files = \<lparr>cp_target = max (nat target) min_target_bytes, cp_min_files = max (nat min_files) 1\<rparr>"

definition compact_partition ::
  "concat_fn \<Rightarrow> (table \<Rightarrow> nat) \<Rightarrow> (nat \<Rightarrow> string) \<Rightarrow> compactor \<Rightarrow> partition_files \<Rightarrow> compaction_result res \<times> partition_files" where
  "compact_partition join size_of hex c fs =
     (let parts = part_files fs; bytes_before = total_bytes size_of parts in
      if length parts < cp_min_files c
      then (Inr \<lparr>co_files_before = length parts, co_files_after = length parts,
                 co_rows = (case parts of [] \<Rightarrow> 0 | (_, t) # _ \<Rightarrow> length (tb_rows t)),
                 co_bytes_before = bytes_before, co_bytes_after = bytes_before, co_compacted = False\<rparr>, fs)
      else case compact_steps join size_of (cp_target c) fs of
             Inl x \<Rightarrow> (Inl x, fs)
           | Inr (outs, steps) \<Rightarrow>
               (Inr \<lparr>co_files_before = length parts, co_files_after = length outs, co_rows = length (concat (map tb_rows outs)),
                     co_bytes_before = bytes_before, co_bytes_after = sum_list (map size_of outs), co_compacted = True\<rparr>,
                fold (disk_apply hex) steps fs))"

text \<open>Every partition, in the order of the dates and sources; one that fails is logged and left.\<close>

type_synonym silver_tree = "((string \<times> string) \<times> partition_files) list"

definition wanted_partitions :: "string option \<Rightarrow> silver_tree \<Rightarrow> (string \<times> string) list" where
  "wanted_partitions date tree = sort (filter (\<lambda>(d, _). case date of None \<Rightarrow> True | Some d' \<Rightarrow> d = d') (map fst tree))"

definition compact_one ::
  "concat_fn \<Rightarrow> (table \<Rightarrow> nat) \<Rightarrow> (string \<times> string \<Rightarrow> nat \<Rightarrow> string) \<Rightarrow> compactor \<Rightarrow> string \<times> string
     \<Rightarrow> compaction_result list \<times> silver_tree \<Rightarrow> compaction_result list \<times> silver_tree" where
  "compact_one join size_of hex c key = (\<lambda>(results, tree).
     case map_of tree key of
       None \<Rightarrow> (results, tree)
     | Some fs \<Rightarrow> (case compact_partition join size_of (hex key) c fs of
           (Inl x, _) \<Rightarrow> (results, tree)
         | (Inr r, fs') \<Rightarrow> (results @ [r], dict_set key fs' tree)))"

definition compact_all ::
  "concat_fn \<Rightarrow> (table \<Rightarrow> nat) \<Rightarrow> (string \<times> string \<Rightarrow> nat \<Rightarrow> string) \<Rightarrow> compactor \<Rightarrow> string option \<Rightarrow> silver_tree \<Rightarrow> compaction_result list \<times> silver_tree" where
  "compact_all join size_of hex c date tree = fold (compact_one join size_of hex c) (wanted_partitions date tree) ([], tree)"

section \<open>What a merge keeps\<close>

text \<open>
  What is relied on of \<^verbatim>\<open>concat_tables\<close>: the rows of the tables one after another, each with its cells (a column a table does not have reads as
  null, as it did before).
\<close>

definition keeps_rows :: "concat_fn \<Rightarrow> bool" where
  "keeps_rows join \<longleftrightarrow> (\<forall>ts t. join ts = Some t \<longrightarrow> map py_get (tb_rows t) = map py_get (concat (map tb_rows ts)))"

definition part_rows :: "partition_files \<Rightarrow> pydict list" where
  "part_rows fs = concat (map (\<lambda>(_, t). tb_rows t) (part_files fs))"

definition merged_row :: "table list \<Rightarrow> (pydict \<Rightarrow> pydict) \<Rightarrow> bool" where
  "merged_row ts f \<longleftrightarrow> f = id \<or> f = stringify_row (conflicting_columns ts)"

lemma concat_slices: "concat (slices k xs) = xs"
  by (induction k xs rule: slices.induct) (simp_all del: take_Suc_Cons drop_Suc_Cons)

lemma slice_tables_rows: "concat (map tb_rows (slice_tables t k)) = tb_rows t"
  by (simp add: slice_tables_def o_def concat_slices)

lemma merge_tables_rows:
  assumes "keeps_rows join" and "merge_tables join ts = Inr t"
  shows "\<exists>f. merged_row ts f \<and> map py_get (tb_rows t) = map (py_get \<circ> f) (concat (map tb_rows ts))"
proof (cases "join ts")
  case None
  let ?names = "conflicting_columns ts"
  have "join (map (stringify_columns ?names) ts) = Some t"
    using assms(2) None by (auto simp: merge_tables_def split: option.splits)
  then have "map py_get (tb_rows t) = map py_get (concat (map tb_rows (map (stringify_columns ?names) ts)))"
    using assms(1) unfolding keeps_rows_def by blast
  also have "\<dots> = map (py_get \<circ> stringify_row ?names) (concat (map tb_rows ts))"
    by (simp add: map_concat o_def stringify_columns_def)
  finally show ?thesis unfolding merged_row_def by blast
next
  case (Some t')
  then have "map py_get (tb_rows t) = map (py_get \<circ> id) (concat (map tb_rows ts))"
    using assms unfolding keeps_rows_def by (simp add: merge_tables_def)
  then show ?thesis unfolding merged_row_def by blast
qed

section \<open>The steps on the files\<close>

definition own_name :: "(nat \<Rightarrow> string) \<Rightarrow> string \<Rightarrow> bool" where
  "own_name hex n \<longleftrightarrow> (\<exists>i. n = new_name hex i \<or> n = temp_name hex i)"

definition fresh_names :: "(nat \<Rightarrow> string) \<Rightarrow> partition_files \<Rightarrow> bool" where
  "fresh_names hex fs \<longleftrightarrow> inj hex \<and> dict_ok fs \<and> (\<forall>n \<in> fst ` set fs. \<not> own_name hex n)"

lemma new_name_inj: "inj hex \<Longrightarrow> new_name hex i = new_name hex j \<longleftrightarrow> i = j"
  by (auto simp: new_name_def inj_def)

lemma temp_name_inj: "inj hex \<Longrightarrow> temp_name hex i = temp_name hex j \<longleftrightarrow> i = j"
  using new_name_inj [of hex i j] by (auto simp: temp_name_def)

lemma temp_not_new: "temp_name hex i \<noteq> new_name hex j"
  by (simp add: temp_name_def new_name_def)

lemma temp_not_part: "\<not> is_part (temp_name hex i)"
  by (simp add: is_part_def temp_name_def starts_with_iff)

lemma new_is_part: "is_part (new_name hex i)"
proof -
  have "starts_with ''part-'' (new_name hex i)" by (simp add: new_name_def starts_with_iff)
  moreover have "ends_with ''.parquet'' (new_name hex i)" by (simp add: new_name_def ends_with_iff)
  ultimately show ?thesis by (simp add: is_part_def)
qed

abbreviation new_entries :: "(nat \<Rightarrow> string) \<Rightarrow> nat \<Rightarrow> table list \<Rightarrow> partition_files" where
  "new_entries hex i ts \<equiv> map (\<lambda>(j, t). (new_name hex j, t)) (enumerate i ts)"

abbreviation steps_from :: "nat \<Rightarrow> table list \<Rightarrow> disk_step list" where
  "steps_from i ts \<equiv> concat (map (\<lambda>(j, t). [Write_Temp j t, Rename_Temp j]) (enumerate i ts))"

lemma set_fresh: "k \<notin> fst ` set d \<Longrightarrow> dict_set k v d = d @ [(k, v)]"
  by (induction k v d rule: dict_set.induct) auto

lemma pop_last: "k \<notin> fst ` set d \<Longrightarrow> dict_pop k (d @ [(k, v)]) = d"
  by (induction k d rule: dict_pop.induct) auto

text \<open>Names from an index on are free in a listing.\<close>

definition free_from :: "(nat \<Rightarrow> string) \<Rightarrow> nat \<Rightarrow> partition_files \<Rightarrow> bool" where
  "free_from hex i gs \<longleftrightarrow> (\<forall>j \<ge> i. new_name hex j \<notin> fst ` set gs \<and> temp_name hex j \<notin> fst ` set gs)"

lemma free_after_new: "inj hex \<Longrightarrow> free_from hex i gs \<Longrightarrow> free_from hex (Suc i) (gs @ [(new_name hex i, t)])"
  using new_name_inj temp_not_new by (fastforce simp: free_from_def)

lemma write_temp: "free_from hex i gs \<Longrightarrow> disk_apply hex (Write_Temp i t) gs = gs @ [(temp_name hex i, t)]"
  by (simp add: free_from_def set_fresh)

lemma rename_temp:
  assumes "free_from hex i gs"
  shows "disk_apply hex (Rename_Temp i) (gs @ [(temp_name hex i, t)]) = gs @ [(new_name hex i, t)]"
proof -
  have t: "temp_name hex i \<notin> fst ` set gs" "new_name hex i \<notin> fst ` set gs" using assms by (auto simp: free_from_def)
  then have "map_of (gs @ [(temp_name hex i, t)]) (temp_name hex i) = Some t"
    by (simp add: map_add_def map_of_eq_None_iff [THEN iffD2])
  then show ?thesis using t by (simp add: pop_last set_fresh)
qed

text \<open>A prefix of the writes leaves the files that were there, some outputs and at most one temporary file.\<close>

lemma writes_prefix:
  assumes "inj hex" and "free_from hex i gs"
  shows "\<exists>m tmp. fold (disk_apply hex) (take k (steps_from i ts)) gs = gs @ new_entries hex i (take m ts) @ tmp
     \<and> list_all (\<lambda>(n, _). \<not> is_part n) tmp \<and> (length (steps_from i ts) \<le> k \<longrightarrow> m = length ts \<and> tmp = [])"
  using assms(2)
proof (induction ts arbitrary: i k gs)
  case Nil
  then show ?case by (intro exI [of _ 0] exI [of _ "[]"]) simp
next
  case (Cons t ts)
  consider "k = 0" | "k = 1" | k' where "k = Suc (Suc k')" by (metis One_nat_def not0_implies_Suc)
  then show ?case
  proof cases
    case 1
    then show ?thesis by (intro exI [of _ 0] exI [of _ "[]"]) simp
  next
    case 2
    then show ?thesis
      using write_temp [OF Cons.prems, of t] temp_not_part by (intro exI [of _ 0] exI [of _ "[(temp_name hex i, t)]"]) simp
  next
    case 3
    let ?gs = "gs @ [(new_name hex i, t)]"
    have two: "fold (disk_apply hex) (take k (steps_from i (t # ts))) gs = fold (disk_apply hex) (take k' (steps_from (Suc i) ts)) ?gs"
      using 3 write_temp [OF Cons.prems] rename_temp [OF Cons.prems] by (simp del: disk_apply.simps)
    obtain m tmp where "fold (disk_apply hex) (take k' (steps_from (Suc i) ts)) ?gs = ?gs @ new_entries hex (Suc i) (take m ts) @ tmp"
      "list_all (\<lambda>(n, _). \<not> is_part n) tmp" "length (steps_from (Suc i) ts) \<le> k' \<longrightarrow> m = length ts \<and> tmp = []"
      using Cons.IH [OF free_after_new [OF assms(1) Cons.prems], of k' t] by blast
    then show ?thesis using two 3 by (intro exI [of _ "Suc m"] exI [of _ tmp]) simp
  qed
qed

lemma pop_filter: "dict_ok d \<Longrightarrow> dict_pop n d = filter (\<lambda>p. fst p \<noteq> n) d"
proof (induction d)
  case (Cons p d)
  obtain k v where p: "p = (k, v)" by (cases p)
  have "k = n \<Longrightarrow> filter (\<lambda>p. fst p \<noteq> n) d = d" using Cons.prems by (force simp: p dict_ok_def filter_id_conv)
  then show ?case using Cons by (simp add: p dict_ok_def)
qed simp

lemma unlink_filter:
  "dict_ok gs \<Longrightarrow> fold (disk_apply hex) (map Unlink_Part names) gs = filter (\<lambda>p. fst p \<notin> set names) gs"
proof (induction names arbitrary: gs)
  case (Cons n names)
  have "dict_ok (filter (\<lambda>p. fst p \<noteq> n) gs)" using Cons.prems pop_filter [OF Cons.prems, of n] dict_ok_pop by metis
  then show ?case using Cons.IH pop_filter [OF Cons.prems, of n] by (simp add: conj_commute)
qed simp

lemma mset_part_rows: "mset (part_rows gs) = mset (concat (map (\<lambda>(_, t). tb_rows t) (filter (\<lambda>(n, _). is_part n) gs)))"
proof -
  have m: "mset (concat (map f xs)) = (\<Sum>x \<in># mset xs. mset (f x))" for f :: "'a \<Rightarrow> pydict list" and xs
    by (induction xs) simp_all
  show ?thesis unfolding part_rows_def part_files_def m by simp
qed

lemma set_part_rows: "set (part_rows gs) = (\<Union>(n, t) \<in> set (filter (\<lambda>(n, _). is_part n) gs). set (tb_rows t))"
  by (auto simp: part_rows_def part_files_def)

lemma fresh_key: "fresh_names hex fs \<Longrightarrow> own_name hex n \<Longrightarrow> (n, t) \<notin> set fs"
  by (force simp: fresh_names_def)

lemma own_names: "own_name hex (new_name hex i)" "own_name hex (temp_name hex i)"
  by (auto simp: own_name_def)

lemma fresh_free: "fresh_names hex fs \<Longrightarrow> free_from hex 0 fs"
  using fresh_key own_names by (fastforce simp: free_from_def)

lemma new_entry_fresh: "fresh_names hex fs \<Longrightarrow> (n, t) \<in> set (new_entries hex i ts) \<Longrightarrow> n \<notin> fst ` set fs"
  using fresh_key own_names by fastforce

lemma new_entry_names: "fst ` set (new_entries hex i ts) \<subseteq> range (new_name hex)"
  by (auto simp: in_set_enumerate_eq)

lemma news_dict_ok:
  assumes "fresh_names hex fs"
  shows "dict_ok (fs @ new_entries hex 0 ts)"
proof -
  have "map fst (new_entries hex i ts) = map (new_name hex) [i..<i + length ts]" for i
    by (induction ts arbitrary: i) (simp_all add: upt_rec)
  moreover have "distinct (map (new_name hex) [0..<length ts])" using assms new_name_inj by (auto simp: distinct_map inj_on_def fresh_names_def)
  ultimately have "distinct (map fst (new_entries hex 0 ts))" by simp
  moreover have "fst ` set fs \<inter> fst ` set (new_entries hex 0 ts) = {}" using new_entry_fresh [OF assms] by force
  ultimately show ?thesis using assms by (simp add: dict_ok_def fresh_names_def del: map_map list.set_map)
qed

text \<open>The whole of a compaction.\<close>

lemma compact_steps_end:
  assumes "fresh_names hex fs" and "compact_steps join size_of target fs = Inr (outs, steps)"
  shows "fold (disk_apply hex) steps fs = filter (\<lambda>(n, _). \<not> is_part n) fs @ new_entries hex 0 outs"
proof -
  let ?names = "map fst (part_files fs)"
  have steps: "steps = steps_from 0 outs @ map Unlink_Part ?names"
    using assms(2) by (auto simp: compact_steps_def bind_res_Inr_iff Let_def write_steps_def o_def case_prod_unfold)
  have inj: "inj hex" using assms(1) by (simp add: fresh_names_def)
  obtain m tmp where "fold (disk_apply hex) (take (length (steps_from 0 outs)) (steps_from 0 outs)) fs = fs @ new_entries hex 0 (take m outs) @ tmp"
    "m = length outs" "tmp = []"
    using writes_prefix [OF inj fresh_free [OF assms(1)], of "length (steps_from 0 outs)" outs] by blast
  then have w: "fold (disk_apply hex) (steps_from 0 outs) fs = fs @ new_entries hex 0 outs" by simp
  have part: "fst p \<in> set ?names \<longleftrightarrow> is_part (fst p)" if "p \<in> set fs" for p
    using that by (force simp: part_files_def)
  have "fst p \<notin> set ?names" if "p \<in> set (new_entries hex 0 outs)" for p
  proof -
    have "fst p \<notin> fst ` set fs" using that new_entry_fresh [OF assms(1)] by (metis prod.collapse)
    moreover have "set ?names \<subseteq> fst ` set fs" by (auto simp: part_files_def)
    ultimately show ?thesis by blast
  qed
  then have "filter (\<lambda>p. fst p \<notin> set ?names) (new_entries hex 0 outs) = new_entries hex 0 outs" by (simp add: filter_id_conv del: set_map list.set_map)
  moreover have "filter (\<lambda>p. fst p \<notin> set ?names) fs = filter (\<lambda>(n, _). \<not> is_part n) fs"
    by (rule filter_cong) (auto simp: part case_prod_unfold simp del: set_map list.set_map)
  ultimately show ?thesis
    by (simp add: steps w unlink_filter [OF news_dict_ok [OF assms(1)]] del: map_map set_map list.set_map)
qed

lemma out_rows:
  assumes "keeps_rows join" and "compact_steps join size_of target fs = Inr (outs, steps)"
  shows "\<exists>f. merged_row (map snd (part_files fs)) f \<and> map py_get (concat (map tb_rows outs)) = map (py_get \<circ> f) (part_rows fs)"
proof -
  obtain t where t: "merge_tables join (map snd (part_files fs)) = Inr t" and outs: "concat (map tb_rows outs) = tb_rows t"
    using assms(2) slice_tables_rows by (auto simp: compact_steps_def bind_res_Inr_iff Let_def)
  have "concat (map tb_rows (map snd (part_files fs))) = part_rows fs" by (simp add: part_rows_def o_def case_prod_unfold)
  then show ?thesis using merge_tables_rows [OF assms(1) t] outs by simp
qed

lemma rows_of_new: "filter (\<lambda>(n, _). is_part n) (new_entries hex i ts) = new_entries hex i ts"
  using new_is_part by (auto simp: filter_id_conv in_set_enumerate_eq)

lemma concat_new_rows: "concat (map (\<lambda>(_, t). tb_rows t) (new_entries hex i ts)) = concat (map tb_rows ts)"
  by (induction ts arbitrary: i) simp_all

section \<open>Properties\<close>


text \<open>A concatenation that refuses tables whose column types differ, and two files that differ in the type of a port.\<close>

definition strict_join :: concat_fn where
  "strict_join ts = (if conflicting_columns ts = [] then Some \<lparr>tb_schema = remdups (concat (map tb_schema ts)), tb_rows = concat (map tb_rows ts)\<rparr> else None)"

lemma strict_join_keeps: "keeps_rows strict_join"
  by (simp add: keeps_rows_def strict_join_def)

definition letter_hex :: "nat \<Rightarrow> string" where
  "letter_hex i = replicate i CHR ''a''"

definition drifted_files :: partition_files where
  "drifted_files = [(''part-1.parquet'', \<lparr>tb_schema = [(''port'', ''int64'')], tb_rows = [[(''port'', PInt 443)], [(''port'', PNone)]]\<rparr>),
     (''part-2.parquet'', \<lparr>tb_schema = [(''port'', ''string'')], tb_rows = [[(''port'', PStr ''https'')]]\<rparr>), (''notes'', \<lparr>tb_schema = [], tb_rows = []\<rparr>)]"

lemma drifted_fresh: "fresh_names letter_hex drifted_files"
proof -
  have "inj letter_hex" by (auto simp: inj_def letter_hex_def)
  moreover have "\<not> own_name letter_hex n" if "n \<in> {''part-1.parquet'', ''part-2.parquet'', ''notes''}" for n
  proof
    assume "own_name letter_hex n"
    then obtain i where "n = new_name letter_hex i \<or> n = temp_name letter_hex i" by (auto simp: own_name_def)
    then show False using that by (cases i) (auto simp: new_name_def temp_name_def letter_hex_def)
  qed
  ultimately show ?thesis by (simp add: fresh_names_def drifted_files_def dict_ok_def)
qed

lemma drifted_parts: "part_files drifted_files = take 2 drifted_files"
  by code_simp

lemma drifted_merge: "merge_tables strict_join (map snd (part_files drifted_files)) = Inr
   \<lparr>tb_schema = [(''port'', ''string'')], tb_rows = [[(''port'', PStr ''443'')], [(''port'', PNone)], [(''port'', PStr [CHR 0x22, CHR ''h'', CHR ''t'', CHR ''t'', CHR ''p'', CHR ''s'', CHR 0x22])]]\<rparr>"
  by code_simp

lemma drifted_compacts: "\<exists>outs steps. compact_steps strict_join (\<lambda>_. 100) 4096 drifted_files = Inr (outs, steps)"
  by (simp add: compact_steps_def drifted_merge Let_def)




text \<open>Between the last rename and the first deletion every row is there twice.\<close>

lemma crash_before_deletes_doubles:
  assumes "fresh_names hex fs" and "compact_steps join size_of target fs = Inr (outs, steps)"
  shows "mset (part_rows (fold (disk_apply hex) (write_steps outs) fs)) = mset (part_rows fs) + mset (concat (map tb_rows outs))"
proof -
  have inj: "inj hex" using assms(1) by (simp add: fresh_names_def)
  obtain m tmp where "fold (disk_apply hex) (take (length (steps_from 0 outs)) (steps_from 0 outs)) fs = fs @ new_entries hex 0 (take m outs) @ tmp"
    "m = length outs" "tmp = []"
    using writes_prefix [OF inj fresh_free [OF assms(1)], of "length (steps_from 0 outs)" outs] by blast
  then have "fold (disk_apply hex) (write_steps outs) fs = fs @ new_entries hex 0 outs" by (simp add: write_steps_def)
  then show ?thesis by (simp only: mset_part_rows filter_append rows_of_new map_append concat_append concat_new_rows mset_append)
qed

end
