(* ===== verification/Net_Intake.thy ===== *)
theory Net_Intake
  imports Stream_Framing Coordinator Parquet_Sink "HOL-Library.Multiset"
begin

text \<open>
  The two intakes that are not streams: the UDP syslog listener (\<^verbatim>\<open>ulpf/ingest/syslog_udp.py\<close>), whose datagrams become
  tasks that run the callback, and the HTTP intake (\<^verbatim>\<open>ulpf/ingest/http_intake.py\<close>) with its three routes. The uids and clock
  readings of the events are arguments; the callback is a function from an event and its own state to the exception it
  raises, if any, and its next state. Binding sockets, and the request object of FastAPI beyond its body, its query and
  its headers, are left out.
\<close>

section \<open>Datagrams\<close>

record udp_listener =
  ul_tasks :: "raw_event list"
  ul_received :: nat
  ul_bytes :: nat
  ul_open :: bool
  ul_failed :: "string list"
  ul_datagrams :: "bytes list"
  ul_dispatched :: "raw_event list"

definition new_udp_listener :: udp_listener where
  "new_udp_listener = \<lparr>ul_tasks = [], ul_received = 0, ul_bytes = 0, ul_open = True, ul_failed = [], ul_datagrams = [], ul_dispatched = []\<rparr>"

definition on_datagram ::
  "(bytes \<Rightarrow> bytes) \<Rightarrow> (nat \<Rightarrow> string) \<Rightarrow> (nat \<Rightarrow> int) \<Rightarrow> string \<Rightarrow> bytes \<Rightarrow> string \<Rightarrow> udp_listener \<Rightarrow> udp_listener" where
  "on_datagram H uids nows src data pr l =
     l\<lparr>ul_received := ul_received l + 1, ul_bytes := ul_bytes l + length data, ul_datagrams := ul_datagrams l @ [data],
       ul_tasks := ul_tasks l @ [make_raw_event H (uids (ul_received l)) (nows (ul_received l)) data src Udp (Some pr)]\<rparr>"

text \<open>A task comes to its end: the callback has returned or has raised, which is logged.\<close>

definition udp_dispatch :: "(raw_event \<Rightarrow> exn option) \<Rightarrow> raw_event \<Rightarrow> udp_listener \<Rightarrow> udp_listener" where
  "udp_dispatch on_event e l =
     (let l1 = l\<lparr>ul_tasks := remove1 e (ul_tasks l), ul_dispatched := ul_dispatched l @ [e]\<rparr>
      in case on_event e of None \<Rightarrow> l1 | Some x \<Rightarrow> l1\<lparr>ul_failed := ul_failed l1 @ [event_uid e]\<rparr>)"

text \<open>The transport is closed, then the tasks in flight are awaited, whatever they end with.\<close>

definition udp_stop :: "(raw_event \<Rightarrow> exn option) \<Rightarrow> udp_listener \<Rightarrow> udp_listener" where
  "udp_stop on_event l = fold (udp_dispatch on_event) (ul_tasks l) (l\<lparr>ul_open := False\<rparr>)"

inductive udp_step ::
  "(bytes \<Rightarrow> bytes) \<Rightarrow> (nat \<Rightarrow> string) \<Rightarrow> (nat \<Rightarrow> int) \<Rightarrow> string \<Rightarrow> (raw_event \<Rightarrow> exn option) \<Rightarrow> udp_listener \<Rightarrow> udp_listener \<Rightarrow> bool"
  for H uids nows src on_event where
  Datagram: "ul_open l \<Longrightarrow> udp_step H uids nows src on_event l (on_datagram H uids nows src data pr l)"
| Task_Ends: "e \<in> set (ul_tasks l) \<Longrightarrow> udp_step H uids nows src on_event l (udp_dispatch on_event e l)"

inductive udp_run ::
  "(bytes \<Rightarrow> bytes) \<Rightarrow> (nat \<Rightarrow> string) \<Rightarrow> (nat \<Rightarrow> int) \<Rightarrow> string \<Rightarrow> (raw_event \<Rightarrow> exn option) \<Rightarrow> udp_listener \<Rightarrow> bool"
  for H uids nows src on_event where
  Start: "udp_run H uids nows src on_event new_udp_listener"
| Step: "udp_run H uids nows src on_event l \<Longrightarrow> udp_step H uids nows src on_event l l' \<Longrightarrow> udp_run H uids nows src on_event l'"

definition udp_ok :: "(bytes \<Rightarrow> bytes) \<Rightarrow> (raw_event \<Rightarrow> exn option) \<Rightarrow> udp_listener \<Rightarrow> bool" where
  "udp_ok H on_event l \<longleftrightarrow>
     mset (map raw (ul_dispatched l)) + mset (map raw (ul_tasks l)) = mset (ul_datagrams l) \<and>
     list_all (evidence_ok H) (ul_dispatched l @ ul_tasks l) \<and>
     ul_received l = length (ul_datagrams l) \<and> ul_bytes l = length (concat (ul_datagrams l)) \<and>
     ul_failed l = map event_uid (filter (\<lambda>e. on_event e \<noteq> None) (ul_dispatched l))"

lemma udp_ok_new: "udp_ok H on_event new_udp_listener"
  by (simp add: udp_ok_def new_udp_listener_def)

lemma udp_ok_datagram: "udp_ok H on_event l \<Longrightarrow> udp_ok H on_event (on_datagram H uids nows src data pr l)"
  by (simp add: udp_ok_def on_datagram_def) (simp add: make_raw_event_def)

lemma udp_ok_dispatch:
  assumes "udp_ok H on_event l" "e \<in> set (ul_tasks l)"
  shows "udp_ok H on_event (udp_dispatch on_event e l)"
proof -
  have "add_mset (raw e) (mset (map raw (remove1 e (ul_tasks l)))) = mset (map raw (ul_tasks l))"
    using assms(2) by (metis image_mset_add_mset mset_map mset_remove1 insert_DiffM set_mset_mset)
  then have "mset (map raw (ul_dispatched l)) + add_mset (raw e) (mset (map raw (remove1 e (ul_tasks l)))) = mset (ul_datagrams l)"
    using assms(1) by (simp add: udp_ok_def)
  moreover have "list_all (evidence_ok H) (remove1 e (ul_tasks l))" "evidence_ok H e"
    using assms set_remove1_subset [of e "ul_tasks l"] by (auto simp: udp_ok_def list_all_iff)
  ultimately show ?thesis
    using assms by (auto simp: udp_ok_def udp_dispatch_def Let_def split: option.splits)
qed

lemma udp_ok_run: "udp_run H uids nows src on_event l \<Longrightarrow> udp_ok H on_event l"
proof (induction rule: udp_run.induct)
  case (Step l l')
  from Step(2) show ?case
    by cases (use Step.IH in \<open>simp_all add: udp_ok_datagram udp_ok_dispatch\<close>)
qed (rule udp_ok_new)

lemma stop_drains:
  "udp_ok H on_event l \<Longrightarrow> ul_tasks l = es \<Longrightarrow>
   udp_ok H on_event (fold (udp_dispatch on_event) es l) \<and> ul_tasks (fold (udp_dispatch on_event) es l) = [] \<and>
   ul_datagrams (fold (udp_dispatch on_event) es l) = ul_datagrams l"
proof (induction es arbitrary: l)
  case (Cons e es)
  have "ul_tasks (udp_dispatch on_event e l) = es" "ul_datagrams (udp_dispatch on_event e l) = ul_datagrams l"
    using Cons.prems(2) by (auto simp: udp_dispatch_def Let_def split: option.splits)
  then show ?case
    using Cons.IH [of "udp_dispatch on_event e l"] udp_ok_dispatch [OF Cons.prems(1), of e] Cons.prems(2) by simp
qed simp

text \<open>
  C20. Every datagram the listener got, in whatever order the tasks end, has been given to the callback exactly once when the
  listener has stopped, byte for byte and under the hash of its bytes, and the counters agree.
\<close>

theorem udp_delivers_datagrams:
  assumes "udp_run H uids nows src on_event l"
  shows "mset (map raw (ul_dispatched (udp_stop on_event l))) = mset (ul_datagrams l)
    \<and> list_all (evidence_ok H) (ul_dispatched (udp_stop on_event l)) \<and> ul_tasks (udp_stop on_event l) = []
    \<and> ul_received l = length (ul_datagrams l)"
proof -
  have ok: "udp_ok H on_event l" using udp_ok_run [OF assms] .
  then have "udp_ok H on_event (l\<lparr>ul_open := False\<rparr>)" by (simp add: udp_ok_def)
  from stop_drains [OF this, of "ul_tasks l"]
  have "udp_ok H on_event (udp_stop on_event l)" "ul_tasks (udp_stop on_event l) = []"
    "ul_datagrams (udp_stop on_event l) = ul_datagrams l"
    by (simp_all add: udp_stop_def)
  with ok show ?thesis by (simp add: udp_ok_def)
qed

theorem udp_delivers_datagrams_witness:
  "ul_dispatched (udp_stop (\<lambda>_. None) (on_datagram (\<lambda>b. b) (\<lambda>_. ''u'') (\<lambda>_. 0) ''udp'' [60, 49] ''h'' new_udp_listener)) \<noteq> []"
proof -
  let ?l = "on_datagram (\<lambda>b. b) (\<lambda>_. ''u'') (\<lambda>_. 0) ''udp'' [60, 49] ''h'' new_udp_listener"
  have "udp_run (\<lambda>b. b) (\<lambda>_. ''u'') (\<lambda>_. 0) ''udp'' (\<lambda>_. None) ?l"
    by (rule udp_run.Step [OF udp_run.Start udp_step.Datagram]) (simp add: new_udp_listener_def)
  from udp_delivers_datagrams [OF this] show ?thesis
    by (auto simp: on_datagram_def new_udp_listener_def)
qed

section \<open>HTTP: reading the body\<close>

text \<open>
  A request ends with a result, with a refusal (\<^verbatim>\<open>HTTPException\<close>: its status, and for a 503 how many events were
  accepted), or with an exception no handler expects, which the server answers with a 500.
\<close>

datatype refusal = Http_Refused nat "nat option" | Http_Crash exn

type_synonym 'a http = "refusal + 'a"

definition bind_http :: "'a http \<Rightarrow> ('a \<Rightarrow> 'b http) \<Rightarrow> 'b http" where
  "bind_http r f = (case r of Inl x \<Rightarrow> Inl x | Inr a \<Rightarrow> f a)"

lemma bind_http_simps [simp]: "bind_http (Inl x) f = Inl x" "bind_http (Inr a) f = f a"
  by (simp_all add: bind_http_def)

definition crash :: "'a res \<Rightarrow> 'a http" where
  "crash r = (case r of Inl x \<Rightarrow> Inl (Http_Crash x) | Inr a \<Rightarrow> Inr a)"

definition read_capped_body :: "string option \<Rightarrow> nat \<Rightarrow> bytes \<Rightarrow> bytes http" where
  "read_capped_body declared max_bytes body =
     bind_http (case declared of
                  None \<Rightarrow> Inr False
                | Some s \<Rightarrow> if s \<noteq> [] \<and> list_all is_digit s
                           then bind_http (crash (py_int (PStr s))) (\<lambda>n. Inr (int max_bytes < n)) else Inr False)
       (\<lambda>too_large. if too_large \<or> max_bytes < length body then Inl (Http_Refused 413 None) else Inr body)"

definition ascii_space :: "byte \<Rightarrow> bool" where
  "ascii_space b \<longleftrightarrow> b \<in> {9, 10, 11, 12, 13, 32}"

definition blank_line :: "bytes \<Rightarrow> bool" where
  "blank_line l \<longleftrightarrow> list_all ascii_space l"

definition body_lines :: "bytes \<Rightarrow> bytes list" where
  "body_lines body = filter (\<lambda>l. \<not> blank_line l) (map trim_cr (split_on [10] body))"

section \<open>HTTP: JSON\<close>

text \<open>
  \<^verbatim>\<open>json.loads\<close> of bytes: \<^verbatim>\<open>detect_encoding\<close>, then strict decoding (with \<^verbatim>\<open>surrogatepass\<close>), then parsing. The argument
  \<open>wide\<close> decodes what is recognised as UTF-16 or UTF-32.
\<close>

definition strict_step :: "nat \<Rightarrow> nat list \<Rightarrow> (nat \<times> nat list) option" where
  "strict_step b r =
     (let plain = (case utf8_step b r of
                     (p, r') \<Rightarrow> if p = replacement \<and> \<not> (b = 239 \<and> take 2 r = [191, 189]) then None else Some (p, r'))
      in case r of
           c # d # r2 \<Rightarrow> if b = 237 \<and> 160 \<le> c \<and> c \<le> 191 \<and> cont d
                        then Some (((b - 224) * 64 + (c - 128)) * 64 + (d - 128), r2) else plain
         | _ \<Rightarrow> plain)"

lemma length_strict_step: "strict_step b r = Some (p, r') \<Longrightarrow> length r' \<le> length r"
  using length_utf8_step [of b r] by (auto simp: strict_step_def Let_def split: list.splits prod.splits if_splits)

function strict_points :: "nat list \<Rightarrow> nat list option" where
  "strict_points [] = Some []"
| "strict_points (b # r) =
     (case strict_step b r of None \<Rightarrow> None | Some (p, r') \<Rightarrow> map_option ((#) p) (strict_points r'))"
  by pat_completeness auto
termination
proof (relation "measure length", goal_cases)
  case (2 b r x p r')
  then show ?case using length_strict_step [of b r p r'] by simp
qed simp

definition strict_utf8 :: "bytes \<Rightarrow> string res" where
  "strict_utf8 bs =
     (case strict_points (map unat bs) of
        None \<Rightarrow> Inl (ValueError ''UnicodeDecodeError'') | Some ps \<Rightarrow> Inr (map text_char ps))"

definition wide_encoding :: "bytes \<Rightarrow> bool" where
  "wide_encoding bs \<longleftrightarrow>
     starts_with [0, 0, 0xFE, 0xFF] bs \<or> starts_with [0xFF, 0xFE] bs \<or> starts_with [0xFE, 0xFF] bs \<or>
     (4 \<le> length bs \<or> length bs = 2) \<and> (bs ! 0 = 0 \<or> bs ! 1 = 0)"

definition decode_json :: "(bytes \<Rightarrow> string res) \<Rightarrow> bytes \<Rightarrow> string res" where
  "decode_json wide bs =
     (if wide_encoding bs then wide bs
      else if starts_with [0xEF, 0xBB, 0xBF] bs then strict_utf8 (drop 3 bs) else strict_utf8 bs)"

text \<open>A text that is no JSON raises \<^verbatim>\<open>JSONDecodeError\<close>, which becomes a 422; bytes that are no text raise \<^verbatim>\<open>UnicodeDecodeError\<close>, which is none.\<close>

definition loads_or_422 :: "(bytes \<Rightarrow> string res) \<Rightarrow> bytes \<Rightarrow> pyval http" where
  "loads_or_422 wide bs =
     bind_http (crash (decode_json wide bs)) (\<lambda>t. case json_loads t of None \<Rightarrow> Inl (Http_Refused 422 None) | Some v \<Rightarrow> Inr v)"

text \<open>\<^verbatim>\<open>json.dumps\<close> with \<^verbatim>\<open>ensure_ascii=False\<close>: only quotes, backslashes and control characters are escaped.\<close>

definition json_escape_plain :: "char \<Rightarrow> string" where
  "json_escape_plain c = (if 126 < code c then [c] else json_escape c)"

definition json_string_plain :: "string \<Rightarrow> string" where
  "json_string_plain s = CHR 0x22 # concat (map json_escape_plain s) @ [CHR 0x22]"

fun json_plain :: "pyval \<Rightarrow> string"
  and plain_items :: "pyval list \<Rightarrow> string"
  and plain_members :: "(string \<times> pyval) list \<Rightarrow> string" where
  "json_plain (PStr s) = json_string_plain s"
| "json_plain (PList xs) = CHR ''['' # plain_items xs @ '']''"
| "json_plain (PDict d) = CHR ''{'' # plain_members d @ ''}''"
| "json_plain v = json_dumps v"
| "plain_items [] = []"
| "plain_items [x] = json_plain x"
| "plain_items (x # y # ys) = json_plain x @ '','' @ plain_items (y # ys)"
| "plain_members [] = []"
| "plain_members [(k, v)] = json_string_plain k @ '':'' @ json_plain v"
| "plain_members ((k, v) # m # ms) = json_string_plain k @ '':'' @ json_plain v @ '','' @ plain_members (m # ms)"

definition canonical_json :: "pyval \<Rightarrow> bytes" where
  "canonical_json v = encode_utf8 (json_plain (sort_json v))"

fun json_line_events :: "(bytes \<Rightarrow> string res) \<Rightarrow> bytes list \<Rightarrow> bytes list http" where
  "json_line_events wide [] = Inr []"
| "json_line_events wide (chunk # chunks) =
     (let line = trim_cr chunk
      in if blank_line line then json_line_events wide chunks
         else bind_http (loads_or_422 wide line) (\<lambda>_. bind_http (json_line_events wide chunks) (\<lambda>rest. Inr (line # rest))))"

definition parse_json_events :: "(bytes \<Rightarrow> string res) \<Rightarrow> bytes \<Rightarrow> bytes list http" where
  "parse_json_events wide body =
     (let stripped = dropWhile ascii_space body
      in if stripped = [] then Inr []
         else if take 1 stripped = [91]
         then bind_http (loads_or_422 wide body) (\<lambda>v.
                case v of PList xs \<Rightarrow> Inr (map canonical_json xs) | _ \<Rightarrow> Inl (Http_Refused 422 None))
         else json_line_events wide (split_on [10] body))"

section \<open>HTTP: the Splunk event collector\<close>

definition hec_item :: "string \<Rightarrow> pyval \<Rightarrow> (bytes \<times> string) http" where
  "hec_item source v =
     (case v of
        PDict d \<Rightarrow>
          (case map_of d ''event'' of
             None \<Rightarrow> Inl (Http_Refused 422 None)
           | Some e \<Rightarrow> Inr (case e of PStr s \<Rightarrow> encode_utf8 s | _ \<Rightarrow> canonical_json e,
                           py_str (py_or (py_get d ''sourcetype'') (PStr source))))
      | _ \<Rightarrow> Inl (Http_Refused 422 None))"

text \<open>
  The loop over the concatenated objects; a position is the rest of the text. Each object takes at least one character,
  so that as many rounds as there are characters are enough (\<open>hec_rounds_enough\<close>).
\<close>

fun hec_objects :: "nat \<Rightarrow> string \<Rightarrow> string \<Rightarrow> (bytes \<times> string) list http" where
  "hec_objects 0 source t = Inr []"
| "hec_objects (Suc k) source t =
     (let t1 = lstrip_by is_space t
      in if t1 = [] then Inr []
         else case parse_value (Suc (length t1)) t1 of
                None \<Rightarrow> Inl (Http_Refused 422 None)
              | Some (v, rest) \<Rightarrow>
                  bind_http (hec_item source v) (\<lambda>item. bind_http (hec_objects k source rest) (\<lambda>items. Inr (item # items))))"

definition parse_hec_events :: "bytes \<Rightarrow> string \<Rightarrow> (bytes \<times> string) list http" where
  "parse_hec_events body source =
     (let t = py_strip (decode_utf8 body) in if t = [] then Inr [] else hec_objects (Suc (length t)) source t)"

section \<open>HTTP: the routes\<close>

record ingest_result =
  ig_accepted :: nat
  ig_event_uids :: "string list"

text \<open>\<open>emitted\<close> are the events given to the callback so far, the last of which it may have refused.\<close>

fun emit_items ::
  "(bytes \<Rightarrow> bytes) \<Rightarrow> (nat \<Rightarrow> string) \<Rightarrow> (nat \<Rightarrow> int) \<Rightarrow> string option \<Rightarrow> (raw_event \<Rightarrow> 's \<Rightarrow> exn option \<times> 's) \<Rightarrow> string list
    \<Rightarrow> (bytes \<times> string) list \<Rightarrow> 's \<Rightarrow> ingest_result http \<times> raw_event list \<times> 's" where
  "emit_items H uids nows pr on_event done [] s = (Inr \<lparr>ig_accepted = length done, ig_event_uids = done\<rparr>, [], s)"
| "emit_items H uids nows pr on_event done ((body, src) # items) s =
     (let e = make_raw_event H (uids (length done)) (nows (length done)) body src Http pr
      in case on_event e s of
           (Some x, s1) \<Rightarrow> (Inl (case x of IngestError m \<Rightarrow> Http_Refused 503 (Some (length done)) | _ \<Rightarrow> Http_Crash x), [e], s1)
         | (None, s1) \<Rightarrow> (case emit_items H uids nows pr on_event (done @ [event_uid e]) items s1 of
                           (r, emitted, s2) \<Rightarrow> (r, e # emitted, s2)))"

datatype intake_route = Ingest_Raw | Ingest_Json | Ingest_Hec

definition default_source :: "intake_route \<Rightarrow> string" where
  "default_source r = (case r of Ingest_Raw \<Rightarrow> ''http-raw'' | Ingest_Json \<Rightarrow> ''http-json'' | Ingest_Hec \<Rightarrow> ''http-hec'')"

definition route_items :: "(bytes \<Rightarrow> string res) \<Rightarrow> intake_route \<Rightarrow> string option \<Rightarrow> bytes \<Rightarrow> (bytes \<times> string) list http" where
  "route_items wide route query_source body =
     (let sid = (case query_source of Some s \<Rightarrow> if s = [] then default_source route else s | None \<Rightarrow> default_source route)
      in case route of
           Ingest_Raw \<Rightarrow> Inr (map (\<lambda>l. (l, sid)) (body_lines body))
         | Ingest_Json \<Rightarrow> bind_http (parse_json_events wide body) (\<lambda>ls. Inr (map (\<lambda>l. (l, sid)) ls))
         | Ingest_Hec \<Rightarrow> parse_hec_events body sid)"

definition http_intake ::
  "(bytes \<Rightarrow> bytes) \<Rightarrow> (nat \<Rightarrow> string) \<Rightarrow> (nat \<Rightarrow> int) \<Rightarrow> (bytes \<Rightarrow> string res) \<Rightarrow> nat \<Rightarrow> (raw_event \<Rightarrow> 's \<Rightarrow> exn option \<times> 's)
    \<Rightarrow> intake_route \<Rightarrow> string option \<Rightarrow> string option \<Rightarrow> string option \<Rightarrow> bytes \<Rightarrow> 's \<Rightarrow> ingest_result http \<times> raw_event list \<times> 's" where
  "http_intake H uids nows wide max_bytes on_event route query_source declared pr body s =
     (case bind_http (read_capped_body declared max_bytes body) (route_items wide route query_source) of
        Inl x \<Rightarrow> (Inl x, [], s)
      | Inr items \<Rightarrow> emit_items H uids nows pr on_event [] items s)"

section \<open>The rounds of the collector\<close>

lemma scan_escape:
  assumes "code c = 92" "scan_string acc (c # e # r1) = Some (t, r)"
  shows "\<exists>acc'. scan_string acc' r1 = Some (t, r) \<or> scan_string acc' (drop 4 r1) = Some (t, r)"
proof -
  note s = assms(2) [unfolded scan_string.simps(2) [of acc c "e # r1"]]
  consider "r1 = []" | a where "r1 = [a]" | a b where "r1 = [a, b]" | a b x where "r1 = [a, b, x]"
    | a b x y r2 where "r1 = a # b # x # y # r2"
    by (cases r1; cases "tl r1"; cases "tl (tl r1)"; cases "tl (tl (tl r1))") auto
  then show ?thesis
  proof cases
    case 5
    show ?thesis
    proof (cases "e = CHR ''u''")
      case True
      with s show ?thesis
        unfolding 5 using assms(1) by (cases "hex4_val a b x y") (auto simp del: scan_string.simps)
    next
      case False
      with s show ?thesis
        unfolding 5 using assms(1) by (cases "unescape_char e") (auto simp del: scan_string.simps)
    qed
  qed (use s assms(1) in \<open>auto simp del: scan_string.simps split: option.splits\<close>)
qed

lemma scan_string_step:
  assumes "scan_string acc (c # cs) = Some (t, r)"
  shows "r = cs \<or> (\<exists>acc' r'. scan_string acc' r' = Some (t, r) \<and> length r' \<le> length cs)"
proof (cases "code c = 92")
  case True
  note s = assms [unfolded scan_string.simps(2) [of acc c cs]]
  obtain e r1 where cs: "cs = e # r1" using s True by (cases cs) (simp_all del: scan_string.simps)
  from scan_escape [OF True assms [unfolded cs]] obtain acc' where
    "scan_string acc' r1 = Some (t, r) \<or> scan_string acc' (drop 4 r1) = Some (t, r)" by blast
  moreover have "length r1 \<le> length cs" "length (drop 4 r1) \<le> length cs" using cs by simp_all
  ultimately show ?thesis by blast
next
  case False
  note s = assms [unfolded scan_string.simps(2) [of acc c cs]]
  show ?thesis
  proof (cases "code c = 34")
    case True
    with s show ?thesis by (simp del: scan_string.simps)
  next
    case nq: False
    with s False have "scan_string (c # acc) cs = Some (t, r)" by (simp del: scan_string.simps split: if_splits)
    then show ?thesis by blast
  qed
qed

lemma scan_string_shortens: "scan_string acc s = Some (t, r) \<Longrightarrow> length r < length s"
proof (induction "length s" arbitrary: acc s rule: less_induct)
  case less
  obtain c cs where s: "s = c # cs" using less.prems by (cases s) auto
  consider "r = cs" | acc' r' where "scan_string acc' r' = Some (t, r)" "length r' \<le> length cs"
    using scan_string_step [OF less.prems [unfolded s]] by blast
  then show ?case
  proof cases
    case 2
    then have "length r < length r'" using less.hyps [of r' acc'] s by simp
    with 2 s show ?thesis by simp
  qed (simp add: s)
qed

lemma scan_int_part_shortens: "scan_int_part s = Some (ip, r) \<Longrightarrow> length r < length s"
proof -
  have "length (dropWhile is_dec cs) < Suc (length cs)" for cs
    by (simp add: length_dropWhile_le le_imp_less_Suc)
  then show "scan_int_part s = Some (ip, r) \<Longrightarrow> length r < length s"
    by (auto simp: scan_int_part_def split: list.splits if_splits)
qed

lemma scan_frac_shortens: "length (snd (scan_frac s)) \<le> length s"
proof -
  have "length (dropWhile is_dec r) \<le> Suc (Suc (length r))" for r
    using length_dropWhile_le [of is_dec r] by linarith
  then show ?thesis by (auto simp: scan_frac_def split: list.splits)
qed

lemma scan_exp_shortens: "length (snd (scan_exp s)) \<le> length s"
  by (auto simp: scan_exp_def Let_def split: list.splits)

lemma scan_number_shortens: "scan_number s = Some (v, r) \<Longrightarrow> length r < length s"
proof -
  assume n: "scan_number s = Some (v, r)"
  let ?body = "if starts_with ''-'' s then tl s else s"
  obtain ip r0 where ip: "scan_int_part ?body = Some (ip, r0)"
    using n by (cases "scan_int_part ?body") (auto simp: scan_number_def Let_def)
  have "r = snd (scan_exp (snd (scan_frac r0)))"
    using n by (auto simp: scan_number_def Let_def ip split: prod.splits if_splits)
  then have "length r \<le> length r0"
    using scan_exp_shortens [of "snd (scan_frac r0)"] scan_frac_shortens [of r0] by simp
  also have "length r0 < length ?body" using scan_int_part_shortens [OF ip] .
  also have "length ?body \<le> length s" by simp
  finally show ?thesis .
qed

lemma scan_atom_shortens: "scan_atom s = Some (v, r) \<Longrightarrow> length r < length s"
proof -
  have "starts_with p s \<Longrightarrow> length p \<le> length s" for p
    by (induction p s rule: starts_with.induct) simp_all
  from this [of "''null''"] this [of "''true''"] this [of "''false''"] this [of "''NaN''"] this [of "''Infinity''"]
    this [of "''-Infinity''"] show "scan_atom s = Some (v, r) \<Longrightarrow> length r < length s"
    by (auto simp: scan_atom_def scan_number_shortens split: if_splits)
qed

lemma skip_ws_shortens: "length (skip_ws s) \<le> length s"
  by (simp add: skip_ws_def length_dropWhile_le)

lemma parse_shortens:
  "(\<forall>s v r. parse_value f s = Some (v, r) \<longrightarrow> length r < length s) \<and>
   (\<forall>s vs r. parse_items f s = Some (vs, r) \<longrightarrow> length r < length s) \<and>
   (\<forall>s d r. parse_members f s = Some (d, r) \<longrightarrow> length r < length s)"
proof (induction f)
  case (Suc f)
  have one: "length r < length s" if v: "parse_value (Suc f) s = Some (v, r)" for s v r
  proof (cases s)
    case (Cons c cs)
    have ws: "length (skip_ws cs) < length s" using skip_ws_shortens [of cs] Cons by simp
    have "length (tl (skip_ws cs)) < length s" using ws by simp
    then show ?thesis
      using v Suc.IH ws unfolding Cons
      by (auto simp: Let_def split: if_splits dest!: scan_string_shortens scan_atom_shortens) fastforce+
  qed (use v in simp)
  have items: "length r < length s" if v: "parse_items (Suc f) s = Some (vs, r)" for s vs r
  proof -
    obtain x r1 where x: "parse_value f s = Some (x, r1)" using v by (auto split: option.splits)
    then have 1: "length r1 < length s" using Suc.IH by blast
    obtain c cs where c: "skip_ws r1 = c # cs" using v x by (cases "skip_ws r1") auto
    have 2: "length cs < length s" using skip_ws_shortens [of r1] c 1 by simp
    show ?thesis
    proof (cases "c = CHR '']''")
      case False
      then obtain ys where "parse_items f (skip_ws cs) = Some (ys, r)"
        using v x c by (auto split: if_splits)
      then have "length r < length (skip_ws cs)" using Suc.IH by blast
      then show ?thesis using skip_ws_shortens [of cs] 2 by linarith
    qed (use v x c 2 in auto)
  qed
  have members: "length r < length s" if v: "parse_members (Suc f) s = Some (d, r)" for s d r
  proof -
    obtain k r1 where k: "scan_string [] (tl s) = Some (k, r1)" using v by (auto split: if_splits option.splits)
    then have 1: "length r1 < length s" using scan_string_shortens [OF k] by simp
    obtain c cs where c: "skip_ws r1 = c # cs" using v k by (cases "skip_ws r1") (auto split: if_splits)
    have 2: "length cs < length s" using skip_ws_shortens [of r1] c 1 by simp
    obtain x r2 where x: "parse_value f (skip_ws cs) = Some (x, r2)" using v k c by (auto split: if_splits option.splits)
    then have "length r2 < length (skip_ws cs)" using Suc.IH by blast
    then have 3: "length r2 < length s" using skip_ws_shortens [of cs] 2 by linarith
    obtain e es where e: "skip_ws r2 = e # es" using v k c x by (cases "skip_ws r2") (auto split: if_splits)
    have 4: "length es < length s" using skip_ws_shortens [of r2] e 3 by simp
    show ?thesis
    proof (cases "e = CHR ''}''")
      case False
      then obtain ys where "parse_members f (skip_ws es) = Some (ys, r)"
        using v k c x e by (auto split: if_splits)
      then have "length r < length (skip_ws es)" using Suc.IH by blast
      then show ?thesis using skip_ws_shortens [of es] 4 by linarith
    qed (use v k c x e 4 in \<open>auto split: if_splits\<close>)
  qed
  show ?case using one items members by blast
qed simp

lemma hec_rounds: "length t < k \<Longrightarrow> length t < j \<Longrightarrow> hec_objects k source t = hec_objects j source t"
proof (induction k arbitrary: j t)
  case (Suc k)
  obtain i where j: "j = Suc i" using Suc.prems(2) by (cases j) auto
  let ?t1 = "lstrip_by is_space t"
  show ?case
  proof (cases "parse_value (Suc (length ?t1)) ?t1")
    case None
    then show ?thesis by (simp add: j Let_def del: parse_value.simps)
  next
    case (Some p)
    obtain v rest where p: "p = (v, rest)" by (cases p)
    have "length rest < length ?t1" using parse_shortens Some p by blast
    also have "length ?t1 \<le> length t" by (simp add: lstrip_by_def length_dropWhile_le)
    finally have "hec_objects k source rest = hec_objects i source rest"
      using Suc.prems by (intro Suc.IH) (simp_all add: j)
    with Some p show ?thesis by (simp add: j Let_def del: parse_value.simps)
  qed
qed simp

text \<open>More rounds than there are characters change nothing.\<close>

lemma hec_rounds_enough: "hec_objects (Suc (length t) + k) source t = hec_objects (Suc (length t)) source t"
  by (rule hec_rounds) simp_all

section \<open>What a request delivers\<close>

lemma emit_items_result:
  assumes "emit_items H uids nows pr on_event done items s = (r, emitted, s')"
  shows "list_all (evidence_ok H) emitted \<and> map (\<lambda>e. (raw e, source_id e)) emitted = take (length emitted) items \<and>
    (case r of
       Inr res \<Rightarrow> length emitted = length items \<and> ig_event_uids res = done @ map event_uid emitted \<and>
                  ig_accepted res = length done + length emitted
     | Inl (Http_Refused c k) \<Rightarrow> c = 503 \<and> emitted \<noteq> [] \<and> k = Some (length done + length emitted - 1)
     | Inl (Http_Crash x) \<Rightarrow> emitted \<noteq> [])"
  using assms
proof (induction items arbitrary: "done" s emitted)
  case (Cons item items)
  obtain body src where item: "item = (body, src)" by (cases item)
  let ?e = "make_raw_event H (uids (length done)) (nows (length done)) body src Http pr"
  have e: "raw ?e = body" "source_id ?e = src" by (simp_all add: make_raw_event_def)
  obtain x s1 where x: "on_event ?e s = (x, s1)" by (cases "on_event ?e s")
  show ?case
  proof (cases x)
    case (Some y)
    then have "emitted = [?e]" "r = Inl (case y of IngestError m \<Rightarrow> Http_Refused 503 (Some (length done)) | _ \<Rightarrow> Http_Crash y)"
      using Cons.prems x item by simp_all
    then show ?thesis by (cases y) (simp_all add: e item)
  next
    case None
    obtain r2 es s2 where rest: "emit_items H uids nows pr on_event (done @ [event_uid ?e]) items s1 = (r2, es, s2)"
      by (rule prod_cases3)
    then have "emitted = ?e # es" "r = r2" "s' = s2"
      using Cons.prems x None item by simp_all
    moreover from this have "emit_items H uids nows pr on_event (done @ [event_uid ?e]) items s1 = (r, es, s')"
      using rest by simp
    from Cons.IH [OF this] have "list_all (evidence_ok H) es \<and> map (\<lambda>e. (raw e, source_id e)) es = take (length es) items \<and>
      (case r of
         Inr res \<Rightarrow> length es = length items \<and> ig_event_uids res = (done @ [event_uid ?e]) @ map event_uid es \<and>
                    ig_accepted res = length (done @ [event_uid ?e]) + length es
       | Inl (Http_Refused c k) \<Rightarrow> c = 503 \<and> es \<noteq> [] \<and> k = Some (length (done @ [event_uid ?e]) + length es - 1)
       | Inl (Http_Crash x) \<Rightarrow> es \<noteq> [])" .
    ultimately show ?thesis by (auto simp: e item split: sum.splits refusal.splits)
  qed
qed auto


section \<open>Lines arrive as they were sent\<close>

definition intake_line :: "bytes \<Rightarrow> bool" where
  "intake_line l \<longleftrightarrow> 10 \<notin> set l \<and> \<not> ends_with [13] l \<and> \<not> blank_line l"

lemma split_on_ended:
  "list_all (\<lambda>l. 10 \<notin> set l) ls \<Longrightarrow> split_on [10] (concat (map (\<lambda>l. l @ [10]) ls)) = (ls :: bytes list) @ [[]]"
proof (induction ls)
  case (Cons l ls)
  then show ?case by (simp add: split_on_single_step)
qed (simp add: split_on_single_none)

text \<open>
  The raw route delivers the lines of a body exactly: joined by line feeds, or each ended by a line feed with or without a
  carriage return before it.
\<close>

theorem intake_lines_exact:
  assumes "list_all intake_line ls"
  shows "body_lines (join_with [10] ls) = ls \<and> body_lines (concat (map (\<lambda>l. l @ [10]) ls)) = ls
    \<and> body_lines (concat (map (\<lambda>l. l @ [13, 10]) ls)) = ls"
proof -
  have plain: "list_all (\<lambda>l. 10 \<notin> set l) ls" "list_all (\<lambda>l. 10 \<notin> set l) (map (\<lambda>l. l @ [13]) ls)"
    using assms by (auto simp: intake_line_def list_all_iff)
  have trim: "map trim_cr ls = ls" "map trim_cr (map (\<lambda>l. l @ [13]) ls) = ls"
    using assms by (auto simp: intake_line_def list_all_iff trim_cr_def ends_with_def intro!: map_idI)
  have keep: "filter (\<lambda>l. \<not> blank_line l) ls = ls"
    using assms by (auto simp: intake_line_def list_all_iff intro!: filter_True)
  have nil: "blank_line (trim_cr [])" by (simp add: trim_cr_def ends_with_def blank_line_def)
  have "concat (map (\<lambda>l. l @ [13, 10]) ls) = concat (map (\<lambda>l. l @ [10]) (map (\<lambda>l. l @ [13]) ls))"
    by (simp add: comp_def)
  moreover have "body_lines (join_with [10] ls) = ls"
  proof (cases "ls = []")
    case True
    then show ?thesis using nil by (simp add: body_lines_def split_on_single_none)
  next
    case False
    then show ?thesis using split_join_single [OF False, of 10] plain(1) [unfolded list_all_iff] trim keep by (simp add: body_lines_def)
  qed
  ultimately show ?thesis
    using split_on_ended [OF plain(1)] split_on_ended [OF plain(2)] trim keep nil by (simp add: body_lines_def)
qed

theorem intake_lines_exact_witness: "body_lines (concat (map (\<lambda>l. l @ [13, 10]) [[60, 49], [62]])) = [[60, 49], [62]]"
proof -
  have "list_all intake_line [[60, 49], [62]]"
    by (simp add: intake_line_def ends_with_def blank_line_def ascii_space_def)
  from intake_lines_exact [OF this] show ?thesis by (rule conjunct2 [OF conjunct2])
qed

lemma json_lines_verbatim: "json_line_events wide chunks = Inr ls \<Longrightarrow> ls = filter (\<lambda>l. \<not> blank_line l) (map trim_cr chunks)"
proof (induction chunks arbitrary: ls)
  case (Cons c cs)
  then show ?case
    by (cases "loads_or_422 wide (trim_cr c)"; cases "json_line_events wide cs") (auto simp: Let_def split: if_splits)
qed simp

lemma in_set_joined: "l \<in> set xs \<Longrightarrow> b \<in> set l \<Longrightarrow> b \<in> set (join_with p xs)"
  by (induction p xs rule: join_with.induct) auto

text \<open>
  Newline-delimited JSON is delivered byte for byte, as the raw route delivers it; only the elements of an array are printed anew.
\<close>

lemma json_route_verbatim:
  "case parse_json_events wide body of
     Inl x \<Rightarrow> True
   | Inr ls \<Rightarrow> (if take 1 (dropWhile ascii_space body) = [91] then True else ls = body_lines body)"
proof -
  have "body_lines body = []" if "dropWhile ascii_space body = []"
  proof -
    have "\<forall>b \<in> set body. ascii_space b" using that by (simp add: dropWhile_eq_Nil_conv)
    moreover have "b \<in> set body" if "l \<in> set (split_on [10] body)" "b \<in> set l" for l b
      using that in_set_joined by (metis join_split)
    moreover have "set (trim_cr l) \<subseteq> set l" for l by (auto simp: trim_cr_def dest: in_set_butlastD)
    ultimately have "blank_line (trim_cr l)" if "l \<in> set (split_on [10] body)" for l
      using that unfolding blank_line_def list_all_iff by blast
    then show ?thesis by (simp add: body_lines_def filter_empty_conv)
  qed
  then show ?thesis
    by (auto simp: parse_json_events_def Let_def body_lines_def dest: json_lines_verbatim split: sum.splits)
qed

text \<open>A JSON line that is no UTF-8 ends the request with an exception that is not the expected one, so that the answer is a 500, not a 422.\<close>

lemma invalid_utf8_crashes:
  "http_intake H uids nows wide 100 on_event Ingest_Json None None pr [0x22, 0xFF, 0x22] s
     = (Inl (Http_Crash (ValueError ''UnicodeDecodeError'')), [], s)"
proof -
  have "decode_json wide [0x22, 0xFF, 0x22] = Inl (ValueError ''UnicodeDecodeError'')"
    by (simp add: decode_json_def wide_encoding_def strict_utf8_def strict_step_def utf8_step_def replacement_def)
  moreover have "split_on [10] [0x22, 0xFF, 0x22 :: byte] = [[0x22, 0xFF, 0x22]]" by (simp add: split_on_single_none)
  ultimately have "route_items wide Ingest_Json None [0x22, 0xFF, 0x22] = Inl (Http_Crash (ValueError ''UnicodeDecodeError''))"
    by (simp add: route_items_def parse_json_events_def ascii_space_def loads_or_422_def crash_def trim_cr_def ends_with_def
        blank_line_def)
  then show ?thesis by (simp add: http_intake_def read_capped_body_def)
qed

end
