(* ===== verification/Attack_Tagger.thy ===== *)
theory Attack_Tagger
  imports Enrichment "HOL-Library.Product_Lexorder"
begin

text \<open>
  The ATT&CK tagger of \<^verbatim>\<open>ulpf/enrich/attack_tagger.py\<close>: rules read from a YAML document, the facts of a record they test, and
  the techniques, names and tactics of the rules that match. The document is its parsed value, with text keys; a
  \<^verbatim>\<open>frozenset\<close> of the source is the list it is made from, of which only membership is used.
\<close>

section \<open>Techniques and rules\<close>

definition tactic_order :: "string list" where
  "tactic_order =
     [''reconnaissance'', ''resource-development'', ''initial-access'', ''execution'', ''persistence'',
      ''privilege-escalation'', ''defense-evasion'', ''credential-access'', ''discovery'', ''lateral-movement'',
      ''collection'', ''command-and-control'', ''exfiltration'', ''impact'']"

record technique_info =
  ti_name :: string
  ti_tactics :: "string list"

definition technique :: "string \<Rightarrow> string \<Rightarrow> string list \<Rightarrow> string \<times> technique_info" where
  "technique tid name tactics = (tid, \<lparr>ti_name = name, ti_tactics = tactics\<rparr>)"

definition bundled_techniques :: "(string \<times> technique_info) list" where
  "bundled_techniques =
     [technique ''T1046'' ''Network Service Discovery'' [''discovery''],
      technique ''T1595'' ''Active Scanning'' [''reconnaissance''],
      technique ''T1110'' ''Brute Force'' [''credential-access''],
      technique ''T1133'' ''External Remote Services'' [''persistence'', ''initial-access''],
      technique ''T1190'' ''Exploit Public-Facing Application'' [''initial-access''],
      technique ''T1210'' ''Exploitation of Remote Services'' [''lateral-movement''],
      technique ''T1071'' ''Application Layer Protocol'' [''command-and-control''],
      technique ''T1571'' ''Non-Standard Port'' [''command-and-control''],
      technique ''T1090'' ''Proxy'' [''command-and-control''],
      technique ''T1219'' ''Remote Access Software'' [''command-and-control''],
      technique ''T1041'' ''Exfiltration Over C2 Channel'' [''exfiltration''],
      technique ''T1048'' ''Exfiltration Over Alternative Protocol'' [''exfiltration''],
      technique ''T1021'' ''Remote Services'' [''lateral-movement''],
      technique ''T1498'' ''Network Denial of Service'' [''impact'']]"

record attack_rule =
  ar_id :: string
  ar_technique_ids :: "string list"
  ar_tactics :: "string list"
  ar_class_uid :: "int option"
  ar_actions :: "string list"
  ar_dst_ports :: "int list"
  ar_dst_port_min :: "int option"
  ar_dst_port_max :: "int option"
  ar_min_bytes_out :: "int option"
  ar_direction :: "string option"
  ar_categories :: "string list"
  ar_signatures :: "string list"

record record_view =
  rv_class_uid :: "int option"
  rv_action :: "string option"
  rv_dst_port :: "int option"
  rv_bytes_out :: "int option"
  rv_direction :: "string option"
  rv_signature :: "string option"
  rv_categories :: "string list"

definition has_condition :: "attack_rule \<Rightarrow> bool" where
  "has_condition r \<longleftrightarrow>
     ar_class_uid r \<noteq> None \<or> ar_actions r \<noteq> [] \<or> ar_dst_ports r \<noteq> [] \<or> ar_dst_port_min r \<noteq> None \<or>
     ar_dst_port_max r \<noteq> None \<or> ar_min_bytes_out r \<noteq> None \<or> ar_direction r \<noteq> None \<or> ar_categories r \<noteq> [] \<or>
     ar_signatures r \<noteq> []"

definition in_range :: "int option \<Rightarrow> int option \<Rightarrow> int option \<Rightarrow> bool" where
  "in_range v low high \<longleftrightarrow>
     (if low = None \<and> high = None then True
      else case v of
             None \<Rightarrow> False
           | Some i \<Rightarrow> (case low of None \<Rightarrow> True | Some l \<Rightarrow> l \<le> i) \<and> (case high of None \<Rightarrow> True | Some h \<Rightarrow> i \<le> h))"

text \<open>The guards of \<^verbatim>\<open>matches\<close>, each of which returns \<^verbatim>\<open>False\<close> early.\<close>

definition rule_matches :: "attack_rule \<Rightarrow> record_view \<Rightarrow> bool" where
  "rule_matches r v =
     (if \<not> has_condition r then False
      else if ar_class_uid r \<noteq> None \<and> rv_class_uid v \<noteq> ar_class_uid r then False
      else if ar_actions r \<noteq> [] \<and> (case rv_action v of None \<Rightarrow> True | Some a \<Rightarrow> a \<notin> set (ar_actions r)) then False
      else if ar_dst_ports r \<noteq> [] \<and> (case rv_dst_port v of None \<Rightarrow> True | Some p \<Rightarrow> p \<notin> set (ar_dst_ports r)) then False
      else if \<not> in_range (rv_dst_port v) (ar_dst_port_min r) (ar_dst_port_max r) then False
      else if (case ar_min_bytes_out r of
                 None \<Rightarrow> False
               | Some m \<Rightarrow> (case rv_bytes_out v of None \<Rightarrow> True | Some b \<Rightarrow> b < m)) then False
      else if ar_direction r \<noteq> None \<and> rv_direction v \<noteq> ar_direction r then False
      else if ar_categories r \<noteq> [] \<and> \<not> list_ex (\<lambda>c. c \<in> set (rv_categories v)) (ar_categories r) then False
      else \<not> (ar_signatures r \<noteq> [] \<and>
              (case rv_signature v of None \<Rightarrow> True | Some s \<Rightarrow> \<not> list_ex (\<lambda>sub. contains_sub sub s) (ar_signatures r))))"

section \<open>Reading the map file\<close>

text \<open>\<^verbatim>\<open>_opt_int\<close> lets the \<^verbatim>\<open>OverflowError\<close> of an infinite float through.\<close>

definition tag_int :: "pyval \<Rightarrow> int option res" where
  "tag_int v =
     (case v of
        PBool _ \<Rightarrow> Inr None
      | PNone \<Rightarrow> Inr None
      | _ \<Rightarrow> (case py_int v of
               Inr i \<Rightarrow> Inr (Some i)
             | Inl x \<Rightarrow> if (case x of TypeError _ \<Rightarrow> True | ValueError _ \<Rightarrow> True | _ \<Rightarrow> False) then Inr None else Inl x))"

definition opt_lower :: "pyval \<Rightarrow> string option" where
  "opt_lower v = (case v of PStr s \<Rightarrow> if py_strip s = [] then None else Some (py_lower (py_strip s)) | _ \<Rightarrow> None)"

text \<open>Iterating over a value: the items of a list, the keys of a mapping, the characters of a text.\<close>

definition iterate :: "pyval \<Rightarrow> pyval list res" where
  "iterate v =
     (case v of
        PList xs \<Rightarrow> Inr xs
      | PDict d \<Rightarrow> Inr (map (\<lambda>(k, _). PStr k) d)
      | PStr s \<Rightarrow> Inr (map (\<lambda>c. PStr [c]) s)
      | _ \<Rightarrow> Inl (TypeError ''object is not iterable''))"

definition dict_arg :: "pyval \<Rightarrow> pydict res" where
  "dict_arg v = (case v of PDict d \<Rightarrow> Inr d | _ \<Rightarrow> Inl (AttributeError ''get''))"

definition stripped_texts :: "pyval \<Rightarrow> string list res" where
  "stripped_texts v = bind_res (iterate v) (\<lambda>xs. Inr (map (\<lambda>x. py_strip (py_str x)) xs))"

definition lowered_texts :: "pyval \<Rightarrow> string list res" where
  "lowered_texts v = bind_res (stripped_texts v) (\<lambda>xs. Inr (map py_lower xs))"

definition read_rule :: "pydict \<Rightarrow> attack_rule res" where
  "read_rule d =
     bind_res (dict_arg (py_or (py_get d ''when'') (PDict []))) (\<lambda>cond.
     let ports = py_or (py_get cond ''dst_ports'') (PList []);
         actions = py_or (py_get cond ''actions'') (case map_of cond ''action'' of Some a \<Rightarrow> PList [a] | None \<Rightarrow> PList [])
     in bind_res (py_item (PDict d) ''technique_ids'') (\<lambda>tids.
        bind_res (stripped_texts tids) (\<lambda>ids.
        bind_res (lowered_texts (py_or (py_get d ''tactics'') (PList []))) (\<lambda>tactics.
        bind_res (tag_int (py_get cond ''class_uid'')) (\<lambda>cls.
        bind_res (lowered_texts actions) (\<lambda>acts.
        bind_res (bind_res (iterate ports) (map_res py_int)) (\<lambda>ps.
        bind_res (tag_int (py_get cond ''dst_port_min'')) (\<lambda>pmin.
        bind_res (tag_int (py_get cond ''dst_port_max'')) (\<lambda>pmax.
        bind_res (tag_int (py_get cond ''min_bytes_out'')) (\<lambda>nbytes.
        bind_res (lowered_texts (py_or (py_get cond ''suricata_categories'') (PList []))) (\<lambda>cats.
        bind_res (lowered_texts (py_or (py_get cond ''suricata_signature_contains'') (PList []))) (\<lambda>subs.
        Inr \<lparr>ar_id = py_str (case map_of d ''id'' of Some v \<Rightarrow> v | None \<Rightarrow> PStr ''unnamed''),
             ar_technique_ids = ids, ar_tactics = tactics, ar_class_uid = cls, ar_actions = acts, ar_dst_ports = ps,
             ar_dst_port_min = pmin, ar_dst_port_max = pmax, ar_min_bytes_out = nbytes,
             ar_direction = opt_lower (py_get cond ''direction''), ar_categories = cats,
             ar_signatures = subs\<rparr>))))))))))))"

definition parse_rule :: "pyval \<Rightarrow> attack_rule option res" where
  "parse_rule v =
     (case v of
        PDict d \<Rightarrow> (case read_rule d of
                     Inr r \<Rightarrow> Inr (Some r)
                   | Inl x \<Rightarrow> if is_lookup_or_value_error x then Inr None else Inl x)
      | _ \<Rightarrow> Inr None)"

definition parse_technique :: "string \<Rightarrow> pydict \<Rightarrow> technique_info res" where
  "parse_technique tid spec =
     bind_res (lowered_texts (py_or (py_get spec ''tactics'') (PList []))) (\<lambda>tactics.
       Inr \<lparr>ti_name = py_str (case map_of spec ''name'' of Some v \<Rightarrow> v | None \<Rightarrow> PStr tid), ti_tactics = tactics\<rparr>)"

fun parse_technique_items :: "pydict \<Rightarrow> (string \<times> technique_info) list \<Rightarrow> (string \<times> technique_info) list res" where
  "parse_technique_items [] out = Inr out"
| "parse_technique_items ((tid, spec) # items) out =
     (case spec of
        PDict s \<Rightarrow> bind_res (parse_technique tid s) (\<lambda>info. parse_technique_items items (dict_set tid info out))
      | _ \<Rightarrow> parse_technique_items items out)"

definition parse_techniques :: "pyval \<Rightarrow> (string \<times> technique_info) list res" where
  "parse_techniques v = (case v of PDict d \<Rightarrow> parse_technique_items d [] | _ \<Rightarrow> Inr [])"

record attack_map =
  am_rules :: "attack_rule list"
  am_techniques :: "(string \<times> technique_info) list"

definition new_attack_map :: "attack_rule list \<Rightarrow> (string \<times> technique_info) list \<Rightarrow> attack_map" where
  "new_attack_map rules extra =
     \<lparr>am_rules = rules, am_techniques = (if extra = [] then bundled_techniques else dict_update bundled_techniques extra)\<rparr>"

definition attack_map_of :: "pyval res option \<Rightarrow> attack_map res" where
  "attack_map_of file =
     (case file of
        None \<Rightarrow> Inr (new_attack_map [] [])
      | Some content \<Rightarrow>
          bind_res content (\<lambda>v.
          bind_res (dict_arg (py_or v (PDict []))) (\<lambda>doc.
          bind_res (iterate (py_or (py_get doc ''rules'') (PList []))) (\<lambda>entries.
          bind_res (map_res parse_rule entries) (\<lambda>rules.
          bind_res (parse_techniques (py_or (py_get doc ''techniques'') (PDict []))) (\<lambda>extra.
          Inr (new_attack_map (List.map_filter id rules) extra)))))))"

section \<open>Tagging a record\<close>

definition first_text :: "pyval list \<Rightarrow> string option" where
  "first_text vs =
     (case List.find (\<lambda>v. case v of PStr s \<Rightarrow> s \<noteq> [] | _ \<Rightarrow> False) vs of Some (PStr s) \<Rightarrow> Some (py_lower s) | _ \<Rightarrow> None)"

definition unmapped_dict :: "pydict \<Rightarrow> pydict res" where
  "unmapped_dict rec = dict_arg (py_or (py_get rec ''unmapped'') (PDict []))"

definition dict_member :: "pydict \<Rightarrow> string \<Rightarrow> string \<Rightarrow> pyval" where
  "dict_member rec k m = (case py_get rec k of PDict d \<Rightarrow> py_get d m | _ \<Rightarrow> PNone)"

definition signature_of :: "pydict \<Rightarrow> string option res" where
  "signature_of rec =
     bind_res (unmapped_dict rec) (\<lambda>u. Inr (first_text [dict_member rec ''finding_info'' ''title'', py_get u ''alert.signature'']))"

definition only_texts :: "pyval list \<Rightarrow> string list" where
  "only_texts vs = List.map_filter (\<lambda>v. case v of PStr s \<Rightarrow> Some s | _ \<Rightarrow> None) vs"

definition categories_of :: "pydict \<Rightarrow> string list res" where
  "categories_of rec =
     (let types = dict_member rec ''finding_info'' ''types''
      in bind_res (unmapped_dict rec) (\<lambda>u.
           Inr (map py_lower ((case types of PList xs \<Rightarrow> only_texts xs | v \<Rightarrow> only_texts [v])
                              @ only_texts [py_get u ''alert.category'', py_get u ''category'']))))"

definition build_view :: "pydict \<Rightarrow> record_view res" where
  "build_view rec =
     bind_res (tag_int (py_get rec ''class_uid'')) (\<lambda>cls.
     bind_res (tag_int (dict_member rec ''dst_endpoint'' ''port'')) (\<lambda>port.
     bind_res (tag_int (dict_member rec ''traffic'' ''bytes_out'')) (\<lambda>nbytes.
     bind_res (signature_of rec) (\<lambda>sig.
     bind_res (categories_of rec) (\<lambda>cats.
     Inr \<lparr>rv_class_uid = cls, rv_action = opt_lower (py_get rec ''action''), rv_dst_port = port, rv_bytes_out = nbytes,
          rv_direction = opt_lower (dict_member rec ''connection_info'' ''direction''), rv_signature = sig,
          rv_categories = cats\<rparr>)))))"

fun index_in :: "'a \<Rightarrow> 'a list \<Rightarrow> nat" where
  "index_in x [] = 0"
| "index_in x (y # ys) = (if x = y then 0 else Suc (index_in x ys))"

definition tactic_rank :: "string \<Rightarrow> nat \<times> string" where
  "tactic_rank t = (if t \<in> set tactic_order then (index_in t tactic_order, []) else (length tactic_order, t))"

definition tag_loop :: "record_view \<Rightarrow> attack_rule list \<Rightarrow> string list \<times> string list" where
  "tag_loop view rules =
     fold (\<lambda>r (ids, tactics). if rule_matches r view then (ids @ ar_technique_ids r, tactics @ ar_tactics r) else (ids, tactics))
       rules ([], [])"

definition technique_name :: "attack_map \<Rightarrow> string \<Rightarrow> string" where
  "technique_name m tid = (case map_of (am_techniques m) tid of Some info \<Rightarrow> ti_name info | None \<Rightarrow> tid)"

definition technique_tactics :: "attack_map \<Rightarrow> string \<Rightarrow> string list" where
  "technique_tactics m tid = (case map_of (am_techniques m) tid of Some info \<Rightarrow> ti_tactics info | None \<Rightarrow> [])"

definition tag_payload :: "string list \<Rightarrow> string list \<Rightarrow> string list \<Rightarrow> pydict" where
  "tag_payload ids names tactics =
     [(''attack'', PDict [(''technique_ids'', PList (map PStr ids)), (''technique_names'', PList (map PStr names)),
                        (''tactics'', PList (map PStr tactics))])]"

definition attack_tag :: "attack_map \<Rightarrow> pydict \<Rightarrow> pydict res" where
  "attack_tag m rec =
     bind_res (build_view rec) (\<lambda>view.
       let (technique_ids, tactics) = tag_loop view (am_rules m)
       in if technique_ids = [] then Inr []
          else let ordered_ids = sort (remdups technique_ids)
               in Inr (tag_payload ordered_ids (map (technique_name m) ordered_ids)
                         (sort_key tactic_rank (remdups (tactics @ concat (map (technique_tactics m) ordered_ids))))))"

definition attack_enricher :: "attack_map \<Rightarrow> enricher" where
  "attack_enricher m = (''attack_tagger'', \<lambda>rec. case attack_tag m rec of Inl x \<Rightarrow> Raises x | Inr d \<Rightarrow> Returns (PDict d))"

section \<open>What a rule asks for\<close>

text \<open>Every condition that a rule has holds of the record, and it has one.\<close>

definition meets :: "'a option \<Rightarrow> ('a \<Rightarrow> bool) \<Rightarrow> bool" where
  "meets v P \<longleftrightarrow> (\<exists>x. v = Some x \<and> P x)"

definition fires :: "record_view \<Rightarrow> attack_rule \<Rightarrow> bool" where
  "fires v r \<longleftrightarrow>
     has_condition r \<and>
     (\<forall>c. ar_class_uid r = Some c \<longrightarrow> rv_class_uid v = Some c) \<and>
     (ar_actions r \<noteq> [] \<longrightarrow> meets (rv_action v) (\<lambda>a. a \<in> set (ar_actions r))) \<and>
     (ar_dst_ports r \<noteq> [] \<longrightarrow> meets (rv_dst_port v) (\<lambda>p. p \<in> set (ar_dst_ports r))) \<and>
     (\<forall>l. ar_dst_port_min r = Some l \<longrightarrow> meets (rv_dst_port v) (\<lambda>p. l \<le> p)) \<and>
     (\<forall>h. ar_dst_port_max r = Some h \<longrightarrow> meets (rv_dst_port v) (\<lambda>p. p \<le> h)) \<and>
     (\<forall>b. ar_min_bytes_out r = Some b \<longrightarrow> meets (rv_bytes_out v) (\<lambda>n. b \<le> n)) \<and>
     (\<forall>d. ar_direction r = Some d \<longrightarrow> rv_direction v = Some d) \<and>
     (ar_categories r \<noteq> [] \<longrightarrow> set (ar_categories r) \<inter> set (rv_categories v) \<noteq> {}) \<and>
     (ar_signatures r \<noteq> [] \<longrightarrow> meets (rv_signature v) (\<lambda>s. \<exists>sub \<in> set (ar_signatures r). contains_sub sub s))"

lemma in_range_iff:
  "in_range v low high \<longleftrightarrow> (\<forall>l. low = Some l \<longrightarrow> meets v (\<lambda>p. l \<le> p)) \<and> (\<forall>h. high = Some h \<longrightarrow> meets v (\<lambda>p. p \<le> h))"
  by (auto simp: in_range_def meets_def split: option.splits)

lemma not_member_iff: "(case v of None \<Rightarrow> True | Some x \<Rightarrow> \<not> P x) \<longleftrightarrow> \<not> meets v P"
  by (cases v) (simp_all add: meets_def)

lemma below_iff: "(case v of None \<Rightarrow> True | Some x \<Rightarrow> x < (m :: int)) \<longleftrightarrow> \<not> meets v (\<lambda>x. m \<le> x)"
  by (cases v) (auto simp: meets_def)

lemma rule_matches_iff: "rule_matches r v \<longleftrightarrow> fires v r"
proof -
  have "(case ar_min_bytes_out r of None \<Rightarrow> False | Some m \<Rightarrow> \<not> meets (rv_bytes_out v) (\<lambda>x. m \<le> x))
      \<longleftrightarrow> \<not> (\<forall>b. ar_min_bytes_out r = Some b \<longrightarrow> meets (rv_bytes_out v) (\<lambda>n. b \<le> n))"
    by (cases "ar_min_bytes_out r") simp_all
  moreover have "ar_class_uid r \<noteq> None \<and> rv_class_uid v \<noteq> ar_class_uid r \<longleftrightarrow> \<not> (\<forall>c. ar_class_uid r = Some c \<longrightarrow> rv_class_uid v = Some c)"
    "ar_direction r \<noteq> None \<and> rv_direction v \<noteq> ar_direction r \<longleftrightarrow> \<not> (\<forall>d. ar_direction r = Some d \<longrightarrow> rv_direction v = Some d)"
    by (cases "ar_class_uid r", simp_all) (cases "ar_direction r", simp_all)
  moreover have "list_ex (\<lambda>c. c \<in> set (rv_categories v)) (ar_categories r) \<longleftrightarrow> set (ar_categories r) \<inter> set (rv_categories v) \<noteq> {}"
    by (auto simp: list_ex_iff)
  ultimately show ?thesis
    by (simp only: rule_matches_def fires_def in_range_iff not_member_iff below_iff list_ex_iff if_bool_eq_conj) argo
qed

section \<open>The techniques of a record are those of the rules that fire\<close>

lemma tag_loop_fold:
  "fold (\<lambda>r (ids, tactics). if P r then (ids @ f r, tactics @ g r) else (ids, tactics)) rs (a, b)
     = (a @ concat (map f (filter P rs)), b @ concat (map g (filter P rs)))"
  by (induction rs arbitrary: a b) simp_all

lemma tag_loop_rules:
  "tag_loop v rules = (concat (map ar_technique_ids (filter (fires v) rules)), concat (map ar_tactics (filter (fires v) rules)))"
  by (simp add: tag_loop_def rule_matches_iff [abs_def] tag_loop_fold)

definition fired_ids :: "attack_map \<Rightarrow> record_view \<Rightarrow> string set" where
  "fired_ids m v = \<Union> (set ` ar_technique_ids ` set (filter (fires v) (am_rules m)))"

definition fired_tactics :: "attack_map \<Rightarrow> record_view \<Rightarrow> string set" where
  "fired_tactics m v = \<Union> (set ` ar_tactics ` set (filter (fires v) (am_rules m))) \<union> \<Union> (set ` technique_tactics m ` fired_ids m v)"

text \<open>
  C21. Tagging a record fails only where extracting its facts fails. Otherwise the techniques are exactly those of the rules whose
  conditions all hold, in ascending order without repetition, each with its name; the tactics are exactly those the
  rules and the techniques carry, in kill-chain order without repetition; without a technique nothing is added.
\<close>

theorem attack_tags_exact:
  "case attack_tag m rec of
     Inl x \<Rightarrow> build_view rec = Inl x
   | Inr out \<Rightarrow> (\<exists>view ids tactics.
       build_view rec = Inr view \<and> out = (if fired_ids m view = {} then [] else tag_payload ids (map (technique_name m) ids) tactics) \<and>
       set ids = fired_ids m view \<and> sorted ids \<and> distinct ids \<and>
       set tactics = fired_tactics m view \<and> sorted (map tactic_rank tactics) \<and> distinct tactics)"
proof (cases "build_view rec")
  case (Inl x)
  then show ?thesis by (simp add: attack_tag_def)
next
  case (Inr view)
  let ?raw = "concat (map ar_technique_ids (filter (fires view) (am_rules m)))"
  let ?ids = "sort (remdups ?raw)"
  let ?tactics = "sort_key tactic_rank (remdups (concat (map ar_tactics (filter (fires view) (am_rules m)))
                    @ concat (map (technique_tactics m) ?ids)))"
  have ids: "set ?ids = fired_ids m view"
    by (auto simp: fired_ids_def)
  have tactics: "set ?tactics = fired_tactics m view"
    using ids by (auto simp: fired_tactics_def)
  have "?raw = [] \<longleftrightarrow> fired_ids m view = {}"
    using ids by (metis set_empty set_remdups set_sort)
  then have "attack_tag m rec = Inr (if fired_ids m view = {} then [] else tag_payload ?ids (map (technique_name m) ?ids) ?tactics)"
    using Inr unfolding attack_tag_def tag_loop_rules Let_def by (simp only: bind_res_simps case_prod_conv append_Nil) presburger
  moreover have "sorted ?ids" "distinct ?ids" "sorted (map tactic_rank ?tactics)" "distinct ?tactics"
    by simp_all
  ultimately obtain ids tactics where "attack_tag m rec = Inr (if fired_ids m view = {} then [] else tag_payload ids (map (technique_name m) ids) tactics) \<and>
      set ids = fired_ids m view \<and> sorted ids \<and> distinct ids \<and> set tactics = fired_tactics m view \<and>
      sorted (map tactic_rank tactics) \<and> distinct tactics"
    using ids tactics by blast
  with Inr show ?thesis
    by (simp only: sum.case) blast
qed

section \<open>Rules and their documents\<close>

text \<open>The document that states a rule, with every key given.\<close>

definition opt_value :: "('a \<Rightarrow> pyval) \<Rightarrow> 'a option \<Rightarrow> pyval" where
  "opt_value f v = (case v of None \<Rightarrow> PNone | Some x \<Rightarrow> f x)"

definition rule_document :: "attack_rule \<Rightarrow> pyval" where
  "rule_document r =
     PDict [(''id'', PStr (ar_id r)), (''technique_ids'', PList (map PStr (ar_technique_ids r))),
            (''tactics'', PList (map PStr (ar_tactics r))),
            (''when'', PDict [(''class_uid'', opt_value PInt (ar_class_uid r)), (''actions'', PList (map PStr (ar_actions r))),
               (''dst_ports'', PList (map PInt (ar_dst_ports r))), (''dst_port_min'', opt_value PInt (ar_dst_port_min r)),
               (''dst_port_max'', opt_value PInt (ar_dst_port_max r)), (''min_bytes_out'', opt_value PInt (ar_min_bytes_out r)),
               (''direction'', opt_value PStr (ar_direction r)), (''suricata_categories'', PList (map PStr (ar_categories r))),
               (''suricata_signature_contains'', PList (map PStr (ar_signatures r)))])]"

definition plain_text :: "string \<Rightarrow> bool" where
  "plain_text s \<longleftrightarrow> py_lower (py_strip s) = s"

definition rule_ok :: "attack_rule \<Rightarrow> bool" where
  "rule_ok r \<longleftrightarrow>
     list_all (\<lambda>s. py_strip s = s) (ar_technique_ids r) \<and> list_all plain_text (ar_tactics r) \<and> list_all plain_text (ar_actions r) \<and>
     list_all plain_text (ar_categories r) \<and> list_all plain_text (ar_signatures r) \<and>
     (case ar_direction r of None \<Rightarrow> True | Some d \<Rightarrow> plain_text d \<and> py_strip d \<noteq> [])"


lemma iterate_list [simp]: "iterate (PList xs) = Inr xs"
  by (simp add: iterate_def)

lemma stripped_list: "list_all (\<lambda>s. py_strip s = s) xs \<Longrightarrow> stripped_texts (PList (map PStr xs)) = Inr xs"
  by (induction xs) (simp_all add: stripped_texts_def)

lemma lowered_list: "list_all plain_text xs \<Longrightarrow> lowered_texts (py_or (PList (map PStr xs)) (PList [])) = Inr xs"
  by (cases xs) (auto simp: lowered_texts_def stripped_texts_def py_or_def plain_text_def list_all_iff intro: map_idI)

lemma ints_list: "bind_res (iterate (py_or (PList (map PInt xs)) (PList []))) (map_res py_int) = Inr xs"
proof -
  have "map_res py_int (map PInt xs) = Inr xs"
    by (induction xs) (simp_all add: py_int_def)
  then show ?thesis
    by (cases xs) (simp_all add: py_or_def)
qed

lemma tag_int_opt: "tag_int (opt_value PInt v) = Inr v"
  by (cases v) (simp_all add: tag_int_def opt_value_def py_int_def)

lemma opt_lower_opt: "(case v of None \<Rightarrow> True | Some d \<Rightarrow> plain_text d \<and> py_strip d \<noteq> []) \<Longrightarrow> opt_lower (opt_value PStr v) = v"
  by (cases v) (simp_all add: opt_lower_def opt_value_def plain_text_def)

text \<open>
  A rule whose texts are in the form the loader keeps them in (stripped, and lower case but for the technique ids) is read
  back from the document that states it.
\<close>

theorem attack_rule_roundtrip:
  assumes "rule_ok r"
  shows "parse_rule (rule_document r) = Inr (Some r)"
proof -
  have "read_rule (dict_of (rule_document r)) = Inr r"
    using assms unfolding rule_ok_def
    by (simp add: read_rule_def rule_document_def dict_of_def py_get_def py_item_def dict_arg_def stripped_list lowered_list
        ints_list tag_int_opt opt_lower_opt py_or_def [of "PDict _"])
  then show ?thesis
    by (simp add: parse_rule_def rule_document_def dict_of_def)
qed

definition scan_rule :: attack_rule where
  "scan_rule = \<lparr>ar_id = ''port-scan'', ar_technique_ids = [''T1046''], ar_tactics = [''discovery''], ar_class_uid = Some 2004,
     ar_actions = [''denied''], ar_dst_ports = [22, 3389], ar_dst_port_min = None, ar_dst_port_max = Some 65535,
     ar_min_bytes_out = None, ar_direction = Some ''inbound'', ar_categories = [], ar_signatures = [''scan'']\<rparr>"

theorem attack_rule_roundtrip_witness: "parse_rule (rule_document scan_rule) = Inr (Some scan_rule)"
proof (rule attack_rule_roundtrip)
  show "rule_ok scan_rule" by code_simp
qed

section \<open>What the loader does not skip\<close>

text \<open>A rule whose \<^verbatim>\<open>when\<close> is a list is not skipped: the \<^verbatim>\<open>AttributeError\<close> of \<^verbatim>\<open>when.get\<close> ends the loading of the map.\<close>

lemma when_list_ends_load:
  "attack_map_of (Some (Inr (PDict [(''rules'', PList (PDict [(''when'', PList [PStr ''x'']), (''technique_ids'', PList [])] # rs))])))
     = Inl (AttributeError ''get'')"
  by (simp add: attack_map_of_def dict_arg_def py_or_def py_get_def parse_rule_def read_rule_def is_lookup_or_value_error_def)

text \<open>Technique ids given as one text are taken character by character.\<close>

lemma text_ids_split:
  "parse_rule (PDict [(''technique_ids'', PStr ''T1'')])
     = Inr (Some \<lparr>ar_id = ''unnamed'', ar_technique_ids = [''T'', ''1''], ar_tactics = [], ar_class_uid = None, ar_actions = [],
                  ar_dst_ports = [], ar_dst_port_min = None, ar_dst_port_max = None, ar_min_bytes_out = None, ar_direction = None,
                  ar_categories = [], ar_signatures = []\<rparr>)"
  by code_simp

text \<open>A rule that is skipped changes nothing for the others.\<close>

lemma skipped_rule_ignored:
  "parse_rule bad = Inr None \<Longrightarrow>
   attack_map_of (Some (Inr (PDict [(''rules'', PList (r # rs @ bad # rs'))]))) = attack_map_of (Some (Inr (PDict [(''rules'', PList (r # rs @ rs'))])))"
proof -
  assume bad: "parse_rule bad = Inr None"
  have "bind_res (map_res parse_rule (rs @ bad # rs')) (\<lambda>xs. Inr (List.map_filter id xs))
      = bind_res (map_res parse_rule (rs @ rs')) (\<lambda>xs. Inr (List.map_filter id xs) :: attack_rule list res)" for rs
  proof (induction rs)
    case Nil
    then show ?case by (cases "map_res parse_rule rs'") (simp_all add: bad)
  next
    case (Cons a rs)
    show ?case
    proof (cases "parse_rule a")
      case (Inr o)
      then show ?thesis
        using Cons.IH by (cases "map_res parse_rule (rs @ bad # rs')"; cases "map_res parse_rule (rs @ rs')") (auto simp: List.map_filter_def)
    qed simp
  qed
  from this [of "r # rs"] show ?thesis
    by (cases "map_res parse_rule ((r # rs) @ bad # rs')"; cases "map_res parse_rule ((r # rs) @ rs')")
      (simp_all add: attack_map_of_def dict_arg_def py_or_def py_get_def parse_techniques_def)
qed

end
