(* ===== verification/Geoip.thy ===== *)
theory Geoip
  imports Attack_Tagger
begin

text \<open>
  The GeoIP enricher of \<^verbatim>\<open>ulpf/enrich/geoip.py\<close>. A reader of the \<^verbatim>\<open>maxminddb\<close> package is a function from the text of an address to the record it finds or the exception it raises;
  it is absent when the database is. The memoisation of the lookups is an explicit cache.
\<close>

section \<open>Fields of a database record\<close>

type_synonym mmdb_reader = "string \<Rightarrow> pyval res"

definition reader_get :: "mmdb_reader option \<Rightarrow> string \<Rightarrow> pyval res" where
  "reader_get reader ip =
     (case reader of
        None \<Rightarrow> Inr PNone
      | Some f \<Rightarrow> (case f ip of
                    Inr v \<Rightarrow> Inr v
                  | Inl x \<Rightarrow> if (case x of ValueError _ \<Rightarrow> True | KeyError _ \<Rightarrow> True | _ \<Rightarrow> False) then Inr PNone else Inl x))"

definition without_none :: "pydict \<Rightarrow> pydict" where
  "without_none d = filter (\<lambda>(k, v). v \<noteq> PNone) d"

definition english_name :: "pydict \<Rightarrow> pyval res" where
  "english_name d = bind_res (dict_arg (py_or (py_get d ''names'') (PDict []))) (\<lambda>names. Inr (py_get names ''en''))"

definition city_fields :: "pydict \<Rightarrow> pydict res" where
  "city_fields rec =
     (let country = py_or (py_or (py_get rec ''country'') (py_get rec ''registered_country'')) (PDict []);
          city = py_or (py_get rec ''city'') (PDict []); location = py_or (py_get rec ''location'') (PDict [])
      in bind_res (dict_arg country) (\<lambda>cd.
         bind_res (english_name cd) (\<lambda>country_name.
         bind_res (dict_arg city) (\<lambda>yd.
         bind_res (english_name yd) (\<lambda>city_name.
         bind_res (dict_arg location) (\<lambda>ld.
         Inr (without_none
                [(''country_code'', py_get cd ''iso_code''), (''country_name'', country_name), (''city'', city_name),
                 (''latitude'', py_get ld ''latitude''), (''longitude'', py_get ld ''longitude'')])))))))"

definition asn_fields :: "pydict \<Rightarrow> pydict" where
  "asn_fields rec =
     without_none [(''asn'', py_get rec ''autonomous_system_number''), (''asn_org'', py_get rec ''autonomous_system_organization'')]"

section \<open>Looking up the addresses of a record\<close>

record geoip =
  ge_city :: "mmdb_reader option"
  ge_asn :: "mmdb_reader option"
  ge_cache :: "(string \<times> pydict) list"

definition ge_enabled :: "geoip \<Rightarrow> bool" where
  "ge_enabled g \<longleftrightarrow> ge_city g \<noteq> None"

definition new_geoip :: "mmdb_reader option \<Rightarrow> mmdb_reader option \<Rightarrow> geoip" where
  "new_geoip city asn = \<lparr>ge_city = city, ge_asn = asn, ge_cache = []\<rparr>"

definition lookup_uncached :: "mmdb_reader option \<Rightarrow> mmdb_reader option \<Rightarrow> string \<Rightarrow> pydict res" where
  "lookup_uncached city asn ip =
     bind_res (reader_get city ip) (\<lambda>c.
     bind_res (case c of PDict d \<Rightarrow> city_fields d | _ \<Rightarrow> Inr []) (\<lambda>found.
     bind_res (reader_get asn ip) (\<lambda>a.
     Inr (sort_key fst (case a of PDict d \<Rightarrow> dict_update found (asn_fields d) | _ \<Rightarrow> found)))))"

definition geoip_cache_size :: nat where
  "geoip_cache_size = 100000"

text \<open>\<^verbatim>\<open>lru_cache\<close>: most recently used first, the last dropped when full; an exception is not cached.\<close>

definition geoip_lookup :: "string \<Rightarrow> geoip \<Rightarrow> pydict res \<times> geoip" where
  "geoip_lookup ip g =
     (case map_of (ge_cache g) ip of
        Some d \<Rightarrow> (Inr d, g\<lparr>ge_cache := (ip, d) # dict_pop ip (ge_cache g)\<rparr>)
      | None \<Rightarrow> (case lookup_uncached (ge_city g) (ge_asn g) ip of
                  Inl x \<Rightarrow> (Inl x, g)
                | Inr d \<Rightarrow> (Inr d, g\<lparr>ge_cache := take geoip_cache_size ((ip, d) # ge_cache g)\<rparr>)))"

definition global_ip :: "pyval \<Rightarrow> string option res" where
  "global_ip v =
     (case v of
        PStr s \<Rightarrow> (case ip_address s of
                    Inl x \<Rightarrow> if is_value_error x then Inr None else Inl x
                  | Inr a \<Rightarrow> Inr (if is_private a then None else Some (ip_text a)))
      | _ \<Rightarrow> Inr None)"

fun add_publics :: "pyval list \<Rightarrow> string list \<Rightarrow> string list res" where
  "add_publics [] out = Inr out"
| "add_publics (v # vs) out =
     bind_res (global_ip v) (\<lambda>ip. add_publics vs (case ip of None \<Rightarrow> out | Some s \<Rightarrow> if s \<in> set out then out else out @ [s]))"

definition public_ips :: "pydict \<Rightarrow> string list res" where
  "public_ips rec =
     add_publics ([dict_member rec ''src_endpoint'' ''ip'', dict_member rec ''dst_endpoint'' ''ip'']
                  @ (case py_get rec ''unmapped'' of PDict d \<Rightarrow> map snd d | _ \<Rightarrow> [])) []"

fun resolve_ips :: "string list \<Rightarrow> pydict \<Rightarrow> geoip \<Rightarrow> pydict res \<times> geoip" where
  "resolve_ips [] resolved g = (Inr resolved, g)"
| "resolve_ips (ip # ips) resolved g =
     (case geoip_lookup ip g of
        (Inl x, g1) \<Rightarrow> (Inl x, g1)
      | (Inr d, g1) \<Rightarrow> resolve_ips ips (if d = [] then resolved else dict_set ip (PDict d) resolved) g1)"

definition enrich_geoip :: "pydict \<Rightarrow> geoip \<Rightarrow> pydict res \<times> geoip" where
  "enrich_geoip rec g =
     (if \<not> ge_enabled g then (Inr [], g)
      else case public_ips rec of
             Inl x \<Rightarrow> (Inl x, g)
           | Inr ips \<Rightarrow> (case resolve_ips ips [] g of
                          (Inl x, g1) \<Rightarrow> (Inl x, g1)
                        | (Inr resolved, g1) \<Rightarrow> (Inr (if resolved = [] then [] else [(''geoip'', PDict resolved)]), g1)))"

definition geoip_enricher :: "geoip \<Rightarrow> enricher" where
  "geoip_enricher g = (''geoip'', \<lambda>rec. case fst (enrich_geoip rec g) of Inl x \<Rightarrow> Raises x | Inr d \<Rightarrow> Returns (PDict d))"

section \<open>The cache answers as the readers do\<close>

definition cache_sound :: "geoip \<Rightarrow> bool" where
  "cache_sound g \<longleftrightarrow> list_all (\<lambda>(ip, d). lookup_uncached (ge_city g) (ge_asn g) ip = Inr d) (ge_cache g)"

lemma cache_sound_new: "cache_sound (new_geoip city asn)"
  by (simp add: cache_sound_def new_geoip_def)

lemma list_all_take: "list_all P xs \<Longrightarrow> list_all P (take k xs)"
  by (auto simp: list_all_iff dest: in_set_takeD)

lemma list_all_dict_pop: "list_all P d \<Longrightarrow> list_all P (dict_pop k d)"
  using keys_dict_pop_subset [of k d] unfolding list_all_iff by blast

lemma geoip_lookup_sound:
  assumes "cache_sound g" "geoip_lookup ip g = (r, g')"
  shows "r = lookup_uncached (ge_city g) (ge_asn g) ip \<and> cache_sound g' \<and> ge_city g' = ge_city g \<and> ge_asn g' = ge_asn g"
proof (cases "map_of (ge_cache g) ip")
  case None
  show ?thesis
  proof (cases "lookup_uncached (ge_city g) (ge_asn g) ip")
    case (Inl x)
    then show ?thesis using assms None by (auto simp: geoip_lookup_def)
  next
    case (Inr d)
    then have g': "g' = g\<lparr>ge_cache := take geoip_cache_size ((ip, d) # ge_cache g)\<rparr>" "r = Inr d"
      using assms(2) None by (auto simp: geoip_lookup_def)
    have all: "list_all (\<lambda>(ip, d). lookup_uncached (ge_city g) (ge_asn g) ip = Inr d) ((ip, d) # ge_cache g)"
      using assms(1) Inr by (simp add: cache_sound_def)
    have "cache_sound g'"
      using list_all_take [OF all, of geoip_cache_size] by (simp add: g' cache_sound_def)
    with g' Inr show ?thesis by simp
  qed
next
  case (Some d)
  then have "(ip, d) \<in> set (ge_cache g)" by (rule map_of_SomeD)
  then have "lookup_uncached (ge_city g) (ge_asn g) ip = Inr d"
    using assms(1) by (auto simp: cache_sound_def list_all_iff)
  moreover have "list_all (\<lambda>(ip, d). lookup_uncached (ge_city g) (ge_asn g) ip = Inr d) (dict_pop ip (ge_cache g))"
    using assms(1) list_all_dict_pop by (simp add: cache_sound_def)
  ultimately show ?thesis
    using assms(2) Some by (auto simp: geoip_lookup_def cache_sound_def)
qed

fun resolve_plain :: "mmdb_reader option \<Rightarrow> mmdb_reader option \<Rightarrow> string list \<Rightarrow> pydict \<Rightarrow> pydict res" where
  "resolve_plain city asn [] resolved = Inr resolved"
| "resolve_plain city asn (ip # ips) resolved =
     bind_res (lookup_uncached city asn ip) (\<lambda>d. resolve_plain city asn ips (if d = [] then resolved else dict_set ip (PDict d) resolved))"

lemma resolve_ips_plain:
  "cache_sound g \<Longrightarrow> resolve_ips ips resolved g = (r, g') \<Longrightarrow>
   r = resolve_plain (ge_city g) (ge_asn g) ips resolved \<and> cache_sound g' \<and> ge_city g' = ge_city g \<and> ge_asn g' = ge_asn g"
proof (induction ips arbitrary: resolved g)
  case (Cons ip ips)
  obtain x g1 where x: "geoip_lookup ip g = (x, g1)" by (cases "geoip_lookup ip g")
  note s = geoip_lookup_sound [OF Cons.prems(1) x]
  show ?case
  proof (cases x)
    case (Inl e)
    then show ?thesis using Cons.prems(2) x s by (auto dest: sym)
  next
    case (Inr d)
    then have "resolve_ips ips (if d = [] then resolved else dict_set ip (PDict d) resolved) g1 = (r, g')"
      using Cons.prems(2) x by simp
    from Cons.IH [OF _ this] s Inr show ?thesis by (auto dest: sym)
  qed
qed auto

text \<open>What the enricher does, without the cache.\<close>

definition geoip_of :: "mmdb_reader option \<Rightarrow> mmdb_reader option \<Rightarrow> pydict \<Rightarrow> pydict res" where
  "geoip_of city asn rec =
     (if city = None then Inr []
      else bind_res (public_ips rec) (\<lambda>ips. bind_res (resolve_plain city asn ips []) (\<lambda>resolved.
             Inr (if resolved = [] then [] else [(''geoip'', PDict resolved)]))))"

fun enrich_all :: "pydict list \<Rightarrow> geoip \<Rightarrow> pydict res list \<times> geoip" where
  "enrich_all [] g = ([], g)"
| "enrich_all (rec # recs) g = (case enrich_geoip rec g of (r, g1) \<Rightarrow> (case enrich_all recs g1 of (rs, g2) \<Rightarrow> (r # rs, g2)))"

lemma enrich_geoip_plain:
  assumes "cache_sound g" "enrich_geoip rec g = (r, g')"
  shows "r = geoip_of (ge_city g) (ge_asn g) rec \<and> cache_sound g' \<and> ge_city g' = ge_city g \<and> ge_asn g' = ge_asn g"
proof (cases "ge_city g = None")
  case True
  then show ?thesis using assms by (auto simp: enrich_geoip_def ge_enabled_def geoip_of_def)
next
  case False
  show ?thesis
  proof (cases "public_ips rec")
    case (Inl x)
    then show ?thesis using assms False by (auto simp: enrich_geoip_def ge_enabled_def geoip_of_def)
  next
    case (Inr ips)
    obtain x g1 where x: "resolve_ips ips [] g = (x, g1)" by (cases "resolve_ips ips [] g")
    note x_plain = resolve_ips_plain [OF assms(1) x]
    have "r = (case x of Inl y \<Rightarrow> Inl y | Inr resolved \<Rightarrow> Inr (if resolved = [] then [] else [(''geoip'', PDict resolved)])) \<and> g' = g1"
      using assms(2) x Inr False by (auto simp: enrich_geoip_def ge_enabled_def split: sum.splits)
    with x_plain Inr False show ?thesis
      by (auto simp: geoip_of_def bind_res_def)
  qed
qed

lemma enrich_all_plain: "fst (enrich_all recs (new_geoip city asn)) = map (geoip_of city asn) recs"
proof -
  have "fst (enrich_all recs g) = map (geoip_of (ge_city g) (ge_asn g)) recs" if "cache_sound g" for g
    using that
  proof (induction recs arbitrary: g)
    case (Cons rec recs)
    obtain r g1 where r: "enrich_geoip rec g = (r, g1)" by (cases "enrich_geoip rec g")
    obtain rs g2 where rs: "enrich_all recs g1 = (rs, g2)" by (cases "enrich_all recs g1")
    from enrich_geoip_plain [OF Cons.prems r] Cons.IH [of g1] rs r show ?case by simp
  qed simp
  from this [OF cache_sound_new, of city asn] show ?thesis
    by (simp add: new_geoip_def)
qed

text \<open>
  The cache is never seen: whatever records were enriched before, each gets what the readers answer for it.
\<close>

theorem geoip_cache_transparent:
  "fst (enrich_all recs (new_geoip city asn)) = map (geoip_of city asn) recs"
  by (rule enrich_all_plain)

section \<open>Private addresses are left alone\<close>

definition public_text :: "string \<Rightarrow> bool" where
  "public_text s \<longleftrightarrow> (case ip_address s of Inr a \<Rightarrow> \<not> is_private a \<and> ip_text a = s | Inl _ \<Rightarrow> False)"

lemma global_ip_public: "global_ip v = Inr (Some s) \<Longrightarrow> public_text s"
  by (auto simp: global_ip_def public_text_def ip_address_canonical split: pyval.splits sum.splits if_splits)

lemma add_publics_public:
  "add_publics vs out = Inr ips \<Longrightarrow> list_all public_text out \<Longrightarrow> distinct out \<Longrightarrow> list_all public_text ips \<and> distinct ips"
proof (induction vs arbitrary: out)
  case (Cons v vs)
  then obtain ip where ip: "global_ip v = Inr ip"
    "add_publics vs (case ip of None \<Rightarrow> out | Some s \<Rightarrow> if s \<in> set out then out else out @ [s]) = Inr ips"
    by (auto simp: bind_res_Inr_iff)
  from Cons.IH [OF ip(2)] Cons.prems global_ip_public ip(1) show ?case by (auto split: option.splits)
qed simp

lemma public_ips_public: "public_ips rec = Inr ips \<Longrightarrow> list_all public_text ips \<and> distinct ips"
  unfolding public_ips_def by (drule add_publics_public) simp_all

lemma resolve_plain_keys:
  "resolve_plain city asn ips resolved = Inr out \<Longrightarrow> fst ` set out \<subseteq> fst ` set resolved \<union> set ips"
proof (induction ips arbitrary: resolved)
  case (Cons ip ips)
  then obtain d where "resolve_plain city asn ips (if d = [] then resolved else dict_set ip (PDict d) resolved) = Inr out"
    by (auto simp: bind_res_Inr_iff)
  from Cons.IH [OF this] show ?case by (auto simp: keys_dict_set split: if_splits)
qed simp

lemma resolve_plain_cong:
  "\<forall>ip \<in> set ips. city ip = city' ip \<and> asn ip = asn' ip \<Longrightarrow>
   resolve_plain (Some city) (Some asn) ips resolved = resolve_plain (Some city') (Some asn') ips resolved"
proof (induction ips arbitrary: resolved)
  case (Cons ip ips)
  then have "lookup_uncached (Some city) (Some asn) ip = lookup_uncached (Some city') (Some asn') ip"
    by (simp add: lookup_uncached_def reader_get_def)
  then show ?case using Cons by (cases "lookup_uncached (Some city') (Some asn') ip") simp_all
qed simp

text \<open>
  Readers that answer alike for public addresses enrich every record alike: a private address is never looked up.
\<close>

theorem geoip_never_looks_up_private:
  assumes "\<And>s. public_text s \<Longrightarrow> city s = city' s \<and> asn s = asn' s"
  shows "fst (enrich_all recs (new_geoip (Some city) (Some asn))) = fst (enrich_all recs (new_geoip (Some city') (Some asn')))"
proof -
  have "geoip_of (Some city) (Some asn) rec = geoip_of (Some city') (Some asn') rec" for rec
  proof (cases "public_ips rec")
    case (Inr ips)
    from public_ips_public [OF this] assms
    have "resolve_plain (Some city) (Some asn) ips [] = resolve_plain (Some city') (Some asn') ips []"
      by (intro resolve_plain_cong) (auto simp: list_all_iff)
    with Inr show ?thesis by (simp add: geoip_of_def)
  qed (simp add: geoip_of_def)
  then show ?thesis by (simp add: enrich_all_plain)
qed

lemma ten_not_public: "\<not> public_text ''10.0.0.1''"
proof -
  have "v4_text 167772161 = ''10.0.0.1''"
    by (simp add: v4_text_def octets_of_def dec_digits.simps digit_char_def) code_simp
  then have "ip_address ''10.0.0.1'' = Inr (V4 167772161)"
    using ip_address_text [of "V4 167772161"] by simp
  moreover have "is_private (V4 167772161)"
    by (simp add: is_private_def in_any_def v4_private_networks_def v4_private_exceptions_def v4_net_def network_of_def
        positional_def in_network_def width_def Let_def)
  ultimately show ?thesis by (simp add: public_text_def)
qed

theorem geoip_never_looks_up_private_witness:
  "fst (enrich_all [[(''src_endpoint'', PDict [(''ip'', PStr ''10.0.0.1'')])]]
          (new_geoip (Some (\<lambda>s. if s = ''10.0.0.1'' then Inl (OSError ''x'') else Inr PNone)) (Some (\<lambda>s. Inr PNone))))
     = fst (enrich_all [[(''src_endpoint'', PDict [(''ip'', PStr ''10.0.0.1'')])]] (new_geoip (Some (\<lambda>s. Inr PNone)) (Some (\<lambda>s. Inr PNone))))"
proof (rule geoip_never_looks_up_private)
  fix s
  have "\<not> public_text ''10.0.0.1''" by (rule ten_not_public)
  then show "public_text s \<Longrightarrow> (if s = ''10.0.0.1'' then Inl (OSError ''x'') else Inr PNone) = (Inr PNone :: pyval res) \<and> (Inr PNone :: pyval res) = Inr PNone"
    by auto
qed

text \<open>
  The answers are keyed by the canonical text of the addresses, but the stage looks them up under the text of the record: an
  endpoint whose address is written in another form gets no location.
\<close>

lemma other_spelling_not_promoted:
  assumes "geoip_of city asn rec = Inr [(''geoip'', PDict resolved)]"
    and "py_get rec role = PDict endpoint" "py_get endpoint ''ip'' = PStr t" "\<not> public_text t"
  shows "promote_geoip_role (PDict resolved) role rec = Inr rec"
proof -
  obtain ips where ips: "public_ips rec = Inr ips" "resolve_plain city asn ips [] = Inr resolved"
    using assms(1) by (auto simp: geoip_of_def bind_res_Inr_iff split: if_splits)
  then have "t \<notin> fst ` set resolved"
    using resolve_plain_keys [OF ips(2)] public_ips_public [OF ips(1)] assms(4) by (auto simp: list_all_iff)
  then have "py_get resolved t = PNone"
    by (simp add: py_get_def map_of_eq_None_iff option.case_eq_if)
  then show ?thesis
    by (simp add: promote_geoip_role_def assms get_by_value_def hashable_def)
qed

text \<open>
  Contrary to the documentation, an address that is neither private nor global, of the shared address space of carriers, is looked up.
\<close>

lemma shared_address_looked_up:
  "global_ip (PStr ''100.64.0.1'') = Inr (Some ''100.64.0.1'') \<and> \<not> is_global (V4 1681915905) \<and> ip_address ''100.64.0.1'' = Inr (V4 1681915905)"
proof -
  have spelt: "v4_text 1681915905 = ''100.64.0.1''"
    by (simp add: v4_text_def octets_of_def dec_digits.simps digit_char_def) code_simp
  then have "ip_address ''100.64.0.1'' = Inr (V4 1681915905)"
    using ip_address_text [of "V4 1681915905"] by simp
  moreover have "\<not> is_private (V4 1681915905)"
    by (simp add: is_private_def in_any_def v4_private_networks_def v4_private_exceptions_def v4_net_def network_of_def
        positional_def in_network_def width_def Let_def)
  moreover have "in_network (V4 1681915905) (v4_net [100,64,0,0] 10)"
    by (simp add: v4_net_def network_of_def positional_def in_network_def width_def Let_def)
  ultimately show ?thesis using spelt by (simp add: global_ip_def is_global_def)
qed

end
