(* ===== verification/Threat_Intel.thy ===== *)
theory Threat_Intel
  imports Network_Context Sources
begin

text \<open>
  The threat-intelligence enricher (\<^verbatim>\<open>ulpf/enrich/threat_intel.py\<close>): the compiled indicator set, the store that keeps it in step with the files
  of a directory, and the search of a record's addresses, host names and digests. What reading a path gives (the JSON value, or nothing when
  it cannot be read or is no JSON) is an argument; events of the directory arrive one by one.
\<close>

section \<open>Indicators\<close>

definition ioc_types :: "string list" where
  "ioc_types = [''ip'', ''domain'', ''hash'', ''cidr'']"

definition host_keys :: "string list" where
  "host_keys = [''hostname'', ''domain'', ''fqdn'']"

definition hash_keys :: "string list" where
  "hash_keys = [''hash'', ''md5'', ''sha1'', ''sha256'', ''sha512'', ''imphash'', ''ssdeep'']"

record indicator =
  in_value :: string
  in_type :: string
  in_source :: string
  in_confidence :: pyval

record ioc_file =
  if_type :: string
  if_source :: string
  if_confidence :: pyval
  if_indicators :: "string list"

definition is_dot :: "char \<Rightarrow> bool" where
  "is_dot c \<longleftrightarrow> c = CHR ''.''"

definition normalise :: "string \<Rightarrow> string \<Rightarrow> string res" where
  "normalise ioc_type item =
     (let t = py_strip item in
      if ioc_type = ''ip'' then bind_res (ip_address t) (\<lambda>a. Inr (ip_text a))
      else if ioc_type = ''cidr'' then bind_res (ip_network t) (\<lambda>nw. Inr (network_text nw))
      else Inr (rstrip_by is_dot (py_lower t)))"

record indicator_set =
  ts_ips :: "(string \<times> indicator) list"
  ts_domains :: "(string \<times> indicator) list"
  ts_hashes :: "(string \<times> indicator) list"
  ts_cidr :: "indicator cidr_trie"
  ts_cidr_count :: nat

definition empty_set :: indicator_set where
  "empty_set = \<lparr>ts_ips = [], ts_domains = [], ts_hashes = [], ts_cidr = empty_cidr, ts_cidr_count = 0\<rparr>"

definition indicator_of :: "ioc_file \<Rightarrow> string \<Rightarrow> indicator" where
  "indicator_of f v = \<lparr>in_value = v, in_type = if_type f, in_source = if_source f, in_confidence = if_confidence f\<rparr>"

definition add_indicator :: "ioc_file \<Rightarrow> string \<Rightarrow> indicator_set \<Rightarrow> indicator_set res" where
  "add_indicator f v s =
     (let ind = indicator_of f v in
      if if_type f = ''ip'' then Inr (s\<lparr>ts_ips := dict_set v ind (ts_ips s)\<rparr>)
      else if if_type f = ''domain'' then Inr (s\<lparr>ts_domains := dict_set v ind (ts_domains s)\<rparr>)
      else if if_type f = ''hash'' then Inr (s\<lparr>ts_hashes := dict_set v ind (ts_hashes s)\<rparr>)
      else bind_res (ip_network v) (\<lambda>nw. Inr (s\<lparr>ts_cidr := cidr_insert nw ind (ts_cidr s), ts_cidr_count := ts_cidr_count s + 1\<rparr>)))"

fun add_indicators :: "ioc_file \<Rightarrow> string list \<Rightarrow> indicator_set \<Rightarrow> indicator_set res" where
  "add_indicators f [] s = Inr s"
| "add_indicators f (v # vs) s = bind_res (add_indicator f v s) (add_indicators f vs)"

fun ingest_files :: "ioc_file list \<Rightarrow> indicator_set \<Rightarrow> indicator_set res" where
  "ingest_files [] s = Inr s"
| "ingest_files (f # fs) s = bind_res (add_indicators f (if_indicators f) s) (ingest_files fs)"

definition indicator_set_of :: "ioc_file list \<Rightarrow> indicator_set res" where
  "indicator_set_of fs = ingest_files fs empty_set"

definition indicator_count :: "indicator_set \<Rightarrow> nat" where
  "indicator_count s = length (ts_ips s) + length (ts_domains s) + length (ts_hashes s) + ts_cidr_count s"

definition match_ip :: "indicator_set \<Rightarrow> string \<Rightarrow> indicator option res" where
  "match_ip s ip =
     (case ip_address ip of
        Inl x \<Rightarrow> if is_value_error x then Inr None else Inl x
      | Inr a \<Rightarrow>
          (let key = ip_text a in
           case map_of (ts_ips s) key of
             Some hit \<Rightarrow> Inr (Some hit)
           | None \<Rightarrow> if ts_cidr_count s = 0 then Inr None else cidr_lookup_text key (ts_cidr s)))"

fun first_hit :: "(string \<times> indicator) list \<Rightarrow> string list \<Rightarrow> indicator option" where
  "first_hit table [] = None"
| "first_hit table (k # ks) = (case map_of table k of Some hit \<Rightarrow> Some hit | None \<Rightarrow> first_hit table ks)"

definition host_labels :: "string \<Rightarrow> string list" where
  "host_labels host = split_on ''.'' (rstrip_by is_dot (py_lower (py_strip host)))"

definition parent_names :: "string list \<Rightarrow> string list" where
  "parent_names labels = map (\<lambda>start. join_with ''.'' (drop start labels)) [0..<max (length labels - 1) 1]"

definition match_domain :: "indicator_set \<Rightarrow> string \<Rightarrow> indicator option" where
  "match_domain s host = (if ts_domains s = [] then None else first_hit (ts_domains s) (parent_names (host_labels host)))"

definition match_hash :: "indicator_set \<Rightarrow> string \<Rightarrow> indicator option" where
  "match_hash s digest = map_of (ts_hashes s) (py_lower (py_strip digest))"

section \<open>The observables of a record\<close>

definition iter_ips :: "pydict \<Rightarrow> (string \<times> string) list" where
  "iter_ips rec = concat (map (\<lambda>key.
     case py_get rec key of
       PDict endpoint \<Rightarrow> (case py_get endpoint ''ip'' of PStr ip \<Rightarrow> [(key @ ''.ip'', ip)] | _ \<Rightarrow> [])
     | _ \<Rightarrow> []) [''src_endpoint'', ''dst_endpoint''])"

definition child_path :: "string \<Rightarrow> string \<Rightarrow> string" where
  "child_path path key = (if path = [] then key else path @ ''.'' @ key)"

definition text_of :: "pyval \<Rightarrow> string option" where
  "text_of v = (case v of PStr s \<Rightarrow> if s = [] then None else Some s | _ \<Rightarrow> None)"

fun iter_hosts :: "string \<Rightarrow> pyval \<Rightarrow> (string \<times> string) list"
  and hosts_of_members :: "string \<Rightarrow> pydict \<Rightarrow> (string \<times> string) list"
  and hosts_of_items :: "string \<Rightarrow> nat \<Rightarrow> pyval list \<Rightarrow> (string \<times> string) list" where
  "iter_hosts path (PDict d) = hosts_of_members path d"
| "iter_hosts path (PList xs) = hosts_of_items path 0 xs"
| "iter_hosts path v = []"
| "hosts_of_members path [] = []"
| "hosts_of_members path ((key, v) # d) =
     (case (key \<in> set host_keys, text_of v) of
        (True, Some host) \<Rightarrow> [(child_path path key, host)]
      | _ \<Rightarrow> iter_hosts (child_path path key) v) @ hosts_of_members path d"
| "hosts_of_items path i [] = []"
| "hosts_of_items path i (x # xs) = iter_hosts (path @ ''.'' @ dec_digits i) x @ hosts_of_items path (Suc i) xs"

text \<open>The values of a list of fingerprints.\<close>

definition fingerprint_values :: "string \<Rightarrow> pyval list \<Rightarrow> (string \<times> string) list" where
  "fingerprint_values path xs = concat (map (\<lambda>(i, x).
     case x of
       PDict d \<Rightarrow> (case py_get d ''value'' of PStr s \<Rightarrow> [(path @ ''.'' @ dec_digits i @ ''.value'', s)] | _ \<Rightarrow> [])
     | _ \<Rightarrow> []) (enumerate 0 xs))"

fun iter_hashes :: "string \<Rightarrow> pyval \<Rightarrow> (string \<times> string) list"
  and hashes_of_members :: "string \<Rightarrow> pydict \<Rightarrow> (string \<times> string) list"
  and hashes_of_items :: "string \<Rightarrow> nat \<Rightarrow> pyval list \<Rightarrow> (string \<times> string) list" where
  "iter_hashes path (PDict d) = hashes_of_members path d"
| "iter_hashes path (PList xs) = hashes_of_items path 0 xs"
| "iter_hashes path v = []"
| "hashes_of_members path [] = []"
| "hashes_of_members path ((key, v) # d) =
     (case (key \<in> set hash_keys, text_of v) of
        (True, Some digest) \<Rightarrow> [(child_path path key, digest)]
      | _ \<Rightarrow> (case (key = ''fingerprints'' \<or> key = ''hashes'', v) of
                (True, PList xs) \<Rightarrow> fingerprint_values (child_path path key) xs
              | _ \<Rightarrow> iter_hashes (child_path path key) v)) @ hashes_of_members path d"
| "hashes_of_items path i [] = []"
| "hashes_of_items path i (x # xs) = iter_hashes (path @ ''.'' @ dec_digits i) x @ hashes_of_items path (Suc i) xs"

definition hit_payload :: "indicator \<Rightarrow> string \<Rightarrow> pydict" where
  "hit_payload ind field =
     [(''matched'', PBool True), (''indicator'', PStr (in_value ind)), (''ioc_type'', PStr (in_type ind)),
      (''ioc_source'', PStr (in_source ind)), (''confidence'', in_confidence ind), (''matched_on'', PStr field)]"

text \<open>The first observable with a hit.\<close>

fun search_observables :: "(string \<Rightarrow> indicator option res) \<Rightarrow> (string \<times> string) list \<Rightarrow> (indicator \<times> string) option res" where
  "search_observables look [] = Inr None"
| "search_observables look ((field, v) # obs) =
     bind_res (look v) (\<lambda>h. case h of Some ind \<Rightarrow> Inr (Some (ind, field)) | None \<Rightarrow> search_observables look obs)"

definition or_search :: "'a option res \<Rightarrow> 'a option res \<Rightarrow> 'a option res" where
  "or_search r s = bind_res r (\<lambda>h. case h of Some x \<Rightarrow> Inr (Some x) | None \<Rightarrow> s)"

definition match_record :: "indicator_set \<Rightarrow> pydict \<Rightarrow> (indicator \<times> string) option res" where
  "match_record s rec =
     or_search (search_observables (match_ip s) (iter_ips rec))
       (or_search (search_observables (\<lambda>h. Inr (match_domain s h)) (iter_hosts [] (PDict rec)))
          (search_observables (\<lambda>d. Inr (match_hash s d)) (iter_hashes [] (PDict rec))))"

definition enrich_threat_intel :: "indicator_set \<Rightarrow> pydict \<Rightarrow> pydict res" where
  "enrich_threat_intel s rec = bind_res (match_record s rec) (\<lambda>h.
     Inr (case h of None \<Rightarrow> [] | Some (ind, field) \<Rightarrow> [(''threat_intel'', PDict (hit_payload ind field))]))"

section \<open>The store\<close>

record ioc_store =
  st_files :: "(string \<times> ioc_file) list"
  st_set :: indicator_set
  st_reload_count :: nat

definition new_ioc_store :: ioc_store where
  "new_ioc_store = \<lparr>st_files = [], st_set = empty_set, st_reload_count = 0\<rparr>"

text \<open>\<^verbatim>\<open>_read_and_validate\<close>: every way a file is not of the form of an indicator file is caught there.\<close>

definition ioc_file_of :: "pyval \<Rightarrow> ioc_file option" where
  "ioc_file_of data =
     (case data of
        PDict d \<Rightarrow>
          (case (map_of d ''type'', map_of d ''indicators'', map_of d ''source'') of
             (Some (PStr t), Some (PList items), Some src) \<Rightarrow>
               if t \<in> set ioc_types
               then (case map_res (\<lambda>item. normalise t (py_str item)) items of
                       Inl x \<Rightarrow> None
                     | Inr vs \<Rightarrow> Some \<lparr>if_type = t, if_source = py_str src,
                                 if_confidence = (case map_of d ''confidence'' of None \<Rightarrow> PStr ''unknown'' | Some c \<Rightarrow> c), if_indicators = vs\<rparr>)
               else None
           | _ \<Rightarrow> None)
      | _ \<Rightarrow> None)"

type_synonym json_reader = "string \<Rightarrow> pyval option"

definition read_and_validate :: "json_reader \<Rightarrow> string \<Rightarrow> ioc_file option" where
  "read_and_validate read path = Option.bind (read path) ioc_file_of"

definition rebuild :: "ioc_store \<Rightarrow> ioc_store res" where
  "rebuild st = bind_res (indicator_set_of (map snd (st_files st))) (\<lambda>s.
     Inr (st\<lparr>st_set := s, st_reload_count := st_reload_count st + 1\<rparr>))"

definition read_file_into :: "json_reader \<Rightarrow> string \<Rightarrow> (string \<times> ioc_file) list \<Rightarrow> (string \<times> ioc_file) list" where
  "read_file_into read path files = (case read_and_validate read path of None \<Rightarrow> files | Some f \<Rightarrow> dict_set path f files)"

definition ioc_load_all :: "json_reader \<Rightarrow> string list \<Rightarrow> ioc_store \<Rightarrow> ioc_store res" where
  "ioc_load_all read paths st = rebuild (st\<lparr>st_files := fold (read_file_into read) (sort paths) []\<rparr>)"

definition on_file_changed :: "json_reader \<Rightarrow> string \<Rightarrow> ioc_store \<Rightarrow> ioc_store res" where
  "on_file_changed read path st =
     (case read_and_validate read path of
        None \<Rightarrow> Inr st
      | Some f \<Rightarrow> rebuild (st\<lparr>st_files := dict_set path f (st_files st)\<rparr>))"

definition on_file_deleted :: "string \<Rightarrow> ioc_store \<Rightarrow> ioc_store res" where
  "on_file_deleted path st =
     (case map_of (st_files st) path of
        None \<Rightarrow> Inr st
      | Some f \<Rightarrow> rebuild (st\<lparr>st_files := dict_pop path (st_files st)\<rparr>))"

definition json_suffix :: "string \<Rightarrow> bool" where
  "json_suffix p \<longleftrightarrow> ends_with ''.json'' (base_name p) \<and> base_name p \<noteq> ''.json''"

definition ioc_changed :: "json_reader \<Rightarrow> bool \<Rightarrow> string \<Rightarrow> ioc_store \<Rightarrow> ioc_store res" where
  "ioc_changed read is_dir p st = (if \<not> is_dir \<and> json_suffix p then on_file_changed read p st else Inr st)"

fun ioc_event :: "json_reader \<Rightarrow> bool \<Rightarrow> fs_event \<Rightarrow> ioc_store \<Rightarrow> ioc_store res" where
  "ioc_event read is_dir (Created p) st = ioc_changed read is_dir p st"
| "ioc_event read is_dir (Modified p) st = ioc_changed read is_dir p st"
| "ioc_event read is_dir (Moved src dest) st = ioc_changed read is_dir dest st"
| "ioc_event read is_dir (Deleted p) st = (if \<not> is_dir \<and> ends_with ''.json'' p then on_file_deleted p st else Inr st)"

section \<open>Networks read back from their text\<close>

definition network_canonical :: "network \<Rightarrow> bool" where
  "network_canonical nw \<longleftrightarrow> network_ok nw \<and> network_of (nw_version nw) (nw_address nw) (nw_prefix nw) = nw"

lemma network_of_idem: "network_of w (nw_address (network_of w n p)) p = network_of w n p"
  by (simp add: network_of_def Let_def)

lemma network_of_canonical: "network_ok (network_of w n p) \<Longrightarrow> network_canonical (network_of w n p)"
  using network_of_idem by (simp add: network_canonical_def) (simp add: network_of_def Let_def)

lemma ip_network_is_masked:
  assumes "ip_network s = Inr nw"
  shows "network_canonical nw"
proof -
  have "\<exists>w n p. nw = network_of w n p"
    using assms by (auto simp: ip_network_def Let_def bind_eq_Some_conv simp del: split_paired_Ex split: option.splits if_split_asm)
  then show ?thesis using network_of_canonical ip_network_ok [OF assms] by blast
qed

lemma slash_not_in_v4: "CHR ''/'' \<notin> set (v4_text n)"
  using v4_text_chars [of "CHR ''/''" n] by (auto simp: is_dec_def)

lemma slash_not_in_v6: "CHR ''/'' \<notin> set (v6_text n)"
  using v6_text_chars [of "CHR ''/''" n] by (auto simp: hex_val_def)

lemma split_slash:
  assumes "CHR ''/'' \<notin> set a" and "CHR ''/'' \<notin> set b"
  shows "split_on ''/'' (a @ ''/'' @ b) = [a, b]"
  using split_on_single_step [OF assms(1), of b] split_on_single_none [OF assms(2)] by simp

lemma parse_prefix_digits: "p \<le> w \<Longrightarrow> parse_prefix_len w (dec_digits p) = Some p"
  using dec_digits_props [of p] by (auto simp: parse_prefix_len_def list_all_iff)

lemma v6_text_not_v4: "parse_v4 (v6_text n) = None"
proof -
  have "\<not> (\<exists>t. split_on '':'' (v6_text n) = [t])"
    using compress_parts(2) [OF hextets_of_props(1), of n] by (auto simp: split_v6_text)
  then have "CHR '':'' \<in> set (v6_text n)" using split_on_single_none [of "CHR '':''" "v6_text n"] by blast
  then show ?thesis using parse_v4_chars [of "v6_text n" _ "CHR '':''"] by (cases "parse_v4 (v6_text n)") (auto simp: is_dec_def)
qed

lemma ip_network_text:
  assumes "network_canonical nw"
  shows "ip_network (network_text nw) = Inr nw"
proof -
  have ok: "network_ok nw" and m: "network_of (nw_version nw) (nw_address nw) (nw_prefix nw) = nw"
    using assms by (auto simp: network_canonical_def)
  have digits: "CHR ''/'' \<notin> set (dec_digits (nw_prefix nw))" by (rule dec_not_in) (simp add: is_dec_def)
  show ?thesis
  proof (cases "nw_version nw = 4")
    case True
    have "split_on ''/'' (network_text nw) = [v4_text (nw_address nw), dec_digits (nw_prefix nw)]"
      using split_slash [OF slash_not_in_v4 digits] True by (simp add: network_text_def)
    moreover have "parse_v4 (v4_text (nw_address nw)) = Some (nw_address nw)"
      using ok True by (intro parse_v4_text) (simp add: network_ok_def width_def)
    moreover have "parse_mask (dec_digits (nw_prefix nw)) = Some (nw_prefix nw)"
      using ok True by (simp add: parse_mask_def parse_prefix_digits network_ok_def width_def)
    ultimately show ?thesis using m True by (simp add: ip_network_def)
  next
    case False
    then have v: "nw_version nw = 6" using ok by (simp add: network_ok_def)
    have "split_on ''/'' (network_text nw) = [v6_text (nw_address nw), dec_digits (nw_prefix nw)]"
      using split_slash [OF slash_not_in_v6 digits] v by (simp add: network_text_def)
    moreover have "parse_v6 (v6_text (nw_address nw)) = Some (V6 (nw_address nw) None)"
      using ip_address_text [of "V6 (nw_address nw) None"] ok v v6_text_not_v4 [of "nw_address nw"]
      by (simp add: ip_address_def network_ok_def width_def split: option.splits)
    moreover have "parse_prefix_len 128 (dec_digits (nw_prefix nw)) = Some (nw_prefix nw)"
      using ok v by (intro parse_prefix_digits) (simp add: network_ok_def width_def)
    ultimately show ?thesis using m v by (simp add: ip_network_def v6_text_not_v4)
  qed
qed

section \<open>Validated files compile\<close>

definition value_ok :: "string \<Rightarrow> string \<Rightarrow> bool" where
  "value_ok t v \<longleftrightarrow> t = ''cidr'' \<longrightarrow> (\<exists>nw. network_canonical nw \<and> v = network_text nw)"

definition file_ok :: "ioc_file \<Rightarrow> bool" where
  "file_ok f \<longleftrightarrow> if_type f \<in> set ioc_types \<and> list_all (value_ok (if_type f)) (if_indicators f)"

lemma normalise_ok: "normalise t item = Inr v \<Longrightarrow> value_ok t v"
  using ip_network_is_masked by (auto simp: normalise_def value_ok_def Let_def bind_res_Inr_iff split: if_splits)

lemma ioc_file_ok: "ioc_file_of data = Some f \<Longrightarrow> file_ok f"
  by (auto simp: ioc_file_of_def file_ok_def map_res_Inr_iff list_all2_conv_all_nth list_all_length normalise_ok
      split: pyval.splits option.splits if_splits sum.splits)

definition loaded :: "string \<Rightarrow> ioc_file list \<Rightarrow> indicator list" where
  "loaded t fs = concat (map (\<lambda>f. map (indicator_of f) (if_indicators f)) (filter (\<lambda>f. if_type f = t) fs))"

definition network_in :: "indicator \<Rightarrow> network" where
  "network_in ind = (case ip_network (in_value ind) of Inr nw \<Rightarrow> nw | Inl _ \<Rightarrow> network_of 4 0 0)"

definition by_value :: "indicator list \<Rightarrow> (string \<times> indicator) list" where
  "by_value inds = map (\<lambda>i. (in_value i, i)) inds"

definition compiled :: "ioc_file list \<Rightarrow> indicator_set \<Rightarrow> indicator_set" where
  "compiled fs s = \<lparr>ts_ips = dict_update (ts_ips s) (by_value (loaded ''ip'' fs)),
     ts_domains = dict_update (ts_domains s) (by_value (loaded ''domain'' fs)),
     ts_hashes = dict_update (ts_hashes s) (by_value (loaded ''hash'' fs)),
     ts_cidr = fold (\<lambda>(nw, i). cidr_insert nw i) (map (\<lambda>i. (network_in i, i)) (loaded ''cidr'' fs)) (ts_cidr s),
     ts_cidr_count = ts_cidr_count s + length (loaded ''cidr'' fs)\<rparr>"

lemma add_indicators_compiled:
  assumes "if_type f \<in> set ioc_types" and "list_all (value_ok (if_type f)) vs"
  shows "add_indicators f vs s = Inr (compiled [f\<lparr>if_indicators := vs\<rparr>] s)"
  using assms(2)
proof (induction vs arbitrary: s)
  case Nil
  show ?case by (cases s) (simp add: compiled_def loaded_def by_value_def)
next
  case (Cons v vs)
  have ind: "indicator_of (f\<lparr>if_indicators := w\<rparr>) = indicator_of f" for w by (simp add: indicator_of_def fun_eq_iff)
  consider "if_type f = ''ip''" | "if_type f = ''domain''" | "if_type f = ''hash''" | nw where "if_type f = ''cidr''" "network_canonical nw" "v = network_text nw"
    using assms(1) Cons.prems by (auto simp: ioc_types_def value_ok_def)
  then show ?case
  proof cases
    case 4
    have "network_in (indicator_of f v) = nw" using ip_network_text [OF 4(2)] by (simp add: network_in_def indicator_of_def 4(3))
    then show ?thesis
      using Cons ip_network_text [OF 4(2)]
      by (simp add: add_indicator_def 4(1) 4(3) [symmetric] compiled_def loaded_def by_value_def ind Let_def)
  qed (use Cons in \<open>simp_all add: add_indicator_def compiled_def loaded_def by_value_def ind Let_def indicator_of_def\<close>)
qed

lemma compiled_append: "compiled gs (compiled fs s) = compiled (fs @ gs) s"
  by (simp add: compiled_def loaded_def by_value_def dict_update_def)

lemma ingest_compiled: "list_all file_ok fs \<Longrightarrow> ingest_files fs s = Inr (compiled fs s)"
proof (induction fs arbitrary: s)
  case Nil
  show ?case by (cases s) (simp add: compiled_def loaded_def by_value_def)
next
  case (Cons f fs)
  have "add_indicators f (if_indicators f) s = Inr (compiled [f] s)"
    using add_indicators_compiled [of f "if_indicators f" s] Cons.prems by (simp add: file_ok_def)
  then show ?case using Cons compiled_append [of fs "[f]" s] by simp
qed

lemma indicator_set_of_files: "list_all file_ok fs \<Longrightarrow> indicator_set_of fs = Inr (compiled fs empty_set)"
  by (simp add: indicator_set_of_def ingest_compiled)

section \<open>The store keeps in step with its files\<close>

definition store_ok :: "ioc_store \<Rightarrow> bool" where
  "store_ok st \<longleftrightarrow> list_all file_ok (map snd (st_files st)) \<and> indicator_set_of (map snd (st_files st)) = Inr (st_set st)"

lemma store_ok_new: "store_ok new_ioc_store"
  by (simp add: store_ok_def new_ioc_store_def indicator_set_of_def)

lemma rebuild_ok:
  assumes "list_all file_ok (map snd (st_files st))"
  shows "\<exists>st'. rebuild st = Inr st' \<and> store_ok st' \<and> st_files st' = st_files st"
  using assms by (simp add: rebuild_def store_ok_def indicator_set_of_files)

lemma all_values_dict_set: "list_all P (map snd d) \<Longrightarrow> P v \<Longrightarrow> list_all P (map snd (dict_set k v d))"
  by (induction k v d rule: dict_set.induct) auto

lemma all_values_dict_pop: "list_all P (map snd d) \<Longrightarrow> list_all P (map snd (dict_pop k d))"
  by (induction k d rule: dict_pop.induct) auto

lemma read_validated: "read_and_validate read path = Some f \<Longrightarrow> file_ok f"
  using ioc_file_ok by (auto simp: read_and_validate_def bind_eq_Some_conv)

lemma read_files_ok: "list_all file_ok (map snd d) \<Longrightarrow> list_all file_ok (map snd (fold (read_file_into read) paths d))"
  by (induction paths arbitrary: d) (auto simp: read_file_into_def all_values_dict_set read_validated split: option.split)

lemma load_all_ok: "\<exists>st'. ioc_load_all read paths st = Inr st' \<and> store_ok st'"
  using rebuild_ok [of "st\<lparr>st_files := fold (read_file_into read) (sort paths) []\<rparr>"] read_files_ok [of "[]" read "sort paths"]
  by (auto simp: ioc_load_all_def)

lemma ioc_changed_ok: "store_ok st \<Longrightarrow> \<exists>st'. ioc_changed read is_dir p st = Inr st' \<and> store_ok st'"
proof (cases "read_and_validate read p")
  case (Some f)
  assume "store_ok st"
  then have "list_all file_ok (map snd (dict_set p f (st_files st)))"
    using all_values_dict_set read_validated [OF Some] by (auto simp: store_ok_def)
  then show ?thesis
    using rebuild_ok [of "st\<lparr>st_files := dict_set p f (st_files st)\<rparr>"] \<open>store_ok st\<close> Some
    by (auto simp: ioc_changed_def on_file_changed_def)
qed (simp add: ioc_changed_def on_file_changed_def)

lemma on_file_deleted_ok: "store_ok st \<Longrightarrow> \<exists>st'. on_file_deleted p st = Inr st' \<and> store_ok st'"
proof (cases "map_of (st_files st) p")
  case (Some f)
  assume "store_ok st"
  then have "list_all file_ok (map snd (dict_pop p (st_files st)))" using all_values_dict_pop by (auto simp: store_ok_def)
  then show ?thesis using rebuild_ok [of "st\<lparr>st_files := dict_pop p (st_files st)\<rparr>"] Some by (auto simp: on_file_deleted_def)
qed (simp add: on_file_deleted_def)

lemma ioc_event_ok: "store_ok st \<Longrightarrow> \<exists>st'. ioc_event read is_dir ev st = Inr st' \<and> store_ok st'"
  by (cases ev) (auto simp: ioc_changed_ok on_file_deleted_ok)

text \<open>What is done with a store: loads of the directory, and events, each with what the paths hold then.\<close>

datatype ioc_action = Load_All json_reader "string list" | File_Event json_reader bool fs_event

fun ioc_act :: "ioc_action \<Rightarrow> ioc_store \<Rightarrow> ioc_store res" where
  "ioc_act (Load_All read paths) st = ioc_load_all read paths st"
| "ioc_act (File_Event read is_dir ev) st = ioc_event read is_dir ev st"

fun ioc_run :: "ioc_action list \<Rightarrow> ioc_store \<Rightarrow> ioc_store res" where
  "ioc_run [] st = Inr st"
| "ioc_run (a # as) st = bind_res (ioc_act a st) (ioc_run as)"

lemma ioc_run_ok: "store_ok st \<Longrightarrow> \<exists>st'. ioc_run as st = Inr st' \<and> store_ok st'"
proof (induction as arbitrary: st)
  case (Cons a as)
  then obtain st1 where "ioc_act a st = Inr st1" "store_ok st1"
    using load_all_ok ioc_event_ok by (cases a) fastforce+
  then show ?case using Cons.IH by auto
qed simp

section \<open>What a hit means\<close>

definition covers_ip :: "indicator \<Rightarrow> string \<Rightarrow> bool" where
  "covers_ip ind v \<longleftrightarrow> (case ip_address v of Inl _ \<Rightarrow> False
     | Inr a \<Rightarrow> in_type ind = ''ip'' \<and> in_value ind = ip_text a \<or> in_type ind = ''cidr'' \<and> in_network a (network_in ind))"

definition covers_host :: "indicator \<Rightarrow> string \<Rightarrow> bool" where
  "covers_host ind host \<longleftrightarrow> in_type ind = ''domain'' \<and> in_value ind \<in> set (parent_names (host_labels host))"

definition covers_hash :: "indicator \<Rightarrow> string \<Rightarrow> bool" where
  "covers_hash ind digest \<longleftrightarrow> in_type ind = ''hash'' \<and> in_value ind = py_lower (py_strip digest)"

definition loaded_files :: "ioc_file list \<Rightarrow> indicator list" where
  "loaded_files fs = concat (map (\<lambda>f. map (indicator_of f) (if_indicators f)) fs)"

lemma loaded_types: "ind \<in> set (loaded t fs) \<longleftrightarrow> ind \<in> set (loaded_files fs) \<and> in_type ind = t"
  by (auto simp: loaded_def loaded_files_def indicator_of_def)

lemma map_of_by_value: "map_of (dict_update [] (by_value inds)) k = List.find (\<lambda>i. in_value i = k) (rev inds)"
proof -
  have "map_of (by_value xs) k = List.find (\<lambda>i. in_value i = k) xs" for xs by (induction xs) (auto simp: by_value_def)
  then show ?thesis by (simp add: map_of_dict_update by_value_def rev_map)
qed

lemma table_hit: "map_of (dict_update [] (by_value (loaded t fs))) k = Some ind \<Longrightarrow> ind \<in> set (loaded_files fs) \<and> in_type ind = t \<and> in_value ind = k"
  unfolding map_of_by_value find_Some_iff using loaded_types by (metis nth_mem set_rev)

lemma table_miss: "map_of (dict_update [] (by_value (loaded t fs))) k = None \<Longrightarrow> ind \<in> set (loaded_files fs) \<Longrightarrow> in_type ind = t \<Longrightarrow> in_value ind \<noteq> k"
  unfolding map_of_by_value find_None_iff using loaded_types by fastforce

text \<open>A lookup is exact for a way an indicator covers a value: a hit is a loaded indicator that covers it, a miss is that none does.\<close>

definition look_exact :: "ioc_file list \<Rightarrow> (indicator \<Rightarrow> string \<Rightarrow> bool) \<Rightarrow> string \<Rightarrow> indicator option res \<Rightarrow> bool" where
  "look_exact fs covers v r \<longleftrightarrow>
     (case r of Inl x \<Rightarrow> False
      | Inr None \<Rightarrow> \<forall>ind \<in> set (loaded_files fs). \<not> covers ind v
      | Inr (Some ind) \<Rightarrow> ind \<in> set (loaded_files fs) \<and> covers ind v)"

lemma match_hash_exact: "look_exact fs covers_hash v (Inr (match_hash (compiled fs empty_set) v))"
  using table_hit table_miss
  by (fastforce simp: look_exact_def match_hash_def compiled_def empty_set_def covers_hash_def split: option.split)

lemma first_hit_Some: "first_hit table ks = Some ind \<Longrightarrow> \<exists>k \<in> set ks. map_of table k = Some ind"
  by (induction ks) (auto split: option.splits)

lemma first_hit_None: "first_hit table ks = None \<longleftrightarrow> (\<forall>k \<in> set ks. map_of table k = None)"
  by (induction ks) (auto split: option.splits)

lemma match_domain_first:
  "match_domain (compiled fs empty_set) v = first_hit (dict_update [] (by_value (loaded ''domain'' fs))) (parent_names (host_labels v))"
  by (auto simp: match_domain_def compiled_def empty_set_def first_hit_None [THEN iffD2])

lemma match_domain_exact: "look_exact fs covers_host v (Inr (match_domain (compiled fs empty_set) v))"
proof (cases "match_domain (compiled fs empty_set) v")
  case None
  then have "map_of (dict_update [] (by_value (loaded ''domain'' fs))) k = None" if "k \<in> set (parent_names (host_labels v))" for k
    using that by (simp add: match_domain_first first_hit_None)
  then have "\<not> covers_host ind v" if "ind \<in> set (loaded_files fs)" for ind
    using that table_miss [of "''domain''" fs "in_value ind" ind] by (auto simp: covers_host_def)
  then show ?thesis using None by (simp add: look_exact_def)
next
  case (Some ind)
  then obtain k where "k \<in> set (parent_names (host_labels v))" "map_of (dict_update [] (by_value (loaded ''domain'' fs))) k = Some ind"
    using first_hit_Some unfolding match_domain_first by blast
  then show ?thesis using Some table_hit unfolding look_exact_def covers_host_def by auto
qed

lemma match_ip_exact:
  assumes "list_all file_ok fs"
  shows "look_exact fs covers_ip v (match_ip (compiled fs empty_set) v)"
proof (cases "ip_address v")
  case (Inl x)
  then show ?thesis
    by (auto simp: look_exact_def match_ip_def covers_ip_def ip_address_def split: option.splits)
next
  case (Inr a)
  let ?entries = "map (\<lambda>i. (network_in i, i)) (loaded ''cidr'' fs)"
  have nets: "\<forall>(nw, i) \<in> set ?entries. network_ok nw"
  proof -
    have "network_ok (network_in ind)" if i: "ind \<in> set (loaded ''cidr'' fs)" for ind
    proof -
      obtain f where "f \<in> set fs" "if_type f = ''cidr''" "ind \<in> set (map (indicator_of f) (if_indicators f))" using i by (auto simp: loaded_def)
      then have "value_ok ''cidr'' (in_value ind)" using assms by (auto simp: list_all_iff file_ok_def indicator_of_def)
      then obtain nw where "network_canonical nw" "in_value ind = network_text nw" by (auto simp: value_ok_def)
      then show ?thesis using ip_network_text by (simp add: network_in_def network_canonical_def)
    qed
    then show ?thesis by auto
  qed
  have cidr: "cidr_lookup_text (ip_text a) (ts_cidr (compiled fs empty_set)) = Inr (map_option snd (best_of a ?entries))"
    using cidr.find_entries [OF ip_address_ok [OF Inr] nets] ip_address_canonical [OF Inr]
    by (simp add: cidr_lookup_text_def compiled_def empty_set_def)
  have covers: "covers_ip ind v \<longleftrightarrow> in_type ind = ''ip'' \<and> in_value ind = ip_text a \<or> in_type ind = ''cidr'' \<and> in_network a (network_in ind)" for ind
    by (simp add: covers_ip_def Inr)
  show ?thesis
  proof (cases "map_of (dict_update [] (by_value (loaded ''ip'' fs))) (ip_text a)")
    case (Some ind)
    then have "match_ip (compiled fs empty_set) v = Inr (Some ind)" by (simp add: match_ip_def Inr Let_def compiled_def empty_set_def)
    then show ?thesis using table_hit [OF Some] by (simp add: look_exact_def covers)
  next
    case None
    have m: "match_ip (compiled fs empty_set) v = Inr (map_option snd (best_of a ?entries))"
    proof (cases "loaded ''cidr'' fs")
      case Nil
      then show ?thesis using None by (simp add: match_ip_def Inr Let_def compiled_def empty_set_def best_of_def)
    next
      case (Cons i rest)
      then have "ts_cidr_count (compiled fs empty_set) \<noteq> 0" by (simp add: compiled_def)
      then show ?thesis using None cidr by (simp add: match_ip_def Inr Let_def) (simp add: compiled_def empty_set_def)
    qed
    show ?thesis
    proof (cases "best_of a ?entries")
      case best: None
      then have "\<forall>i \<in> set (loaded ''cidr'' fs). \<not> in_network a (network_in i)" by (auto simp: best_of_None)
      then show ?thesis using m best None table_miss by (auto simp: look_exact_def covers loaded_types)
    next
      case (Some pi)
      obtain p i where pi: "pi = (p, i)" by (cases pi)
      then have "i \<in> set (loaded ''cidr'' fs)" "in_network a (network_in i)" using best_of_Some [of a ?entries p i] Some by auto
      then show ?thesis using m Some pi by (simp add: look_exact_def covers loaded_types)
    qed
  qed
qed

lemma search_exact:
  assumes "\<And>v. look_exact fs covers v (look v)"
  shows "case search_observables look obs of
      Inl x \<Rightarrow> False
    | Inr None \<Rightarrow> \<forall>(field, v) \<in> set obs. \<forall>ind \<in> set (loaded_files fs). \<not> covers ind v
    | Inr (Some (ind, field)) \<Rightarrow> ind \<in> set (loaded_files fs) \<and> (\<exists>v. (field, v) \<in> set obs \<and> covers ind v)"
proof (induction obs)
  case (Cons o' obs)
  obtain field v where o': "o' = (field, v)" by (cases o')
  show ?case
  proof (cases "look v")
    case (Inl x)
    then show ?thesis using assms [of v] by (simp add: look_exact_def)
  next
    case (Inr h)
    then show ?thesis using assms [of v] Cons.IH by (cases h) (auto simp: o' look_exact_def split: sum.splits option.splits)
  qed
qed simp

text \<open>The places of a record an indicator can match at, and the pairs of a loaded indicator and such a place.\<close>

definition observed :: "pydict \<Rightarrow> indicator \<Rightarrow> string \<Rightarrow> bool" where
  "observed rec ind field \<longleftrightarrow>
     (\<exists>v. (field, v) \<in> set (iter_ips rec) \<and> covers_ip ind v) \<or> (\<exists>v. (field, v) \<in> set (iter_hosts [] (PDict rec)) \<and> covers_host ind v)
     \<or> (\<exists>v. (field, v) \<in> set (iter_hashes [] (PDict rec)) \<and> covers_hash ind v)"

lemma match_record_exact:
  assumes "list_all file_ok fs"
  shows "case match_record (compiled fs empty_set) rec of
      Inl x \<Rightarrow> False
    | Inr None \<Rightarrow> \<forall>ind \<in> set (loaded_files fs). \<forall>field. \<not> observed rec ind field
    | Inr (Some (ind, field)) \<Rightarrow> ind \<in> set (loaded_files fs) \<and> observed rec ind field"
proof -
  note ips = search_exact [of fs covers_ip "match_ip (compiled fs empty_set)" "iter_ips rec", OF match_ip_exact [OF assms]]
  note hosts = search_exact [of fs covers_host "\<lambda>h. Inr (match_domain (compiled fs empty_set) h)" "iter_hosts [] (PDict rec)", OF match_domain_exact]
  note hashes = search_exact [of fs covers_hash "\<lambda>d. Inr (match_hash (compiled fs empty_set) d)" "iter_hashes [] (PDict rec)", OF match_hash_exact]
  show ?thesis
    unfolding match_record_def or_search_def observed_def
    using ips hosts hashes by (auto simp: bind_res_def split: sum.splits option.splits)
qed

section \<open>Properties\<close>

text \<open>
  C18. Whatever files are loaded, created, changed, renamed and deleted, the store never fails and its live set is the one compiled from the files
  it holds; matching a record never fails either, a hit is an indicator of these files that covers a value observed at the reported place, and
  no hit means that no indicator of them covers any observed address, host name or digest.
\<close>

theorem threat_store_exact:
  "case ioc_run as new_ioc_store of
     Inl x \<Rightarrow> False
   | Inr st \<Rightarrow>
       indicator_set_of (map snd (st_files st)) = Inr (st_set st)
       \<and> (case match_record (st_set st) rec of
            Inl x \<Rightarrow> False
          | Inr None \<Rightarrow> list_all (\<lambda>ind. \<not> (\<exists>field. observed rec ind field)) (loaded_files (map snd (st_files st)))
          | Inr (Some (ind, field)) \<Rightarrow> ind \<in> set (loaded_files (map snd (st_files st))) \<and> observed rec ind field)"
proof -
  obtain st where st: "ioc_run as new_ioc_store = Inr st" "store_ok st" using ioc_run_ok [OF store_ok_new] by blast
  then have ok: "list_all file_ok (map snd (st_files st))" and live: "indicator_set_of (map snd (st_files st)) = Inr (st_set st)"
    by (auto simp: store_ok_def)
  have "st_set st = compiled (map snd (st_files st)) empty_set" using live indicator_set_of_files [OF ok] by simp
  then show ?thesis
    using match_record_exact [OF ok, of rec] st(1) live by (auto simp: list_all_iff split: sum.splits option.splits)
qed

text \<open>
  A domain indicator matches a host name and everything below it, never a part of a label, and never a name of one label unless the host is that
  name; of several the longest wins.
\<close>

theorem domain_match_is_longest_parent:
  assumes "list_all file_ok fs" and "indicator_set_of fs = Inr s" and "match_domain s host = Some ind"
  shows "\<exists>i < max (length (host_labels host) - 1) 1. in_value ind = join_with ''.'' (drop i (host_labels host))
     \<and> (\<forall>j < i. \<forall>other \<in> set (loaded_files fs). in_type other = ''domain'' \<longrightarrow> in_value other \<noteq> join_with ''.'' (drop j (host_labels host)))"
proof -
  let ?table = "dict_update [] (by_value (loaded ''domain'' fs))"
  have first: "first_hit table ks = Some ind \<Longrightarrow> \<exists>i < length ks. map_of table (ks ! i) = Some ind \<and> (\<forall>j < i. map_of table (ks ! j) = None)" for table ks
  proof (induction ks)
    case (Cons k ks)
    show ?case
    proof (cases "map_of table k")
      case None
      then obtain i where i: "i < length ks" "map_of table (ks ! i) = Some ind" "\<forall>j < i. map_of table (ks ! j) = None" using Cons by auto
      have "map_of table ((k # ks) ! j) = None" if "j < Suc i" for j using that i(3) None by (cases j) auto
      then show ?thesis using i(1,2) by (intro exI [of _ "Suc i"]) auto
    next
      case (Some x)
      then show ?thesis using Cons.prems by (intro exI [of _ 0]) simp
    qed
  qed simp
  have "s = compiled fs empty_set" using assms(2) indicator_set_of_files [OF assms(1)] by simp
  then have "first_hit ?table (parent_names (host_labels host)) = Some ind" using assms(3) match_domain_first by simp
  from first [OF this] obtain i where i: "i < max (length (host_labels host) - 1) 1"
    "map_of ?table (join_with ''.'' (drop i (host_labels host))) = Some ind"
    "\<forall>j < i. map_of ?table (join_with ''.'' (drop j (host_labels host))) = None"
    by (auto simp: parent_names_def)
  then show ?thesis using table_hit table_miss by meson
qed

text \<open>A file renamed to another suffix stays loaded, and so does the old name of one renamed within the directory.\<close>

lemma renamed_away_stays: "\<not> json_suffix dest \<Longrightarrow> ioc_event read False (Moved src dest) st = Inr st"
  by (simp add: ioc_changed_def)

lemma renamed_file_stays:
  assumes "src \<noteq> dest" and "ioc_event read False (Moved src dest) st = Inr st'"
  shows "map_of (st_files st') src = map_of (st_files st) src"
  using assms by (auto simp: ioc_changed_def on_file_changed_def rebuild_def bind_res_Inr_iff split: if_splits option.splits)

text \<open>A file found broken when the directory is loaded again loses its indicators.\<close>

lemma load_all_drops_broken_ioc:
  assumes "read path = None" and "ioc_load_all read [path] st = Inr st'"
  shows "st_files st' = []"
  using assms by (auto simp: ioc_load_all_def read_file_into_def read_and_validate_def rebuild_def bind_res_Inr_iff)

end
