(* ===== verification/Enricher_Chain.thy ===== *)
theory Enricher_Chain
  imports Geoip Threat_Intel
begin

text \<open>
  The chain of enrichers that the settings ask for (\<^verbatim>\<open>ulpf/enrich/factory.py\<close>), and the contract between the pipeline and
  an enricher (\<^verbatim>\<open>ulpf/enrich/base.py\<close>) as a locale: an answer has no entry but the enricher's own. Its
  interpretations are the four enrichers of the program.
\<close>

section \<open>The chain from the settings\<close>

definition threat_enricher :: "indicator_set \<Rightarrow> enricher" where
  "threat_enricher s = (''threat_intel'', \<lambda>rec. case enrich_threat_intel s rec of Inl x \<Rightarrow> Raises x | Inr d \<Rightarrow> Returns (PDict d))"

definition enricher_order :: "string list" where
  "enricher_order = [''network_context'', ''geoip'', ''threat_intel'', ''attack_tagger'']"

definition build_enrichers :: "bool \<Rightarrow> string list \<Rightarrow> zone_map \<Rightarrow> geoip \<Rightarrow> indicator_set \<Rightarrow> attack_map \<Rightarrow> enricher list" where
  "build_enrichers enabled toggles zones g s m =
     (if \<not> enabled then []
      else filter (\<lambda>e. fst e \<in> set toggles) [network_enricher zones, geoip_enricher g, threat_enricher s, attack_enricher m])"

text \<open>The status rows of the health endpoint; \<open>status\<close> is what the loaded enrichers of each name report.\<close>

definition describe_enrichers :: "bool \<Rightarrow> string list \<Rightarrow> (string \<Rightarrow> (bool \<times> string) option) \<Rightarrow> pydict list" where
  "describe_enrichers enabled toggles status =
     map (\<lambda>n. let (ready, detail) = (case status n of None \<Rightarrow> (False, ''not loaded'') | Some d \<Rightarrow> d)
              in [(''name'', PStr n), (''enabled'', PBool (enabled \<and> n \<in> set toggles)), (''ready'', PBool ready), (''detail'', PStr detail)])
       enricher_order"

section \<open>The contract of an enricher\<close>

text \<open>What an enricher that is toggled on adds: its answer, or nothing when it raised.\<close>

definition answer :: "bool \<Rightarrow> pydict res \<Rightarrow> pydict" where
  "answer toggled r = (if toggled then case r of Inl x \<Rightarrow> [] | Inr d \<Rightarrow> d else [])"

locale enricher_contract =
  fixes own :: string
    and enrich :: "pydict \<Rightarrow> pydict res"
  assumes own_entry: "enrich rec = Inr d \<Longrightarrow> d = [] \<or> (\<exists>v. d = [(own, v)])"
begin

lemma own_key: assumes "k \<noteq> own" "enrich rec = Inr d" shows "k \<notin> fst ` set d"
  using own_entry [OF assms(2)] assms(1) by (elim disjE exE) (simp_all only: list.set image_empty empty_iff image_insert insert_iff simp_thms fst_conv)

lemma not_own: "k \<noteq> own \<Longrightarrow> k \<notin> fst ` set (answer toggled (enrich rec))"
  by (cases toggled; cases "enrich rec") (simp_all add: answer_def own_key)

lemma answer_appends: "own \<notin> fst ` set d \<Longrightarrow> dict_update d (answer toggled (enrich rec)) = d @ answer toggled (enrich rec)"
proof (cases "enrich rec")
  case (Inr a)
  assume "own \<notin> fst ` set d"
  with own_entry [OF Inr] Inr show ?thesis by (auto simp: answer_def dict_update_def dict_set_fresh)
qed (simp add: answer_def dict_update_def)

lemma contribution_answer:
  "contribution rec (name, \<lambda>r. case enrich r of Inl x \<Rightarrow> Raises x | Inr d \<Rightarrow> Returns (PDict d)) = answer True (enrich rec)"
  by (simp add: contribution_def answer_def split: sum.split)

lemma in_time: "\<not> overruns rec (name, \<lambda>r. case enrich r of Inl x \<Rightarrow> Raises x | Inr d \<Rightarrow> Returns (PDict d))"
  by (simp add: overruns_def split: sum.split)

end

interpretation netctx: enricher_contract "''network_context''" "enrich_network zones" for zones
  by unfold_locales (auto simp: enrich_network_def bind_res_Inr_iff Let_def split: if_splits)

interpretation geo: enricher_contract "''geoip''" "\<lambda>rec. fst (enrich_geoip rec g)" for g
  by unfold_locales (auto simp: enrich_geoip_def split: if_splits sum.splits prod.splits)

interpretation ti: enricher_contract "''threat_intel''" "enrich_threat_intel s" for s
  by unfold_locales (auto simp: enrich_threat_intel_def bind_res_Inr_iff split: option.splits)

interpretation attack: enricher_contract "''attack''" "attack_tag m" for m
proof
  fix rec d
  assume "attack_tag m rec = Inr d"
  then show "d = [] \<or> (\<exists>v. d = [(''attack'', v)])"
    by (cases "build_view rec"; cases "tag_loop (projr (build_view rec)) (am_rules m)")
      (auto simp: attack_tag_def tag_payload_def Let_def split: if_splits)
qed

section \<open>The blocks of the enrichers stand side by side\<close>


end
