(* ===== verification/Lake_Query.thy ===== *)
theory Lake_Query
  imports Py_Value "HOL-Library.List_Lexorder" "HOL-Library.Char_ord"
begin

text \<open>
  Querying the lake (\<^verbatim>\<open>ulpf/sinks/duckdb_query.py\<close>): the guard that only lets read-only statements through, the queries
  built on it, and the statements that create the views. The connection is an argument: what executing a statement with
  its parameters returns (the names of the columns and the rows) or raises.
\<close>

section \<open>Tables\<close>

definition max_limit :: int where
  "max_limit = 10000"

definition event_columns :: "(string \<times> string) list" where
  "event_columns =
     [(''event_uid'', ''VARCHAR''), (''raw_hash'', ''VARCHAR''), (''time'', ''BIGINT''), (''class_uid'', ''BIGINT''),
      (''category_uid'', ''BIGINT''), (''activity_id'', ''BIGINT''), (''type_uid'', ''BIGINT''), (''severity_id'', ''BIGINT''),
      (''source_type'', ''VARCHAR''), (''src_ip'', ''VARCHAR''), (''src_port'', ''BIGINT''), (''dst_ip'', ''VARCHAR''),
      (''dst_port'', ''BIGINT''), (''protocol'', ''VARCHAR''), (''action_id'', ''BIGINT''), (''bytes_in'', ''BIGINT''),
      (''bytes_out'', ''BIGINT''), (''unmapped_json'', ''VARCHAR''), (''enrichments_json'', ''VARCHAR''), (''date'', ''VARCHAR'')]"

definition dlq_columns :: "(string \<times> string) list" where
  "dlq_columns =
     [(''event_uid'', ''VARCHAR''), (''raw_hash'', ''VARCHAR''), (''reason'', ''VARCHAR''), (''stage'', ''VARCHAR''),
      (''ts_ns'', ''BIGINT''), (''detail'', ''JSON'')]"

definition interval_fn :: "(string \<times> string) list" where
  "interval_fn =
     [(''second'', ''to_seconds''), (''minute'', ''to_minutes''), (''hour'', ''to_hours''), (''day'', ''to_days''),
      (''week'', ''to_weeks'')]"

definition allowed_start :: "string list" where
  "allowed_start = [''SELECT'', ''WITH'']"

definition forbidden_keywords :: "string list" where
  "forbidden_keywords =
     [''INSERT'', ''UPDATE'', ''DELETE'', ''MERGE'', ''UPSERT'', ''DROP'', ''CREATE'', ''ALTER'', ''TRUNCATE'', ''REPLACE'',
      ''ATTACH'', ''DETACH'', ''COPY'', ''EXPORT'', ''IMPORT'', ''INSTALL'', ''LOAD'', ''PRAGMA'', ''SET'', ''RESET'', ''CALL'',
      ''GRANT'', ''REVOKE'', ''VACUUM'', ''CHECKPOINT'', ''USE'']"

section \<open>The guard\<close>

text \<open>\<^verbatim>\<open>re.sub(r"--[^\n]*", " ", sql)\<close>\<close>

function strip_line_comments :: "string \<Rightarrow> string" where
  "strip_line_comments [] = []"
| "strip_line_comments (c # cs) =
     (if starts_with ''--'' (c # cs) then CHR '' '' # strip_line_comments (dropWhile (\<lambda>x. code x \<noteq> 10) cs)
      else c # strip_line_comments cs)"
  by pat_completeness auto
termination by (relation "measure length") (auto simp: length_dropWhile_le le_imp_less_Suc)

text \<open>\<^verbatim>\<open>re.sub(r"/\*.*?\*/", " ", sql, flags=re.DOTALL)\<close>: an opening without a closing is no comment.\<close>

function strip_block_comments :: "string \<Rightarrow> string" where
  "strip_block_comments [] = []"
| "strip_block_comments (c # cs) =
     (case (if starts_with ''/*'' (c # cs) then find_sub ''*/'' (tl cs) else None) of
        Some (inner, r) \<Rightarrow> CHR '' '' # strip_block_comments r
      | None \<Rightarrow> c # strip_block_comments cs)"
  by pat_completeness auto
termination
proof (relation "measure length", goal_cases)
  case (3 c cs p inner r)
  then have "length r \<le> length (tl cs)" using find_sub_shorter [of "''*/''" "tl cs" inner r] by (auto split: if_splits)
  then show ?case by simp
qed auto

definition strip_comments :: "string \<Rightarrow> string" where
  "strip_comments sql = strip_block_comments (strip_line_comments sql)"

text \<open>
  The end of \<^verbatim>\<open>'(?:[^']|'')*'\<close> after its opening quote: the matcher prefers a doubled quote to be one of the literal's and
  gives the last of them up when no closing quote follows.
\<close>

fun scan_quoted :: "char \<Rightarrow> string \<Rightarrow> string option" where
  "scan_quoted q [] = None"
| "scan_quoted q (c # cs) =
     (if c \<noteq> q then scan_quoted q cs
      else case cs of
             d # ds \<Rightarrow> if d = q then (case scan_quoted q ds of Some r \<Rightarrow> Some r | None \<Rightarrow> Some cs) else Some cs
           | [] \<Rightarrow> Some [])"

lemma scan_quoted_shortens: "scan_quoted q s = Some r \<Longrightarrow> length r < length s"
  by (induction q s arbitrary: r rule: scan_quoted.induct) (fastforce split: if_splits list.splits option.splits)+

function mask_quoted :: "char \<Rightarrow> string \<Rightarrow> string" where
  "mask_quoted q [] = []"
| "mask_quoted q (c # cs) =
     (case (if c = q then scan_quoted q cs else None) of
        Some r \<Rightarrow> q # q # mask_quoted q r
      | None \<Rightarrow> c # mask_quoted q cs)"
  by pat_completeness auto
termination
proof (relation "measure (\<lambda>(q, s). length s)", goal_cases)
  case (3 q c cs r)
  then show ?case using scan_quoted_shortens [of q cs r] by (auto split: if_splits)
qed auto

definition quote :: char where
  "quote = CHR 0x27"

definition double_quote :: char where
  "double_quote = CHR 0x22"

definition mask_literals :: "string \<Rightarrow> string" where
  "mask_literals sql = mask_quoted double_quote (mask_quoted quote sql)"

definition is_word_char :: "char \<Rightarrow> bool" where
  "is_word_char c \<longleftrightarrow> is_alpha c \<or> c = CHR ''_''"

text \<open>\<^verbatim>\<open>str.upper\<close>; the letters of Latin-1 whose capitals lie beyond it become the one character for those.\<close>

definition upper_char :: "char \<Rightarrow> string" where
  "upper_char c =
     (let n = code c
      in if 97 \<le> n \<and> n \<le> 122 \<or> 224 \<le> n \<and> n \<le> 254 \<and> n \<noteq> 247 then [ch (n - 32)]
         else if n = 223 then ''SS'' else if n = 181 \<or> n = 255 then [text_char 256] else [c])"

definition sql_upper :: "string \<Rightarrow> string" where
  "sql_upper s = concat (map upper_char s)"

function sql_words :: "string \<Rightarrow> string list" where
  "sql_words [] = []"
| "sql_words (c # cs) =
     (if is_word_char c then takeWhile is_word_char (c # cs) # sql_words (dropWhile is_word_char cs) else sql_words cs)"
  by pat_completeness auto
termination by (relation "measure length") (auto simp: length_dropWhile_le le_imp_less_Suc)

definition cleaned :: "string \<Rightarrow> string" where
  "cleaned sql = py_strip (rstrip_by (\<lambda>c. c = CHR '';'') (py_strip (mask_literals (strip_comments sql))))"

text \<open>The message of the violation, if there is one.\<close>

definition assert_read_only :: "string \<Rightarrow> string option" where
  "assert_read_only sql =
     (let t = cleaned sql; head = takeWhile is_word_char t
      in if t = [] then Some ''empty query''
         else if CHR '';'' \<in> set t then Some ''multiple statements are not allowed''
         else if head = [] \<or> sql_upper head \<notin> set allowed_start
         then Some (''only read-only SELECT/WITH queries are allowed (got '' @ repr_str (if head = [] then take 16 t else head) @ '')'')
         else (let hits = filter (\<lambda>w. w \<in> set forbidden_keywords) (sql_words (sql_upper t))
               in if hits = [] then None else Some (''forbidden keyword(s): '' @ join_with '', '' (sort (remdups hits)))))"

section \<open>Queries\<close>

type_synonym lake = "(string \<Rightarrow> pyval list \<Rightarrow> (string list \<times> pyval list list) res) option"

datatype query_result = Violation string | Query_Raises exn | Rows "pydict list"

definition zip_row :: "string list \<Rightarrow> pyval list \<Rightarrow> pydict res" where
  "zip_row columns row = (if length columns = length row then Inr (dict_update [] (zip columns row)) else Inl (ValueError ''zip()''))"

definition lake_query :: "lake \<Rightarrow> string \<Rightarrow> pyval list \<Rightarrow> query_result" where
  "lake_query conn sql params =
     (case conn of
        None \<Rightarrow> Query_Raises (RuntimeError ''LakeQuery.connect() has not been called'')
      | Some execute \<Rightarrow>
          (case assert_read_only sql of
             Some w \<Rightarrow> Violation w
           | None \<Rightarrow> (case execute sql params of
                       Inl x \<Rightarrow> Query_Raises x
                     | Inr (columns, rows) \<Rightarrow> (case map_res (zip_row columns) rows of Inl x \<Rightarrow> Query_Raises x | Inr ds \<Rightarrow> Rows ds))))"

definition clamp :: "int \<Rightarrow> int" where
  "clamp limit = max 1 (min limit max_limit)"

definition newest_first :: string where
  "newest_first = '' ORDER BY '' @ [CHR 0x22] @ ''time'' @ [CHR 0x22] @ '' DESC NULLS LAST LIMIT ?''"

definition recent_events :: "lake \<Rightarrow> int \<Rightarrow> query_result" where
  "recent_events conn limit = lake_query conn (''SELECT * FROM events'' @ newest_first) [PInt (clamp limit)]"

definition by_source :: "lake \<Rightarrow> string \<Rightarrow> int \<Rightarrow> query_result" where
  "by_source conn source limit =
     lake_query conn (''SELECT * FROM events WHERE source_type = ?'' @ newest_first) [PStr source, PInt (clamp limit)]"

definition search_clause :: "string \<Rightarrow> pyval \<Rightarrow> (string \<times> pyval) res" where
  "search_clause key v =
     (if key = ''since_ns'' then bind_res (py_int v) (\<lambda>i. Inr (CHR 0x22 # ''time'' @ CHR 0x22 # '' >= ?'', PInt i))
      else if key = ''until_ns'' then bind_res (py_int v) (\<lambda>i. Inr (CHR 0x22 # ''time'' @ CHR 0x22 # '' <= ?'', PInt i))
      else if key \<in> fst ` set event_columns then Inr (CHR 0x22 # key @ CHR 0x22 # '' = ?'', v)
      else Inl (ValueError (''unknown filter column: '' @ repr_str key)))"

definition search_text :: "string list \<Rightarrow> string" where
  "search_text clauses =
     ''SELECT * FROM events WHERE '' @ (if clauses = [] then ''TRUE'' else join_with '' AND '' clauses) @ newest_first"

definition lake_search :: "lake \<Rightarrow> pydict \<Rightarrow> int \<Rightarrow> query_result" where
  "lake_search conn filters limit =
     (case map_res (\<lambda>(k, v). search_clause k v) filters of
        Inl x \<Rightarrow> Query_Raises x
      | Inr cs \<Rightarrow> lake_query conn (search_text (map fst cs)) (map snd cs @ [PInt (clamp limit)]))"

definition stats_by_source :: "lake \<Rightarrow> query_result" where
  "stats_by_source conn =
     lake_query conn
       (''SELECT source_type,'' @ '' COUNT(*) AS events,'' @
        '' MIN('' @ [CHR 0x22] @ ''time'' @ [CHR 0x22] @ '') AS first_time_ns,'' @
        '' MAX('' @ [CHR 0x22] @ ''time'' @ [CHR 0x22] @ '') AS last_time_ns,'' @
        '' COALESCE(SUM(COALESCE(bytes_in, 0) + COALESCE(bytes_out, 0)), 0) AS total_bytes,'' @
        '' COUNT(DISTINCT src_ip) AS distinct_src_ip'' @
        '' FROM events GROUP BY source_type ORDER BY events DESC, source_type'') []"

text \<open>
  \<^verbatim>\<open>^\s*(\d+)\s*(second|minute|hour|day|week)s?\s*$\<close>, ignoring case.
\<close>

fun interval_unit :: "(string \<times> string) list \<Rightarrow> string \<Rightarrow> string option" where
  "interval_unit [] t = None"
| "interval_unit ((unit, f) # rest) t =
     (if starts_with unit t \<and>
         (let r = drop (length unit) t
          in list_all is_space r \<or> starts_with ''s'' r \<and> list_all is_space (tl r))
      then Some f else interval_unit rest t)"

definition interval_parts :: "string \<Rightarrow> (string \<times> int) res" where
  "interval_parts s =
     (let t = dropWhile is_space s; digits = takeWhile is_dec t; r = dropWhile is_space (dropWhile is_dec t)
      in case (if digits = [] then None else interval_unit interval_fn (py_lower r)) of
           None \<Rightarrow> Inl (ValueError (''invalid interval '' @ repr_str s @ ''; expected '' @ [quote] @ ''<n> <second|minute|hour|day|week>'' @ [quote]))
         | Some f \<Rightarrow> Inr (f, int (nat_of_dec digits)))"

definition timeseries_text :: "string \<Rightarrow> string \<Rightarrow> string" where
  "timeseries_text bucket_fn window_fn =
     ''WITH s AS ('' @ ''  SELECT time_bucket('' @ bucket_fn @ ''(?),'' @
     ''         make_timestamp(CAST('' @ [CHR 0x22] @ ''time'' @ [CHR 0x22] @ '' / 1000 AS BIGINT))) AS bucket, source_type'' @
     ''  FROM events WHERE '' @ [CHR 0x22] @ ''time'' @ [CHR 0x22] @ '' IS NOT NULL'' @
     ''), mx AS (SELECT max(bucket) AS newest FROM s) '' @
     ''SELECT strftime(s.bucket, '' @ [CHR 0x27] @ ''%Y-%m-%dT%H:%M:%S'' @ [CHR 0x27] @ '') AS bucket, s.source_type,'' @
     ''       COUNT(*) AS events '' @ ''FROM s, mx '' @
     ''WHERE mx.newest IS NOT NULL AND s.bucket >= mx.newest - '' @ window_fn @ ''(?) '' @
     ''GROUP BY s.bucket, s.source_type ORDER BY s.bucket, s.source_type''"

definition timeseries :: "lake \<Rightarrow> string \<Rightarrow> string \<Rightarrow> query_result" where
  "timeseries conn interval window =
     (case bind_res (interval_parts interval) (\<lambda>b. bind_res (interval_parts window) (\<lambda>w. Inr (b, w))) of
        Inl x \<Rightarrow> Query_Raises x
      | Inr ((bucket_fn, n), (window_fn, m)) \<Rightarrow> lake_query conn (timeseries_text bucket_fn window_fn) [PInt n, PInt m])"

section \<open>Views\<close>

definition sql_str :: "string \<Rightarrow> string" where
  "sql_str v = quote # concat (map (\<lambda>c. if c = quote then [quote, quote] else [c]) v) @ [quote]"

definition parquet_source :: "bool \<Rightarrow> string \<Rightarrow> string option" where
  "parquet_source has_files silver =
     (if \<not> has_files then None
      else Some (''read_parquet('' @ sql_str (silver @ ''/**/*.parquet'') @ '', union_by_name = true, '' @
                 ''hive_partitioning = true, hive_types = {'' @ [quote] @ ''date'' @ [quote] @ '': '' @ [quote] @ ''VARCHAR'' @ [quote] @ ''})''))"

definition ndjson_source :: "bool \<Rightarrow> string \<Rightarrow> string option" where
  "ndjson_source has_files dlq =
     (if \<not> has_files then None
      else Some (''(SELECT event_uid, raw_hash, reason, stage, ts_ns, detail::JSON AS detail '' @
                 ''FROM read_json_auto('' @ sql_str (dlq @ ''/**/*.ndjson'') @ '', format = '' @ [quote] @ ''newline_delimited'' @ [quote] @ '', '' @
                 ''union_by_name = true))''))"

definition empty_view :: "string \<Rightarrow> (string \<times> string) list \<Rightarrow> string" where
  "empty_view name columns =
     ''CREATE OR REPLACE VIEW '' @ name @ '' AS SELECT '' @
     join_with '', '' (map (\<lambda>(col, ty). ''CAST(NULL AS '' @ ty @ '') AS '' @ col) columns) @ '' WHERE 1 = 0''"

text \<open>The statements executed for a view; \<open>readable\<close> says whether the database can read the source.\<close>

definition create_view :: "(string \<Rightarrow> bool) \<Rightarrow> string \<Rightarrow> string option \<Rightarrow> (string \<times> string) list \<Rightarrow> string list" where
  "create_view readable name source empty_columns =
     (case source of
        None \<Rightarrow> [empty_view name empty_columns]
      | Some src \<Rightarrow>
          (let stmt = ''CREATE OR REPLACE VIEW '' @ name @ '' AS SELECT * FROM '' @ src
           in if readable stmt then [stmt] else [stmt, empty_view name empty_columns]))"

definition connect_statements :: "(string \<Rightarrow> bool) \<Rightarrow> bool \<Rightarrow> bool \<Rightarrow> string \<Rightarrow> string \<Rightarrow> string list" where
  "connect_statements readable has_silver has_dlq silver dlq =
     create_view readable ''events'' (parquet_source has_silver silver) event_columns @
     create_view readable ''dead_letters'' (ndjson_source has_dlq dlq) dlq_columns"

section \<open>What the database reads\<close>

text \<open>
  The lexical rule of the database, in one pass from the left: a line comment, a block comment, a literal or a quoted identifier,
  in which a doubled quote is a quote; whichever begins first hides what looks like another inside it. What is left is the
  code, with blanks for comments and empty quotes for literals; a literal or a block comment without an end is an error.
\<close>

fun literal_end :: "char \<Rightarrow> string \<Rightarrow> string option" where
  "literal_end q [] = None"
| "literal_end q (c # cs) =
     (if c \<noteq> q then literal_end q cs
      else case cs of d # ds \<Rightarrow> if d = q then literal_end q ds else Some cs | [] \<Rightarrow> Some [])"

lemma literal_end_suffix: "literal_end q s = Some r \<Longrightarrow> \<exists>a. s = a @ q # r"
proof (induction q s rule: literal_end.induct)
  case (2 q c cs)
  show ?case
  proof (cases "c = q")
    case True
    show ?thesis
    proof (cases cs)
      case (Cons d ds)
      show ?thesis
      proof (cases "d = q")
        case d: True
        then obtain a where "ds = a @ q # r" using 2 True Cons by auto
        then show ?thesis using Cons by (metis append_Cons)
      qed (use 2 True Cons in auto)
    qed (use 2 True in auto)
  next
    case False
    then obtain a where "cs = a @ q # r" using 2 by auto
    then show ?thesis by (metis append_Cons)
  qed
qed simp

lemma literal_end_scan: "literal_end q s = Some r \<Longrightarrow> scan_quoted q s = Some r"
  by (induction q s rule: literal_end.induct) (auto split: if_splits list.splits)

function sql_code :: "string \<Rightarrow> string option" where
  "sql_code [] = Some []"
| "sql_code (c # cs) =
     (if starts_with ''--'' (c # cs) then map_option ((#) CHR '' '') (sql_code (dropWhile (\<lambda>x. code x \<noteq> 10) cs))
      else if starts_with ''/*'' (c # cs)
      then (case find_sub ''*/'' (tl cs) of None \<Rightarrow> None | Some (inner, r) \<Rightarrow> map_option ((#) CHR '' '') (sql_code r))
      else if c = quote \<or> c = double_quote
      then (case literal_end c cs of None \<Rightarrow> None | Some r \<Rightarrow> map_option (\<lambda>t. c # c # t) (sql_code r))
      else map_option ((#) c) (sql_code cs))"
  by pat_completeness auto
termination
proof (relation "measure length", goal_cases)
  case (2 c cs)
  then show ?case by (simp add: length_dropWhile_le le_imp_less_Suc)
next
  case (3 c cs p inner r)
  then have "length r < length (tl cs)" using find_sub_shorter [of "''*/''" "tl cs" inner r] by simp
  then show ?case by simp
next
  case (4 c cs r)
  then obtain a where "cs = a @ c # r" using literal_end_suffix by metis
  then show ?case by simp
qed auto

definition read_only :: "string \<Rightarrow> bool" where
  "read_only t \<longleftrightarrow>
     (let u = py_strip (rstrip_by (\<lambda>c. c = CHR '';'') (py_strip t))
      in u \<noteq> [] \<and> CHR '';'' \<notin> set u \<and> takeWhile is_word_char u \<noteq> [] \<and>
         sql_upper (takeWhile is_word_char u) \<in> {''SELECT'', ''WITH''} \<and>
         set (sql_words (sql_upper u)) \<inter> set forbidden_keywords = {})"

definition no_marks :: "string \<Rightarrow> bool" where
  "no_marks s \<longleftrightarrow> (\<forall>a b. s \<noteq> a @ ''--'' @ b \<and> s \<noteq> a @ ''/*'' @ b)"

lemma no_marks_chars: "CHR ''-'' \<notin> set s \<Longrightarrow> CHR ''/'' \<notin> set s \<Longrightarrow> no_marks s"
  by (auto simp: no_marks_def)

lemma no_marks_suffix: "no_marks (a @ s) \<Longrightarrow> no_marks s"
  unfolding no_marks_def by (metis append.assoc)

lemma no_marks_start: "no_marks s \<Longrightarrow> \<not> starts_with ''--'' s \<and> \<not> starts_with ''/*'' s"
  unfolding no_marks_def starts_with_iff by (metis append_Nil)

lemma no_marks_tail: "no_marks (c # s) \<Longrightarrow> no_marks s"
  using no_marks_suffix [of "[c]" s] by simp

lemma strip_line_plain: "no_marks s \<Longrightarrow> strip_line_comments s = s"
  by (induction s) (auto dest: no_marks_start no_marks_tail)

lemma strip_block_plain: "no_marks s \<Longrightarrow> strip_block_comments s = s"
  by (induction s) (auto dest: no_marks_start no_marks_tail)

lemma mask_absent: "q \<notin> set s \<Longrightarrow> mask_quoted q s = s"
  by (induction s) auto

lemma mask_code:
  assumes "no_marks s" "other \<notin> set s" "{q, other} = {quote, double_quote}" "sql_code s = Some t"
  shows "mask_quoted q s = t \<and> other \<notin> set t"
  using assms
proof (induction s arbitrary: t rule: sql_code.induct)
  case (2 c cs)
  have marks: "\<not> starts_with ''--'' (c # cs)" "\<not> starts_with ''/*'' (c # cs)"
    using no_marks_start [OF "2.prems"(1)] by simp_all
  have qs: "other \<noteq> q" "quote \<noteq> double_quote" "c \<noteq> other" using "2.prems" by (auto simp: quote_def double_quote_def doubleton_eq_iff)
  show ?case
  proof (cases "c = q")
    case True
    then have quoted: "c = quote \<or> c = double_quote" using "2.prems"(3) by (auto simp: doubleton_eq_iff)
    have code: "sql_code (c # cs) = (case literal_end c cs of None \<Rightarrow> None | Some r \<Rightarrow> map_option (\<lambda>t. c # c # t) (sql_code r))"
      by (simp only: sql_code.simps(2) marks if_False quoted if_True)
    obtain r where r: "literal_end c cs = Some r" using "2.prems"(4) code by (cases "literal_end c cs") simp_all
    have "map_option (\<lambda>t. c # c # t) (sql_code r) = Some t" using "2.prems"(4) unfolding code r by simp
    then obtain t' where t': "sql_code r = Some t'" "t = c # c # t'" by auto
    obtain a where a: "cs = a @ c # r" using literal_end_suffix [OF r] by blast
    have "no_marks r" using no_marks_suffix [of "c # a @ [c]" r] "2.prems"(1) a by simp
    moreover have "other \<notin> set r" using "2.prems"(2) a by simp
    ultimately have "mask_quoted q r = t' \<and> other \<notin> set t'"
      using "2.IH"(3) [OF marks quoted r] "2.prems"(3) t' by blast
    then show ?thesis using literal_end_scan [OF r] True qs t' by simp
  next
    case False
    then have plain: "\<not> (c = quote \<or> c = double_quote)" using "2.prems"(3) qs by (auto simp: doubleton_eq_iff)
    have "sql_code (c # cs) = map_option ((#) c) (sql_code cs)"
      by (simp only: sql_code.simps(2) marks if_False plain)
    then obtain t' where t': "sql_code cs = Some t'" "t = c # t'" using "2.prems"(4) by auto
    have "mask_quoted q cs = t' \<and> other \<notin> set t'"
      using "2.IH"(4) [OF marks plain] "2.prems" t' no_marks_tail by auto
    then show ?thesis using False qs t' by simp
  qed
qed simp


definition harmless :: string where
  "harmless = ''SELECT '' @ [quote] @ ''x; DROP'' @ [quote] @ '' FROM t;''"


lemma harmless_accepted: "read_only (''SELECT '' @ [quote, quote] @ '' FROM t;'')"
  by code_simp

text \<open>Both conditions are needed: the guard takes comment marks inside literals for comments, and lets a second statement through.\<close>

definition hidden_drop :: string where
  "hidden_drop = ''SELECT '' @ [quote] @ ''--'' @ [quote] @ ''; DROP TABLE t''"

lemma comment_mark_in_literal_hides:
  "assert_read_only hidden_drop = None"
  "sql_code hidden_drop = Some (''SELECT '' @ [quote, quote] @ ''; DROP TABLE t'')"
  "\<not> read_only (''SELECT '' @ [quote, quote] @ ''; DROP TABLE t'')"
  by code_simp+

text \<open>A quote inside a quoted identifier does the same.\<close>

definition identifier_drop :: string where
  "identifier_drop = ''SELECT 1 AS '' @ [double_quote] @ ''a'' @ [quote, double_quote] @ ''; DROP TABLE t; SELECT 1 AS '' @ [double_quote, quote, double_quote]"

lemma quote_in_identifier_hides:
  "assert_read_only identifier_drop = None"
  "map_option read_only (sql_code identifier_drop) = Some False"
  by code_simp+

section \<open>The built queries pass the guard\<close>

lemma mask_append: "q \<notin> set a \<Longrightarrow> mask_quoted q (a @ s) = a @ mask_quoted q s"
  by (induction a) auto

lemma mask_closed: "q \<notin> set k \<Longrightarrow> s \<noteq> [] \<Longrightarrow> hd s \<noteq> q \<Longrightarrow> mask_quoted q (q # k @ q # s) = q # q # mask_quoted q s"
proof -
  assume a: "q \<notin> set k" "s \<noteq> []" "hd s \<noteq> q"
  have "scan_quoted q (k @ q # s) = Some s"
    using a by (induction k) (auto split: list.splits)
  then show ?thesis by simp
qed

lemma takeWhile_word: "\<not> is_word_char c \<Longrightarrow> takeWhile is_word_char (a @ c # b) = takeWhile is_word_char a
   \<and> dropWhile is_word_char (a @ c # b) = dropWhile is_word_char a @ c # b"
  by (induction a) auto

lemma sql_words_append: "\<not> is_word_char c \<Longrightarrow> sql_words (a @ c # b) = sql_words a @ sql_words b"
proof (induction a rule: sql_words.induct)
  case (2 x xs)
  then show ?case using takeWhile_word [of c xs b] by simp
qed simp

lemma sql_upper_append [simp]: "sql_upper (a @ b) = sql_upper a @ sql_upper b"
  by (simp add: sql_upper_def)

lemma sql_upper_Cons: "sql_upper (c # b) = upper_char c @ sql_upper b"
  by (simp add: sql_upper_def)

text \<open>A clause of \<^verbatim>\<open>search\<close>, and what masking makes of it.\<close>

definition clause_text :: "string \<Rightarrow> string \<Rightarrow> string" where
  "clause_text key op = double_quote # key @ double_quote # op"

definition column_clause :: "string \<Rightarrow> string \<Rightarrow> bool" where
  "column_clause key op \<longleftrightarrow>
     double_quote \<notin> set key \<and> quote \<notin> set key \<and> CHR ''-'' \<notin> set key \<and> CHR ''/'' \<notin> set key \<and>
     op \<in> {'' = ?'', '' >= ?'', '' <= ?''}"

lemma event_column_names:
  "list_all (\<lambda>(k, _). double_quote \<notin> set k \<and> quote \<notin> set k \<and> CHR ''-'' \<notin> set k \<and> CHR ''/'' \<notin> set k) event_columns"
  by code_simp

lemma search_clause_shape:
  assumes "search_clause k v = Inr (t, x)"
  shows "\<exists>key op. t = clause_text key op \<and> column_clause key op"
proof -
  have dq: "CHR 0x22 = double_quote" by (simp add: double_quote_def)
  have ts: "column_clause ''time'' op" if "op \<in> {'' = ?'', '' >= ?'', '' <= ?''}" for op
    using that by (auto simp: column_clause_def double_quote_def quote_def)
  consider "t = clause_text ''time'' '' >= ?''" | "t = clause_text ''time'' '' <= ?''" | "k \<in> fst ` set event_columns" "t = clause_text k '' = ?''"
    using assms by (auto simp: search_clause_def clause_text_def dq bind_res_Inr_iff split: if_splits)
  then show ?thesis
  proof cases
    case 3
    then have "column_clause k '' = ?''"
      using event_column_names by (auto simp: column_clause_def list_all_iff)
    with 3 show ?thesis by blast
  qed (use ts in blast)+
qed

definition well_formed :: "string list \<Rightarrow> bool" where
  "well_formed clauses \<longleftrightarrow> (\<forall>t \<in> set clauses. \<exists>key op. t = clause_text key op \<and> column_clause key op)"

lemma search_clauses_well_formed:
  "map_res (\<lambda>(k, v). search_clause k v) filters = Inr cs \<Longrightarrow> well_formed (map fst cs)"
proof (induction filters arbitrary: cs)
  case (Cons f fs)
  obtain k v where f: "f = (k, v)" by (cases f)
  obtain t x cs' where cs: "cs = (t, x) # cs'" "search_clause k v = Inr (t, x)" "map_res (\<lambda>(k, v). search_clause k v) fs = Inr cs'"
    using Cons.prems f by (auto simp: bind_res_Inr_iff)
  then show ?case using Cons.IH [OF cs(3)] search_clause_shape [OF cs(2)] by (auto simp: well_formed_def)
qed (simp add: well_formed_def)

definition tail_text :: string where
  "tail_text = '' ORDER BY '' @ [double_quote, double_quote] @ '' DESC NULLS LAST LIMIT ?''"

lemma masked_tail: "mask_quoted double_quote newest_first = tail_text"
  by code_simp

text \<open>Masking a conjunction of clauses leaves their operators.\<close>

definition operators :: "string list" where
  "operators = ['' = ?'', '' >= ?'', '' <= ?'']"

definition masked :: "string \<Rightarrow> string" where
  "masked op = double_quote # double_quote # op"

lemma mask_clause:
  assumes "column_clause key op" "s \<noteq> []"
  shows "mask_quoted double_quote (clause_text key op @ s) = masked op @ mask_quoted double_quote s" "op \<in> set operators"
proof -
  have op: "op \<in> set operators" "op \<noteq> []" "hd op \<noteq> double_quote" "double_quote \<notin> set op"
    using assms(1) by (auto simp: column_clause_def operators_def double_quote_def)
  then show "op \<in> set operators" by simp
  have "mask_quoted double_quote (double_quote # key @ double_quote # (op @ s)) = double_quote # double_quote # mask_quoted double_quote (op @ s)"
    using assms(1) op by (intro mask_closed) (auto simp: column_clause_def)
  then show "mask_quoted double_quote (clause_text key op @ s) = masked op @ mask_quoted double_quote s"
    using mask_append [OF op(4), of s] by (simp add: clause_text_def masked_def)
qed

lemma mask_clauses:
  "well_formed clauses \<Longrightarrow> clauses \<noteq> [] \<Longrightarrow>
   \<exists>ops. mask_quoted double_quote (join_with '' AND '' clauses @ newest_first) = join_with '' AND '' (map masked ops) @ tail_text
     \<and> set ops \<subseteq> set operators \<and> ops \<noteq> []"
proof (induction clauses)
  case (Cons t ts)
  obtain key op where t: "t = clause_text key op" "column_clause key op" using Cons.prems(1) by (auto simp: well_formed_def)
  show ?case
  proof (cases "ts = []")
    case True
    have "mask_quoted double_quote (t @ newest_first) = masked op @ tail_text"
      using mask_clause(1) [OF t(2), of newest_first] t(1) masked_tail by (simp add: newest_first_def)
    then show ?thesis
      using mask_clause(2) [OF t(2), of newest_first] True by (intro exI [of _ "[op]"]) (simp add: newest_first_def)
  next
    case False
    have "well_formed ts" using Cons.prems(1) by (simp add: well_formed_def)
    from Cons.IH [OF this False] obtain ops where ops:
      "mask_quoted double_quote (join_with '' AND '' ts @ newest_first) = join_with '' AND '' (map masked ops) @ tail_text"
      "set ops \<subseteq> set operators" "ops \<noteq> []" by blast
    have "join_with '' AND '' (t # ts) @ newest_first = clause_text key op @ '' AND '' @ join_with '' AND '' ts @ newest_first"
      using False t(1) by (cases ts) simp_all
    moreover have "mask_quoted double_quote ('' AND '' @ join_with '' AND '' ts @ newest_first)
        = '' AND '' @ join_with '' AND '' (map masked ops) @ tail_text"
      using mask_append [of double_quote "'' AND ''"] ops(1) by (simp add: double_quote_def)
    ultimately have "mask_quoted double_quote (join_with '' AND '' (t # ts) @ newest_first)
        = masked op @ '' AND '' @ join_with '' AND '' (map masked ops) @ tail_text"
      using mask_clause(1) [OF t(2), of "'' AND '' @ join_with '' AND '' ts @ newest_first"] by simp
    also have "\<dots> = join_with '' AND '' (map masked (op # ops)) @ tail_text"
      using ops(3) by (cases ops) simp_all
    finally show ?thesis
      using ops(2) mask_clause(2) [OF t(2), of "'' ''"] by (intro exI [of _ "op # ops"]) simp
  qed
qed simp

lemma clause_chars:
  assumes "well_formed clauses" "c \<in> set (join_with '' AND '' clauses)" "c = quote \<or> c = CHR ''-'' \<or> c = CHR ''/''"
  shows False
  using assms
proof (induction clauses)
  case (Cons t ts)
  obtain key op where t: "t = clause_text key op" "column_clause key op" using Cons.prems(1) by (auto simp: well_formed_def)
  have "c \<notin> set t" using t Cons.prems(3) by (auto simp: clause_text_def column_clause_def quote_def double_quote_def)
  moreover have "c \<notin> set '' AND ''" using Cons.prems(3) by (auto simp: quote_def)
  ultimately have "c \<in> set (join_with '' AND '' ts)" using Cons.prems(2) by (cases ts) auto
  then show ?case using Cons.IH Cons.prems by (simp add: well_formed_def)
qed simp

lemma operator_facts:
  assumes "op \<in> set operators"
  shows "sql_words (sql_upper (masked op)) = []" "CHR '';'' \<notin> set (masked op)" "\<exists>r. sql_upper (masked op) = double_quote # r"
proof -
  have *: "list_all (\<lambda>op. sql_words (sql_upper (masked op)) = [] \<and> CHR '';'' \<notin> set (masked op)
      \<and> take 1 (sql_upper (masked op)) = [double_quote]) operators" by code_simp
  then show "sql_words (sql_upper (masked op)) = []" "CHR '';'' \<notin> set (masked op)"
    using assms by (simp_all add: list_all_iff)
  from * assms have "take 1 (sql_upper (masked op)) = [double_quote]" by (simp add: list_all_iff)
  then show "\<exists>r. sql_upper (masked op) = double_quote # r" by (cases "sql_upper (masked op)") simp_all
qed

lemma masked_words:
  "set ops \<subseteq> set operators \<Longrightarrow> ops \<noteq> [] \<Longrightarrow>
   set (sql_words (sql_upper (join_with '' AND '' (map masked ops)))) \<subseteq> {''AND''} \<and>
   CHR '';'' \<notin> set (join_with '' AND '' (map masked ops)) \<and>
   (\<exists>r. sql_upper (join_with '' AND '' (map masked ops)) = double_quote # r)"
proof (induction ops)
  case (Cons op ops)
  note op = operator_facts [of op]
  have dq: "\<not> is_word_char double_quote" "\<not> is_word_char CHR '' ''" by code_simp+
  show ?case
  proof (cases "ops = []")
    case True
    then show ?thesis using op Cons.prems by simp
  next
    case False
    have sub: "set ops \<subseteq> set operators" using Cons.prems by simp
    from Cons.IH [OF sub False] obtain r where rest:
      "set (sql_words (sql_upper (join_with '' AND '' (map masked ops)))) \<subseteq> {''AND''}"
      "CHR '';'' \<notin> set (join_with '' AND '' (map masked ops))"
      "sql_upper (join_with '' AND '' (map masked ops)) = double_quote # r" by blast
    have split: "join_with '' AND '' (map masked (op # ops)) = masked op @ '' AND '' @ join_with '' AND '' (map masked ops)"
      using False by (cases ops) simp_all
    have up: "sql_upper '' AND '' = '' AND ''" by code_simp
    have upper: "sql_upper (masked op @ '' AND '' @ join_with '' AND '' (map masked ops))
        = sql_upper (masked op) @ CHR '' '' # (''AND'' @ CHR '' '' # sql_upper (join_with '' AND '' (map masked ops)))"
      using up by (simp only: sql_upper_append) simp
    have "sql_words (sql_upper (masked op @ '' AND '' @ join_with '' AND '' (map masked ops)))
        = sql_words (sql_upper (masked op)) @ sql_words ''AND'' @ sql_words (sql_upper (join_with '' AND '' (map masked ops)))"
      by (simp only: upper sql_words_append [OF dq(2)])
    moreover have "sql_words ''AND'' = [''AND'']" by code_simp
    ultimately have words: "set (sql_words (sql_upper (masked op @ '' AND '' @ join_with '' AND '' (map masked ops)))) \<subseteq> {''AND''}"
      using rest(1) op(1) Cons.prems(1) by simp
    have semi: "CHR '';'' \<notin> set (masked op @ '' AND '' @ join_with '' AND '' (map masked ops))"
      using rest(2) op(2) Cons.prems(1) by simp
    obtain r1 where "sql_upper (masked op) = double_quote # r1" using op(3) Cons.prems(1) by auto
    then have "\<exists>r. sql_upper (masked op @ '' AND '' @ join_with '' AND '' (map masked ops)) = double_quote # r"
      by (simp only: sql_upper_append) simp
    with words semi show ?thesis unfolding split by blast
  qed
qed simp

lemma strip_ends:
  assumes "a \<noteq> []" "\<not> is_space (hd a)" "z \<noteq> []" "\<not> is_space (last z)" "last z \<noteq> CHR '';''"
  shows "py_strip (rstrip_by (\<lambda>c. c = CHR '';'') (py_strip (a @ m @ z))) = a @ m @ z"
proof -
  obtain x a' where a: "a = x # a'" using assms(1) by (cases a) auto
  obtain z' y where z: "z = z' @ [y]" using assms(3) by (cases z rule: rev_cases) auto
  have "py_strip (x # w @ [y]) = x # w @ [y]" for w
    using assms a z by (simp add: py_strip_def lstrip_by_def rstrip_by_def)
  moreover have "rstrip_by (\<lambda>c. c = CHR '';'') (x # w @ [y]) = x # w @ [y]" for w
    using assms z by (simp add: rstrip_by_def)
  ultimately show ?thesis using a z by (metis append_Cons append_assoc)
qed

definition head_text :: string where
  "head_text = ''SELECT * FROM events WHERE ''"

lemma accepted_text:
  assumes "cleaned sql = head_text @ m @ tail_text" "CHR '';'' \<notin> set m"
    and "set (sql_words (sql_upper m)) \<subseteq> {''AND'', ''TRUE''}"
  shows "assert_read_only sql = None"
proof -
  have sp: "\<not> is_word_char CHR '' ''" by code_simp
  have up: "sql_upper head_text = ''SELECT * FROM EVENTS WHERE'' @ [CHR '' '']" "sql_upper tail_text = CHR '' '' # drop 1 tail_text"
    by code_simp+
  have "sql_words (sql_upper (head_text @ m @ tail_text))
      = sql_words ''SELECT * FROM EVENTS WHERE'' @ sql_words (sql_upper m) @ sql_words (drop 1 tail_text)"
  proof -
    have "sql_upper (head_text @ m @ tail_text) = ''SELECT * FROM EVENTS WHERE'' @ CHR '' '' # (sql_upper m @ CHR '' '' # drop 1 tail_text)"
      by (simp only: sql_upper_append up) simp
    then show ?thesis by (simp only: sql_words_append [OF sp])
  qed
  moreover have "filter (\<lambda>w. w \<in> set forbidden_keywords) (sql_words ''SELECT * FROM EVENTS WHERE'') = []"
    "filter (\<lambda>w. w \<in> set forbidden_keywords) (sql_words (drop 1 tail_text)) = []"
    by code_simp+
  moreover have "filter (\<lambda>w. w \<in> set forbidden_keywords) (sql_words (sql_upper m)) = []"
  proof -
    have "''AND'' \<notin> set forbidden_keywords" "''TRUE'' \<notin> set forbidden_keywords" by code_simp+
    then show ?thesis using assms(3) unfolding filter_empty_conv by blast
  qed
  ultimately have words: "filter (\<lambda>w. w \<in> set forbidden_keywords) (sql_words (sql_upper (head_text @ m @ tail_text))) = []"
    by (simp only: filter_append append_Nil)
  have select: "head_text = ''SELECT'' @ CHR '' '' # ''* FROM events WHERE ''" "takeWhile is_word_char ''SELECT'' = ''SELECT''"
    by (simp add: head_text_def) code_simp
  have head: "takeWhile is_word_char (head_text @ x) = ''SELECT''" for x
    unfolding select(1) append_assoc append_Cons [of "CHR '' ''"] using takeWhile_word [OF sp, of "''SELECT''"] select(2) by (metis (no_types))
  have start: "sql_upper ''SELECT'' \<in> set allowed_start" by code_simp
  have semi: "CHR '';'' \<notin> set (head_text @ m @ tail_text)"
  proof -
    have "CHR '';'' \<notin> set head_text" "CHR '';'' \<notin> set tail_text" by code_simp+
    then show ?thesis using assms(2) by simp
  qed
  have some: "head_text @ m @ tail_text \<noteq> []" by (simp add: head_text_def)
  show ?thesis
    unfolding assert_read_only_def Let_def assms(1) head words
    using start semi some by (simp only: if_True if_False list.distinct simp_thms)
qed

lemma fixed_parts:
  "list_all (\<lambda>c. c \<notin> set head_text \<and> c \<notin> set newest_first \<and> c \<notin> set ''TRUE'') [quote, CHR ''-'', CHR ''/'']"
  "double_quote \<notin> set head_text" "double_quote \<notin> set ''TRUE''"
  "\<not> is_space (hd head_text)" "\<not> is_space (last tail_text)" "last tail_text \<noteq> CHR '';''"
  by code_simp+

lemma search_text_accepted:
  assumes "well_formed clauses"
  shows "assert_read_only (search_text clauses) = None"
proof -
  let ?m = "if clauses = [] then ''TRUE'' else join_with '' AND '' clauses"
  have spelt: "search_text clauses = head_text @ ?m @ newest_first"
    by (simp add: search_text_def head_text_def)
  have "c \<notin> set (search_text clauses)" if "c \<in> set [quote, CHR ''-'', CHR ''/'']" for c
  proof -
    have "c \<notin> set head_text \<and> c \<notin> set newest_first \<and> c \<notin> set ''TRUE''"
      using fixed_parts(1) that unfolding list_all_iff by blast
    moreover have "c \<notin> set (join_with '' AND '' clauses)"
      using clause_chars [OF assms, of c] that by auto
    ultimately show ?thesis unfolding spelt by (simp only: set_append Un_iff split: if_split) blast
  qed
  then have "no_marks (search_text clauses)" "quote \<notin> set (search_text clauses)"
    by (simp_all add: no_marks_chars)
  then have clean: "mask_literals (strip_comments (search_text clauses)) = mask_quoted double_quote (search_text clauses)"
    by (simp add: mask_literals_def strip_comments_def strip_line_plain strip_block_plain mask_absent)
  have ends: "py_strip (rstrip_by (\<lambda>c. c = CHR '';'') (py_strip (head_text @ m @ tail_text))) = head_text @ m @ tail_text" for m
    by (rule strip_ends [OF _ fixed_parts(4) _ fixed_parts(5,6)]) (simp_all add: head_text_def tail_text_def)
  show ?thesis
  proof (cases "clauses = []")
    case True
    have m: "mask_quoted double_quote (head_text @ ''TRUE'' @ newest_first) = head_text @ ''TRUE'' @ tail_text"
      by (simp only: mask_append [OF fixed_parts(2)] mask_append [OF fixed_parts(3)] masked_tail)
    have "cleaned (search_text clauses) = head_text @ ''TRUE'' @ tail_text"
    proof -
      have whole: "search_text clauses = head_text @ ''TRUE'' @ newest_first" using spelt True by simp
      show ?thesis unfolding cleaned_def clean unfolding whole m by (rule ends)
    qed
    then show ?thesis
    proof (rule accepted_text)
      show "CHR '';'' \<notin> set ''TRUE''" by code_simp
      show "set (sql_words (sql_upper ''TRUE'')) \<subseteq> {''AND'', ''TRUE''}" by code_simp
    qed
  next
    case False
    from mask_clauses [OF assms False] obtain ops where ops:
      "mask_quoted double_quote (join_with '' AND '' clauses @ newest_first) = join_with '' AND '' (map masked ops) @ tail_text"
      "set ops \<subseteq> set operators" "ops \<noteq> []" by blast
    have "cleaned (search_text clauses) = head_text @ join_with '' AND '' (map masked ops) @ tail_text"
    proof -
      have whole: "search_text clauses = head_text @ join_with '' AND '' clauses @ newest_first" using spelt False by simp
      show ?thesis unfolding cleaned_def clean unfolding whole mask_append [OF fixed_parts(2)] ops(1) by (rule ends)
    qed
    then show ?thesis
    proof (rule accepted_text)
      show "CHR '';'' \<notin> set (join_with '' AND '' (map masked ops))" using masked_words [OF ops(2,3)] by blast
      show "set (sql_words (sql_upper (join_with '' AND '' (map masked ops)))) \<subseteq> {''AND'', ''TRUE''}"
        using masked_words [OF ops(2,3)] by blast
    qed
  qed
qed

text \<open>
  C36. Whatever the filters and the limit, the search never runs into its own guard: the statement it builds from column names
  alone passes, so that it is executed with the values as parameters, or an unknown column or a time that is no
  number raises before.
\<close>

theorem search_passes_guard:
  "case lake_search conn filters limit of Violation w \<Rightarrow> False | Query_Raises x \<Rightarrow> True | Rows rs \<Rightarrow> True"
proof (cases "map_res (\<lambda>(k, v). search_clause k v) filters")
  case (Inr cs)
  have "assert_read_only (search_text (map fst cs)) = None"
    by (rule search_text_accepted [OF search_clauses_well_formed [OF Inr]])
  then show ?thesis
    using Inr by (auto simp: lake_search_def lake_query_def split: option.splits sum.splits)
qed (simp add: lake_search_def)

section \<open>Paths in statements\<close>

text \<open>The value of a literal after its opening quote, and the rest.\<close>

fun read_literal :: "string \<Rightarrow> (string \<times> string) option" where
  "read_literal [] = None"
| "read_literal (c # cs) =
     (if c \<noteq> quote then map_option (\<lambda>(v, r). (c # v, r)) (read_literal cs)
      else case cs of d # ds \<Rightarrow> if d = quote then map_option (\<lambda>(v, r). (quote # v, r)) (read_literal ds) else Some ([], cs)
           | [] \<Rightarrow> Some ([], []))"

text \<open>
  A path is read back from the literal made of it, whatever quotes it has: the rest of the statement is the code it was written as.
\<close>

theorem sql_str_roundtrip: "read_literal (tl (sql_str v @ CHR '','' # rest)) = Some (v, CHR '','' # rest)"
proof -
  have "read_literal (concat (map (\<lambda>c. if c = quote then [quote, quote] else [c]) v) @ quote # CHR '','' # rest) = Some (v, CHR '','' # rest)"
    by (induction v) (auto simp: quote_def)
  then show ?thesis by (simp add: sql_str_def)
qed

end
