(* ===== verification/Events_Api.thy ===== *)
theory Events_Api
  imports Lake_Query Clickhouse_Sink Verify_Command Dlq
begin

text \<open>
  The routes over events of the web API (\<^verbatim>\<open>ulpf/api/routes/events.py\<close>) and the ClickHouse queries they use
  (\<^verbatim>\<open>ulpf/sinks/clickhouse_query.py\<close>). A request is its parameters; the answer is a value, a refusal with its status, or an
  exception. The lake and the server are arguments: what a statement with its parameters returns.
\<close>

section \<open>Filters\<close>

record filters =
  fl_source_type :: "string option"
  fl_class_uid :: "int option"
  fl_action_id :: "int option"
  fl_src_ip :: "string option"
  fl_dst_ip :: "string option"
  fl_port :: "int option"
  fl_severity_id :: "int option"
  fl_time_from :: "int option"
  fl_time_to :: "int option"
  fl_q :: "string option"

definition when_set :: "'a option \<Rightarrow> ('a \<Rightarrow> 'b) \<Rightarrow> 'b list" where
  "when_set v f = (case v of None \<Rightarrow> [] | Some x \<Rightarrow> [f x])"

definition when_text :: "string option \<Rightarrow> (string \<Rightarrow> 'b) \<Rightarrow> 'b list" where
  "when_text v f = (case v of None \<Rightarrow> [] | Some x \<Rightarrow> if x = [] then [] else [f x])"

text \<open>The clauses with their parameters, in the order of the source.\<close>

definition lake_clauses :: "filters \<Rightarrow> (string \<times> pyval list) list" where
  "lake_clauses f =
     when_set (fl_source_type f) (\<lambda>v. (''source_type = ?'', [PStr v])) @
     when_set (fl_class_uid f) (\<lambda>v. (''class_uid = ?'', [PInt v])) @
     when_set (fl_action_id f) (\<lambda>v. (''action_id = ?'', [PInt v])) @
     when_set (fl_src_ip f) (\<lambda>v. (''src_ip = ?'', [PStr v])) @
     when_set (fl_dst_ip f) (\<lambda>v. (''dst_ip = ?'', [PStr v])) @
     when_set (fl_port f) (\<lambda>v. (''(src_port = ? OR dst_port = ?)'', [PInt v, PInt v])) @
     when_set (fl_severity_id f) (\<lambda>v. (''severity_id = ?'', [PInt v])) @
     when_set (fl_time_from f) (\<lambda>v. (double_quote # ''time'' @ double_quote # '' >= ?'', [PInt v])) @
     when_set (fl_time_to f) (\<lambda>v. (double_quote # ''time'' @ double_quote # '' <= ?'', [PInt v])) @
     when_text (fl_q f) (\<lambda>v. (''(unmapped_json ILIKE ? OR enrichments_json ILIKE ? OR src_ip ILIKE ? OR dst_ip ILIKE ?)'',
                               replicate 4 (PStr (''%'' @ v @ ''%''))))"

definition where_text :: "string list \<Rightarrow> string" where
  "where_text clauses = (if clauses = [] then [] else ''WHERE '' @ join_with '' AND '' clauses)"

definition lake_where :: "filters \<Rightarrow> string \<times> pyval list" where
  "lake_where f = (where_text (map fst (lake_clauses f)), concat (map snd (lake_clauses f)))"

section \<open>Answers\<close>

datatype api_error = Api_Status nat | Api_Violation string | Api_Raises exn

type_synonym 'a api = "api_error + 'a"

definition bind_api :: "'a api \<Rightarrow> ('a \<Rightarrow> 'b api) \<Rightarrow> 'b api" where
  "bind_api r f = (case r of Inl x \<Rightarrow> Inl x | Inr a \<Rightarrow> f a)"

lemma bind_api_simps [simp]: "bind_api (Inl x) f = Inl x" "bind_api (Inr a) f = f a"
  by (simp_all add: bind_api_def)

definition api_res :: "'a res \<Rightarrow> 'a api" where
  "api_res r = (case r of Inl x \<Rightarrow> Inl (Api_Raises x) | Inr a \<Rightarrow> Inr a)"

definition lake_rows :: "query_result \<Rightarrow> pydict list api" where
  "lake_rows r = (case r of Violation w \<Rightarrow> Inl (Api_Violation w) | Query_Raises x \<Rightarrow> Inl (Api_Raises x) | Rows rs \<Rightarrow> Inr rs)"

definition first_row :: "pydict list \<Rightarrow> pydict api" where
  "first_row rs = (case rs of [] \<Rightarrow> Inl (Api_Raises (IndexError ''list index out of range'')) | r # _ \<Rightarrow> Inr r)"

definition row_item :: "pydict \<Rightarrow> string \<Rightarrow> pyval api" where
  "row_item r k = api_res (py_item (PDict r) k)"

section \<open>The lake behind the routes\<close>

definition list_lake :: "lake \<Rightarrow> filters \<Rightarrow> int \<Rightarrow> int \<Rightarrow> (pydict list \<times> int) api" where
  "list_lake lake f page page_size =
     (let (w, params) = lake_where f
      in bind_api (lake_rows (lake_query lake (''SELECT COUNT(*) AS n FROM events '' @ w) params)) (\<lambda>counts.
         bind_api (first_row counts) (\<lambda>c.
         bind_api (row_item c ''n'') (\<lambda>n.
         bind_api (lake_rows (lake_query lake (''SELECT * FROM events '' @ w @ newest_first @ '' OFFSET ?'')
                                (params @ [PInt page_size, PInt ((page - 1) * page_size)]))) (\<lambda>rows.
         bind_api (api_res (py_int n)) (\<lambda>m.
         Inr (rows, m)))))))"

definition get_lake :: "lake \<Rightarrow> string \<Rightarrow> pydict option api" where
  "get_lake lake uid =
     bind_api (lake_rows (lake_query lake ''SELECT * FROM events WHERE event_uid = ? LIMIT 1'' [PStr uid])) (\<lambda>rows.
       Inr (case rows of [] \<Rightarrow> None | r # _ \<Rightarrow> Some r))"

definition count_text :: "string \<Rightarrow> string \<Rightarrow> string" where
  "count_text column table = ''SELECT '' @ column @ '', COUNT(*) AS events FROM '' @ table @ '' GROUP BY '' @ column @ '' ORDER BY events DESC''"

text \<open>\<^verbatim>\<open>sum(row["events"] for row in rows)\<close> over counts: integers add, a text or an absent value is a \<^verbatim>\<open>TypeError\<close>.\<close>

definition add_count :: "int \<Rightarrow> pyval \<Rightarrow> int api" where
  "add_count n v =
     (case v of PInt i \<Rightarrow> Inr (n + i) | PBool b \<Rightarrow> Inr (n + (if b then 1 else 0))
      | _ \<Rightarrow> Inl (Api_Raises (TypeError ''unsupported operand'')))"

fun sum_from :: "int \<Rightarrow> pydict list \<Rightarrow> int api" where
  "sum_from n [] = Inr n"
| "sum_from n (r # rs) = bind_api (row_item r ''events'') (\<lambda>v. bind_api (add_count n v) (\<lambda>m. sum_from m rs))"

definition summary_lake :: "lake \<Rightarrow> (pydict list \<times> pydict list \<times> pydict list \<times> int) api" where
  "summary_lake lake =
     bind_api (lake_rows (stats_by_source lake)) (\<lambda>sources.
     bind_api (lake_rows (lake_query lake (count_text ''class_uid'' ''events'') [])) (\<lambda>classes.
     bind_api (lake_rows (lake_query lake (count_text ''action_id'' ''events'') [])) (\<lambda>actions.
     bind_api (sum_from 0 sources) (\<lambda>n. Inr (sources, classes, actions, n)))))"

section \<open>ClickHouse behind the routes\<close>

definition ch_stringify :: "pyval \<Rightarrow> string" where
  "ch_stringify v = (case v of PBool b \<Rightarrow> if b then ''1'' else ''0'' | _ \<Rightarrow> py_str v)"

text \<open>A request is its body and its query parameters; the server answers with a status and a text, or not at all.\<close>

type_synonym ch_server = "string \<Rightarrow> (string \<times> string) list \<Rightarrow> (nat \<times> string) option"

definition ch_query :: "ch_server \<Rightarrow> string \<Rightarrow> string \<Rightarrow> pydict \<Rightarrow> pydict list api" where
  "ch_query server database sql params =
     (case server (sql @ [ch 10] @ ''FORMAT JSONEachRow'')
             (fold (\<lambda>(k, v). dict_set (''param_'' @ k) (ch_stringify v)) params [(''database'', database)]) of
        None \<Rightarrow> Inl (Api_Status 503)
      | Some (status, body) \<Rightarrow>
          if 300 \<le> status then Inl (Api_Status 503)
          else (case map_opt json_loads (filter (\<lambda>l. py_strip l \<noteq> []) (py_splitlines body)) of
                  None \<Rightarrow> Inl (Api_Raises (ValueError ''JSONDecodeError''))
                | Some vs \<Rightarrow> Inr (map dict_of vs)))"

definition placeholder :: "string \<Rightarrow> string \<Rightarrow> string" where
  "placeholder name ty = ''{'' @ name @ '':'' @ ty @ ''}''"

definition ch_equals :: "string \<Rightarrow> string \<Rightarrow> string" where
  "ch_equals name ty = name @ '' = '' @ placeholder name ty"

definition ch_clauses :: "filters \<Rightarrow> (string \<times> string \<times> pyval) list" where
  "ch_clauses f =
     when_set (fl_source_type f) (\<lambda>v. (ch_equals ''source_type'' ''String'', ''source_type'', PStr v)) @
     when_set (fl_src_ip f) (\<lambda>v. (ch_equals ''src_ip'' ''String'', ''src_ip'', PStr v)) @
     when_set (fl_dst_ip f) (\<lambda>v. (ch_equals ''dst_ip'' ''String'', ''dst_ip'', PStr v)) @
     when_set (fl_class_uid f) (\<lambda>v. (ch_equals ''class_uid'' ''Int64'', ''class_uid'', PInt v)) @
     when_set (fl_action_id f) (\<lambda>v. (ch_equals ''action_id'' ''Int64'', ''action_id'', PInt v)) @
     when_set (fl_severity_id f) (\<lambda>v. (ch_equals ''severity_id'' ''Int64'', ''severity_id'', PInt v)) @
     when_set (fl_port f) (\<lambda>v. (''('' @ ''src_port = '' @ placeholder ''port'' ''Int64'' @ '' OR dst_port = '' @ placeholder ''port'' ''Int64'' @ '')'',
                              ''port'', PInt v)) @
     when_set (fl_time_from f) (\<lambda>v. (''time >= '' @ placeholder ''time_from'' ''Int64'', ''time_from'', PInt v)) @
     when_set (fl_time_to f) (\<lambda>v. (''time <= '' @ placeholder ''time_to'' ''Int64'', ''time_to'', PInt v)) @
     when_text (fl_q f) (\<lambda>v.
       (''('' @ join_with '' OR '' (map (\<lambda>c. ''positionCaseInsensitive('' @ c @ '', '' @ placeholder ''q'' ''String'' @ '') > 0'')
                                  [''unmapped'', ''enrichments'', ''src_ip'', ''dst_ip'']) @ '')'', ''q'', PStr v))"

definition ch_where :: "filters \<Rightarrow> string \<times> pydict" where
  "ch_where f = (where_text (map fst (ch_clauses f)), dict_update [] (map snd (ch_clauses f)))"

definition ch_table :: "string \<Rightarrow> string \<Rightarrow> string" where
  "ch_table database tab = [CHR 0x60] @ database @ [CHR 0x60] @ ''.'' @ [CHR 0x60] @ tab @ [CHR 0x60]"

definition list_clickhouse :: "ch_server \<Rightarrow> string \<Rightarrow> string \<Rightarrow> filters \<Rightarrow> int \<Rightarrow> int \<Rightarrow> (pydict list \<times> int) api" where
  "list_clickhouse server database tab f page page_size =
     (let t = ch_table database tab; (w, params) = ch_where f
      in bind_api (ch_query server database (''SELECT COUNT(*) AS n FROM '' @ t @ '' '' @ w) params) (\<lambda>counts.
         bind_api (ch_query server database (''SELECT * FROM '' @ t @ '' '' @ w @ '' ORDER BY time DESC LIMIT '' @ str_of_int page_size @
                                     '' OFFSET '' @ str_of_int ((page - 1) * page_size)) params) (\<lambda>rows.
         case counts of
           [] \<Rightarrow> Inr (rows, 0)
         | c # _ \<Rightarrow> bind_api (row_item c ''n'') (\<lambda>n. bind_api (api_res (py_int n)) (\<lambda>m. Inr (rows, m))))))"

definition get_clickhouse :: "ch_server \<Rightarrow> string \<Rightarrow> string \<Rightarrow> string \<Rightarrow> pydict option api" where
  "get_clickhouse server database tab uid =
     bind_api (ch_query server database (''SELECT * FROM '' @ ch_table database tab @ '' WHERE event_uid = '' @ placeholder ''event_uid'' ''String'' @ '' LIMIT 1'')
                 [(''event_uid'', PStr uid)]) (\<lambda>rows. Inr (case rows of [] \<Rightarrow> None | r # _ \<Rightarrow> Some r))"

definition summary_clickhouse :: "ch_server \<Rightarrow> string \<Rightarrow> string \<Rightarrow> (pydict list \<times> pydict list \<times> pydict list \<times> int) api" where
  "summary_clickhouse server database tab =
     (let t = ch_table database tab
      in bind_api (ch_query server database (count_text ''source_type'' t) []) (\<lambda>sources.
         bind_api (ch_query server database (count_text ''class_uid'' t) []) (\<lambda>classes.
         bind_api (ch_query server database (count_text ''action_id'' t) []) (\<lambda>actions.
         bind_api (sum_from 0 sources) (\<lambda>n. Inr (sources, classes, actions, n))))))"

section \<open>Compact intervals\<close>

definition unit_names :: "(char \<times> string) list" where
  "unit_names = [(CHR ''s'', ''SECOND''), (CHR ''m'', ''MINUTE''), (CHR ''h'', ''HOUR''), (CHR ''d'', ''DAY''), (CHR ''w'', ''WEEK'')]"

definition unit_seconds :: "(char \<times> int) list" where
  "unit_seconds = [(CHR ''s'', 1), (CHR ''m'', 60), (CHR ''h'', 3600), (CHR ''d'', 86400), (CHR ''w'', 604800)]"

text \<open>\<^verbatim>\<open>^\s*(\d+)\s*([smhdw])\s*$\<close>, ignoring case: the digits and the letter.\<close>

definition compact_match :: "string \<Rightarrow> (string \<times> char) option" where
  "compact_match s =
     (let t = dropWhile is_space s; digits = takeWhile is_dec t; r = dropWhile is_space (dropWhile is_dec t)
      in case r of
           c # r' \<Rightarrow> if digits \<noteq> [] \<and> map_of unit_names (lower_char c) \<noteq> None \<and> list_all is_space r' then Some (digits, lower_char c) else None
         | [] \<Rightarrow> None)"

definition parse_compact_interval :: "string \<Rightarrow> (int \<times> string) api" where
  "parse_compact_interval s =
     (case compact_match s of
        None \<Rightarrow> Inl (Api_Status 400)
      | Some (digits, u) \<Rightarrow> Inr (int (nat_of_dec digits), the (map_of unit_names u)))"

definition seconds :: "int \<Rightarrow> string \<Rightarrow> int option" where
  "seconds n name =
     Option.bind (List.find (\<lambda>(k, v). v = name) unit_names) (\<lambda>(k, v). map_option (\<lambda>m. n * m) (map_of unit_seconds k))"

definition to_lake_interval :: "string \<Rightarrow> string" where
  "to_lake_interval s =
     (case compact_match s of
        None \<Rightarrow> s
      | Some (digits, u) \<Rightarrow> digits @ '' '' @ py_lower (the (map_of unit_names u)) @ (if digits \<noteq> ''1'' then ''s'' else []))"

definition timeseries_lake :: "lake \<Rightarrow> string \<Rightarrow> string \<Rightarrow> pydict list api" where
  "timeseries_lake lake interval window =
     bind_api (parse_compact_interval interval) (\<lambda>_. bind_api (parse_compact_interval window) (\<lambda>_.
       lake_rows (timeseries lake (to_lake_interval interval) (to_lake_interval window))))"

definition timeseries_clickhouse :: "ch_server \<Rightarrow> string \<Rightarrow> string \<Rightarrow> string \<Rightarrow> string \<Rightarrow> pydict list api" where
  "timeseries_clickhouse server database tab interval window =
     bind_api (parse_compact_interval interval) (\<lambda>(n, unit). bind_api (parse_compact_interval window) (\<lambda>(m, window_unit).
       ch_query server database
         (''SELECT toStartOfInterval(toDateTime(intDiv(time, 1000000000)), '' @
          ''INTERVAL '' @ str_of_int n @ '' '' @ unit @ '') AS bucket, source_type, COUNT(*) AS events '' @
          ''FROM '' @ ch_table database tab @ '' '' @
          ''WHERE time >= (toUnixTimestamp(now()) - '' @ str_of_int (case seconds m window_unit of Some k \<Rightarrow> k | None \<Rightarrow> 0) @ '') * 1000000000 '' @
          ''GROUP BY bucket, source_type ORDER BY bucket, source_type'') []))"

section \<open>Rows and records\<close>

definition json_suffix_columns :: "string list" where
  "json_suffix_columns = [''unmapped_json'', ''enrichments_json'']"

text \<open>Descending with \<^verbatim>\<open>setdefault\<close> and assigning; a value that is no dictionary on the way raises.\<close>

fun set_path :: "string list \<Rightarrow> pyval \<Rightarrow> pydict \<Rightarrow> pydict res" where
  "set_path [] v out = Inr out"
| "set_path [k] v out = Inr (dict_set k v out)"
| "set_path (k # k' # ks) v out =
     (case (case map_of out k of None \<Rightarrow> PDict [] | Some x \<Rightarrow> x) of
        PDict d \<Rightarrow> bind_res (set_path (k' # ks) v d) (\<lambda>d'. Inr (dict_set k (PDict d') out))
      | _ \<Rightarrow> Inl (AttributeError ''setdefault''))"

definition unflatten_cell :: "string \<Rightarrow> pyval \<Rightarrow> pydict \<Rightarrow> pydict res" where
  "unflatten_cell key v out =
     (if v = PNone \<or> key = ''date'' then Inr out
      else if key \<in> set json_suffix_columns
      then (case v of
              PStr s \<Rightarrow> if s = [] then Inr (dict_set (take (length key - 5) key) (PDict []) out)
                       else (case json_loads s of
                               None \<Rightarrow> Inl (ValueError ''JSONDecodeError'')
                             | Some x \<Rightarrow> Inr (dict_set (take (length key - 5) key) x out))
            | _ \<Rightarrow> Inr (dict_set (take (length key - 5) key) (PDict []) out))
      else set_path (split_on ''.'' key) v out)"

fun unflatten_from :: "pydict \<Rightarrow> pydict \<Rightarrow> pydict res" where
  "unflatten_from [] out = Inr out"
| "unflatten_from ((k, v) # row) out = bind_res (unflatten_cell k v out) (unflatten_from row)"

definition unflatten :: "pydict \<Rightarrow> pydict res" where
  "unflatten row = unflatten_from row []"

section \<open>The routes\<close>

definition max_page_size :: int where
  "max_page_size = 500"

definition list_events :: "(filters \<Rightarrow> int \<Rightarrow> int \<Rightarrow> (pydict list \<times> int) api) \<Rightarrow> filters \<Rightarrow> int \<Rightarrow> int \<Rightarrow> (pydict list \<times> int) api" where
  "list_events backend f page page_size =
     (if page < 1 \<or> page_size < 1 \<or> max_page_size < page_size then Inl (Api_Status 422) else backend f page page_size)"

definition get_event :: "(string \<Rightarrow> pydict option api) \<Rightarrow> string \<Rightarrow> pydict api" where
  "get_event one uid =
     bind_api (one uid) (\<lambda>row. case row of None \<Rightarrow> Inl (Api_Status 404) | Some r \<Rightarrow> api_res (unflatten r))"

definition verify_one :: "digest_fn \<Rightarrow> instant \<Rightarrow> raw_store \<Rightarrow> event_index option \<Rightarrow> ledger option \<Rightarrow> string \<Rightarrow> event_proof res" where
  "verify_one H now store ix lg uid =
     bind_res (new_proof_builder store ix lg None) (\<lambda>pb. fst (for_event H now uid pb))"

definition get_raw :: "digest_fn \<Rightarrow> instant \<Rightarrow> raw_store \<Rightarrow> event_index option \<Rightarrow> ledger option \<Rightarrow> string \<Rightarrow> pydict api" where
  "get_raw H now store ix lg uid =
     bind_api (api_res (fst (rs_read_by_uid now uid store))) (\<lambda>found.
       case found of
         None \<Rightarrow> Inl (Api_Status 404)
       | Some e \<Rightarrow>
           bind_api (api_res (verify_one H now store ix lg uid)) (\<lambda>p.
             Inr [(''event_uid'', PStr (event_uid e)), (''raw_b64'', PStr (b64encode (raw e))), (''raw_text'', PStr (decode_utf8 (raw e))),
                  (''raw_hash'', PStr (raw_hash e)), (''raw_len'', PInt (raw_len e)), (''ingest_time_ns'', PInt (ingest_time_ns e)),
                  (''source_id'', PStr (source_id e)), (''transport'', PStr (transport_name (transport e))),
                  (''verified'', PBool (ep_hash_ok p))]))"

definition side_name :: "side \<Rightarrow> string" where
  "side_name s = (case s of SLeft \<Rightarrow> ''left'' | SRight \<Rightarrow> ''right'' | SOther t \<Rightarrow> t)"

definition get_lineage ::
  "digest_fn \<Rightarrow> instant \<Rightarrow> raw_store \<Rightarrow> event_index option \<Rightarrow> ledger option \<Rightarrow> (string \<Rightarrow> pydict option api) \<Rightarrow> string \<Rightarrow> pydict api" where
  "get_lineage H now store ix lg one uid =
     bind_api (api_res (verify_one H now store ix lg uid)) (\<lambda>p.
       case ep_recorded_hash p of
         None \<Rightarrow> Inl (Api_Status 404)
       | Some h \<Rightarrow>
           bind_api (one uid) (\<lambda>row.
             let r = (case row of None \<Rightarrow> [] | Some d \<Rightarrow> d)
             in Inr [(''event_uid'', PStr uid), (''raw_hash'', PStr (bytes_hex h)), (''raw_verified'', PBool (ep_hash_ok p)),
                     (''mapping_version'', py_get r ''metadata.log_version''), (''source_type'', py_get r ''source_type''),
                     (''ledger_seq'', case ep_ledger_seq p of None \<Rightarrow> PNone | Some i \<Rightarrow> PInt i),
                     (''merkle_proof'', PList (map (\<lambda>(sibling, s). PDict [(''sibling'', PStr (bytes_hex sibling)), (''side'', PStr (side_name s))]) (ep_path p))),
                     (''ledger_verified'', PBool (ep_found p \<and> ep_proof_ok p \<and> ep_signature_ok p))]))"

text \<open>The rate is kept as a fraction, before its rounding to four places.\<close>

definition dlq_rate :: "int \<Rightarrow> int \<Rightarrow> rat" where
  "dlq_rate stored dead = (if stored + dead = 0 then 0 else of_int dead / of_int (stored + dead))"

section \<open>A record through its columns and back\<close>

text \<open>
  The records that columns keep: no list, no null and no empty dictionary, and names that are neither empty nor dotted.
\<close>

fun restorable :: "pyval \<Rightarrow> bool"
  and restorable_members :: "pydict \<Rightarrow> bool" where
  "restorable (PDict d) = (d \<noteq> [] \<and> distinct (map fst d) \<and> restorable_members d)"
| "restorable (PList xs) = False"
| "restorable PNone = False"
| "restorable v = True"
| "restorable_members [] = True"
| "restorable_members ((k, v) # d) = (k \<noteq> [] \<and> CHR ''.'' \<notin> set k \<and> restorable v \<and> restorable_members d)"

text \<open>The leaves of a record with the names that lead to them.\<close>

fun paths :: "pyval \<Rightarrow> (string list \<times> pyval) list"
  and member_paths :: "pydict \<Rightarrow> (string list \<times> pyval) list" where
  "paths (PDict d) = member_paths d"
| "paths v = [([], v)]"
| "member_paths [] = []"
| "member_paths ((k, v) # d) = map (\<lambda>(p, x). (k # p, x)) (paths v) @ member_paths d"

fun set_paths :: "(string list \<times> pyval) list \<Rightarrow> pydict \<Rightarrow> pydict res" where
  "set_paths [] out = Inr out"
| "set_paths ((p, v) # ps) out = bind_res (set_path p v out) (set_paths ps)"

definition columns_of :: "(string list \<times> pyval) list \<Rightarrow> pydict" where
  "columns_of ps = map (\<lambda>(p, v). (join_with ''.'' p, v)) ps"

lemma set_paths_append: "set_paths (ps @ qs) out = bind_res (set_paths ps out) (set_paths qs)"
  by (induction ps arbitrary: out) (auto simp: bind_res_def split: sum.splits)

lemma member_paths_nonempty: "(p, v) \<in> set (member_paths d) \<Longrightarrow> p \<noteq> []"
  by (induction d) auto

lemma paths_empty: "restorable v \<Longrightarrow> ([], x) \<in> set (paths v) \<Longrightarrow> paths v = [([], v)]"
  by (cases v) (auto dest: member_paths_nonempty)

lemma paths_some: "restorable v \<Longrightarrow> paths v \<noteq> []" "d \<noteq> [] \<Longrightarrow> restorable_members d \<Longrightarrow> member_paths d \<noteq> []"
  by (induction v and d rule: restorable_restorable_members.induct) auto

lemma dict_set_twice: "dict_set k v (dict_set k w d) = dict_set k v d"
  by (induction d) auto

lemma set_paths_under:
  "ps \<noteq> [] \<Longrightarrow> list_all (\<lambda>(p, v). p \<noteq> []) ps \<Longrightarrow>
   (map_of out k = None \<and> e = []) \<or> map_of out k = Some (PDict e) \<Longrightarrow>
   set_paths (map (\<lambda>(p, v). (k # p, v)) ps) out = bind_res (set_paths ps e) (\<lambda>d. Inr (dict_set k (PDict d) out))"
proof (induction ps arbitrary: out e)
  case (Cons a ps)
  obtain p v where a: "a = (p, v)" by (cases a)
  obtain k' ks where p: "p = k' # ks" using Cons.prems a by (cases p) auto
  have one: "set_path (k # p) v out = bind_res (set_path p v e) (\<lambda>d. Inr (dict_set k (PDict d) out))"
    using Cons.prems(3) p by auto
  show ?case
  proof (cases "set_path p v e")
    case (Inl x)
    then show ?thesis by (simp add: a one bind_res_def)
  next
    case (Inr d)
    show ?thesis
    proof (cases "ps = []")
      case True
      then show ?thesis by (simp add: a one Inr bind_res_def)
    next
      case False
      have "map_of (dict_set k (PDict d) out) k = Some (PDict d)" by simp
      then have "set_paths (map (\<lambda>(p, v). (k # p, v)) ps) (dict_set k (PDict d) out) =
          bind_res (set_paths ps d) (\<lambda>d'. Inr (dict_set k (PDict d') (dict_set k (PDict d) out)))"
        using Cons.IH [OF False, of "dict_set k (PDict d) out" d] Cons.prems(2) by simp
      then show ?thesis by (simp add: a one Inr bind_res_def dict_set_twice split: sum.splits)
    qed
  qed
qed simp

lemma set_paths_members:
  "restorable v \<Longrightarrow> (case v of PDict d \<Rightarrow> set_paths (paths v) [] = Inr d | _ \<Rightarrow> paths v = [([], v)])"
  "restorable_members d \<Longrightarrow> distinct (map fst (out @ d)) \<Longrightarrow> set_paths (member_paths d) out = Inr (out @ d)"
proof (induction v and d arbitrary: and out rule: restorable_restorable_members.induct)
  case (6 k v d)
  have fresh: "k \<notin> fst ` set out" using "6.prems" by auto
  have rest: "set_paths (member_paths d) (out @ [(k, v)]) = Inr ((out @ [(k, v)]) @ d)"
    using "6.prems" by (intro "6.IH"(2)) auto
  have "set_paths (map (\<lambda>(p, x). (k # p, x)) (paths v)) out = Inr (dict_set k v out)"
  proof (cases "\<exists>e. v = PDict e")
    case True
    then obtain e where v: "v = PDict e" by blast
    have "list_all (\<lambda>(p, v). p \<noteq> []) (paths v)" by (auto simp: v list_all_iff dest: member_paths_nonempty)
    moreover have "paths v \<noteq> []" using "6.prems" paths_some(1) by simp
    moreover have "map_of out k = None" using fresh by (simp add: map_of_eq_None_iff)
    moreover have "set_paths (paths v) [] = Inr e" using "6.IH"(1) "6.prems" v by simp
    ultimately show ?thesis using set_paths_under [of "paths v" out k "[]"] by (simp add: v bind_res_def)
  next
    case False
    then have "paths v = [([], v)]" by (cases v) auto
    then show ?thesis by (simp add: bind_res_def)
  qed
  then show ?case using rest fresh by (simp add: set_paths_append bind_res_def dict_set_fresh)
qed auto

lemma join_snoc: "ns \<noteq> [] \<Longrightarrow> join_with p (ns @ [k]) = join_with p ns @ p @ k"
  by (induction p ns rule: join_with.induct) auto

lemma join_blank: "list_all (\<lambda>n. n \<noteq> []) ns \<Longrightarrow> join_with ''.'' ns = [] \<longleftrightarrow> ns = []"
  by (induction "''.''" ns rule: join_with.induct) auto

definition under :: "string list \<Rightarrow> (string list \<times> pyval) list \<Rightarrow> pydict" where
  "under ns ps = map (\<lambda>(p, v). (join_with ''.'' (ns @ p), v)) ps"

lemma under_append: "under ns (ps @ qs) = under ns ps @ under ns qs"
  by (simp add: under_def)

lemma flatten_paths:
  "restorable v \<Longrightarrow> ns \<noteq> [] \<Longrightarrow> list_all (\<lambda>n. n \<noteq> []) ns \<Longrightarrow> flatten_row (join_with ''.'' ns) v out = dict_update out (under ns (paths v))"
  "restorable_members d \<Longrightarrow> list_all (\<lambda>n. n \<noteq> []) ns \<Longrightarrow> ns \<noteq> [] \<or> {''unmapped'', ''enrichments''} \<inter> fst ` set d = {} \<Longrightarrow>
   Parquet_Sink.flatten_members (join_with ''.'' ns) d out = dict_update out (under ns (member_paths d))"
proof (induction v and d arbitrary: ns out and ns out rule: restorable_restorable_members.induct)
  case (6 k v d)
  have col: "(if join_with ''.'' ns = [] then k else join_with ''.'' ns @ ''.'' @ k) = join_with ''.'' (ns @ [k])"
    using "6.prems" by (simp add: join_blank join_snoc)
  have kept: "\<not> (join_with ''.'' ns = [] \<and> k \<in> {''unmapped'', ''enrichments''})"
    using "6.prems" by (auto simp: join_blank)
  have "flatten_row (join_with ''.'' (ns @ [k])) v out = dict_update out (under (ns @ [k]) (paths v))"
    using "6.prems" by (intro "6.IH"(1)) auto
  moreover have "Parquet_Sink.flatten_members (join_with ''.'' ns) d o' = dict_update o' (under ns (member_paths d))" for o'
    using "6.prems" by (intro "6.IH"(2)) auto
  moreover have "under (ns @ [k]) (paths v) = under ns (map (\<lambda>(p, x). (k # p, x)) (paths v))"
    by (simp add: under_def split_def)
  ultimately show ?case
    unfolding Parquet_Sink.flatten_members.simps col if_not_P [OF kept] by (simp only: member_paths.simps under_append dict_update_append)
qed (auto simp: under_def)

lemma dotless_paths:
  "restorable v \<Longrightarrow> (p, x) \<in> set (paths v) \<Longrightarrow> n \<in> set p \<Longrightarrow> CHR ''.'' \<notin> set n"
  "restorable_members d \<Longrightarrow> (p, x) \<in> set (member_paths d) \<Longrightarrow> n \<in> set p \<Longrightarrow> CHR ''.'' \<notin> set n"
  by (induction v and d arbitrary: p and p rule: restorable_restorable_members.induct) auto

lemma distinct_paths:
  "restorable v \<Longrightarrow> distinct (map fst (paths v))"
  "restorable_members d \<Longrightarrow> distinct (map fst d) \<Longrightarrow> distinct (map fst (member_paths d))"
proof (induction v and d rule: restorable_restorable_members.induct)
  case (6 k v d)
  have "hd p \<in> fst ` set d" if "(p, x) \<in> set (member_paths d)" for p x
    using that by (induction d) (auto simp: rev_image_eqI)
  then have "(k # p, x) \<notin> set (member_paths d)" for p x using "6.prems"(2) by (metis distinct.simps(2) fst_conv list.sel(1) list.set_map list.simps(9))
  moreover have "distinct (map (\<lambda>(p, x). k # p) (paths v))"
    using "6.IH"(1) "6.prems" by (simp add: distinct_map inj_on_def split_def)
  ultimately show ?case using "6.IH"(2) "6.prems" by (auto simp: split_def comp_def image_iff)
qed auto

lemma split_column: "restorable_members d \<Longrightarrow> (p, x) \<in> set (member_paths d) \<Longrightarrow> split_on ''.'' (join_with ''.'' p) = p"
  by (intro split_join_single) (auto dest: member_paths_nonempty dotless_paths(2))

lemma distinct_columns:
  assumes "restorable_members d" "distinct (map fst d)"
  shows "distinct (map fst (under [] (member_paths d)))"
proof -
  have "inj_on (join_with ''.'') (fst ` set (member_paths d))"
    by (rule inj_on_inverseI [where g = "split_on ''.''"]) (auto intro: split_column [OF assms(1)])
  moreover have "map fst (under [] (member_paths d)) = map (join_with ''.'') (map fst (member_paths d))" by (simp add: under_def split_def)
  ultimately show ?thesis using distinct_paths(2) [OF assms] by (simp only: distinct_map [of "join_with ''.''"] set_map simp_thms)
qed

lemma flatten_columns:
  "restorable_members d \<Longrightarrow> distinct (map fst d) \<Longrightarrow> {''unmapped'', ''enrichments''} \<inter> fst ` set d = {} \<Longrightarrow>
   Parquet_Sink.flatten_members [] d [] = under [] (member_paths d)"
  using flatten_paths(2) [of d "[]" "[]"] dict_update_fresh [of "[]" "under [] (member_paths d)"] distinct_columns [of d] by simp

lemma unflatten_append: "unflatten_from (a @ b) out = bind_res (unflatten_from a out) (unflatten_from b)"
  by (induction a arbitrary: out) (auto simp: bind_res_def split: sum.splits)

definition reserved_columns :: "string list" where
  "reserved_columns = [''date'', ''unmapped_json'', ''enrichments_json'']"

lemma unflatten_under:
  "list_all (\<lambda>(p, v). v \<noteq> PNone \<and> split_on ''.'' (join_with ''.'' p) = p \<and> join_with ''.'' p \<notin> set reserved_columns) ps \<Longrightarrow>
   unflatten_from (under [] ps) out = set_paths ps out"
proof (induction ps arbitrary: out)
  case (Cons a ps)
  then show ?case
    by (cases a) (auto simp: under_def unflatten_cell_def reserved_columns_def json_suffix_columns_def bind_res_def split: sum.splits)
qed (simp add: under_def)

lemma path_value: 
  "restorable v \<Longrightarrow> (p, x) \<in> set (paths v) \<Longrightarrow> x \<noteq> PNone"
  "restorable_members d \<Longrightarrow> (p, x) \<in> set (member_paths d) \<Longrightarrow> x \<noteq> PNone"
  by (induction v and d arbitrary: p and p rule: restorable_restorable_members.induct) auto

lemma path_head: "(p, x) \<in> set (member_paths d) \<Longrightarrow> hd p \<in> fst ` set d"
  by (induction d) (auto simp: rev_image_eqI)

lemma column_not_reserved:
  assumes ok: "restorable_members d" and free: "set reserved_columns \<inter> fst ` set d = {}" and p: "(p, x) \<in> set (member_paths d)"
  shows "join_with ''.'' p \<notin> set reserved_columns"
proof
  assume r: "join_with ''.'' p \<in> set reserved_columns"
  have dotless: "CHR ''.'' \<notin> set (join_with ''.'' p)" using r by (auto simp: reserved_columns_def)
  have "p = [join_with ''.'' p]"
    using split_column [OF ok p] split_on_single_none [OF dotless] by simp
  then have "join_with ''.'' p = hd p" by (metis list.sel(1))
  then show False using r free path_head [OF p] by auto
qed

lemma unflatten_members:
  assumes ok: "restorable_members d" "distinct (map fst d)" and free: "set reserved_columns \<inter> fst ` set d = {}"
  shows "unflatten_from (under [] (member_paths d)) [] = Inr d"
proof -
  have "unflatten_from (under [] (member_paths d)) [] = set_paths (member_paths d) []"
    using split_column [OF ok(1)] path_value(2) [OF ok(1)] column_not_reserved [OF ok(1) free]
    by (intro unflatten_under) (auto simp: list_all_iff)
  then show ?thesis using set_paths_members(2) [of d "[]"] ok by simp
qed

lemma json_ok_sorted:
  "json_ok v \<Longrightarrow> json_ok (sort_json v)"
  "dict_ok d \<and> list_all (\<lambda>p. json_ok (snd p)) d \<Longrightarrow>
   list_all (\<lambda>p. json_ok (snd p)) (sort_json_members d) \<and> map fst (sort_json_members d) = map fst d"
  "list_all json_ok xs \<Longrightarrow> list_all json_ok (sort_json_items xs)"
proof (induction v and d and xs rule: sort_json_sort_json_members_sort_json_items.induct)
  case (1 d)
  have m: "list_all (\<lambda>p. json_ok (snd p)) (sort_json_members d)" "map fst (sort_json_members d) = map fst d"
    using 1 by auto
  have "mset (map fst (sort_key fst (sort_json_members d))) = mset (map fst d)" using m(2) by (metis mset_map mset_sort)
  then have "distinct (map fst (sort_key fst (sort_json_members d)))"
    using "1.prems" by (metis dict_ok_def json_ok.simps(3) mset_eq_imp_distinct_iff)
  then show ?case using m(1) by (simp add: dict_ok_def list_all_iff)
qed (auto simp: dict_ok_def)

text \<open>The columns a record is stored in, without the core columns.\<close>

definition record_columns :: "pydict \<Rightarrow> pydict" where
  "record_columns rec =
     dict_set ''enrichments_json'' (json_or_none (py_get rec ''enrichments''))
       (dict_set ''unmapped_json'' (json_or_none (py_get rec ''unmapped'')) (Parquet_Sink.flatten_members [] rec []))"

definition kept_member :: "string \<Rightarrow> pyval \<Rightarrow> pydict" where
  "kept_member k v = (if py_truth v then [(k, sort_json v)] else [])"

lemma flatten_skips:
  "Parquet_Sink.flatten_members [] (d @ [(''unmapped'', u), (''enrichments'', e)]) out = Parquet_Sink.flatten_members [] d out"
  by (induction d arbitrary: out) auto

lemma under_keys: "fst ` set (under [] ps) = join_with ''.'' ` fst ` set ps"
  by (force simp: under_def)

lemma json_loads_blank: "json_loads [] = None"
  by code_simp

lemma unflatten_json_column:
  assumes k: "k = ''unmapped'' \<or> k = ''enrichments''" and fresh: "k \<notin> fst ` set out" and ok: "json_ok v"
  shows "unflatten_cell (k @ ''_json'') (json_or_none v) out = Inr (out @ kept_member k v)"
proof (cases "py_truth v")
  case False
  then show ?thesis by (simp add: unflatten_cell_def json_or_none_def kept_member_def)
next
  case True
  have read: "json_loads (json_dumps (sort_json v)) = Some (sort_json v)" by (rule json_loads_dumps [OF json_ok_sorted(1) [OF ok]])
  then have "json_dumps (sort_json v) \<noteq> []" using json_loads_blank by auto
  then show ?thesis
    using k by (auto simp: unflatten_cell_def json_or_none_def kept_member_def json_suffix_columns_def read True dict_set_fresh [OF fresh])
qed

lemma record_columns_members:
  assumes ok: "restorable_members d" "distinct (map fst d)"
    and free: "(set reserved_columns \<union> {''unmapped'', ''enrichments''}) \<inter> fst ` set d = {}"
  shows "record_columns (d @ [(''unmapped'', u), (''enrichments'', e)]) =
     under [] (member_paths d) @ [(''unmapped_json'', json_or_none u), (''enrichments_json'', json_or_none e)]"
proof -
  have cols: "Parquet_Sink.flatten_members [] d [] = under [] (member_paths d)" using free by (intro flatten_columns ok) blast
  have free': "set reserved_columns \<inter> fst ` set d = {}" using free by blast
  have "join_with ''.'' ` fst ` set (member_paths d) \<inter> set reserved_columns = {}"
    using column_not_reserved [OF ok(1) free'] by auto
  then have fresh: "''unmapped_json'' \<notin> fst ` set (under [] (member_paths d))" "''enrichments_json'' \<notin> fst ` set (under [] (member_paths d))"
    unfolding under_keys by (auto simp: reserved_columns_def)
  have got: "py_get (d @ [(''unmapped'', u), (''enrichments'', e)]) ''unmapped'' = u" "py_get (d @ [(''unmapped'', u), (''enrichments'', e)]) ''enrichments'' = e"
  proof -
    have "map_of d ''unmapped'' = None" "map_of d ''enrichments'' = None" using free by (auto simp: map_of_eq_None_iff)
    then show "py_get (d @ [(''unmapped'', u), (''enrichments'', e)]) ''unmapped'' = u" "py_get (d @ [(''unmapped'', u), (''enrichments'', e)]) ''enrichments'' = e"
      by (simp_all add: py_get_def map_add_def)
  qed
  show ?thesis
    using fresh by (simp add: record_columns_def flatten_skips got cols dict_set_fresh)
qed



section \<open>Intervals\<close>

lemma compact_match_parts: "compact_match s = Some (digits, u) \<Longrightarrow> digits \<noteq> [] \<and> list_all is_dec digits \<and> u \<in> fst ` set unit_names"
  by (auto simp: compact_match_def Let_def list_all_iff unit_names_def dest: set_takeWhileD split: list.splits if_splits)

lemma scan_count:
  assumes "digits \<noteq> []" "list_all is_dec digits"
  shows "dropWhile is_space (digits @ CHR '' '' # w) = digits @ CHR '' '' # w" "takeWhile is_dec (digits @ CHR '' '' # w) = digits"
    "dropWhile is_dec (digits @ CHR '' '' # w) = CHR '' '' # w"
proof -
  have all: "\<forall>c \<in> set digits. is_dec c" using assms by (simp add: list_all_iff)
  obtain c ds where d: "digits = c # ds" using assms by (cases digits) auto
  have "\<not> is_space c" using all by (auto simp: d is_space_def is_dec_def)
  then show "dropWhile is_space (digits @ CHR '' '' # w) = digits @ CHR '' '' # w" by (simp add: d)
  have blank: "\<not> is_dec (CHR '' '')" by (simp add: is_dec_def code_def)
  show "takeWhile is_dec (digits @ CHR '' '' # w) = digits" "dropWhile is_dec (digits @ CHR '' '' # w) = CHR '' '' # w"
    using all blank by (simp_all add: takeWhile_append2 dropWhile_append2)
qed

lemma lake_unit:
  "list_all (\<lambda>(u, name). list_all (\<lambda>plural. interval_unit interval_fn (py_lower (dropWhile is_space (CHR '' '' # py_lower name @ plural)))
     = map_of interval_fn (py_lower name) \<and> map_of interval_fn (py_lower name) \<noteq> None) [[], ''s'']) unit_names"
  by code_simp

text \<open>
  The two backends read an interval alike: when the route accepts it as a count and a unit, the text it hands to
  the lake is accepted there, with the same count and the function of the same unit.
\<close>

theorem intervals_agree:
  "case parse_compact_interval s of
     Inl x \<Rightarrow> to_lake_interval s = s
   | Inr (n, unit) \<Rightarrow> map_option (\<lambda>f. (f, n)) (map_of interval_fn (py_lower unit)) = (case interval_parts (to_lake_interval s) of Inl x \<Rightarrow> None | Inr p \<Rightarrow> Some p)
       \<and> map_of interval_fn (py_lower unit) \<noteq> None"
proof (cases "compact_match s")
  case None
  then show ?thesis by (simp add: parse_compact_interval_def to_lake_interval_def)
next
  case (Some m)
  obtain digits u where m: "m = (digits, u)" by (cases m)
  have ok: "digits \<noteq> []" "list_all is_dec digits" "u \<in> fst ` set unit_names"
    using compact_match_parts Some m by auto
  define name where "name = the (map_of unit_names u)"
  define plural where "plural = (if digits \<noteq> ''1'' then ''s'' else [])"
  have "(u, name) \<in> set unit_names" using ok(3) by (auto simp: name_def unit_names_def)
  moreover have "plural \<in> {[], ''s''}" by (simp add: plural_def)
  ultimately have unit: "interval_unit interval_fn (py_lower (dropWhile is_space (CHR '' '' # py_lower name @ plural))) = map_of interval_fn (py_lower name)"
    "map_of interval_fn (py_lower name) \<noteq> None"
    using lake_unit by (auto simp: list_all_iff)
  have sent: "to_lake_interval s = digits @ CHR '' '' # py_lower name @ plural"
    by (simp add: to_lake_interval_def Some m name_def plural_def)
  obtain f where f: "map_of interval_fn (py_lower name) = Some f" using unit(2) by blast
  have "interval_parts (to_lake_interval s) = Inr (f, int (nat_of_dec digits))"
    unfolding interval_parts_def sent Let_def scan_count [OF ok(1,2)] if_not_P [OF ok(1)] unit(1) f by simp
  moreover have "parse_compact_interval s = Inr (int (nat_of_dec digits), name)"
    by (simp add: parse_compact_interval_def Some m name_def)
  ultimately show ?thesis by (simp add: f)
qed

section \<open>Filters are bound, never written\<close>

text \<open>The same filters with every value replaced.\<close>

definition blank :: "filters \<Rightarrow> filters" where
  "blank f = \<lparr>fl_source_type = map_option (\<lambda>_. []) (fl_source_type f), fl_class_uid = map_option (\<lambda>_. 0) (fl_class_uid f),
     fl_action_id = map_option (\<lambda>_. 0) (fl_action_id f), fl_src_ip = map_option (\<lambda>_. []) (fl_src_ip f),
     fl_dst_ip = map_option (\<lambda>_. []) (fl_dst_ip f), fl_port = map_option (\<lambda>_. 0) (fl_port f),
     fl_severity_id = map_option (\<lambda>_. 0) (fl_severity_id f), fl_time_from = map_option (\<lambda>_. 0) (fl_time_from f),
     fl_time_to = map_option (\<lambda>_. 0) (fl_time_to f), fl_q = map_option (\<lambda>v. if v = [] then [] else ''x'') (fl_q f)\<rparr>"

lemma fst_when_set: "map fst (when_set (map_option g v) (\<lambda>x. (c, h x))) = map fst (when_set v (\<lambda>x. (c, h x)))"
  by (cases v) (simp_all add: when_set_def)

lemma fst_when_text:
  "map fst (when_text (map_option (\<lambda>v. if v = [] then [] else ''x'') w) (\<lambda>x. (c, h x))) = map fst (when_text w (\<lambda>x. (c, h x)))"
  by (cases w) (simp_all add: when_text_def)

definition marks :: "string \<Rightarrow> nat" where
  "marks s = length (filter (\<lambda>c. c = CHR ''?'') s)"

lemma marks_simps [simp]: "marks [] = 0" "marks (c # s) = (if c = CHR ''?'' then Suc (marks s) else marks s)"
  by (simp_all add: marks_def)

lemma marks_append [simp]: "marks (a @ b) = marks a + marks b"
  by (simp add: marks_def)

lemma marks_join: "marks p = 0 \<Longrightarrow> marks (join_with p xs) = sum_list (map marks xs)"
  by (induction p xs rule: join_with.induct) auto

lemma marked_set: "list_all (\<lambda>(c, ps). marks c = length ps) (when_set v (\<lambda>x. (c, h x))) \<longleftrightarrow> v = None \<or> marks c = length (h (the v))"
  by (cases v) (simp_all add: when_set_def)

lemma marked_text: "list_all (\<lambda>(c, ps). marks c = length ps) (when_text v (\<lambda>x. (c, h x))) \<longleftrightarrow> v = None \<or> the v = [] \<or> marks c = length (h (the v))"
  by (cases v) (simp_all add: when_text_def)

lemma lake_clauses_marked: "list_all (\<lambda>(c, ps). marks c = length ps) (lake_clauses f)"
  by (simp add: lake_clauses_def marked_set marked_text list_all_append double_quote_def)

text \<open>
  No value of a filter becomes text of a statement, in either backend: the condition depends on which filters are
  given, not on their values, and the lake's has as many question marks as there are values bound.
\<close>

theorem filters_bound:
  "fst (lake_where f) = fst (lake_where (blank f)) \<and> fst (ch_where f) = fst (ch_where (blank f)) \<and>
   marks (fst (lake_where f)) = length (snd (lake_where f))"
proof (intro conjI)
  have "map fst (lake_clauses f) = map fst (lake_clauses (blank f))"
    by (simp add: lake_clauses_def blank_def fst_when_set fst_when_text)
  then show "fst (lake_where f) = fst (lake_where (blank f))" by (simp add: lake_where_def)
  have "map fst (ch_clauses f) = map fst (ch_clauses (blank f))"
    by (simp add: ch_clauses_def blank_def fst_when_set fst_when_text)
  then show "fst (ch_where f) = fst (ch_where (blank f))" by (simp add: ch_where_def)
  have "sum_list (map marks (map fst cs)) = length (concat (map snd cs))" if "list_all (\<lambda>(c, ps). marks c = length ps) cs" for cs :: "(string \<times> pyval list) list"
    using that by (induction cs) auto
  moreover have "marks '' AND '' = 0" "marks ''WHERE '' = 0" by simp_all
  ultimately show "marks (fst (lake_where f)) = length (snd (lake_where f))"
    using lake_clauses_marked [of f] by (auto simp: lake_where_def where_text_def marks_join)
qed

section \<open>What the routes lose\<close>

text \<open>
  A row of the ClickHouse table has the core columns alone: \<^verbatim>\<open>metadata.log_version\<close> is none of them, so the lineage of
  an event never names its mapping version there, though the mapping wrote one.
\<close>

lemma clickhouse_row_lacks_version: "ch_row n = Inr row \<Longrightarrow> py_get row ''metadata.log_version'' = PNone"
  by (auto simp: ch_row_def core_row_def bind_res_Inr_iff Let_def py_get_def dict_simps split: if_splits)

text \<open>Its \<^verbatim>\<open>unmapped\<close> is text, which the event route hands out as text.\<close>

lemma clickhouse_unmapped_stays_text:
  "unflatten [(''event_uid'', PStr ''u''), (''unmapped'', compact_json (PDict [(''a'', PInt 1)]))] =
   Inr [(''event_uid'', PStr ''u''), (''unmapped'', PStr (json_dumps (PDict [(''a'', PInt 1)])))]"
  by code_simp

text \<open>A list is stored as JSON text under its own name, and comes back as that text.\<close>

lemma list_comes_back_as_text:
  "unflatten (record_columns [(''tags'', PList [PInt 1, PInt 2])]) = Inr [(''tags'', PStr ''[1,2]'')]"
  by code_simp

text \<open>ClickHouse quotes 64-bit counts unless told not to; a quoted count ends the summary, while the list route reads it.\<close>

lemma quoted_count_ends_summary: "sum_from 0 [[(''source_type'', PStr ''fw''), (''events'', PStr ''5'')]] = Inl (Api_Raises (TypeError ''unsupported operand''))"
  by code_simp

end
