(* ===== verification/Dlq_Replay.thy ===== *)
theory Dlq_Replay
  imports Reprocess Events_Api
begin

text \<open>
  Working through the dead letters: the commands of \<^verbatim>\<open>ulpf/cli/dlq.py\<close> and the routes of \<^verbatim>\<open>ulpf/api/routes/dlq.py\<close>.
  A replay takes the letters that are not resolved, oldest first, runs each through the stages and the sinks, and marks those
  that came through. The stages and the sinks write new letters into the same queue while it is being read. As in
  \<open>Reprocess\<close> the sink manager is the started one, and \<open>clock\<close> is the time at each letter.
\<close>

section \<open>State and report\<close>

record replay_report =
  rr_reason :: "string option"
  rr_since :: "string option"
  rr_dry_run :: bool
  rr_candidates :: nat
  rr_succeeded :: nat
  rr_still_failing :: nat
  rr_written :: nat

definition new_replay_report :: "string option \<Rightarrow> string option \<Rightarrow> bool \<Rightarrow> replay_report" where
  "new_replay_report reason since dry =
     \<lparr>rr_reason = reason, rr_since = since, rr_dry_run = dry, rr_candidates = 0, rr_succeeded = 0, rr_still_failing = 0, rr_written = 0\<rparr>"

record ('t, 's) replay_state =
  ry_queue :: dlq
  ry_stages :: "'t normalize_state"
  ry_pool :: worker_pool
  ry_store :: raw_store
  ry_sinks :: "'s sink_manager option"

text \<open>The stages write to the queue itself, or to a throw-away one in a dry run.\<close>

definition lend_queue :: "bool \<Rightarrow> ('t, 's) replay_state \<Rightarrow> 't normalize_state" where
  "lend_queue dry s = (if dry then ry_stages s else (ry_stages s)\<lparr>ns_dlq := ry_queue s\<rparr>)"

definition return_queue :: "bool \<Rightarrow> 't normalize_state \<Rightarrow> ('t, 's) replay_state \<Rightarrow> ('t, 's) replay_state" where
  "return_queue dry st s = s\<lparr>ry_stages := st, ry_queue := (if dry then ry_queue s else ns_dlq st)\<rparr>"

section \<open>One letter\<close>

text \<open>The stored event if there is one, else the bytes of the letter.\<close>

definition raw_event_for :: "dead_letter \<Rightarrow> raw_store \<Rightarrow> raw_event res \<times> raw_store" where
  "raw_event_for l store =
     (case rs_read_by_uid 0 (dl_event_uid l) store of
        (Inl x, store1) \<Rightarrow> (Inl x, store1)
      | (Inr (Some e), store1) \<Rightarrow> (Inr e, store1)
      | (Inr None, store1) \<Rightarrow>
          (Inr \<lparr>event_uid = dl_event_uid l, raw = dl_raw l, raw_hash = dl_raw_hash l, raw_len = int (length (dl_raw l)),
                ingest_time_ns = dl_ts_ns l, source_id = ''dlq-replay'', transport = File, peer = None\<rparr>, store1))"

definition replay_one ::
  "'t reprocess_env \<Rightarrow> int \<Rightarrow> bool \<Rightarrow> dead_letter \<Rightarrow> ('t, 's) replay_state \<Rightarrow> normalized_event option res \<times> ('t, 's) replay_state" where
  "replay_one env now dry l s =
     (case raw_event_for l (ry_store s) of
        (Inl x, store) \<Rightarrow> (Inl x, s\<lparr>ry_store := store\<rparr>)
      | (Inr e, store) \<Rightarrow>
          (let s1 = s\<lparr>ry_store := store\<rparr> in
           case fst (coordinator_parse (ne_engines (re_stages env)) [] e None) of
             Inl x \<Rightarrow> (Inl x, s1)
           | Inr parsed \<Rightarrow>
               (case normalize_process (re_stages env) now parsed (lend_queue dry s1) of
                  (Inl x, st) \<Rightarrow> (Inl x, return_queue dry st s1)
                | (Inr None, st) \<Rightarrow> (Inr None, return_queue dry st s1)
                | (Inr (Some n), st) \<Rightarrow>
                    (let s2 = return_queue dry st s1 in
                     case enrich_process (re_enabled env) (re_chain env) n (ry_pool s2) of
                       (Inl x, p) \<Rightarrow> (Inl x, s2\<lparr>ry_pool := p\<rparr>)
                     | (Inr m, p) \<Rightarrow>
                         (let s3 = s2\<lparr>ry_pool := p\<rparr> in
                          case validate_process (re_stages env) now m (lend_queue dry s3) of
                            (r, st1) \<Rightarrow> (r, return_queue dry st1 s3))))))"

text \<open>Whether the sinks took the event; without sinks it is not written.\<close>

definition deliver_replayed :: "dl_enc \<Rightarrow> int \<Rightarrow> normalized_event \<Rightarrow> ('t, 's) replay_state \<Rightarrow> bool res \<times> ('t, 's) replay_state" where
  "deliver_replayed enc now n s =
     (case ry_sinks s of
        None \<Rightarrow> (Inr False, s)
      | Some m \<Rightarrow>
          (case sinks_process enc now n (m\<lparr>sm_dlq := ry_queue s\<rparr>) of
             (r, m1) \<Rightarrow> (map_sum id (\<lambda>taken. taken \<noteq> None) r, s\<lparr>ry_sinks := Some m1, ry_queue := sm_dlq m1\<rparr>)))"

definition resolution_detail :: "dead_letter \<Rightarrow> pydict" where
  "resolution_detail l = [(''original_reason'', PStr (dl_reason l)), (''original_stage'', PStr (dl_stage l))]"

definition replay_letter ::
  "'t reprocess_env \<Rightarrow> (nat \<Rightarrow> int) \<Rightarrow> bool \<Rightarrow> dead_letter \<Rightarrow> replay_report \<Rightarrow> ('t, 's) replay_state \<Rightarrow> replay_report res \<times> ('t, 's) replay_state" where
  "replay_letter env clock dry l r s =
     (let now = clock (rr_candidates r); r1 = r\<lparr>rr_candidates := rr_candidates r + 1\<rparr> in
      case replay_one env now dry l s of
        (Inl x, s1) \<Rightarrow> (Inl x, s1)
      | (Inr None, s1) \<Rightarrow> (Inr (r1\<lparr>rr_still_failing := rr_still_failing r1 + 1\<rparr>), s1)
      | (Inr (Some n), s1) \<Rightarrow>
          (let r2 = r1\<lparr>rr_succeeded := rr_succeeded r1 + 1\<rparr> in
           case deliver_replayed (ne_enc (re_stages env)) now n s1 of
             (Inl x, s2) \<Rightarrow> (Inl x, s2)
           | (Inr taken, s2) \<Rightarrow>
               (Inr (if taken then r2\<lparr>rr_written := rr_written r2 + 1\<rparr> else r2),
                if dry then s2 else s2\<lparr>ry_queue := mark_resolved now (dl_event_uid l) (Some (resolution_detail l)) (ry_queue s2)\<rparr>)))"

section \<open>A run\<close>

text \<open>The generator decodes a line when it is reached, and reads a file when it is reached.\<close>

fun replay_lines ::
  "'t reprocess_env \<Rightarrow> dl_dec \<Rightarrow> (nat \<Rightarrow> int) \<Rightarrow> bool \<Rightarrow> (dead_letter \<Rightarrow> bool) \<Rightarrow> string list \<Rightarrow> replay_report \<Rightarrow> ('t, 's) replay_state
     \<Rightarrow> replay_report res \<times> ('t, 's) replay_state" where
  "replay_lines env dec clock dry chosen [] r s = (Inr r, s)"
| "replay_lines env dec clock dry chosen (t # ts) r s =
     (case decode_letter dec t of
        Inl x \<Rightarrow> (Inl x, s)
      | Inr l \<Rightarrow>
          if chosen l
          then (case replay_letter env clock dry l r s of
                  (Inl x, s1) \<Rightarrow> (Inl x, s1)
                | (Inr r1, s1) \<Rightarrow> replay_lines env dec clock dry chosen ts r1 s1)
          else replay_lines env dec clock dry chosen ts r s)"

fun replay_days ::
  "'t reprocess_env \<Rightarrow> dl_dec \<Rightarrow> (nat \<Rightarrow> int) \<Rightarrow> bool \<Rightarrow> (dead_letter \<Rightarrow> bool) \<Rightarrow> string list \<Rightarrow> replay_report \<Rightarrow> ('t, 's) replay_state
     \<Rightarrow> replay_report res \<times> ('t, 's) replay_state" where
  "replay_days env dec clock dry chosen [] r s = (Inr r, s)"
| "replay_days env dec clock dry chosen (d # ds) r s =
     (case replay_lines env dec clock dry chosen (nonblank_lines (dq_text (ry_queue s) d)) r s of
        (Inl x, s1) \<Rightarrow> (Inl x, s1)
      | (Inr r1, s1) \<Rightarrow> replay_days env dec clock dry chosen ds r1 s1)"

text \<open>
  \<^verbatim>\<open>--since\<close>: \<open>fromiso\<close> is \<^verbatim>\<open>datetime.fromisoformat\<close>, and \<open>scale\<close> gives \<^verbatim>\<open>int(timestamp * 1e9)\<close>, whose double arithmetic is exact
  for whole seconds only, from the microseconds.
\<close>

definition parse_since :: "(string \<Rightarrow> datetime res) \<Rightarrow> (int \<Rightarrow> int) \<Rightarrow> string option \<Rightarrow> int option res" where
  "parse_since fromiso scale v =
     (case v of
        None \<Rightarrow> Inr None
      | Some t \<Rightarrow>
          (case fromiso t of
             Inl x \<Rightarrow> Inl (if is_value_error x then ValueError (''--since must be YYYY-MM-DD or ISO-8601: '' @ repr_str t) else x)
           | Inr d \<Rightarrow>
               (let a = (if dt_offset d = None then replace_tz utc d else d)
                in Inr (Some (scale (utc_seconds a * 1000000 + dt_micros a))))))"

definition replay_entries ::
  "'t reprocess_env \<Rightarrow> dl_dec \<Rightarrow> (string \<Rightarrow> datetime res) \<Rightarrow> (int \<Rightarrow> int) \<Rightarrow> (nat \<Rightarrow> int) \<Rightarrow> string option \<Rightarrow> string option \<Rightarrow> bool
     \<Rightarrow> ('t, 's) replay_state \<Rightarrow> replay_report res \<times> ('t, 's) replay_state" where
  "replay_entries env dec fromiso scale clock reason since dry s =
     (case bind_res (parse_since fromiso scale since) (\<lambda>ns. bind_res (resolved_event_uids (ry_queue s)) (\<lambda>uids. Inr (ns, uids))) of
        Inl x \<Rightarrow> (Inl x, s)
      | Inr (ns, uids) \<Rightarrow>
          replay_days env dec clock dry (entry_selected reason ns True uids) (dq_dates (ry_queue s)) (new_replay_report reason since dry) s)"

text \<open>Without \<^verbatim>\<open>--dry-run\<close> the sinks are flushed however the run ends.\<close>

definition run_replay ::
  "'t reprocess_env \<Rightarrow> dl_dec \<Rightarrow> (string \<Rightarrow> datetime res) \<Rightarrow> (int \<Rightarrow> int) \<Rightarrow> (nat \<Rightarrow> int) \<Rightarrow> string option \<Rightarrow> string option \<Rightarrow> bool
     \<Rightarrow> ('s sink_handle \<Rightarrow> exn option \<times> 's) \<Rightarrow> 's sink_manager \<Rightarrow> ('t, 's) replay_state \<Rightarrow> replay_report res \<times> ('t, 's) replay_state" where
  "run_replay env dec fromiso scale clock reason since dry close m s =
     (case replay_entries env dec fromiso scale clock reason since dry (s\<lparr>ry_sinks := (if dry then None else Some m)\<rparr>) of
        (r, s1) \<Rightarrow> (r, s1\<lparr>ry_sinks := map_option (\<lambda>m1. snd (sinks_flush close m1)) (ry_sinks s1)\<rparr>))"

section \<open>Looking at letters\<close>

text \<open>\<^verbatim>\<open>islice\<close> stops the generator: what is behind the last letter asked for is not decoded.\<close>

fun first_entries :: "dl_dec \<Rightarrow> (dead_letter \<Rightarrow> bool) \<Rightarrow> nat \<Rightarrow> string list \<Rightarrow> dead_letter list res" where
  "first_entries dec chosen 0 ts = Inr []"
| "first_entries dec chosen (Suc k) [] = Inr []"
| "first_entries dec chosen (Suc k) (t # ts) =
     bind_res (decode_letter dec t) (\<lambda>l.
       if chosen l then bind_res (first_entries dec chosen k ts) (\<lambda>ls. Inr (l # ls)) else first_entries dec chosen (Suc k) ts)"

definition sample_entry :: "dead_letter \<Rightarrow> pyval" where
  "sample_entry l =
     PDict [(''event_uid'', PStr (dl_event_uid l)), (''stage'', PStr (dl_stage l)), (''reason'', PStr (dl_reason l)),
            (''detail'', PDict (dl_detail l)), (''raw'', PStr (decode_utf8 (dl_raw l)))]"

definition dlq_sample :: "dl_dec \<Rightarrow> string \<Rightarrow> int \<Rightarrow> dlq \<Rightarrow> pyval res" where
  "dlq_sample dec reason wanted q =
     bind_res (first_entries dec (entry_selected (Some reason) None False []) (nat (max wanted 0))
                 (concat (map (\<lambda>d. nonblank_lines (dq_text q d)) (dq_dates q))))
       (\<lambda>ls. Inr (PList (map sample_entry ls)))"

record dead_letter_out =
  do_event_uid :: string
  do_raw_hash :: string
  do_reason :: string
  do_stage :: string
  do_ts_ns :: int
  do_detail :: pydict
  do_raw_preview :: string
  do_raw_truncated :: bool
  do_resolved :: bool

definition raw_preview_chars :: nat where
  "raw_preview_chars = 300"

definition letter_out :: "pyval list \<Rightarrow> dead_letter \<Rightarrow> dead_letter_out" where
  "letter_out uids l =
     (let t = decode_utf8 (dl_raw l)
      in \<lparr>do_event_uid = dl_event_uid l, do_raw_hash = dl_raw_hash l, do_reason = dl_reason l, do_stage = dl_stage l, do_ts_ns = dl_ts_ns l,
          do_detail = dl_detail l, do_raw_preview = take raw_preview_chars t, do_raw_truncated = (raw_preview_chars < length t),
          do_resolved = is_resolved uids l\<rparr>)"

definition list_page :: "dl_dec \<Rightarrow> nat \<Rightarrow> nat \<Rightarrow> string option \<Rightarrow> string option \<Rightarrow> bool \<Rightarrow> dlq \<Rightarrow> (dead_letter_out list \<times> nat) res" where
  "list_page dec page page_size reason stage unresolved_only q =
     bind_res (resolved_event_uids q) (\<lambda>uids.
     bind_res (dlq_iter_entries dec reason None unresolved_only q) (\<lambda>ls.
       let entries = rev (case stage of None \<Rightarrow> ls | Some x \<Rightarrow> filter (\<lambda>l. dl_stage l = x) ls)
       in Inr (map (letter_out uids) (take page_size (drop ((page - 1) * page_size) entries)), length entries)))"

definition list_dead_letters ::
  "dl_dec \<Rightarrow> int \<Rightarrow> int \<Rightarrow> string option \<Rightarrow> string option \<Rightarrow> bool \<Rightarrow> dlq \<Rightarrow> (dead_letter_out list \<times> nat) api" where
  "list_dead_letters dec page page_size reason stage unresolved_only q =
     (if page < 1 \<or> page_size < 1 \<or> max_page_size < page_size then Inl (Api_Status 422)
      else api_res (list_page dec (nat page) (nat page_size) reason stage unresolved_only q))"

section \<open>The queue only grows\<close>

definition resolved_text :: "dlq \<Rightarrow> string" where
  "resolved_text q = (case dq_resolved q of None \<Rightarrow> [] | Some t \<Rightarrow> t)"

text \<open>Every file of the later queue begins with what it held.\<close>

definition grows :: "dlq \<Rightarrow> dlq \<Rightarrow> bool" where
  "grows q q' \<longleftrightarrow> (\<forall>d. take (length (dq_text q d)) (dq_text q' d) = dq_text q d)
     \<and> take (length (resolved_text q)) (resolved_text q') = resolved_text q"

lemma take_prefix: "take (length a) b = a \<longleftrightarrow> (\<exists>u. b = a @ u)"
  by (metis append_eq_conv_conj append_take_drop_id)

lemma grows_iff: "grows q q' \<longleftrightarrow> (\<forall>d. \<exists>u. dq_text q' d = dq_text q d @ u) \<and> (\<exists>u. resolved_text q' = resolved_text q @ u)"
  by (simp add: grows_def take_prefix)

lemma grows_refl [simp]: "grows q q"
  by (simp add: grows_def)

lemma grows_trans [trans]: "grows q q1 \<Longrightarrow> grows q1 q2 \<Longrightarrow> grows q q2"
  unfolding grows_iff by (metis append_assoc)

lemma dlq_write_grows: "dlq_write enc now e reason stage d q = Inr (l, q') \<Longrightarrow> grows q q' \<and> dq_resolved q' = dq_resolved q"
  by (auto simp: dlq_write_def Let_def bind_res_Inr_iff grows_iff dq_text_def resolved_text_def)

lemma mark_resolved_grows: "grows q (mark_resolved now uid d q)"
  by (simp add: grows_iff mark_resolved_def dq_text_def resolved_text_def)

lemma accounted_grows:
  "Normalize_Stage.accounted env now e stage st (r, st1) \<Longrightarrow> grows (ns_dlq st) (ns_dlq st1) \<and> dq_resolved (ns_dlq st1) = dq_resolved (ns_dlq st)"
  using dlq_write_grows by (fastforce simp: Normalize_Stage.accounted_def lettered_def split: sum.splits option.splits)

lemma normalize_grows:
  "normalize_process env now e st = (r, st1) \<Longrightarrow> grows (ns_dlq st) (ns_dlq st1) \<and> dq_resolved (ns_dlq st1) = dq_resolved (ns_dlq st)"
  using accounted_grows normalize_accounted by metis

lemma validate_grows:
  "validate_process env now n st = (r, st1) \<Longrightarrow> grows (ns_dlq st) (ns_dlq st1) \<and> dq_resolved (ns_dlq st1) = dq_resolved (ns_dlq st)"
  using accounted_grows validate_accounts_for_event by metis

lemma sinks_grows:
  "sinks_process enc now n m = (r, m1) \<Longrightarrow> grows (sm_dlq m) (sm_dlq m1) \<and> dq_resolved (sm_dlq m1) = dq_resolved (sm_dlq m)"
  using sinks_outcome [where enc = enc and now = now and n = n and m = m] dlq_write_grows by (fastforce split: sum.splits option.splits)

text \<open>What a step of the run does to the queue: a dry run leaves it alone, and no stage touches the resolutions.\<close>

definition queue_kept :: "bool \<Rightarrow> ('t, 's) replay_state \<Rightarrow> ('t, 's) replay_state \<Rightarrow> bool" where
  "queue_kept dry s s' \<longleftrightarrow> (if dry then ry_queue s' = ry_queue s else grows (ry_queue s) (ry_queue s'))
     \<and> dq_resolved (ry_queue s') = dq_resolved (ry_queue s) \<and> (ry_sinks s' = None) = (ry_sinks s = None)"

lemma queue_kept_refl: "queue_kept dry s s"
  by (simp add: queue_kept_def)

lemma queue_kept_trans: "queue_kept dry s s1 \<Longrightarrow> queue_kept dry s1 s2 \<Longrightarrow> queue_kept dry s s2"
  using grows_trans by (auto simp: queue_kept_def split: if_splits)

lemma queue_kept_return:
  "grows (ns_dlq (lend_queue dry s)) (ns_dlq st) \<and> dq_resolved (ns_dlq st) = dq_resolved (ns_dlq (lend_queue dry s)) \<Longrightarrow>
   queue_kept dry s (return_queue dry st s)"
  by (auto simp: queue_kept_def lend_queue_def return_queue_def)

lemma queue_kept_frame [simp]:
  "queue_kept dry s (s1\<lparr>ry_store := x\<rparr>) = queue_kept dry s s1" "queue_kept dry s (s1\<lparr>ry_pool := p\<rparr>) = queue_kept dry s s1"
  "queue_kept dry (s\<lparr>ry_store := x\<rparr>) s1 = queue_kept dry s s1" "queue_kept dry (s\<lparr>ry_pool := p\<rparr>) s1 = queue_kept dry s s1"
  by (simp_all add: queue_kept_def)

lemma replay_one_kept: "replay_one env now dry l s = (r, s1) \<Longrightarrow> queue_kept dry s s1"
proof -
  assume run: "replay_one env now dry l s = (r, s1)"
  obtain x store where raw: "raw_event_for l (ry_store s) = (x, store)" by fastforce
  let ?s1 = "s\<lparr>ry_store := store\<rparr>"
  show ?thesis
  proof (cases x)
    case (Inl y)
    then show ?thesis using run raw by (auto simp: replay_one_def queue_kept_refl)
  next
    case (Inr e)
    show ?thesis
    proof (cases "fst (coordinator_parse (ne_engines (re_stages env)) [] e None)")
      case (Inl y)
      then show ?thesis using run raw Inr by (auto simp: replay_one_def queue_kept_refl)
    next
      case parsed: (Inr parsed)
      obtain n st where norm: "normalize_process (re_stages env) now parsed (lend_queue dry ?s1) = (n, st)" by fastforce
      have k1: "queue_kept dry s (return_queue dry st ?s1)"
        using queue_kept_return [OF normalize_grows [OF norm]] by simp
      show ?thesis
      proof (cases "\<exists>v. n = Inr (Some v)")
        case False
        then show ?thesis using run raw Inr parsed norm k1 by (cases n) (auto simp: replay_one_def Let_def split: option.splits)
      next
        case True
        then obtain v where v: "n = Inr (Some v)" by blast
        obtain m p where en: "enrich_process (re_enabled env) (re_chain env) v (ry_pool (return_queue dry st ?s1)) = (m, p)" by fastforce
        show ?thesis
        proof (cases m)
          case (Inl y)
          then show ?thesis using run raw \<open>x = Inr e\<close> parsed norm v en k1 by (auto simp: replay_one_def Let_def)
        next
          case m: (Inr w)
          let ?s3 = "(return_queue dry st ?s1)\<lparr>ry_pool := p\<rparr>"
          obtain r' st1 where va: "validate_process (re_stages env) now w (lend_queue dry ?s3) = (r', st1)" by fastforce
          have "queue_kept dry ?s3 (return_queue dry st1 ?s3)" by (rule queue_kept_return [OF validate_grows [OF va]])
          then have "queue_kept dry s (return_queue dry st1 ?s3)" using queue_kept_trans [OF k1] by simp
          then show ?thesis using run raw Inr parsed norm v en m va by (auto simp: replay_one_def Let_def)
        qed
      qed
    qed
  qed
qed

lemma deliver_kept:
  "deliver_replayed enc now n s = (r, s1) \<Longrightarrow> dry \<Longrightarrow> ry_sinks s = None \<Longrightarrow> s1 = s \<and> r = Inr False"
  "deliver_replayed enc now n s = (r, s1) \<Longrightarrow> queue_kept False s s1"
proof -
  show "deliver_replayed enc now n s = (r, s1) \<Longrightarrow> dry \<Longrightarrow> ry_sinks s = None \<Longrightarrow> s1 = s \<and> r = Inr False"
    by (auto simp: deliver_replayed_def)
  show "deliver_replayed enc now n s = (r, s1) \<Longrightarrow> queue_kept False s s1"
    by (auto simp: deliver_replayed_def queue_kept_def split: option.splits prod.splits dest: sinks_grows)
qed

section \<open>What a run does\<close>

text \<open>
  The invariant of the run from a state on: the counts add up, one resolution was added for each letter that came through,
  and the queue has grown; a dry run has written nothing.
\<close>

definition counts_ok :: "bool \<Rightarrow> replay_report \<Rightarrow> bool" where
  "counts_ok dry r \<longleftrightarrow> rr_candidates r = rr_succeeded r + rr_still_failing r \<and> rr_written r \<le> rr_succeeded r \<and> (if dry then rr_written r = 0 else True)"

definition resolutions :: "('t, 's) replay_state \<Rightarrow> pyval list" where
  "resolutions s = (case resolved_event_uids (ry_queue s) of Inl x \<Rightarrow> [] | Inr uids \<Rightarrow> uids)"

definition readable :: "('t, 's) replay_state \<Rightarrow> bool" where
  "readable s \<longleftrightarrow> resolved_terminated (ry_queue s) \<and> (case resolved_event_uids (ry_queue s) of Inl x \<Rightarrow> False | Inr uids \<Rightarrow> True)"

definition run_ok :: "bool \<Rightarrow> ('t, 's) replay_state \<Rightarrow> replay_report \<Rightarrow> ('t, 's) replay_state \<Rightarrow> replay_report \<Rightarrow> bool" where
  "run_ok dry s r s' r' \<longleftrightarrow> readable s' \<and> (ry_sinks s' = None) = dry \<and> counts_ok dry r' \<and> rr_succeeded r \<le> rr_succeeded r'
     \<and> (if dry then ry_queue s' = ry_queue s
        else grows (ry_queue s) (ry_queue s')
          \<and> (\<exists>us. resolutions s' = resolutions s @ map PStr us \<and> length us = rr_succeeded r' - rr_succeeded r))"

lemma run_ok_trans: "run_ok dry s r s1 r1 \<Longrightarrow> run_ok dry s1 r1 s2 r2 \<Longrightarrow> run_ok dry s r s2 r2"
  unfolding run_ok_def using grows_trans
  by (auto split: if_splits) (metis append_assoc length_append map_append Nat.add_diff_assoc2 add.commute add_diff_cancel_left' le_add_diff_inverse)

lemma kept_readable:
  "queue_kept dry s s1 \<Longrightarrow> readable s1 = readable s \<and> resolutions s1 = resolutions s"
  by (simp add: queue_kept_def readable_def resolutions_def resolved_terminated_def resolved_event_uids_def)

lemma resolution_detail_json: "json_ok (PDict (case Some (resolution_detail l) of None \<Rightarrow> [] | Some d \<Rightarrow> d))"
  by (simp add: resolution_detail_def dict_ok_def)

lemma marked_readable:
  assumes "readable s"
  shows "readable (s\<lparr>ry_queue := mark_resolved now uid (Some (resolution_detail l)) (ry_queue s)\<rparr>)"
    "resolutions (s\<lparr>ry_queue := mark_resolved now uid (Some (resolution_detail l)) (ry_queue s)\<rparr>) = resolutions s @ [PStr uid]"
proof -
  obtain uids where u: "resolved_event_uids (ry_queue s) = Inr uids" and t: "resolved_terminated (ry_queue s)"
    using assms by (auto simp: readable_def split: sum.splits)
  have "resolved_event_uids (mark_resolved now uid (Some (resolution_detail l)) (ry_queue s)) = Inr (uids @ [PStr uid])
      \<and> resolved_terminated (mark_resolved now uid (Some (resolution_detail l)) (ry_queue s))"
    by (rule marked_uids [OF t u resolution_detail_json])
  then show "readable (s\<lparr>ry_queue := mark_resolved now uid (Some (resolution_detail l)) (ry_queue s)\<rparr>)"
    "resolutions (s\<lparr>ry_queue := mark_resolved now uid (Some (resolution_detail l)) (ry_queue s)\<rparr>) = resolutions s @ [PStr uid]"
    using u by (simp_all add: readable_def resolutions_def)
qed

lemma replay_letter_ok:
  assumes run: "replay_letter env clock dry l r s = (q, s1)" and s: "readable s" "(ry_sinks s = None) = dry" and c: "counts_ok dry r"
  shows "case q of Inl x \<Rightarrow> queue_kept dry s s1 | Inr r1 \<Rightarrow> run_ok dry s r s1 r1 \<and> rr_candidates r1 = rr_candidates r + 1"
proof -
  obtain o1 s2 where one: "replay_one env (clock (rr_candidates r)) dry l s = (o1, s2)" by fastforce
  have k: "queue_kept dry s s2" by (rule replay_one_kept [OF one])
  have keep: "readable s2" "resolutions s2 = resolutions s" "(ry_sinks s2 = None) = dry"
    using kept_readable [OF k] s k by (auto simp: queue_kept_def)
  show ?thesis
  proof (cases "\<exists>n. o1 = Inr (Some n)")
    case False
    then show ?thesis
      using run one k c keep s
      by (cases o1) (auto simp: replay_letter_def Let_def run_ok_def counts_ok_def queue_kept_def split: if_splits)
  next
    case True
    then obtain n where n: "o1 = Inr (Some n)" by blast
    obtain taken s3 where del: "deliver_replayed (ne_enc (re_stages env)) (clock (rr_candidates r)) n s2 = (taken, s3)" by fastforce
    show ?thesis
    proof (cases dry)
      case True
      then have "s3 = s2 \<and> taken = Inr False" using deliver_kept(1) [OF del] keep(3) by blast
      then show ?thesis using run one n del True k c keep by (auto simp: replay_letter_def Let_def run_ok_def counts_ok_def queue_kept_def)
    next
      case False
      note k3 = deliver_kept(2) [OF del]
      have kk: "queue_kept False s s3" using queue_kept_trans [of False s s2 s3] k k3 False by simp
      show ?thesis
      proof (cases taken)
        case (Inl x)
        then show ?thesis using run one n del kk False by (auto simp: replay_letter_def Let_def)
      next
        case (Inr b)
        note r3 = kept_readable [OF kk]
        let ?s4 = "s3\<lparr>ry_queue := mark_resolved (clock (rr_candidates r)) (dl_event_uid l) (Some (resolution_detail l)) (ry_queue s3)\<rparr>"
        have m: "readable ?s4" "resolutions ?s4 = resolutions s @ map PStr [dl_event_uid l]"
          using marked_readable [of s3] r3 s by simp_all
        have "grows (ry_queue s) (ry_queue ?s4)"
          using kk mark_resolved_grows grows_trans by (fastforce simp: queue_kept_def)
        moreover have "ry_sinks ?s4 \<noteq> None" using kk s False by (simp add: queue_kept_def)
        moreover have "q = Inr (if b then r\<lparr>rr_candidates := rr_candidates r + 1, rr_succeeded := rr_succeeded r + 1, rr_written := rr_written r + 1\<rparr>
             else r\<lparr>rr_candidates := rr_candidates r + 1, rr_succeeded := rr_succeeded r + 1\<rparr>)" "s1 = ?s4"
          using run one n del Inr False by (auto simp: replay_letter_def Let_def)
        ultimately show ?thesis
          using m False c by (auto simp: run_ok_def counts_ok_def intro: exI [of _ "[dl_event_uid l]"])
      qed
    qed
  qed
qed

definition queue_grown :: "bool \<Rightarrow> ('t, 's) replay_state \<Rightarrow> ('t, 's) replay_state \<Rightarrow> bool" where
  "queue_grown dry s s' \<longleftrightarrow> (if dry then ry_queue s' = ry_queue s else grows (ry_queue s) (ry_queue s'))"

lemma queue_grown_trans: "queue_grown dry s s1 \<Longrightarrow> queue_grown dry s1 s2 \<Longrightarrow> queue_grown dry s s2"
  using grows_trans by (auto simp: queue_grown_def split: if_splits)

lemma queue_grown_ends:
  "queue_kept dry s s1 \<Longrightarrow> queue_grown dry s s1" "run_ok dry s r s1 r1 \<Longrightarrow> queue_grown dry s s1"
  by (auto simp: queue_kept_def run_ok_def queue_grown_def)

definition part_ok :: "bool \<Rightarrow> ('t, 's) replay_state \<Rightarrow> replay_report \<Rightarrow> replay_report res \<times> ('t, 's) replay_state \<Rightarrow> bool" where
  "part_ok dry s r result = (case result of (q, s1) \<Rightarrow>
     case q of Inl x \<Rightarrow> queue_grown dry s s1 | Inr r1 \<Rightarrow> run_ok dry s r s1 r1)"

lemma run_ok_refl: "readable s \<Longrightarrow> (ry_sinks s = None) = dry \<Longrightarrow> counts_ok dry r \<Longrightarrow> run_ok dry s r s r"
  by (simp add: run_ok_def)

lemma run_ok_start: "run_ok dry s r s1 r1 \<Longrightarrow> readable s1 \<and> (ry_sinks s1 = None) = dry \<and> counts_ok dry r1"
  by (simp add: run_ok_def)

lemma part_ok_step:
  assumes "run_ok dry s r s1 r1" "part_ok dry s1 r1 result"
  shows "part_ok dry s r result"
  using assms run_ok_trans [OF assms(1)] queue_grown_trans [OF queue_grown_ends(2) [OF assms(1)]]
  by (auto simp: part_ok_def split: sum.splits)

lemma replay_lines_ok:
  "readable s \<Longrightarrow> (ry_sinks s = None) = dry \<Longrightarrow> counts_ok dry r \<Longrightarrow> part_ok dry s r (replay_lines env dec clock dry chosen ts r s)"
proof (induction ts arbitrary: r s)
  case Nil
  then show ?case by (simp add: part_ok_def run_ok_refl)
next
  case (Cons t ts)
  show ?case
  proof (cases "decode_letter dec t")
    case (Inl x)
    then show ?thesis by (simp add: part_ok_def queue_grown_def)
  next
    case (Inr l)
    show ?thesis
    proof (cases "chosen l")
      case False
      then show ?thesis using Inr Cons by simp
    next
      case True
      obtain q s1 where one: "replay_letter env clock dry l r s = (q, s1)" by fastforce
      note ok = replay_letter_ok [OF one Cons.prems]
      show ?thesis
      proof (cases q)
        case (Inl x)
        then show ?thesis using ok one Inr True queue_grown_ends(1) [of dry s s1] by (simp add: part_ok_def)
      next
        case q: (Inr r1)
        then have r1: "run_ok dry s r s1 r1" using ok by simp
        then have "part_ok dry s1 r1 (replay_lines env dec clock dry chosen ts r1 s1)"
          using Cons.IH run_ok_start [OF r1] by blast
        then show ?thesis using part_ok_step [OF r1] one q Inr True by simp
      qed
    qed
  qed
qed

lemma replay_days_ok:
  "readable s \<Longrightarrow> (ry_sinks s = None) = dry \<Longrightarrow> counts_ok dry r \<Longrightarrow> part_ok dry s r (replay_days env dec clock dry chosen ds r s)"
proof (induction ds arbitrary: r s)
  case Nil
  then show ?case by (simp add: part_ok_def run_ok_refl)
next
  case (Cons d ds)
  obtain q s1 where one: "replay_lines env dec clock dry chosen (nonblank_lines (dq_text (ry_queue s) d)) r s = (q, s1)" by fastforce
  note ok = replay_lines_ok [OF Cons.prems, of env dec clock chosen "nonblank_lines (dq_text (ry_queue s) d)", unfolded one]
  show ?case
  proof (cases q)
    case (Inl x)
    then show ?thesis using ok one by (simp add: part_ok_def)
  next
    case (Inr r1)
    then have r1: "run_ok dry s r s1 r1" using ok by (simp add: part_ok_def)
    then have "part_ok dry s1 r1 (replay_days env dec clock dry chosen ds r1 s1)" using Cons.IH run_ok_start [OF r1] by blast
    then show ?thesis using part_ok_step [OF r1] one Inr by simp
  qed
qed


text \<open>The run is that of an empty store on a queue with one letter, with no source definitions and no sinks.\<close>

definition demo_replay :: "(unit, unit) replay_state" where
  "demo_replay = \<lparr>ry_queue = dlq_write_all demo_enc [demo_letter] empty_dlq, ry_stages = trial_normalize_state,
     ry_pool = new_pool [], ry_store = new_raw_store 1 1 0 [], ry_sinks = None\<rparr>"

definition demo_replay_env :: "unit reprocess_env" where
  "demo_replay_env = \<lparr>re_stages = trial_normalize_env, re_enabled = False, re_chain = None\<rparr>"

definition no_sinks :: "unit sink_manager" where
  "no_sinks = \<lparr>sm_handles = [], sm_dlq = empty_dlq, sm_writes = [], sm_log = []\<rparr>"


section \<open>The event of a letter\<close>

lemma found_uid: "find_record uid ls = Inr (Some r) \<Longrightarrow> py_item r ''event_uid'' = Inr (PStr uid)"
  by (induction ls) (auto simp: bind_res_Inr_iff split: if_splits)

lemma record_uid: "record_to_event r = Inr e \<Longrightarrow> py_item r ''event_uid'' = Inr (PStr uid) \<Longrightarrow> event_uid e = uid"
  by (auto simp: record_to_event_def bind_res_Inr_iff split: pyval.splits)

lemma raw_event_for_uid: "raw_event_for l store = (Inr e, store1) \<Longrightarrow> event_uid e = dl_event_uid l"
  by (auto simp: raw_event_for_def rs_read_by_uid_def Let_def bind_res_Inr_iff dest: found_uid record_uid split: sum.splits option.splits)

section \<open>What goes wrong\<close>

text \<open>
  A required sink refuses the event of a letter: the event gets a new letter, but the run marks its id resolved all the same, so
  that neither letter is ever taken up again though nothing was written.
\<close>

lemma refused_event_marked_resolved:
  assumes one: "replay_one env (clock (rr_candidates r)) False l s = (Inr (Some n), s1)"
    and sinks: "ry_sinks s1 = Some m" "required_failure n m" and d: "date_of (clock (rr_candidates r)) = Inr d" and ok: "readable s1"
  shows "case replay_letter env clock False l r s of (q, s2) \<Rightarrow>
     q = Inr (r\<lparr>rr_candidates := rr_candidates r + 1, rr_succeeded := rr_succeeded r + 1\<rparr>)
     \<and> resolutions s2 = resolutions s1 @ [PStr (dl_event_uid l)]"
proof -
  let ?now = "clock (rr_candidates r)" and ?m = "m\<lparr>sm_dlq := ry_queue s1\<rparr>"
  obtain t m1 where p: "sinks_process (ne_enc (re_stages env)) ?now n ?m = (t, m1)" by fastforce
  have "required_failure n ?m" using sinks(2) by (simp add: required_failure_def)
  then have t: "t = Inr None"
    using sinks_outcome [where enc = "ne_enc (re_stages env)" and now = ?now and n = n and m = ?m] p d
    by (auto split: sum.splits option.splits)
  let ?s3 = "s1\<lparr>ry_sinks := Some m1, ry_queue := sm_dlq m1\<rparr>"
  have del: "deliver_replayed (ne_enc (re_stages env)) ?now n s1 = (Inr False, ?s3)"
    using p t sinks(1) by (simp add: deliver_replayed_def)
  have "readable ?s3 \<and> resolutions ?s3 = resolutions s1" using kept_readable [OF deliver_kept(2) [OF del]] ok by simp
  then show ?thesis using one del marked_readable(2) [of ?s3] by (simp add: replay_letter_def Let_def)
qed

text \<open>
  Which letters are resolved is read once: an event with two letters, such as one that failed in an earlier replay, is taken up, and
  written, twice in the same run.
\<close>

lemma both_letters_taken_up:
  assumes "decode_letter dec t = Inr l" "decode_letter dec t' = Inr l'" "chosen l" "chosen l'" "readable s" "(ry_sinks s = None) = dry" "counts_ok dry r"
  shows "case replay_lines env dec clock dry chosen [t, t'] r s of (q, s1) \<Rightarrow> (case q of Inl x \<Rightarrow> True | Inr r1 \<Rightarrow> rr_candidates r1 = rr_candidates r + 2)"
proof -
  obtain q s1 where one: "replay_letter env clock dry l r s = (q, s1)" by fastforce
  show ?thesis
  proof (cases q)
    case (Inr r1)
    then have r1: "run_ok dry s r s1 r1" "rr_candidates r1 = rr_candidates r + 1" using replay_letter_ok [OF one assms(5-7)] by auto
    obtain q2 s2 where two: "replay_letter env clock dry l' r1 s1 = (q2, s2)" by fastforce
    show ?thesis
      using replay_letter_ok [OF two] run_ok_start [OF r1(1)] assms(1-4) one Inr two r1(2) by (cases q2) auto
  qed (use one assms(1,3) in simp)
qed

section \<open>Pages\<close>

definition selected_letters :: "dl_dec \<Rightarrow> string option \<Rightarrow> string option \<Rightarrow> bool \<Rightarrow> dlq \<Rightarrow> dead_letter list res" where
  "selected_letters dec reason stage unresolved_only q =
     bind_res (dlq_iter_entries dec reason None unresolved_only q) (\<lambda>ls. Inr (filter (\<lambda>l. case stage of None \<Rightarrow> True | Some x \<Rightarrow> dl_stage l = x) ls))"

lemma pages_of_list: "concat (map (\<lambda>p. take k (drop (p * k) xs)) [0..<n]) = take (n * k) xs"
  by (induction n) (simp_all add: take_add [symmetric] add.commute)

lemma list_page_selected:
  "list_page dec page k reason stage unresolved_only q =
     bind_res (resolved_event_uids q) (\<lambda>uids. bind_res (selected_letters dec reason stage unresolved_only q) (\<lambda>ls.
       Inr (map (letter_out uids) (take k (drop ((page - 1) * k) (rev ls))), length ls)))"
  by (cases stage) (auto simp: list_page_def selected_letters_def bind_res_def Let_def split: sum.split)

lemma map_res_pages:
  "map_res (\<lambda>p. Inr (f p)) ps = (Inr (map f ps) :: 'b list res)"
  by (induction ps) simp_all

text \<open>
  The pages of the letters, put together in order, are the letters newest first: none is missing or shown twice, and every
  page has the same total.
\<close>

theorem pages_cover:
  "case map_res (\<lambda>p. list_page dec (p + 1) k reason stage unresolved_only q) [0..<n] of
     Inl x \<Rightarrow> True
   | Inr pages \<Rightarrow>
       (case (resolved_event_uids q, selected_letters dec reason stage unresolved_only q) of
          (Inr uids, Inr ls) \<Rightarrow> concat (map fst pages) = map (letter_out uids) (take (n * k) (rev ls)) \<and> list_all (\<lambda>p. snd p = length ls) pages
        | _ \<Rightarrow> n = 0)"
proof (cases "resolved_event_uids q")
  case (Inl x)
  then show ?thesis by (cases n) (simp_all add: list_page_selected upt_rec [of 0])
next
  case uids: (Inr uids)
  show ?thesis
  proof (cases "selected_letters dec reason stage unresolved_only q")
    case (Inl x)
    then show ?thesis using uids by (cases n) (simp_all add: list_page_selected upt_rec [of 0])
  next
    case (Inr ls)
    have "concat (map (\<lambda>p. map (letter_out uids) (take k (drop (p * k) (rev ls)))) [0..<n]) = map (letter_out uids) (take (n * k) (rev ls))"
      using pages_of_list [of k "rev ls" n] by (metis (no_types, lifting) map_concat map_map comp_apply map_cong)
    then show ?thesis by (simp add: list_page_selected uids Inr map_res_pages comp_def list_all_iff)
  qed
qed

text \<open>
  The event that a letter comes back as is the letter's own: replaying never makes a new id.
\<close>

theorem replayed_event_is_the_letters:
  "case replay_one env now dry l s of (q, s1) \<Rightarrow> (case q of Inr (Some n) \<Rightarrow> n_event_uid n = dl_event_uid l | _ \<Rightarrow> True)"
proof -
  have "n_event_uid n = dl_event_uid l" if run: "replay_one env now dry l s = (Inr (Some n), s1)" for n s1
  proof -
    obtain e store parsed m st p st1 where e: "raw_event_for l (ry_store s) = (Inr e, store)"
      and parsed: "fst (coordinator_parse (ne_engines (re_stages env)) [] e None) = Inr parsed"
      and m: "normalize_process (re_stages env) now parsed st = (Inr (Some m), st1)"
      and n: "enrich_process (re_enabled env) (re_chain env) m (ry_pool s) = (Inr n, p)"
      using run by (auto simp: replay_one_def Let_def return_queue_def split: prod.splits sum.splits option.splits dest: validate_same)
    have "raw_event.truncate parsed = e" using parsed parse_as_truncate by (auto simp: coordinator_parse_def Let_def)
    then have "event_uid parsed = event_uid e" by (auto simp: raw_event.truncate_def)
    moreover have "n_event_uid n = n_event_uid m" using enrich_outcome(2) [OF n] by (metis normalized_event.select_convs(1) normalized_event.surjective normalized_event.update_convs(4,7))
    ultimately show ?thesis using normalize_identity [OF m] raw_event_for_uid [OF e] by simp
  qed
  then show ?thesis by (auto split: prod.split sum.split option.split)
qed

end
