(* ===== verification/Suggestion_Score.thy ===== *)
theory Suggestion_Score
  imports Complex_Main Normalize_Stage Lake_Query
begin

text \<open>
  How well a drafted source definition does on sample lines (\<^verbatim>\<open>ulpf/parse/templates/score.py\<close>), and whether
  \<^verbatim>\<open>ulpf suggest-parser\<close> then writes it (\<^verbatim>\<open>ulpf/cli/suggest_parser.py\<close>). Fractions are kept exact; \<open>rnd\<close> is rounding to
  four places and \<open>pct\<close> the formatting of a fraction as a percentage. The draft itself, a definition with its YAML text, is an argument.
\<close>

section \<open>The tally\<close>

record tally =
  ta_total :: nat
  ta_detect_misses :: nat
  ta_parse_failures :: "string list"
  ta_mapping_failures :: "string list"
  ta_invalid :: "string list"
  ta_scores :: "rat list"
  ta_hits :: "(string \<times> nat) list"

definition new_tally :: "nat \<Rightarrow> string list \<Rightarrow> tally" where
  "new_tally n required =
     \<lparr>ta_total = n, ta_detect_misses = 0, ta_parse_failures = [], ta_mapping_failures = [], ta_invalid = [], ta_scores = [],
      ta_hits = map (\<lambda>p. (p, 0)) (first_occurrences required)\<rparr>"

definition parsed_ok :: "tally \<Rightarrow> nat" where
  "parsed_ok t = length (ta_scores t)"

fun get_nested :: "pyval \<Rightarrow> string list \<Rightarrow> pyval" where
  "get_nested node [] = node"
| "get_nested node (p # ps) =
     (case node of PDict d \<Rightarrow> (case map_of d p of None \<Rightarrow> PNone | Some v \<Rightarrow> get_nested v ps) | _ \<Rightarrow> PNone)"

definition count_hits :: "pydict \<Rightarrow> string list \<Rightarrow> (string \<times> nat) list \<Rightarrow> (string \<times> nat) list" where
  "count_hits rec required hits =
     fold (\<lambda>p h. if is_populated (get_nested (PDict rec) (split_on ''.'' p)) then counter_inc p h else h) required hits"

definition completeness_of :: "validation_result \<Rightarrow> rat" where
  "completeness_of res = of_nat (fst (vr_completeness res)) / of_nat (snd (vr_completeness res))"

definition invalid_text :: "validation_result \<Rightarrow> string" where
  "invalid_text res = (let t = join_with ''; '' (vr_errors res) in if t = [] then ''invalid record'' else t)"

text \<open>What the chain needs from outside: regular expressions, the engines, conversions, the digest.\<close>

record score_env =
  sc_search :: "string \<Rightarrow> string \<Rightarrow> bool"
  sc_engines :: registry
  sc_coerce :: coerce_env
  sc_digest :: digest_fn

definition score_one :: "score_env \<Rightarrow> source_definition \<Rightarrow> string \<Rightarrow> int \<Rightarrow> string \<Rightarrow> tally \<Rightarrow> tally res" where
  "score_one env df uid now line t =
     (if \<not> evaluate_detect (sc_search env) (sd_detect df) line [] then Inr (t\<lparr>ta_detect_misses := ta_detect_misses t + 1\<rparr>)
      else
        (let e = make_raw_event (sc_digest env) uid now (encode_utf8 line) ''score'' File None in
         case parse_for_definition (sc_engines env) (raw e) (sd_parse df) of
           Inl x \<Rightarrow> if is_parse_error x then Inr (t\<lparr>ta_parse_failures := ta_parse_failures t @ [exn_text x]\<rparr>) else Inl x
         | Inr d \<Rightarrow>
             (case bind_res (to_ocsf (sc_coerce env) df d (event_uid e) (raw_hash e)) finalize_record of
                Inl x \<Rightarrow> if is_mapping_error x then Inr (t\<lparr>ta_mapping_failures := ta_mapping_failures t @ [exn_text x]\<rparr>) else Inl x
              | Inr rec \<Rightarrow>
                  bind_res (validate rec) (\<lambda>res.
                    let t1 = t\<lparr>ta_scores := ta_scores t @ [completeness_of res]\<rparr>;
                        t2 = (if vr_valid res then t1 else t1\<lparr>ta_invalid := ta_invalid t1 @ [invalid_text res]\<rparr>)
                    in Inr (t2\<lparr>ta_hits := count_hits rec (sd_required df) (ta_hits t2)\<rparr>)))))"

fun score_lines :: "score_env \<Rightarrow> source_definition \<Rightarrow> (nat \<Rightarrow> string) \<Rightarrow> (nat \<Rightarrow> int) \<Rightarrow> nat \<Rightarrow> string list \<Rightarrow> tally \<Rightarrow> tally res" where
  "score_lines env df uids clock i [] t = Inr t"
| "score_lines env df uids clock i (line # rest) t =
     bind_res (score_one env df (uids i) (clock i) line t) (score_lines env df uids clock (i + 1) rest)"

section \<open>The score\<close>

record suggestion_score =
  su_parse_rate :: rat
  su_completeness :: rat
  su_required_covered :: rat
  su_confidence :: rat
  su_warnings :: "string list"

definition path_fracs :: "tally \<Rightarrow> string list \<Rightarrow> (string \<times> rat) list" where
  "path_fracs t required =
     (let denom = (if parsed_ok t = 0 then 1 else parsed_ok t)
      in map (\<lambda>p. (p, of_nat (counter_get (ta_hits t) p) / of_nat denom)) (first_occurrences required))"

definition count_of :: "nat \<Rightarrow> nat \<Rightarrow> string" where
  "count_of n m = str_of_int (int n) @ ''/'' @ str_of_int (int m)"

definition failure_warning :: "string list \<Rightarrow> nat \<Rightarrow> string \<Rightarrow> string list" where
  "failure_warning failures n what = (case failures of [] \<Rightarrow> [] | x # _ \<Rightarrow> [count_of (length failures) n @ what @ x])"

definition build_warnings :: "(rat \<Rightarrow> string) \<Rightarrow> tally \<Rightarrow> (string \<times> rat) list \<Rightarrow> string list" where
  "build_warnings pct t fracs =
     (if ta_total t = 0 then [''no sample lines provided'']
      else
        (if ta_detect_misses t = 0 then []
         else [count_of (ta_detect_misses t) (ta_total t) @ '' sample line(s) did not match the definition'' @ [quote] @ ''s own '' @
               ''detect rule (they would never reach this parser in production)''])
        @ failure_warning (ta_parse_failures t) (ta_total t) '' sample line(s) failed to parse: ''
        @ failure_warning (ta_mapping_failures t) (ta_total t) '' sample line(s) failed OCSF mapping: ''
        @ failure_warning (ta_invalid t) (parsed_ok t) '' normalized record(s) failed full OCSF validation: ''
        @ map (\<lambda>(p, f). ''required field '' @ repr_str p @ '' populated in only '' @ pct f @ '' of samples'')
            (filter (\<lambda>(p, f). f < 1) (sort_key fst fracs)))"

definition mean :: "rat list \<Rightarrow> rat" where
  "mean xs = sum_list xs / of_nat (length xs)"

definition finish_score :: "(rat \<Rightarrow> rat) \<Rightarrow> (rat \<Rightarrow> string) \<Rightarrow> tally \<Rightarrow> string list \<Rightarrow> suggestion_score" where
  "finish_score rnd pct t required =
     (let parse_rate = (if ta_total t = 0 then 0 else rnd (of_nat (parsed_ok t) / of_nat (ta_total t)));
          complete = (if ta_scores t = [] then 0 else rnd (mean (ta_scores t)));
          fracs = (if required = [] then [] else path_fracs t required);
          covered = (if required = [] then 1 else rnd (mean (map snd fracs)))
      in \<lparr>su_parse_rate = parse_rate, su_completeness = complete, su_required_covered = covered,
          su_confidence = rnd (parse_rate * (complete + covered) / 2), su_warnings = build_warnings pct t fracs\<rparr>)"

definition score_suggestion ::
  "(rat \<Rightarrow> rat) \<Rightarrow> (rat \<Rightarrow> string) \<Rightarrow> score_env \<Rightarrow> (nat \<Rightarrow> string) \<Rightarrow> (nat \<Rightarrow> int) \<Rightarrow> source_definition \<Rightarrow> string list \<Rightarrow> suggestion_score res" where
  "score_suggestion rnd pct env uids clock df lines =
     bind_res (score_lines env df uids clock 0 lines (new_tally (length lines) (sd_required df))) (\<lambda>t.
       Inr (finish_score rnd pct t (sd_required df)))"

definition meets_threshold :: "rat \<Rightarrow> suggestion_score \<Rightarrow> bool" where
  "meets_threshold rate s \<longleftrightarrow> rate \<le> su_parse_rate s"

section \<open>Writing the draft\<close>

text \<open>\<open>pct2\<close> formats with two places.\<close>

definition score_comment_block :: "(rat \<Rightarrow> string) \<Rightarrow> suggestion_score \<Rightarrow> rat \<Rightarrow> string" where
  "score_comment_block pct2 s min_rate =
     join_with [CHR 0x0A]
       ([[], ''# --- score (ulpf.parse.templates.score.score_suggestion) ---'',
         ''# parse_rate:              '' @ pct2 (su_parse_rate s) @ (if su_parse_rate s < min_rate then ''  <- below --min-parse-rate'' else []),
         ''# completeness:            '' @ pct2 (su_completeness s),
         ''# required_fields_covered: '' @ pct2 (su_required_covered s),
         ''# confidence:              '' @ pct2 (su_confidence s)]
        @ map (\<lambda>w. ''#   ! '' @ w) (su_warnings s)) @ [CHR 0x0A]"

datatype draft_outcome = Printed string | Refused | Written string string

definition place_draft :: "(rat \<Rightarrow> string) \<Rightarrow> bool \<Rightarrow> string option \<Rightarrow> bool \<Rightarrow> rat \<Rightarrow> string \<Rightarrow> suggestion_score \<Rightarrow> draft_outcome" where
  "place_draft pct2 dry out force min_rate yaml s =
     (let scored = yaml @ score_comment_block pct2 s min_rate
      in case out of
           None \<Rightarrow> Printed scored
         | Some path \<Rightarrow>
             if dry then Printed scored
             else if \<not> force \<and> \<not> meets_threshold min_rate s then Refused
             else Written path scored)"

section \<open>Every line is accounted for\<close>

definition unit_interval :: "rat \<Rightarrow> bool" where
  "unit_interval x \<longleftrightarrow> 0 \<le> x \<and> x \<le> 1"

definition tally_ok :: "nat \<Rightarrow> string list \<Rightarrow> tally \<Rightarrow> bool" where
  "tally_ok n required t \<longleftrightarrow>
     ta_detect_misses t + length (ta_parse_failures t) + length (ta_mapping_failures t) + parsed_ok t = n
     \<and> length (ta_invalid t) \<le> parsed_ok t \<and> list_all unit_interval (ta_scores t)
     \<and> (if distinct required then list_all (\<lambda>p. counter_get (ta_hits t) p \<le> parsed_ok t) required else True)"

lemma completeness_unit: "validate rec = Inr res \<Longrightarrow> unit_interval (completeness_of res)"
proof -
  assume "validate rec = Inr res"
  then have "fst (vr_completeness res) \<le> snd (vr_completeness res)"
    by (auto simp: validate_def finish_def completeness_def bind_res_Inr_iff Let_def split: option.splits)
  then show ?thesis by (auto simp: unit_interval_def completeness_of_def divide_le_eq_1 zero_le_divide_iff)
qed

lemma count_hits_once: "distinct ps \<Longrightarrow> counter_get (count_hits rec ps h) p \<le> counter_get h p + (if p \<in> set ps then 1 else 0)"
proof (induction ps arbitrary: h)
  case (Cons q ps)
  let ?h = "if is_populated (get_nested (PDict rec) (split_on ''.'' q)) then counter_inc q h else h"
  have "counter_get (count_hits rec ps ?h) p \<le> counter_get ?h p + (if p \<in> set ps then 1 else 0)"
    using Cons by (intro Cons.IH) simp
  moreover have "counter_get ?h p \<le> counter_get h p + (if p = q then 1 else 0)" by (simp add: counter_get_inc)
  moreover have "count_hits rec (q # ps) h = count_hits rec ps ?h" by (simp add: count_hits_def)
  ultimately show ?case using Cons.prems by (auto split: if_splits)
qed (simp add: count_hits_def)

lemma score_one_ok:
  assumes t: "tally_ok n (sd_required df) t" and one: "score_one env df uid now line t = Inr t1"
  shows "tally_ok (Suc n) (sd_required df) t1 \<and> ta_total t1 = ta_total t"
proof (cases "ta_scores t1 = ta_scores t")
  case True
  then show ?thesis
    using one t by (auto simp: score_one_def Let_def tally_ok_def parsed_ok_def bind_res_Inr_iff split: if_splits sum.splits)
next
  case False
  obtain rec res where res: "validate rec = Inr res"
    and t1: "t1 = (let a = t\<lparr>ta_scores := ta_scores t @ [completeness_of res]\<rparr>;
                        b = (if vr_valid res then a else a\<lparr>ta_invalid := ta_invalid a @ [invalid_text res]\<rparr>)
                    in b\<lparr>ta_hits := count_hits rec (sd_required df) (ta_hits b)\<rparr>)"
    using one False by (auto simp: score_one_def Let_def bind_res_Inr_iff split: if_splits sum.splits)
  have hits: "list_all (\<lambda>p. counter_get (count_hits rec (sd_required df) (ta_hits t)) p \<le> Suc (parsed_ok t)) (sd_required df)"
    if d: "distinct (sd_required df)"
  proof -
    have "counter_get (count_hits rec (sd_required df) (ta_hits t)) p \<le> Suc (parsed_ok t)" if "p \<in> set (sd_required df)" for p
      using count_hits_once [OF d, of rec "ta_hits t" p] t d that by (fastforce simp: tally_ok_def list_all_iff)
    then show ?thesis by (simp add: list_all_iff)
  qed
  show ?thesis
    using t completeness_unit [OF res] hits by (auto simp: t1 tally_ok_def parsed_ok_def Let_def)
qed

lemma score_lines_ok:
  "tally_ok n (sd_required df) t \<Longrightarrow> score_lines env df uids clock i lines t = Inr t1 \<Longrightarrow>
   tally_ok (n + length lines) (sd_required df) t1 \<and> ta_total t1 = ta_total t"
proof (induction lines arbitrary: i n t)
  case (Cons line rest)
  obtain t2 where one: "score_one env df (uids i) (clock i) line t = Inr t2" and rest: "score_lines env df uids clock (i + 1) rest t2 = Inr t1"
    using Cons.prems(2) by (auto simp: bind_res_Inr_iff)
  show ?case using Cons.IH [OF _ rest, of "Suc n"] score_one_ok [OF Cons.prems(1) one] by simp
qed simp

lemma new_tally_ok: "tally_ok 0 required (new_tally n required)"
proof -
  have "counter_get (map (\<lambda>p. (p, 0)) ps) q = 0" for ps and q :: string
    by (induction ps) (auto simp: counter_get_def)
  then show ?thesis by (simp add: tally_ok_def new_tally_def parsed_ok_def list_all_iff)
qed

text \<open>
  Scoring loses no sample: every line missed the detection rule, failed to parse, failed to map, or has a completeness
  score, which is a fraction; at most the scored ones are reported invalid.
\<close>

theorem score_accounts_for_lines:
  "case score_lines env df uids clock 0 lines (new_tally (length lines) (sd_required df)) of
     Inl x \<Rightarrow> True
   | Inr t \<Rightarrow> ta_total t = length lines \<and> tally_ok (length lines) (sd_required df) t"
  using score_lines_ok [OF new_tally_ok] by (fastforce simp: new_tally_def split: sum.split)

lemma sum_unit: "list_all unit_interval xs \<Longrightarrow> 0 \<le> sum_list xs \<and> sum_list xs \<le> of_nat (length xs)"
  by (induction xs) (auto simp: unit_interval_def)

lemma mean_unit: "list_all unit_interval xs \<Longrightarrow> unit_interval (mean xs)"
  using sum_unit [of xs] by (auto simp: unit_interval_def mean_def divide_le_eq_1 zero_le_divide_iff)

text \<open>
  C32. With rounding that is monotone and keeps 0 and 1, every figure of a score is between 0 and 1, provided the definition
  names no required path twice.
\<close>

theorem score_bounds:
  assumes "mono rnd" "rnd 0 = 0" "rnd 1 = 1" "distinct (sd_required df)" "score_suggestion rnd pct env uids clock df lines = Inr s"
  shows "list_all unit_interval [su_parse_rate s, su_completeness s, su_required_covered s, su_confidence s]"
proof -
  obtain t where t: "score_lines env df uids clock 0 lines (new_tally (length lines) (sd_required df)) = Inr t"
    and s: "s = finish_score rnd pct t (sd_required df)"
    using assms(5) by (auto simp: score_suggestion_def bind_res_Inr_iff)
  have rnd: "unit_interval (rnd x)" if "unit_interval x" for x
    using that assms(1-3) by (metis monoD unit_interval_def)
  have ok: "ta_total t = length lines" "tally_ok (length lines) (sd_required df) t"
    using score_lines_ok [OF new_tally_ok t] by (simp_all add: new_tally_def)
  have rate: "unit_interval (su_parse_rate s)"
  proof (cases "ta_total t = 0")
    case False
    have "parsed_ok t \<le> ta_total t" using ok by (auto simp: tally_ok_def)
    then show ?thesis using False by (auto simp: s finish_score_def Let_def unit_interval_def divide_le_eq_1 intro!: rnd [unfolded unit_interval_def])
  qed (simp add: s finish_score_def Let_def unit_interval_def)
  have complete: "unit_interval (su_completeness s)"
    using rnd [OF mean_unit [of "ta_scores t"]] ok by (simp add: s finish_score_def Let_def tally_ok_def) (simp add: unit_interval_def)
  have covered: "unit_interval (su_required_covered s)"
  proof (cases "sd_required df = []")
    case False
    have "list_all unit_interval (map snd (path_fracs t (sd_required df)))"
      using ok assms(4)
      by (auto simp: path_fracs_def Let_def list_all_iff tally_ok_def unit_interval_def first_occurrences_def divide_le_eq_1)
    then show ?thesis using rnd [OF mean_unit] False by (simp add: s finish_score_def Let_def)
  qed (simp add: s finish_score_def Let_def unit_interval_def)
  have "unit_interval (su_parse_rate s * (su_completeness s + su_required_covered s) / 2)"
  proof -
    have "su_parse_rate s * (su_completeness s + su_required_covered s) \<le> 1 * 2"
      using rate complete covered by (intro mult_mono) (auto simp: unit_interval_def)
    then show ?thesis using rate complete covered by (simp add: unit_interval_def)
  qed
  then have "unit_interval (su_confidence s)" using rnd by (simp add: s finish_score_def Let_def)
  then show ?thesis using rate complete covered by simp
qed

definition demo_score_env :: score_env where
  "demo_score_env = \<lparr>sc_search = \<lambda>_ _. False, sc_engines = [], sc_coerce = trial_env, sc_digest = \<lambda>b. b\<rparr>"

definition demo_score :: "suggestion_score res" where
  "demo_score = score_suggestion (\<lambda>x. x) (\<lambda>x. ''?'') demo_score_env (\<lambda>i. ''u'') int (demo_definition ''fw'') [''x'', ''fw y'']"

lemma demo_score_some: "\<exists>s. demo_score = Inr s"
proof -
  have sub: "\<not> contains_sub ''fw'' ''x''" "contains_sub ''fw'' ''fw y''" by code_simp+
  have miss: "score_one demo_score_env (demo_definition ''fw'') u now ''x'' t = Inr (t\<lparr>ta_detect_misses := ta_detect_misses t + 1\<rparr>)" for u now t
    by (simp add: score_one_def demo_definition_def demo_rule_def evaluate_detect.simps sub)
  have parse: "\<exists>t'. score_one demo_score_env (demo_definition ''fw'') u now ''fw y'' t = Inr t'" for u now t
    by (simp add: score_one_def demo_definition_def demo_rule_def evaluate_detect.simps sub demo_score_env_def
        parse_for_definition_def get_engine_def is_parse_error_def Let_def case_prod_unfold)
  let ?t = "(new_tally 2 (sd_required (demo_definition ''fw'')))"
  obtain t' where "score_one demo_score_env (demo_definition ''fw'') ''u'' 1 ''fw y'' (?t\<lparr>ta_detect_misses := ta_detect_misses ?t + 1\<rparr>) = Inr t'"
    using parse by blast
  then have "score_lines demo_score_env (demo_definition ''fw'') (\<lambda>i. ''u'') int 0 [''x'', ''fw y''] ?t = Inr t'" by (simp add: miss)
  then show ?thesis by (simp add: demo_score_def score_suggestion_def numeral_2_eq_2)
qed

theorem score_bounds_witness:
  "\<exists>s. demo_score = Inr s \<and> list_all unit_interval [su_parse_rate s, su_completeness s, su_required_covered s, su_confidence s]"
proof -
  obtain s where s: "demo_score = Inr s" using demo_score_some by blast
  have "list_all unit_interval [su_parse_rate s, su_completeness s, su_required_covered s, su_confidence s]"
    by (rule score_bounds [OF _ _ _ _ s [unfolded demo_score_def]]) (simp_all add: mono_def demo_definition_def)
  then show ?thesis using s by blast
qed

section \<open>Where the score misleads\<close>

text \<open>
  Detection is scored with no fields: a definition that is detected by the value of a field misses every sample, though it
  would match in production.
\<close>

lemma field_rule_always_misses:
  assumes "sd_detect df = Rule None None None None None (Some (name, v)) None"
  shows "score_one env df uid now line t = Inr (t\<lparr>ta_detect_misses := ta_detect_misses t + 1\<rparr>)"
  using assms by (simp add: score_one_def evaluate_detect.simps field_equals_def)

text \<open>The same rule in production.\<close>

lemma field_rule_matches:
  "evaluate_detect search (Rule None None None None None (Some (''vendor'', PStr ''acme'')) None) line [(''vendor'', PStr ''acme'')]"
  by (simp add: evaluate_detect.simps field_equals_def)

text \<open>A required path that is named twice is counted twice for a record: it is covered to 200 percent.\<close>

lemma repeated_path_counts_twice:
  "count_hits [(''time'', PInt 1)] [''time'', ''time''] [(''time'', 0)] = [(''time'', 2)]"
  "su_required_covered (finish_score (\<lambda>x. x) pct \<lparr>ta_total = 1, ta_detect_misses = 0, ta_parse_failures = [], ta_mapping_failures = [],
     ta_invalid = [], ta_scores = [1], ta_hits = [(''time'', 2)]\<rparr> [''time'', ''time'']) = 2"
proof -
  have split: "split_on ''.'' ''time'' = [''time'']" by (rule split_on_single_none) simp
  show "count_hits [(''time'', PInt 1)] [''time'', ''time''] [(''time'', 0)] = [(''time'', 2)]"
    by (simp add: count_hits_def split is_populated_def counter_inc_def counter_get_def)
  show "su_required_covered (finish_score (\<lambda>x. x) pct \<lparr>ta_total = 1, ta_detect_misses = 0, ta_parse_failures = [], ta_mapping_failures = [],
     ta_invalid = [], ta_scores = [1], ta_hits = [(''time'', 2)]\<rparr> [''time'', ''time'']) = 2"
    by (simp add: finish_score_def Let_def path_fracs_def first_occurrences_def parsed_ok_def mean_def counter_get_def)
qed

end
