(* ===== verification/Field_Inference.thy ===== *)
theory Field_Inference
  imports Suggestion_Score Parquet_Sink Validator Ip_Address Py_Time
begin

text \<open>
  What the wildcards of a mined template mean (\<^verbatim>\<open>ulpf/parse/templates/inference.py\<close>): rules over the values seen at each
  position, then rules over its neighbours. Fractions are kept exact, \<open>rnd\<close> is rounding to two places. The library parsers
  behind \<^verbatim>\<open>parse_timestamp\<close> are those of \<open>time_env\<close>.
\<close>

section \<open>Templates\<close>

text \<open>\<^verbatim>\<open><([^>]*)>\<close>: the text before each mark, since the mark before, with what is inside it.\<close>

function mask_marks :: "string \<Rightarrow> string \<Rightarrow> (string \<times> string) list" where
  "mask_marks before [] = []"
| "mask_marks before (c # cs) =
     (if c = CHR ''<'' \<and> CHR ''>'' \<in> set cs
      then (rev before, takeWhile (\<lambda>x. x \<noteq> CHR ''>'') cs) # mask_marks [] (tl (dropWhile (\<lambda>x. x \<noteq> CHR ''>'') cs))
      else mask_marks (c # before) cs)"
  by pat_completeness auto
termination
  by (relation "measure (\<lambda>(before, s). length s)") (auto simp: less_Suc_eq_le intro: le_trans [OF diff_le_self length_dropWhile_le])

text \<open>The non-blank values of a column, each the text of its cell.\<close>

definition column_values :: "pyval list list \<Rightarrow> nat \<Rightarrow> string list" where
  "column_values rows i =
     filter (\<lambda>v. py_strip v \<noteq> [])
       (map (\<lambda>row. if row ! i = PNone then [] else py_str (row ! i)) (filter (\<lambda>row. i < length row) rows))"

section \<open>Values\<close>

definition fraction :: "string list \<Rightarrow> (string \<Rightarrow> bool) \<Rightarrow> rat" where
  "fraction vs P = (if vs = [] then 0 else of_nat (length (filter P vs)) / of_nat (length vs))"

definition is_ip_value :: "string \<Rightarrow> bool" where
  "is_ip_value v =
     (let t = py_strip v in
      if CHR ''.'' \<notin> set t \<and> CHR '':'' \<notin> set t then False else case ip_address t of Inl _ \<Rightarrow> False | Inr _ \<Rightarrow> True)"

definition is_uint :: "string \<Rightarrow> bool" where
  "is_uint v \<longleftrightarrow> (let t = py_strip v in t \<noteq> [] \<and> list_all is_digit t)"

text \<open>\<^verbatim>\<open>int(v)\<close> for a text of digits; the superscript digits pass \<^verbatim>\<open>isdigit\<close> but are no number.\<close>

definition uint_of :: "string \<Rightarrow> int res" where
  "uint_of v = py_int (PStr v)"

definition is_port_int :: "string \<Rightarrow> bool res" where
  "is_port_int v = (if is_uint v then bind_res (uint_of v) (\<lambda>n. Inr (0 \<le> n \<and> n \<le> 65535)) else Inr False)"

definition action_words :: "string list" where
  "action_words = [''allow'', ''allowed'', ''deny'', ''denied'', ''accept'', ''accepted'', ''drop'', ''dropped'', ''block'', ''blocked'',
     ''permit'', ''permitted'', ''reject'', ''rejected'', ''pass'', ''passed'']"

definition is_action :: "string \<Rightarrow> bool" where
  "is_action v \<longleftrightarrow> py_lower (rstrip_by (\<lambda>c. c = quote \<or> c = double_quote) (lstrip_by (\<lambda>c. c = quote \<or> c = double_quote) (py_strip v))) \<in> set action_words"

definition unreadable_time :: "exn \<Rightarrow> bool" where
  "unreadable_time x = (case x of ParseError _ _ \<Rightarrow> True | ValueError _ \<Rightarrow> True | TypeError _ \<Rightarrow> True | OverflowError _ \<Rightarrow> True | _ \<Rightarrow> False)"

definition is_timestamp :: "time_env \<Rightarrow> string \<Rightarrow> string \<Rightarrow> bool res" where
  "is_timestamp env v tag =
     (let t = py_strip v in
      if t \<noteq> [] \<and> list_all is_digit t \<and> sql_upper tag \<noteq> ''TIMESTAMP'' then Inr False
      else case parse_timestamp env False t None None None of
             Inr _ \<Rightarrow> Inr True
           | Inl x \<Rightarrow> if unreadable_time x then Inr False else Inl x)"

definition fraction_res :: "string list \<Rightarrow> (string \<Rightarrow> bool res) \<Rightarrow> rat res" where
  "fraction_res vs P = bind_res (map_res P vs) (\<lambda>bs. Inr (if vs = [] then 0 else of_nat (length (filter id bs)) / of_nat (length vs)))"

definition uints :: "string list \<Rightarrow> int list res" where
  "uints vs = map_res uint_of (filter is_uint vs)"

definition monotonic_score :: "int list \<Rightarrow> rat" where
  "monotonic_score ns =
     (let changing = filter (\<lambda>(a, b). a \<noteq> b) (zip ns (tl ns)) in
      if changing = [] then 0 else of_nat (length (filter (\<lambda>(a, b). a < b) changing)) / of_nat (length changing))"

section \<open>Guesses\<close>

record guess =
  gu_position :: nat
  gu_mask :: string
  gu_values :: "string list"
  gu_semantic :: string
  gu_confidence :: rat
  gu_locked :: bool

definition set_guess :: "(rat \<Rightarrow> rat) \<Rightarrow> string \<Rightarrow> rat \<Rightarrow> guess \<Rightarrow> guess" where
  "set_guess rnd semantic conf g = g\<lparr>gu_semantic := semantic, gu_confidence := rnd (max 0 (min 1 conf)), gu_locked := True\<rparr>"

definition iana_protocols :: "int list" where
  "iana_protocols = [1, 2, 4, 6, 17, 41, 47, 50, 51, 58, 88, 89, 103, 112, 115, 132]"

definition protocol_confidence :: "string list \<Rightarrow> rat option res" where
  "protocol_confidence vs =
     (if fraction vs is_uint < 95 / 100 then Inr None
      else bind_res (uints vs) (\<lambda>ns.
        let nums = remdups ns in
        if nums = [] \<or> \<not> set nums \<subseteq> set iana_protocols \<or> 4 < length nums then Inr None
        else bind_res (fraction_res vs (\<lambda>v. if is_uint v then bind_res (uint_of v) (\<lambda>n. Inr (n \<in> set iana_protocols)) else Inr False)) (\<lambda>f.
          if f < 9 / 10 then Inr None else Inr (Some (f * (if length nums \<le> 2 then 1 else 85 / 100))))))"

definition bytecount_confidence :: "string list \<Rightarrow> string \<Rightarrow> rat option res" where
  "bytecount_confidence vs tag =
     (let f = fraction vs is_uint in
      if f < 9 / 10 then Inr None
      else bind_res (uints vs) (\<lambda>ns.
        let distinct_count = length (remdups ns);
            varied = (3 \<le> distinct_count \<and> length ns \<le> 2 * distinct_count);
            conf = f * (7 / 10 + 3 / 10 * monotonic_score ns)
        in if sql_upper tag \<noteq> ''BYTES'' then (if \<not> varied \<or> Max (set ns) < 1000 then Inr None else Inr (Some conf))
           else if distinct_count < 2 then Inr None else Inr (Some conf)))"

text \<open>\<^verbatim>\<open>_monotonic_score\<close> reads the same integers again.\<close>

definition classify_primary :: "(rat \<Rightarrow> rat) \<Rightarrow> time_env \<Rightarrow> guess \<Rightarrow> guess res" where
  "classify_primary rnd env g =
     (let vs = gu_values g; tag = gu_mask g; ip = fraction vs is_ip_value in
      if vs = [] then Inr g
      else if 3 / 4 \<le> ip then Inr (set_guess rnd ''ip_address'' ip g)
      else bind_res (protocol_confidence vs) (\<lambda>proto.
        case proto of
          Some p \<Rightarrow> Inr (set_guess rnd ''protocol'' p g)
        | None \<Rightarrow>
            (let act = fraction vs is_action in
             if 3 / 4 \<le> act \<and> length (remdups vs) \<le> 8 then Inr (set_guess rnd ''action'' act g)
             else bind_res (fraction_res vs (\<lambda>v. is_timestamp env v tag)) (\<lambda>ts.
               if sql_upper tag = ''TIMESTAMP'' then Inr (set_guess rnd ''timestamp'' (max ts (1 / 2)) g)
               else if 7 / 10 \<le> ts then Inr (set_guess rnd ''timestamp'' ts g) else Inr g))))"

definition classify_bytecount :: "(rat \<Rightarrow> rat) \<Rightarrow> guess \<Rightarrow> guess res" where
  "classify_bytecount rnd g =
     (if gu_locked g then Inr g
      else bind_res (bytecount_confidence (gu_values g) (gu_mask g)) (\<lambda>c.
        Inr (case c of None \<Rightarrow> g | Some x \<Rightarrow> set_guess rnd ''byte_count'' x g)))"

section \<open>Neighbours\<close>

definition is_ip_role :: "guess \<Rightarrow> bool" where
  "is_ip_role g \<longleftrightarrow> gu_semantic g \<in> {''ip_address'', ''source_ip'', ''destination_ip''}"

definition try_claim :: "(rat \<Rightarrow> rat) \<Rightarrow> guess list \<Rightarrow> guess \<Rightarrow> guess res" where
  "try_claim rnd neighbours g =
     (if gu_locked g \<or> gu_values g = [] then Inr g
      else bind_res (fraction_res (gu_values g) is_port_int) (\<lambda>f.
        let forced = (sql_upper (gu_mask g) = ''PORT'') in
        if f < (if forced then 1 / 2 else 7 / 10) then Inr g
        else if \<not> (list_ex (\<lambda>n. is_ip_role n \<or> gu_semantic n = ''port'') neighbours \<or> forced) then Inr g
        else Inr (set_guess rnd ''port'' (if forced then max f (1 / 2) else f) g)))"

text \<open>One sweep; what is to the left has been swept already.\<close>

fun sweep_ports :: "(rat \<Rightarrow> rat) \<Rightarrow> guess list \<Rightarrow> guess list \<Rightarrow> guess list res" where
  "sweep_ports rnd swept [] = Inr (rev swept)"
| "sweep_ports rnd swept (g # gs) = bind_res (try_claim rnd (take 1 swept @ take 1 gs) g) (\<lambda>g'. sweep_ports rnd (g' # swept) gs)"

definition refine_ports :: "(rat \<Rightarrow> rat) \<Rightarrow> guess list \<Rightarrow> guess list res" where
  "refine_ports rnd gs =
     bind_res (sweep_ports rnd [] gs) (\<lambda>gs1. bind_res (sweep_ports rnd [] (rev gs1)) (\<lambda>gs2. Inr (sort_key gu_position (rev gs2))))"

text \<open>\<^verbatim>\<open>\bport\b\<close>, with the character before.\<close>

definition word_part :: "char \<Rightarrow> bool" where
  "word_part c \<longleftrightarrow> is_alnum c \<or> c = CHR ''_''"

fun word_in :: "string \<Rightarrow> char option \<Rightarrow> string \<Rightarrow> bool" where
  "word_in w before [] = False"
| "word_in w before (c # cs) =
     ((starts_with w (c # cs) \<and> (case before of None \<Rightarrow> True | Some b \<Rightarrow> \<not> word_part b)
        \<and> (case drop (length w) (c # cs) of [] \<Rightarrow> True | d # _ \<Rightarrow> \<not> word_part d))
      \<or> word_in w (Some c) cs)"

definition keyword_lookbehind :: nat where
  "keyword_lookbehind = 24"

definition interface_keywords :: "string list" where
  "interface_keywords = [''interface'', ''intf'', ''iface'']"

definition refine_interface :: "(rat \<Rightarrow> rat) \<Rightarrow> string \<Rightarrow> guess \<Rightarrow> guess" where
  "refine_interface rnd segment g =
     (let preceding = py_lower (drop (length segment - keyword_lookbehind) segment);
          f = fraction (gu_values g) (\<lambda>v. \<not> is_uint v); n = length (remdups (gu_values g))
      in if gu_locked g \<or> gu_values g = [] then g
         else if \<not> (list_ex (\<lambda>k. contains_sub k preceding) interface_keywords \<or> word_in ''port'' None preceding) then g
         else if f < 4 / 5 \<or> 10 < n then g
         else set_guess rnd ''interface_name'' (f * (if n \<le> 6 then 1 else 7 / 10)) g)"

text \<open>The addresses in order: the first is the source, the second the destination.\<close>

fun assign_roles :: "nat \<Rightarrow> guess list \<Rightarrow> guess list" where
  "assign_roles k [] = []"
| "assign_roles k (g # gs) =
     (if gu_semantic g = ''ip_address''
      then (if k = 0 then g\<lparr>gu_semantic := ''source_ip''\<rparr> else if k = 1 then g\<lparr>gu_semantic := ''destination_ip''\<rparr> else g) # assign_roles (k + 1) gs
      else g # assign_roles k gs)"

definition unknown_confidence :: "(rat \<Rightarrow> rat) \<Rightarrow> time_env \<Rightarrow> string list \<Rightarrow> rat res" where
  "unknown_confidence rnd env vs =
     (if vs = [] then Inr 0
      else bind_res (fraction_res vs is_port_int) (\<lambda>port. bind_res (fraction_res vs (\<lambda>v. is_timestamp env v [])) (\<lambda>ts.
        Inr (rnd (max 0 (1 - foldl max (fraction vs is_ip_value) [fraction vs is_action, port, ts, fraction vs is_uint]))))))"

definition grade_unknown :: "(rat \<Rightarrow> rat) \<Rightarrow> time_env \<Rightarrow> guess \<Rightarrow> guess res" where
  "grade_unknown rnd env g =
     (if gu_semantic g = ''unknown''
      then bind_res (unknown_confidence rnd env (gu_values g)) (\<lambda>c. Inr (g\<lparr>gu_confidence := c\<rparr>)) else Inr g)"

section \<open>The inference\<close>

record field_guess =
  fg_position :: nat
  fg_mask_type :: string
  fg_semantic :: string
  fg_confidence :: rat
  fg_examples :: "string list"

definition max_examples :: nat where
  "max_examples = 5"

definition guess_dict :: "guess \<Rightarrow> field_guess" where
  "guess_dict g = \<lparr>fg_position = gu_position g, fg_mask_type = gu_mask g, fg_semantic = gu_semantic g, fg_confidence = gu_confidence g,
     fg_examples = take max_examples (first_occurrences (gu_values g))\<rparr>"

definition new_guess :: "pyval list list \<Rightarrow> nat \<Rightarrow> string \<Rightarrow> guess" where
  "new_guess rows i tag = \<lparr>gu_position = i, gu_mask = tag, gu_values = column_values rows i, gu_semantic = ''unknown'', gu_confidence = 0, gu_locked = False\<rparr>"

definition new_guesses :: "pyval list list \<Rightarrow> (string \<times> string) list \<Rightarrow> guess list" where
  "new_guesses rows marks = map (\<lambda>(i, m). new_guess rows i (snd m)) (zip [0..<length marks] marks)"

definition infer_field_types :: "(rat \<Rightarrow> rat) \<Rightarrow> time_env \<Rightarrow> string \<Rightarrow> pyval list list \<Rightarrow> field_guess list res" where
  "infer_field_types rnd env template rows =
     (let marks = mask_marks [] template in
      bind_res (map_res (classify_primary rnd env) (new_guesses rows marks)) (\<lambda>gs1.
      bind_res (refine_ports rnd gs1) (\<lambda>gs2.
      bind_res (map_res (classify_bytecount rnd) gs2) (\<lambda>gs3.
      let gs4 = map2 (\<lambda>m g. refine_interface rnd (fst m) g) marks gs3; gs5 = assign_roles 0 gs4
      in bind_res (map_res (grade_unknown rnd env) gs5) (\<lambda>gs6. Inr (map guess_dict gs6))))))"

section \<open>Properties\<close>

text \<open>What a rule leaves of a guess, whatever it decides.\<close>

definition same_place :: "guess \<Rightarrow> guess \<Rightarrow> bool" where
  "same_place g h \<longleftrightarrow> gu_position h = gu_position g \<and> gu_mask h = gu_mask g \<and> gu_values h = gu_values g"

definition plain_role :: "guess \<Rightarrow> bool" where
  "plain_role g \<longleftrightarrow> gu_semantic g \<notin> {''source_ip'', ''destination_ip''}"

text \<open>A rule keeps the place, names no role of an address, and keeps a confidence in bounds.\<close>

definition good_rule :: "(rat \<Rightarrow> rat) \<Rightarrow> guess \<Rightarrow> guess \<Rightarrow> bool" where
  "good_rule rnd g h \<longleftrightarrow> same_place g h \<and> (if plain_role g then plain_role h else True)
     \<and> (gu_confidence h = gu_confidence g \<or> (\<exists>x. 0 \<le> x \<and> x \<le> 1 \<and> gu_confidence h = rnd x))"

lemma good_refl [simp, intro]: "good_rule rnd g g"
  by (simp add: good_rule_def same_place_def)

lemma good_trans: "good_rule rnd g h \<Longrightarrow> good_rule rnd h k \<Longrightarrow> good_rule rnd g k"
  by (auto simp: good_rule_def same_place_def split: if_splits)

lemma good_set [simp]: "w \<notin> {''source_ip'', ''destination_ip''} \<Longrightarrow> good_rule rnd g (set_guess rnd w c g)"
  by (auto simp: good_rule_def same_place_def plain_role_def set_guess_def intro!: exI [of _ "max 0 (min 1 c)"])

lemma good_primary: "classify_primary rnd env g = Inr h \<Longrightarrow> good_rule rnd g h"
  by (auto simp: classify_primary_def Let_def bind_res_Inr_iff split: if_splits option.splits)

lemma good_bytecount: "classify_bytecount rnd g = Inr h \<Longrightarrow> good_rule rnd g h"
  by (auto simp: classify_bytecount_def bind_res_Inr_iff split: if_splits option.splits)

lemma good_claim: "try_claim rnd ns g = Inr h \<Longrightarrow> good_rule rnd g h"
  by (auto simp: try_claim_def Let_def bind_res_Inr_iff split: if_splits)

lemma good_interface: "good_rule rnd g (refine_interface rnd seg g)"
  by (simp add: refine_interface_def Let_def)

lemma good_map_res: "map_res f gs = Inr hs \<Longrightarrow> (\<And>g h. f g = Inr h \<Longrightarrow> good_rule rnd g h) \<Longrightarrow> list_all2 (good_rule rnd) gs hs"
  by (auto simp: map_res_Inr_iff elim: list_all2_mono)

lemma sweep_good: "sweep_ports rnd swept gs = Inr hs \<Longrightarrow> \<exists>ks. hs = rev swept @ ks \<and> list_all2 (good_rule rnd) gs ks"
proof (induction gs arbitrary: swept)
  case (Cons g gs)
  obtain h where h: "try_claim rnd (take 1 swept @ take 1 gs) g = Inr h" and rest: "sweep_ports rnd (h # swept) gs = Inr hs"
    using Cons.prems by (auto simp: bind_res_Inr_iff)
  obtain ks where "hs = rev (h # swept) @ ks" "list_all2 (good_rule rnd) gs ks" using Cons.IH [OF rest] by blast
  then show ?case using good_claim [OF h] by (intro exI [of _ "h # ks"]) simp
qed simp

lemma good_list_trans: "list_all2 (good_rule rnd) a b \<Longrightarrow> list_all2 (good_rule rnd) b c \<Longrightarrow> list_all2 (good_rule rnd) a c"
  using list_all2_trans [of "good_rule rnd" "good_rule rnd" "good_rule rnd" a b c] good_trans by blast

lemma good_positions: "list_all2 (good_rule rnd) gs hs \<Longrightarrow> map gu_position hs = map gu_position gs \<and> map gu_mask hs = map gu_mask gs"
  by (induction rule: list_all2_induct) (auto simp: good_rule_def same_place_def)

lemma good_plain: "list_all2 (good_rule rnd) gs hs \<Longrightarrow> list_all plain_role gs \<Longrightarrow> list_all plain_role hs"
proof (induction rule: list_all2_induct)
  case (Cons g gs h hs)
  have "plain_role h" using Cons.hyps(1) Cons.prems by (simp add: good_rule_def)
  then show ?case using Cons by simp
qed simp

lemma good_confident:
  "list_all2 (good_rule rnd) gs hs \<Longrightarrow> (\<And>x. unit_interval x \<Longrightarrow> unit_interval (rnd x)) \<Longrightarrow>
   list_all (\<lambda>g. unit_interval (gu_confidence g)) gs \<Longrightarrow> list_all (\<lambda>g. unit_interval (gu_confidence g)) hs"
proof (induction rule: list_all2_induct)
  case (Cons g gs h hs)
  from Cons.hyps(1) consider "gu_confidence h = gu_confidence g" | x where "0 \<le> x" "x \<le> 1" "gu_confidence h = rnd x"
    by (auto simp: good_rule_def)
  then have "unit_interval (gu_confidence h)"
  proof cases
    case 1
    then show ?thesis using Cons.prems by simp
  next
    case 2
    then show ?thesis using Cons.prems(1) [of x] by (simp add: unit_interval_def)
  qed
  then show ?case using Cons by simp
qed simp

lemma ports_good:
  assumes "refine_ports rnd gs = Inr hs" and s: "sorted (map gu_position gs)"
  shows "list_all2 (good_rule rnd) gs hs"
proof -
  obtain a b where a: "sweep_ports rnd [] gs = Inr a" and b: "sweep_ports rnd [] (rev a) = Inr b" and hs: "hs = sort_key gu_position (rev b)"
    using assms(1) by (auto simp: refine_ports_def bind_res_Inr_iff)
  have "list_all2 (good_rule rnd) gs a" using sweep_good [OF a] by simp
  moreover have "list_all2 (good_rule rnd) (rev a) b" using sweep_good [OF b] by simp
  then have "list_all2 (good_rule rnd) a (rev b)" by (simp only: list_all2_rev1)
  ultimately have g: "list_all2 (good_rule rnd) gs (rev b)" by (rule good_list_trans)
  then have "sorted (map gu_position (rev b))" using good_positions s by metis
  then have "sort_key gu_position (rev b) = rev b" by (rule sort_key_id_if_sorted)
  then show ?thesis using g hs by simp
qed

lemma new_guesses_fresh: "list_all (\<lambda>g. plain_role g \<and> gu_confidence g = 0) (new_guesses rows marks)"
  by (auto simp: new_guesses_def new_guess_def plain_role_def list_all_iff)

lemma new_guesses_place:
  "map gu_position (new_guesses rows marks) = [0..<length marks]" "map gu_mask (new_guesses rows marks) = map snd marks"
proof -
  have "map gu_position (new_guesses rows marks) = map fst (zip [0..<length marks] marks)"
    "map gu_mask (new_guesses rows marks) = map snd (map snd (zip [0..<length marks] marks))"
    by (simp_all add: new_guesses_def new_guess_def split_def comp_def del: map_fst_zip map_snd_zip)
  then show "map gu_position (new_guesses rows marks) = [0..<length marks]" "map gu_mask (new_guesses rows marks) = map snd marks"
    by simp_all
qed

lemma infer_parts:
  assumes "infer_field_types rnd env template rows = Inr out"
  shows "\<exists>gs hs. list_all2 (good_rule rnd) (new_guesses rows (mask_marks [] template)) gs
    \<and> map_res (grade_unknown rnd env) (assign_roles 0 gs) = Inr hs \<and> out = map guess_dict hs"
proof -
  let ?marks = "mask_marks [] template" and ?gs = "new_guesses rows (mask_marks [] template)"
  obtain gs1 gs2 gs3 hs where g1: "map_res (classify_primary rnd env) ?gs = Inr gs1" and g2: "refine_ports rnd gs1 = Inr gs2"
    and g3: "map_res (classify_bytecount rnd) gs2 = Inr gs3"
    and hs: "map_res (grade_unknown rnd env) (assign_roles 0 (map2 (\<lambda>m g. refine_interface rnd (fst m) g) ?marks gs3)) = Inr hs" "out = map guess_dict hs"
    using assms by (auto simp: infer_field_types_def Let_def bind_res_Inr_iff)
  have p1: "list_all2 (good_rule rnd) ?gs gs1" by (rule good_map_res [OF g1]) (rule good_primary)
  have "sorted (map gu_position gs1)" using good_positions [OF p1] new_guesses_place(1) by simp
  then have "list_all2 (good_rule rnd) gs1 gs2" by (rule ports_good [OF g2])
  moreover have "list_all2 (good_rule rnd) gs2 gs3" by (rule good_map_res [OF g3]) (rule good_bytecount)
  ultimately have p3: "list_all2 (good_rule rnd) ?gs gs3" using good_list_trans p1 by blast
  have "length gs3 = length ?marks" using list_all2_lengthD [OF p3] by (simp add: new_guesses_def)
  then have "list_all2 (good_rule rnd) gs3 (map2 (\<lambda>m g. refine_interface rnd (fst m) g) ?marks gs3)"
    by (auto simp: list_all2_conv_all_nth good_interface)
  then show ?thesis using good_list_trans [OF p3] hs by blast
qed

lemma roles_place: "map gu_position (assign_roles k gs) = map gu_position gs" "map gu_mask (assign_roles k gs) = map gu_mask gs"
  "map gu_confidence (assign_roles k gs) = map gu_confidence gs" "map gu_values (assign_roles k gs) = map gu_values gs"
  by (induction k gs rule: assign_roles.induct) auto

lemma grade_keeps:
  "grade_unknown rnd env g = Inr h \<Longrightarrow> gu_position h = gu_position g \<and> gu_mask h = gu_mask g \<and> gu_semantic h = gu_semantic g"
  by (auto simp: grade_unknown_def bind_res_Inr_iff split: if_splits)

lemma grade_all_keeps:
  "map_res (grade_unknown rnd env) gs = Inr hs \<Longrightarrow>
   map gu_position hs = map gu_position gs \<and> map gu_mask hs = map gu_mask gs \<and> map gu_semantic hs = map gu_semantic gs"
proof -
  assume "map_res (grade_unknown rnd env) gs = Inr hs"
  then have "list_all2 (\<lambda>g h. grade_unknown rnd env g = Inr h) gs hs" by (simp add: map_res_Inr_iff)
  then show ?thesis by (induction rule: list_all2_induct) (auto dest: grade_keeps)
qed

definition address_roles :: "string list" where
  "address_roles = [''source_ip'', ''destination_ip'', ''ip_address'']"

definition role_of :: "nat \<Rightarrow> string" where
  "role_of k = (if k = 0 then ''source_ip'' else if k = 1 then ''destination_ip'' else ''ip_address'')"

lemma roles_in_order:
  "list_all plain_role gs \<Longrightarrow>
   filter (\<lambda>w. w \<in> set address_roles) (map gu_semantic (assign_roles k gs)) =
     map role_of [k..<k + length (filter (\<lambda>g. gu_semantic g = ''ip_address'') gs)]"
proof (induction k gs rule: assign_roles.induct)
  case (2 k g gs)
  show ?case
  proof (cases "gu_semantic g = ''ip_address''")
    case True
    then show ?thesis using 2 by (simp add: role_of_def address_roles_def upt_conv_Cons del: upt_Suc)
  next
    case False
    then show ?thesis using 2 by (simp add: address_roles_def plain_role_def)
  qed
qed simp

text \<open>
  C24. There is one guess for each wildcard, in the order of the template, with the text of its mask; and among the guesses that are
  addresses the first is the source, the second the destination, and no other is either.
\<close>

theorem inference_shape:
  "case infer_field_types rnd env template rows of
     Inl x \<Rightarrow> True
   | Inr gs \<Rightarrow>
       map fg_position gs = [0..<length (mask_marks [] template)] \<and> map fg_mask_type gs = map snd (mask_marks [] template)
       \<and> (let roles = filter (\<lambda>w. w \<in> set address_roles) (map fg_semantic gs) in roles = map role_of [0..<length roles])"
proof (cases "infer_field_types rnd env template rows")
  case (Inr out)
  obtain gs hs where good: "list_all2 (good_rule rnd) (new_guesses rows (mask_marks [] template)) gs"
    and hs: "map_res (grade_unknown rnd env) (assign_roles 0 gs) = Inr hs" and out: "out = map guess_dict hs"
    using infer_parts [OF Inr] by blast
  have plain: "list_all plain_role gs"
    using good_plain [OF good] new_guesses_fresh by (simp add: list_all_iff)
  have "map fg_position out = map gu_position hs" "map fg_mask_type out = map gu_mask hs" "map fg_semantic out = map gu_semantic hs"
    by (simp_all add: out guess_dict_def)
  then show ?thesis
    using grade_all_keeps [OF hs] good_positions [OF good] new_guesses_place(1,2) [of rows "mask_marks [] template"] roles_place [of 0 gs]
      roles_in_order [OF plain, of 0] by (simp add: Inr Let_def)
qed simp

lemma fraction_sign: "0 \<le> fraction vs P"
  by (simp add: fraction_def)

lemma le_foldl_max: "a \<le> foldl max a (xs :: rat list)"
proof (induction xs arbitrary: a)
  case (Cons x xs)
  show ?case using Cons.IH [of "max a x"] by (simp add: max.coboundedI1)
qed simp

lemma unknown_unit:
  assumes "\<And>x. unit_interval x \<Longrightarrow> unit_interval (rnd x)" "unknown_confidence rnd env vs = Inr c"
  shows "unit_interval c"
proof (cases "vs = []")
  case False
  then obtain port ts where c: "c = rnd (max 0 (1 - foldl max (fraction vs is_ip_value) [fraction vs is_action, port, ts, fraction vs is_uint]))"
    using assms(2) by (auto simp: unknown_confidence_def bind_res_Inr_iff simp del: foldl_Cons)
  have "0 \<le> foldl max (fraction vs is_ip_value) [fraction vs is_action, port, ts, fraction vs is_uint]"
    by (rule order_trans [OF fraction_sign le_foldl_max])
  then show ?thesis unfolding c by (intro assms(1)) (simp add: unit_interval_def del: foldl_Cons)
qed (use assms(2) in \<open>simp add: unknown_confidence_def unit_interval_def\<close>)

lemma grade_unit:
  assumes "\<And>x. unit_interval x \<Longrightarrow> unit_interval (rnd x)" "grade_unknown rnd env g = Inr h" "unit_interval (gu_confidence g)"
  shows "unit_interval (gu_confidence h)"
  using assms(2,3) unknown_unit [OF assms(1)] by (auto simp: grade_unknown_def bind_res_Inr_iff split: if_splits)

lemma grade_all_unit:
  assumes rnd: "\<And>x. unit_interval x \<Longrightarrow> unit_interval (rnd x)" and hs: "map_res (grade_unknown rnd env) gs = Inr hs"
    and gs: "list_all (\<lambda>g. unit_interval (gu_confidence g)) gs"
  shows "list_all (\<lambda>g. unit_interval (gu_confidence g)) hs"
proof -
  have "list_all2 (\<lambda>g h. grade_unknown rnd env g = Inr h) gs hs" using hs by (simp add: map_res_Inr_iff)
  then show ?thesis using gs
  proof (induction rule: list_all2_induct)
    case (Cons g gs h hs)
    then show ?case using grade_unit [OF rnd Cons.hyps(1)] by simp
  qed simp
qed

text \<open>
  With rounding that keeps the unit interval, every confidence is between 0 and 1.
\<close>

theorem inference_confident:
  assumes "\<And>x. unit_interval x \<Longrightarrow> unit_interval (rnd x)" "infer_field_types rnd env template rows = Inr gs"
  shows "list_all unit_interval (map fg_confidence gs)"
proof -
  obtain as hs where good: "list_all2 (good_rule rnd) (new_guesses rows (mask_marks [] template)) as"
    and hs: "map_res (grade_unknown rnd env) (assign_roles 0 as) = Inr hs" and out: "gs = map guess_dict hs"
    using infer_parts [OF assms(2)] by blast
  have "list_all (\<lambda>g. unit_interval (gu_confidence g)) (new_guesses rows (mask_marks [] template))"
    using new_guesses_fresh [of rows "mask_marks [] template"] by (simp add: list_all_iff unit_interval_def)
  then have "list_all (\<lambda>g. unit_interval (gu_confidence g)) as" using good_confident [OF good assms(1)] by blast
  then have "list_all unit_interval (map gu_confidence (assign_roles 0 as))" by (simp only: roles_place) (simp add: list_all_iff)
  then have "list_all (\<lambda>g. unit_interval (gu_confidence g)) hs"
    using grade_all_unit [OF assms(1) hs] by (simp add: list_all_iff)
  then show ?thesis by (simp add: out guess_dict_def list_all_iff)
qed

section \<open>Digits that are no number\<close>

text \<open>
  \<^verbatim>\<open>isdigit\<close> accepts superscript digits, \<^verbatim>\<open>int\<close> does not: one such value ends the inference for the whole template.
\<close>

lemma superscript_ends_inference:
  "infer_field_types rnd env ''<NUM>'' [[PStr [ch 178]]] = Inl (ValueError ''invalid literal for int()'')"
proof -
  have marks: "mask_marks [] ''<NUM>'' = [([], ''NUM'')]" by code_simp
  have vals: "column_values [[PStr [ch 178]]] 0 = [[ch 178]]" by (simp add: column_values_def py_str_def) code_simp
  have digit: "is_uint [ch 178]" "uint_of [ch 178] = Inl (ValueError ''invalid literal for int()'')" "\<not> is_ip_value [ch 178]" by code_simp+
  show ?thesis
    by (simp add: infer_field_types_def marks new_guesses_def new_guess_def vals classify_primary_def fraction_def digit
        protocol_confidence_def uints_def)
qed

end
