(* ===== verification/Spec2Isabelle.thy ===== *)
theory Spec2Isabelle
  imports Mapper_Sharing File_Tail Verify_Command Reprocess Compaction Net_Intake Enricher_Chain Dlq_Replay Field_Inference
begin

text \<open>
  ULPF is a log processing framework: it takes raw events from many intakes, keeps the bytes it received as evidence, seals
  them in a signed chain of Merkle roots, parses and normalises them to OCSF records, enriches and validates these, and
  delivers them to several sinks. This development models the Python package \<^verbatim>\<open>src/ulpf\<close>. Every definition is
  a translation of the function, method or class its theory names; text beginning with \<^verbatim>\<open>C\<close> and a number marks the main
  theorems.

  \<^bold>\<open>How the program works.\<close> A listener (\<^verbatim>\<open>ulpf/ingest\<close>) turns bytes into a \<^verbatim>\<open>RawEvent\<close>, whose hash is taken before anything
  else sees it, and puts it on a bounded buffer. The workers of \<^verbatim>\<open>core/pipeline.py\<close> take events off and run them through the stages:
  raw store, integrity, parse, normalize, enrich, validate, sinks. A stage passes the event on, ends it, or raises; what
  cannot be processed goes to the dead-letter queue. The integrity stage batches hashes into the ledger; the commands
  \<^verbatim>\<open>ulpf verify\<close> and \<^verbatim>\<open>ulpf reprocess\<close> work from what is stored.

  \<^bold>\<open>Foundations.\<close>
  \<^item> \<open>Ulpf_Prelude\<close>: Python values (\<open>pyval\<close>), exceptions (\<open>exn\<close>, the left side of a result), insertion-ordered dictionaries.
    \<open>Py_Text\<close>, \<open>Py_Value\<close>, \<open>Py_Time\<close>, \<open>Json_Text\<close>, \<open>Base64\<close>, \<open>Ip_Address\<close>, \<open>Sha256\<close>: the parts of the language and the
    standard library that the sources use. Their round trips (\<open>json_loads_dumps\<close>, base64, address texts, dates) carry those
    of the components. \<open>Py_Time\<close> also has \<^verbatim>\<open>core/timeutil.py\<close>.
  \<^item> \<open>Append_Log\<close>: the contract of an append-only store as a locale, interpreted by the ledger, the raw store and
    the dead-letter queue.

  \<^bold>\<open>Evidence.\<close>
  \<^item> \<open>Events\<close> (\<^verbatim>\<open>core/models.py\<close>, \<^verbatim>\<open>integrity/hashing.py\<close>): events and the invariant that the hash is that of the bytes.
  \<^item> \<open>Merkle\<close> (\<^verbatim>\<open>integrity/merkle.py\<close>): roots and proofs, complete and sound; a forged proof yields a collision of the digest.
  \<^item> \<open>Ledger\<close> (\<^verbatim>\<open>integrity/ledger.py\<close>): lines, opening, appending, verification. Verification accepts exactly the chains that satisfy
    the specification, every reachable ledger verifies, and the head binds the history.
  \<^item> \<open>Raw_Store\<close> (\<^verbatim>\<open>sinks/raw_store.py\<close>), \<open>Dlq\<close> (\<^verbatim>\<open>sinks/dlq.py\<close>): what is written is read back, byte for byte.
  \<^item> \<open>Integrity_Stage\<close> (\<^verbatim>\<open>integrity/stage.py\<close>, \<^verbatim>\<open>index.py\<close>, \<^verbatim>\<open>proofs.py\<close>): the stage seals every event in exactly one batch, and the
    proof of any sealed event holds.
  \<^item> \<open>Verify_Command\<close> (\<^verbatim>\<open>cli/verify.py\<close>): the four commands. After a run that sealed everything they succeed; an altered event is reported.

  \<^bold>\<open>Intake and the pipeline.\<close>
  \<^item> \<open>Intake\<close> (\<^verbatim>\<open>ingest/queue.py\<close>, \<^verbatim>\<open>ingest/buffer\<close>): the bounded queue, the in-process and the Kafka buffer, with the locale both satisfy.
  \<^item> \<open>Stream_Framing\<close> (\<^verbatim>\<open>ingest/syslog_tcp.py\<close>), \<open>File_Tail\<close> (\<^verbatim>\<open>ingest/file_tail.py\<close>), \<open>Net_Intake\<close> (\<^verbatim>\<open>ingest/syslog_udp.py\<close>,
    \<^verbatim>\<open>ingest/http_intake.py\<close>): framing does not depend on how the bytes arrive, every complete line is delivered once, every
    datagram once, every request is accounted for.
  \<^item> \<open>Pipeline\<close> (\<^verbatim>\<open>core/pipeline.py\<close>): stages, workers, shutdown; the interleaving is an explicit sequence of steps. Events are conserved.

  \<^bold>\<open>Parsing.\<close>
  \<^item> \<open>Parse_Engine\<close>, \<open>Kv_Engine\<close>, \<open>Cef_Leef\<close>, \<open>Tabular_Engines\<close>, \<open>Template_Engines\<close> (\<^verbatim>\<open>parse/engines\<close>): the engine contract as a locale,
    interpreted by every engine, and their round trips. \<open>Envelope\<close> (\<^verbatim>\<open>parse/syslog_envelope.py\<close>).
  \<^item> \<open>Sources\<close> (\<^verbatim>\<open>parse/dsl\<close>): source definitions and their registry. \<open>Coordinator\<close> (\<^verbatim>\<open>parse/decode.py\<close>, \<^verbatim>\<open>detect/sniffer.py\<close>,
    \<^verbatim>\<open>parse/registry.py\<close>, \<^verbatim>\<open>parse/coordinator.py\<close>): from bytes to fields. \<open>Template_Store\<close> (\<^verbatim>\<open>parse/templates\<close>).

  \<^bold>\<open>Normalisation and enrichment.\<close>
  \<^item> \<open>Ocsf\<close>, \<open>Mapper\<close>, \<open>Mapper_Sharing\<close>, \<open>Validator\<close>, \<open>Normalize_Stage\<close>, \<open>Crosswalk\<close> (\<^verbatim>\<open>normalize\<close>): nothing parsed is lost, every record can be
    traced to its event, what the validator passes is well formed. \<open>Mapper_Sharing\<close> has an explicit store for the constants that
    the mapper shares between records.
  \<^item> \<open>Cidr\<close>, \<open>Network_Context\<close>, \<open>Geoip\<close>, \<open>Threat_Intel\<close>, \<open>Attack_Tagger\<close>, \<open>Enrichment\<close>, \<open>Enricher_Chain\<close> (\<^verbatim>\<open>enrich\<close>): the four enrichers,
    each against a specification of its answer; the contract of an enricher as a locale they all satisfy; the chain, in which
    one failure costs one block, and the stage.

  \<^bold>\<open>Sinks.\<close>
  \<^item> \<open>Sink_Manager\<close>, \<open>Parquet_Sink\<close>, \<open>Clickhouse_Sink\<close>, \<open>Export_Sinks\<close>, \<open>Compaction\<close> (\<^verbatim>\<open>sinks\<close>): what is accepted is stored, waiting,
    in the spool, or counted as dropped; compaction keeps the rows, wherever it stops. \<open>Reprocess\<close> (\<^verbatim>\<open>cli/reprocess.py\<close>).
  \<^item> \<open>Lake_Query\<close> (\<^verbatim>\<open>sinks/duckdb_query.py\<close>): the statements over the lake and the guard that lets only reading ones through, against
    a reader of SQL literals. \<open>Events_Api\<close> (\<^verbatim>\<open>api/routes/events.py\<close>, \<^verbatim>\<open>sinks/clickhouse_query.py\<close>): the routes over events; a record
    comes back from its columns, and filter values are bound, never written into a statement.
  \<^item> \<open>Dlq_Replay\<close> (\<^verbatim>\<open>cli/dlq.py\<close>, \<^verbatim>\<open>api/routes/dlq.py\<close>): dead letters run again through the stages and the sinks; the queue only
    grows, and what came through is marked. \<open>Suggestion_Score\<close>, \<open>Field_Inference\<close> (\<^verbatim>\<open>parse/templates/score.py\<close>, \<^verbatim>\<open>inference.py\<close>,
    \<^verbatim>\<open>cli/suggest_parser.py\<close>): how well a drafted definition does, and what the wildcards of a template mean.

  \<^bold>\<open>Conventions.\<close> State is passed explicitly, as a record per class. Exceptions are values, and every raise and early return is a branch.
  Clock readings, uids and what other packages answer (Ed25519 signatures, regular expressions, Drain3, pyarrow, the servers, YAML)
  are arguments of the definitions. A file is its text, a JSON or YAML document its value where the source reads it as one. Text is
  one character per code point, code points above Latin-1 all being the same one; bytes are kept exactly. Python's integers
  are unbounded, so \<open>int\<close> and \<open>nat\<close> are used; fractions are exact rationals, with rounding as an argument; SHA-256 alone works on 32-bit words.

  \<^bold>\<open>Bounds.\<close> \<open>parse_value\<close> (JSON) has the length of its text as bound, which each call shortens (\<open>parse_shortens\<close>); \<open>hec_objects\<close> likewise
  (\<open>hec_rounds_enough\<close>). The retry loops count the attempts the source counts. The other loops are structural or have a
  termination proof.

  \<^bold>\<open>Not modelled.\<close> Key generation and signing (\<^verbatim>\<open>integrity/signing.py\<close>), logging, metrics, settings and wiring, which compute nothing;
  the drafting of a source definition for a person (\<^verbatim>\<open>parse/templates/suggest.py\<close>); the machine
  learning jobs, which are floating-point code over numpy and scikit-learn; what DuckDB and ClickHouse do with a statement;
  the other handlers of the web API and the remaining commands, which format what the modelled components hold; the benchmarks.
  Of the modelled files, console output, sockets and task cancellation are left out, as each theory says.
\<close>

end
